(* ===== verification/Prelude.thy ===== *)
theory Prelude
  imports Main "HOL-Library.Word" "HOL-Library.Monad_Syntax"
begin

text \<open>
  Shared types, error codes and generic lemmas of the development.

  Machine integers of the C code are words of their width (\<open>u8\<close>, \<open>u16\<close>, \<open>u32\<close>).
  Where C promotes to \<open>int\<close> and compares without casting back, the model compares the
  natural numbers given by \<^const>\<open>unat\<close>, so that no wrap-around is introduced that C does not
  have.  A pointer is an optional address: \<^const>\<open>None\<close> is \<open>NULL\<close>.  An operation that can
  abort (a failed \<open>LWIP_ASSERT\<close> or \<open>LWIP_ERROR\<close>, which both call \<open>abort()\<close> in this build,
  a \<open>NULL\<close> or dangling dereference, an out-of-bounds access or a double free) has an optional
  result, and \<^const>\<open>None\<close> is the crash.
\<close>

type_synonym byte = "8 word"
type_synonym u8 = "8 word"
type_synonym u16 = "16 word"
type_synonym u32 = "32 word"
type_synonym addr = nat
type_synonym ptr = "addr \<times> nat"

text \<open>The error codes of \<open>lwip/err.h\<close>.\<close>

datatype err_t =
    ERR_OK | ERR_MEM | ERR_BUF | ERR_TIMEOUT | ERR_RTE | ERR_INPROGRESS | ERR_VAL
  | ERR_WOULDBLOCK | ERR_USE | ERR_ALREADY | ERR_ISCONN | ERR_CONN | ERR_IF
  | ERR_ABRT | ERR_RST | ERR_CLSD | ERR_ARG

text \<open>\<open>LWIP_ASSERT\<close> and \<open>LWIP_ERROR\<close>: the rest of the code runs only if the condition holds.\<close>

definition lwip_assert :: "bool \<Rightarrow> unit option" where
  "lwip_assert c = (if c then Some () else None)"

lemma lwip_assert_simps [simp]:
  "lwip_assert True = Some ()" "lwip_assert False = None"
  by (simp_all add: lwip_assert_def)

lemma lwip_assert_eq_Some [simp]: "lwip_assert c = Some u \<longleftrightarrow> c"
  by (cases u) (simp add: lwip_assert_def)

named_theorems heap_simps \<open>projections of heap updates\<close>
named_theorems wf_intros \<open>introduction rules of the well-formedness predicates\<close>
named_theorems u16_arith \<open>unat of 16 bit arithmetic without wrap-around\<close>

section \<open>Words\<close>

lemma unat_u16_less [simp]: "unat (w :: u16) < 65536"
  by (rule order_less_le_trans [OF unsigned_less]) simp

lemma unat_u16_le [simp]: "unat (w :: u16) \<le> 65535"
  using unat_u16_less [of w] by linarith

lemma unat_u8_less [simp]: "unat (w :: u8) < 256"
  by (rule order_less_le_trans [OF unsigned_less]) simp

lemma unat_u16_sub [u16_arith]: "unat b \<le> unat a \<Longrightarrow> unat (a - b :: u16) = unat a - unat b"
  by (simp add: unat_sub word_le_nat_alt)

lemma unat_u16_add [u16_arith]:
  "unat a + unat b < 65536 \<Longrightarrow> unat (a + b :: u16) = unat a + unat b"
  by (simp add: unat_word_ariths)

lemma unat_u16_inc [u16_arith]: "unat w < 65535 \<Longrightarrow> unat (w + 1 :: u16) = unat w + 1"
  by (simp add: unat_word_ariths)

lemma unat_u16_add_mod: "unat (a + b :: u16) = (unat a + unat b) mod 65536"
  by (simp add: unat_word_ariths)

lemma unat_of_nat_u16 [u16_arith]: "n < 65536 \<Longrightarrow> unat (of_nat n :: u16) = n"
  by (simp add: unat_of_nat take_bit_eq_mod)

lemma unat_of_nat_u16_mod: "unat (of_nat n :: u16) = n mod 65536"
  by (simp add: unat_of_nat take_bit_eq_mod)

lemma unat_u16_min [simp]: "unat (min a b :: u16) = min (unat a) (unat b)"
  by (simp add: min_def word_le_nat_alt)

lemma u16_eq_unat: "(a :: u16) = b \<longleftrightarrow> unat a = unat b"
  by (simp add: word_unat_eq_iff)

section \<open>Segments of lists\<close>

text \<open>\<open>seg o n xs\<close>: the \<open>n\<close> elements of \<open>xs\<close> from index \<open>o\<close> on.\<close>

definition seg :: "nat \<Rightarrow> nat \<Rightarrow> 'a list \<Rightarrow> 'a list" where
  "seg off n xs = take n (drop off xs)"

definition splice_at :: "nat \<Rightarrow> 'a list \<Rightarrow> 'a list \<Rightarrow> 'a list" where
  "splice_at off ys xs = take off xs @ ys @ drop (off + length ys) xs"

lemma length_seg [simp]: "off + n \<le> length xs \<Longrightarrow> length (seg off n xs) = n"
  by (simp add: seg_def)

lemma seg_0 [simp]: "seg off 0 xs = []"
  by (simp add: seg_def)

lemma length_splice_at [simp]:
  "off + length ys \<le> length xs \<Longrightarrow> length (splice_at off ys xs) = length xs"
  by (simp add: splice_at_def)

lemma splice_at_Nil [simp]: "splice_at off [] xs = xs"
  by (simp add: splice_at_def)

lemma seg_splice_same [simp]:
  "off + length ys \<le> length xs \<Longrightarrow> seg off (length ys) (splice_at off ys xs) = ys"
  by (simp add: seg_def splice_at_def)

lemma seg_splice_prefix:
  assumes "off + n \<le> length xs" "length ys \<le> n"
  shows "seg off n (splice_at off ys xs) = ys @ drop (length ys) (seg off n xs)"
  using assms by (simp add: seg_def splice_at_def take_drop add.commute)

lemma seg_splice_inner:
  assumes "off + n \<le> length xs" "k + length ys \<le> n"
  shows "seg off n (splice_at (off + k) ys xs) = splice_at k ys (seg off n xs)"
proof -
  have "take (n - (k + length ys)) (drop (off + k + length ys) xs)
      = drop (k + length ys) (take n (drop off xs))"
    by (simp add: drop_take add_ac)
  moreover have "take k (drop off xs) = drop off (take (off + k) xs)"
    by (simp add: drop_take)
  ultimately show ?thesis
    using assms by (simp add: seg_def splice_at_def min_absorb1 add_ac)
qed

lemma seg_drop: "seg off n (drop k xs) = seg (k + off) n xs"
  by (simp add: seg_def add.commute)

lemma drop_seg: "drop k (seg off n xs) = seg (off + k) (n - k) xs"
  by (simp add: seg_def drop_take add.commute)

lemma take_seg: "take k (seg off n xs) = seg off (min k n) xs"
  by (simp add: seg_def)

lemma seg_append_seg:
  "seg off k xs @ seg (off + k) n xs = seg off (k + n) xs"
  by (simp add: seg_def take_add add.commute)

lemma nth_seg: "off + n \<le> length xs \<Longrightarrow> i < n \<Longrightarrow> seg off n xs ! i = xs ! (off + i)"
  by (simp add: seg_def)

end
