(* ===== verification/Fifo_Spec.thy ===== *)
theory Fifo_Spec
  imports Prelude
begin

text \<open>
  The interfaces of the two ring buffers of the program: the operations their clients call
  and the laws the providers promise, over a list abstraction.  \<open>fifo\<close> is what both share
  (taking the oldest element), \<open>bounded_fifo\<close> is the mailbox of the tcpip thread, which
  refuses an element when it is full, and \<open>lossy_fifo\<close> is the packet queue of the link and of
  a UDP connection, which evicts the oldest element when it is full.
\<close>

section \<open>Taking from a queue\<close>

locale fifo =
  fixes invar :: "'q \<Rightarrow> bool"
    and contents :: "'q \<Rightarrow> 'a list"
    and get :: "'q \<Rightarrow> ('a \<times> 'q) option"
  assumes get_None: "invar q \<Longrightarrow> get q = None \<longleftrightarrow> contents q = []"
    and get_Some: "invar q \<Longrightarrow> get q = Some (x, q') \<Longrightarrow> contents q = x # contents q' \<and> invar q'"
begin

lemma get_Cons:
  assumes "invar q" "contents q = x # xs"
  obtains q' where "get q = Some (x, q')" "contents q' = xs" "invar q'"
proof -
  from assms have "get q \<noteq> None" by (simp add: get_None)
  then obtain y q' where g: "get q = Some (y, q')" by fastforce
  from get_Some [OF assms(1) g] assms(2) show thesis
    using g that by simp
qed

end

section \<open>A queue that refuses when full\<close>

locale bounded_fifo = fifo invar contents get
  for invar :: "'q \<Rightarrow> bool" and contents :: "'q \<Rightarrow> 'a list" and get :: "'q \<Rightarrow> ('a \<times> 'q) option" +
  fixes put :: "'q \<Rightarrow> 'a \<Rightarrow> 'q option"
    and capacity :: nat
    and ready :: "'q \<Rightarrow> bool"
  assumes put_full: "invar q \<Longrightarrow> capacity \<le> length (contents q) \<Longrightarrow> put q x = None"
    and put_room: "invar q \<Longrightarrow> length (contents q) < capacity \<Longrightarrow> ready q \<Longrightarrow> put q x \<noteq> None"
    and put_Some: "invar q \<Longrightarrow> put q x = Some q' \<Longrightarrow> contents q' = contents q @ [x] \<and> invar q'"
begin

text \<open>A history of accepted and delivered elements of a run of the queue.\<close>

inductive history :: "'q \<Rightarrow> 'a list \<Rightarrow> 'a list \<Rightarrow> 'q \<Rightarrow> bool" for q0 where
  start: "history q0 [] [] q0"
| accept: "history q0 ins outs q \<Longrightarrow> put q x = Some q' \<Longrightarrow> history q0 (ins @ [x]) outs q'"
| deliver: "history q0 ins outs q \<Longrightarrow> get q = Some (x, q') \<Longrightarrow> history q0 ins (outs @ [x]) q'"

lemma history_fifo:
  assumes "history q0 ins outs q" "invar q0"
  shows "invar q \<and> contents q0 @ ins = outs @ contents q"
  using assms
proof (induction rule: history.induct)
  case start
  then show ?case by simp
next
  case (accept ins outs q x q')
  then show ?case using put_Some [of q x q'] by simp
next
  case (deliver ins outs q x q')
  then show ?case using get_Some [of q x q'] by simp
qed

lemma history_no_more_than_capacity:
  assumes "history q0 ins outs q" "invar q0" "length (contents q0) \<le> capacity"
  shows "length (contents q) \<le> capacity"
  using assms
proof (induction rule: history.induct)
  case start
  then show ?case by simp
next
  case (accept ins outs q x q')
  from accept have i: "invar q" using history_fifo by blast
  from put_full [OF i, of x] accept.hyps(2) have "length (contents q) < capacity" by fastforce
  then show ?case using put_Some [OF i accept.hyps(2)] by simp
next
  case (deliver ins outs q x q')
  from deliver have i: "invar q" using history_fifo by blast
  show ?case using get_Some [OF i deliver.hyps(2)] deliver by simp
qed

end

section \<open>A queue that evicts the oldest element when full\<close>

locale lossy_fifo = fifo invar contents get
  for invar :: "'q \<Rightarrow> bool" and contents :: "'q \<Rightarrow> 'a list" and get :: "'q \<Rightarrow> ('a \<times> 'q) option" +
  fixes push :: "'q \<Rightarrow> 'a \<Rightarrow> 'a list \<times> 'q"
    and capacity :: nat
  assumes capacity_pos: "0 < capacity"
    and push_room: "invar q \<Longrightarrow> length (contents q) < capacity \<Longrightarrow> push q x = (ev, q') \<Longrightarrow>
          ev = [] \<and> contents q' = contents q @ [x] \<and> invar q'"
    and push_full: "invar q \<Longrightarrow> length (contents q) = capacity \<Longrightarrow> push q x = (ev, q') \<Longrightarrow>
          ev = [hd (contents q)] \<and> contents q' = tl (contents q) @ [x] \<and> invar q'"
    and invar_capacity: "invar q \<Longrightarrow> length (contents q) \<le> capacity"
begin

lemma push_contents:
  assumes "invar q" "push q x = (ev, q')"
  shows "ev @ contents q' = contents q @ [x] \<and> invar q'"
proof (cases "length (contents q) < capacity")
  case True
  then show ?thesis using push_room [OF assms(1) True assms(2)] by simp
next
  case False
  then have f: "length (contents q) = capacity" using invar_capacity [OF assms(1)] by simp
  then have "contents q \<noteq> []" using capacity_pos by auto
  then show ?thesis using push_full [OF assms(1) f assms(2)] by simp
qed

text \<open>Pushing a list, collecting what is evicted: the newest \<open>capacity\<close> elements stay.\<close>

primrec push_all :: "'q \<Rightarrow> 'a list \<Rightarrow> 'a list \<times> 'q" where
  "push_all q [] = ([], q)"
| "push_all q (x # xs) =
     (let (ev, q1) = push q x; (ev', q2) = push_all q1 xs in (ev @ ev', q2))"

lemma push_all_contents:
  assumes "invar q" "push_all q xs = (ev, q')"
  shows "ev @ contents q' = contents q @ xs \<and> invar q'"
  using assms
proof (induction xs arbitrary: q ev q')
  case Nil
  then show ?case by simp
next
  case (Cons x xs)
  obtain e1 q1 where p: "push q x = (e1, q1)" by fastforce
  obtain e2 q2 where r: "push_all q1 xs = (e2, q2)" by fastforce
  from push_contents [OF Cons.prems(1) p] have c: "e1 @ contents q1 = contents q @ [x]" and i: "invar q1"
    by simp_all
  from Cons.IH [OF i r] have "e2 @ contents q2 = contents q1 @ xs" "invar q2" by simp_all
  moreover from Cons.prems(2) p r have "ev = e1 @ e2" "q' = q2" by simp_all
  ultimately show ?case using c by (metis append.assoc append_Cons append_Nil)
qed

lemma length_push:
  assumes "invar q" "push q x = (ev, q')"
  shows "length (contents q') = min capacity (Suc (length (contents q)))"
proof (cases "length (contents q) < capacity")
  case True
  then show ?thesis using push_room [OF assms(1) True assms(2)] by simp
next
  case False
  then have f: "length (contents q) = capacity" using invar_capacity [OF assms(1)] by simp
  then show ?thesis using push_full [OF assms(1) f assms(2)] capacity_pos by simp
qed

lemma length_push_all:
  assumes "invar q" "push_all q xs = (ev, q')"
  shows "length (contents q') = min capacity (length (contents q) + length xs)"
  using assms
proof (induction xs arbitrary: q ev q')
  case Nil
  then show ?case using invar_capacity by simp
next
  case (Cons x xs)
  obtain e1 q1 where p: "push q x = (e1, q1)" by fastforce
  obtain e2 q2 where r: "push_all q1 xs = (e2, q2)" by fastforce
  have i: "invar q1" using push_contents [OF Cons.prems(1) p] by simp
  from Cons.prems(2) p r have "q' = q2" by simp
  then show ?case using Cons.IH [OF i r] length_push [OF Cons.prems(1) p] by simp
qed

lemma push_all_newest:
  assumes "invar q" "push_all q xs = (ev, q')"
  shows "contents q' = drop (length (contents q) + length xs - capacity) (contents q @ xs)"
proof -
  have e: "ev @ contents q' = contents q @ xs" using push_all_contents [OF assms] by simp
  then have "length ev + length (contents q') = length (contents q) + length xs"
    by (metis length_append)
  with length_push_all [OF assms]
  have "length ev = length (contents q) + length xs - capacity" by simp
  then show ?thesis using e by (metis append_eq_conv_conj)
qed

end

end
