(* ===== verification/Sys_Mbox.thy ===== *)
theory Sys_Mbox
  imports Fifo_Spec
begin

text \<open>
  The semaphores and the mailbox of the Unix port (\<open>lwip/ports/unix/sys_arch.c\<close>), through
  which other threads hand messages to the tcpip thread.

  A semaphore is its counter.  The mailbox is the record of the source: two counters
  \<open>first\<close> and \<open>last\<close> that only grow (C \<open>int\<close>s, whose overflow is undefined and therefore a
  crash of the model), a ring of \<open>SYS_MBOX_SIZE\<close> slots and three semaphores.  Each function is
  the code from acquiring \<open>mbox->mutex\<close> to releasing it; a result \<^const>\<open>None\<close> means that the
  caller blocks on the mutex or crashes.
\<close>

section \<open>Semaphores\<close>

definition sys_sem_new_internal :: "u8 \<Rightarrow> nat" where
  "sys_sem_new_internal count = unat count"

text \<open>One pass of the wait: \<^const>\<open>None\<close> while the counter is 0 (the thread sleeps).\<close>

definition sys_arch_sem_wait :: "nat \<Rightarrow> nat option" where
  "sys_arch_sem_wait c = (if c \<le> 0 then None else Some (c - 1))"

definition sys_sem_signal :: "nat \<Rightarrow> nat" where
  "sys_sem_signal c = (let c = c + 1 in if c > 1 then 1 else c)"

lemma sys_sem_signal_eq [simp]: "sys_sem_signal c = 1"
  by (simp add: sys_sem_signal_def Let_def)

lemma sys_arch_sem_wait_simps [simp]:
  "sys_arch_sem_wait 0 = None" "sys_arch_sem_wait (Suc c) = Some c"
  by (simp_all add: sys_arch_sem_wait_def)

section \<open>The mailbox\<close>

definition SYS_MBOX_SIZE :: nat where "SYS_MBOX_SIZE = 128"

definition INT_MAX :: int where "INT_MAX = 2147483647"

record 'm sys_mbox =
  mb_first :: int
  mb_last :: int
  mb_msgs :: "'m list"
  mb_not_empty :: nat
  mb_not_full :: nat
  mb_mutex :: nat
  mb_wait_send :: int

text \<open>\<open>malloc\<close> leaves the slots uninitialised: their first contents are a parameter.\<close>

definition sys_mbox_new :: "'m list \<Rightarrow> 'm sys_mbox" where
  "sys_mbox_new junk = \<lparr>mb_first = 0, mb_last = 0, mb_msgs = junk,
     mb_not_empty = sys_sem_new_internal 0, mb_not_full = sys_sem_new_internal 0,
     mb_mutex = sys_sem_new_internal 1, mb_wait_send = 0\<rparr>"

text \<open>
  The test for a full mailbox, \<open>(mbox->last + 1) >= (mbox->first + SYS_MBOX_SIZE)\<close>.  The counters are C ints that
  only ever grow: either sum overflows after some 2147483520 messages, which is undefined behaviour and a crash here.
\<close>

definition mbox_full :: "'m sys_mbox \<Rightarrow> bool option" where
  "mbox_full mb =
     (if mb_last mb + 1 > INT_MAX \<or> mb_first mb + int SYS_MBOX_SIZE > INT_MAX then None
      else Some (mb_last mb + 1 \<ge> mb_first mb + int SYS_MBOX_SIZE))"

text \<open>The common tail of \<open>sys_mbox_trypost\<close> and \<open>sys_mbox_post\<close>, with the mutex held.\<close>

definition mbox_store :: "'m sys_mbox \<Rightarrow> 'm \<Rightarrow> 'm sys_mbox option" where
  "mbox_store mb msg =
     (if mb_last mb \<ge> INT_MAX then None
      else let first = (mb_last mb = mb_first mb) in
        Some (mb\<lparr>mb_msgs := (mb_msgs mb)[nat (mb_last mb mod int SYS_MBOX_SIZE) := msg],
                 mb_last := mb_last mb + 1,
                 mb_not_empty := (if first then sys_sem_signal (mb_not_empty mb)
                                  else mb_not_empty mb)\<rparr>))"

definition sys_mbox_trypost :: "'m sys_mbox \<Rightarrow> 'm \<Rightarrow> (err_t \<times> 'm sys_mbox) option" where
  "sys_mbox_trypost mb msg = do {
     m \<leftarrow> sys_arch_sem_wait (mb_mutex mb);
     let mb = mb\<lparr>mb_mutex := m\<rparr>;
     full \<leftarrow> mbox_full mb;
     if full then Some (ERR_MEM, mb\<lparr>mb_mutex := sys_sem_signal (mb_mutex mb)\<rparr>)
     else do {
       mb \<leftarrow> mbox_store mb msg;
       Some (ERR_OK, mb\<lparr>mb_mutex := sys_sem_signal (mb_mutex mb)\<rparr>)
     }
   }"

text \<open>
  \<open>sys_mbox_post\<close> and \<open>sys_arch_mbox_fetch\<close> block in a loop.  One pass of their loop is a
  definition of its own: the first component says whether the pass completed the call.
\<close>

definition sys_mbox_post_pass :: "bool \<Rightarrow> 'm sys_mbox \<Rightarrow> 'm \<Rightarrow> (bool \<times> 'm sys_mbox) option" where
  "sys_mbox_post_pass woken mb msg = do {
     m \<leftarrow> sys_arch_sem_wait (mb_mutex mb);
     let mb = mb\<lparr>mb_mutex := m, mb_wait_send := mb_wait_send mb - (if woken then 1 else 0)\<rparr>;
     full \<leftarrow> mbox_full mb;
     if full
     then Some (False, mb\<lparr>mb_wait_send := mb_wait_send mb + 1,
                          mb_mutex := sys_sem_signal (mb_mutex mb)\<rparr>)
     else do {
       mb \<leftarrow> mbox_store mb msg;
       Some (True, mb\<lparr>mb_mutex := sys_sem_signal (mb_mutex mb)\<rparr>)
     }
   }"

text \<open>The common tail of the two fetches, with the mutex held and a message present.\<close>

definition mbox_take :: "'m sys_mbox \<Rightarrow> ('m \<times> 'm sys_mbox) option" where
  "mbox_take mb =
     (if mb_first mb \<ge> INT_MAX then None
      else Some (mb_msgs mb ! nat (mb_first mb mod int SYS_MBOX_SIZE),
                 mb\<lparr>mb_first := mb_first mb + 1,
                    mb_not_full := (if mb_wait_send mb \<noteq> 0 then sys_sem_signal (mb_not_full mb)
                                    else mb_not_full mb)\<rparr>))"

text \<open>The message is \<^const>\<open>None\<close> for the return value \<open>SYS_MBOX_EMPTY\<close>.\<close>

definition sys_arch_mbox_tryfetch :: "'m sys_mbox \<Rightarrow> ('m option \<times> 'm sys_mbox) option" where
  "sys_arch_mbox_tryfetch mb = do {
     m \<leftarrow> sys_arch_sem_wait (mb_mutex mb);
     let mb = mb\<lparr>mb_mutex := m\<rparr>;
     if mb_first mb = mb_last mb
     then Some (None, mb\<lparr>mb_mutex := sys_sem_signal (mb_mutex mb)\<rparr>)
     else do {
       (x, mb) \<leftarrow> mbox_take mb;
       Some (Some x, mb\<lparr>mb_mutex := sys_sem_signal (mb_mutex mb)\<rparr>)
     }
   }"

text \<open>
  A pass of \<open>sys_arch_mbox_fetch\<close> is the same code; after an empty pass the caller waits on
  \<open>not_empty\<close> before the next one.
\<close>

definition sys_arch_mbox_fetch_pass :: "'m sys_mbox \<Rightarrow> ('m option \<times> 'm sys_mbox) option" where
  "sys_arch_mbox_fetch_pass mb = do {
     m \<leftarrow> sys_arch_sem_wait (mb_mutex mb);
     let mb = mb\<lparr>mb_mutex := m\<rparr>;
     if mb_first mb = mb_last mb
     then Some (None, mb\<lparr>mb_mutex := sys_sem_signal (mb_mutex mb)\<rparr>)
     else do {
       (x, mb) \<leftarrow> mbox_take mb;
       Some (Some x, mb\<lparr>mb_mutex := sys_sem_signal (mb_mutex mb)\<rparr>)
     }
   }"

section \<open>Abstraction to a list\<close>

definition mbox_contents :: "'m sys_mbox \<Rightarrow> 'm list" where
  "mbox_contents mb =
     map (\<lambda>k. mb_msgs mb ! ((nat (mb_first mb) + k) mod SYS_MBOX_SIZE))
       [0..<nat (mb_last mb - mb_first mb)]"

text \<open>Well-formed, with the mutex free and the counters below overflow.\<close>

definition mbox_inv :: "'m sys_mbox \<Rightarrow> bool" where
  "mbox_inv mb \<longleftrightarrow> 0 \<le> mb_first mb \<and> mb_first mb \<le> mb_last mb
     \<and> mb_last mb < mb_first mb + int SYS_MBOX_SIZE \<and> mb_last mb \<le> INT_MAX
     \<and> length (mb_msgs mb) = SYS_MBOX_SIZE \<and> mb_mutex mb = 1"

lemma length_mbox_contents [simp]:
  "length (mbox_contents mb) = nat (mb_last mb - mb_first mb)"
  by (simp add: mbox_contents_def)

text \<open>The counters are far enough from the largest int that the test for a full mailbox does not overflow.\<close>

definition mbox_ready :: "'m sys_mbox \<Rightarrow> bool" where
  "mbox_ready mb \<longleftrightarrow> mb_first mb + int SYS_MBOX_SIZE \<le> INT_MAX"

lemma mbox_full_ready:
  "mbox_inv mb \<Longrightarrow> mbox_ready mb \<Longrightarrow> mbox_full mb = Some (SYS_MBOX_SIZE - 1 \<le> length (mbox_contents mb))"
  by (auto simp: mbox_full_def mbox_inv_def mbox_ready_def SYS_MBOX_SIZE_def)

lemma mbox_full_None: "mbox_inv mb \<Longrightarrow> mbox_full mb = None \<longleftrightarrow> \<not> mbox_ready mb"
  by (auto simp: mbox_full_def mbox_inv_def mbox_ready_def)

lemma mbox_ready_last: "mbox_inv mb \<Longrightarrow> mbox_ready mb \<Longrightarrow> mb_last mb < INT_MAX"
  by (simp add: mbox_inv_def mbox_ready_def)

lemma mbox_full_upd [simp]:
  "mbox_full (mb\<lparr>mb_mutex := m\<rparr>) = mbox_full mb" "mbox_full (mb\<lparr>mb_wait_send := w\<rparr>) = mbox_full mb"
  "mbox_full (mb\<lparr>mb_mutex := m, mb_wait_send := w\<rparr>) = mbox_full mb"
  by (simp_all add: mbox_full_def)

lemma mbox_empty_iff: "mbox_inv mb \<Longrightarrow> mbox_contents mb = [] \<longleftrightarrow> mb_first mb = mb_last mb"
  by (auto simp: mbox_contents_def mbox_inv_def)

lemma mbox_new_inv:
  "length junk = SYS_MBOX_SIZE \<Longrightarrow> mbox_inv (sys_mbox_new junk) \<and> mbox_contents (sys_mbox_new junk) = []"
  by (simp add: mbox_inv_def sys_mbox_new_def mbox_contents_def sys_sem_new_internal_def
      SYS_MBOX_SIZE_def INT_MAX_def)

lemma ring_index_neq:
  fixes f k n N :: nat
  assumes "k < n" "n < N"
  shows "(f + k) mod N \<noteq> (f + n) mod N"
proof
  assume "(f + k) mod N = (f + n) mod N"
  then have "N dvd (f + n) - (f + k)"
    using assms(1) by (metis add_le_cancel_left mod_eq_dvd_iff_nat nat_less_le)
  then have "N dvd n - k" by simp
  then show False using assms by (auto dest: dvd_imp_le)
qed

lemma mbox_store_contents:
  assumes "mbox_inv mb" "mbox_full mb = Some False"
    and st: "mbox_store (mb\<lparr>mb_mutex := m\<rparr>) msg = Some mb'"
  shows "mbox_contents mb' = mbox_contents mb @ [msg]"
proof -
  define n where "n = nat (mb_last mb - mb_first mb)"
  define f where "f = nat (mb_first mb)"
  have last: "mb_last mb = int (f + n)" and fi: "mb_first mb = int f"
    using assms(1) by (simp_all add: n_def f_def mbox_inv_def)
  have n: "n < SYS_MBOX_SIZE"
    using assms(1) by (auto simp: n_def mbox_inv_def SYS_MBOX_SIZE_def)
  have ix: "nat ((int f + int n) mod int SYS_MBOX_SIZE) = (f + n) mod SYS_MBOX_SIZE"
    by (metis nat_int of_nat_add zmod_int)
  have mb': "mb_msgs mb' = (mb_msgs mb)[(f + n) mod SYS_MBOX_SIZE := msg]"
    "mb_first mb' = int f" "mb_last mb' = int (f + n) + 1"
    using st by (auto simp: mbox_store_def Let_def ix last fi split: if_splits)
  have len: "(f + n) mod SYS_MBOX_SIZE < length (mb_msgs mb)"
    using assms(1) by (simp add: mbox_inv_def SYS_MBOX_SIZE_def)
  have "nat (mb_last mb' - mb_first mb') = Suc n" by (simp add: mb')
  moreover have "(mb_msgs mb') ! ((f + k) mod SYS_MBOX_SIZE)
      = mb_msgs mb ! ((f + k) mod SYS_MBOX_SIZE)" if "k < n" for k
    using ring_index_neq [OF that n, of f] by (simp add: mb')
  moreover have "(mb_msgs mb') ! ((f + n) mod SYS_MBOX_SIZE) = msg"
    using len by (simp add: mb')
  ultimately show ?thesis
    by (simp add: mbox_contents_def fi last mb')
qed

lemma mbox_store_inv:
  assumes "mbox_inv mb" "mbox_full mb = Some False"
    and st: "mbox_store (mb\<lparr>mb_mutex := m\<rparr>) msg = Some mb'"
  shows "mbox_inv (mb'\<lparr>mb_mutex := 1\<rparr>)"
  using assms by (auto simp: mbox_store_def mbox_inv_def mbox_full_def Let_def split: if_splits)

lemma mbox_contents_mutex [simp]:
  "mbox_contents (mb\<lparr>mb_mutex := m\<rparr>) = mbox_contents mb"
  by (simp add: mbox_contents_def)

lemma mbox_take_contents:
  assumes inv: "mbox_inv mb" and ne: "mb_first mb \<noteq> mb_last mb"
    and tk: "mbox_take (mb\<lparr>mb_mutex := m\<rparr>) = Some (x, mb')"
  shows "mbox_contents mb = x # mbox_contents mb' \<and> mbox_inv (mb'\<lparr>mb_mutex := 1\<rparr>)"
proof -
  define n where "n = nat (mb_last mb - mb_first mb) - 1"
  define f where "f = nat (mb_first mb)"
  have fi: "mb_first mb = int f" and last: "mb_last mb = int (f + Suc n)"
    using inv ne by (simp_all add: n_def f_def mbox_inv_def)
  have ix: "nat (int f mod int SYS_MBOX_SIZE) = f mod SYS_MBOX_SIZE"
    by (metis nat_int zmod_int)
  have mb': "mb_msgs mb' = mb_msgs mb" "mb_first mb' = int f + 1" "mb_last mb' = int (f + Suc n)"
    and x: "x = mb_msgs mb ! (f mod SYS_MBOX_SIZE)"
    using tk by (auto simp: mbox_take_def ix fi last split: if_splits)
  have fs: "nat (int f + 1) = Suc f" by simp
  have "mbox_contents mb = x # mbox_contents mb'"
    by (simp add: mbox_contents_def fi last mb' x fs nat_add_distrib upt_conv_Cons map_Suc_upt [symmetric]
        comp_def del: upt_Suc)
  moreover have "mbox_inv (mb'\<lparr>mb_mutex := 1\<rparr>)"
    using inv ne tk by (auto simp: mbox_inv_def mbox_take_def split: if_splits)
  ultimately show ?thesis by simp
qed

section \<open>The mailbox implements the bounded FIFO\<close>

definition mbox_put :: "'m sys_mbox \<Rightarrow> 'm \<Rightarrow> 'm sys_mbox option" where
  "mbox_put mb msg =
     (case sys_mbox_trypost mb msg of Some (ERR_OK, mb') \<Rightarrow> Some mb' | _ \<Rightarrow> None)"

definition mbox_get :: "'m sys_mbox \<Rightarrow> ('m \<times> 'm sys_mbox) option" where
  "mbox_get mb =
     (case sys_arch_mbox_tryfetch mb of Some (Some x, mb') \<Rightarrow> Some (x, mb') | _ \<Rightarrow> None)"

lemma sys_mbox_trypost_full:
  "mbox_inv mb \<Longrightarrow> mbox_full mb = Some True \<Longrightarrow> sys_mbox_trypost mb msg = Some (ERR_MEM, mb)"
  by (simp add: sys_mbox_trypost_def mbox_inv_def)

lemma sys_mbox_trypost_ok:
  assumes "mbox_inv mb" "mbox_full mb = Some False"
  obtains mb' where "sys_mbox_trypost mb msg = Some (ERR_OK, mb')"
    "mbox_contents mb' = mbox_contents mb @ [msg]" "mbox_inv mb'"
    "mb_last mb' = mb_last mb + 1" "mb_first mb' = mb_first mb"
proof -
  let ?mb = "mb\<lparr>mb_mutex := 0\<rparr>"
  obtain mb1 where st: "mbox_store ?mb msg = Some mb1"
    using assms(2) by (auto simp: mbox_full_def mbox_store_def Let_def split: if_splits)
  have "mb_last mb1 = mb_last mb + 1" "mb_first mb1 = mb_first mb"
    using st by (auto simp: mbox_store_def Let_def split: if_splits)
  moreover have "sys_mbox_trypost mb msg = Some (ERR_OK, mb1\<lparr>mb_mutex := 1\<rparr>)"
    using assms st by (simp add: sys_mbox_trypost_def mbox_inv_def)
  ultimately show thesis
    using that [of "mb1\<lparr>mb_mutex := 1\<rparr>"] mbox_store_contents [OF assms st] mbox_store_inv [OF assms st]
    by simp
qed

lemma sys_mbox_trypost_overflow:
  "mbox_inv mb \<Longrightarrow> \<not> mbox_ready mb \<Longrightarrow> sys_mbox_trypost mb msg = None"
  using mbox_full_None [of mb] by (simp add: sys_mbox_trypost_def mbox_inv_def)

lemma sys_arch_mbox_tryfetch_empty:
  "mbox_inv mb \<Longrightarrow> mbox_contents mb = [] \<Longrightarrow> sys_arch_mbox_tryfetch mb = Some (None, mb)"
  by (simp add: sys_arch_mbox_tryfetch_def mbox_empty_iff) (simp add: mbox_inv_def)

lemma sys_arch_mbox_tryfetch_ok:
  assumes "mbox_inv mb" "mbox_contents mb \<noteq> []"
  obtains x mb' where "sys_arch_mbox_tryfetch mb = Some (Some x, mb')"
    "mbox_contents mb = x # mbox_contents mb'" "mbox_inv mb'"
proof -
  let ?mb = "mb\<lparr>mb_mutex := 0\<rparr>"
  have ne: "mb_first mb \<noteq> mb_last mb" using assms by (simp add: mbox_empty_iff)
  then have "mb_first mb < INT_MAX" using assms(1) by (simp add: mbox_inv_def)
  then obtain x mb1 where tk: "mbox_take ?mb = Some (x, mb1)"
    by (simp add: mbox_take_def)
  have "sys_arch_mbox_tryfetch mb = Some (Some x, mb1\<lparr>mb_mutex := 1\<rparr>)"
    using assms(1) ne tk by (simp add: sys_arch_mbox_tryfetch_def mbox_inv_def)
  then show thesis using that mbox_take_contents [OF assms(1) ne tk] by simp
qed

lemma mbox_put_cases:
  assumes "mbox_inv mb" "mbox_put mb x = Some mb'"
  shows "mbox_full mb = Some False"
proof -
  have "mbox_ready mb" using assms sys_mbox_trypost_overflow [of mb x] by (cases "mbox_ready mb") (auto simp: mbox_put_def)
  then obtain b where b: "mbox_full mb = Some b" using mbox_full_None [OF assms(1)] by auto
  then show ?thesis using assms sys_mbox_trypost_full [of mb x] by (cases b) (auto simp: mbox_put_def)
qed

interpretation mbox: bounded_fifo mbox_inv mbox_contents mbox_get mbox_put "SYS_MBOX_SIZE - 1" mbox_ready
proof
  fix q :: "'a sys_mbox" and x q'
  assume i: "mbox_inv q"
  show "mbox_get q = None \<longleftrightarrow> mbox_contents q = []"
    using sys_arch_mbox_tryfetch_empty [OF i] sys_arch_mbox_tryfetch_ok [OF i]
    by (fastforce simp: mbox_get_def)
  show "mbox_get q = Some (x, q') \<Longrightarrow> mbox_contents q = x # mbox_contents q' \<and> mbox_inv q'"
    using sys_arch_mbox_tryfetch_empty [OF i] sys_arch_mbox_tryfetch_ok [OF i]
    by (fastforce simp: mbox_get_def)
  have full: "mbox_full q = Some (SYS_MBOX_SIZE - 1 \<le> length (mbox_contents q))" if "mbox_ready q"
    using mbox_full_ready [OF i that] .
  show "SYS_MBOX_SIZE - 1 \<le> length (mbox_contents q) \<Longrightarrow> mbox_put q x = None"
    using sys_mbox_trypost_full [OF i] sys_mbox_trypost_overflow [OF i] full by (cases "mbox_ready q") (simp_all add: mbox_put_def)
  show "mbox_put q x \<noteq> None" if "length (mbox_contents q) < SYS_MBOX_SIZE - 1" "mbox_ready q"
    using sys_mbox_trypost_ok [OF i, of x] full [OF that(2)] that(1) by (fastforce simp: mbox_put_def)
  assume p: "mbox_put q x = Some q'"
  show "mbox_contents q' = mbox_contents q @ [x] \<and> mbox_inv q'"
    using sys_mbox_trypost_ok [OF i mbox_put_cases [OF i p], of x] p by (fastforce simp: mbox_put_def)
qed

end
