(* ===== verification/Mbox_Sched.thy ===== *)
theory Mbox_Sched
  imports Sys_Mbox Transitions
begin

text \<open>
  The mailbox under interleaving: any number of producers (\<open>sys_mbox_trypost\<close>,
  \<open>sys_mbox_post\<close>) and one consumer (\<open>sys_arch_mbox_fetch\<close>, the tcpip thread).  A step is one
  critical section of one thread, from taking \<open>mbox->mutex\<close> to releasing it, or one wake-up on
  the semaphores \<open>not_empty\<close> and \<open>not_full\<close>.
\<close>

datatype cons_pc = C_Ready | C_Wait | C_Woken

datatype 'm prod_pc = P_Idle | P_Wait 'm | P_Woken 'm

record 'm mbox_sys =
  ms_mbox :: "'m sys_mbox"
  ms_cons :: cons_pc
  ms_prod :: "nat \<Rightarrow> 'm prod_pc"

inductive mbox_step :: "'m mbox_sys \<Rightarrow> 'm mbox_sys \<Rightarrow> bool" where
  trypost: "ms_prod s i = P_Idle \<Longrightarrow> sys_mbox_trypost (ms_mbox s) x = Some (e, mb) \<Longrightarrow>
     mbox_step s (s\<lparr>ms_mbox := mb\<rparr>)"
| post_done: "ms_prod s i = P_Idle \<Longrightarrow> sys_mbox_post_pass False (ms_mbox s) x = Some (True, mb) \<Longrightarrow>
     mbox_step s (s\<lparr>ms_mbox := mb\<rparr>)"
| post_block: "ms_prod s i = P_Idle \<Longrightarrow> sys_mbox_post_pass False (ms_mbox s) x = Some (False, mb) \<Longrightarrow>
     mbox_step s (s\<lparr>ms_mbox := mb, ms_prod := (ms_prod s)(i := P_Wait x)\<rparr>)"
| post_wake: "ms_prod s i = P_Wait x \<Longrightarrow> sys_arch_sem_wait (mb_not_full (ms_mbox s)) = Some c \<Longrightarrow>
     mbox_step s (s\<lparr>ms_mbox := (ms_mbox s)\<lparr>mb_not_full := c\<rparr>, ms_prod := (ms_prod s)(i := P_Woken x)\<rparr>)"
| post_redone: "ms_prod s i = P_Woken x \<Longrightarrow> sys_mbox_post_pass True (ms_mbox s) x = Some (True, mb) \<Longrightarrow>
     mbox_step s (s\<lparr>ms_mbox := mb, ms_prod := (ms_prod s)(i := P_Idle)\<rparr>)"
| post_reblock: "ms_prod s i = P_Woken x \<Longrightarrow> sys_mbox_post_pass True (ms_mbox s) x = Some (False, mb) \<Longrightarrow>
     mbox_step s (s\<lparr>ms_mbox := mb, ms_prod := (ms_prod s)(i := P_Wait x)\<rparr>)"
| fetch_msg: "ms_cons s \<noteq> C_Wait \<Longrightarrow> sys_arch_mbox_fetch_pass (ms_mbox s) = Some (Some x, mb) \<Longrightarrow>
     mbox_step s (s\<lparr>ms_mbox := mb, ms_cons := C_Ready\<rparr>)"
| fetch_block: "ms_cons s \<noteq> C_Wait \<Longrightarrow> sys_arch_mbox_fetch_pass (ms_mbox s) = Some (None, mb) \<Longrightarrow>
     mbox_step s (s\<lparr>ms_mbox := mb, ms_cons := C_Wait\<rparr>)"
| fetch_wake: "ms_cons s = C_Wait \<Longrightarrow> sys_arch_sem_wait (mb_not_empty (ms_mbox s)) = Some c \<Longrightarrow>
     mbox_step s (s\<lparr>ms_mbox := (ms_mbox s)\<lparr>mb_not_empty := c\<rparr>, ms_cons := C_Woken\<rparr>)"
| fetch_timeout: "ms_cons s = C_Wait \<Longrightarrow> mbox_step s (s\<lparr>ms_cons := C_Ready\<rparr>)"

definition mbox_sys_init :: "'m list \<Rightarrow> 'm mbox_sys" where
  "mbox_sys_init junk = \<lparr>ms_mbox = sys_mbox_new junk, ms_cons = C_Ready, ms_prod = (\<lambda>_. P_Idle)\<rparr>"

inductive mbox_reachable :: "'m list \<Rightarrow> 'm mbox_sys \<Rightarrow> bool" for junk where
  init: "mbox_reachable junk (mbox_sys_init junk)"
| step: "mbox_reachable junk s \<Longrightarrow> mbox_step s t \<Longrightarrow> mbox_reachable junk t"

definition blocked :: "'m mbox_sys \<Rightarrow> nat set" where
  "blocked s = {i. ms_prod s i \<noteq> P_Idle}"

definition woken :: "'m mbox_sys \<Rightarrow> bool" where
  "woken s \<longleftrightarrow> (\<exists>i x. ms_prod s i = P_Woken x)"

text \<open>
  The strengthened invariant: \<open>wait_send\<close> counts the blocked producers; a consumer asleep
  beside a non-empty mailbox has a pending signal; a blocked producer has a pending signal, or
  a woken colleague, or a non-empty mailbox whose next fetch will signal it.
\<close>

definition sched_inv :: "'m mbox_sys \<Rightarrow> bool" where
  "sched_inv s \<longleftrightarrow> mbox_inv (ms_mbox s) \<and> finite (blocked s)
     \<and> mb_wait_send (ms_mbox s) = int (card (blocked s))
     \<and> (ms_cons s = C_Wait \<and> mb_first (ms_mbox s) \<noteq> mb_last (ms_mbox s)
          \<longrightarrow> mb_not_empty (ms_mbox s) = 1)
     \<and> (blocked s \<noteq> {} \<and> mb_not_full (ms_mbox s) = 0 \<and> \<not> woken s
          \<longrightarrow> mb_first (ms_mbox s) \<noteq> mb_last (ms_mbox s))"

text \<open>What one critical section does to the mailbox, in the shape the invariant needs.\<close>

lemma mbox_store_shape:
  assumes "mbox_inv mb" "mbox_full mb = Some False"
    and "mbox_store (mb\<lparr>mb_mutex := m, mb_wait_send := w\<rparr>) x = Some mb'"
  shows "mbox_inv (mb'\<lparr>mb_mutex := 1\<rparr>)" "mb_first mb' \<noteq> mb_last mb'"
    "mb_wait_send mb' = w" "mb_not_full mb' = mb_not_full mb"
    "mb_first mb = mb_last mb \<Longrightarrow> mb_not_empty mb' = 1"
    "mb_first mb \<noteq> mb_last mb \<Longrightarrow> mb_not_empty mb' = mb_not_empty mb"
  using assms by (auto simp: mbox_store_def mbox_inv_def mbox_full_def Let_def split: if_splits)

lemma fetch_shape:
  assumes "mbox_inv mb" "sys_arch_mbox_fetch_pass mb = Some (Some x, mb')"
  shows "mbox_inv mb'" "mb_wait_send mb' = mb_wait_send mb"
    "mb_wait_send mb \<noteq> 0 \<Longrightarrow> mb_not_full mb' = 1"
    "mb_wait_send mb = 0 \<Longrightarrow> mb_not_full mb' = mb_not_full mb"
  using assms
  by (auto simp: sys_arch_mbox_fetch_pass_def mbox_take_def mbox_inv_def Let_def split: if_splits)

lemma trypost_shape:
  assumes "mbox_inv mb" "sys_mbox_trypost mb x = Some (e, mb')"
  shows "mb' = mb \<or> (mbox_inv mb' \<and> mb_first mb' \<noteq> mb_last mb' \<and> mb_wait_send mb' = mb_wait_send mb
     \<and> mb_not_full mb' = mb_not_full mb
     \<and> mb_not_empty mb' = (if mb_first mb = mb_last mb then 1 else mb_not_empty mb))"
  using assms
  by (auto simp: sys_mbox_trypost_def mbox_store_def mbox_inv_def mbox_full_def bind_eq_Some_conv Let_def split: if_splits)

lemma post_pass_done:
  assumes "mbox_inv mb" "sys_mbox_post_pass w mb x = Some (True, mb')"
  shows "mbox_inv mb'" "mb_first mb' \<noteq> mb_last mb'"
    "mb_wait_send mb' = mb_wait_send mb - (if w then 1 else 0)"
    "mb_not_full mb' = mb_not_full mb"
    "mb_not_empty mb' = (if mb_first mb = mb_last mb then 1 else mb_not_empty mb)"
  using assms
  by (auto simp: sys_mbox_post_pass_def mbox_store_def mbox_inv_def mbox_full_def bind_eq_Some_conv Let_def split: if_splits)

lemma post_pass_block:
  assumes "mbox_inv mb" "sys_mbox_post_pass w mb x = Some (False, mb')"
  shows "mbox_inv mb'" "mb_first mb' \<noteq> mb_last mb'" "mb_first mb \<noteq> mb_last mb"
    "mb_wait_send mb' = mb_wait_send mb + (if w then 0 else 1)"
    "mb_not_full mb' = mb_not_full mb" "mb_not_empty mb' = mb_not_empty mb"
  using assms
  by (auto simp: sys_mbox_post_pass_def mbox_store_def mbox_inv_def mbox_full_def SYS_MBOX_SIZE_def
      bind_eq_Some_conv Let_def split: if_splits)

lemma fetch_block_shape:
  assumes "mbox_inv mb" "sys_arch_mbox_fetch_pass mb = Some (None, mb')"
  shows "mb' = mb" "mb_first mb = mb_last mb"
  using assms
  by (auto simp: sys_arch_mbox_fetch_pass_def mbox_take_def mbox_inv_def Let_def split: if_splits)

lemma blocked_simps [simp]:
  "blocked (s\<lparr>ms_mbox := mb\<rparr>) = blocked s"
  "blocked (s\<lparr>ms_cons := c\<rparr>) = blocked s"
  "blocked (s\<lparr>ms_mbox := mb, ms_prod := (ms_prod s)(i := P_Wait x)\<rparr>) = insert i (blocked s)"
  "blocked (s\<lparr>ms_mbox := mb, ms_prod := (ms_prod s)(i := P_Woken x)\<rparr>) = insert i (blocked s)"
  "blocked (s\<lparr>ms_mbox := mb, ms_cons := c\<rparr>) = blocked s"
  "blocked (s\<lparr>ms_mbox := mb, ms_prod := (ms_prod s)(i := P_Idle)\<rparr>) = blocked s - {i}"
  by (auto simp: blocked_def)

lemma woken_simps [simp]:
  "woken (s\<lparr>ms_mbox := mb\<rparr>) = woken s"
  "woken (s\<lparr>ms_cons := c\<rparr>) = woken s"
  "woken (s\<lparr>ms_mbox := mb, ms_cons := c\<rparr>) = woken s"
  by (simp_all add: woken_def)

lemma blocked_iff: "i \<in> blocked s \<longleftrightarrow> ms_prod s i \<noteq> P_Idle"
  by (simp add: blocked_def)

lemma woken_woken [simp]: "woken (s\<lparr>ms_mbox := mb, ms_prod := (ms_prod s)(i := P_Woken x)\<rparr>)"
  by (auto simp: woken_def)

lemma sched_inv_init: "length junk = SYS_MBOX_SIZE \<Longrightarrow> sched_inv (mbox_sys_init junk)"
  using mbox_new_inv [of junk]
  by (simp add: sched_inv_def mbox_sys_init_def blocked_def) (simp add: sys_mbox_new_def)

lemma sched_inv_post:
  assumes "sched_inv s" "mbox_inv mb" "mb_first mb \<noteq> mb_last mb"
    and "mb_wait_send mb = int (card (blocked t))" "finite (blocked t)"
    and "mb_not_empty mb = (if mb_first (ms_mbox s) = mb_last (ms_mbox s) then 1
                            else mb_not_empty (ms_mbox s))"
    and "ms_mbox t = mb" "ms_cons t = ms_cons s"
  shows "sched_inv t"
  using assms by (auto simp: sched_inv_def split: if_splits)

lemma sched_inv_step:
  assumes "mbox_step s t" "sched_inv s"
  shows "sched_inv t"
  using assms
proof (induction rule: mbox_step.induct)
  case (trypost s i x e mb)
  then have i: "mbox_inv (ms_mbox s)" by (simp add: sched_inv_def)
  from trypost_shape [OF i trypost.hyps(2)] show ?case
  proof
    assume "mb = ms_mbox s"
    then have "s\<lparr>ms_mbox := mb\<rparr> = s" by simp
    then show ?thesis using trypost.prems by (simp only:)
  next
    assume "mbox_inv mb \<and> mb_first mb \<noteq> mb_last mb \<and> mb_wait_send mb = mb_wait_send (ms_mbox s)
     \<and> mb_not_full mb = mb_not_full (ms_mbox s)
     \<and> mb_not_empty mb = (if mb_first (ms_mbox s) = mb_last (ms_mbox s) then 1 else mb_not_empty (ms_mbox s))"
    then show ?thesis
      using trypost.prems by - (rule sched_inv_post [where s = s and mb = mb], simp_all add: sched_inv_def)
  qed
next
  case (post_done s i x mb)
  then have i: "mbox_inv (ms_mbox s)" by (simp add: sched_inv_def)
  show ?case
    using post_pass_done [OF i post_done.hyps(2)] post_done.prems
    by - (rule sched_inv_post [where s = s and mb = mb], simp_all add: sched_inv_def)
next
  case (post_block s i x mb)
  then have i: "mbox_inv (ms_mbox s)" and f: "finite (blocked s)" by (simp_all add: sched_inv_def)
  have n: "i \<notin> blocked s" using post_block.hyps(1) by (simp add: blocked_iff)
  show ?case
    using post_pass_block [OF i post_block.hyps(2)] post_block.prems n f
    by - (rule sched_inv_post [where s = s and mb = mb], simp_all add: sched_inv_def)
next
  case (post_wake s i x c)
  then have "blocked s = insert i (blocked s)" by (auto simp: blocked_iff)
  then show ?case
    using post_wake by (auto simp: sched_inv_def mbox_inv_def)
next
  case (post_redone s i x mb)
  then have i: "mbox_inv (ms_mbox s)" and f: "finite (blocked s)" by (simp_all add: sched_inv_def)
  have n: "i \<in> blocked s" using post_redone.hyps(1) by (simp add: blocked_iff)
  then have "int (card (blocked s - {i})) = int (card (blocked s)) - 1"
    using f by (metis card_Suc_Diff1 diff_Suc_1 of_nat_Suc add_diff_cancel_left')
  then show ?case
    using post_pass_done [OF i post_redone.hyps(2)] post_redone.prems f
    by - (rule sched_inv_post [where s = s and mb = mb], simp_all add: sched_inv_def)
next
  case (post_reblock s i x mb)
  then have i: "mbox_inv (ms_mbox s)" and f: "finite (blocked s)" by (simp_all add: sched_inv_def)
  have n: "insert i (blocked s) = blocked s" using post_reblock.hyps(1) by (auto simp: blocked_iff)
  show ?case
    using post_pass_block [OF i post_reblock.hyps(2)] post_reblock.prems n f
    by - (rule sched_inv_post [where s = s and mb = mb], simp_all add: sched_inv_def)
next
  case (fetch_msg s x mb)
  then have i: "mbox_inv (ms_mbox s)" by (simp add: sched_inv_def)
  show ?case
    using fetch_shape [OF i fetch_msg.hyps(2)] fetch_msg.prems
    by (cases "blocked s = {}") (auto simp: sched_inv_def)
next
  case (fetch_block s mb)
  then have i: "mbox_inv (ms_mbox s)" by (simp add: sched_inv_def)
  show ?case
    using fetch_block_shape [OF i fetch_block.hyps(2)] fetch_block.prems by (auto simp: sched_inv_def)
next
  case (fetch_wake s c)
  then show ?case by (auto simp: sched_inv_def mbox_inv_def)
next
  case (fetch_timeout s)
  then show ?case by (auto simp: sched_inv_def)
qed

interpretation sched: invariant mbox_step sched_inv "\<lambda>s. \<exists>junk. length junk = SYS_MBOX_SIZE \<and> s = mbox_sys_init junk"
  by unfold_locales (auto intro: sched_inv_init sched_inv_step)

lemma mbox_reachable_steps: "mbox_reachable junk s \<Longrightarrow> mbox_step\<^sup>*\<^sup>* (mbox_sys_init junk) s"
  by (induction rule: mbox_reachable.induct) auto

lemma sched_inv_reachable:
  assumes "mbox_reachable junk s" "length junk = SYS_MBOX_SIZE"
  shows "sched_inv s"
  using sched.reachable_inv [OF _ mbox_reachable_steps] assms by blast

text \<open>Runs with a sleeping consumer: any number of messages up to the capacity can pile up.\<close>

lemma asleep_reachable:
  assumes "length junk = SYS_MBOX_SIZE" "n \<le> SYS_MBOX_SIZE - 1"
  shows "\<exists>s. mbox_reachable junk s \<and> ms_cons s = C_Wait \<and> (\<forall>i. ms_prod s i = P_Idle)
    \<and> mbox_contents (ms_mbox s) = replicate n x \<and> mbox_inv (ms_mbox s) \<and> mb_first (ms_mbox s) = 0"
  using assms(2)
proof (induction n)
  case 0
  let ?s = "mbox_sys_init junk" and ?t = "(mbox_sys_init junk)\<lparr>ms_cons := C_Wait\<rparr>"
  have f: "sys_arch_mbox_fetch_pass (ms_mbox ?s) = Some (None, ms_mbox ?s)"
    by (simp add: mbox_sys_init_def sys_mbox_new_def sys_arch_mbox_fetch_pass_def sys_sem_new_internal_def)
  have "mbox_step ?s (?s\<lparr>ms_mbox := ms_mbox ?s, ms_cons := C_Wait\<rparr>)"
    using mbox_step.fetch_block [OF _ f] by (simp add: mbox_sys_init_def)
  then have "mbox_reachable junk ?t"
    using mbox_reachable.step [OF mbox_reachable.init] by simp
  moreover have "mbox_inv (ms_mbox ?t)" "mbox_contents (ms_mbox ?t) = []"
    using mbox_new_inv [of junk] assms(1) by (simp_all add: mbox_sys_init_def)
  ultimately show ?case by (intro exI [of _ ?t]) (simp add: mbox_sys_init_def sys_mbox_new_def)
next
  case (Suc n)
  then obtain s where s: "mbox_reachable junk s" "ms_cons s = C_Wait" "\<And>i. ms_prod s i = P_Idle"
      "mbox_contents (ms_mbox s) = replicate n x" "mbox_inv (ms_mbox s)" "mb_first (ms_mbox s) = 0"
    by (auto simp: Suc_le_eq)
  have "mbox_full (ms_mbox s) = Some False"
    using Suc.prems s(4,6) mbox_full_ready [OF s(5)] by (simp add: mbox_ready_def SYS_MBOX_SIZE_def INT_MAX_def)
  then obtain mb where mb: "sys_mbox_trypost (ms_mbox s) x = Some (ERR_OK, mb)"
      "mbox_contents mb = replicate n x @ [x]" "mbox_inv mb" "mb_first mb = 0"
    using sys_mbox_trypost_ok [OF s(5), of x] s by metis
  have "mbox_reachable junk (s\<lparr>ms_mbox := mb\<rparr>)"
    using mbox_reachable.step [OF s(1) mbox_step.trypost [OF s(3) mb(1)]] .
  then show ?case
    using s mb by (intro exI [of _ "s\<lparr>ms_mbox := mb\<rparr>"]) (simp add: replicate_append_same)
qed

lemma asleep_blocked_reachable:
  assumes "length junk = SYS_MBOX_SIZE"
  shows "\<exists>s. mbox_reachable junk s \<and> ms_cons s = C_Wait \<and> ms_prod s 0 = P_Wait x \<and> mbox_ready (ms_mbox s)"
proof -
  obtain s where s: "mbox_reachable junk s" "ms_cons s = C_Wait" "\<And>i. ms_prod s i = P_Idle"
      "mbox_contents (ms_mbox s) = replicate (SYS_MBOX_SIZE - 1) x" "mbox_inv (ms_mbox s)"
      "mb_first (ms_mbox s) = 0"
    using asleep_reachable [OF assms, of "SYS_MBOX_SIZE - 1" x] by auto
  have r: "mbox_ready (ms_mbox s)" using s(6) by (simp add: mbox_ready_def SYS_MBOX_SIZE_def INT_MAX_def)
  then have "mbox_full (ms_mbox s) = Some True" using s(4) mbox_full_ready [OF s(5)] by simp
  then have "sys_mbox_post_pass False (ms_mbox s) x =
      Some (False, (ms_mbox s)\<lparr>mb_mutex := 1, mb_wait_send := mb_wait_send (ms_mbox s) + 1\<rparr>)"
    using s(5) by (simp add: sys_mbox_post_pass_def mbox_inv_def)
  from mbox_reachable.step [OF s(1) mbox_step.post_block [OF s(3) [of 0] this]]
  have "mbox_reachable junk (s\<lparr>ms_mbox := (ms_mbox s)\<lparr>mb_mutex := 1, mb_wait_send := mb_wait_send (ms_mbox s) + 1\<rparr>,
      ms_prod := (ms_prod s)(0 := P_Wait x)\<rparr>)" (is "mbox_reachable junk ?t") .
  then show ?thesis
    using r by (intro exI [of _ ?t]) (simp add: s(2) mbox_ready_def)
qed

section \<open>Properties\<close>

text \<open>C7: in every reachable state of the mailbox, a consumer that sleeps on \<open>not_empty\<close> while a
  message is in the mailbox can be woken (no lost wake-up), and the pass it then makes returns
  the oldest message.\<close>

theorem mbox_no_lost_wakeup:
  assumes "mbox_reachable junk s" "length junk = SYS_MBOX_SIZE"
    and "ms_cons s = C_Wait" "mbox_contents (ms_mbox s) = x # xs"
  shows "\<exists>t mb. mbox_step s t \<and> ms_cons t = C_Woken
    \<and> sys_arch_mbox_fetch_pass (ms_mbox t) = Some (Some x, mb) \<and> mbox_contents mb = xs"
proof -
  have inv: "sched_inv s" by (rule sched_inv_reachable [OF assms(1,2)])
  then have i: "mbox_inv (ms_mbox s)" by (simp add: sched_inv_def)
  have "mb_first (ms_mbox s) \<noteq> mb_last (ms_mbox s)"
    using mbox_empty_iff [OF i] assms(4) by simp
  then have "mb_not_empty (ms_mbox s) = 1" using inv assms(3) by (simp add: sched_inv_def)
  then have w: "sys_arch_sem_wait (mb_not_empty (ms_mbox s)) = Some 0" by simp
  let ?mb = "(ms_mbox s)\<lparr>mb_not_empty := 0\<rparr>"
  have i': "mbox_inv ?mb" using i by (simp add: mbox_inv_def)
  have c': "mbox_contents ?mb = x # xs" using assms(4) by (simp add: mbox_contents_def)
  obtain y mb where "sys_arch_mbox_tryfetch ?mb = Some (Some y, mb)"
      and "mbox_contents ?mb = y # mbox_contents mb"
    using sys_arch_mbox_tryfetch_ok [OF i'] c' by (metis list.distinct(1))
  then have "sys_arch_mbox_fetch_pass ?mb = Some (Some x, mb)" "mbox_contents mb = xs"
    using c' by (simp_all add: sys_arch_mbox_tryfetch_def sys_arch_mbox_fetch_pass_def)
  then show ?thesis using mbox_step.fetch_wake [OF assms(3) w] by fastforce
qed

theorem mbox_no_lost_wakeup_witness:
  "\<exists>s t mb. mbox_reachable (replicate 128 (0 :: nat)) s \<and> ms_cons s = C_Wait \<and> mbox_step s t
     \<and> ms_cons t = C_Woken \<and> sys_arch_mbox_fetch_pass (ms_mbox t) = Some (Some 7, mb) \<and> mbox_contents mb = [7]"
proof -
  have l: "length (replicate 128 (0 :: nat)) = SYS_MBOX_SIZE" by (simp add: SYS_MBOX_SIZE_def)
  obtain s where s: "mbox_reachable (replicate 128 0) s" "ms_cons s = C_Wait"
      "mbox_contents (ms_mbox s) = [7, 7 :: nat]"
    using asleep_reachable [OF l, of 2 7] by (auto simp: SYS_MBOX_SIZE_def numeral_2_eq_2)
  show ?thesis using mbox_no_lost_wakeup [OF s(1) l s(2,3)] s(1,2) by blast
qed

text \<open>C31: the mailbox never deadlocks: in every reachable state in which the consumer sleeps and
  some producer sleeps on \<open>not_full\<close>, one of the threads can take a step that is not a timeout: the consumer or a producer has
  a signal pending, or a producer that has been woken finds room and stores its message.  The state must be one in
  which \<open>first + SYS_MBOX_SIZE\<close> is still an int; past that the test for a full mailbox is undefined.\<close>

theorem mbox_no_deadlock:
  assumes "mbox_reachable junk s" "length junk = SYS_MBOX_SIZE"
    and "ms_cons s = C_Wait" "ms_prod s i = P_Wait x" "mb_first (ms_mbox s) + int SYS_MBOX_SIZE \<le> INT_MAX"
  shows "mb_not_empty (ms_mbox s) = 1 \<or> mb_not_full (ms_mbox s) \<ge> 1
    \<or> (\<exists>j y mb. ms_prod s j = P_Woken y \<and> sys_mbox_post_pass True (ms_mbox s) y = Some (True, mb))"
proof (cases "mb_not_full (ms_mbox s) = 0 \<and> mb_first (ms_mbox s) = mb_last (ms_mbox s)")
  case True
  have inv: "sched_inv s" by (rule sched_inv_reachable [OF assms(1,2)])
  then have mi: "mbox_inv (ms_mbox s)" by (simp add: sched_inv_def)
  have "blocked s \<noteq> {}" using assms(4) blocked_iff [of i s] by auto
  then have "woken s" using True inv by (auto simp: sched_inv_def)
  then obtain j y where w: "ms_prod s j = P_Woken y" by (auto simp: woken_def)
  have f: "mbox_full (ms_mbox s) = Some False" and l: "mb_last (ms_mbox s) < INT_MAX"
    using mbox_full_ready [OF mi] mbox_ready_last [OF mi] assms(5) True
    by (simp_all add: mbox_ready_def) (simp add: SYS_MBOX_SIZE_def)
  have "\<exists>mb. sys_mbox_post_pass True (ms_mbox s) y = Some (True, mb)"
    using mi f l by (simp add: mbox_inv_def sys_mbox_post_pass_def mbox_store_def Let_def)
  with w show ?thesis by blast
next
  case False
  have inv: "sched_inv s" by (rule sched_inv_reachable [OF assms(1,2)])
  with False assms(3) show ?thesis by (auto simp: sched_inv_def)
qed

theorem mbox_no_deadlock_witness:
  "\<exists>s. mbox_reachable (replicate 128 (0 :: nat)) s \<and> ms_cons s = C_Wait \<and> ms_prod s 0 = P_Wait 7
     \<and> (mb_not_empty (ms_mbox s) = 1 \<or> mb_not_full (ms_mbox s) \<ge> 1
        \<or> (\<exists>j y mb. ms_prod s j = P_Woken y \<and> sys_mbox_post_pass True (ms_mbox s) y = Some (True, mb)))"
proof -
  have l: "length (replicate 128 (0 :: nat)) = SYS_MBOX_SIZE" by (simp add: SYS_MBOX_SIZE_def)
  obtain s where s: "mbox_reachable (replicate 128 (0 :: nat)) s" "ms_cons s = C_Wait"
      "ms_prod s 0 = P_Wait 7" "mbox_ready (ms_mbox s)"
    using asleep_blocked_reachable [OF l, of 7] by auto
  show ?thesis using mbox_no_deadlock [OF s(1) l s(2,3) s(4) [unfolded mbox_ready_def]] s(1-3) by blast
qed

end
