(* ===== verification/Def.thy ===== *)
theory Def
  imports Prelude
begin

unbundle bit_operations_syntax

text \<open>
  The helper functions of \<open>lwip/core/def.c\<close>: byte order and the string functions that C libraries
  lack.  A C string is the list of its bytes without the terminating zero; reading at its end
  gives 0.  The host is little endian.
\<close>

type_synonym cstring = "byte list"

definition peek :: "cstring \<Rightarrow> byte" where
  "peek s = (case s of [] \<Rightarrow> 0 | c # _ \<Rightarrow> c)"

text \<open>A byte list is a C string when it has no zero inside.\<close>

definition cstr :: "byte list \<Rightarrow> bool" where
  "cstr s \<longleftrightarrow> 0 \<notin> set s"

section \<open>Byte order\<close>

definition lwip_htons :: "u16 \<Rightarrow> u16" where
  "lwip_htons x = push_bit 8 (x AND 0x00FF) OR drop_bit 8 (x AND 0xFF00)"

definition lwip_htonl :: "u32 \<Rightarrow> u32" where
  "lwip_htonl x = push_bit 24 (x AND 0x000000FF) OR push_bit 8 (x AND 0x0000FF00)
     OR drop_bit 8 (x AND 0x00FF0000) OR drop_bit 24 (x AND 0xFF000000)"

section \<open>Strings\<close>

text \<open>The loop of \<open>lwip_strnstr\<close>: \<open>off\<close> is \<open>p - buffer\<close> and \<open>rest\<close> the string at \<open>p\<close>.\<close>

fun lwip_strnstr_loop :: "cstring \<Rightarrow> cstring \<Rightarrow> nat \<Rightarrow> nat \<Rightarrow> nat option" where
  "lwip_strnstr_loop [] token n off = None"
| "lwip_strnstr_loop (c # rest) token n off =
     (if off + length token \<le> n then
        if c = peek token \<and> take (length token) (c # rest) = token then Some off
        else lwip_strnstr_loop rest token n (Suc off)
      else None)"

definition lwip_strnstr :: "cstring \<Rightarrow> cstring \<Rightarrow> nat \<Rightarrow> nat option" where
  "lwip_strnstr buffer token n =
     (if length token = 0 then Some 0 else lwip_strnstr_loop buffer token n 0)"

text \<open>The comparison of two characters in the loops of \<open>lwip_stricmp\<close> and \<open>lwip_strnicmp\<close>.\<close>

definition chars_differ :: "byte \<Rightarrow> byte \<Rightarrow> bool" where
  "chars_differ c1 c2 \<longleftrightarrow> c1 \<noteq> c2 \<and>
     (let c1_upc = c1 OR 0x20 in
      if c1_upc \<ge> 0x61 \<and> c1_upc \<le> 0x7A then c1_upc \<noteq> c2 OR 0x20 else True)"

fun lwip_stricmp :: "cstring \<Rightarrow> cstring \<Rightarrow> int" where
  "lwip_stricmp [] str2 = (if chars_differ 0 (peek str2) then 1 else 0)"
| "lwip_stricmp (c1 # str1) str2 =
     (if chars_differ c1 (peek str2) then 1 else if c1 \<noteq> 0 then lwip_stricmp str1 (tl str2) else 0)"

text \<open>\<open>len\<close> is a \<open>size_t\<close>: counting down from 0 wraps around.\<close>

fun lwip_strnicmp :: "cstring \<Rightarrow> cstring \<Rightarrow> 64 word \<Rightarrow> int" where
  "lwip_strnicmp [] str2 len = (if chars_differ 0 (peek str2) then 1 else 0)"
| "lwip_strnicmp (c1 # str1) str2 len =
     (if chars_differ c1 (peek str2) then 1
      else let len = len - 1 in
        if len \<noteq> 0 \<and> c1 \<noteq> 0 then lwip_strnicmp str1 (tl str2) len else 0)"

section \<open>\<open>lwip_itoa\<close>\<close>

text \<open>
  The digits are written backwards from the end of the buffer; \<open>room\<close> is \<open>tmp - res\<close> and \<open>acc\<close>
  the bytes from \<open>tmp\<close> up to the terminating zero.
\<close>

fun lwip_itoa_loop :: "nat \<Rightarrow> nat \<Rightarrow> cstring \<Rightarrow> nat \<times> cstring" where
  "lwip_itoa_loop n 0 acc = (n, acc)"
| "lwip_itoa_loop n (Suc room) acc =
     (if n \<noteq> 0 then lwip_itoa_loop (n div 10) room (of_nat (48 + n mod 10) # acc) else (n, acc))"

text \<open>The string left in \<open>result\<close>; \<^const>\<open>None\<close> where nothing is written or \<open>-number\<close> overflows.\<close>

definition lwip_itoa :: "nat \<Rightarrow> int \<Rightarrow> cstring option" where
  "lwip_itoa bufsize number =
     (if number = - 2147483648 then None
      else if bufsize < 2 then (if bufsize = 1 then Some [] else None)
      else
        (let sign = (if number < 0 then [0x2D] else []);
             (n, digits) = lwip_itoa_loop (nat \<bar>number\<bar>) (bufsize - 1 - length sign) []
         in if n \<noteq> 0 then Some []
            else if digits = [] then Some (sign @ [0x30])
            else Some (sign @ digits)))"

section \<open>Lemmas on byte order\<close>

lemma bytes_eqI16: "(\<And>n. n < 16 \<Longrightarrow> bit x n = bit y n) \<Longrightarrow> (x :: u16) = y"
  by (rule bit_word_eqI) simp

lemma bit_00FF: "bit (0x00FF :: u16) k = (k < 8)"
proof -
  have e: "(0x00FF :: u16) = mask 8" by (simp add: mask_eq_exp_minus_1)
  show ?thesis unfolding e bit_mask_iff by auto
qed

lemma bit_FF00: "bit (0xFF00 :: u16) k = (8 \<le> k \<and> k < 16)"
proof -
  have e: "(0xFF00 :: u16) = push_bit 8 (mask 8)" by (simp add: mask_eq_exp_minus_1)
  show ?thesis unfolding e bit_push_bit_iff bit_mask_iff by auto
qed

lemma lwip_htons_bit: "n < 16 \<Longrightarrow> bit (lwip_htons x) n = bit x (if n < 8 then n + 8 else n - 8)"
  unfolding lwip_htons_def bit_or_iff bit_push_bit_iff bit_drop_bit_eq o_apply bit_and_iff bit_00FF bit_FF00
  using bit_imp_le_length [of x "8 + n"] by (auto simp: add.commute)

lemma lwip_htons_htons [simp]: "lwip_htons (lwip_htons x) = x"
  by (rule bytes_eqI16) (auto simp: lwip_htons_bit)

lemma unat_lwip_htons: "unat (lwip_htons x) = 256 * (unat x mod 256) + unat x div 256"
proof -
  have ff: "x AND 0x00FF = take_bit 8 x"
    by (simp add: take_bit_eq_mask mask_eq_exp_minus_1)
  have d: "drop_bit 8 (x AND 0xFF00) = drop_bit 8 x"
  proof (rule bytes_eqI16)
    fix n :: nat assume "n < 16"
    show "bit (drop_bit 8 (x AND 0xFF00)) n = bit (drop_bit 8 x) n"
      unfolding bit_drop_bit_eq o_apply bit_and_iff bit_FF00
      using bit_imp_le_length [of x "8 + n"] by auto
  qed
  have dj: "push_bit 8 (take_bit 8 x) AND drop_bit 8 x = 0"
  proof (rule bytes_eqI16)
    fix n :: nat assume "n < 16"
    then show "bit (push_bit 8 (take_bit 8 x) AND drop_bit 8 x) n = bit 0 n"
      using bit_imp_le_length [of x "8 + n"]
      by (auto simp: bit_drop_bit_eq bit_and_iff bit_push_bit_iff bit_take_bit_iff)
  qed
  have "lwip_htons x = push_bit 8 (take_bit 8 x) + drop_bit 8 x"
    unfolding lwip_htons_def ff d by (simp only: disjunctive_add_eq_or [OF dj])
  moreover have "unat (push_bit 8 (take_bit 8 x)) = 256 * (unat x mod 256)"
    unfolding unsigned_push_bit_eq unsigned_take_bit_eq by (simp add: push_bit_eq_mult take_bit_eq_mod)
  moreover have "unat (drop_bit 8 x) = unat x div 256"
    unfolding unsigned_drop_bit_eq by (simp add: drop_bit_eq_div take_bit_eq_mod)
  moreover have "256 * (unat x mod 256) + unat x div 256 < 65536"
    using unat_u16_less [of x] by linarith
  ultimately show ?thesis by (simp add: unat_u16_add)
qed


lemma bytes_eqI32: "(\<And>n. n < 32 \<Longrightarrow> bit x n = bit y n) \<Longrightarrow> (x :: u32) = y"
  by (rule bit_word_eqI) simp

lemma bit_byte_masks:
  "bit (0x000000FF :: u32) k = (k < 8)" "bit (0x0000FF00 :: u32) k = (8 \<le> k \<and> k < 16)"
  "bit (0x00FF0000 :: u32) k = (16 \<le> k \<and> k < 24)" "bit (0xFF000000 :: u32) k = (24 \<le> k \<and> k < 32)"
proof -
  have e: "(0x000000FF :: u32) = mask 8" "(0x0000FF00 :: u32) = push_bit 8 (mask 8)"
    "(0x00FF0000 :: u32) = push_bit 16 (mask 8)" "(0xFF000000 :: u32) = push_bit 24 (mask 8)"
    by (simp_all add: mask_eq_exp_minus_1)
  show "bit (0x000000FF :: u32) k = (k < 8)" unfolding e bit_mask_iff by auto
  show "bit (0x0000FF00 :: u32) k = (8 \<le> k \<and> k < 16)" unfolding e bit_push_bit_iff bit_mask_iff by auto
  show "bit (0x00FF0000 :: u32) k = (16 \<le> k \<and> k < 24)" unfolding e bit_push_bit_iff bit_mask_iff by auto
  show "bit (0xFF000000 :: u32) k = (24 \<le> k \<and> k < 32)" unfolding e bit_push_bit_iff bit_mask_iff by auto
qed

lemma lwip_htonl_bit:
  assumes "n < 32"
  shows "bit (lwip_htonl x) n = bit x (if n < 8 then n + 24 else if n < 16 then n + 8 else if n < 24 then n - 8 else n - 24)"
proof -
  consider "n < 8" | "8 \<le> n" "n < 16" | "16 \<le> n" "n < 24" | "24 \<le> n" using assms by linarith
  then show ?thesis
    unfolding lwip_htonl_def bit_or_iff bit_push_bit_iff bit_drop_bit_eq o_apply bit_and_iff bit_byte_masks
    using assms by cases (auto simp: add.commute)
qed

lemma lwip_htonl_htonl [simp]: "lwip_htonl (lwip_htonl x) = x"
proof (rule bytes_eqI32)
  fix n :: nat assume n: "n < 32"
  consider "n < 8" | "8 \<le> n" "n < 16" | "16 \<le> n" "n < 24" | "24 \<le> n" by linarith
  then show "bit (lwip_htonl (lwip_htonl x)) n = bit x n"
    using n by cases (auto simp: lwip_htonl_bit)
qed

text \<open>The bytes of an address in memory: \<open>ip4_addr_get_byte\<close>.\<close>

definition u32_byte :: "u32 \<Rightarrow> nat \<Rightarrow> byte" where
  "u32_byte x i = ucast (drop_bit (8 * i) x)"

lemma bit_u32_byte: "bit (u32_byte x i) n = (n < 8 \<and> bit x (8 * i + n))"
  by (auto simp: u32_byte_def bit_ucast_iff bit_drop_bit_eq)

lemma lwip_htonl_byte: "i < 4 \<Longrightarrow> u32_byte (lwip_htonl x) i = u32_byte x (3 - i)"
proof (rule bit_word_eqI)
  fix n :: nat assume i: "i < 4" and n: "n < LENGTH(8)"
  consider "i = 0" | "i = 1" | "i = 2" | "i = 3" using i by linarith
  then show "bit (u32_byte (lwip_htonl x) i) n = bit (u32_byte x (3 - i)) n"
    using n by cases (simp_all add: bit_u32_byte lwip_htonl_bit add.commute)
qed

section \<open>Lemmas on strings\<close>

lemma lwip_strnstr_loop_spec:
  assumes "token \<noteq> []"
  shows "lwip_strnstr_loop s token n off = Some r \<longleftrightarrow>
    off \<le> r \<and> r - off + length token \<le> length s \<and> r + length token \<le> n \<and> take (length token) (drop (r - off) s) = token
    \<and> (\<forall>j. off \<le> j \<and> j < r \<longrightarrow> take (length token) (drop (j - off) s) \<noteq> token)"
proof (induction s arbitrary: off)
  case Nil
  then show ?case using assms by auto
next
  case (Cons c s)
  have pk: "take (length token) (c # s) = token \<Longrightarrow> c = peek token"
    using assms by (cases token) (auto simp: peek_def)
  show ?case
  proof (cases "off + length token \<le> n")
    case False
    then show ?thesis by auto
  next
    case True
    show ?thesis
    proof (cases "take (length token) (c # s) = token")
      case m: True
      then have le: "length token \<le> length (c # s)" by (metis length_take min.cobounded1)
      have "lwip_strnstr_loop (c # s) token n off = Some off" using True m pk by simp
      moreover have "r = off" if "off \<le> r" "\<forall>j. off \<le> j \<and> j < r \<longrightarrow> take (length token) (drop (j - off) (c # s)) \<noteq> token"
        using that m by (metis diff_self_eq_0 drop_0 le_neq_implies_less order_refl)
      ultimately show ?thesis using m le True by auto
    next
      case nm: False
      then have st: "lwip_strnstr_loop (c # s) token n off = lwip_strnstr_loop s token n (Suc off)" using True by auto
      have sh: "drop (j - off) (c # s) = drop (j - Suc off) s" if "Suc off \<le> j" for j
        using that by (simp add: Suc_diff_le [symmetric] drop_Cons' )
      have "(\<forall>j. off \<le> j \<and> j < r \<longrightarrow> take (length token) (drop (j - off) (c # s)) \<noteq> token)
        \<longleftrightarrow> (\<forall>j. Suc off \<le> j \<and> j < r \<longrightarrow> take (length token) (drop (j - Suc off) s) \<noteq> token)" (is "?L \<longleftrightarrow> ?R")
      proof
        assume ?L
        then show ?R using sh by (metis Suc_leD)
      next
        assume R: ?R
        show ?L
        proof (intro allI impI)
          fix j assume "off \<le> j \<and> j < r"
          then show "take (length token) (drop (j - off) (c # s)) \<noteq> token"
            using R nm sh [of j] by (cases "j = off") auto
        qed
      qed
      moreover have "off \<noteq> r" if "take (length token) (drop (r - off) (c # s)) = token" using that nm by auto
      ultimately show ?thesis
        unfolding st Cons.IH using sh [of r] by (cases "Suc off \<le> r") (auto simp: Suc_diff_le [symmetric] not_less_eq_eq le_less_Suc_eq)
    qed
  qed
qed


definition lower :: "byte \<Rightarrow> byte" where
  "lower c = (if 0x41 \<le> c \<and> c \<le> 0x5A then c + 0x20 else c)"

definition isalpha :: "byte \<Rightarrow> bool" where
  "isalpha c \<longleftrightarrow> 0x41 \<le> c \<and> c \<le> 0x5A \<or> 0x61 \<le> c \<and> c \<le> 0x7A"

lemma unat_or_20: "unat (c OR 0x20 :: byte) = (if odd (unat c div 32) then unat c else unat c + 32)"
proof -
  have e: "(0x20 :: byte) = push_bit 5 1" by simp
  have b20: "bit (0x20 :: byte) n = (n = 5)" for n unfolding e bit_push_bit_iff bit_1_iff by auto
  have "bit c 5 = bit (unat c) 5" by (simp add: bit_unsigned_iff)
  then have b5: "bit c 5 \<longleftrightarrow> odd (unat c div 32)" by (simp add: bit_iff_odd)
  show ?thesis
  proof (cases "bit c 5")
    case True
    have "bit (c OR 0x20) n = bit c n" for n unfolding bit_or_iff b20 using True by auto
    then have "c OR 0x20 = c" by (intro bit_word_eqI) blast
    then show ?thesis using True b5 by simp
  next
    case False
    have "bit (c AND 0x20) n = bit 0 n" for n unfolding bit_and_iff b20 using False by auto
    then have "c AND 0x20 = 0" by (intro bit_word_eqI) blast
    then have "c OR 0x20 = c + 0x20" by (simp add: disjunctive_add_eq_or)
    moreover have "even (unat c div 32)" using False b5 by simp
    then have "unat c div 32 \<noteq> 7" by auto
    then have "unat c + 32 < 256" using unat_u8_less [of c] by linarith
    ultimately show ?thesis using False b5 by (simp add: unat_word_ariths)
  qed
qed

lemma letter_facts:
  "(0x61 \<le> c OR 0x20 \<and> c OR 0x20 \<le> 0x7A) = isalpha c \<and> (isalpha c \<longrightarrow> lower c = c OR 0x20)
     \<and> (\<not> isalpha c \<longrightarrow> lower c = c) \<and> (0x61 \<le> c \<and> c \<le> 0x7A \<longrightarrow> c OR 0x20 = c)"
proof -
  have lw: "unat (lower c) = (if 65 \<le> unat c \<and> unat c \<le> 90 then unat c + 32 else unat c)"
    by (auto simp: lower_def word_le_nat_alt unat_word_ariths)
  have al: "isalpha c \<longleftrightarrow> 65 \<le> unat c \<and> unat c \<le> 90 \<or> 97 \<le> unat c \<and> unat c \<le> 122"
    by (simp add: isalpha_def word_le_nat_alt)
  define k where "k = unat c div 32"
  have k: "32 * k \<le> unat c" "unat c < 32 * k + 32" using k_def by linarith+
  have "k < 8" using k unat_u8_less [of c] by linarith
  then have ks: "k = 0 \<or> k = 1 \<or> k = 2 \<or> k = 3 \<or> k = 4 \<or> k = 5 \<or> k = 6 \<or> k = 7" by linarith
  note u20 = unat_or_20 [of c, folded k_def]
  have A: "(97 \<le> unat (c OR 0x20) \<and> unat (c OR 0x20) \<le> 122) = isalpha c"
    unfolding u20 al using k ks by (elim disjE) auto
  have B: "isalpha c \<longrightarrow> unat (lower c) = unat (c OR 0x20)"
    unfolding u20 al lw using k ks by (elim disjE) auto
  have C: "\<not> isalpha c \<longrightarrow> unat (lower c) = unat c" unfolding al lw by auto
  have D: "97 \<le> unat c \<and> unat c \<le> 122 \<longrightarrow> unat (c OR 0x20) = unat c"
    unfolding u20 using k ks by (elim disjE) auto
  show ?thesis using A B C D by (simp add: word_le_nat_alt word_unat_eq_iff)
qed

lemma chars_differ_iff: "chars_differ c1 c2 \<longleftrightarrow> lower c1 \<noteq> lower c2"
  using letter_facts [of c1] letter_facts [of c2] unfolding chars_differ_def Let_def by metis

lemma lower_0 [simp]: "lower c = 0 \<longleftrightarrow> c = 0" "lower 0 = 0"
proof -
  have "unat (lower c) = (if 65 \<le> unat c \<and> unat c \<le> 90 then unat c + 32 else unat c)"
    by (auto simp: lower_def word_le_nat_alt unat_word_ariths)
  then show "lower c = 0 \<longleftrightarrow> c = 0" by (auto simp: word_unat_eq_iff)
  show "lower 0 = 0" by (simp add: lower_def)
qed

lemma lwip_stricmp_iff: "cstr s1 \<Longrightarrow> cstr s2 \<Longrightarrow> lwip_stricmp s1 s2 = 0 \<longleftrightarrow> map lower s1 = map lower s2"
proof (induction s1 arbitrary: s2)
  case Nil
  then show ?case by (cases s2) (auto simp: chars_differ_iff peek_def cstr_def)
next
  case (Cons c s1)
  have "cstr s1" "c \<noteq> 0" "cstr (tl s2)" using Cons.prems by (cases s2; auto simp: cstr_def)+
  then show ?case using Cons
    by (cases s2) (auto simp: chars_differ_iff peek_def cstr_def)
qed

lemma lwip_strnicmp_iff:
  assumes "cstr s1" "cstr s2" "0 < unat len"
  shows "lwip_strnicmp s1 s2 len = 0 \<longleftrightarrow> map lower (take (unat len) s1) = map lower (take (unat len) s2)"
  using assms
proof (induction s1 arbitrary: s2 len)
  case Nil
  then show ?case by (cases s2) (auto simp: chars_differ_iff peek_def cstr_def)
next
  case (Cons c s1)
  have c: "cstr s1" "c \<noteq> 0" "cstr (tl s2)" using Cons.prems by (cases s2; auto simp: cstr_def)+
  obtain k where k: "unat len = Suc k" using Cons.prems(3) by (cases "unat len") auto
  then have u: "unat (len - 1) = k" by (metis One_nat_def diff_Suc_1 unat_minus_one unat_eq_zero nat.distinct(1))
  then have z: "len - 1 = 0 \<longleftrightarrow> k = 0" by (metis unat_eq_zero)
  show ?case
  proof (cases s2)
    case Nil
    then show ?thesis using c(2) k by (auto simp: chars_differ_iff peek_def)
  next
    case (Cons d s2')
    then show ?thesis
      using Cons.IH [OF c(1,3), of "len - 1"] u z k c(2) by (auto simp: chars_differ_iff peek_def)
  qed
qed

section \<open>Lemmas on \<open>lwip_itoa\<close>\<close>

text \<open>The number a decimal string stands for.\<close>

definition dec_val :: "cstring \<Rightarrow> nat" where
  "dec_val s = foldl (\<lambda>v c. 10 * v + (unat c - 48)) 0 s"

definition is_digit :: "byte \<Rightarrow> bool" where
  "is_digit c \<longleftrightarrow> 48 \<le> unat c \<and> unat c \<le> 57"

lemma dec_val_foldl: "foldl (\<lambda>v c. 10 * v + (unat c - 48)) n s = n * 10 ^ length s + dec_val s"
  unfolding dec_val_def
proof (induction s arbitrary: n)
  case (Cons c s)
  show ?case using Cons [of "10 * n + (unat c - 48)"] Cons [of "unat c - 48"] by (simp add: algebra_simps)
qed simp

lemma dec_val_Cons: "dec_val (c # s) = (unat c - 48) * 10 ^ length s + dec_val s"
  using dec_val_foldl [of "unat c - 48" s] by (simp add: dec_val_def)

lemma digit_byte: "d < 10 \<Longrightarrow> unat (of_nat (48 + d) :: byte) = 48 + d"
  by (simp add: unat_of_nat take_bit_eq_mod del: of_nat_add)

text \<open>The loop keeps \<open>n * 10 ^ (digits written) + (value written)\<close>, and ends when the room is enough.\<close>

lemma lwip_itoa_loop_value:
  "lwip_itoa_loop n room acc = (n', s) \<Longrightarrow> n' * 10 ^ length s + dec_val s = n * 10 ^ length acc + dec_val acc"
proof (induction n room acc arbitrary: n' s rule: lwip_itoa_loop.induct)
  case (2 n room acc)
  show ?case
  proof (cases "n = 0")
    case False
    have "n div 10 * 10 ^ Suc (length acc) + n mod 10 * 10 ^ length acc = n * 10 ^ length acc"
      by (metis add_mult_distrib div_mult_mod_eq mult.assoc power_Suc)
    then show ?thesis
      using 2 False by (simp add: dec_val_Cons digit_byte del: of_nat_add)
  qed (use 2 in simp)
qed simp

lemma lwip_itoa_loop_digits:
  "lwip_itoa_loop n room acc = (n', s) \<Longrightarrow> list_all is_digit acc \<Longrightarrow> list_all is_digit s"
  by (induction n room acc arbitrary: n' s rule: lwip_itoa_loop.induct)
    (auto simp: is_digit_def digit_byte simp del: of_nat_add split: if_splits)

lemma lwip_itoa_loop_done:
  "n < 10 ^ room \<Longrightarrow> fst (lwip_itoa_loop n room acc) = 0"
  by (induction n room acc rule: lwip_itoa_loop.induct) (auto simp: less_mult_imp_div_less mult.commute)

lemma lwip_itoa_loop_ne:
  "lwip_itoa_loop n room acc = (n', s) \<Longrightarrow> length acc \<le> length s \<and> (n \<noteq> 0 \<and> room \<noteq> 0 \<longrightarrow> length acc < length s)"
  by (induction n room acc arbitrary: n' s rule: lwip_itoa_loop.induct) (fastforce split: if_splits)+


section \<open>Properties\<close>

text \<open>\<open>lwip_strnstr\<close> returns the first position where the token occurs completely inside the
  string and inside the first \<open>n\<close> bytes, and \<open>NULL\<close> exactly when there is none.\<close>

theorem lwip_strnstr_first:
  assumes "token \<noteq> []"
  shows "lwip_strnstr s token n = Some r \<longleftrightarrow>
    r + length token \<le> length s \<and> r + length token \<le> n \<and> take (length token) (drop r s) = token
    \<and> (\<forall>j < r. take (length token) (drop j s) \<noteq> token)"
  using lwip_strnstr_loop_spec [OF assms, of s n 0 r] assms by (simp add: lwip_strnstr_def)

theorem lwip_strnstr_first_witness: "lwip_strnstr [1, 2, 3, 2, 3] [2, 3] 4 = Some 1"
  using lwip_strnstr_first [of "[2, 3]" "[1, 2, 3, 2, 3]" 4 1] by simp

text \<open>\<open>lwip_stricmp\<close> and \<open>lwip_strnicmp\<close> (for a positive length) return 0 exactly when the
  strings, cut to the length, agree up to the case of the letters A to Z.\<close>

theorem lwip_stricmp_case_insensitive:
  assumes "cstr s1" "cstr s2" "0 < unat len"
  shows "(lwip_stricmp s1 s2 = 0 \<longleftrightarrow> map lower s1 = map lower s2)
    \<and> (lwip_strnicmp s1 s2 len = 0 \<longleftrightarrow> map lower (take (unat len) s1) = map lower (take (unat len) s2))"
  using lwip_stricmp_iff [OF assms(1,2)] lwip_strnicmp_iff [OF assms] by simp

theorem lwip_stricmp_case_insensitive_witness:
  "lwip_stricmp [0x45, 0x6E] [0x65, 0x4E] = 0 \<and> lwip_strnicmp [0x45, 0x6E] [0x65, 0x4E] 2 = 0"
proof -
  have "cstr [0x45, 0x6E]" "cstr [0x65, 0x4E]" "0 < unat (2 :: 64 word)" by (simp_all add: cstr_def)
  from lwip_stricmp_case_insensitive [OF this] show ?thesis by (simp add: lower_def)
qed

text \<open>with a buffer of 12 bytes \<open>lwip_itoa\<close> prints every \<open>int\<close> but the smallest: the result is an
  optional minus sign and decimal digits whose value is the absolute value of the number.\<close>

theorem lwip_itoa_decimal:
  assumes "12 \<le> bufsize" "\<bar>number\<bar> < 2147483648"
  shows "\<exists>digits. lwip_itoa bufsize number = Some ((if number < 0 then [0x2D] else []) @ digits)
    \<and> digits \<noteq> [] \<and> list_all is_digit digits \<and> int (dec_val digits) = \<bar>number\<bar>"
proof -
  let ?room = "bufsize - 1 - length (if number < 0 then [0x2D :: byte] else [])"
  obtain n s where l: "lwip_itoa_loop (nat \<bar>number\<bar>) ?room [] = (n, s)" by fastforce
  have "10 \<le> ?room" using assms(1) by auto
  then have "(10 :: nat) ^ 10 \<le> 10 ^ ?room" by (intro power_increasing) auto
  moreover have "nat \<bar>number\<bar> < 10 ^ 10" using assms(2) by simp
  ultimately have "nat \<bar>number\<bar> < 10 ^ ?room" by linarith
  from lwip_itoa_loop_done [OF this, of "[]"] have n0: "n = 0" using l by simp
  have v: "dec_val s = nat \<bar>number\<bar>" using lwip_itoa_loop_value [OF l] n0 by (simp add: dec_val_def)
  have d: "list_all is_digit s" using lwip_itoa_loop_digits [OF l] by simp
  have run: "lwip_itoa bufsize number = Some ((if number < 0 then [0x2D] else []) @ (if s = [] then [0x30] else s))"
    using assms l n0 by (auto simp: lwip_itoa_def Let_def)
  show ?thesis
  proof (cases "s = []")
    case True
    then have "number = 0" using v by (simp add: dec_val_def)
    then show ?thesis using run True by (intro exI [of _ "[0x30]"]) (simp add: is_digit_def dec_val_def)
  next
    case False
    then show ?thesis using run d v by (intro exI [of _ s]) simp
  qed
qed

theorem lwip_itoa_decimal_witness:
  "\<exists>digits. lwip_itoa 12 (-305) = Some ([0x2D] @ digits) \<and> digits \<noteq> [] \<and> int (dec_val digits) = 305"
  using lwip_itoa_decimal [of 12 "-305"] by auto

end
