(* ===== verification/Pbuf_Heap.thy ===== *)
theory Pbuf_Heap
  imports Sys_Mbox
begin

unbundle bit_operations_syntax

text \<open>
  The memory of the program as far as packets are concerned: \<open>struct pbuf\<close>
  (\<open>lwip/include/lwip/pbuf.h\<close>), the allocator (\<open>lwip/core/mem.c\<close> and \<open>memp.c\<close> in the
  configuration of \<open>lwipopts.h\<close>, \<open>MEM_LIBC_MALLOC = 1\<close> and \<open>MEMP_MEM_MALLOC = 1\<close>: every
  allocation is one call of \<open>malloc\<close>), the messages of the tcpip thread and its mailbox with
  \<open>tcpip_try_callback\<close> (\<open>lwip/api/tcpip.c\<close>), and the chains of pbufs in this memory.

  Addresses are natural numbers and never reused, so that a dangling pointer stays dangling.
  The environment of \<open>malloc\<close> is part of the state: \<open>hp_oom n\<close> says whether the \<open>n\<close>-th
  allocation fails and \<open>hp_junk n\<close> is what the fresh block holds.  The bytes behind a
  \<open>PBUF_RAM\<close> or \<open>PBUF_POOL\<close> struct are the block with the address of the struct, and a payload
  pointer is a block and an offset in it.  The layout constants are those of the 64 bit builds.
\<close>

section \<open>The types of pbufs\<close>

datatype pbuf_layer = PBUF_TRANSPORT | PBUF_IP | PBUF_LINK | PBUF_RAW_TX | PBUF_RAW

definition pbuf_layer_hlen :: "pbuf_layer \<Rightarrow> u16" where
  "pbuf_layer_hlen l = (case l of PBUF_TRANSPORT \<Rightarrow> 0 + 14 + 20 + 20 | PBUF_IP \<Rightarrow> 0 + 14 + 20
     | PBUF_LINK \<Rightarrow> 0 + 14 | PBUF_RAW_TX \<Rightarrow> 0 | PBUF_RAW \<Rightarrow> 0)"

definition PBUF_TYPE_FLAG_STRUCT_DATA_CONTIGUOUS :: u16 where
  "PBUF_TYPE_FLAG_STRUCT_DATA_CONTIGUOUS = 0x80"
definition PBUF_TYPE_FLAG_DATA_VOLATILE :: u16 where "PBUF_TYPE_FLAG_DATA_VOLATILE = 0x40"
definition PBUF_TYPE_ALLOC_SRC_MASK :: u16 where "PBUF_TYPE_ALLOC_SRC_MASK = 0x0F"
definition PBUF_TYPE_ALLOC_SRC_MASK_STD_HEAP :: u16 where "PBUF_TYPE_ALLOC_SRC_MASK_STD_HEAP = 0x00"
definition PBUF_TYPE_ALLOC_SRC_MASK_STD_MEMP_PBUF :: u16 where
  "PBUF_TYPE_ALLOC_SRC_MASK_STD_MEMP_PBUF = 0x01"
definition PBUF_TYPE_ALLOC_SRC_MASK_STD_MEMP_PBUF_POOL :: u16 where
  "PBUF_TYPE_ALLOC_SRC_MASK_STD_MEMP_PBUF_POOL = 0x02"

datatype pbuf_type = PBUF_RAM | PBUF_ROM | PBUF_REF | PBUF_POOL

definition pbuf_type_val :: "pbuf_type \<Rightarrow> u16" where
  "pbuf_type_val t = (case t of
       PBUF_RAM \<Rightarrow> 0x0200 OR PBUF_TYPE_FLAG_STRUCT_DATA_CONTIGUOUS OR PBUF_TYPE_ALLOC_SRC_MASK_STD_HEAP
     | PBUF_ROM \<Rightarrow> PBUF_TYPE_ALLOC_SRC_MASK_STD_MEMP_PBUF
     | PBUF_REF \<Rightarrow> PBUF_TYPE_FLAG_DATA_VOLATILE OR PBUF_TYPE_ALLOC_SRC_MASK_STD_MEMP_PBUF
     | PBUF_POOL \<Rightarrow> 0x0100 OR PBUF_TYPE_FLAG_STRUCT_DATA_CONTIGUOUS OR PBUF_TYPE_ALLOC_SRC_MASK_STD_MEMP_PBUF_POOL)"

definition PBUF_FLAG_PUSH :: u8 where "PBUF_FLAG_PUSH = 0x01"
definition PBUF_FLAG_LLBCAST :: u8 where "PBUF_FLAG_LLBCAST = 0x08"
definition PBUF_FLAG_LLMCAST :: u8 where "PBUF_FLAG_LLMCAST = 0x10"
definition PBUF_FLAG_TCP_FIN :: u8 where "PBUF_FLAG_TCP_FIN = 0x20"

record pbuf =
  pb_next :: "addr option"
  pb_payload :: "ptr option"
  pb_tot_len :: u16
  pb_len :: u16
  pb_type_internal :: u8
  pb_flags :: u8
  pb_ref :: u8
  pb_if_idx :: u8

definition pbuf_get_allocsrc :: "pbuf \<Rightarrow> u16" where
  "pbuf_get_allocsrc pb = ucast (pb_type_internal pb) AND PBUF_TYPE_ALLOC_SRC_MASK"

definition pbuf_match_allocsrc :: "pbuf \<Rightarrow> u16 \<Rightarrow> bool" where
  "pbuf_match_allocsrc pb t \<longleftrightarrow> pbuf_get_allocsrc pb = t AND PBUF_TYPE_ALLOC_SRC_MASK"

section \<open>Messages of the tcpip thread\<close>

text \<open>The functions that the program posts, and the kinds of \<open>struct tcpip_msg\<close> of this build.\<close>

datatype tcpip_callback_fn =
  fn_pbuf_free_ooseq_callback | fn_pbuf_free_int | fn_mem_free_int | fn_poll_tx | fn_udp_poll_tx

datatype tcpip_msg =
    TCPIP_MSG_INPKT (inp_p: addr) (inp_netif: nat)
  | TCPIP_MSG_CALLBACK (cb_function: tcpip_callback_fn) (cb_ctx: "addr option")
  | TCPIP_MSG_CALLBACK_STATIC (cb_function: tcpip_callback_fn) (cb_ctx: "addr option")

section \<open>The heap\<close>

record heap =
  hp_pbufs :: "addr \<rightharpoonup> pbuf"
  hp_blocks :: "addr \<rightharpoonup> byte list"
  hp_msgs :: "addr \<rightharpoonup> tcpip_msg"
  hp_mbox :: "addr sys_mbox"
  hp_ooseq_pending :: bool
  hp_brk :: nat
  hp_oom :: "nat \<Rightarrow> bool"
  hp_junk :: "nat \<Rightarrow> nat \<Rightarrow> byte"

definition MEM_ALIGNMENT :: nat where "MEM_ALIGNMENT = 8"
definition PBUF_POOL_BUFSIZE :: nat where "PBUF_POOL_BUFSIZE = 1024"

definition LWIP_MEM_ALIGN_SIZE :: "nat \<Rightarrow> nat" where
  "LWIP_MEM_ALIGN_SIZE n = (n + MEM_ALIGNMENT - 1) div MEM_ALIGNMENT * MEM_ALIGNMENT"

text \<open>\<open>mem_malloc\<close>: the address of the fresh block, or \<open>NULL\<close>.\<close>

definition mem_malloc :: "heap \<Rightarrow> addr option \<times> heap" where
  "mem_malloc h = (if hp_oom h (hp_brk h) then None else Some (hp_brk h), h\<lparr>hp_brk := Suc (hp_brk h)\<rparr>)"

text \<open>The contents of a fresh block of \<open>n\<close> bytes at address \<open>a\<close>.\<close>

definition fresh_block :: "heap \<Rightarrow> addr \<Rightarrow> nat \<Rightarrow> byte list" where
  "fresh_block h a n = map (hp_junk h a) [0..<n]"

definition put_pbuf :: "heap \<Rightarrow> addr \<Rightarrow> pbuf \<Rightarrow> heap" where
  "put_pbuf h a pb = h\<lparr>hp_pbufs := (hp_pbufs h)(a \<mapsto> pb)\<rparr>"

definition put_block :: "heap \<Rightarrow> addr \<Rightarrow> byte list \<Rightarrow> heap" where
  "put_block h a bs = h\<lparr>hp_blocks := (hp_blocks h)(a \<mapsto> bs)\<rparr>"

text \<open>\<open>mem_free\<close> and \<open>memp_free\<close> of a pbuf: the struct and the bytes behind it.\<close>

definition free_pbuf :: "heap \<Rightarrow> addr \<Rightarrow> heap" where
  "free_pbuf h a = h\<lparr>hp_pbufs := (hp_pbufs h)(a := None), hp_blocks := (hp_blocks h)(a := None)\<rparr>"

text \<open>\<open>memp_malloc(MEMP_TCPIP_MSG_API)\<close> followed by filling in the message, and \<open>memp_free\<close>.\<close>

definition memp_malloc_msg :: "heap \<Rightarrow> tcpip_msg \<Rightarrow> addr option \<times> heap" where
  "memp_malloc_msg h m = (case mem_malloc h of
      (None, h) \<Rightarrow> (None, h)
    | (Some a, h) \<Rightarrow> (Some a, h\<lparr>hp_msgs := (hp_msgs h)(a \<mapsto> m)\<rparr>))"

definition memp_free_msg :: "heap \<Rightarrow> addr \<Rightarrow> heap" where
  "memp_free_msg h a = h\<lparr>hp_msgs := (hp_msgs h)(a := None)\<rparr>"

definition tcpip_try_callback :: "tcpip_callback_fn \<Rightarrow> addr option \<Rightarrow> heap \<Rightarrow> (err_t \<times> heap) option" where
  "tcpip_try_callback function ctx h =
     (case memp_malloc_msg h (TCPIP_MSG_CALLBACK function ctx) of
        (None, h) \<Rightarrow> Some (ERR_MEM, h)
      | (Some msg, h) \<Rightarrow> do {
          (e, mb) \<leftarrow> sys_mbox_trypost (hp_mbox h) msg;
          let h = h\<lparr>hp_mbox := mb\<rparr>;
          if e \<noteq> ERR_OK then Some (ERR_MEM, memp_free_msg h msg) else Some (ERR_OK, h)
        })"

section \<open>Memory accesses\<close>

text \<open>\<open>MEMCPY\<close> from and to a payload pointer; an access outside the block crashes.\<close>

definition mem_read :: "heap \<Rightarrow> ptr option \<Rightarrow> nat \<Rightarrow> nat \<Rightarrow> byte list option" where
  "mem_read h p off n = (if n = 0 then Some [] else do {
     (b, base) \<leftarrow> p;
     bs \<leftarrow> hp_blocks h b;
     if base + off + n \<le> length bs then Some (seg (base + off) n bs) else None
   })"

definition mem_write :: "heap \<Rightarrow> ptr option \<Rightarrow> nat \<Rightarrow> byte list \<Rightarrow> heap option" where
  "mem_write h p off ys = (if ys = [] then Some h else do {
     (b, base) \<leftarrow> p;
     bs \<leftarrow> hp_blocks h b;
     if base + off + length ys \<le> length bs
     then Some (put_block h b (splice_at (base + off) ys bs)) else None
   })"

lemma put_pbuf_simps [simp, heap_simps]:
  "hp_pbufs (put_pbuf h a pb) = (hp_pbufs h)(a \<mapsto> pb)"
  "hp_blocks (put_pbuf h a pb) = hp_blocks h"
  "hp_msgs (put_pbuf h a pb) = hp_msgs h"
  "hp_mbox (put_pbuf h a pb) = hp_mbox h"
  "hp_brk (put_pbuf h a pb) = hp_brk h"
  "hp_oom (put_pbuf h a pb) = hp_oom h"
  "hp_junk (put_pbuf h a pb) = hp_junk h"
  "hp_ooseq_pending (put_pbuf h a pb) = hp_ooseq_pending h"
  by (simp_all add: put_pbuf_def)

lemma put_block_simps [simp, heap_simps]:
  "hp_pbufs (put_block h a bs) = hp_pbufs h"
  "hp_blocks (put_block h a bs) = (hp_blocks h)(a \<mapsto> bs)"
  "hp_msgs (put_block h a bs) = hp_msgs h"
  "hp_mbox (put_block h a bs) = hp_mbox h"
  "hp_brk (put_block h a bs) = hp_brk h"
  "hp_oom (put_block h a bs) = hp_oom h"
  "hp_junk (put_block h a bs) = hp_junk h"
  "hp_ooseq_pending (put_block h a bs) = hp_ooseq_pending h"
  by (simp_all add: put_block_def)

lemma free_pbuf_simps [simp, heap_simps]:
  "hp_pbufs (free_pbuf h a) = (hp_pbufs h)(a := None)"
  "hp_blocks (free_pbuf h a) = (hp_blocks h)(a := None)"
  "hp_msgs (free_pbuf h a) = hp_msgs h"
  "hp_mbox (free_pbuf h a) = hp_mbox h"
  "hp_brk (free_pbuf h a) = hp_brk h"
  "hp_oom (free_pbuf h a) = hp_oom h"
  "hp_junk (free_pbuf h a) = hp_junk h"
  "hp_ooseq_pending (free_pbuf h a) = hp_ooseq_pending h"
  by (simp_all add: free_pbuf_def)

section \<open>Chains of pbufs\<close>

text \<open>\<open>chain h p as\<close>: following \<open>next\<close> from \<open>p\<close> visits the addresses \<open>as\<close> and ends with \<open>NULL\<close>.\<close>

fun chain :: "heap \<Rightarrow> addr option \<Rightarrow> addr list \<Rightarrow> bool" where
  "chain h p [] \<longleftrightarrow> p = None"
| "chain h p (a # as) \<longleftrightarrow> p = Some a \<and> (\<exists>pb. hp_pbufs h a = Some pb \<and> chain h (pb_next pb) as)"

definition the_pbuf :: "heap \<Rightarrow> addr \<Rightarrow> pbuf" where
  "the_pbuf h a = the (hp_pbufs h a)"

text \<open>The payload of one pbuf and of a chain.\<close>

definition pdata :: "heap \<Rightarrow> addr \<Rightarrow> byte list" where
  "pdata h a = (case mem_read h (pb_payload (the_pbuf h a)) 0 (unat (pb_len (the_pbuf h a))) of
      Some bs \<Rightarrow> bs | None \<Rightarrow> [])"

definition pbytes :: "heap \<Rightarrow> addr list \<Rightarrow> byte list" where
  "pbytes h as = concat (map (pdata h) as)"

text \<open>A readable pbuf: its payload lies inside a live block.  An owned pbuf: it is its own block.\<close>

definition readable :: "heap \<Rightarrow> addr \<Rightarrow> bool" where
  "readable h a \<longleftrightarrow> (\<exists>pb. hp_pbufs h a = Some pb
     \<and> (pb_len pb = 0 \<or> (\<exists>b off bs. pb_payload pb = Some (b, off) \<and> hp_blocks h b = Some bs
          \<and> off + unat (pb_len pb) \<le> length bs)))"

definition owned :: "heap \<Rightarrow> addr \<Rightarrow> bool" where
  "owned h a \<longleftrightarrow> (\<exists>pb off bs. hp_pbufs h a = Some pb \<and> pb_payload pb = Some (a, off)
     \<and> hp_blocks h a = Some bs \<and> off + unat (pb_len pb) \<le> length bs)"

text \<open>\<open>tot_len\<close> of every pbuf is the length of the rest of the packet.\<close>

fun tot_ok :: "heap \<Rightarrow> addr list \<Rightarrow> bool" where
  "tot_ok h [] \<longleftrightarrow> True"
| "tot_ok h (a # as) \<longleftrightarrow> unat (pb_tot_len (the_pbuf h a))
      = unat (pb_len (the_pbuf h a)) + sum_list (map (\<lambda>b. unat (pb_len (the_pbuf h b))) as)
    \<and> tot_ok h as"

text \<open>A packet: a well-formed chain, as \<open>pbuf.h\<close> documents it.\<close>

definition packet :: "heap \<Rightarrow> addr option \<Rightarrow> addr list \<Rightarrow> bool" where
  "packet h p as \<longleftrightarrow> chain h p as \<and> as \<noteq> [] \<and> list_all (owned h) as \<and> tot_ok h as"

text \<open>Everything allocated lies below the next fresh address.\<close>

definition heap_ok :: "heap \<Rightarrow> bool" where
  "heap_ok h \<longleftrightarrow> dom (hp_pbufs h) \<subseteq> {..<hp_brk h} \<and> dom (hp_blocks h) \<subseteq> {..<hp_brk h}
     \<and> dom (hp_msgs h) \<subseteq> {..<hp_brk h}"

section \<open>Lemmas on chains\<close>

lemma the_pbuf_Some [simp]: "hp_pbufs h a = Some pb \<Longrightarrow> the_pbuf h a = pb"
  by (simp add: the_pbuf_def)

lemma chain_None [simp]: "chain h None as \<longleftrightarrow> as = []"
  by (cases as) auto

lemma chain_Some: "chain h (Some a) as \<longleftrightarrow>
    (\<exists>pb bs. as = a # bs \<and> hp_pbufs h a = Some pb \<and> chain h (pb_next pb) bs)"
  by (cases as) auto

lemma chain_unique: "chain h p as \<Longrightarrow> chain h p bs \<Longrightarrow> as = bs"
  by (induction as arbitrary: p bs) (auto simp: chain_Some)

lemma chain_append:
  "chain h p (as @ bs) \<Longrightarrow> \<exists>q. chain h q bs"
  by (induction as arbitrary: p) auto

lemma chain_distinct: "chain h p as \<Longrightarrow> distinct as"
proof (induction as arbitrary: p)
  case Nil
  then show ?case by simp
next
  case (Cons a as)
  then obtain pb where pb: "hp_pbufs h a = Some pb" "chain h (pb_next pb) as" by auto
  have "a \<notin> set as"
  proof
    assume "a \<in> set as"
    then obtain xs ys where as: "as = xs @ a # ys" by (meson split_list)
    then obtain q where "chain h q (a # ys)" using pb(2) chain_append [of h "pb_next pb" xs "a # ys"] by auto
    then have "chain h (pb_next pb) ys" using pb(1) by simp
    then have "ys = as" using chain_unique pb(2) by blast
    then show False using as by simp
  qed
  then show ?case using Cons.IH [OF pb(2)] by simp
qed

lemma chain_live: "chain h p as \<Longrightarrow> a \<in> set as \<Longrightarrow> hp_pbufs h a \<noteq> None"
  by (induction as arbitrary: p) auto

lemma chain_cong:
  "chain h p as \<Longrightarrow> (\<And>a. a \<in> set as \<Longrightarrow> map_option pb_next (hp_pbufs h' a) = map_option pb_next (hp_pbufs h a))
    \<Longrightarrow> chain h' p as"
proof (induction as arbitrary: p)
  case Nil
  then show ?case by simp
next
  case (Cons a as)
  from Cons.prems(1) obtain pb where pb: "p = Some a" "hp_pbufs h a = Some pb" "chain h (pb_next pb) as"
    by auto
  from Cons.prems(2) [of a] pb(2) obtain pb' where "hp_pbufs h' a = Some pb'" "pb_next pb' = pb_next pb"
    by auto
  moreover have "chain h' (pb_next pb) as"
    using Cons.IH [OF pb(3)] Cons.prems(2) by simp
  ultimately show ?case using pb(1) by simp
qed

lemma chain_put_notin [simp]:
  "a \<notin> set as \<Longrightarrow> chain (put_pbuf h a pb) p as = chain h p as"
  by (induction as arbitrary: p) auto

lemma chain_put_block [simp]: "chain (put_block h b bs) p as = chain h p as"
  by (induction as arbitrary: p) auto

lemma chain_free_notin [simp]:
  "a \<notin> set as \<Longrightarrow> chain (free_pbuf h a) p as = chain h p as"
  by (induction as arbitrary: p) auto

lemma the_pbuf_simps [simp]:
  "the_pbuf (put_pbuf h a pb) b = (if b = a then pb else the_pbuf h b)"
  "the_pbuf (put_block h c bs) b = the_pbuf h b"
  "b \<noteq> a \<Longrightarrow> the_pbuf (free_pbuf h a) b = the_pbuf h b"
  by (simp_all add: the_pbuf_def)

section \<open>Lemmas on payloads\<close>

lemma owned_readable: "owned h a \<Longrightarrow> readable h a"
  by (auto simp: owned_def readable_def)

lemma pdata_readable:
  "hp_pbufs h a = Some pb \<Longrightarrow> pb_payload pb = Some (b, off) \<Longrightarrow> hp_blocks h b = Some bs
    \<Longrightarrow> off + unat (pb_len pb) \<le> length bs \<Longrightarrow> pdata h a = seg off (unat (pb_len pb)) bs"
  by (auto simp: pdata_def mem_read_def)

lemma length_pdata: "readable h a \<Longrightarrow> length (pdata h a) = unat (pb_len (the_pbuf h a))"
  by (auto simp: readable_def pdata_def mem_read_def)

lemma mem_read_pdata:
  assumes "readable h a" "off + n \<le> unat (pb_len (the_pbuf h a))"
  shows "mem_read h (pb_payload (the_pbuf h a)) off n = Some (seg off n (pdata h a))"
proof (cases "n = 0")
  case True
  then show ?thesis by (simp add: mem_read_def)
next
  case False
  then obtain pb b base bs where pb: "hp_pbufs h a = Some pb" "pb_payload pb = Some (b, base)"
      "hp_blocks h b = Some bs" "base + unat (pb_len pb) \<le> length bs"
    using assms by (auto simp: readable_def)
  show ?thesis
    using False assms(2) pb
    by (simp add: mem_read_def pdata_readable) (simp add: seg_def take_drop add_ac min_def)
qed

lemma pbytes_simps [simp]:
  "pbytes h [] = []" "pbytes h (a # as) = pdata h a @ pbytes h as"
  "pbytes h (as @ bs) = pbytes h as @ pbytes h bs"
  by (simp_all add: pbytes_def)

lemma pbytes_cong: "(\<And>a. a \<in> set as \<Longrightarrow> pdata h a = pdata h' a) \<Longrightarrow> pbytes h as = pbytes h' as"
  by (induction as) auto

lemma length_pbytes:
  "list_all (readable h) as \<Longrightarrow> length (pbytes h as) = sum_list (map (\<lambda>b. unat (pb_len (the_pbuf h b))) as)"
  by (induction as) (auto simp: length_pdata)

lemma tot_ok_length:
  assumes "tot_ok h (a # as)" "list_all (readable h) (a # as)"
  shows "unat (pb_tot_len (the_pbuf h a)) = length (pbytes h (a # as))"
  using assms by (simp add: length_pbytes length_pdata)

lemma tot_ok_cong:
  "tot_ok h as \<Longrightarrow> (\<And>a. a \<in> set as \<Longrightarrow> pb_len (the_pbuf h' a) = pb_len (the_pbuf h a)
      \<and> pb_tot_len (the_pbuf h' a) = pb_tot_len (the_pbuf h a)) \<Longrightarrow> tot_ok h' as"
proof (induction as)
  case Nil
  then show ?case by simp
next
  case (Cons a as)
  have s: "(\<Sum>b\<leftarrow>as. unat (pb_len (the_pbuf h' b))) = (\<Sum>b\<leftarrow>as. unat (pb_len (the_pbuf h b)))"
    using Cons.prems(2) by (intro arg_cong [where f = sum_list] map_cong) auto
  then show ?case using Cons by (simp add: s)
qed

lemma packet_chain: "packet h p as \<Longrightarrow> chain h p as"
  by (simp add: packet_def)

lemma packet_readable: "packet h p as \<Longrightarrow> list_all (readable h) as"
  by (auto simp: packet_def list_all_iff intro: owned_readable)

lemma packet_Some:
  assumes "packet h p as"
  obtains a bs pb where "p = Some a" "as = a # bs" "hp_pbufs h a = Some pb" "chain h (pb_next pb) bs"
    "unat (pb_tot_len pb) = length (pbytes h as)"
proof -
  obtain a bs where as: "as = a # bs" using assms by (cases as) (auto simp: packet_def)
  then obtain pb where pb: "p = Some a" "hp_pbufs h a = Some pb" "chain h (pb_next pb) bs"
    using assms by (auto simp: packet_def)
  moreover have "unat (pb_tot_len pb) = length (pbytes h as)"
    using tot_ok_length [of h a bs] packet_readable [OF assms] assms pb(2) as by (simp add: packet_def)
  ultimately show thesis using that as by blast
qed

text \<open>Frame: a heap that agrees on the pbufs and blocks of a packet has the same packet.\<close>

definition same_on :: "addr set \<Rightarrow> heap \<Rightarrow> heap \<Rightarrow> bool" where
  "same_on A h h' \<longleftrightarrow> (\<forall>a \<in> A. hp_pbufs h' a = hp_pbufs h a \<and> hp_blocks h' a = hp_blocks h a)"

lemma same_on_refl [simp]: "same_on A h h"
  by (simp add: same_on_def)

lemma same_on_trans: "same_on A h h' \<Longrightarrow> same_on A h' h'' \<Longrightarrow> same_on A h h''"
  by (simp add: same_on_def)

lemma same_on_subset: "same_on A h h' \<Longrightarrow> B \<subseteq> A \<Longrightarrow> same_on B h h'"
  by (auto simp: same_on_def)

lemma same_on_put_pbuf [simp]: "a \<notin> A \<Longrightarrow> same_on A h (put_pbuf h a pb)"
  by (auto simp: same_on_def)

lemma same_on_put_block [simp]: "a \<notin> A \<Longrightarrow> same_on A h (put_block h a bs)"
  by (auto simp: same_on_def)

lemma same_on_free [simp]: "a \<notin> A \<Longrightarrow> same_on A h (free_pbuf h a)"
  by (auto simp: same_on_def)

lemma owned_same: "same_on A h h' \<Longrightarrow> a \<in> A \<Longrightarrow> owned h a \<Longrightarrow> owned h' a"
  by (auto simp: owned_def same_on_def)

lemma pdata_same: "same_on A h h' \<Longrightarrow> a \<in> A \<Longrightarrow> owned h a \<Longrightarrow> pdata h' a = pdata h a"
  by (auto simp: owned_def same_on_def pdata_def the_pbuf_def mem_read_def)

lemma packet_same:
  assumes "packet h p as" "same_on A h h'" "set as \<subseteq> A"
  shows "packet h' p as" "pbytes h' as = pbytes h as"
proof -
  have "chain h' p as"
    using assms by (intro chain_cong [of h p as h']) (auto simp: packet_def same_on_def subset_iff)
  moreover have "list_all (owned h') as"
    using assms by (auto simp: packet_def list_all_iff intro: owned_same)
  moreover have "tot_ok h' as"
    using assms by (intro tot_ok_cong [of h as h']) (auto simp: packet_def same_on_def the_pbuf_def subset_iff)
  ultimately show "packet h' p as" using assms(1) by (simp add: packet_def)
  show "pbytes h' as = pbytes h as"
    using assms by (intro pbytes_cong) (auto simp: packet_def list_all_iff intro: pdata_same)
qed

end
