(* ===== verification/Pbuf.thy ===== *)
theory Pbuf
  imports Pbuf_Heap
begin

unbundle bit_operations_syntax

text \<open>
  The operations of \<open>lwip/core/pbuf.c\<close>, in the order of the source, over the heap of
  \<open>Pbuf_Heap\<close>.  A loop that follows \<open>next\<close> pointers is a \<open>partial_function (option)\<close>: on a
  cyclic chain it does not return.  A failed assertion and an invalid access give \<^const>\<open>None\<close>.
  Buffers of the application (\<open>dataptr\<close>) are byte lists: an operation that copies out returns
  the bytes.  \<open>LWIP_SUPPORT_CUSTOM_PBUF\<close> and \<open>LWIP_CHECKSUM_ON_COPY\<close> are 0 in this build, so
  \<open>pbuf_alloced_custom\<close> and \<open>pbuf_fill_chksum\<close> are not compiled.
\<close>

section \<open>Allocation\<close>

definition pbuf_pool_is_empty :: "heap \<Rightarrow> heap option" where
  "pbuf_pool_is_empty h =
     (let queued = hp_ooseq_pending h; h = h\<lparr>hp_ooseq_pending := True\<rparr> in
      if \<not> queued then do {
        (e, h) \<leftarrow> tcpip_try_callback fn_pbuf_free_ooseq_callback None h;
        Some (if e \<noteq> ERR_OK then h\<lparr>hp_ooseq_pending := False\<rparr> else h)
      } else Some h)"

definition NETIF_NO_INDEX :: u8 where "NETIF_NO_INDEX = 0"

definition pbuf_init_alloced_pbuf :: "ptr option \<Rightarrow> u16 \<Rightarrow> u16 \<Rightarrow> pbuf_type \<Rightarrow> u8 \<Rightarrow> pbuf" where
  "pbuf_init_alloced_pbuf payload tot_len len type flags =
     \<lparr>pb_next = None, pb_payload = payload, pb_tot_len = tot_len, pb_len = len,
      pb_type_internal = ucast (pbuf_type_val type), pb_flags = flags, pb_ref = 1,
      pb_if_idx = NETIF_NO_INDEX\<rparr>"

definition pbuf_alloc_reference :: "ptr option \<Rightarrow> u16 \<Rightarrow> pbuf_type \<Rightarrow> heap \<Rightarrow> (addr option \<times> heap) option" where
  "pbuf_alloc_reference payload plen type h = do {
     lwip_assert (type = PBUF_REF \<or> type = PBUF_ROM);
     case mem_malloc h of
       (None, h) \<Rightarrow> Some (None, h)
     | (Some p, h) \<Rightarrow> Some (Some p, put_pbuf h p (pbuf_init_alloced_pbuf payload plen plen type 0))
   }"

text \<open>The decrement of a reference count and the release of a pbuf, and the loop of \<open>pbuf_free\<close>.\<close>

partial_function (option) pbuf_free_loop :: "addr option \<Rightarrow> u8 \<Rightarrow> heap \<Rightarrow> (u8 \<times> heap) option" where
  "pbuf_free_loop p count h = (case p of
      None \<Rightarrow> Some (count, h)
    | Some a \<Rightarrow> do {
        pb \<leftarrow> hp_pbufs h a;
        lwip_assert (0 < pb_ref pb);
        let ref = pb_ref pb - 1;
        let h = put_pbuf h a (pb\<lparr>pb_ref := ref\<rparr>);
        if ref = 0 then
          (let alloc_src = pbuf_get_allocsrc pb in
           if alloc_src = PBUF_TYPE_ALLOC_SRC_MASK_STD_MEMP_PBUF_POOL
            \<or> alloc_src = PBUF_TYPE_ALLOC_SRC_MASK_STD_MEMP_PBUF
            \<or> alloc_src = PBUF_TYPE_ALLOC_SRC_MASK_STD_HEAP
           then pbuf_free_loop (pb_next pb) (count + 1) (free_pbuf h a)
           else None)
        else Some (count, h)
      })"

definition pbuf_free :: "addr option \<Rightarrow> heap \<Rightarrow> (u8 \<times> heap) option" where
  "pbuf_free p h = do { lwip_assert (p \<noteq> None); pbuf_free_loop p 0 h }"

text \<open>The \<open>PBUF_POOL\<close> branch of \<open>pbuf_alloc\<close>: the \<open>do ... while (rem_len > 0)\<close> loop.\<close>

partial_function (option) pbuf_alloc_pool :: "addr option \<Rightarrow> addr option \<Rightarrow> u16 \<Rightarrow> u16 \<Rightarrow> heap
    \<Rightarrow> (addr option \<times> heap) option" where
  "pbuf_alloc_pool p prev rem_len offset h = (case mem_malloc h of
      (None, h) \<Rightarrow> do {
        h \<leftarrow> pbuf_pool_is_empty h;
        h \<leftarrow> (if p \<noteq> None then map_option snd (pbuf_free p h) else Some h);
        Some (None, h)
      }
    | (Some q, h) \<Rightarrow>
        (let h = put_block h q (fresh_block h q (LWIP_MEM_ALIGN_SIZE PBUF_POOL_BUFSIZE));
             qlen = min rem_len (of_nat (LWIP_MEM_ALIGN_SIZE PBUF_POOL_BUFSIZE - LWIP_MEM_ALIGN_SIZE (unat offset)));
             h = put_pbuf h q (pbuf_init_alloced_pbuf (Some (q, LWIP_MEM_ALIGN_SIZE (unat offset)))
                   rem_len qlen PBUF_POOL 0)
         in do {
           lwip_assert (LWIP_MEM_ALIGN_SIZE PBUF_POOL_BUFSIZE - LWIP_MEM_ALIGN_SIZE (unat offset) > 0);
           h \<leftarrow> (case prev of
                 None \<Rightarrow> Some h
               | Some l \<Rightarrow> do { pb \<leftarrow> hp_pbufs h l; Some (put_pbuf h l (pb\<lparr>pb_next := Some q\<rparr>)) });
           let p = (if p = None then Some q else p);
           let rem_len = rem_len - qlen;
           if rem_len > 0 then pbuf_alloc_pool p (Some q) rem_len 0 h else Some (p, h)
         }))"

definition SIZEOF_STRUCT_PBUF :: nat where "SIZEOF_STRUCT_PBUF = 24"

definition pbuf_alloc :: "pbuf_layer \<Rightarrow> u16 \<Rightarrow> pbuf_type \<Rightarrow> heap \<Rightarrow> (addr option \<times> heap) option" where
  "pbuf_alloc layer plen type h =
     (let offset = pbuf_layer_hlen layer in
      case type of
        PBUF_REF \<Rightarrow> pbuf_alloc_reference None plen type h
      | PBUF_ROM \<Rightarrow> pbuf_alloc_reference None plen type h
      | PBUF_POOL \<Rightarrow> pbuf_alloc_pool None None plen offset h
      | PBUF_RAM \<Rightarrow>
          (let payload_len = (of_nat (LWIP_MEM_ALIGN_SIZE (unat offset) + LWIP_MEM_ALIGN_SIZE (unat plen)) :: u16);
               alloc_len = LWIP_MEM_ALIGN_SIZE SIZEOF_STRUCT_PBUF + unat payload_len in
           if unat payload_len < LWIP_MEM_ALIGN_SIZE (unat plen)
            \<or> alloc_len < LWIP_MEM_ALIGN_SIZE (unat plen) then Some (None, h)
           else case mem_malloc h of
             (None, h) \<Rightarrow> Some (None, h)
           | (Some p, h) \<Rightarrow>
               Some (Some p, put_pbuf (put_block h p (fresh_block h p (unat payload_len))) p
                 (pbuf_init_alloced_pbuf (Some (p, LWIP_MEM_ALIGN_SIZE (unat offset))) plen plen type 0))))"

section \<open>Shrinking and headers\<close>

text \<open>\<open>mem_trim\<close> returns its argument with the allocator of this build.\<close>

definition mem_trim :: "addr \<Rightarrow> nat \<Rightarrow> addr" where
  "mem_trim m sz = m"

partial_function (option) pbuf_realloc_walk :: "addr option \<Rightarrow> u16 \<Rightarrow> u16 \<Rightarrow> heap \<Rightarrow> (addr \<times> u16 \<times> heap) option" where
  "pbuf_realloc_walk q rem_len shrink h = do {
     a \<leftarrow> q;
     pb \<leftarrow> hp_pbufs h a;
     if rem_len > pb_len pb then
       pbuf_realloc_walk (pb_next pb) (rem_len - pb_len pb) shrink
         (put_pbuf h a (pb\<lparr>pb_tot_len := pb_tot_len pb - shrink\<rparr>))
     else Some (a, rem_len, h)
   }"

definition pbuf_realloc :: "addr option \<Rightarrow> u16 \<Rightarrow> heap \<Rightarrow> heap option" where
  "pbuf_realloc p new_len h = do {
     a \<leftarrow> p;
     pb \<leftarrow> hp_pbufs h a;
     if new_len \<ge> pb_tot_len pb then Some h else do {
       let shrink = pb_tot_len pb - new_len;
       (q, rem_len, h) \<leftarrow> pbuf_realloc_walk p new_len shrink h;
       qb \<leftarrow> hp_pbufs h q;
       let q = (if pbuf_match_allocsrc qb PBUF_TYPE_ALLOC_SRC_MASK_STD_HEAP \<and> rem_len \<noteq> pb_len qb
                then mem_trim q (unat rem_len) else q);
       let h = put_pbuf h q (qb\<lparr>pb_len := rem_len, pb_tot_len := rem_len\<rparr>);
       h \<leftarrow> (if pb_next qb \<noteq> None then map_option snd (pbuf_free (pb_next qb) h) else Some h);
       qb \<leftarrow> hp_pbufs h q;
       Some (put_pbuf h q (qb\<lparr>pb_next := None\<rparr>))
     }
   }"

definition pbuf_add_header_impl :: "addr option \<Rightarrow> nat \<Rightarrow> bool \<Rightarrow> heap \<Rightarrow> (u8 \<times> heap) option" where
  "pbuf_add_header_impl p header_size_increment force h = do {
     a \<leftarrow> p;
     if header_size_increment > 0xFFFF then Some (1, h)
     else if header_size_increment = 0 then Some (0, h)
     else do {
       pb \<leftarrow> hp_pbufs h a;
       let increment_magnitude = (of_nat header_size_increment :: u16);
       if increment_magnitude + pb_tot_len pb < increment_magnitude then Some (1, h)
       else if (ucast (pb_type_internal pb) AND PBUF_TYPE_FLAG_STRUCT_DATA_CONTIGUOUS) \<noteq> 0 then do {
         (b, off) \<leftarrow> pb_payload pb;
         lwip_assert (b = a);
         if off < header_size_increment then Some (1, h)
         else Some (0, put_pbuf h a (pb\<lparr>pb_payload := Some (b, off - header_size_increment),
                  pb_len := pb_len pb + increment_magnitude,
                  pb_tot_len := pb_tot_len pb + increment_magnitude\<rparr>))
       }
       else if force then do {
         (b, off) \<leftarrow> pb_payload pb;
         lwip_assert (header_size_increment \<le> off);
         Some (0, put_pbuf h a (pb\<lparr>pb_payload := Some (b, off - header_size_increment),
                  pb_len := pb_len pb + increment_magnitude,
                  pb_tot_len := pb_tot_len pb + increment_magnitude\<rparr>))
       }
       else Some (1, h)
     }
   }"

definition pbuf_add_header :: "addr option \<Rightarrow> nat \<Rightarrow> heap \<Rightarrow> (u8 \<times> heap) option" where
  "pbuf_add_header p n h = pbuf_add_header_impl p n False h"

definition pbuf_add_header_force :: "addr option \<Rightarrow> nat \<Rightarrow> heap \<Rightarrow> (u8 \<times> heap) option" where
  "pbuf_add_header_force p n h = pbuf_add_header_impl p n True h"

definition pbuf_remove_header :: "addr option \<Rightarrow> nat \<Rightarrow> heap \<Rightarrow> (u8 \<times> heap) option" where
  "pbuf_remove_header p header_size_decrement h = do {
     a \<leftarrow> p;
     if header_size_decrement > 0xFFFF then Some (1, h)
     else if header_size_decrement = 0 then Some (0, h)
     else do {
       pb \<leftarrow> hp_pbufs h a;
       let increment_magnitude = (of_nat header_size_decrement :: u16);
       lwip_assert (increment_magnitude \<le> pb_len pb);
       (b, off) \<leftarrow> pb_payload pb;
       Some (0, put_pbuf h a (pb\<lparr>pb_payload := Some (b, off + header_size_decrement),
                pb_len := pb_len pb - increment_magnitude,
                pb_tot_len := pb_tot_len pb - increment_magnitude\<rparr>))
     }
   }"

definition pbuf_header_impl :: "addr option \<Rightarrow> int \<Rightarrow> bool \<Rightarrow> heap \<Rightarrow> (u8 \<times> heap) option" where
  "pbuf_header_impl p header_size_increment force h =
     (if header_size_increment < 0 then pbuf_remove_header p (nat (- header_size_increment)) h
      else pbuf_add_header_impl p (nat header_size_increment) force h)"

definition pbuf_header :: "addr option \<Rightarrow> int \<Rightarrow> heap \<Rightarrow> (u8 \<times> heap) option" where
  "pbuf_header p n h = pbuf_header_impl p n False h"

definition pbuf_header_force :: "addr option \<Rightarrow> int \<Rightarrow> heap \<Rightarrow> (u8 \<times> heap) option" where
  "pbuf_header_force p n h = pbuf_header_impl p n True h"

partial_function (option) pbuf_free_header :: "addr option \<Rightarrow> u16 \<Rightarrow> heap \<Rightarrow> (addr option \<times> heap) option" where
  "pbuf_free_header p free_left h =
     (if free_left \<noteq> 0 \<and> p \<noteq> None then do {
        a \<leftarrow> p;
        pb \<leftarrow> hp_pbufs h a;
        if free_left \<ge> pb_len pb then do {
          (_, h') \<leftarrow> pbuf_free p (put_pbuf h a (pb\<lparr>pb_next := None\<rparr>));
          pbuf_free_header (pb_next pb) (free_left - pb_len pb) h'
        } else do {
          (_, h') \<leftarrow> pbuf_remove_header p (unat free_left) h;
          pbuf_free_header p 0 h'
        }
      } else Some (p, h))"

section \<open>Chaining\<close>

partial_function (option) pbuf_clen_loop :: "addr option \<Rightarrow> u16 \<Rightarrow> heap \<Rightarrow> u16 option" where
  "pbuf_clen_loop p len h = (case p of
      None \<Rightarrow> Some len
    | Some a \<Rightarrow> do { pb \<leftarrow> hp_pbufs h a; pbuf_clen_loop (pb_next pb) (len + 1) h })"

definition pbuf_clen :: "addr option \<Rightarrow> heap \<Rightarrow> u16 option" where
  "pbuf_clen p h = pbuf_clen_loop p 0 h"

definition pbuf_ref :: "addr option \<Rightarrow> heap \<Rightarrow> heap option" where
  "pbuf_ref p h = (case p of
      None \<Rightarrow> Some h
    | Some a \<Rightarrow> do {
        pb \<leftarrow> hp_pbufs h a;
        lwip_assert (0 < pb_ref pb + 1);
        Some (put_pbuf h a (pb\<lparr>pb_ref := pb_ref pb + 1\<rparr>))
      })"

partial_function (option) pbuf_cat_loop :: "addr \<Rightarrow> addr \<Rightarrow> heap \<Rightarrow> heap option" where
  "pbuf_cat_loop a t h = do {
     pb \<leftarrow> hp_pbufs h a;
     tb \<leftarrow> hp_pbufs h t;
     case pb_next pb of
       Some n \<Rightarrow> pbuf_cat_loop n t (put_pbuf h a (pb\<lparr>pb_tot_len := pb_tot_len pb + pb_tot_len tb\<rparr>))
     | None \<Rightarrow> do {
         lwip_assert (pb_tot_len pb = pb_len pb);
         Some (put_pbuf h a (pb\<lparr>pb_tot_len := pb_tot_len pb + pb_tot_len tb, pb_next := Some t\<rparr>))
       }
   }"

definition pbuf_cat :: "addr option \<Rightarrow> addr option \<Rightarrow> heap \<Rightarrow> heap option" where
  "pbuf_cat hp t h = do { a \<leftarrow> hp; b \<leftarrow> t; pbuf_cat_loop a b h }"

definition pbuf_chain :: "addr option \<Rightarrow> addr option \<Rightarrow> heap \<Rightarrow> heap option" where
  "pbuf_chain hp t h = do { h \<leftarrow> pbuf_cat hp t h; pbuf_ref t h }"

definition pbuf_dechain :: "addr option \<Rightarrow> heap \<Rightarrow> (addr option \<times> heap) option" where
  "pbuf_dechain p h = do {
     a \<leftarrow> p;
     pb \<leftarrow> hp_pbufs h a;
     let q = pb_next pb;
     (tail_gone, h) \<leftarrow> (case q of
         None \<Rightarrow> Some (1, h)
       | Some b \<Rightarrow> do {
           qb \<leftarrow> hp_pbufs h b;
           lwip_assert (int (unat (pb_tot_len qb)) = int (unat (pb_tot_len pb)) - int (unat (pb_len pb)));
           let h = put_pbuf h b (qb\<lparr>pb_tot_len := pb_tot_len pb - pb_len pb\<rparr>);
           pb \<leftarrow> hp_pbufs h a;
           let h = put_pbuf h a (pb\<lparr>pb_next := None, pb_tot_len := pb_len pb\<rparr>);
           pbuf_free q h
         });
     pb \<leftarrow> hp_pbufs h a;
     lwip_assert (pb_tot_len pb = pb_len pb);
     Some (if 0 < tail_gone then None else q, h)
   }"

section \<open>Copying\<close>

partial_function (option) pbuf_copy_loop :: "addr option \<Rightarrow> nat \<Rightarrow> addr option \<Rightarrow> nat \<Rightarrow> heap
    \<Rightarrow> (err_t \<times> heap) option" where
  "pbuf_copy_loop p_to offset_to p_from offset_from h = do {
     t \<leftarrow> p_to;
     f \<leftarrow> p_from;
     tb \<leftarrow> hp_pbufs h t;
     fb \<leftarrow> hp_pbufs h f;
     let n = (if unat (pb_len tb) - offset_to \<ge> unat (pb_len fb) - offset_from
              then unat (pb_len fb) - offset_from else unat (pb_len tb) - offset_to);
     xs \<leftarrow> mem_read h (pb_payload fb) offset_from n;
     h \<leftarrow> mem_write h (pb_payload tb) offset_to xs;
     let offset_to = offset_to + n;
     let offset_from = offset_from + n;
     lwip_assert (offset_to \<le> unat (pb_len tb));
     lwip_assert (offset_from \<le> unat (pb_len fb));
     let (offset_from, p_from) =
       (if offset_from \<ge> unat (pb_len fb) then (0, pb_next fb) else (offset_from, p_from));
     (offset_to, p_to) \<leftarrow>
       (if offset_to = unat (pb_len tb)
        then do { lwip_assert (pb_next tb \<noteq> None \<or> p_from = None); Some (0, pb_next tb) }
        else Some (offset_to, p_to));
     (case p_from of None \<Rightarrow> Some ()
       | Some f \<Rightarrow> do { fb \<leftarrow> hp_pbufs h f;
           lwip_assert (pb_len fb = pb_tot_len fb \<longrightarrow> pb_next fb = None) });
     (case p_to of None \<Rightarrow> Some ()
       | Some t \<Rightarrow> do { tb \<leftarrow> hp_pbufs h t;
           lwip_assert (pb_len tb = pb_tot_len tb \<longrightarrow> pb_next tb = None) });
     if p_from \<noteq> None then pbuf_copy_loop p_to offset_to p_from offset_from h
     else Some (ERR_OK, h)
   }"

definition pbuf_copy :: "addr option \<Rightarrow> addr option \<Rightarrow> heap \<Rightarrow> (err_t \<times> heap) option" where
  "pbuf_copy p_to p_from h = do {
     t \<leftarrow> p_to;
     f \<leftarrow> p_from;
     tb \<leftarrow> hp_pbufs h t;
     fb \<leftarrow> hp_pbufs h f;
     lwip_assert (pb_tot_len tb \<ge> pb_tot_len fb);
     pbuf_copy_loop p_to 0 p_from 0 h
   }"

text \<open>The bytes copied so far are the accumulator; their number is \<open>copied_total\<close>.\<close>

partial_function (option) pbuf_copy_partial_loop :: "addr option \<Rightarrow> byte list \<Rightarrow> u16 \<Rightarrow> u16 \<Rightarrow> u16 \<Rightarrow> heap
    \<Rightarrow> (u16 \<times> byte list) option" where
  "pbuf_copy_partial_loop p dataptr copied_total len offset h =
     (if len \<noteq> 0 \<and> p \<noteq> None then do {
        a \<leftarrow> p;
        pb \<leftarrow> hp_pbufs h a;
        if offset \<noteq> 0 \<and> offset \<ge> pb_len pb then
          pbuf_copy_partial_loop (pb_next pb) dataptr copied_total len (offset - pb_len pb) h
        else do {
          let buf_copy_len = pb_len pb - offset;
          let buf_copy_len = (if buf_copy_len > len then len else buf_copy_len);
          xs \<leftarrow> mem_read h (pb_payload pb) (unat offset) (unat buf_copy_len);
          pbuf_copy_partial_loop (pb_next pb) (dataptr @ xs) (copied_total + buf_copy_len)
            (len - buf_copy_len) 0 h
        }
      } else Some (copied_total, dataptr))"

definition pbuf_copy_partial :: "addr option \<Rightarrow> u16 \<Rightarrow> u16 \<Rightarrow> heap \<Rightarrow> (u16 \<times> byte list) option" where
  "pbuf_copy_partial buf len offset h = do {
     lwip_assert (buf \<noteq> None);
     pbuf_copy_partial_loop buf [] 0 len offset h
   }"

partial_function (option) pbuf_skip_const :: "addr option \<Rightarrow> u16 \<Rightarrow> heap \<Rightarrow> (addr option \<times> u16) option" where
  "pbuf_skip_const q offset_left h = (case q of
      None \<Rightarrow> Some (None, offset_left)
    | Some a \<Rightarrow> do {
        pb \<leftarrow> hp_pbufs h a;
        if pb_len pb \<le> offset_left then pbuf_skip_const (pb_next pb) (offset_left - pb_len pb) h
        else Some (q, offset_left)
      })"

definition pbuf_skip :: "addr option \<Rightarrow> u16 \<Rightarrow> heap \<Rightarrow> (addr option \<times> u16) option" where
  "pbuf_skip p in_offset h = pbuf_skip_const p in_offset h"

text \<open>The result is \<open>NULL\<close>, a pointer into the pbuf, or the filled application buffer.\<close>

datatype contiguous = C_NULL | C_Zero_Copy ptr | C_Buffer "byte list"

definition pbuf_get_contiguous :: "addr option \<Rightarrow> nat \<Rightarrow> u16 \<Rightarrow> u16 \<Rightarrow> heap \<Rightarrow> contiguous option" where
  "pbuf_get_contiguous p bufsize len offset h = do {
     lwip_assert (p \<noteq> None);
     lwip_assert (bufsize \<ge> unat len);
     (q, out_offset) \<leftarrow> pbuf_skip_const p offset h;
     case q of None \<Rightarrow> Some C_NULL
     | Some a \<Rightarrow> do {
         pb \<leftarrow> hp_pbufs h a;
         if unat (pb_len pb) \<ge> unat out_offset + unat len
         then do { (b, base) \<leftarrow> pb_payload pb; Some (C_Zero_Copy (b, base + unat out_offset)) }
         else do {
           (copied, xs) \<leftarrow> pbuf_copy_partial q len out_offset h;
           Some (if copied \<noteq> len then C_NULL else C_Buffer xs)
         }
       }
   }"

partial_function (option) pbuf_split_find :: "addr \<Rightarrow> addr option \<Rightarrow> u16 \<Rightarrow> heap \<Rightarrow> (addr \<times> addr option) option" where
  "pbuf_split_find i r tot_len_front h = (case r of
      None \<Rightarrow> Some (i, None)
    | Some ra \<Rightarrow> do {
        rb \<leftarrow> hp_pbufs h ra;
        if tot_len_front + pb_len rb \<ge> tot_len_front
        then pbuf_split_find ra (pb_next rb) (tot_len_front + pb_len rb) h
        else Some (i, r)
      })"

partial_function (option) pbuf_split_fix :: "addr option \<Rightarrow> u16 \<Rightarrow> heap \<Rightarrow> heap option" where
  "pbuf_split_fix i r_tot_len h = (case i of
      None \<Rightarrow> Some h
    | Some a \<Rightarrow> do {
        pb \<leftarrow> hp_pbufs h a;
        let pb = pb\<lparr>pb_tot_len := pb_tot_len pb - r_tot_len\<rparr>;
        lwip_assert (pb_next pb \<noteq> None \<or> pb_tot_len pb = pb_len pb);
        pbuf_split_fix (pb_next pb) r_tot_len (put_pbuf h a pb)
      })"

text \<open>The first component of the result is \<open>*rest\<close>.\<close>

definition pbuf_split_64k :: "addr option \<Rightarrow> heap \<Rightarrow> (addr option \<times> heap) option" where
  "pbuf_split_64k p h = (case p of
      None \<Rightarrow> Some (None, h)
    | Some a \<Rightarrow> do {
        pb \<leftarrow> hp_pbufs h a;
        if pb_next pb = None then Some (None, h) else do {
          (i, r) \<leftarrow> pbuf_split_find a (pb_next pb) (pb_len pb) h;
          ib \<leftarrow> hp_pbufs h i;
          let h = put_pbuf h i (ib\<lparr>pb_next := None\<rparr>);
          case r of None \<Rightarrow> Some (None, h)
          | Some ra \<Rightarrow> do {
              rb \<leftarrow> hp_pbufs h ra;
              h \<leftarrow> pbuf_split_fix p (pb_tot_len rb) h;
              pb \<leftarrow> hp_pbufs h a;
              rb \<leftarrow> hp_pbufs h ra;
              let h = (if (pb_flags pb AND PBUF_FLAG_TCP_FIN) \<noteq> 0
                       then put_pbuf h ra (rb\<lparr>pb_flags := pb_flags rb OR PBUF_FLAG_TCP_FIN\<rparr>) else h);
              Some (r, h)
            }
        }
      })"

text \<open>\<open>dataptr\<close> is what is left to copy of the application's buffer.\<close>

partial_function (option) pbuf_take_loop :: "addr option \<Rightarrow> byte list \<Rightarrow> nat \<Rightarrow> heap \<Rightarrow> heap option" where
  "pbuf_take_loop p dataptr total_copy_len h =
     (if total_copy_len \<noteq> 0 then do {
        a \<leftarrow> p;
        pb \<leftarrow> hp_pbufs h a;
        let buf_copy_len = (if total_copy_len > unat (pb_len pb) then unat (pb_len pb) else total_copy_len);
        lwip_assert (buf_copy_len \<le> length dataptr);
        h \<leftarrow> mem_write h (pb_payload pb) 0 (take buf_copy_len dataptr);
        pbuf_take_loop (pb_next pb) (drop buf_copy_len dataptr) (total_copy_len - buf_copy_len) h
      } else Some h)"

definition pbuf_take :: "addr option \<Rightarrow> byte list \<Rightarrow> u16 \<Rightarrow> heap \<Rightarrow> (err_t \<times> heap) option" where
  "pbuf_take buf dataptr len h = do {
     a \<leftarrow> buf;
     pb \<leftarrow> hp_pbufs h a;
     lwip_assert (pb_tot_len pb \<ge> len);
     h \<leftarrow> pbuf_take_loop buf dataptr (unat len) h;
     Some (ERR_OK, h)
   }"

definition pbuf_take_at :: "addr option \<Rightarrow> byte list \<Rightarrow> u16 \<Rightarrow> u16 \<Rightarrow> heap \<Rightarrow> (err_t \<times> heap) option" where
  "pbuf_take_at buf dataptr len offset h = do {
     (q, target_offset) \<leftarrow> pbuf_skip buf offset h;
     case q of None \<Rightarrow> Some (ERR_MEM, h)
     | Some a \<Rightarrow> do {
         qb \<leftarrow> hp_pbufs h a;
         if unat (pb_tot_len qb) \<ge> unat target_offset + unat len then do {
           lwip_assert (target_offset < pb_len qb);
           let first_copy_len = (of_nat (min (unat (pb_len qb) - unat target_offset) (unat len)) :: u16);
           lwip_assert (unat first_copy_len \<le> length dataptr);
           h \<leftarrow> mem_write h (pb_payload qb) (unat target_offset) (take (unat first_copy_len) dataptr);
           let remaining_len = len - first_copy_len;
           if remaining_len > 0 then pbuf_take (pb_next qb) (drop (unat first_copy_len) dataptr) remaining_len h
           else Some (ERR_OK, h)
         } else Some (ERR_MEM, h)
       }
   }"

definition pbuf_clone :: "pbuf_layer \<Rightarrow> pbuf_type \<Rightarrow> addr option \<Rightarrow> heap \<Rightarrow> (addr option \<times> heap) option" where
  "pbuf_clone layer type p h = do {
     a \<leftarrow> p;
     pb \<leftarrow> hp_pbufs h a;
     (q, h) \<leftarrow> pbuf_alloc layer (pb_tot_len pb) type h;
     if q = None then Some (None, h) else do {
       (e, h) \<leftarrow> pbuf_copy q p h;
       lwip_assert (e = ERR_OK);
       Some (q, h)
     }
   }"

definition pbuf_coalesce :: "addr option \<Rightarrow> pbuf_layer \<Rightarrow> heap \<Rightarrow> (addr option \<times> heap) option" where
  "pbuf_coalesce p layer h = do {
     a \<leftarrow> p;
     pb \<leftarrow> hp_pbufs h a;
     if pb_next pb = None then Some (p, h) else do {
       (q, h) \<leftarrow> pbuf_clone layer PBUF_RAM p h;
       if q = None then Some (p, h) else do {
         (_, h) \<leftarrow> pbuf_free p h;
         Some (q, h)
       }
     }
   }"

section \<open>Byte access and searching\<close>

definition pbuf_try_get_at :: "addr option \<Rightarrow> u16 \<Rightarrow> heap \<Rightarrow> int option" where
  "pbuf_try_get_at p offset h = do {
     (q, q_idx) \<leftarrow> pbuf_skip_const p offset h;
     case q of None \<Rightarrow> Some (-1)
     | Some a \<Rightarrow> do {
         pb \<leftarrow> hp_pbufs h a;
         if pb_len pb > q_idx then do {
           xs \<leftarrow> mem_read h (pb_payload pb) (unat q_idx) 1;
           Some (uint (hd xs))
         } else Some (-1)
       }
   }"

definition pbuf_get_at :: "addr option \<Rightarrow> u16 \<Rightarrow> heap \<Rightarrow> u8 option" where
  "pbuf_get_at p offset h = do {
     ret \<leftarrow> pbuf_try_get_at p offset h;
     Some (if ret \<ge> 0 then of_int ret else 0)
   }"

definition pbuf_put_at :: "addr option \<Rightarrow> u16 \<Rightarrow> u8 \<Rightarrow> heap \<Rightarrow> heap option" where
  "pbuf_put_at p offset data h = do {
     (q, q_idx) \<leftarrow> pbuf_skip p offset h;
     case q of None \<Rightarrow> Some h
     | Some a \<Rightarrow> do {
         pb \<leftarrow> hp_pbufs h a;
         if pb_len pb > q_idx then mem_write h (pb_payload pb) (unat q_idx) [data] else Some h
       }
   }"

text \<open>The comparison loop of \<open>pbuf_memcmp\<close> from index \<open>i\<close> on; \<open>s2\<close> is what is left of the buffer.\<close>

fun pbuf_memcmp_loop :: "addr option \<Rightarrow> u16 \<Rightarrow> nat \<Rightarrow> byte list \<Rightarrow> heap \<Rightarrow> u16 option" where
  "pbuf_memcmp_loop q start i [] h = Some 0"
| "pbuf_memcmp_loop q start i (b # s2) h = do {
     a \<leftarrow> pbuf_get_at q (start + of_nat i) h;
     if a \<noteq> b then Some (of_nat (min (i + 1) 0xFFFF)) else pbuf_memcmp_loop q start (Suc i) s2 h
   }"

definition pbuf_memcmp :: "addr option \<Rightarrow> u16 \<Rightarrow> byte list \<Rightarrow> u16 \<Rightarrow> heap \<Rightarrow> u16 option" where
  "pbuf_memcmp p offset s2 n h = do {
     a \<leftarrow> p;
     pb \<leftarrow> hp_pbufs h a;
     if unat (pb_tot_len pb) < unat offset + unat n then Some 0xFFFF else do {
       (q, start) \<leftarrow> pbuf_skip_const p offset h;
       lwip_assert (unat n \<le> length s2);
       pbuf_memcmp_loop q start 0 (take (unat n) s2) h
     }
   }"

partial_function (option) pbuf_memfind_loop :: "addr option \<Rightarrow> byte list \<Rightarrow> u16 \<Rightarrow> u16 \<Rightarrow> u16 \<Rightarrow> heap \<Rightarrow> u16 option" where
  "pbuf_memfind_loop p mem mem_len i max_cmp_start h =
     (if i \<le> max_cmp_start then do {
        plus \<leftarrow> pbuf_memcmp p i mem mem_len h;
        if plus = 0 then Some i else pbuf_memfind_loop p mem mem_len (i + 1) max_cmp_start h
      } else Some 0xFFFF)"

definition pbuf_memfind :: "addr option \<Rightarrow> byte list \<Rightarrow> u16 \<Rightarrow> u16 \<Rightarrow> heap \<Rightarrow> u16 option" where
  "pbuf_memfind p mem mem_len start_offset h = do {
     a \<leftarrow> p;
     pb \<leftarrow> hp_pbufs h a;
     let max_cmp_start = pb_tot_len pb - mem_len;
     if unat (pb_tot_len pb) \<ge> unat mem_len + unat start_offset
     then pbuf_memfind_loop p mem mem_len start_offset max_cmp_start h
     else Some 0xFFFF
   }"

text \<open>\<open>substr\<close> is the C string without its terminator; \<^const>\<open>None\<close> is \<open>NULL\<close>.\<close>

definition pbuf_strstr :: "addr option \<Rightarrow> byte list option \<Rightarrow> heap \<Rightarrow> u16 option" where
  "pbuf_strstr p substr h = (case substr of
      None \<Rightarrow> Some 0xFFFF
    | Some s \<Rightarrow> if s = [] then Some 0xFFFF else do {
        a \<leftarrow> p;
        pb \<leftarrow> hp_pbufs h a;
        if pb_tot_len pb = 0xFFFF then Some 0xFFFF
        else if length s \<ge> 0xFFFF then Some 0xFFFF
        else pbuf_memfind p s (of_nat (length s)) 0 h
      })"

end
