(* ===== verification/Pbuf_Read.thy ===== *)
theory Pbuf_Read
  imports Pbuf
begin

text \<open>
  What the read-only operations of \<open>pbuf.c\<close> compute: each is the corresponding operation on
  the byte list \<^const>\<open>pbytes\<close> of the chain, and each returns on every well-formed chain.
\<close>

section \<open>Skipping\<close>

text \<open>The pbuf that holds byte \<open>n\<close> of a chain, and the offset of the byte in it.\<close>

fun locate :: "heap \<Rightarrow> addr list \<Rightarrow> nat \<Rightarrow> (addr option \<times> nat)" where
  "locate h [] n = (None, n)"
| "locate h (a # as) n = (if unat (pb_len (the_pbuf h a)) \<le> n
     then locate h as (n - unat (pb_len (the_pbuf h a))) else (Some a, n))"

lemma pbuf_skip_const_step [simp]:
  "pbuf_skip_const None off h = Some (None, off)"
  "hp_pbufs h a = Some pb \<Longrightarrow> pbuf_skip_const (Some a) off h =
     (if pb_len pb \<le> off then pbuf_skip_const (pb_next pb) (off - pb_len pb) h else Some (Some a, off))"
  by (subst pbuf_skip_const.simps, simp)+

lemma pbuf_skip_const_spec:
  assumes "chain h p as"
  shows "pbuf_skip_const p off h = Some (fst (locate h as (unat off)), of_nat (snd (locate h as (unat off))))"
  using assms
proof (induction as arbitrary: p off)
  case Nil
  then show ?case by simp
next
  case (Cons a as)
  then obtain pb where pb: "p = Some a" "hp_pbufs h a = Some pb" "chain h (pb_next pb) as" by auto
  show ?case
  proof (cases "pb_len pb \<le> off")
    case True
    then have "unat (off - pb_len pb) = unat off - unat (pb_len pb)"
      by (simp add: unat_u16_sub word_le_nat_alt)
    then show ?thesis
      using True Cons.IH [OF pb(3), of "off - pb_len pb"] pb
      by (simp add: word_le_nat_alt)
  next
    case False
    then show ?thesis using pb by (simp add: word_le_nat_alt)
  qed
qed

lemma locate_None:
  assumes "list_all (readable h) as"
  shows "fst (locate h as n) = None \<longleftrightarrow> length (pbytes h as) \<le> n"
  using assms
proof (induction as arbitrary: n)
  case Nil
  then show ?case by simp
next
  case (Cons a as)
  then have "length (pdata h a) = unat (pb_len (the_pbuf h a))" by (simp add: length_pdata)
  then show ?case using Cons.IH [of "n - unat (pb_len (the_pbuf h a))"] Cons.prems
    by (cases "unat (pb_len (the_pbuf h a)) \<le> n") (simp_all, linarith)
qed

lemma locate_Some:
  assumes "list_all (readable h) as" "locate h as n = (Some a, k)"
  shows "\<exists>pre post. as = pre @ a # post \<and> n = length (pbytes h pre) + k \<and> k < length (pdata h a)"
  using assms
proof (induction as arbitrary: n)
  case Nil
  then show ?case by simp
next
  case (Cons b as)
  show ?case
  proof (cases "unat (pb_len (the_pbuf h b)) \<le> n")
    case True
    then obtain pre post where "as = pre @ a # post" "n - unat (pb_len (the_pbuf h b)) = length (pbytes h pre) + k"
        "k < length (pdata h a)"
      using Cons by fastforce
    then show ?thesis
      using True Cons.prems(1) by (intro exI [of _ "b # pre"] exI [of _ post]) (simp add: length_pdata)
  next
    case False
    then have "b # as = [] @ a # as \<and> n = length (pbytes h []) + k \<and> k < length (pdata h a)"
      using Cons.prems by (simp add: length_pdata)
    then show ?thesis by blast
  qed
qed

lemma locate_byte:
  assumes "list_all (readable h) as" "locate h as n = (Some a, k)"
  shows "pbytes h as ! n = pdata h a ! k" "n < length (pbytes h as)"
  using locate_Some [OF assms] by (auto simp: nth_append)

lemma locate_readable:
  assumes "list_all (readable h) as" "locate h as n = (Some a, k)"
  shows "readable h a" "k < unat (pb_len (the_pbuf h a))" "a \<in> set as"
proof -
  obtain pre post where *: "as = pre @ a # post" "k < length (pdata h a)"
    using locate_Some [OF assms] by blast
  then show "readable h a" "a \<in> set as" using assms(1) by auto
  then show "k < unat (pb_len (the_pbuf h a))" using * by (simp add: length_pdata)
qed

section \<open>Reading one byte\<close>

lemma pbuf_try_get_at_spec:
  assumes "chain h p as" "list_all (readable h) as"
  shows "pbuf_try_get_at p off h =
    Some (if unat off < length (pbytes h as) then uint (pbytes h as ! unat off) else -1)"
proof -
  obtain q k where l: "locate h as (unat off) = (q, k)" by fastforce
  have sk: "pbuf_skip_const p off h = Some (q, of_nat k)"
    using pbuf_skip_const_spec [OF assms(1), of off] l by simp
  show ?thesis
  proof (cases q)
    case None
    then have "length (pbytes h as) \<le> unat off" using locate_None [OF assms(2), of "unat off"] l by simp
    then show ?thesis using None sk by (simp add: pbuf_try_get_at_def)
  next
    case (Some a)
    note la = l [unfolded Some]
    have r: "readable h a" and k: "k < unat (pb_len (the_pbuf h a))"
      using locate_readable [OF assms(2) la] by simp_all
    then obtain pb where pb: "hp_pbufs h a = Some pb" by (auto simp: readable_def)
    have k16: "k < 65536" using k unat_u16_less [of "pb_len (the_pbuf h a)"] by linarith
    have "mem_read h (pb_payload pb) k 1 = Some [pdata h a ! k]"
      using mem_read_pdata [OF r, of k 1] k pb length_pdata [OF r]
      by (simp add: seg_def take_Suc_conv_app_nth Cons_nth_drop_Suc [symmetric])
    then show ?thesis
      using Some sk pb k k16 locate_byte [OF assms(2) la]
      by (simp add: pbuf_try_get_at_def word_less_nat_alt unat_of_nat_u16)
  qed
qed

lemma pbuf_get_at_spec:
  assumes "chain h p as" "list_all (readable h) as"
  shows "pbuf_get_at p off h =
    Some (if unat off < length (pbytes h as) then pbytes h as ! unat off else 0)"
  using pbuf_try_get_at_spec [OF assms, of off] by (simp add: pbuf_get_at_def)

section \<open>Copying out\<close>

lemma pbuf_copy_partial_loop_stop [simp]:
  "pbuf_copy_partial_loop None acc ct len off h = Some (ct, acc)"
  "pbuf_copy_partial_loop p acc ct 0 off h = Some (ct, acc)"
  by (subst pbuf_copy_partial_loop.simps, simp)+

lemma pbuf_copy_partial_loop_step:
  assumes "hp_pbufs h a = Some pb" "len \<noteq> 0"
  shows "off \<noteq> 0 \<and> off \<ge> pb_len pb \<Longrightarrow> pbuf_copy_partial_loop (Some a) acc ct len off h
      = pbuf_copy_partial_loop (pb_next pb) acc ct len (off - pb_len pb) h"
    "\<not> (off \<noteq> 0 \<and> off \<ge> pb_len pb) \<Longrightarrow> (if pb_len pb - off > len then len else pb_len pb - off) = n
      \<Longrightarrow> mem_read h (pb_payload pb) (unat off) (unat n) = Some xs
      \<Longrightarrow> pbuf_copy_partial_loop (Some a) acc ct len off h
        = pbuf_copy_partial_loop (pb_next pb) (acc @ xs) (ct + n) (len - n) 0 h"
  using assms
  by (subst pbuf_copy_partial_loop.simps, simp only: Let_def option.distinct Option.bind.bind_lunit Option.bind.bind_lzero
      if_True if_False simp_thms)+

lemma pbuf_copy_partial_loop_spec:
  assumes "chain h p as" "list_all (readable h) as"
  shows "pbuf_copy_partial_loop p acc ct len off h =
     Some (ct + of_nat (length (take (unat len) (drop (unat off) (pbytes h as)))),
           acc @ take (unat len) (drop (unat off) (pbytes h as)))"
  using assms
proof (induction as arbitrary: p acc ct len off)
  case Nil
  then show ?case by simp
next
  case (Cons a as)
  then obtain pb where pb: "p = Some a" "hp_pbufs h a = Some pb" "chain h (pb_next pb) as" by auto
  have r: "readable h a" "list_all (readable h) as" using Cons.prems(2) by simp_all
  have ld: "length (pdata h a) = unat (pb_len pb)" using length_pdata [OF r(1)] pb(2) by simp
  show ?case
  proof (cases "len = 0")
    case True
    then show ?thesis by simp
  next
    case False
    show ?thesis
    proof (cases "off \<noteq> 0 \<and> off \<ge> pb_len pb")
      case True
      then have "unat (off - pb_len pb) = unat off - unat (pb_len pb)" "unat (pb_len pb) \<le> unat off"
        by (simp_all add: unat_u16_sub word_le_nat_alt)
      then show ?thesis
        using True False pb Cons.IH [OF pb(3) r(2), of acc ct len "off - pb_len pb"] ld
        by (simp add: pbuf_copy_partial_loop_step)
    next
      case F2: False
      define n where "n = (if pb_len pb - off > len then len else pb_len pb - off)"
      have le: "unat off \<le> unat (pb_len pb)"
        using F2 by (auto simp: word_le_nat_alt)
      have sub: "unat (pb_len pb - off) = unat (pb_len pb) - unat off"
        using le by (rule unat_u16_sub)
      have n: "unat n = min (unat len) (unat (pb_len pb) - unat off)"
        by (simp add: n_def word_less_nat_alt sub)
      have rd: "mem_read h (pb_payload pb) (unat off) (unat n) = Some (seg (unat off) (unat n) (pdata h a))"
        using mem_read_pdata [OF r(1), of "unat off" "unat n"] pb(2) n le by simp
      have ln: "unat (len - n) = unat len - unat n"
        using n by (simp add: unat_u16_sub)
      have sg: "seg (unat off) (unat n) (pdata h a) = take (unat len) (drop (unat off) (pdata h a))"
        using n ld by (simp add: seg_def min_def)
      have unf: "pbuf_copy_partial_loop p acc ct len off h
        = pbuf_copy_partial_loop (pb_next pb) (acc @ take (unat len) (drop (unat off) (pdata h a))) (ct + n) (len - n) 0 h"
        using pbuf_copy_partial_loop_step(2) [OF pb(2) False F2 n_def [symmetric] rd] pb(1) sg by simp
      have ln': "unat (len - n) = unat len - (unat (pb_len pb) - unat off)"
        unfolding ln n by simp
      have tk: "take (unat len) (drop (unat off) (pbytes h (a # as)))
          = take (unat len) (drop (unat off) (pdata h a)) @ take (unat (len - n)) (pbytes h as)"
        using ld le by (simp add: ln')
      have ll: "length (take (unat len) (drop (unat off) (pdata h a))) = unat n"
        using n ld by simp
      show ?thesis
        unfolding unf Cons.IH [OF pb(3) r(2)] tk length_append ll of_nat_add
        by (simp add: add.assoc)
    qed
  qed
qed

lemma pbuf_copy_partial_spec:
  assumes "chain h p as" "as \<noteq> []" "list_all (readable h) as"
  shows "pbuf_copy_partial p len off h =
     Some (of_nat (length (take (unat len) (drop (unat off) (pbytes h as)))),
           take (unat len) (drop (unat off) (pbytes h as)))"
proof -
  have "p \<noteq> None" using assms(1,2) by (cases as) auto
  then show ?thesis
    using pbuf_copy_partial_loop_spec [OF assms(1,3), of "[]" 0 len off]
    by (simp add: pbuf_copy_partial_def)
qed

section \<open>Counting\<close>

lemma pbuf_clen_loop_spec: "chain h p as \<Longrightarrow> pbuf_clen_loop p n h = Some (n + of_nat (length as))"
proof (induction as arbitrary: p n)
  case Nil
  then show ?case by (simp add: pbuf_clen_loop.simps)
next
  case (Cons a as)
  then obtain pb where "p = Some a" "hp_pbufs h a = Some pb" "chain h (pb_next pb) as" by auto
  then show ?case using Cons.IH by (subst pbuf_clen_loop.simps) (simp add: add.assoc)
qed

section \<open>Comparing\<close>

text \<open>The first index at which two lists of the same length differ.\<close>

fun mismatch :: "'a list \<Rightarrow> 'a list \<Rightarrow> nat option" where
  "mismatch (x # xs) (y # ys) = (if x \<noteq> y then Some 0 else map_option Suc (mismatch xs ys))"
| "mismatch _ _ = None"

lemma mismatch_None: "length xs = length ys \<Longrightarrow> mismatch xs ys = None \<longleftrightarrow> xs = ys"
  by (induction xs ys rule: list_induct2) auto

lemma mismatch_less: "mismatch xs ys = Some k \<Longrightarrow> k < length xs"
  by (induction xs ys arbitrary: k rule: mismatch.induct) (auto split: if_splits)

definition memcmp_result :: "nat \<Rightarrow> nat option \<Rightarrow> u16" where
  "memcmp_result i m = (case m of None \<Rightarrow> 0 | Some k \<Rightarrow> of_nat (min (i + k + 1) 0xFFFF))"

lemma memcmp_result_0: "memcmp_result i m = 0 \<longleftrightarrow> m = None"
proof (cases m)
  case None
  then show ?thesis by (simp add: memcmp_result_def)
next
  case (Some k)
  have "unat (memcmp_result i m) = min (i + k + 1) 0xFFFF"
    unfolding memcmp_result_def Some option.case by (rule unat_of_nat_u16) simp
  then show ?thesis using Some by (metis add_is_0 min_def option.distinct(1) unat_0 zero_neq_numeral zero_neq_one)
qed

lemma pbuf_memcmp_loop_spec:
  assumes "chain h q bs" "list_all (readable h) bs" "length (pbytes h bs) < 65536"
    and "unat start + i + length s2 \<le> length (pbytes h bs)"
  shows "pbuf_memcmp_loop q start i s2 h =
    Some (memcmp_result i (mismatch (take (length s2) (drop (unat start + i) (pbytes h bs))) s2))"
  using assms(4)
proof (induction s2 arbitrary: i)
  case Nil
  then show ?case by (simp add: memcmp_result_def)
next
  case (Cons b s2)
  have "unat start + i < 65536" using Cons.prems assms(3) by simp
  then have u: "unat (start + of_nat i) = unat start + i"
    by (simp add: unat_u16_add_mod unat_of_nat_u16_mod mod_add_right_eq)
  have d: "drop (unat start + i) (pbytes h bs)
      = pbytes h bs ! (unat start + i) # drop (unat start + Suc i) (pbytes h bs)"
    using Cons.prems by (simp add: Cons_nth_drop_Suc)
  have g: "pbuf_get_at q (start + of_nat i) h = Some (pbytes h bs ! (unat start + i))"
    using pbuf_get_at_spec [OF assms(1,2), of "start + of_nat i"] u Cons.prems by simp
  show ?case
    using Cons.IH [of "Suc i"] Cons.prems g d
    by (auto simp: memcmp_result_def split: option.splits)
qed

lemma chain_suffix:
  assumes "chain h p (pre @ a # post)"
  shows "chain h (Some a) (a # post)"
  using assms by (induction pre arbitrary: p) auto

text \<open>\<open>pbuf_memcmp\<close> compares the segment of the packet with the buffer.\<close>

lemma pbuf_memcmp_spec:
  assumes "packet h p as" "unat n \<le> length s2"
  shows "pbuf_memcmp p off s2 n h = Some (
     if length (pbytes h as) < unat off + unat n then 0xFFFF
     else memcmp_result 0 (mismatch (seg (unat off) (unat n) (pbytes h as)) (take (unat n) s2)))"
proof -
  obtain a bs pb where pa: "p = Some a" "hp_pbufs h a = Some pb"
      and tot: "unat (pb_tot_len pb) = length (pbytes h as)"
    using packet_Some [OF assms(1)] by metis
  have c: "chain h p as" and r: "list_all (readable h) as"
    using assms(1) by (simp_all add: packet_chain packet_readable)
  have len: "length (pbytes h as) < 65536" unfolding tot [symmetric] by simp
  show ?thesis
  proof (cases "length (pbytes h as) < unat off + unat n")
    case True
    then show ?thesis using pa tot by (simp add: pbuf_memcmp_def)
  next
    case False
    obtain q k where l: "locate h as (unat off) = (q, k)" by fastforce
    have sk: "pbuf_skip_const p off h = Some (q, of_nat k)"
      using pbuf_skip_const_spec [OF c, of off] l by simp
    have unf: "pbuf_memcmp p off s2 n h = pbuf_memcmp_loop q (of_nat k) 0 (take (unat n) s2) h"
      using False sk pa(2) tot assms(2) unfolding pa(1) by (simp add: pbuf_memcmp_def)
    show ?thesis
    proof (cases q)
      case None
      then have "length (pbytes h as) \<le> unat off" using locate_None [OF r, of "unat off"] l by simp
      then have "unat n = 0" using False by simp
      then show ?thesis using False unf by (simp add: memcmp_result_def seg_def)
    next
      case (Some b)
      obtain pre post where s: "as = pre @ b # post" "unat off = length (pbytes h pre) + k"
          "k < length (pdata h b)"
        using locate_Some [OF r] l Some by blast
      have cb: "chain h (Some b) (b # post)" using chain_suffix [of h p pre b post] c s(1) by simp
      have k: "unat (of_nat k :: u16) = k"
        using s len by (intro unat_of_nat_u16) simp
      have "pbuf_memcmp_loop q (of_nat k) 0 (take (unat n) s2) h = Some (memcmp_result 0
          (mismatch (take (unat n) (drop k (pbytes h (b # post)))) (take (unat n) s2)))"
        using pbuf_memcmp_loop_spec [OF cb, of "of_nat k" 0 "take (unat n) s2"] r s len k False assms(2) Some
        by simp
      then show ?thesis
        using False unf s by (simp add: seg_def)
    qed
  qed
qed

section \<open>Searching\<close>

definition match_at :: "byte list \<Rightarrow> byte list \<Rightarrow> nat \<Rightarrow> bool" where
  "match_at xs m i \<longleftrightarrow> i + length m \<le> length xs \<and> seg i (length m) xs = m"

lemma pbuf_memcmp_match:
  assumes "packet h p as" "length m < 65536" "unat i + length m \<le> length (pbytes h as)"
  shows "\<exists>r. pbuf_memcmp p i m (of_nat (length m)) h = Some r \<and> (r = 0 \<longleftrightarrow> match_at (pbytes h as) m (unat i))"
  using pbuf_memcmp_spec [OF assms(1), of "of_nat (length m)" m i] assms(2,3)
  by (auto simp: unat_of_nat_u16 memcmp_result_0 mismatch_None match_at_def)

lemma pbuf_memfind_loop_spec:
  assumes "packet h p as" "length m < 65536" "length m \<le> length (pbytes h as)"
    and "unat mx = length (pbytes h as) - length m" "unat i \<le> unat mx"
  shows "\<exists>r. pbuf_memfind_loop p m (of_nat (length m)) i mx h = Some r
    \<and> ((match_at (pbytes h as) m (unat r) \<and> unat i \<le> unat r
         \<and> (\<forall>j. unat i \<le> j \<and> j < unat r \<longrightarrow> \<not> match_at (pbytes h as) m j))
      \<or> (r = 0xFFFF \<and> (\<forall>j \<ge> unat i. \<not> match_at (pbytes h as) m j)))"
  using assms(5)
proof (induction "unat mx - unat i" arbitrary: i rule: less_induct)
  case less
  have b: "unat i + length m \<le> length (pbytes h as)" using less.prems assms(3,4) by simp
  obtain r where r: "pbuf_memcmp p i m (of_nat (length m)) h = Some r"
      and r0: "r = 0 \<longleftrightarrow> match_at (pbytes h as) m (unat i)"
    using pbuf_memcmp_match [OF assms(1,2) b] by blast
  have step: "pbuf_memfind_loop p m (of_nat (length m)) i mx h =
      (if r = 0 then Some i else pbuf_memfind_loop p m (of_nat (length m)) (i + 1) mx h)"
    using less.prems r by (subst pbuf_memfind_loop.simps) (simp add: word_le_nat_alt)
  show ?case
  proof (cases "r = 0")
    case True
    then show ?thesis using step r0 by auto
  next
    case False
    then have nm: "\<not> match_at (pbytes h as) m (unat i)" using r0 by simp
    have ext: "\<not> match_at (pbytes h as) m j" if "unat i \<le> j" "\<not> (unat i + 1 \<le> j)" for j
      using nm that by (metis Suc_eq_plus1 le_antisym not_less_eq_eq)
    show ?thesis
    proof (cases "unat i < unat mx")
      case True
      then have u: "unat (i + 1) = unat i + 1"
        using unat_u16_le [of mx] by (intro unat_u16_inc) linarith
      then have "unat mx - unat (i + 1) < unat mx - unat i" "unat (i + 1) \<le> unat mx"
        using True by simp_all
      from less.hyps [OF this] obtain r' where
        r': "pbuf_memfind_loop p m (of_nat (length m)) (i + 1) mx h = Some r'"
          "(match_at (pbytes h as) m (unat r') \<and> unat i + 1 \<le> unat r'
             \<and> (\<forall>j. unat i + 1 \<le> j \<and> j < unat r' \<longrightarrow> \<not> match_at (pbytes h as) m j))
          \<or> (r' = 0xFFFF \<and> (\<forall>j \<ge> unat i + 1. \<not> match_at (pbytes h as) m j))"
        unfolding u by blast
      have "pbuf_memfind_loop p m (of_nat (length m)) i mx h = Some r'" using step False r'(1) by simp
      moreover have "(match_at (pbytes h as) m (unat r') \<and> unat i \<le> unat r'
             \<and> (\<forall>j. unat i \<le> j \<and> j < unat r' \<longrightarrow> \<not> match_at (pbytes h as) m j))
          \<or> (r' = 0xFFFF \<and> (\<forall>j \<ge> unat i. \<not> match_at (pbytes h as) m j))"
        using r'(2) ext by (meson add_leD1)
      ultimately show ?thesis by blast
    next
      case F: False
      then have eq: "unat i = unat mx" using less.prems by simp
      have none: "\<not> match_at (pbytes h as) m j" if "unat i \<le> j" for j
        using nm that assms(3,4) eq by (cases "j = unat i") (auto simp: match_at_def)
      have "length m \<noteq> 0" using none [of "unat i"] b by (auto simp: match_at_def seg_def)
      moreover have "length (pbytes h as) \<le> 65535"
        using packet_Some [OF assms(1)] unat_u16_le by metis
      ultimately have "unat mx < 65535" using assms(3,4) by linarith
      then have "unat (i + 1) = unat mx + 1" using eq by (simp add: unat_u16_inc)
      then have "pbuf_memfind_loop p m (of_nat (length m)) (i + 1) mx h = Some 0xFFFF"
        by (subst pbuf_memfind_loop.simps) (simp add: word_le_nat_alt)
      then show ?thesis using step False none by auto
    qed
  qed
qed


text \<open>The index after the last one to compare, and what \<open>pbuf_memfind\<close> promises.\<close>

definition first_match :: "byte list \<Rightarrow> byte list \<Rightarrow> nat \<Rightarrow> u16 \<Rightarrow> bool" where
  "first_match xs m i r \<longleftrightarrow>
     (match_at xs m (unat r) \<and> i \<le> unat r \<and> (\<forall>j. i \<le> j \<and> j < unat r \<longrightarrow> \<not> match_at xs m j))
   \<or> (r = 0xFFFF \<and> (\<forall>j \<ge> i. \<not> match_at xs m j))"

lemma pbuf_memfind_spec:
  assumes "packet h p as" "length m < 65536"
  shows "\<exists>r. pbuf_memfind p m (of_nat (length m)) i h = Some r \<and> first_match (pbytes h as) m (unat i) r"
proof -
  obtain a pb where pa: "p = Some a" "hp_pbufs h a = Some pb"
      and tot: "unat (pb_tot_len pb) = length (pbytes h as)"
    using packet_Some [OF assms(1)] by metis
  have ml: "unat (of_nat (length m) :: u16) = length m" using assms(2) by (simp add: unat_of_nat_u16)
  show ?thesis
  proof (cases "length m + unat i \<le> length (pbytes h as)")
    case True
    then have mx: "unat (pb_tot_len pb - of_nat (length m)) = length (pbytes h as) - length m"
      by (simp add: unat_u16_sub ml tot)
    have "pbuf_memfind p m (of_nat (length m)) i h
        = pbuf_memfind_loop p m (of_nat (length m)) i (pb_tot_len pb - of_nat (length m)) h"
      using True pa by (simp add: pbuf_memfind_def ml tot)
    then show ?thesis
      using pbuf_memfind_loop_spec [OF assms _ mx, of i] True mx by (auto simp: first_match_def)
  next
    case False
    then have "pbuf_memfind p m (of_nat (length m)) i h = Some 0xFFFF"
      using pa by (simp add: pbuf_memfind_def ml tot)
    moreover have "\<forall>j \<ge> unat i. \<not> match_at (pbytes h as) m j"
      using False by (auto simp: match_at_def)
    ultimately show ?thesis by (auto simp: first_match_def)
  qed
qed

section \<open>Properties of the reading operations\<close>

text \<open>A heap with a packet of two pbufs, for the concrete instances of the properties.\<close>

definition ex_pbuf :: "addr option \<Rightarrow> ptr \<Rightarrow> u16 \<Rightarrow> u16 \<Rightarrow> u8 \<Rightarrow> pbuf" where
  "ex_pbuf nxt pay tot len ref = \<lparr>pb_next = nxt, pb_payload = Some pay, pb_tot_len = tot, pb_len = len,
     pb_type_internal = 0x80, pb_flags = 0, pb_ref = ref, pb_if_idx = 0\<rparr>"

definition ex_heap :: heap where
  "ex_heap = \<lparr>hp_pbufs = [1 \<mapsto> ex_pbuf (Some 2) (1, 2) 5 2 1, 2 \<mapsto> ex_pbuf None (2, 0) 3 3 1],
     hp_blocks = [1 \<mapsto> [0, 0, 104, 101], 2 \<mapsto> [108, 108, 111]], hp_msgs = Map.empty,
     hp_mbox = sys_mbox_new (replicate 128 0), hp_ooseq_pending = False, hp_brk = 3,
     hp_oom = (\<lambda>_. False), hp_junk = (\<lambda>_ _. 0)\<rparr>"

lemma ex_heap_packet: "packet ex_heap (Some 1) [1, 2]" "pbytes ex_heap [1, 2] = [104, 101, 108, 108, 111]"
  by (simp_all add: packet_def ex_heap_def ex_pbuf_def owned_def the_pbuf_def pdata_def mem_read_def seg_def)

text \<open>C26: \<open>pbuf_copy_partial\<close> of a well-formed packet copies exactly the requested window of the
  packet's bytes, cut off at the end of the packet, whatever the split into pbufs is.\<close>

theorem pbuf_copy_partial_window:
  assumes "packet h p as"
  shows "pbuf_copy_partial p len off h =
     Some (of_nat (min (unat len) (length (pbytes h as) - unat off)),
           take (unat len) (drop (unat off) (pbytes h as)))"
  using pbuf_copy_partial_spec [of h p as len off] assms packet_readable [OF assms]
  by (simp add: packet_def min.commute)

theorem pbuf_copy_partial_window_witness:
  "packet ex_heap (Some 1) [1, 2] \<and> pbuf_copy_partial (Some 1) 3 1 ex_heap = Some (3, [101, 108, 108])"
  using ex_heap_packet pbuf_copy_partial_window [OF ex_heap_packet(1), of 3 1] by simp

text \<open>\<open>pbuf_memfind\<close> returns the first position at or after the start offset where the
  searched bytes occur in the packet (across pbuf boundaries), or \<open>0xFFFF\<close> if there is none.\<close>

theorem pbuf_memfind_first:
  assumes "packet h p as" "length m < 65536"
  shows "\<exists>r. pbuf_memfind p m (of_nat (length m)) i h = Some r \<and> first_match (pbytes h as) m (unat i) r"
  using pbuf_memfind_spec [OF assms] .

theorem pbuf_memfind_first_witness:
  "\<exists>r. pbuf_memfind (Some 1) [101, 108] 2 0 ex_heap = Some r
     \<and> first_match [104, 101, 108, 108, 111] [101, 108] 0 r"
  using pbuf_memfind_first [OF ex_heap_packet(1), of "[101, 108]" 0] unfolding ex_heap_packet(2) by simp

end
