(* ===== verification/Pbuf_Free.thy ===== *)
theory Pbuf_Free
  imports Pbuf_Read
begin

text \<open>
  Reference counts: what \<open>pbuf_free\<close>, \<open>pbuf_ref\<close> and \<open>pbuf_dechain\<close> do to a chain.  The head
  pbufs that nobody else refers to are released, the first one that is still shared loses one
  reference, and the rest of the heap is untouched.
\<close>

section \<open>Releasing a chain\<close>

definition src_ok :: "pbuf \<Rightarrow> bool" where
  "src_ok pb \<longleftrightarrow> pbuf_get_allocsrc pb \<in> {PBUF_TYPE_ALLOC_SRC_MASK_STD_MEMP_PBUF_POOL,
     PBUF_TYPE_ALLOC_SRC_MASK_STD_MEMP_PBUF, PBUF_TYPE_ALLOC_SRC_MASK_STD_HEAP}"

text \<open>A live pbuf: it is referenced, and its allocation source is one that \<open>pbuf_free\<close> knows.\<close>

definition live :: "heap \<Rightarrow> addr \<Rightarrow> bool" where
  "live h a \<longleftrightarrow> (\<exists>pb. hp_pbufs h a = Some pb \<and> 0 < pb_ref pb \<and> src_ok pb)"

text \<open>A pbuf with one reference only.\<close>

definition sole :: "heap \<Rightarrow> addr \<Rightarrow> bool" where
  "sole h a \<longleftrightarrow> (\<exists>pb. hp_pbufs h a = Some pb \<and> pb_ref pb = 1 \<and> src_ok pb)"

text \<open>The specification of the release of a chain: the heap, and the number of pbufs released.\<close>

fun released :: "heap \<Rightarrow> addr list \<Rightarrow> heap" where
  "released h [] = h"
| "released h (a # as) = (let pb = the_pbuf h a in
     if pb_ref pb = 1 then released (free_pbuf h a) as
     else put_pbuf h a (pb\<lparr>pb_ref := pb_ref pb - 1\<rparr>))"

definition n_released :: "heap \<Rightarrow> addr list \<Rightarrow> nat" where
  "n_released h as = length (takeWhile (\<lambda>a. pb_ref (the_pbuf h a) = 1) as)"

lemma sole_the: "sole h a \<Longrightarrow> pb_ref (the_pbuf h a) = 1 \<and> src_ok (the_pbuf h a)"
  by (auto simp: sole_def)

lemma src_ok_upd [simp]:
  "src_ok (pb\<lparr>pb_next := n\<rparr>) = src_ok pb" "src_ok (pb\<lparr>pb_tot_len := t\<rparr>) = src_ok pb"
  "src_ok (pb\<lparr>pb_len := l\<rparr>) = src_ok pb" "src_ok (pb\<lparr>pb_ref := r\<rparr>) = src_ok pb"
  "src_ok (pb\<lparr>pb_payload := y\<rparr>) = src_ok pb" "src_ok (pb\<lparr>pb_flags := f\<rparr>) = src_ok pb"
  "src_ok (pb\<lparr>pb_if_idx := i\<rparr>) = src_ok pb"
  by (simp_all add: src_ok_def pbuf_get_allocsrc_def)

lemma free_put [simp]: "free_pbuf (put_pbuf h a pb) a = free_pbuf h a"
  by (simp add: free_pbuf_def put_pbuf_def)

lemma pbuf_free_loop_None [simp]: "pbuf_free_loop None c h = Some (c, h)"
  by (subst pbuf_free_loop.simps) simp

lemma pbuf_free_loop_step:
  assumes "hp_pbufs h a = Some pb" "0 < pb_ref pb" "src_ok pb"
  shows "pbuf_free_loop (Some a) c h =
    (if pb_ref pb = 1 then pbuf_free_loop (pb_next pb) (c + 1) (free_pbuf h a)
     else Some (c, put_pbuf h a (pb\<lparr>pb_ref := pb_ref pb - 1\<rparr>)))"
  using assms by (subst pbuf_free_loop.simps) (auto simp: Let_def src_ok_def)

lemma live_free_notin: "a \<notin> set as \<Longrightarrow> list_all (live h) as \<Longrightarrow> list_all (live (free_pbuf h a)) as"
  by (auto simp: list_all_iff live_def)

lemma n_released_free_notin: "a \<notin> set as \<Longrightarrow> n_released (free_pbuf h a) as = n_released h as"
  unfolding n_released_def
  by (intro arg_cong [where f = length] takeWhile_cong refl) (metis the_pbuf_simps(3))

lemma pbuf_free_loop_spec:
  assumes "chain h p as" "list_all (live h) as"
  shows "pbuf_free_loop p c h = Some (c + of_nat (n_released h as), released h as)"
  using assms
proof (induction as arbitrary: p c h)
  case Nil
  then show ?case by (simp add: n_released_def)
next
  case (Cons a as)
  then obtain pb where pb: "p = Some a" "hp_pbufs h a = Some pb" "chain h (pb_next pb) as"
      "0 < pb_ref pb" "src_ok pb"
    by (auto simp: live_def)
  have "a \<notin> set as" using chain_distinct [OF Cons.prems(1)] by simp
  then have "chain (free_pbuf h a) (pb_next pb) as" "list_all (live (free_pbuf h a)) as"
      "n_released (free_pbuf h a) as = n_released h as"
    using pb(3) Cons.prems(2) live_free_notin by (simp_all add: n_released_free_notin)
  then show ?case
    using pb by (simp add: pbuf_free_loop_step Cons.IH) (simp add: n_released_def)
qed

lemma pbuf_free_spec:
  assumes "chain h p as" "as \<noteq> []" "list_all (live h) as"
  shows "pbuf_free p h = Some (of_nat (n_released h as), released h as)"
proof -
  have "p \<noteq> None" using assms(1,2) by (cases as) auto
  then show ?thesis
    using pbuf_free_loop_spec [OF assms(1,3)] by (simp add: pbuf_free_def)
qed

section \<open>Releasing a chain with one owner\<close>

definition without :: "heap \<Rightarrow> addr set \<Rightarrow> heap" where
  "without h A = h\<lparr>hp_pbufs := (hp_pbufs h) |` (- A), hp_blocks := (hp_blocks h) |` (- A)\<rparr>"

lemma without_simps [simp, heap_simps]:
  "hp_pbufs (without h A) = (hp_pbufs h) |` (- A)" "hp_blocks (without h A) = (hp_blocks h) |` (- A)"
  "hp_msgs (without h A) = hp_msgs h" "hp_mbox (without h A) = hp_mbox h"
  "hp_brk (without h A) = hp_brk h" "hp_oom (without h A) = hp_oom h" "hp_junk (without h A) = hp_junk h"
  "hp_ooseq_pending (without h A) = hp_ooseq_pending h"
  by (simp_all add: without_def)

lemma free_pbuf_without: "free_pbuf h a = without h {a}"
  by (simp add: free_pbuf_def without_def restrict_map_def fun_eq_iff)

lemma without_without [simp]: "without (without h A) B = without h (A \<union> B)"
  by (simp add: without_def)

lemma without_empty [simp]: "without h {} = h"
  by (simp add: without_def restrict_map_def)

lemma sole_live: "sole h a \<Longrightarrow> live h a"
  by (auto simp: sole_def live_def)

lemma sole_free_notin: "a \<notin> set as \<Longrightarrow> list_all (sole h) as \<Longrightarrow> list_all (sole (free_pbuf h a)) as"
  by (auto simp: list_all_iff sole_def)

lemma released_sole:
  assumes "list_all (sole h) as" "distinct as"
  shows "released h as = without h (set as)"
  using assms
proof (induction as arbitrary: h)
  case Nil
  then show ?case by simp
next
  case (Cons a as)
  then have "released (free_pbuf h a) as = without (free_pbuf h a) (set as)"
    using sole_free_notin by simp
  moreover have "pb_ref (the_pbuf h a) = 1" using Cons.prems(1) by (auto simp: sole_def)
  ultimately show ?case by (simp add: Let_def free_pbuf_without)
qed

lemma n_released_sole: "list_all (sole h) as \<Longrightarrow> n_released h as = length as"
  unfolding n_released_def by (subst takeWhile_eq_all_conv [THEN iffD2]) (auto simp: list_all_iff sole_def)

lemma pbuf_free_sole:
  assumes "chain h p as" "as \<noteq> []" "list_all (sole h) as"
  shows "pbuf_free p h = Some (of_nat (length as), without h (set as))"
proof -
  have "list_all (live h) as" using assms(3) by (auto simp: list_all_iff intro: sole_live)
  then show ?thesis
    using pbuf_free_spec [OF assms(1,2)] released_sole [OF assms(3) chain_distinct [OF assms(1)]]
      n_released_sole [OF assms(3)] by simp
qed

lemma same_on_without [simp]: "A \<inter> B = {} \<Longrightarrow> same_on A h (without h B)"
  by (auto simp: same_on_def restrict_map_def)

lemma heap_ok_without [simp]: "heap_ok h \<Longrightarrow> heap_ok (without h A)"
  by (auto simp: heap_ok_def)

lemma pbuf_ref_spec:
  assumes "hp_pbufs h a = Some pb" "pb_ref pb \<noteq> 0xFF"
  shows "pbuf_ref (Some a) h = Some (put_pbuf h a (pb\<lparr>pb_ref := pb_ref pb + 1\<rparr>))"
proof -
  have "pb_ref pb + 1 \<noteq> 0"
  proof
    assume "pb_ref pb + 1 = 0"
    then have "pb_ref pb = - 1" by (simp add: eq_neg_iff_add_eq_0)
    then show False using assms(2) by simp
  qed
  then show ?thesis using assms(1) by (simp add: pbuf_ref_def word_gt_0)
qed

end
