(* ===== verification/Pbuf_Mut.thy ===== *)
theory Pbuf_Mut
  imports Pbuf_Free
begin

text \<open>
  The functional behaviour of the operations of \<open>pbuf.c\<close> that change a packet: filling it,
  concatenating, trimming, moving its header.  Every lemma says what happens to the bytes of
  the packet, that the result is a well-formed packet again, and what is left untouched.
\<close>

section \<open>Filling a packet\<close>

lemma owned_pbuf:
  assumes "owned h a"
  obtains pb off bs where "hp_pbufs h a = Some pb" "pb_payload pb = Some (a, off)" "hp_blocks h a = Some bs"
    "off + unat (pb_len pb) \<le> length bs" "pdata h a = seg off (unat (pb_len pb)) bs"
  using assms pdata_readable [of h a] by (auto simp: owned_def)

text \<open>The fields of the heap that copying bytes leaves alone.\<close>

definition same_shape :: "heap \<Rightarrow> heap \<Rightarrow> bool" where
  "same_shape h h' \<longleftrightarrow> hp_pbufs h' = hp_pbufs h \<and> hp_brk h' = hp_brk h
     \<and> dom (hp_blocks h') = dom (hp_blocks h) \<and> hp_mbox h' = hp_mbox h \<and> hp_msgs h' = hp_msgs h
     \<and> hp_oom h' = hp_oom h
     \<and> hp_junk h' = hp_junk h \<and> hp_ooseq_pending h' = hp_ooseq_pending h"

lemma same_shape_refl [simp]: "same_shape h h"
  by (simp add: same_shape_def)

lemma same_shape_trans: "same_shape h h' \<Longrightarrow> same_shape h' h'' \<Longrightarrow> same_shape h h''"
  by (simp add: same_shape_def)

lemma same_shape_the_pbuf: "same_shape h h' \<Longrightarrow> the_pbuf h' a = the_pbuf h a"
  by (simp add: same_shape_def the_pbuf_def)

lemma same_shape_chain: "same_shape h h' \<Longrightarrow> chain h' p as = chain h p as"
  by (induction as arbitrary: p) (auto simp: same_shape_def)

lemma same_shape_tot_ok: "same_shape h h' \<Longrightarrow> tot_ok h' as = tot_ok h as"
  by (induction as) (auto simp: same_shape_the_pbuf)

text \<open>A write into one owned pbuf.\<close>

lemma mem_write_owned:
  assumes "owned h a" "off + length ys \<le> unat (pb_len (the_pbuf h a))"
  obtains h' where "mem_write h (pb_payload (the_pbuf h a)) off ys = Some h'"
    "same_shape h h'" "owned h' a" "pdata h' a = splice_at off ys (pdata h a)" "same_on (- {a}) h h'"
proof -
  obtain pb base bs where pb: "hp_pbufs h a = Some pb" "pb_payload pb = Some (a, base)" "hp_blocks h a = Some bs"
      "base + unat (pb_len pb) \<le> length bs" "pdata h a = seg base (unat (pb_len pb)) bs"
    using owned_pbuf [OF assms(1)] .
  show thesis
  proof (cases "ys = []")
    case True
    then have "mem_write h (pb_payload (the_pbuf h a)) off ys = Some h" by (simp add: mem_write_def)
    then show thesis using that [of h] True assms(1) by simp
  next
    case False
    let ?bs = "splice_at (base + off) ys bs" and ?h = "put_block h a (splice_at (base + off) ys bs)"
    have l: "off + length ys \<le> unat (pb_len pb)" using assms(2) pb(1) by simp
    then have "mem_write h (pb_payload (the_pbuf h a)) off ys = Some ?h"
      using False pb by (simp add: mem_write_def)
    moreover have "length ?bs = length bs" using l pb(4) by simp
    moreover have "pdata ?h a = splice_at off ys (pdata h a)"
    proof -
      have "pdata ?h a = seg base (unat (pb_len pb)) ?bs"
        using pb l by (intro pdata_readable [of ?h a pb a base ?bs]) simp_all
      then show ?thesis using seg_splice_inner [OF pb(4) l] pb(5) by simp
    qed
    ultimately show thesis using that [of ?h] pb by (auto simp: owned_def same_shape_def)
  qed
qed

lemma pbuf_take_loop_0 [simp]: "pbuf_take_loop p xs 0 h = Some h"
  by (subst pbuf_take_loop.simps) simp

lemma pbuf_take_loop_step:
  assumes "hp_pbufs h a = Some pb" "n \<noteq> 0" "k = min n (unat (pb_len pb))" "k \<le> length xs"
    and "mem_write h (pb_payload pb) 0 (take k xs) = Some h'"
  shows "pbuf_take_loop (Some a) xs n h = pbuf_take_loop (pb_next pb) (drop k xs) (n - k) h'"
  using assms by (subst pbuf_take_loop.simps) (simp add: Let_def min_def split: if_splits)

lemma pbuf_take_loop_spec:
  assumes "chain h p as" "list_all (owned h) as" "n \<le> length (pbytes h as)" "n \<le> length xs"
  shows "\<exists>h'. pbuf_take_loop p xs n h = Some h' \<and> same_shape h h' \<and> list_all (owned h') as
    \<and> pbytes h' as = take n xs @ drop n (pbytes h as) \<and> same_on (- set as) h h'"
  using assms
proof (induction as arbitrary: p xs n h)
  case Nil
  then show ?case by simp
next
  case (Cons a as)
  then obtain pb where pb: "p = Some a" "hp_pbufs h a = Some pb" "chain h (pb_next pb) as" by auto
  have a: "owned h a" "list_all (owned h) as" and d: "a \<notin> set as"
    using Cons.prems(2) chain_distinct [OF Cons.prems(1)] by simp_all
  have len: "length (pdata h a) = unat (pb_len pb)"
    using length_pdata [OF owned_readable [OF a(1)]] pb(2) by simp
  show ?case
  proof (cases "n = 0")
    case True
    then show ?thesis using Cons.prems by auto
  next
    case False
    define k where "k = min n (unat (pb_len pb))"
    have k: "k \<le> length xs" "k \<le> n" "k \<le> unat (pb_len pb)" using Cons.prems(4) by (simp_all add: k_def)
    obtain h1 where h1: "mem_write h (pb_payload pb) 0 (take k xs) = Some h1"
        "same_shape h h1" "owned h1 a" "pdata h1 a = splice_at 0 (take k xs) (pdata h a)"
        "same_on (- {a}) h h1"
      using mem_write_owned [OF a(1), of 0 "take k xs"] pb(2) k by auto
    have c1: "chain h1 (pb_next pb) as" using same_shape_chain [OF h1(2)] pb(3) by simp
    have o1: "list_all (owned h1) as"
      using a(2) d by (auto simp: list_all_iff intro!: owned_same [OF h1(5)])
    have p1: "pbytes h1 as = pbytes h as"
      using a(2) d by (intro pbytes_cong pdata_same [OF h1(5)]) (auto simp: list_all_iff)
    have n1: "n - k \<le> length (pbytes h1 as)" using Cons.prems(3) len p1 by (auto simp: k_def)
    have n2: "n - k \<le> length (drop k xs)" using Cons.prems(4) by simp
    obtain h' where h': "pbuf_take_loop (pb_next pb) (drop k xs) (n - k) h1 = Some h'"
        "same_shape h1 h'" "list_all (owned h') as"
        "pbytes h' as = take (n - k) (drop k xs) @ drop (n - k) (pbytes h1 as)" "same_on (- set as) h1 h'"
      using Cons.IH [OF c1 o1 n1 n2] by blast
    have pa: "pdata h' a = take k xs @ drop k (pdata h a)"
      using pdata_same [OF h'(5), of a] d h1(3,4) k by (simp add: splice_at_def min_absorb2)
    have "owned h' a" using owned_same [OF h'(5), of a] d h1(3) by simp
    moreover have "pbytes h' (a # as) = take n xs @ drop n (pbytes h (a # as))"
    proof (cases "n \<le> unat (pb_len pb)")
      case True
      then have "k = n" by (simp add: k_def)
      then show ?thesis using h'(4) pa p1 len True by simp
    next
      case F: False
      then have "k = unat (pb_len pb)" by (simp add: k_def)
      then show ?thesis using h'(4) pa p1 len F
        by (simp add: append_assoc [symmetric] take_add [symmetric] del: append_assoc)
    qed
    moreover have "same_on (- set (a # as)) h h'"
      using same_on_trans [OF same_on_subset [OF h1(5)] same_on_subset [OF h'(5)], of "- set (a # as)"] by auto
    moreover have "pbuf_take_loop p xs n h = Some h'"
      using pbuf_take_loop_step [OF pb(2) False k_def k(1) h1(1)] h'(1) pb(1) by simp
    ultimately show ?thesis using h'(3) same_shape_trans [OF h1(2) h'(2)] by auto
  qed
qed

lemma pbuf_take_spec:
  assumes "packet h p as" "unat len \<le> length (pbytes h as)" "unat len \<le> length xs"
  obtains h' where "pbuf_take p xs len h = Some (ERR_OK, h')" "packet h' p as"
    "pbytes h' as = take (unat len) xs @ drop (unat len) (pbytes h as)" "same_shape h h'" "same_on (- set as) h h'"
proof -
  obtain a pb where pa: "p = Some a" "hp_pbufs h a = Some pb"
      and tot: "unat (pb_tot_len pb) = length (pbytes h as)"
    using packet_Some [OF assms(1)] by metis
  have pk: "chain h p as" "list_all (owned h) as" using assms(1) by (simp_all add: packet_def)
  obtain h' where h': "pbuf_take_loop p xs (unat len) h = Some h'" "same_shape h h'" "list_all (owned h') as"
      "pbytes h' as = take (unat len) xs @ drop (unat len) (pbytes h as)" "same_on (- set as) h h'"
    using pbuf_take_loop_spec [OF pk assms(2,3)] by blast
  have "packet h' p as"
    using assms(1) h'(3) same_shape_chain [OF h'(2)] same_shape_tot_ok [OF h'(2)] by (simp add: packet_def)
  moreover have "pbuf_take p xs len h = Some (ERR_OK, h')"
    using pa tot assms(2) h'(1) by (simp add: pbuf_take_def word_le_nat_alt)
  ultimately show thesis using that h' by blast
qed


section \<open>Concatenating packets\<close>

text \<open>Two heaps that differ in \<open>next\<close> and \<open>tot_len\<close> of pbufs in \<open>A\<close> only.\<close>

definition pb_core :: "pbuf \<Rightarrow> pbuf" where
  "pb_core pb = pb\<lparr>pb_next := None, pb_tot_len := 0\<rparr>"

definition relinked :: "addr set \<Rightarrow> heap \<Rightarrow> heap \<Rightarrow> bool" where
  "relinked A h h' \<longleftrightarrow> (\<forall>x. map_option pb_core (hp_pbufs h' x) = map_option pb_core (hp_pbufs h x))
     \<and> (\<forall>x. x \<notin> A \<longrightarrow> hp_pbufs h' x = hp_pbufs h x) \<and> h'\<lparr>hp_pbufs := Map.empty\<rparr> = h\<lparr>hp_pbufs := Map.empty\<rparr>"

lemma pb_coreD:
  "pb_core x = pb_core y \<Longrightarrow> pb_payload x = pb_payload y \<and> pb_len x = pb_len y \<and> pb_ref x = pb_ref y
     \<and> pb_type_internal x = pb_type_internal y \<and> pb_flags x = pb_flags y"
  by (cases x, cases y) (simp add: pb_core_def)

lemma pb_core_upd [simp]:
  "pb_core (pb\<lparr>pb_tot_len := t\<rparr>) = pb_core pb" "pb_core (pb\<lparr>pb_next := n\<rparr>) = pb_core pb"
  "pb_core (pb\<lparr>pb_next := n, pb_tot_len := t\<rparr>) = pb_core pb"
  by (simp_all add: pb_core_def)

lemma relinked_put:
  "hp_pbufs h a = Some pb \<Longrightarrow> pb_core pb' = pb_core pb \<Longrightarrow> a \<in> A \<Longrightarrow> relinked A h (put_pbuf h a pb')"
  by (auto simp: relinked_def put_pbuf_def)

lemma relinked_trans: "relinked A h h' \<Longrightarrow> relinked B h' h'' \<Longrightarrow> relinked (A \<union> B) h h''"
  by (auto simp: relinked_def)

lemma relinked_mono: "relinked A h h' \<Longrightarrow> A \<subseteq> B \<Longrightarrow> relinked B h h'"
  by (auto simp: relinked_def)

lemma relinked_Some:
  assumes "relinked A h h'" "hp_pbufs h a = Some pb"
  obtains pb' where "hp_pbufs h' a = Some pb'" "pb_core pb' = pb_core pb"
proof -
  from assms have "map_option pb_core (hp_pbufs h' a) = Some (pb_core pb)" by (simp add: relinked_def)
  then show thesis using that by auto
qed

lemma relinked_env:
  assumes "relinked A h h'"
  shows "hp_blocks h' = hp_blocks h" "hp_brk h' = hp_brk h" "hp_mbox h' = hp_mbox h"
    "hp_msgs h' = hp_msgs h" "hp_oom h' = hp_oom h" "hp_junk h' = hp_junk h"
    "dom (hp_pbufs h') = dom (hp_pbufs h)"
proof -
  have e: "h'\<lparr>hp_pbufs := Map.empty\<rparr> = h\<lparr>hp_pbufs := Map.empty\<rparr>" using assms by (simp add: relinked_def)
  from arg_cong [OF e, of hp_blocks] show "hp_blocks h' = hp_blocks h" by simp
  from arg_cong [OF e, of hp_brk] show "hp_brk h' = hp_brk h" by simp
  from arg_cong [OF e, of hp_mbox] show "hp_mbox h' = hp_mbox h" by simp
  from arg_cong [OF e, of hp_msgs] show "hp_msgs h' = hp_msgs h" by simp
  from arg_cong [OF e, of hp_oom] show "hp_oom h' = hp_oom h" by simp
  from arg_cong [OF e, of hp_junk] show "hp_junk h' = hp_junk h" by simp
  have "hp_pbufs h' x = None \<longleftrightarrow> hp_pbufs h x = None" for x
    using assms unfolding relinked_def by (metis map_option_is_None)
  then show "dom (hp_pbufs h') = dom (hp_pbufs h)" by (simp add: dom_def)
qed

lemma relinked_len: "relinked A h h' \<Longrightarrow> hp_pbufs h a = Some pb \<Longrightarrow> pb_len (the_pbuf h' a) = pb_len pb"
  by (metis pb_coreD relinked_Some the_pbuf_Some)

lemma relinked_owned:
  assumes "relinked A h h'" "owned h a"
  shows "owned h' a" "pdata h' a = pdata h a"
proof -
  obtain pb off bs where pb: "hp_pbufs h a = Some pb" "pb_payload pb = Some (a, off)" "hp_blocks h a = Some bs"
      "off + unat (pb_len pb) \<le> length bs" "pdata h a = seg off (unat (pb_len pb)) bs"
    using owned_pbuf [OF assms(2)] .
  obtain pb' where pb': "hp_pbufs h' a = Some pb'" "pb_core pb' = pb_core pb"
    using relinked_Some [OF assms(1) pb(1)] .
  then have c: "pb_payload pb' = Some (a, off)" "pb_len pb' = pb_len pb"
    using pb_coreD [OF pb'(2)] pb(2) by simp_all
  show "owned h' a" using pb pb' c relinked_env(1) [OF assms(1)] by (auto simp: owned_def)
  show "pdata h' a = pdata h a"
    using pb c pdata_readable [OF pb'(1) c(1), of bs] relinked_env(1) [OF assms(1)] by simp
qed

lemma relinked_live:
  assumes "relinked A h h'"
  shows "live h a \<Longrightarrow> live h' a" "sole h a \<Longrightarrow> sole h' a"
proof -
  have *: "\<exists>pb'. hp_pbufs h' a = Some pb' \<and> pb_ref pb' = pb_ref pb \<and> src_ok pb' = src_ok pb"
    if pb: "hp_pbufs h a = Some pb" for pb
  proof -
    obtain pb' where pb': "hp_pbufs h' a = Some pb'" "pb_core pb' = pb_core pb"
      using relinked_Some [OF assms pb] .
    then show ?thesis using pb_coreD [OF pb'(2)] by (simp add: src_ok_def pbuf_get_allocsrc_def)
  qed
  show "live h a \<Longrightarrow> live h' a" "sole h a \<Longrightarrow> sole h' a"
    using * unfolding live_def sole_def by metis+
qed

lemma relinked_pbytes:
  assumes "relinked A h h'" "list_all (owned h) as"
  shows "list_all (owned h') as" "pbytes h' as = pbytes h as"
  using relinked_owned(1) [OF assms(1)] assms(2)
  by (simp add: list_all_iff, intro pbytes_cong relinked_owned(2) [OF assms(1)]) (use assms(2) in \<open>simp add: list_all_iff\<close>)

lemma relinked_chain: "relinked A h h' \<Longrightarrow> set as \<inter> A = {} \<Longrightarrow> chain h' p as = chain h p as"
  by (induction as arbitrary: p) (auto simp: relinked_def)

lemma relinked_the_pbuf: "relinked A h h' \<Longrightarrow> a \<notin> A \<Longrightarrow> the_pbuf h' a = the_pbuf h a"
  by (simp add: relinked_def the_pbuf_def)

lemma tot_ok_put_notin: "a \<notin> set as \<Longrightarrow> tot_ok (put_pbuf h a pb) as = tot_ok h as"
proof (induction as)
  case (Cons b as)
  then have "(\<Sum>b\<leftarrow>as. unat (pb_len (the_pbuf (put_pbuf h a pb) b))) = (\<Sum>b\<leftarrow>as. unat (pb_len (the_pbuf h b)))"
    by (intro arg_cong [where f = sum_list] map_cong) auto
  then show ?case using Cons by auto
qed simp

lemma tot_ok_append: "tot_ok h (as @ bs) \<Longrightarrow> tot_ok h bs"
  by (induction as) auto

lemma tot_ok_alt:
  "list_all (readable h) as \<Longrightarrow> tot_ok h (a # as) \<longleftrightarrow>
     unat (pb_tot_len (the_pbuf h a)) = unat (pb_len (the_pbuf h a)) + length (pbytes h as) \<and> tot_ok h as"
  by (simp add: length_pbytes)

lemma pbuf_cat_loop_step:
  assumes "hp_pbufs h a = Some pb" "hp_pbufs h t = Some tb"
  shows "pb_next pb = Some n \<Longrightarrow> pbuf_cat_loop a t h
      = pbuf_cat_loop n t (put_pbuf h a (pb\<lparr>pb_tot_len := pb_tot_len pb + pb_tot_len tb\<rparr>))"
    "pb_next pb = None \<Longrightarrow> pb_tot_len pb = pb_len pb \<Longrightarrow> pbuf_cat_loop a t h
      = Some (put_pbuf h a (pb\<lparr>pb_tot_len := pb_tot_len pb + pb_tot_len tb, pb_next := Some t\<rparr>))"
proof -
  assume "pb_next pb = Some n"
  then show "pbuf_cat_loop a t h
      = pbuf_cat_loop n t (put_pbuf h a (pb\<lparr>pb_tot_len := pb_tot_len pb + pb_tot_len tb\<rparr>))"
    using assms by (subst pbuf_cat_loop.simps) simp
next
  assume "pb_next pb = None" "pb_tot_len pb = pb_len pb"
  then show "pbuf_cat_loop a t h
      = Some (put_pbuf h a (pb\<lparr>pb_tot_len := pb_tot_len pb + pb_tot_len tb, pb_next := Some t\<rparr>))"
    using assms by (subst pbuf_cat_loop.simps) simp
qed

lemma pbuf_cat_loop_spec:
  assumes "chain h (Some a) (a # as)" "chain h (Some t) bs" "set (a # as) \<inter> set bs = {}"
    and "list_all (owned h) (a # as)" "list_all (owned h) bs" "tot_ok h (a # as)" "tot_ok h bs"
    and "length (pbytes h (a # as)) + length (pbytes h bs) < 65536"
  shows "\<exists>h'. pbuf_cat_loop a t h = Some h' \<and> relinked (set (a # as)) h h'
    \<and> chain h' (Some a) (a # as @ bs) \<and> tot_ok h' (a # as @ bs)"
  using assms
proof (induction as arbitrary: a h)
  case Nil
  obtain tb bs' where tb: "hp_pbufs h t = Some tb" "bs = t # bs'" using Nil.prems(2) by (auto simp: chain_Some)
  obtain pb where pb: "hp_pbufs h a = Some pb" "pb_next pb = None" using Nil.prems(1) by auto
  let ?h = "put_pbuf h a (pb\<lparr>pb_tot_len := pb_tot_len pb + pb_tot_len tb, pb_next := Some t\<rparr>)"
  have "pb_tot_len pb = pb_len pb" using Nil.prems(6) pb by (simp add: u16_eq_unat)
  then have st: "pbuf_cat_loop a t h = Some ?h" using pbuf_cat_loop_step(2) [OF pb(1) tb(1) pb(2)] by simp
  have r: "relinked (set [a]) h ?h" using pb(1) by (auto intro: relinked_put simp: pb_core_def)
  have na: "a \<notin> set bs" using Nil.prems(3) by auto
  have rd: "list_all (readable h) bs" "readable h a"
    using Nil.prems(4,5) by (auto simp: list_all_iff intro: owned_readable)
  have tl: "unat (pb_tot_len tb) = length (pbytes h bs)"
    using tot_ok_length [of h t bs'] tb rd(1) Nil.prems(7) by simp
  have "chain ?h (Some a) (a # [] @ bs)" using Nil.prems(2) na by simp
  moreover have ln: "length (pbytes h bs) = (\<Sum>b\<leftarrow>bs. unat (pb_len (the_pbuf ?h b)))"
    using length_pbytes [OF rd(1)] na by (auto intro!: arg_cong [where f = sum_list] map_cong)
  moreover have "tot_ok ?h bs" using Nil.prems(7) na by (intro tot_ok_cong [OF Nil.prems(7)]) auto
  moreover have "unat (pb_tot_len pb + pb_tot_len tb) = unat (pb_len pb) + length (pbytes h bs)"
    using Nil.prems(6,8) pb(1) tl rd(2) by (simp add: unat_u16_add length_pdata)
  ultimately show ?case using st r by auto
next
  case (Cons n as)
  obtain tb bs' where tb: "hp_pbufs h t = Some tb" "bs = t # bs'" using Cons.prems(2) by (auto simp: chain_Some)
  obtain pb where pb: "hp_pbufs h a = Some pb" "pb_next pb = Some n" "chain h (Some n) (n # as)"
    using Cons.prems(1) by auto
  have na: "a \<notin> set bs" "a \<notin> set (n # as)"
    using Cons.prems(3) chain_distinct [OF Cons.prems(1)] by auto
  let ?h = "put_pbuf h a (pb\<lparr>pb_tot_len := pb_tot_len pb + pb_tot_len tb\<rparr>)"
  have r: "relinked {a} h ?h" using pb(1) by (auto intro: relinked_put)
  note rp = relinked_pbytes [OF r]
  have tk: "tot_ok ?h (n # as)" "tot_ok ?h bs"
    using Cons.prems(6,7) tot_ok_put_notin [OF na(1)] tot_ok_put_notin [OF na(2)] by (auto simp del: tot_ok.simps simp: tot_ok.simps(2) [of h a])
  have pre: "chain ?h (Some n) (n # as)" "chain ?h (Some t) bs" "set (n # as) \<inter> set bs = {}"
      "list_all (owned ?h) (n # as)" "list_all (owned ?h) bs"
    using Cons.prems pb(3) na rp(1) [of "n # as"] rp(1) [of bs]
      relinked_chain [OF r] by auto
  have "length (pbytes ?h (n # as)) + length (pbytes ?h bs) < 65536"
    using Cons.prems(4,5,8) rp(2) [of "n # as"] rp(2) [of bs] by simp
  from Cons.IH [OF pre tk this]
  obtain h' where h': "pbuf_cat_loop n t ?h = Some h'" "relinked (set (n # as)) ?h h'"
      "chain h' (Some n) (n # as @ bs)" "tot_ok h' (n # as @ bs)"
    by auto
  have R: "relinked (set (a # n # as)) h h'" using relinked_trans [OF r h'(2)] by (simp add: insert_commute)
  have ow: "list_all (owned h) (n # as @ bs)" using Cons.prems(4,5) by simp
  have tl: "unat (pb_tot_len tb) = length (pbytes h bs)" "unat (pb_tot_len pb) = length (pbytes h (a # n # as))"
    using tot_ok_length [of h t bs'] tot_ok_length [of h a "n # as"] tb pb(1) Cons.prems(4-7)
    by (auto simp: list_all_iff owned_readable)
  have a': "the_pbuf h' a = pb\<lparr>pb_tot_len := pb_tot_len pb + pb_tot_len tb\<rparr>"
    using relinked_the_pbuf [OF h'(2) na(2)] by simp
  have "tot_ok h' (a # (n # as) @ bs)"
  proof (subst tot_ok_alt)
    show "list_all (readable h') ((n # as) @ bs)"
      using relinked_pbytes(1) [OF R, of "(n # as) @ bs"] ow by (auto simp: list_all_iff owned_readable)
    have "length (pbytes h' ((n # as) @ bs)) = length (pbytes h ((n # as) @ bs))"
      using relinked_pbytes(2) [OF R, of "(n # as) @ bs"] ow by simp
    then show "unat (pb_tot_len (the_pbuf h' a)) = unat (pb_len (the_pbuf h' a)) + length (pbytes h' ((n # as) @ bs))
        \<and> tot_ok h' ((n # as) @ bs)"
      using h'(4) a' tl Cons.prems(4,8) pb(1) by (simp add: unat_u16_add length_pdata owned_readable)
  qed
  moreover have "chain h' (Some a) (a # (n # as) @ bs)"
    using h'(2,3) na(2) pb(2) by (auto simp: relinked_def)
  moreover have "pbuf_cat_loop a t h = Some h'" using pbuf_cat_loop_step(1) [OF pb(1) tb(1) pb(2)] h'(1) by simp
  ultimately show ?case using R by auto
qed

lemma pbuf_cat_spec:
  assumes "packet h p as" "packet h q bs" "set as \<inter> set bs = {}"
    and "length (pbytes h as) + length (pbytes h bs) < 65536"
  obtains h' where "pbuf_cat p q h = Some h'" "packet h' p (as @ bs)"
    "pbytes h' (as @ bs) = pbytes h as @ pbytes h bs" "relinked (set as) h h'"
proof -
  obtain a as' where a: "p = Some a" "as = a # as'" using packet_Some [OF assms(1)] by metis
  obtain b bs' where b: "q = Some b" "bs = b # bs'" using packet_Some [OF assms(2)] by metis
  obtain h' where h': "pbuf_cat_loop a b h = Some h'" "relinked (set as) h h'"
      "chain h' (Some a) (a # as' @ bs)" "tot_ok h' (a # as' @ bs)"
    using pbuf_cat_loop_spec [of h a as' b bs] assms a b by (auto simp: packet_def)
  have "list_all (owned h) (as @ bs)" using assms(1,2) by (simp add: packet_def)
  from relinked_pbytes [OF h'(2) this] show thesis
    using that [of h'] h' a b by (simp add: pbuf_cat_def packet_def)
qed


section \<open>Trimming a packet\<close>

lemma tot_ok_iff:
  assumes "list_all (readable h) as"
  shows "tot_ok h as \<longleftrightarrow> (\<forall>xs x ys. as = xs @ x # ys \<longrightarrow> unat (pb_tot_len (the_pbuf h x)) = length (pbytes h (x # ys)))"
  using assms
proof (induction as)
  case Nil
  then show ?case by simp
next
  case (Cons a as)
  have "unat (pb_tot_len (the_pbuf h x)) = length (pbytes h (x # ys))"
    if "tot_ok h (a # as)" "a # as = xs @ x # ys" for xs x ys
    using that Cons by (cases xs) (auto simp: length_pbytes length_pdata)
  moreover have "tot_ok h (a # as)"
    if *: "\<forall>xs x ys. a # as = xs @ x # ys \<longrightarrow> unat (pb_tot_len (the_pbuf h x)) = length (pbytes h (x # ys))"
  proof -
    have "\<forall>xs x ys. as = xs @ x # ys \<longrightarrow> unat (pb_tot_len (the_pbuf h x)) = length (pbytes h (x # ys))"
      using * by (metis append_Cons)
    then have "tot_ok h as" using Cons by simp
    moreover have "unat (pb_tot_len (the_pbuf h a)) = length (pbytes h (a # as))" using * by (metis append_Nil)
    ultimately show ?thesis using Cons.prems by (simp add: length_pbytes length_pdata)
  qed
  ultimately show ?case by blast
qed

lemma pbuf_realloc_walk_step:
  assumes "hp_pbufs h a = Some pb"
  shows "pbuf_realloc_walk (Some a) n s h = (if n > pb_len pb
     then pbuf_realloc_walk (pb_next pb) (n - pb_len pb) s (put_pbuf h a (pb\<lparr>pb_tot_len := pb_tot_len pb - s\<rparr>))
     else Some (a, n, h))"
  using assms by (subst pbuf_realloc_walk.simps) simp

text \<open>The walk stops in the pbuf that holds the new end; the pbufs before it have new totals.\<close>

definition shrunk :: "addr list \<Rightarrow> u16 \<Rightarrow> heap \<Rightarrow> heap \<Rightarrow> bool" where
  "shrunk pre s h h' \<longleftrightarrow> h'\<lparr>hp_pbufs := Map.empty\<rparr> = h\<lparr>hp_pbufs := Map.empty\<rparr>
     \<and> (\<forall>x. hp_pbufs h' x = (if x \<in> set pre
          then map_option (\<lambda>pb. pb\<lparr>pb_tot_len := pb_tot_len pb - s\<rparr>) (hp_pbufs h x) else hp_pbufs h x))"

lemma pbuf_realloc_walk_spec:
  assumes "chain h p as" "list_all (owned h) as" "unat n \<le> length (pbytes h as)" "as \<noteq> []"
  shows "\<exists>pre a post m h'. as = pre @ a # post \<and> pbuf_realloc_walk p n s h = Some (a, m, h')
    \<and> shrunk pre s h h' \<and> unat n = length (pbytes h pre) + unat m \<and> unat m \<le> unat (pb_len (the_pbuf h a))"
  using assms
proof (induction as arbitrary: p n h)
  case Nil
  then show ?case by simp
next
  case (Cons a as)
  obtain pb where pb: "p = Some a" "hp_pbufs h a = Some pb" "chain h (pb_next pb) as" using Cons.prems(1) by auto
  have na: "a \<notin> set as" using chain_distinct [OF Cons.prems(1)] by simp
  have len: "length (pdata h a) = unat (pb_len pb)"
    using Cons.prems(2) pb(2) length_pdata [of h a] by (simp add: owned_readable)
  show ?case
  proof (cases "n > pb_len pb")
    case False
    then show ?thesis
      using pb pbuf_realloc_walk_step [OF pb(2), of n s]
      by (intro exI [of _ "[]"] exI [of _ a] exI [of _ as] exI [of _ n] exI [of _ h])
        (simp add: shrunk_def word_less_nat_alt)
  next
    case True
    let ?h = "put_pbuf h a (pb\<lparr>pb_tot_len := pb_tot_len pb - s\<rparr>)"
    have r: "relinked {a} h ?h" using pb(2) by (auto intro: relinked_put)
    have o: "list_all (owned ?h) as" "pbytes ?h as = pbytes h as"
      using relinked_pbytes [OF r, of as] Cons.prems(2) by simp_all
    have u: "unat (n - pb_len pb) = unat n - unat (pb_len pb)"
      using True by (intro unat_u16_sub) (simp add: word_less_nat_alt)
    have le: "unat (n - pb_len pb) \<le> length (pbytes ?h as)" using Cons.prems(3) len u o(2) by simp
    have ne: "as \<noteq> []" using Cons.prems(3) len True by (auto simp: word_less_nat_alt)
    have c: "chain ?h (pb_next pb) as" using pb(3) na by simp
    obtain pre b post m h' where *: "as = pre @ b # post"
        "pbuf_realloc_walk (pb_next pb) (n - pb_len pb) s ?h = Some (b, m, h')" "shrunk pre s ?h h'"
        "unat (n - pb_len pb) = length (pbytes ?h pre) + unat m" "unat m \<le> unat (pb_len (the_pbuf ?h b))"
      using Cons.IH [OF c o(1) le ne] by blast
    have "a \<notin> set pre" "b \<noteq> a" using na *(1) by auto
    then have "shrunk (a # pre) s h h'" using *(3) pb(2) by (auto simp: shrunk_def put_pbuf_def)
    moreover have "unat n = length (pbytes h (a # pre)) + unat m"
      using *(1,4) u len True relinked_pbytes(2) [OF r, of pre] Cons.prems(2)
      by (simp add: word_less_nat_alt)
    moreover have "pbuf_realloc_walk p n s h = Some (b, m, h')"
      using pbuf_realloc_walk_step [OF pb(2), of n s] True *(2) pb(1) by simp
    ultimately show ?thesis
      using * \<open>b \<noteq> a\<close> by (intro exI [of _ "a # pre"] exI [of _ b] exI [of _ post] exI [of _ m] exI [of _ h']) simp
  qed
qed


text \<open>A heap with the pbufs of the front part relabelled holds the front part of the packet.\<close>

lemma trimmed_packet:
  assumes pk: "packet h p (pre @ a # post)" and n: "unat n = length (pbytes h pre) + unat m"
    and m: "unat m \<le> unat (pb_len (the_pbuf h a))" and s: "unat s = length (pbytes h (pre @ a # post)) - unat n"
    and F1: "\<And>x. x \<in> set pre \<Longrightarrow> hp_pbufs h' x = Some ((the_pbuf h x)\<lparr>pb_tot_len := pb_tot_len (the_pbuf h x) - s\<rparr>)"
    and F2: "hp_pbufs h' a = Some ((the_pbuf h a)\<lparr>pb_len := m, pb_tot_len := m, pb_next := None\<rparr>)"
    and F4: "\<And>x. x \<in> set pre \<union> {a} \<Longrightarrow> hp_blocks h' x = hp_blocks h x"
  shows "packet h' p (pre @ [a])" "pbytes h' (pre @ [a]) = take (unat n) (pbytes h (pre @ a # post))"
proof -
  have ow: "owned h x" if "x \<in> set (pre @ a # post)" for x using pk that by (auto simp: packet_def list_all_iff)
  have ch: "chain h p (pre @ a # post)" and tot: "tot_ok h (pre @ a # post)" using pk by (simp_all add: packet_def)
  have rd: "list_all (readable h) (pre @ a # post)" by (rule packet_readable [OF pk])
  have op: "owned h' x \<and> pdata h' x = pdata h x" if x: "x \<in> set pre" for x
  proof -
    obtain pb off bs where pb: "hp_pbufs h x = Some pb" "pb_payload pb = Some (x, off)" "hp_blocks h x = Some bs"
        "off + unat (pb_len pb) \<le> length bs" "pdata h x = seg off (unat (pb_len pb)) bs"
      using owned_pbuf [OF ow [of x]] x by auto
    then show ?thesis
      using F1 [OF x] F4 [of x] x pdata_readable [of h' x "pb\<lparr>pb_tot_len := pb_tot_len pb - s\<rparr>" x off bs]
      by (auto simp: owned_def)
  qed
  have oa: "owned h' a \<and> pdata h' a = take (unat m) (pdata h a)"
  proof -
    obtain pb off bs where pb: "hp_pbufs h a = Some pb" "pb_payload pb = Some (a, off)" "hp_blocks h a = Some bs"
        "off + unat (pb_len pb) \<le> length bs" "pdata h a = seg off (unat (pb_len pb)) bs"
      using owned_pbuf [OF ow [of a]] by auto
    then show ?thesis
      using F2 F4 [of a] m pdata_readable [OF F2, of a off bs]
      by (auto simp: owned_def take_seg min_absorb1)
  qed
  have by_pre: "pbytes h' ys = pbytes h ys" if "set ys \<subseteq> set pre" for ys
    using op that by (intro pbytes_cong) auto
  have ow': "list_all (owned h') (pre @ [a])" using op oa by (simp add: list_all_iff)
  show b: "pbytes h' (pre @ [a]) = take (unat n) (pbytes h (pre @ a # post))"
    using n m oa by_pre [of pre] rd by (simp add: length_pdata)
  have "chain h' p (pre @ [a])"
    using ch F1 F2
  proof (induction pre arbitrary: p)
    case (Cons x xs)
    then show ?case by force
  qed simp
  moreover have "tot_ok h' (pre @ [a])"
  proof (subst tot_ok_iff)
    show "list_all (readable h') (pre @ [a])" using ow' by (auto simp: list_all_iff owned_readable)
    show "\<forall>xs x ys. pre @ [a] = xs @ x # ys \<longrightarrow> unat (pb_tot_len (the_pbuf h' x)) = length (pbytes h' (x # ys))"
    proof (intro allI impI)
      fix xs x ys assume sp: "pre @ [a] = xs @ x # ys"
      show "unat (pb_tot_len (the_pbuf h' x)) = length (pbytes h' (x # ys))"
      proof (cases ys rule: rev_cases)
        case Nil
        then show ?thesis using sp F2 oa m rd by (simp add: length_pdata)
      next
        case (snoc zs z)
        then have pre: "pre = xs @ x # zs" "z = a" using sp by auto
        then have "pre @ a # post = xs @ x # (zs @ a # post)" by simp
        then have t: "unat (pb_tot_len (the_pbuf h x)) = length (pbytes h (x # zs @ a # post))"
          using tot [unfolded tot_ok_iff [OF rd]] by blast
        have len: "length (pdata h a) = unat (pb_len (the_pbuf h a))" using rd by (simp add: length_pdata)
        have "unat (pb_tot_len (the_pbuf h x) - s) = length (pbytes h (x # zs)) + unat m"
          using t s n m pre len by (subst unat_u16_sub) auto
        moreover have "pdata h' x = pdata h x" "pbytes h' zs = pbytes h zs"
          using op [of x] by_pre [of zs] pre by auto
        ultimately show ?thesis using F1 [of x] pre snoc oa m len by simp
      qed
    qed
  qed
  ultimately show "packet h' p (pre @ [a])" using ow' by (simp add: packet_def)
qed

lemma released_frame:
  "x \<notin> set as \<Longrightarrow> hp_pbufs (released h as) x = hp_pbufs h x \<and> hp_blocks (released h as) x = hp_blocks h x"
  by (induction as arbitrary: h) (auto simp: Let_def)

lemma released_env:
  "(released h as)\<lparr>hp_pbufs := Map.empty, hp_blocks := Map.empty\<rparr> = h\<lparr>hp_pbufs := Map.empty, hp_blocks := Map.empty\<rparr>"
  by (induction as arbitrary: h) (auto simp: Let_def free_pbuf_def put_pbuf_def)

lemma pbuf_realloc_keep:
  assumes "packet h p as" "length (pbytes h as) \<le> unat n"
  shows "pbuf_realloc p n h = Some h"
proof -
  obtain a pb where "p = Some a" "hp_pbufs h a = Some pb" "unat (pb_tot_len pb) = length (pbytes h as)"
    using packet_Some [OF assms(1)] by metis
  then show ?thesis using assms(2) by (simp add: pbuf_realloc_def word_le_nat_alt)
qed

lemma mem_trim_if: "(if c then mem_trim a n else a) = a"
  by (simp add: mem_trim_def)

text \<open>
  What the loop and the tail of \<open>pbuf_realloc\<close> do to the heap: the pbufs \<open>pre\<close> lose \<open>s\<close> bytes of their totals, \<open>a\<close>
  keeps \<open>m\<close> bytes and is the last one, and the rest \<open>post\<close> is released.
\<close>

definition realloc_frame :: "addr list \<Rightarrow> addr \<Rightarrow> addr list \<Rightarrow> u16 \<Rightarrow> u16 \<Rightarrow> heap \<Rightarrow> heap \<Rightarrow> bool" where
  "realloc_frame pre a post m s h h' \<longleftrightarrow>
     (\<forall>x \<in> set pre. hp_pbufs h' x = Some ((the_pbuf h x)\<lparr>pb_tot_len := pb_tot_len (the_pbuf h x) - s\<rparr>))
     \<and> hp_pbufs h' a = Some ((the_pbuf h a)\<lparr>pb_len := m, pb_tot_len := m, pb_next := None\<rparr>)
     \<and> (\<forall>x \<in> set pre \<union> {a}. hp_blocks h' x = hp_blocks h x) \<and> same_on (- set (pre @ a # post)) h h'
     \<and> (list_all (sole h) (pre @ a # post) \<longrightarrow> (\<forall>x \<in> set post. hp_pbufs h' x = None)
          \<and> without h' (set (pre @ [a])) = without h (set (pre @ a # post)))"

lemma realloc_frame_released:
  assumes sh: "shrunk pre s h h1" and d: "distinct (pre @ a # post)" and live: "\<forall>x \<in> set pre. hp_pbufs h x \<noteq> None"
    and qb: "hp_pbufs h a = Some qb"
    and h2: "h2 = put_pbuf h1 a (qb\<lparr>pb_len := m, pb_tot_len := m\<rparr>)"
    and h': "h' = put_pbuf (released h2 post) a (qb\<lparr>pb_len := m, pb_tot_len := m, pb_next := None\<rparr>)"
  shows "realloc_frame pre a post m s h h'"
proof -
  have e: "h1\<lparr>hp_pbufs := Map.empty\<rparr> = h\<lparr>hp_pbufs := Map.empty\<rparr>" using sh by (simp add: shrunk_def)
  from arg_cong [OF e, of hp_blocks] have blk1: "hp_blocks h1 = hp_blocks h" by simp
  have out: "hp_pbufs h' x = hp_pbufs h1 x \<and> hp_blocks h' x = hp_blocks h x" if "x \<notin> set post" "x \<noteq> a" for x
    using released_frame [OF that(1), of h2] that(2) blk1 by (simp add: h' h2)
  have blka: "hp_blocks h' a = hp_blocks h a"
    using released_frame [of a post h2] d blk1 by (simp add: h' h2)
  have "hp_pbufs h' x = Some ((the_pbuf h x)\<lparr>pb_tot_len := pb_tot_len (the_pbuf h x) - s\<rparr>)" if x: "x \<in> set pre" for x
  proof -
    obtain pb where "hp_pbufs h x = Some pb" using live x by blast
    then show ?thesis using out [of x] sh x d by (auto simp: shrunk_def)
  qed
  moreover have "hp_blocks h' x = hp_blocks h x" if "x \<in> set pre \<union> {a}" for x
    using that out [of x] blka d by auto
  moreover have "same_on (- set (pre @ a # post)) h h'" using out sh by (auto simp: same_on_def shrunk_def)
  moreover have "(\<forall>x \<in> set post. hp_pbufs h' x = None) \<and> without h' (set (pre @ [a])) = without h (set (pre @ a # post))"
    if so: "list_all (sole h) (pre @ a # post)"
  proof -
    have "hp_pbufs h2 x = hp_pbufs h x" if "x \<in> set post" for x using that d sh by (auto simp: h2 shrunk_def)
    then have "list_all (sole h2) post" using so by (auto simp: list_all_iff sole_def)
    then have h3: "released h2 post = without h2 (set post)" using released_sole [of h2 post] d by simp
    note h'3 = h' [unfolded h3, unfolded h2]
    have e1: "h1 = h\<lparr>hp_pbufs := hp_pbufs h1\<rparr>" using e by (cases h, cases h1) simp
    have o: "hp_pbufs h1 x = hp_pbufs h x" if "x \<notin> set (pre @ a # post)" for x using sh that by (simp add: shrunk_def)
    have "(hp_pbufs h' |` (- set (pre @ [a]))) x = (hp_pbufs h |` (- set (pre @ a # post))) x" for x
      using o [of x] d by (auto simp: h'3 restrict_map_def)
    moreover have "(hp_blocks h' |` (- set (pre @ [a]))) x = (hp_blocks h |` (- set (pre @ a # post))) x" for x
      using blk1 d by (auto simp: h'3 restrict_map_def)
    moreover have "h'\<lparr>hp_pbufs := Map.empty, hp_blocks := Map.empty\<rparr> = h\<lparr>hp_pbufs := Map.empty, hp_blocks := Map.empty\<rparr>"
      unfolding h'3 by (subst e1) (simp add: without_def put_pbuf_def)
    ultimately have "without h' (set (pre @ [a])) = without h (set (pre @ a # post))"
      by (cases h, cases h') (simp add: without_def fun_eq_iff)
    then show ?thesis using d by (auto simp: h'3)
  qed
  ultimately show ?thesis using qb by (simp add: realloc_frame_def h')
qed

lemma pbuf_realloc_run:
  assumes pk: "packet h p as" and lv: "list_all (live h) as" and n: "unat n < length (pbytes h as)"
  obtains h' pre a post m s where "as = pre @ a # post" "pbuf_realloc p n h = Some h'" "realloc_frame pre a post m s h h'"
    "unat n = length (pbytes h pre) + unat m" "unat m \<le> unat (pb_len (the_pbuf h a))" "unat s = length (pbytes h as) - unat n"
proof -
  obtain a0 pb0 where p0: "p = Some a0" "hp_pbufs h a0 = Some pb0"
      and tot: "unat (pb_tot_len pb0) = length (pbytes h as)"
    using packet_Some [OF pk] by metis
  define s where "s = pb_tot_len pb0 - n"
  have us: "unat s = length (pbytes h as) - unat n" using n tot by (simp add: s_def unat_u16_sub)
  have c: "chain h p as" "list_all (owned h) as" "as \<noteq> []" using pk by (simp_all add: packet_def)
  obtain pre a post m h1 where as: "as = pre @ a # post" and w: "pbuf_realloc_walk p n s h = Some (a, m, h1)"
      and sh: "shrunk pre s h h1" and nm: "unat n = length (pbytes h pre) + unat m"
      and m: "unat m \<le> unat (pb_len (the_pbuf h a))"
    using pbuf_realloc_walk_spec [OF c(1,2) _ c(3), of n s] n by (metis less_imp_le)
  have d: "distinct (pre @ a # post)" using chain_distinct [OF c(1)] as by simp
  have live: "\<forall>x \<in> set (pre @ [a]). hp_pbufs h x \<noteq> None" using chain_live [OF c(1)] as by fastforce
  then obtain qb where qb: "hp_pbufs h a = Some qb" by auto
  have cq: "chain h (pb_next qb) post" using chain_suffix [of h p pre a post] c(1) as qb by simp
  have qb1: "hp_pbufs h1 a = Some qb" using sh d qb by (simp add: shrunk_def)
  define h2 where "h2 = put_pbuf h1 a (qb\<lparr>pb_len := m, pb_tot_len := m\<rparr>)"
  have h2: "hp_pbufs h2 x = hp_pbufs h x" if "x \<in> set post" for x
    using that d sh by (auto simp: h2_def shrunk_def)
  have c2: "chain h2 (pb_next qb) post" using h2 by (intro chain_cong [OF cq]) simp
  have lv2: "list_all (live h2) post" using lv as h2 by (auto simp: list_all_iff live_def)
  have fr: "(if pb_next qb \<noteq> None then map_option snd (pbuf_free (pb_next qb) h2) else Some h2) = Some (released h2 post)"
  proof (cases "post = []")
    case True
    then show ?thesis using cq by simp
  next
    case False
    then have "pb_next qb \<noteq> None" using cq by (cases post) auto
    then show ?thesis using pbuf_free_spec [OF c2 False lv2] by simp
  qed
  have a3: "hp_pbufs (released h2 post) a = Some (qb\<lparr>pb_len := m, pb_tot_len := m\<rparr>)"
    using released_frame [of a post h2] d by (simp add: h2_def)
  let ?h' = "put_pbuf (released h2 post) a (qb\<lparr>pb_len := m, pb_tot_len := m, pb_next := None\<rparr>)"
  have "\<not> pb_tot_len pb0 \<le> n" using n tot by (simp add: word_le_nat_alt)
  then have run: "pbuf_realloc p n h = Some ?h'"
    using p0 w qb1 fr [unfolded h2_def] a3 [unfolded h2_def]
    by (simp add: pbuf_realloc_def mem_trim_if Let_def h2_def s_def [symmetric]
        del: map_option_eq_Some split del: if_split)
  have "realloc_frame pre a post m s h ?h'"
    by (rule realloc_frame_released [OF sh d _ qb h2_def refl]) (use live in simp)
  then show thesis using that [OF as run] nm m us by blast
qed

lemma pbuf_realloc_trim:
  assumes pk: "packet h p as" and lv: "list_all (live h) as" and n: "unat n < length (pbytes h as)"
  obtains h' pre a post where "as = pre @ a # post" "pbuf_realloc p n h = Some h'" "packet h' p (pre @ [a])"
    "pbytes h' (pre @ [a]) = take (unat n) (pbytes h as)" "same_on (- set as) h h'"
    "list_all (sole h) as \<Longrightarrow> list_all (sole h') (pre @ [a]) \<and> (\<forall>x \<in> set post. hp_pbufs h' x = None)"
    "\<forall>x \<in> set (pre @ [a]). hp_blocks h' x = hp_blocks h x \<and> pb_payload (the_pbuf h' x) = pb_payload (the_pbuf h x)"
    "\<forall>x. p = Some x \<longrightarrow> pb_len (the_pbuf h' x) = min (pb_len (the_pbuf h x)) n"
    "list_all (sole h) as \<Longrightarrow> without h' (set (pre @ [a])) = without h (set as)"
proof -
  obtain h' pre a post m s where as: "as = pre @ a # post" and run: "pbuf_realloc p n h = Some h'"
    and fr: "realloc_frame pre a post m s h h'" and nm: "unat n = length (pbytes h pre) + unat m"
    and m: "unat m \<le> unat (pb_len (the_pbuf h a))" and us: "unat s = length (pbytes h as) - unat n"
    by (rule pbuf_realloc_run [OF assms])
  have F1: "hp_pbufs h' x = Some ((the_pbuf h x)\<lparr>pb_tot_len := pb_tot_len (the_pbuf h x) - s\<rparr>)" if "x \<in> set pre" for x
    using fr that by (simp add: realloc_frame_def)
  have F2: "hp_pbufs h' a = Some ((the_pbuf h a)\<lparr>pb_len := m, pb_tot_len := m, pb_next := None\<rparr>)"
    using fr by (simp add: realloc_frame_def)
  have F4: "hp_blocks h' x = hp_blocks h x" if "x \<in> set pre \<union> {a}" for x using fr that by (auto simp: realloc_frame_def)
  note tp = trimmed_packet [OF pk [unfolded as] nm m us [unfolded as] F1 F2 F4]
  have sole: "list_all (sole h') (pre @ [a])" if so: "list_all (sole h) as"
  proof -
    have "sole h' x" if "x \<in> set (pre @ [a])" for x
    proof -
      have "sole h x" using so as that by (auto simp: list_all_iff)
      from sole_the [OF this] show ?thesis using F1 F2 that by (auto simp: sole_def)
    qed
    then show ?thesis by (simp add: list_all_iff)
  qed
  have len: "pb_len (the_pbuf h' x) = min (pb_len (the_pbuf h x)) n" if p: "p = Some x" for x
  proof (cases pre)
    case Nil
    then have "x = a" "n = m" using packet_chain [OF pk] as p nm by (simp_all add: u16_eq_unat)
    moreover have "m \<le> pb_len (the_pbuf h a)" using m by (simp add: word_le_nat_alt)
    ultimately show ?thesis using F2 by (simp add: the_pbuf_def [of h'] min_absorb2)
  next
    case (Cons y ys)
    then have y: "y = x" "x \<in> set pre" "x \<in> set as" using packet_chain [OF pk] as p by auto
    have "owned h x" using pk y(3) by (simp add: list_all_iff packet_def)
    then have "unat (pb_len (the_pbuf h x)) = length (pdata h x)" using length_pdata [OF owned_readable] by simp
    then have "unat (pb_len (the_pbuf h x)) \<le> unat n" using nm Cons y(1) by simp
    then show ?thesis using F1 [OF y(2)] by (simp add: the_pbuf_def [of h'] min_def word_le_nat_alt)
  qed
  have pay: "\<forall>x \<in> set (pre @ [a]). hp_blocks h' x = hp_blocks h x \<and> pb_payload (the_pbuf h' x) = pb_payload (the_pbuf h x)"
    using F1 F2 F4 by (auto simp: the_pbuf_def)
  show thesis
    by (rule that [OF as run tp(1)]) (use tp(2) as fr sole len pay in \<open>simp_all add: realloc_frame_def\<close>)
qed

end
