(* ===== verification/Inet_Chksum.thy ===== *)
theory Inet_Chksum
  imports Def Pbuf_Mut
begin

unbundle bit_operations_syntax

text \<open>
  The Internet checksum of \<open>lwip/core/inet_chksum.c\<close> (algorithm 2, little endian host): the sum
  over a buffer at an even or odd address, over a chain of pbufs, and with the pseudo header of
  UDP and TCP.  Blocks are aligned, so the parity of an address is the parity of its offset in
  the block (\<open>sizeof(struct pbuf)\<close> is even).  Checksums are in the order in which they are
  stored in the header, as in the code.
\<close>

section \<open>The code\<close>

definition FOLD_U32T :: "u32 \<Rightarrow> u32" where
  "FOLD_U32T u = drop_bit 16 u + (u AND 0x0000FFFF)"

definition SWAP_BYTES_IN_WORD :: "u32 \<Rightarrow> u32" where
  "SWAP_BYTES_IN_WORD w = push_bit 8 (w AND 0xFF) OR drop_bit 8 (w AND 0xFF00)"

text \<open>A little endian 16 bit word in memory.\<close>

definition le16 :: "byte \<Rightarrow> byte \<Rightarrow> u32" where
  "le16 a b = of_nat (unat a + 256 * unat b)"

fun sum_words :: "byte list \<Rightarrow> u32 \<Rightarrow> u32 \<times> byte list" where
  "sum_words (a # b # ps) acc = sum_words ps (acc + le16 a b)"
| "sum_words ps acc = (acc, ps)"

definition lwip_standard_chksum :: "bool \<Rightarrow> byte list \<Rightarrow> u16" where
  "lwip_standard_chksum is_odd dataptr =
     (let (t1, pb) = (if is_odd \<and> dataptr \<noteq> [] then (hd dataptr, tl dataptr) else (0, dataptr));
          (acc, ps) = sum_words pb 0;
          t0 = (if ps \<noteq> [] then hd ps else 0);
          acc = acc + le16 t0 t1;
          acc = FOLD_U32T acc;
          acc = FOLD_U32T acc;
          acc = (if is_odd then SWAP_BYTES_IN_WORD acc else acc)
      in ucast acc)"

definition payload_odd :: "ptr option \<Rightarrow> bool" where
  "payload_odd p = (case p of None \<Rightarrow> False | Some (b, off) \<Rightarrow> odd off)"

text \<open>The loop over the pbufs that \<open>inet_cksum_pseudo_base\<close> and \<open>inet_chksum_pbuf\<close> share.\<close>

partial_function (option) chksum_loop :: "addr option \<Rightarrow> bool \<Rightarrow> u32 \<Rightarrow> heap \<Rightarrow> (bool \<times> u32) option" where
  "chksum_loop q swapped acc h = (case q of
      None \<Rightarrow> Some (swapped, acc)
    | Some a \<Rightarrow> do {
        qb \<leftarrow> hp_pbufs h a;
        xs \<leftarrow> mem_read h (pb_payload qb) 0 (unat (pb_len qb));
        let acc = acc + ucast (lwip_standard_chksum (payload_odd (pb_payload qb)) xs);
        let acc = FOLD_U32T acc;
        if odd (unat (pb_len qb))
        then chksum_loop (pb_next qb) (\<not> swapped) (SWAP_BYTES_IN_WORD acc) h
        else chksum_loop (pb_next qb) swapped acc h
      })"

definition inet_cksum_pseudo_base :: "addr option \<Rightarrow> u8 \<Rightarrow> u16 \<Rightarrow> u32 \<Rightarrow> heap \<Rightarrow> u16 option" where
  "inet_cksum_pseudo_base p proto proto_len acc h = do {
     (swapped, acc) \<leftarrow> chksum_loop p False acc h;
     let acc = (if swapped then SWAP_BYTES_IN_WORD acc else acc);
     let acc = acc + ucast (lwip_htons (ucast proto));
     let acc = acc + ucast (lwip_htons proto_len);
     let acc = FOLD_U32T acc;
     let acc = FOLD_U32T acc;
     Some (ucast (NOT (acc AND 0xFFFF)))
   }"

text \<open>The two addresses of the pseudo header, folded.\<close>

definition pseudo_addrs :: "u32 \<Rightarrow> u32 \<Rightarrow> u32" where
  "pseudo_addrs src dest =
     (let acc = src AND 0xFFFF;
          acc = acc + (drop_bit 16 src AND 0xFFFF);
          acc = acc + (dest AND 0xFFFF);
          acc = acc + (drop_bit 16 dest AND 0xFFFF);
          acc = FOLD_U32T acc
      in FOLD_U32T acc)"

definition inet_chksum_pseudo :: "addr option \<Rightarrow> u8 \<Rightarrow> u16 \<Rightarrow> u32 \<Rightarrow> u32 \<Rightarrow> heap \<Rightarrow> u16 option" where
  "inet_chksum_pseudo p proto proto_len src dest h =
     inet_cksum_pseudo_base p proto proto_len (pseudo_addrs src dest) h"

definition ip_chksum_pseudo :: "addr option \<Rightarrow> u8 \<Rightarrow> u16 \<Rightarrow> u32 \<Rightarrow> u32 \<Rightarrow> heap \<Rightarrow> u16 option" where
  "ip_chksum_pseudo p proto proto_len src dest h = inet_chksum_pseudo p proto proto_len src dest h"

text \<open>The loop of the partial checksum, with its assertion on the remaining length.\<close>

partial_function (option) chksum_partial_loop ::
    "addr option \<Rightarrow> u16 \<Rightarrow> bool \<Rightarrow> u32 \<Rightarrow> heap \<Rightarrow> (bool \<times> u32) option" where
  "chksum_partial_loop q chksum_len swapped acc h =
     (if q \<noteq> None \<and> chksum_len > 0 then do {
        a \<leftarrow> q;
        qb \<leftarrow> hp_pbufs h a;
        let chklen = (if pb_len qb > chksum_len then chksum_len else pb_len qb);
        xs \<leftarrow> mem_read h (pb_payload qb) 0 (unat chklen);
        let acc = acc + ucast (lwip_standard_chksum (payload_odd (pb_payload qb)) xs);
        let chksum_len = chksum_len - chklen;
        lwip_assert (chksum_len < 0x7FFF);
        let acc = FOLD_U32T acc;
        if odd (unat (pb_len qb))
        then chksum_partial_loop (pb_next qb) chksum_len (\<not> swapped) (SWAP_BYTES_IN_WORD acc) h
        else chksum_partial_loop (pb_next qb) chksum_len swapped acc h
      } else Some (swapped, acc))"

definition inet_cksum_pseudo_partial_base :: "addr option \<Rightarrow> u8 \<Rightarrow> u16 \<Rightarrow> u16 \<Rightarrow> u32 \<Rightarrow> heap \<Rightarrow> u16 option" where
  "inet_cksum_pseudo_partial_base p proto proto_len chksum_len acc h = do {
     (swapped, acc) \<leftarrow> chksum_partial_loop p chksum_len False acc h;
     let acc = (if swapped then SWAP_BYTES_IN_WORD acc else acc);
     let acc = acc + ucast (lwip_htons (ucast proto));
     let acc = acc + ucast (lwip_htons proto_len);
     let acc = FOLD_U32T acc;
     let acc = FOLD_U32T acc;
     Some (ucast (NOT (acc AND 0xFFFF)))
   }"

definition inet_chksum_pseudo_partial :: "addr option \<Rightarrow> u8 \<Rightarrow> u16 \<Rightarrow> u16 \<Rightarrow> u32 \<Rightarrow> u32 \<Rightarrow> heap \<Rightarrow> u16 option" where
  "inet_chksum_pseudo_partial p proto proto_len chksum_len src dest h =
     inet_cksum_pseudo_partial_base p proto proto_len chksum_len (pseudo_addrs src dest) h"

definition ip_chksum_pseudo_partial :: "addr option \<Rightarrow> u8 \<Rightarrow> u16 \<Rightarrow> u16 \<Rightarrow> u32 \<Rightarrow> u32 \<Rightarrow> heap \<Rightarrow> u16 option" where
  "ip_chksum_pseudo_partial p proto proto_len chksum_len src dest h =
     inet_chksum_pseudo_partial p proto proto_len chksum_len src dest h"

definition inet_chksum :: "bool \<Rightarrow> byte list \<Rightarrow> u16" where
  "inet_chksum is_odd dataptr = NOT (lwip_standard_chksum is_odd dataptr)"

definition inet_chksum_pbuf :: "addr option \<Rightarrow> heap \<Rightarrow> u16 option" where
  "inet_chksum_pbuf p h = do {
     (swapped, acc) \<leftarrow> chksum_loop p False 0 h;
     let acc = (if swapped then SWAP_BYTES_IN_WORD acc else acc);
     Some (ucast (NOT (acc AND 0xFFFF)))
   }"

section \<open>One's complement arithmetic\<close>

text \<open>The number a byte string stands for, little endian.\<close>

fun le_val :: "byte list \<Rightarrow> nat" where
  "le_val [] = 0"
| "le_val (b # bs) = unat b + 256 * le_val bs"

text \<open>The one's complement sum of a number of any size: its residue, with 0 only for 0.\<close>

definition ones :: "nat \<Rightarrow> nat" where
  "ones n = (if n = 0 then 0 else (n - 1) mod 65535 + 1)"

text \<open>Equal as one's complement sums.\<close>

definition oc :: "nat \<Rightarrow> nat \<Rightarrow> bool" where
  "oc m n \<longleftrightarrow> m mod 65535 = n mod 65535 \<and> (m = 0 \<longleftrightarrow> n = 0)"

lemma oc_refl [simp]: "oc n n"
  by (simp add: oc_def)

lemma oc_sym: "oc m n \<Longrightarrow> oc n m"
  by (auto simp: oc_def)

lemma oc_trans [trans]: "oc l m \<Longrightarrow> oc m n \<Longrightarrow> oc l n"
  by (auto simp: oc_def)

lemma oc_add: "oc a x \<Longrightarrow> oc b y \<Longrightarrow> oc (a + b) (x + y)"
  unfolding oc_def by (metis add_is_0 mod_add_cong)

lemma oc_mult: "oc a x \<Longrightarrow> 0 < k \<Longrightarrow> oc (k * a) (k * x)"
  unfolding oc_def by (metis mod_mult_cong mult_is_0 neq0_conv)

lemma oc_65536 [simp]: "oc (65536 * x) x"
proof -
  have "65536 * x = x + 65535 * x" by simp
  then have "65536 * x mod 65535 = x mod 65535" by (metis mod_mult_self2)
  then show ?thesis by (simp add: oc_def)
qed

lemma oc_256_256: "oc (256 * (256 * x)) x"
  using oc_65536 [of x] by simp

lemma oc_pow: "even k \<Longrightarrow> oc (256 ^ k * x) x" "odd k \<Longrightarrow> oc (256 ^ k * x) (256 * x)"
proof -
  have ev: "oc (256 ^ (2 * j) * x) x" for j x
  proof (induction j)
    case (Suc j)
    have "(256 :: nat) ^ (2 * Suc j) * x = 65536 * (256 ^ (2 * j) * x)" by simp
    then show ?case using oc_trans [OF oc_65536 Suc] by (simp only:)
  qed simp
  show "even k \<Longrightarrow> oc (256 ^ k * x) x" using ev by (auto elim!: evenE)
  show "odd k \<Longrightarrow> oc (256 ^ k * x) (256 * x)"
  proof -
    assume "odd k"
    then obtain j where k: "k = 2 * j + 1" by (auto elim!: oddE)
    have "256 ^ k * x = 256 ^ (2 * j) * (256 * x)" unfolding k by simp
    then show ?thesis using ev [of j "256 * x"] by (simp only:)
  qed
qed

lemma oc_ones: "oc n (ones n)"
proof (cases n)
  case (Suc m)
  have "(m mod 65535 + 1) mod 65535 = (m + 1) mod 65535" by (simp add: mod_Suc_eq)
  then show ?thesis using Suc by (simp add: oc_def ones_def)
qed (simp add: ones_def)

lemma ones_le: "ones n \<le> 65535"
proof -
  have "(n - 1) mod 65535 < 65535" by simp
  then have "(n - 1) mod 65535 + 1 \<le> 65535" by linarith
  then show ?thesis unfolding ones_def by simp
qed

lemma oc_unique:
  assumes "oc m n" "m \<le> 65535" "n \<le> 65535"
  shows "m = n"
proof (cases "m = 0 \<or> n = 0")
  case True
  then show ?thesis using assms by (auto simp: oc_def)
next
  case False
  have "k mod 65535 = (if k = 65535 then 0 else k)" if "k \<le> 65535" for k :: nat using that by auto
  then show ?thesis using assms False by (auto simp: oc_def split: if_splits)
qed

lemma oc_onesI: "oc m n \<Longrightarrow> m \<le> 65535 \<Longrightarrow> m = ones n"
  using oc_unique [of m "ones n"] oc_trans [OF _ oc_ones] ones_le by simp

lemma ones_cong: "oc m n \<Longrightarrow> ones m = ones n"
  using oc_onesI [of "ones m" n] oc_trans [OF oc_sym [OF oc_ones]] ones_le by simp

lemma oc_fold: "oc (u div 65536 + u mod 65536) u"
proof -
  have "u = 65536 * (u div 65536) + u mod 65536" by simp
  then show ?thesis using oc_add [OF oc_sym [OF oc_65536 [of "u div 65536"]] oc_refl [of "u mod 65536"]] by simp
qed

lemma le_val_append: "le_val (xs @ ys) = le_val xs + 256 ^ length xs * le_val ys"
  by (induction xs) (simp_all add: algebra_simps)

section \<open>Words\<close>

lemma unat_u32_less [simp]: "unat (w :: u32) < 4294967296"
  by (rule order_less_le_trans [OF unsigned_less]) simp

lemma unat_u32_add: "unat a + unat b < 4294967296 \<Longrightarrow> unat (a + b :: u32) = unat a + unat b"
  by (simp add: unat_word_ariths)

lemma u32_low: "unat (u AND 0xFFFF :: u32) = unat u mod 65536"
proof -
  have "u AND 0xFFFF = take_bit 16 u" by (simp add: take_bit_eq_mask mask_eq_exp_minus_1)
  then show ?thesis unfolding \<open>u AND 0xFFFF = take_bit 16 u\<close> unsigned_take_bit_eq by (simp add: take_bit_eq_mod)
qed

lemma u32_high: "unat (drop_bit 16 u :: u32) = unat u div 65536"
  unfolding unsigned_drop_bit_eq by (simp add: drop_bit_eq_div take_bit_eq_mod)

lemma unat_FOLD: "unat (FOLD_U32T u) = unat u div 65536 + unat u mod 65536"
proof -
  have "unat u div 65536 + unat u mod 65536 < 4294967296" using unat_u32_less [of u] by linarith
  then show ?thesis unfolding FOLD_U32T_def by (simp add: unat_u32_add u32_low u32_high)
qed

lemma FOLD_spec: "oc (unat (FOLD_U32T u)) (unat u)" "unat u \<le> 131070 \<Longrightarrow> unat (FOLD_U32T u) \<le> 65535"
    "unat (FOLD_U32T u) \<le> 131070"
proof -
  show "oc (unat (FOLD_U32T u)) (unat u)" unfolding unat_FOLD by (rule oc_fold)
  have m: "unat u mod 65536 \<le> 65535" using mod_less_divisor [of 65536 "unat u"] by linarith
  have "unat u div 65536 \<le> 65535" using unat_u32_less [of u] by linarith
  then show "unat (FOLD_U32T u) \<le> 131070" unfolding unat_FOLD using m by linarith
  assume le: "unat u \<le> 131070"
  show "unat (FOLD_U32T u) \<le> 65535"
  proof (cases "unat u < 65536")
    case False
    then have "unat u div 65536 = 1" "unat u mod 65536 = unat u - 65536" using le by (simp_all add: le_mod_geq)
    then show ?thesis unfolding unat_FOLD using le False by linarith
  qed (simp add: unat_FOLD)
qed

lemma FOLD2_spec: "oc (unat (FOLD_U32T (FOLD_U32T u))) (unat u)" "unat (FOLD_U32T (FOLD_U32T u)) \<le> 65535"
  using oc_trans [OF FOLD_spec(1) FOLD_spec(1)] FOLD_spec(2) [OF FOLD_spec(3)] by simp_all


lemma unat_SWAP: "unat (SWAP_BYTES_IN_WORD w) = 256 * (unat w mod 256) + (unat w div 256) mod 256"
proof -
  have ff: "bit (0xFF :: u32) k = (k < 8)" "bit (0xFF00 :: u32) k = (8 \<le> k \<and> k < 16)" for k
    using bit_byte_masks(1,2) [of k] by simp_all
  have lo: "w AND 0xFF = take_bit 8 w" by (simp add: take_bit_eq_mask mask_eq_exp_minus_1)
  have hi: "drop_bit 8 (w AND 0xFF00) = take_bit 8 (drop_bit 8 w)"
  proof (rule bytes_eqI32)
    fix n :: nat
    show "bit (drop_bit 8 (w AND 0xFF00)) n = bit (take_bit 8 (drop_bit 8 w)) n"
      unfolding bit_drop_bit_eq o_apply bit_and_iff ff bit_take_bit_iff by auto
  qed
  have dj: "push_bit 8 (take_bit 8 w) AND take_bit 8 (drop_bit 8 w) = 0"
  proof (rule bytes_eqI32)
    fix n :: nat
    show "bit (push_bit 8 (take_bit 8 w) AND take_bit 8 (drop_bit 8 w)) n = bit 0 n"
      unfolding bit_and_iff bit_push_bit_iff bit_take_bit_iff bit_drop_bit_eq by auto
  qed
  have e: "SWAP_BYTES_IN_WORD w = push_bit 8 (take_bit 8 w) + take_bit 8 (drop_bit 8 w)"
    unfolding SWAP_BYTES_IN_WORD_def lo hi by (simp only: disjunctive_add_eq_or [OF dj])
  have l: "unat w mod 256 < 256" "(unat w div 256) mod 256 < 256" by simp_all
  have p: "unat (push_bit 8 (take_bit 8 w)) = 256 * (unat w mod 256)"
    unfolding unsigned_push_bit_eq unsigned_take_bit_eq using l(1) by (simp add: push_bit_eq_mult take_bit_eq_mod)
  have q: "unat (take_bit 8 (drop_bit 8 w)) = (unat w div 256) mod 256"
    unfolding unsigned_take_bit_eq unsigned_drop_bit_eq by (simp add: drop_bit_eq_div take_bit_eq_mod)
  show ?thesis unfolding e using p q l by (subst unat_u32_add) linarith+
qed

lemma SWAP_spec:
  assumes "unat w \<le> 65535"
  shows "oc (unat (SWAP_BYTES_IN_WORD w)) (256 * unat w)" "unat (SWAP_BYTES_IN_WORD w) \<le> 65535"
proof -
  have "unat w div 256 < 256" using assms by linarith
  then have u: "unat (SWAP_BYTES_IN_WORD w) = 256 * (unat w mod 256) + unat w div 256" using unat_SWAP [of w] by simp
  have "256 * unat w = 65536 * (unat w div 256) + 256 * (unat w mod 256)"
    using div_mult_mod_eq [of "unat w" 256] by linarith
  then show "oc (unat (SWAP_BYTES_IN_WORD w)) (256 * unat w)"
    using oc_add [OF oc_refl [of "256 * (unat w mod 256)"] oc_sym [OF oc_65536 [of "unat w div 256"]]] u
    by (simp add: add.commute)
  show "unat (SWAP_BYTES_IN_WORD w) \<le> 65535" using u assms by linarith
qed

section \<open>The sum over one buffer\<close>

lemma unat_le16: "unat (le16 a b) = unat a + 256 * unat b"
proof -
  have "unat a + 256 * unat b < 65536" using unat_u8_less [of a] unat_u8_less [of b] by linarith
  then show ?thesis by (simp add: le16_def unat_of_nat take_bit_eq_mod del: of_nat_add)
qed

lemma sum_words_spec:
  assumes "sum_words xs acc = (acc', ps)" "unat acc + 65535 * length xs < 4294901760"
  shows "oc (unat acc' + le_val ps) (unat acc + le_val xs) \<and> length ps \<le> 1 \<and> unat acc' \<le> unat acc + 65535 * length xs"
  using assms
proof (induction xs acc rule: sum_words.induct)
  case (1 a b xs acc)
  have w: "unat (le16 a b) \<le> 65535"
    unfolding unat_le16 using unat_u8_less [of a] unat_u8_less [of b] by linarith
  have s: "unat (acc + le16 a b) = unat acc + unat (le16 a b)"
    using "1.prems"(2) w by (intro unat_u32_add) simp
  have st: "sum_words xs (acc + le16 a b) = (acc', ps)" using "1.prems"(1) by simp
  have bd: "unat (acc + le16 a b) + 65535 * length xs < 4294901760" using "1.prems"(2) s w by simp
  note IH = "1.IH" [OF st bd]
  have v: "le_val (a # b # xs) = unat (le16 a b) + 65536 * le_val xs" by (simp add: unat_le16)
  have "oc (unat acc + unat (le16 a b) + le_val xs) (unat acc + le_val (a # b # xs))"
    using oc_add [OF oc_refl [of "unat acc + unat (le16 a b)"] oc_sym [OF oc_65536 [of "le_val xs"]]]
    unfolding v by (simp only: add.assoc)
  then have "oc (unat acc' + le_val ps) (unat acc + le_val (a # b # xs))"
    using oc_trans [OF IH [THEN conjunct1]] unfolding s by blast
  then show ?case using IH s w by simp
qed auto

text \<open>
  The checksum of a buffer is the one's complement sum of its bytes read as a little endian
  number, whether the buffer starts at an even or an odd address.
\<close>

lemma lwip_standard_chksum_spec:
  assumes "length xs < 65536"
  shows "unat (lwip_standard_chksum is_odd xs) = ones (le_val xs)"
proof -
  define t1 pb where "t1 = (if is_odd \<and> xs \<noteq> [] then hd xs else 0)" and "pb = (if is_odd \<and> xs \<noteq> [] then tl xs else xs)"
  obtain acc ps where w: "sum_words pb 0 = (acc, ps)" by fastforce
  define t0 where "t0 = (if ps \<noteq> [] then hd ps else 0)"
  define a where "a = acc + le16 t0 t1"
  define f where "f = FOLD_U32T (FOLD_U32T a)"
  have run: "lwip_standard_chksum is_odd xs = ucast (if is_odd then SWAP_BYTES_IN_WORD f else f)"
    using w by (auto simp: lwip_standard_chksum_def Let_def t1_def pb_def t0_def a_def f_def)
  have lp: "length pb \<le> 65535" using assms by (auto simp: pb_def)
  have S: "oc (unat acc + le_val ps) (le_val pb)" "length ps \<le> 1" "unat acc \<le> 65535 * length pb"
    using sum_words_spec [OF w] lp by simp_all
  have ps: "le_val ps = unat t0" using S(2) by (cases ps) (auto simp: t0_def)
  have "unat t0 < 256" "unat t1 < 256" by simp_all
  then have "unat acc + unat (le16 t0 t1) < 4294967296" using S(3) lp unfolding unat_le16 by linarith
  then have ua: "unat a = unat acc + unat t0 + 256 * unat t1"
    by (simp add: a_def unat_u32_add unat_le16)
  have oa: "oc (unat a) (256 * unat t1 + le_val pb)"
    using oc_add [OF S(1) oc_refl [of "256 * unat t1"]] ua ps by (simp add: add.commute)
  have of: "oc (unat f) (256 * unat t1 + le_val pb)" "unat f \<le> 65535"
    using oc_trans [OF FOLD2_spec(1) oa] FOLD2_spec(2) by (simp_all add: f_def)
  define r where "r = (if is_odd then SWAP_BYTES_IN_WORD f else f)"
  have "oc (unat r) (le_val xs) \<and> unat r \<le> 65535"
  proof (cases is_odd)
    case False
    then show ?thesis using of by (simp add: r_def t1_def pb_def)
  next
    case True
    have "oc (unat (SWAP_BYTES_IN_WORD f)) (256 * (256 * unat t1 + le_val pb))"
      using oc_trans [OF SWAP_spec(1) [OF of(2)] oc_mult [OF of(1)]] by simp
    moreover have "oc (256 * (256 * unat t1 + le_val pb)) (le_val xs)"
    proof (cases xs)
      case Nil
      then show ?thesis by (simp add: t1_def pb_def)
    next
      case (Cons x ys)
      then have "le_val xs = unat t1 + 256 * le_val pb" using True by (simp add: t1_def pb_def)
      then show ?thesis
        using oc_add [OF oc_256_256 [of "unat t1"] oc_refl [of "256 * le_val pb"]] by (simp add: distrib_left)
    qed
    ultimately show ?thesis using True SWAP_spec(2) [OF of(2)] oc_trans by (simp add: r_def)
  qed
  then have "unat r = ones (le_val xs)" using oc_onesI by simp
  moreover have "unat (ucast r :: u16) = unat r"
    using \<open>oc (unat r) (le_val xs) \<and> unat r \<le> 65535\<close> by (simp add: unsigned_ucast_eq take_bit_eq_mod)
  ultimately show ?thesis using run by (simp add: r_def)
qed


section \<open>The sum over a chain\<close>

lemma chksum_loop_None [simp]: "chksum_loop None sw acc h = Some (sw, acc)"
  by (subst chksum_loop.simps) simp

lemma chksum_loop_step:
  assumes "hp_pbufs h a = Some qb" "readable h a"
  shows "chksum_loop (Some a) sw acc h =
    (let acc' = FOLD_U32T (acc + ucast (lwip_standard_chksum (payload_odd (pb_payload qb)) (pdata h a))) in
     if odd (length (pdata h a)) then chksum_loop (pb_next qb) (\<not> sw) (SWAP_BYTES_IN_WORD acc') h
     else chksum_loop (pb_next qb) sw acc' h)"
proof -
  have l: "length (pdata h a) = unat (pb_len qb)" using length_pdata [OF assms(2)] assms(1) by simp
  then have "seg 0 (unat (pb_len qb)) (pdata h a) = pdata h a" by (simp add: seg_def)
  then have "mem_read h (pb_payload qb) 0 (unat (pb_len qb)) = Some (pdata h a)"
    using mem_read_pdata [OF assms(2), of 0 "unat (pb_len qb)"] assms(1) by simp
  then show ?thesis using assms(1) l by (subst chksum_loop.simps) (simp add: Let_def)
qed

text \<open>The weight of the next byte: 256 after an odd number of bytes.\<close>

definition wt :: "bool \<Rightarrow> nat \<Rightarrow> nat" where
  "wt sw x = (if sw then 256 * x else x)"

lemma wt_simps [simp]: "wt False x = x" "wt True x = 256 * x" "wt sw 0 = 0"
  by (simp_all add: wt_def)

lemma oc_wt: "oc x y \<Longrightarrow> oc (wt sw x) (wt sw y)"
  using oc_mult [of x y 256] by (cases sw) simp_all

lemma oc_wt_wt: "oc (wt sw (wt sw x)) x"
  using oc_256_256 by (cases sw) simp_all

lemma wt_add: "wt sw (x + y) = wt sw x + wt sw y"
  by (cases sw) simp_all

lemma oc_wt_append:
  assumes "sw' = (sw \<noteq> odd (length xs))"
  shows "oc (wt sw (le_val (xs @ ys))) (wt sw (le_val xs) + wt sw' (le_val ys))"
proof -
  have "oc (wt sw (256 ^ length xs * le_val ys)) (wt sw' (le_val ys))"
  proof (cases "odd (length xs)")
    case True
    have *: "oc (wt sw (256 ^ length xs * le_val ys)) (wt sw (256 * le_val ys))"
      using oc_wt [OF oc_pow(2) [OF True]] .
    show ?thesis
    proof (cases sw)
      case t: True
      then show ?thesis using oc_trans [OF *] oc_256_256 [of "le_val ys"] assms True by simp
    next
      case False
      then show ?thesis using * assms True by simp
    qed
  next
    case False
    then show ?thesis using oc_wt [OF oc_pow(1)] assms by simp
  qed
  then show ?thesis unfolding le_val_append wt_add by (intro oc_add oc_refl)
qed

lemma chksum_loop_spec:
  assumes "chain h q bs" "list_all (readable h) bs" "unat acc \<le> 65535" "oc (unat acc) (wt sw V)"
    and "\<And>a. a \<in> set bs \<Longrightarrow> length (pdata h a) < 65536"
  shows "\<exists>acc'. chksum_loop q sw acc h = Some (sw \<noteq> odd (length (pbytes h bs)), acc') \<and> unat acc' \<le> 65535
    \<and> oc (unat acc') (wt (sw \<noteq> odd (length (pbytes h bs))) (V + wt sw (le_val (pbytes h bs))))"
  using assms
proof (induction bs arbitrary: q sw acc V)
  case Nil
  then show ?case by simp
next
  case (Cons a bs)
  obtain qb where qb: "q = Some a" "hp_pbufs h a = Some qb" "chain h (pb_next qb) bs" using Cons.prems(1) by auto
  have rd: "readable h a" "list_all (readable h) bs" using Cons.prems(2) by simp_all
  let ?ys = "pdata h a" and ?rest = "pbytes h bs"
  define c where "c = lwip_standard_chksum (payload_odd (pb_payload qb)) ?ys"
  define acc1 where "acc1 = FOLD_U32T (acc + ucast c)"
  have uc: "unat c = ones (le_val ?ys)" using Cons.prems(5) by (simp add: c_def lwip_standard_chksum_spec)
  have cl: "unat c < 4294967296" using unat_u16_less [of c] by linarith
  then have cc: "unat (ucast c :: u32) = unat c" "unat c \<le> 65535" by (simp_all add: unsigned_ucast_eq take_bit_eq_mod)
  have "unat acc + unat (ucast c :: u32) < 4294967296" using Cons.prems(3) cc by linarith
  then have s: "unat (acc + ucast c) = unat acc + unat c" using cc(1) by (simp add: unat_u32_add)
  have "oc (unat (acc + ucast c)) (wt sw V + le_val ?ys)"
    unfolding s uc by (intro oc_add Cons.prems(4) oc_sym [OF oc_ones])
  then have o1: "oc (unat acc1) (wt sw V + le_val ?ys)" "unat acc1 \<le> 65535"
    using oc_trans [OF FOLD_spec(1)] FOLD_spec(2) [of "acc + ucast c"] Cons.prems(3) s cc by (auto simp: acc1_def)
  define sw1 acc2 where "sw1 = (sw \<noteq> odd (length ?ys))"
    and "acc2 = (if odd (length ?ys) then SWAP_BYTES_IN_WORD acc1 else acc1)"
  have V1: "oc (wt sw V + le_val ?ys) (wt sw (V + wt sw (le_val ?ys)))"
    unfolding wt_add by (intro oc_add oc_refl oc_sym [OF oc_wt_wt])
  have o2: "oc (unat acc2) (wt sw1 (V + wt sw (le_val ?ys)))" "unat acc2 \<le> 65535"
  proof -
    show "unat acc2 \<le> 65535" using o1(2) SWAP_spec(2) by (simp add: acc2_def)
    show "oc (unat acc2) (wt sw1 (V + wt sw (le_val ?ys)))"
    proof (cases "odd (length ?ys)")
      case True
      have "oc (unat acc2) (256 * wt sw (V + wt sw (le_val ?ys)))"
        using oc_trans [OF SWAP_spec(1) [OF o1(2)] oc_mult [OF oc_trans [OF o1(1) V1]]] True by (simp add: acc2_def)
      moreover have "oc (256 * wt sw X) (wt (\<not> sw) X)" for X using oc_256_256 by (cases sw) simp_all
      ultimately show ?thesis using True oc_trans by (simp add: sw1_def)
    next
      case False
      then show ?thesis using oc_trans [OF o1(1) V1] by (simp add: acc2_def sw1_def)
    qed
  qed
  obtain acc' where IH: "chksum_loop (pb_next qb) sw1 acc2 h = Some (sw1 \<noteq> odd (length ?rest), acc')"
      "unat acc' \<le> 65535" "oc (unat acc') (wt (sw1 \<noteq> odd (length ?rest)) (V + wt sw (le_val ?ys) + wt sw1 (le_val ?rest)))"
    using Cons.IH [OF qb(3) rd(2) o2(2,1)] Cons.prems(5) by auto
  have par: "(sw1 \<noteq> odd (length ?rest)) = (sw \<noteq> odd (length (?ys @ ?rest)))" by (auto simp: sw1_def)
  have "oc (V + (wt sw (le_val ?ys) + wt sw1 (le_val ?rest))) (V + wt sw (le_val (?ys @ ?rest)))"
    by (intro oc_add oc_refl oc_sym [OF oc_wt_append]) (simp add: sw1_def)
  then have "oc (unat acc') (wt (sw \<noteq> odd (length (?ys @ ?rest))) (V + wt sw (le_val (?ys @ ?rest))))"
    using oc_trans [OF IH(3) oc_wt] unfolding par by (simp add: add.assoc)
  moreover have "chksum_loop q sw acc h = chksum_loop (pb_next qb) sw1 acc2 h"
    unfolding qb(1) chksum_loop_step [OF qb(2) rd(1)] by (simp add: Let_def sw1_def acc2_def acc1_def c_def)
  ultimately show ?case using IH(1,2) par by simp
qed

text \<open>The sum of a chain with the swap undone.\<close>

lemma chksum_chain:
  assumes "chain h q bs" "list_all (readable h) bs" "unat acc \<le> 65535"
    and "\<And>a. a \<in> set bs \<Longrightarrow> length (pdata h a) < 65536"
  obtains sw acc' where "chksum_loop q False acc h = Some (sw, acc')"
    "unat (if sw then SWAP_BYTES_IN_WORD acc' else acc') \<le> 65535"
    "oc (unat (if sw then SWAP_BYTES_IN_WORD acc' else acc')) (unat acc + le_val (pbytes h bs))"
proof -
  have "oc (unat acc) (wt False (unat acc))" by simp
  then obtain acc' where a: "chksum_loop q False acc h = Some (odd (length (pbytes h bs)), acc')" "unat acc' \<le> 65535"
      "oc (unat acc') (wt (odd (length (pbytes h bs))) (unat acc + le_val (pbytes h bs)))"
    using chksum_loop_spec [OF assms(1-3) _ assms(4), of False "unat acc"] by auto
  have "oc (unat (SWAP_BYTES_IN_WORD acc')) (unat acc + le_val (pbytes h bs))" if t: "odd (length (pbytes h bs))"
  proof -
    have "oc (unat acc') (256 * (unat acc + le_val (pbytes h bs)))" using a(3) t unfolding wt_def by simp
    then have "oc (256 * unat acc') (256 * (256 * (unat acc + le_val (pbytes h bs))))" by (rule oc_mult) simp
    then show ?thesis using oc_trans [OF SWAP_spec(1) [OF a(2)] oc_trans [OF _ oc_256_256]] by blast
  qed
  then show thesis using that a SWAP_spec(2) [OF a(2)] by (cases "odd (length (pbytes h bs))") auto
qed

lemma low_ucast: "unat acc \<le> 65535 \<Longrightarrow> ucast (NOT (acc AND 0xFFFF) :: u32) = (NOT (of_nat (unat acc)) :: u16)"
proof -
  assume le: "unat acc \<le> 65535"
  have "unat (acc AND 0xFFFF) = unat acc" using le by (simp add: u32_low)
  then have a: "acc AND 0xFFFF = acc" by (simp add: word_unat_eq_iff)
  have "(of_nat (unat acc) :: u16) = ucast acc" by (simp add: word_unat_eq_iff unsigned_ucast_eq unat_of_nat)
  moreover have "ucast (NOT acc) = (NOT (ucast acc) :: u16)"
    by (rule bytes_eqI16) (simp add: bit_ucast_iff bit_not_iff_eq)
  ultimately show ?thesis unfolding a by simp
qed


section \<open>Properties\<close>

lemma packet_pdata_bound:
  assumes "packet h p as" "a \<in> set as"
  shows "length (pdata h a) < 65536"
proof -
  have "readable h a" using packet_readable [OF assms(1)] assms(2) by (simp add: list_all_iff)
  then show ?thesis using length_pdata [of h a] by simp
qed

lemma inet_chksum_pbuf_sum:
  assumes "packet h p as"
  shows "inet_chksum_pbuf p h = Some (NOT (of_nat (ones (le_val (pbytes h as)))))"
proof -
  have c: "chain h p as" "list_all (readable h) as" using assms packet_readable [OF assms] by (simp_all add: packet_def)
  obtain sw acc where a: "chksum_loop p False 0 h = Some (sw, acc)"
      "unat (if sw then SWAP_BYTES_IN_WORD acc else acc) \<le> 65535"
      "oc (unat (if sw then SWAP_BYTES_IN_WORD acc else acc)) (unat (0 :: u32) + le_val (pbytes h as))"
    using chksum_chain [OF c, of 0] packet_pdata_bound [OF assms] by auto
  have "unat (if sw then SWAP_BYTES_IN_WORD acc else acc) = ones (le_val (pbytes h as))"
    using oc_onesI [OF a(3,2)] by simp
  then show ?thesis using a(1) low_ucast [OF a(2)] by (simp add: inet_chksum_pbuf_def Let_def)
qed

text \<open>C11: the checksum of a packet (\<open>inet_chksum_pbuf\<close>) is the complement of the one's complement
  sum of the bytes of the whole packet: it depends neither on how the packet is split into pbufs
  (also at odd offsets) nor on the alignment of the pieces.\<close>

theorem inet_chksum_pbuf_bytes:
  assumes "packet h p as"
  shows "inet_chksum_pbuf p h = Some (NOT (of_nat (ones (le_val (pbytes h as)))))"
  by (rule inet_chksum_pbuf_sum [OF assms])

theorem inet_chksum_pbuf_bytes_witness:
  "inet_chksum_pbuf (Some 1) ex_heap = Some (NOT (of_nat (ones (le_val [104, 101, 108, 108, 111]))))"
  using inet_chksum_pbuf_bytes [OF ex_heap_packet(1)] unfolding ex_heap_packet(2) .

text \<open>The pseudo header of RFC 768 and RFC 793 as bytes: addresses as they are stored, zero,
  protocol, length in network order.\<close>

definition pseudo_header :: "u32 \<Rightarrow> u32 \<Rightarrow> u8 \<Rightarrow> u16 \<Rightarrow> byte list" where
  "pseudo_header src dest proto len =
     map (u32_byte src) [0, 1, 2, 3] @ map (u32_byte dest) [0, 1, 2, 3] @ [0, proto, ucast (drop_bit 8 len), ucast len]"

lemma horner_256:
  "(a :: nat) = d1 * 256 + m0 \<Longrightarrow> d1 = d2 * 256 + m1 \<Longrightarrow> d2 = d3 * 256 + m2
    \<Longrightarrow> m0 + 256 * (m1 + 256 * (m2 + 256 * d3)) = a"
  by simp

lemma u32_bytes_val: "le_val (map (u32_byte x) [0, 1, 2, 3]) = unat x"
proof -
  have b: "unat (u32_byte x i) = (unat x div 256 ^ i) mod 256" if "i < 4" for i
  proof -
    have "(256 :: nat) ^ i = 2 ^ (8 * i)" by (simp add: power_mult)
    then show ?thesis unfolding u32_byte_def unsigned_ucast_eq unsigned_drop_bit_eq
      by (simp add: take_bit_eq_mod drop_bit_eq_div)
  qed
  have q: "unat x div 256 div 256 div 256 < 256" using unat_u32_less [of x] by linarith
  have "le_val (map (u32_byte x) [0, 1, 2, 3])
      = unat x mod 256 + 256 * ((unat x div 256) mod 256 + 256 * ((unat x div 256 div 256) mod 256
          + 256 * (unat x div 256 div 256 div 256)))"
    using b [of 0] b [of 1] b [of 2] b [of 3] q
    by (simp add: div_mult2_eq [symmetric] numeral_3_eq_3 numeral_2_eq_2)
  also have "\<dots> = unat x"
    by (rule horner_256 [OF div_mult_mod_eq [symmetric] div_mult_mod_eq [symmetric] div_mult_mod_eq [symmetric]])
  finally show ?thesis .
qed

lemma htons_bytes:
  "unat (ucast (lwip_htons (ucast (proto :: u8))) :: u32) = 256 * unat proto"
  "unat (ucast (lwip_htons len) :: u32) = 256 * (unat len mod 256) + unat len div 256"
  "unat (ucast (drop_bit 8 len) :: byte) = unat len div 256" "unat (ucast (len :: u16) :: byte) = unat len mod 256"
proof -
  have c: "unat (ucast (w :: u16) :: u32) = unat w" for w
  proof -
    have "unat w < 4294967296" using unat_u16_less [of w] by linarith
    then show ?thesis by (simp add: unsigned_ucast_eq take_bit_eq_mod)
  qed
  have "unat proto < 65536" using unat_u8_less [of proto] by linarith
  then have "unat (ucast proto :: u16) = unat proto" by (simp add: unsigned_ucast_eq take_bit_eq_mod)
  then show "unat (ucast (lwip_htons (ucast (proto :: u8))) :: u32) = 256 * unat proto"
    using unat_u8_less [of proto] by (simp add: c unat_lwip_htons)
  show "unat (ucast (lwip_htons len) :: u32) = 256 * (unat len mod 256) + unat len div 256"
    by (simp add: c unat_lwip_htons)
  have "unat len div 256 < 256" using unat_u16_less [of len] by linarith
  then show "unat (ucast (drop_bit 8 len) :: byte) = unat len div 256"
    unfolding unsigned_ucast_eq unsigned_drop_bit_eq by (simp add: take_bit_eq_mod drop_bit_eq_div)
  show "unat (ucast (len :: u16) :: byte) = unat len mod 256" by (simp add: unsigned_ucast_eq take_bit_eq_mod)
qed

lemma pseudo_addrs_spec:
  "oc (unat (pseudo_addrs src dest)) (unat src + unat dest)" "unat (pseudo_addrs src dest) \<le> 65535"
proof -
  let ?a = "(src AND 0xFFFF) + (drop_bit 16 src AND 0xFFFF) + (dest AND 0xFFFF) + (drop_bit 16 dest AND 0xFFFF)"
  have m: "unat x div 65536 < 65536" "unat x mod 65536 < 65536" for x :: u32
    using unat_u32_less [of x] by (linarith, simp)
  have "unat ?a = unat src mod 65536 + unat src div 65536 + unat dest mod 65536 + unat dest div 65536"
    using m [of src] m [of dest] by (simp add: unat_u32_add u32_low u32_high)
  moreover have "oc ((unat src div 65536 + unat src mod 65536) + (unat dest div 65536 + unat dest mod 65536)) (unat src + unat dest)"
    by (intro oc_add oc_fold)
  ultimately have o: "oc (unat ?a) (unat src + unat dest)" by (simp add: add_ac)
  show "oc (unat (pseudo_addrs src dest)) (unat src + unat dest)"
    using oc_trans [OF FOLD2_spec(1) o] by (simp add: pseudo_addrs_def Let_def)
  show "unat (pseudo_addrs src dest) \<le> 65535" using FOLD2_spec(2) by (simp add: pseudo_addrs_def Let_def)
qed

lemma pseudo_header_val:
  "oc (unat src + unat dest + le_val xs + 256 * unat proto + (256 * (unat len mod 256) + unat len div 256))
     (le_val (pseudo_header src dest proto len @ xs))"
proof -
  let ?S = "map (u32_byte src) [0, 1, 2, 3]" and ?D = "map (u32_byte dest) [0, 1, 2, 3]"
    and ?T = "[0, proto, ucast (drop_bit 8 len), ucast len]"
  have t: "le_val ?T = 256 * unat proto + 65536 * (unat len div 256 + 256 * (unat len mod 256))"
    by (simp only: le_val.simps htons_bytes(3) [of len] htons_bytes(4) [of len]) simp
  have "oc (256 * unat proto + (unat len div 256 + 256 * (unat len mod 256))) (le_val ?T)"
    unfolding t by (intro oc_add oc_refl oc_sym [OF oc_65536])
  moreover have "oc (le_val ?S + le_val (?D @ ?T @ xs)) (le_val (?S @ ?D @ ?T @ xs))"
    using oc_wt_append [THEN oc_sym, of False False ?S "?D @ ?T @ xs"] by simp
  moreover have "oc (le_val ?D + le_val (?T @ xs)) (le_val (?D @ ?T @ xs))"
    using oc_wt_append [THEN oc_sym, of False False ?D "?T @ xs"] by simp
  moreover have "oc (le_val ?T + le_val xs) (le_val (?T @ xs))"
    using oc_wt_append [THEN oc_sym, of False False ?T xs] by simp
  ultimately have "oc (unat src + (unat dest + ((256 * unat proto + (unat len div 256 + 256 * (unat len mod 256))) + le_val xs)))
      (le_val (?S @ ?D @ ?T @ xs))"
    unfolding u32_bytes_val by (meson oc_add oc_refl oc_trans)
  then show ?thesis by (simp add: pseudo_header_def add_ac)
qed

lemma inet_chksum_pseudo_sum:
  assumes "packet h p as"
  shows "inet_chksum_pseudo p proto len src dest h
    = Some (NOT (of_nat (ones (le_val (pseudo_header src dest proto len @ pbytes h as)))))"
proof -
  have c: "chain h p as" "list_all (readable h) as" using assms packet_readable [OF assms] by (simp_all add: packet_def)
  obtain sw acc where a: "chksum_loop p False (pseudo_addrs src dest) h = Some (sw, acc)"
      "unat (if sw then SWAP_BYTES_IN_WORD acc else acc) \<le> 65535"
      "oc (unat (if sw then SWAP_BYTES_IN_WORD acc else acc)) (unat (pseudo_addrs src dest) + le_val (pbytes h as))"
    using chksum_chain [OF c pseudo_addrs_spec(2) packet_pdata_bound [OF assms], of src dest] by blast
  define b where "b = (if sw then SWAP_BYTES_IN_WORD acc else acc)"
  define d where "d = b + ucast (lwip_htons (ucast proto)) + ucast (lwip_htons len)"
  have bd: "unat b \<le> 65535" using a(2) by (simp add: b_def)
  have "unat len div 256 < 256" "unat len mod 256 < 256" using unat_u16_less [of len] by (linarith, simp)
  then have d1: "unat d = unat b + 256 * unat proto + (256 * (unat len mod 256) + unat len div 256)"
  proof -
    have "unat (b + ucast (lwip_htons (ucast proto))) = unat b + 256 * unat proto"
      using bd unat_u8_less [of proto] htons_bytes(1) [of proto] by (subst unat_u32_add) linarith+
    then show ?thesis
      using bd unat_u8_less [of proto] htons_bytes(2) [of len] \<open>unat len div 256 < 256\<close> \<open>unat len mod 256 < 256\<close>
      unfolding d_def by (subst unat_u32_add) linarith+
  qed
  have "oc (unat b + 256 * unat proto + (256 * (unat len mod 256) + unat len div 256))
      (unat src + unat dest + le_val (pbytes h as) + 256 * unat proto + (256 * (unat len mod 256) + unat len div 256))"
    using a(3) pseudo_addrs_spec(1) [of src dest] unfolding b_def by (meson oc_add oc_refl oc_trans)
  then have "oc (unat (FOLD_U32T (FOLD_U32T d))) (le_val (pseudo_header src dest proto len @ pbytes h as))"
    using oc_trans [OF FOLD2_spec(1) oc_trans [OF _ pseudo_header_val]] d1 by simp
  then have "unat (FOLD_U32T (FOLD_U32T d)) = ones (le_val (pseudo_header src dest proto len @ pbytes h as))"
    using oc_onesI FOLD2_spec(2) by blast
  then show ?thesis
    using a(1) low_ucast [OF FOLD2_spec(2), of d]
    by (simp add: inet_chksum_pseudo_def inet_cksum_pseudo_base_def Let_def b_def d_def)
qed

text \<open>C32: \<open>inet_chksum_pseudo\<close> is the Internet checksum of the pseudo header followed by the bytes
  of the packet, whatever the split into pbufs and their alignment.\<close>

theorem inet_chksum_pseudo_bytes:
  assumes "packet h p as"
  shows "inet_chksum_pseudo p proto len src dest h
    = Some (NOT (of_nat (ones (le_val (pseudo_header src dest proto len @ pbytes h as)))))"
  by (rule inet_chksum_pseudo_sum [OF assms])

theorem inet_chksum_pseudo_bytes_witness:
  "inet_chksum_pseudo (Some 1) 17 5 0x0100A8C0 0x0200A8C0 ex_heap = Some (NOT (of_nat (ones (le_val
     (pseudo_header 0x0100A8C0 0x0200A8C0 17 5 @ [104, 101, 108, 108, 111])))))"
  using inet_chksum_pseudo_bytes [OF ex_heap_packet(1)] unfolding ex_heap_packet(2) .

lemma unat_u16_not: "unat (NOT w :: u16) = 65535 - unat w"
proof -
  have "NOT w = - 1 - w" by (simp add: not_eq_complement)
  moreover have "unat (- 1 :: u16) = 65535" by (simp add: unsigned_minus_1_eq_mask mask_eq_exp_minus_1)
  ultimately show ?thesis using unat_u16_sub [of w "- 1"] by simp
qed

text \<open>Storing a value that completes the sum to \<open>0xFFFF\<close> into a zeroed field at an even position.\<close>

lemma chksum_field_ones:
  assumes "even (length xs)" "oc (ones (le_val (xs @ [0, 0] @ ys)) + unat c) 65535"
  shows "ones (le_val (xs @ [ucast c, ucast (drop_bit 8 (c :: u16))] @ ys)) = 65535"
proof -
  let ?z = "xs @ [0, 0] @ ys" and ?f = "xs @ [ucast c, ucast (drop_bit 8 c)] @ ys"
  have f: "unat (ucast c :: byte) + 256 * unat (ucast (drop_bit 8 c) :: byte) = unat c"
    using htons_bytes(3,4) [of c] div_mult_mod_eq [of "unat c" 256] by linarith
  have "le_val ?f = le_val ?z + 256 ^ length xs * unat c"
    unfolding f [symmetric] by (simp add: le_val_append algebra_simps)
  then have "oc (le_val ?f) (ones (le_val ?z) + unat c)"
    using oc_add [OF oc_ones oc_pow(1) [OF assms(1)]] by simp
  then have "oc (le_val ?f) 65535" using assms(2) by (rule oc_trans)
  from ones_cong [OF this] show ?thesis by (simp add: ones_def)
qed

lemma unat_not_ones: "unat (NOT (of_nat (ones n)) :: u16) = 65535 - ones n"
  using ones_le [of n] by (simp add: unat_u16_not unat_of_nat_u16)

lemma not_of_nat_65535 [simp]: "(NOT (of_nat 65535) :: u16) = 0"
proof -
  have "unat (NOT (of_nat 65535) :: u16) = 0" by (simp add: unat_u16_not)
  then show ?thesis by (simp add: unat_eq_zero)
qed

lemma inet_chksum_ones: "length xs < 65536 \<Longrightarrow> inet_chksum is_odd xs = NOT (of_nat (ones (le_val xs)))"
  using lwip_standard_chksum_spec [of xs is_odd]
  by (simp add: inet_chksum_def) (metis of_nat_unat ucast_id)

lemma ones_full: "ones n = 65535 \<longleftrightarrow> n mod 65535 = 0 \<and> n \<noteq> 0"
  by (cases n) (auto simp: ones_def mod_Suc)

lemma not_ones_0: "(NOT (of_nat (ones n)) :: u16) = 0 \<longleftrightarrow> ones n = 65535"
  using unat_not_ones [of n] ones_le [of n] by (metis diff_is_0_eq le_antisym unat_0 unat_eq_zero diff_self_eq_0)

text \<open>The receiver's test, on bytes.\<close>

lemma inet_chksum_0: "length xs < 65536 \<Longrightarrow> inet_chksum is_odd xs = 0 \<longleftrightarrow> ones (le_val xs) = 65535"
  by (simp add: inet_chksum_ones not_ones_0)

text \<open>C33: the receiver's test succeeds: a buffer of even length with a zero checksum field at an even
  position sums up, after its checksum (\<open>inet_chksum\<close>) is stored into the field, to \<open>0xFFFF\<close>, so the
  checksum over it is 0.\<close>

theorem inet_chksum_verifies:
  assumes "even (length xs)" "length xs + 2 + length ys < 65536" "c = inet_chksum is_odd (xs @ [0, 0] @ ys)"
  shows "inet_chksum is_odd' (xs @ [ucast c, ucast (drop_bit 8 c)] @ ys) = 0"
proof -
  have "c = NOT (of_nat (ones (le_val (xs @ [0, 0] @ ys))))" using assms(2,3) by (simp add: inet_chksum_ones)
  then have "oc (ones (le_val (xs @ [0, 0] @ ys)) + unat c) 65535"
    using ones_le [of "le_val (xs @ [0, 0] @ ys)"] by (simp only: unat_not_ones) simp
  from chksum_field_ones [OF assms(1) this] show ?thesis
    using assms(2) by (subst inet_chksum_ones) (simp, simp only: not_of_nat_65535)
qed

theorem inet_chksum_verifies_witness:
  "inet_chksum True ([0x45, 0x00] @ [ucast (inet_chksum False ([0x45, 0x00] @ [0, 0] @ [0x7F])),
     ucast (drop_bit 8 (inet_chksum False ([0x45, 0x00] @ [0, 0] @ [0x7F])))] @ [0x7F]) = 0"
  by (rule inet_chksum_verifies) simp_all

end
