(* ===== verification/Pbuf_Alloc.thy ===== *)
theory Pbuf_Alloc
  imports Pbuf_Mut
begin

text \<open>
  Allocation: \<open>pbuf_alloc\<close> returns a well-formed packet of fresh pbufs with one reference and
  the requested length, with room for the headers of the layer, and touches nothing else; when
  \<open>malloc\<close> fails part-way, everything allocated so far is released again.  Then the header
  operations on such packets.
\<close>

section \<open>Allocating from the pool\<close>

text \<open>The totals of a chain that still lacks \<open>r\<close> bytes.\<close>

fun pend_ok :: "heap \<Rightarrow> addr list \<Rightarrow> nat \<Rightarrow> bool" where
  "pend_ok h [] r \<longleftrightarrow> True"
| "pend_ok h (x # xs) r \<longleftrightarrow> unat (pb_tot_len (the_pbuf h x)) = length (pbytes h (x # xs)) + r \<and> pend_ok h xs r"

lemma pend_ok_0: "list_all (readable h) xs \<Longrightarrow> pend_ok h xs 0 = tot_ok h xs"
  by (induction xs) (auto simp: length_pbytes length_pdata)

lemma pend_ok_cong:
  "pend_ok h xs r \<Longrightarrow> (\<And>x. x \<in> set xs \<Longrightarrow> pb_tot_len (the_pbuf h' x) = pb_tot_len (the_pbuf h x) \<and> pdata h' x = pdata h x)
    \<Longrightarrow> pend_ok h' xs r"
proof (induction xs)
  case (Cons x xs)
  then have "pbytes h' (x # xs) = pbytes h (x # xs)" by (intro pbytes_cong) auto
  then show ?case using Cons by simp
qed simp

lemma pend_ok_snoc:
  "pend_ok h xs (r + length (pdata h q)) \<Longrightarrow> unat (pb_tot_len (the_pbuf h q)) = length (pdata h q) + r
    \<Longrightarrow> pend_ok h (xs @ [q]) r"
  by (induction xs) auto

text \<open>The state of the loop: \<open>xs\<close> is the chain built so far, \<open>prev\<close> its last pbuf.\<close>

definition pool_inv :: "heap \<Rightarrow> addr option \<Rightarrow> addr option \<Rightarrow> addr list \<Rightarrow> nat \<Rightarrow> bool" where
  "pool_inv h p prev xs r \<longleftrightarrow> heap_ok h \<and> prev = (if xs = [] then None else Some (last xs)) \<and> chain h p xs
     \<and> list_all (owned h) xs \<and> list_all (sole h) xs \<and> pend_ok h xs r"

lemma chain_snoc:
  assumes "chain h p xs" "xs \<noteq> []" "hp_pbufs h (last xs) = Some pb" "q \<notin> set xs"
    and "hp_pbufs h q = Some qb" "pb_next qb = None"
  shows "chain (put_pbuf h (last xs) (pb\<lparr>pb_next := Some q\<rparr>)) p (xs @ [q])"
  using assms
proof (induction xs arbitrary: p)
  case Nil
  then show ?case by simp
next
  case (Cons x xs)
  obtain xb where xb: "p = Some x" "hp_pbufs h x = Some xb" "chain h (pb_next xb) xs" using Cons.prems(1) by auto
  show ?case
  proof (cases "xs = []")
    case True
    then show ?thesis using Cons.prems xb by auto
  next
    case False
    then have "x \<noteq> last xs" using chain_distinct [OF Cons.prems(1)] by auto
    then show ?thesis using Cons False xb by auto
  qed
qed

lemma owned_put_next:
  assumes "hp_pbufs h l = Some pb" "owned h x"
  shows "owned (put_pbuf h l (pb\<lparr>pb_next := n\<rparr>)) x" "pdata (put_pbuf h l (pb\<lparr>pb_next := n\<rparr>)) x = pdata h x"
    "sole h x \<Longrightarrow> sole (put_pbuf h l (pb\<lparr>pb_next := n\<rparr>)) x"
  using relinked_owned [of "{l}" h "put_pbuf h l (pb\<lparr>pb_next := n\<rparr>)" x] relinked_live(2) [of "{l}" h "put_pbuf h l (pb\<lparr>pb_next := n\<rparr>)" x]
    relinked_put [of h l pb "pb\<lparr>pb_next := n\<rparr>" "{l}"] assms by auto

text \<open>A fresh pbuf: the block and the struct of one allocation.\<close>

text \<open>Where the payload of a pbuf is; chaining does not change it.\<close>

definition pb_slot :: "pbuf \<Rightarrow> ptr option \<times> u8 \<times> u16" where
  "pb_slot pb = (pb_payload pb, pb_type_internal pb, pb_len pb)"

definition contiguous_data :: "pbuf \<Rightarrow> bool" where
  "contiguous_data pb \<longleftrightarrow> (ucast (pb_type_internal pb) AND PBUF_TYPE_FLAG_STRUCT_DATA_CONTIGUOUS) \<noteq> 0"

text \<open>A first pbuf with \<open>off\<close> bytes in front of its payload that holds all of \<open>n\<close> bytes or fills its block.\<close>

definition good_head :: "pbuf \<Rightarrow> addr \<Rightarrow> nat \<Rightarrow> nat \<Rightarrow> bool" where
  "good_head pb a off n \<longleftrightarrow> pb_payload pb = Some (a, off) \<and> contiguous_data pb \<and> min n (1024 - off) \<le> unat (pb_len pb)"

lemma good_head_slot: "pb_slot x = pb_slot y \<Longrightarrow> good_head x = good_head y"
  by (simp add: fun_eq_iff good_head_def pb_slot_def contiguous_data_def)

lemma contiguous_init: "type = PBUF_RAM \<or> type = PBUF_POOL \<Longrightarrow> contiguous_data (pbuf_init_alloced_pbuf pl tot len type 0)"
  by (auto simp: contiguous_data_def pbuf_init_alloced_pbuf_def pbuf_type_val_def PBUF_TYPE_FLAG_STRUCT_DATA_CONTIGUOUS_def
      PBUF_TYPE_ALLOC_SRC_MASK_STD_HEAP_def PBUF_TYPE_ALLOC_SRC_MASK_STD_MEMP_PBUF_POOL_def)

definition add_pbuf :: "heap \<Rightarrow> nat \<Rightarrow> nat \<Rightarrow> u16 \<Rightarrow> u16 \<Rightarrow> pbuf_type \<Rightarrow> heap" where
  "add_pbuf h sz off tot len type = (let q = hp_brk h; h = h\<lparr>hp_brk := Suc (hp_brk h)\<rparr> in
     put_pbuf (put_block h q (fresh_block h q sz)) q (pbuf_init_alloced_pbuf (Some (q, off)) tot len type 0))"

lemma src_ok_init: "src_ok (pbuf_init_alloced_pbuf pl tot len type 0)"
  by (cases type) (simp_all add: src_ok_def pbuf_get_allocsrc_def pbuf_init_alloced_pbuf_def pbuf_type_val_def
      PBUF_TYPE_FLAG_STRUCT_DATA_CONTIGUOUS_def PBUF_TYPE_FLAG_DATA_VOLATILE_def PBUF_TYPE_ALLOC_SRC_MASK_def
      PBUF_TYPE_ALLOC_SRC_MASK_STD_HEAP_def PBUF_TYPE_ALLOC_SRC_MASK_STD_MEMP_PBUF_def
      PBUF_TYPE_ALLOC_SRC_MASK_STD_MEMP_PBUF_POOL_def)

lemma heap_okD:
  "heap_ok h \<Longrightarrow> hp_pbufs h a = Some pb \<Longrightarrow> a < hp_brk h"
  "heap_ok h \<Longrightarrow> hp_blocks h a = Some bs \<Longrightarrow> a < hp_brk h"
  by (auto simp: heap_ok_def)

lemma length_fresh_block [simp]: "length (fresh_block h a n) = n"
  by (simp add: fresh_block_def)

lemma add_pbuf_spec:
  assumes h'_def: "h' = add_pbuf h sz off tot len type" and q_def: "q = hp_brk h"
    and "heap_ok h" "off + unat len \<le> sz"
  shows "hp_pbufs h' q = Some (pbuf_init_alloced_pbuf (Some (q, off)) tot len type 0)"
    "owned h' q" "sole h' q" "heap_ok h'" "same_on (- {q}) h h'" "hp_brk h' = Suc (hp_brk h)"
    "hp_mbox h' = hp_mbox h" "hp_oom h' = hp_oom h" "length (pdata h' q) = unat len"
    "hp_pbufs h q = None"
proof -
  show *: "hp_pbufs h' q = Some (pbuf_init_alloced_pbuf (Some (q, off)) tot len type 0)"
    by (simp add: h'_def add_pbuf_def q_def Let_def)
  show o: "owned h' q"
    using * assms(4) by (auto simp: owned_def h'_def add_pbuf_def q_def Let_def pbuf_init_alloced_pbuf_def)
  show "length (pdata h' q) = unat len"
    using length_pdata [OF owned_readable [OF o]] * by (simp add: pbuf_init_alloced_pbuf_def)
  show "sole h' q" using * src_ok_init by (simp add: sole_def) (simp add: pbuf_init_alloced_pbuf_def)
  show "heap_ok h'" using assms(3)
    by (auto simp: heap_ok_def h'_def add_pbuf_def q_def Let_def less_Suc_eq subset_iff)
  show "same_on (- {q}) h h'" by (auto simp: same_on_def h'_def add_pbuf_def q_def Let_def)
  show "hp_brk h' = Suc (hp_brk h)" "hp_mbox h' = hp_mbox h" "hp_oom h' = hp_oom h"
    by (simp_all add: h'_def add_pbuf_def q_def Let_def)
  show "hp_pbufs h q = None" using heap_okD(1) [OF assms(3)] by (metis less_irrefl not_None_eq q_def)
qed

text \<open>Linking the new pbuf behind the last one.\<close>

definition link_last :: "heap \<Rightarrow> addr option \<Rightarrow> addr \<Rightarrow> heap" where
  "link_last h prev q = (case prev of None \<Rightarrow> h
     | Some l \<Rightarrow> put_pbuf h l ((the_pbuf h l)\<lparr>pb_next := Some q\<rparr>))"

lemma pool_inv_step:
  assumes inv: "pool_inv h p prev xs (unat rem)" and len: "unat len \<le> unat rem" "off + unat len \<le> sz"
  defines "q \<equiv> hp_brk h" and "h' \<equiv> link_last (add_pbuf h sz off rem len PBUF_POOL) prev (hp_brk h)"
  shows "pool_inv h' (if p = None then Some q else p) (Some q) (xs @ [q]) (unat (rem - len))"
    "same_on (- set (xs @ [q])) h h'" "length (pbytes h' (xs @ [q])) = length (pbytes h xs) + unat len"
    "hp_brk h' = Suc (hp_brk h)" "hp_mbox h' = hp_mbox h" "hp_oom h' = hp_oom h" "q \<notin> set xs"
    "\<exists>pb. hp_pbufs h' q = Some pb \<and> pb_payload pb = Some (q, off) \<and> pb_len pb = len \<and> contiguous_data pb"
    "\<And>x pb. x \<in> set xs \<Longrightarrow> hp_pbufs h x = Some pb \<Longrightarrow> \<exists>pb'. hp_pbufs h' x = Some pb' \<and> pb_slot pb' = pb_slot pb"
proof -
  let ?h = "add_pbuf h sz off rem len PBUF_POOL"
  from inv have ok: "heap_ok h" and ch: "chain h p xs" and ow: "list_all (owned h) xs"
    and so: "list_all (sole h) xs" and pe: "pend_ok h xs (unat rem)"
    and pr: "prev = (if xs = [] then None else Some (last xs))" by (simp_all add: pool_inv_def)
  note A = add_pbuf_spec [where tot = rem and type = PBUF_POOL, OF refl q_def [THEN meta_eq_to_obj_eq] ok len(2)]
  have nq: "q \<notin> set xs" using chain_live [OF ch, of q] A(10) by blast
  have keep: "hp_pbufs ?h x = hp_pbufs h x \<and> owned ?h x \<and> sole ?h x \<and> pdata ?h x = pdata h x" if x: "x \<in> set xs" for x
  proof -
    have "x \<in> - {q}" "owned h x" "sole h x" using nq x ow so by (auto simp: list_all_iff)
    then show ?thesis
      using owned_same [OF A(5)] pdata_same [OF A(5)] A(5) by (auto simp: same_on_def sole_def)
  qed
  have h': "h' = (if xs = [] then ?h else put_pbuf ?h (last xs) ((the_pbuf ?h (last xs))\<lparr>pb_next := Some q\<rparr>))"
    by (simp add: h'_def link_last_def pr q_def)
  have fin: "owned h' x \<and> sole h' x \<and> pdata h' x = pdata ?h x \<and> pb_tot_len (the_pbuf h' x) = pb_tot_len (the_pbuf ?h x)"
    if x: "owned ?h x" "sole ?h x" for x
  proof (cases "xs = []")
    case True
    then show ?thesis using x h' by simp
  next
    case False
    then obtain pb where "hp_pbufs ?h (last xs) = Some pb"
      using chain_live [OF ch, of "last xs"] keep [of "last xs"] by auto
    then show ?thesis using owned_put_next [of ?h "last xs" pb x "Some q"] x h' False by auto
  qed
  have c': "chain h' (if p = None then Some q else p) (xs @ [q])"
  proof (cases "xs = []")
    case True
    then show ?thesis using ch h' A(1) by (simp add: pbuf_init_alloced_pbuf_def)
  next
    case False
    then have "p \<noteq> None" using ch by (cases xs) auto
    moreover obtain pb where pb: "hp_pbufs ?h (last xs) = Some pb"
      using chain_live [OF ch, of "last xs"] keep [of "last xs"] False by auto
    moreover have "chain ?h p xs" using keep by (intro chain_cong [OF ch]) simp
    ultimately show ?thesis
      using chain_snoc [of ?h p xs pb q] A(1) nq False h' by (auto simp: pbuf_init_alloced_pbuf_def)
  qed
  have F: "owned h' x \<and> sole h' x \<and> pdata h' x = pdata h x" if "x \<in> set xs" for x
    using fin [of x] keep [OF that] by auto
  have Fq: "owned h' q \<and> sole h' q \<and> length (pdata h' q) = unat len"
    using fin [of q] A(2,3,9) by auto
  have tq: "pb_tot_len (the_pbuf h' q) = rem" using fin [of q] A(1-3) by (simp add: pbuf_init_alloced_pbuf_def)
  have "pend_ok h' xs (unat rem)"
    using pe
  proof (rule pend_ok_cong)
    fix x assume x: "x \<in> set xs"
    then have "the_pbuf ?h x = the_pbuf h x" using keep by (simp add: the_pbuf_def)
    then show "pb_tot_len (the_pbuf h' x) = pb_tot_len (the_pbuf h x) \<and> pdata h' x = pdata h x"
      using fin [of x] keep [OF x] by auto
  qed
  moreover have "unat rem = unat (rem - len) + unat len" using len(1) by (simp add: unat_u16_sub)
  ultimately have pe': "pend_ok h' (xs @ [q]) (unat (rem - len))"
    using pend_ok_snoc [of h' xs "unat (rem - len)" q] Fq tq by simp
  have "heap_ok h'"
  proof (cases "xs = []")
    case False
    then have "last xs \<in> dom (hp_pbufs ?h)"
      using chain_live [OF ch, of "last xs"] keep [of "last xs"] by auto
    then show ?thesis using A(4) False h' by (auto simp: heap_ok_def)
  qed (use A(4) h' in simp)
  then show "pool_inv h' (if p = None then Some q else p) (Some q) (xs @ [q]) (unat (rem - len))"
    using c' pe' F Fq by (auto simp: pool_inv_def list_all_iff)
  show "length (pbytes h' (xs @ [q])) = length (pbytes h xs) + unat len"
    using pbytes_cong [of xs h' h] F Fq by simp
  show "same_on (- set (xs @ [q])) h h'" using A(5) h' by (auto simp: same_on_def)
  show "hp_brk h' = Suc (hp_brk h)" "hp_mbox h' = hp_mbox h" "hp_oom h' = hp_oom h"
    using A(6-8) h' by simp_all
  show "q \<notin> set xs" by (rule nq)
  have "hp_pbufs h' q = hp_pbufs ?h q"
  proof (cases "xs = []")
    case False
    then have "last xs \<noteq> q" using nq by auto
    then show ?thesis using h' False by simp
  qed (use h' in simp)
  then show "\<exists>pb. hp_pbufs h' q = Some pb \<and> pb_payload pb = Some (q, off) \<and> pb_len pb = len \<and> contiguous_data pb"
    using A(1) contiguous_init [of PBUF_POOL] by (simp add: pbuf_init_alloced_pbuf_def)
  show "\<exists>pb'. hp_pbufs h' x = Some pb' \<and> pb_slot pb' = pb_slot pb"
    if "x \<in> set xs" "hp_pbufs h x = Some pb" for x pb
    using keep [OF that(1)] that(2) h' by (auto simp: pb_slot_def)
qed


text \<open>The mailbox of the tcpip thread is usable, with its counters far enough from overflow.\<close>

definition env_ok :: "heap \<Rightarrow> bool" where
  "env_ok h \<longleftrightarrow> mbox_inv (hp_mbox h) \<and> mbox_ready (hp_mbox h)"

lemma tcpip_try_callback_spec:
  assumes "env_ok h" "heap_ok h"
  shows "\<exists>e h'. tcpip_try_callback f ctx h = Some (e, h') \<and> hp_pbufs h' = hp_pbufs h \<and> hp_blocks h' = hp_blocks h
    \<and> heap_ok h' \<and> hp_brk h \<le> hp_brk h' \<and> mbox_inv (hp_mbox h') \<and> hp_oom h' = hp_oom h
    \<and> mb_first (hp_mbox h') = mb_first (hp_mbox h)"
proof (cases "hp_oom h (hp_brk h)")
  case True
  then show ?thesis
    using assms by (auto simp: tcpip_try_callback_def memp_malloc_msg_def mem_malloc_def heap_ok_def env_ok_def)
next
  case False
  let ?h = "h\<lparr>hp_brk := Suc (hp_brk h), hp_msgs := (hp_msgs h)(hp_brk h \<mapsto> TCPIP_MSG_CALLBACK f ctx)\<rparr>"
  have m: "memp_malloc_msg h (TCPIP_MSG_CALLBACK f ctx) = (Some (hp_brk h), ?h)"
    using False by (simp add: memp_malloc_msg_def mem_malloc_def)
  have i: "mbox_inv (hp_mbox h)" "mbox_ready (hp_mbox h)" using assms(1) by (simp_all add: env_ok_def)
  have hk: "heap_ok ?h" using assms(2) by (auto simp: heap_ok_def subset_iff less_Suc_eq)
  show ?thesis
  proof (cases "mbox_full (hp_mbox h) = Some True")
    case True
    then show ?thesis using sys_mbox_trypost_full [OF i(1) True, of "hp_brk h"] i hk m
      by (auto simp: tcpip_try_callback_def memp_free_msg_def heap_ok_def)
  next
    case False
    then have F: "mbox_full (hp_mbox h) = Some False" using mbox_full_ready [OF i] by simp
    obtain mb where "sys_mbox_trypost (hp_mbox h) (hp_brk h) = Some (ERR_OK, mb)" "mbox_inv mb" "mb_first mb = mb_first (hp_mbox h)"
      using sys_mbox_trypost_ok [OF i(1) F] by metis
    then show ?thesis using hk m by (auto simp: tcpip_try_callback_def heap_ok_def)
  qed
qed

lemma pbuf_pool_is_empty_spec:
  assumes "env_ok h" "heap_ok h"
  obtains h' where "pbuf_pool_is_empty h = Some h'" "hp_pbufs h' = hp_pbufs h" "hp_blocks h' = hp_blocks h"
    "heap_ok h'" "hp_brk h \<le> hp_brk h'" "mbox_inv (hp_mbox h')" "hp_oom h' = hp_oom h"
proof (cases "hp_ooseq_pending h")
  case True
  then show thesis using that [of "h\<lparr>hp_ooseq_pending := True\<rparr>"] assms
    by (simp add: pbuf_pool_is_empty_def heap_ok_def env_ok_def Let_def)
next
  case False
  have "env_ok (h\<lparr>hp_ooseq_pending := True\<rparr>)" "heap_ok (h\<lparr>hp_ooseq_pending := True\<rparr>)"
    using assms by (simp_all add: env_ok_def heap_ok_def)
  from tcpip_try_callback_spec [OF this, of fn_pbuf_free_ooseq_callback None]
  obtain e h' where "tcpip_try_callback fn_pbuf_free_ooseq_callback None (h\<lparr>hp_ooseq_pending := True\<rparr>) = Some (e, h')"
      "hp_pbufs h' = hp_pbufs h" "hp_blocks h' = hp_blocks h" "heap_ok h'" "hp_brk h \<le> hp_brk h'"
      "mbox_inv (hp_mbox h')" "hp_oom h' = hp_oom h"
    by auto
  then show thesis using that [of "if e \<noteq> ERR_OK then h'\<lparr>hp_ooseq_pending := False\<rparr> else h'"] False
    by (auto simp: pbuf_pool_is_empty_def heap_ok_def Let_def)
qed

abbreviation pool_room :: "u16 \<Rightarrow> nat" where
  "pool_room offset \<equiv> LWIP_MEM_ALIGN_SIZE PBUF_POOL_BUFSIZE - LWIP_MEM_ALIGN_SIZE (unat offset)"

abbreviation pool_len :: "u16 \<Rightarrow> u16 \<Rightarrow> u16" where
  "pool_len rem_len offset \<equiv> min rem_len (of_nat (pool_room offset))"

lemma pbuf_alloc_pool_ok:
  assumes "\<not> hp_oom h (hp_brk h)" "pool_room offset > 0" "pool_inv h p prev xs r"
  shows "pbuf_alloc_pool p prev rem_len offset h =
    (let h' = link_last (add_pbuf h (LWIP_MEM_ALIGN_SIZE PBUF_POOL_BUFSIZE) (LWIP_MEM_ALIGN_SIZE (unat offset))
                 rem_len (pool_len rem_len offset) PBUF_POOL) prev (hp_brk h);
         p' = (if p = None then Some (hp_brk h) else p); rem' = rem_len - pool_len rem_len offset
     in if rem' > 0 then pbuf_alloc_pool p' (Some (hp_brk h)) rem' 0 h' else Some (p', h'))"
proof (cases prev)
  case None
  then show ?thesis using assms(1,2)
    by (subst pbuf_alloc_pool.simps) (simp add: mem_malloc_def Let_def add_pbuf_def link_last_def)
next
  case (Some l)
  then have l: "chain h p xs" "l \<in> set xs" using assms(3) by (auto simp: pool_inv_def split: if_splits)
  from chain_live [OF this] obtain pb where pb: "hp_pbufs h l = Some pb" by auto
  then have "l \<noteq> hp_brk h" using assms(3) heap_okD(1) [of h l] by (auto simp: pool_inv_def)
  then show ?thesis using assms(1,2) Some pb
    by (subst pbuf_alloc_pool.simps) (simp add: mem_malloc_def Let_def add_pbuf_def link_last_def)
qed

lemma pbuf_alloc_pool_fail:
  assumes "hp_oom h (hp_brk h)" "pool_inv h p prev xs r" "env_ok h"
  shows "\<exists>h'. pbuf_alloc_pool p prev rem_len offset h = Some (None, h') \<and> heap_ok h' \<and> hp_brk h \<le> hp_brk h'
    \<and> hp_pbufs h' = (hp_pbufs h) |` (- set xs) \<and> hp_blocks h' = (hp_blocks h) |` (- set xs)
    \<and> mbox_inv (hp_mbox h') \<and> hp_oom h' = hp_oom h"
proof -
  let ?h = "h\<lparr>hp_brk := Suc (hp_brk h)\<rparr>"
  from assms(2) have inv: "heap_ok h" "chain h p xs" "list_all (sole h) xs" by (simp_all add: pool_inv_def)
  have ek: "env_ok ?h" "heap_ok ?h"
    using assms(3) inv(1) by (auto simp: env_ok_def heap_ok_def subset_iff less_Suc_eq)
  obtain h1 where h1': "pbuf_pool_is_empty ?h = Some h1" "hp_pbufs h1 = hp_pbufs ?h" "hp_blocks h1 = hp_blocks ?h"
      "heap_ok h1" "hp_brk ?h \<le> hp_brk h1" "mbox_inv (hp_mbox h1)" "hp_oom h1 = hp_oom ?h"
    using pbuf_pool_is_empty_spec [OF ek] .
  then have h1: "pbuf_pool_is_empty ?h = Some h1" "hp_pbufs h1 = hp_pbufs h" "hp_blocks h1 = hp_blocks h"
      "heap_ok h1" "hp_brk h \<le> hp_brk h1" "mbox_inv (hp_mbox h1)" "hp_oom h1 = hp_oom h"
    by simp_all
  have c1: "chain h1 p xs" using h1(2) by (intro chain_cong [OF inv(2)]) simp
  have s1: "list_all (sole h1) xs" using inv(3) h1(2) by (simp add: list_all_iff sole_def)
  have "(if p \<noteq> None then map_option snd (pbuf_free p h1) else Some h1) = Some (without h1 (set xs))"
  proof (cases "xs = []")
    case True
    then show ?thesis using inv(2) by simp
  next
    case False
    then have "p \<noteq> None" using inv(2) by (cases xs) auto
    then show ?thesis using pbuf_free_sole [OF c1 False s1] by simp
  qed
  then have "pbuf_alloc_pool p prev rem_len offset h = Some (None, without h1 (set xs))"
    using assms(1) h1(1) by (subst pbuf_alloc_pool.simps) (simp add: mem_malloc_def)
  then show ?thesis using h1 by auto
qed


text \<open>What the loop promises.\<close>

definition alloc_result :: "heap \<Rightarrow> addr list \<Rightarrow> nat \<Rightarrow> nat \<Rightarrow> addr option \<Rightarrow> heap \<Rightarrow> bool" where
  "alloc_result h xs n off r h' \<longleftrightarrow> heap_ok h' \<and> hp_brk h \<le> hp_brk h' \<and> mbox_inv (hp_mbox h') \<and> hp_oom h' = hp_oom h \<and>
     (case r of
        None \<Rightarrow> hp_pbufs h' = (hp_pbufs h) |` (- set xs) \<and> hp_blocks h' = (hp_blocks h) |` (- set xs)
      | Some _ \<Rightarrow> \<exists>qs. packet h' r (xs @ hp_brk h # qs) \<and> list_all (sole h') (xs @ hp_brk h # qs)
          \<and> length (pbytes h' (xs @ hp_brk h # qs)) = length (pbytes h xs) + n
          \<and> set qs \<subseteq> {hp_brk h..<hp_brk h'} \<and> same_on (- set (xs @ hp_brk h # qs)) h h' \<and> hp_mbox h' = hp_mbox h
          \<and> good_head (the_pbuf h' (hp_brk h)) (hp_brk h) off n
          \<and> (\<forall>x \<in> set xs. pb_slot (the_pbuf h' x) = pb_slot (the_pbuf h x)))"

lemma alloc_result_fail:
  assumes "alloc_result h1 (xs @ [q]) n1 off1 None h'" "q = hp_brk h" "same_on (- set (xs @ [q])) h h1"
    and "heap_ok h" "hp_brk h1 = Suc (hp_brk h)" "hp_oom h1 = hp_oom h"
  shows "alloc_result h xs n off None h'"
proof -
  have q: "hp_pbufs h q = None" "hp_blocks h q = None"
    using heap_okD [OF assms(4)] assms(2) by (metis less_irrefl not_None_eq)+
  have "(hp_pbufs h1) |` (- set (xs @ [q])) = (hp_pbufs h) |` (- set xs)"
    "(hp_blocks h1) |` (- set (xs @ [q])) = (hp_blocks h) |` (- set xs)"
    using assms(3) q by (auto simp: restrict_map_def same_on_def fun_eq_iff)
  then show ?thesis using assms(1,5,6) by (simp add: alloc_result_def)
qed

lemma alloc_result_more:
  assumes "alloc_result h1 (xs @ [q]) n1 off1 (Some a) h'" "q = hp_brk h" "same_on (- set (xs @ [q])) h h1"
    and "hp_brk h1 = Suc (hp_brk h)" "hp_oom h1 = hp_oom h" "hp_mbox h1 = hp_mbox h"
    and "length (pbytes h1 (xs @ [q])) + n1 = length (pbytes h xs) + n"
    and "good_head (the_pbuf h1 q) q off n"
    and "\<And>x. x \<in> set xs \<Longrightarrow> pb_slot (the_pbuf h1 x) = pb_slot (the_pbuf h x)"
  shows "alloc_result h xs n off (Some a) h'"
proof -
  obtain qs where qs: "packet h' (Some a) ((xs @ [q]) @ hp_brk h1 # qs)" "list_all (sole h') ((xs @ [q]) @ hp_brk h1 # qs)"
      "length (pbytes h' ((xs @ [q]) @ hp_brk h1 # qs)) = length (pbytes h1 (xs @ [q])) + n1"
      "set qs \<subseteq> {hp_brk h1..<hp_brk h'}" "same_on (- set ((xs @ [q]) @ hp_brk h1 # qs)) h1 h'" "hp_mbox h' = hp_mbox h1"
      "\<forall>x \<in> set (xs @ [q]). pb_slot (the_pbuf h' x) = pb_slot (the_pbuf h1 x)"
      "hp_brk h1 \<le> hp_brk h'" "hp_oom h' = hp_oom h1" "heap_ok h'" "mbox_inv (hp_mbox h')"
    using assms(1) unfolding alloc_result_def option.case by blast
  have sh: "same_on (- set (xs @ hp_brk h # (hp_brk h1 # qs))) h h'"
  proof (rule same_on_trans)
    show "same_on (- set (xs @ hp_brk h # (hp_brk h1 # qs))) h h1"
      by (rule same_on_subset [OF assms(3)]) (simp add: assms(2) subset_iff)
    show "same_on (- set (xs @ hp_brk h # (hp_brk h1 # qs))) h1 h'"
      by (rule same_on_subset [OF qs(5)]) (simp add: assms(2) subset_iff)
  qed
  have "hp_pbufs h' (hp_brk h1) \<noteq> None" using chain_live [OF packet_chain [OF qs(1)]] by simp
  then have "hp_brk h1 < hp_brk h'" using heap_okD(1) [OF qs(10)] by auto
  then have sub: "set (hp_brk h1 # qs) \<subseteq> {hp_brk h..<hp_brk h'}" using qs(4) assms(4) by auto
  have ap: "(xs @ [q]) @ hp_brk h1 # qs = xs @ hp_brk h # (hp_brk h1 # qs)" using assms(2) by simp
  have pay: "good_head (the_pbuf h' (hp_brk h)) (hp_brk h) off n"
    using qs(7) assms(2,8) good_head_slot [of "the_pbuf h' q" "the_pbuf h1 q"] by simp
  have pays: "\<forall>x \<in> set xs. pb_slot (the_pbuf h' x) = pb_slot (the_pbuf h x)"
    using qs(7) assms(9) by simp
  have len: "length (pbytes h' (xs @ hp_brk h # (hp_brk h1 # qs))) = length (pbytes h xs) + n"
    using qs(3) assms(7) unfolding ap by simp
  have "hp_brk h \<le> hp_brk h'" "hp_oom h' = hp_oom h" "hp_mbox h' = hp_mbox h"
    using qs(6,8,9) assms(4-6) by simp_all
  then show ?thesis
    unfolding alloc_result_def option.case
    using qs(1,2) [unfolded ap] qs(10,11) len sub sh pay pays by blast
qed

lemma pool_room_le: "unat (of_nat (pool_room offset) :: u16) = pool_room offset" "pool_room offset \<le> 1024"
  by (simp_all add: unat_of_nat_u16 LWIP_MEM_ALIGN_SIZE_def PBUF_POOL_BUFSIZE_def MEM_ALIGNMENT_def)

lemma pbuf_alloc_pool_spec:
  assumes "pool_inv h p prev xs (unat rem)" "env_ok h" "pool_room offset > 0"
  shows "\<exists>r h'. pbuf_alloc_pool p prev rem offset h = Some (r, h')
    \<and> alloc_result h xs (unat rem) (LWIP_MEM_ALIGN_SIZE (unat offset)) r h' \<and> (r = None \<longrightarrow> (\<exists>a. hp_oom h a))"
  using assms
proof (induction "unat rem" arbitrary: rem p prev xs offset h rule: less_induct)
  case less
  let ?off = "LWIP_MEM_ALIGN_SIZE (unat offset)" and ?q = "hp_brk h"
  have ok: "heap_ok h" using less.prems(1) by (simp add: pool_inv_def)
  show ?case
  proof (cases "hp_oom h (hp_brk h)")
    case True
    from pbuf_alloc_pool_fail [OF True less.prems(1,2)] True show ?thesis by (fastforce simp: alloc_result_def)
  next
    case False
    define n where "n = pool_len rem offset"
    define h1 where "h1 = link_last (add_pbuf h (LWIP_MEM_ALIGN_SIZE PBUF_POOL_BUFSIZE) ?off rem n PBUF_POOL) prev ?q"
    define p1 where "p1 = (if p = None then Some ?q else p)"
    have nr: "unat n = min (unat rem) (pool_room offset)" by (simp add: n_def pool_room_le del: of_nat_diff)
    have le: "unat n \<le> unat rem" "?off + unat n \<le> LWIP_MEM_ALIGN_SIZE PBUF_POOL_BUFSIZE" using nr less.prems(3) by auto
    note S = pool_inv_step [OF less.prems(1) le, folded h1_def p1_def]
    have run: "pbuf_alloc_pool p prev rem offset h = (if rem - n > 0 then pbuf_alloc_pool p1 (Some ?q) (rem - n) 0 h1 else Some (p1, h1))"
      unfolding pbuf_alloc_pool_ok [OF False less.prems(3,1)] Let_def by (simp add: n_def h1_def p1_def)
    have pay: "good_head (the_pbuf h1 ?q) ?q ?off (unat rem)"
      using S(8) nr by (auto simp: good_head_def LWIP_MEM_ALIGN_SIZE_def PBUF_POOL_BUFSIZE_def MEM_ALIGNMENT_def)
    have pays: "pb_slot (the_pbuf h1 x) = pb_slot (the_pbuf h x)" if x: "x \<in> set xs" for x
    proof -
      obtain pb where pb: "hp_pbufs h x = Some pb" using chain_live [of h p xs x] less.prems(1) x by (auto simp: pool_inv_def)
      then show ?thesis using S(9) [OF x pb] by auto
    qed
    have um: "unat (rem - n) = unat rem - unat n" using le(1) by (simp add: unat_u16_sub)
    show ?thesis
    proof (cases "rem - n > 0")
      case True
      have "unat (rem - n) < unat rem" using True nr um less.prems(3) by (auto simp: word_less_nat_alt)
      moreover have "env_ok h1" using less.prems(2) S(5) by (simp add: env_ok_def)
      ultimately obtain r h' where r: "pbuf_alloc_pool p1 (Some ?q) (rem - n) 0 h1 = Some (r, h')"
          "alloc_result h1 (xs @ [?q]) (unat (rem - n)) (LWIP_MEM_ALIGN_SIZE (unat (0 :: u16))) r h'"
          "r = None \<longrightarrow> (\<exists>a. hp_oom h1 a)"
        using less.hyps [OF _ S(1), of 0] by (auto simp: LWIP_MEM_ALIGN_SIZE_def PBUF_POOL_BUFSIZE_def MEM_ALIGNMENT_def)
      have "alloc_result h xs (unat rem) ?off r h'"
      proof (cases r)
        case None
        then show ?thesis using alloc_result_fail [OF r(2) [unfolded None] refl S(2) ok S(4,6)] by simp
      next
        case (Some a)
        have "length (pbytes h1 (xs @ [?q])) + unat (rem - n) = length (pbytes h xs) + unat rem"
          using S(3) um le(1) by simp
        then show ?thesis
          using alloc_result_more [OF r(2) [unfolded Some] refl S(2,4,6,5) _ pay pays] Some by simp
      qed
      then show ?thesis using run True r(1,3) S(6) by auto
    next
      case F: False
      then have e: "unat (rem - n) = 0" by (simp add: word_less_nat_alt)
      obtain a where a: "p1 = Some a" by (cases p) (auto simp: p1_def)
      have "packet h1 p1 (xs @ [?q])"
        using S(1) e pend_ok_0 [of h1 "xs @ [?q]"] by (auto simp: pool_inv_def packet_def list_all_iff owned_readable)
      moreover have "length (pbytes h1 (xs @ [?q])) = length (pbytes h xs) + unat rem" using S(3) um e le(1) by simp
      ultimately have "alloc_result h xs (unat rem) ?off p1 h1"
        using S(1,2,4-6) a pay pays less.prems(2)
        by (auto simp: alloc_result_def pool_inv_def env_ok_def intro!: exI [of _ "[]"])
      then show ?thesis using run F a by auto
    qed
  qed
qed


section \<open>\<open>pbuf_alloc\<close>\<close>

lemma layer_room: "unat (pbuf_layer_hlen layer) \<le> 54"
  by (cases layer) (simp_all add: pbuf_layer_hlen_def)

lemma align_bounds: "n \<le> LWIP_MEM_ALIGN_SIZE n" "LWIP_MEM_ALIGN_SIZE n \<le> n + 7"
  by (simp_all add: LWIP_MEM_ALIGN_SIZE_def MEM_ALIGNMENT_def)

lemma pbuf_alloc_ram:
  assumes "heap_ok h" "env_ok h"
  shows "\<exists>r h'. pbuf_alloc layer n PBUF_RAM h = Some (r, h')
    \<and> alloc_result h [] (unat n) (LWIP_MEM_ALIGN_SIZE (unat (pbuf_layer_hlen layer))) r h'"
proof -
  let ?off = "LWIP_MEM_ALIGN_SIZE (unat (pbuf_layer_hlen layer))"
  let ?len = "of_nat (?off + LWIP_MEM_ALIGN_SIZE (unat n)) :: u16"
  consider (big) "unat ?len < LWIP_MEM_ALIGN_SIZE (unat n)"
    | (oom) "\<not> unat ?len < LWIP_MEM_ALIGN_SIZE (unat n)" "hp_oom h (hp_brk h)"
    | (ok) "\<not> unat ?len < LWIP_MEM_ALIGN_SIZE (unat n)" "\<not> hp_oom h (hp_brk h)" by blast
  then show ?thesis
  proof cases
    case big
    then have "pbuf_alloc layer n PBUF_RAM h = Some (None, h)" by (simp add: pbuf_alloc_def Let_def)
    then show ?thesis using assms by (auto simp: alloc_result_def env_ok_def)
  next
    case oom
    let ?h = "h\<lparr>hp_brk := Suc (hp_brk h)\<rparr>"
    have "pbuf_alloc layer n PBUF_RAM h = Some (None, ?h)" using oom
      by (auto simp: pbuf_alloc_def Let_def mem_malloc_def simp del: of_nat_add)
    moreover have "heap_ok ?h" using assms(1) by (auto simp: heap_ok_def subset_iff less_Suc_eq)
    ultimately show ?thesis using assms(2) by (auto simp: alloc_result_def env_ok_def)
  next
    case ok
    have sz: "unat ?len = ?off + LWIP_MEM_ALIGN_SIZE (unat n)"
    proof (cases "?off + LWIP_MEM_ALIGN_SIZE (unat n) < 65536")
      case True
      then show ?thesis by (simp add: unat_of_nat_u16 del: of_nat_add)
    next
      case False
      let ?s = "?off + LWIP_MEM_ALIGN_SIZE (unat n)"
      have o: "?off \<le> 61" using layer_room [of layer] align_bounds(2) [of "unat (pbuf_layer_hlen layer)"] by linarith
      have "LWIP_MEM_ALIGN_SIZE (unat n) \<le> 65542" using align_bounds(2) [of "unat n"] unat_u16_less [of n] by linarith
      then have "?s - 65536 < 65536" using o by linarith
      then have "?s mod 65536 = ?s - 65536" using False by (subst le_mod_geq) simp_all
      then have "unat ?len < LWIP_MEM_ALIGN_SIZE (unat n)"
        using False o by (simp only: unat_of_nat_u16_mod)
      then show ?thesis using ok(1) by blast
    qed
    define h' where "h' = add_pbuf h (unat ?len) ?off n n PBUF_RAM"
    have room: "?off + unat n \<le> unat ?len" using sz align_bounds(1) [of "unat n"] by linarith
    note A = add_pbuf_spec [OF h'_def refl assms(1) room]
    have "pbuf_alloc layer n PBUF_RAM h = Some (Some (hp_brk h), h')"
      using ok by (auto simp: pbuf_alloc_def Let_def mem_malloc_def h'_def add_pbuf_def simp del: of_nat_add)
    moreover have "packet h' (Some (hp_brk h)) [hp_brk h]"
      using A(1,2) by (simp add: packet_def) (simp add: pbuf_init_alloced_pbuf_def)
    moreover have "good_head (the_pbuf h' (hp_brk h)) (hp_brk h) ?off (unat n)"
      using A(1) contiguous_init [of PBUF_RAM] by (simp add: good_head_def pbuf_init_alloced_pbuf_def)
    ultimately show ?thesis using A assms(2)
      by (auto simp: alloc_result_def env_ok_def intro!: exI [of _ "[]"])
  qed
qed

lemma pool_room_layer: "0 < pool_room (pbuf_layer_hlen layer)"
  by (cases layer) (simp_all add: pbuf_layer_hlen_def LWIP_MEM_ALIGN_SIZE_def PBUF_POOL_BUFSIZE_def MEM_ALIGNMENT_def)

lemma pbuf_alloc_spec:
  assumes "heap_ok h" "env_ok h" "type = PBUF_RAM \<or> type = PBUF_POOL"
  shows "\<exists>r h'. pbuf_alloc layer n type h = Some (r, h')
    \<and> alloc_result h [] (unat n) (LWIP_MEM_ALIGN_SIZE (unat (pbuf_layer_hlen layer))) r h'"
proof (cases "type = PBUF_RAM")
  case True
  then show ?thesis using pbuf_alloc_ram [OF assms(1,2)] by simp
next
  case False
  have "pool_inv h None None [] (unat n)" using assms(1) by (simp add: pool_inv_def)
  moreover have "0 < pool_room (pbuf_layer_hlen layer)" by (rule pool_room_layer)
  moreover have "pbuf_alloc layer n type h = pbuf_alloc_pool None None n (pbuf_layer_hlen layer) h"
    using False assms(3) by (simp add: pbuf_alloc_def Let_def)
  ultimately show ?thesis using pbuf_alloc_pool_spec [OF _ assms(2), of None None "[]" n "pbuf_layer_hlen layer"] by auto
qed

lemma pbuf_alloc_pool_type_succeeds:
  assumes "heap_ok h" "env_ok h" "\<forall>a. \<not> hp_oom h a"
  shows "\<exists>a h'. pbuf_alloc layer n PBUF_POOL h = Some (Some a, h')"
proof -
  have "pool_inv h None None [] (unat n)" using assms(1) by (simp add: pool_inv_def)
  moreover have "0 < pool_room (pbuf_layer_hlen layer)" by (rule pool_room_layer)
  ultimately obtain r h' where "pbuf_alloc_pool None None n (pbuf_layer_hlen layer) h = Some (r, h')" "r \<noteq> None"
    using pbuf_alloc_pool_spec [OF _ assms(2)] assms(3) by blast
  moreover have "pbuf_alloc layer n PBUF_POOL h = pbuf_alloc_pool None None n (pbuf_layer_hlen layer) h"
    by (simp add: pbuf_alloc_def Let_def)
  ultimately show ?thesis by auto
qed

lemma pbuf_alloc_cases:
  assumes "heap_ok h" "env_ok h" "type = PBUF_RAM \<or> type = PBUF_POOL"
  obtains (fail) h' where "pbuf_alloc layer n type h = Some (None, h')" "heap_ok h'"
      "hp_pbufs h' = hp_pbufs h" "hp_blocks h' = hp_blocks h" "mbox_inv (hp_mbox h')"
  | (ok) h' a as off where "pbuf_alloc layer n type h = Some (Some a, h')" "heap_ok h'" "packet h' (Some a) (a # as)"
      "list_all (sole h') (a # as)" "length (pbytes h' (a # as)) = unat n" "set (a # as) \<subseteq> {hp_brk h..<hp_brk h'}"
      "same_on (- set (a # as)) h h'" "hp_mbox h' = hp_mbox h" "pb_payload (the_pbuf h' a) = Some (a, off)"
      "unat (pbuf_layer_hlen layer) \<le> off" "off \<le> unat (pbuf_layer_hlen layer) + 7" "good_head (the_pbuf h' a) a off (unat n)"
      "hp_oom h' = hp_oom h"
proof -
  obtain r h' where r: "pbuf_alloc layer n type h = Some (r, h')"
      "alloc_result h [] (unat n) (LWIP_MEM_ALIGN_SIZE (unat (pbuf_layer_hlen layer))) r h'"
    using pbuf_alloc_spec [OF assms] by blast
  show thesis
  proof (cases r)
    case None
    then show thesis using r fail [of h'] by (simp add: alloc_result_def restrict_map_def)
  next
    case (Some a)
    let ?q = "hp_brk h"
    obtain qs where qs: "packet h' (Some a) (?q # qs)" "list_all (sole h') (?q # qs)"
        "length (pbytes h' (?q # qs)) = unat n" "set qs \<subseteq> {?q..<hp_brk h'}" "same_on (- set (?q # qs)) h h'"
        "hp_mbox h' = hp_mbox h"
        "good_head (the_pbuf h' ?q) ?q (LWIP_MEM_ALIGN_SIZE (unat (pbuf_layer_hlen layer))) (unat n)"
        "heap_ok h'" "hp_oom h' = hp_oom h"
      using r(2) unfolding Some alloc_result_def option.case append_Nil by auto
    have a: "a = ?q" using packet_chain [OF qs(1)] by simp
    have "hp_pbufs h' ?q \<noteq> None" using chain_live [OF packet_chain [OF qs(1)]] by simp
    then have "?q < hp_brk h'" using heap_okD(1) [OF qs(8)] by auto
    then have "set (?q # qs) \<subseteq> {?q..<hp_brk h'}" using qs(4) by auto
    moreover have "pb_payload (the_pbuf h' ?q) = Some (?q, LWIP_MEM_ALIGN_SIZE (unat (pbuf_layer_hlen layer)))"
      using qs(7) by (simp add: good_head_def)
    ultimately show thesis using ok [of a h' qs] r(1) qs Some align_bounds unfolding a by blast
  qed
qed

text \<open>When \<open>malloc\<close> succeeds, so does the allocation of a packet of moderate size in one piece.\<close>

lemma pbuf_alloc_ram_succeeds:
  assumes "\<not> hp_oom h (hp_brk h)" "unat n \<le> 65400"
  shows "\<exists>h'. pbuf_alloc layer n PBUF_RAM h = Some (Some (hp_brk h), h')"
proof -
  let ?off = "LWIP_MEM_ALIGN_SIZE (unat (pbuf_layer_hlen layer))" and ?n = "LWIP_MEM_ALIGN_SIZE (unat n)"
  have "?off + ?n < 65536"
    using layer_room [of layer] align_bounds(2) [of "unat (pbuf_layer_hlen layer)"] align_bounds(2) [of "unat n"] assms(2) by linarith
  then have "unat (of_nat (?off + ?n) :: u16) = ?off + ?n" by (rule unat_of_nat_u16)
  then have "\<not> unat (of_nat (?off + ?n) :: u16) < ?n" by simp
  then show ?thesis using assms(1) by (auto simp: pbuf_alloc_def Let_def mem_malloc_def simp del: of_nat_add)
qed

end
