(* ===== verification/Pbuf_Header.thy ===== *)
theory Pbuf_Header
  imports Pbuf_Alloc
begin

text \<open>
  Moving the payload pointer of the first pbuf of a packet: \<open>pbuf_add_header\<close> uncovers bytes in
  front of the payload, \<open>pbuf_remove_header\<close> hides them again.  Both are exact inverses where
  they succeed.
\<close>

text \<open>Setting payload, length and total of the first pbuf.\<close>

definition move_payload :: "heap \<Rightarrow> addr \<Rightarrow> nat \<Rightarrow> u16 \<Rightarrow> u16 \<Rightarrow> heap" where
  "move_payload h a off len tot =
     put_pbuf h a ((the_pbuf h a)\<lparr>pb_payload := Some (a, off), pb_len := len, pb_tot_len := tot\<rparr>)"

lemma move_payload_spec:
  assumes pk: "packet h p (a # as)" and bs: "hp_blocks h a = Some bs" "off + unat len \<le> length bs"
    and tot: "unat tot = unat len + length (pbytes h as)" and h': "h' = move_payload h a off len tot"
  shows "packet h' p (a # as)" "pbytes h' (a # as) = seg off (unat len) bs @ pbytes h as"
    "same_on (- {a}) h h'" "list_all (sole h) (a # as) \<Longrightarrow> list_all (sole h') (a # as)"
    "hp_blocks h' = hp_blocks h" "pb_payload (the_pbuf h' a) = Some (a, off)"
proof -
  obtain pb where pb: "p = Some a" "hp_pbufs h a = Some pb" "chain h (pb_next pb) as"
    using pk by (auto simp: packet_def)
  have na: "a \<notin> set as" using chain_distinct [OF packet_chain [OF pk]] by simp
  let ?pb = "pb\<lparr>pb_payload := Some (a, off), pb_len := len, pb_tot_len := tot\<rparr>"
  have H: "h' = put_pbuf h a ?pb" using pb(2) h' by (simp add: move_payload_def)
  show s: "same_on (- {a}) h h'" by (auto simp: H same_on_def)
  have ow: "owned h x" if "x \<in> set as" for x using pk that by (simp add: packet_def list_all_iff)
  have rest: "owned h' x \<and> pdata h' x = pdata h x" if "x \<in> set as" for x
    using owned_same [OF s _ ow [OF that]] pdata_same [OF s _ ow [OF that]] that na by auto
  have pa: "hp_pbufs h' a = Some ?pb" by (simp add: H)
  have oa: "owned h' a" using pa bs by (auto simp: owned_def H)
  have da: "pdata h' a = seg off (unat len) bs"
    using pdata_readable [OF pa, of a off bs] bs by (simp add: H)
  have pr: "pbytes h' as = pbytes h as" using rest by (intro pbytes_cong) simp
  show "pbytes h' (a # as) = seg off (unat len) bs @ pbytes h as" using da pr by simp
  have "tot_ok h' as" using pk na tot_ok_put_notin [OF na] by (simp add: H packet_def)
  moreover have "list_all (readable h') as" using rest by (auto simp: list_all_iff owned_readable)
  ultimately have "tot_ok h' (a # as)" using tot pa pr by (simp add: length_pbytes [symmetric])
  moreover have "chain h' p (a # as)" using pb na H by simp
  ultimately show "packet h' p (a # as)" using oa rest by (simp add: packet_def list_all_iff)
  show "list_all (sole h') (a # as)" if so: "list_all (sole h) (a # as)"
  proof -
    have "sole h' x" if "x \<in> set as" for x
      using so that na H by (auto simp: list_all_iff sole_def)
    moreover have "sole h' a" using so pb(2) H by (auto simp: sole_def)
    ultimately show ?thesis by (simp add: list_all_iff)
  qed
  show "hp_blocks h' = hp_blocks h" by (simp add: H)
  show "pb_payload (the_pbuf h' a) = Some (a, off)" using pa by simp
qed

section \<open>Removing a header\<close>

lemma packet_tot_bound: "packet h p as \<Longrightarrow> length (pbytes h as) < 65536"
  by (metis packet_Some unat_u16_less)

lemma pbuf_remove_header_spec:
  assumes pk: "packet h (Some a) (a # as)" and n: "n \<le> unat (pb_len (the_pbuf h a))"
  obtains h' where "pbuf_remove_header (Some a) n h = Some (0, h')" "packet h' (Some a) (a # as)"
    "pbytes h' (a # as) = drop n (pbytes h (a # as))" "same_on (- {a}) h h'"
    "list_all (sole h) (a # as) \<Longrightarrow> list_all (sole h') (a # as)"
    "hp_blocks h' = hp_blocks h"
    "\<And>off. pb_payload (the_pbuf h a) = Some (a, off) \<Longrightarrow> pb_payload (the_pbuf h' a) = Some (a, off + n)"
    "h'\<lparr>hp_pbufs := Map.empty\<rparr> = h\<lparr>hp_pbufs := Map.empty\<rparr>"
proof -
  have "owned h a" using pk by (simp add: packet_def)
  then obtain pb off bs where pb: "hp_pbufs h a = Some pb" "pb_payload pb = Some (a, off)" "hp_blocks h a = Some bs"
      "off + unat (pb_len pb) \<le> length bs" "pdata h a = seg off (unat (pb_len pb)) bs"
    by (rule owned_pbuf)
  have nb: "n \<le> unat (pb_len pb)" "n \<le> 0xFFFF" using n pb(1) le_trans [OF _ unat_u16_le] by auto
  show thesis
  proof (cases "n = 0")
    case True
    then have "pbuf_remove_header (Some a) n h = Some (0, h)" by (simp add: pbuf_remove_header_def)
    then show thesis using that [of h] pk True by simp
  next
    case False
    let ?len = "pb_len pb - of_nat n" and ?tot = "pb_tot_len pb - of_nat n"
    define h' where "h' = move_payload h a (off + n) ?len ?tot"
    have tl: "unat (pb_tot_len pb) = unat (pb_len pb) + length (pbytes h as)"
      using pk pb(1) packet_readable [OF pk] by (simp add: packet_def length_pbytes)
    have un: "unat (of_nat n :: u16) = n" using nb(2) by (simp add: unat_of_nat_u16)
    have ul: "unat ?len = unat (pb_len pb) - n" "unat ?tot = unat (pb_tot_len pb) - n"
      using nb tl by (simp_all add: unat_u16_sub un)
    have pre: "off + n + unat ?len \<le> length bs" "unat ?tot = unat ?len + length (pbytes h as)"
      using pb(4) nb ul tl by simp_all
    note M = move_payload_spec [OF pk pb(3) pre h'_def]
    have "pbuf_remove_header (Some a) n h = Some (0, h')"
      using False nb pb un by (simp add: pbuf_remove_header_def h'_def move_payload_def word_le_nat_alt Let_def)
    moreover have "pbytes h' (a # as) = drop n (pbytes h (a # as))"
      using M(2) pb(4,5) nb ul by (simp add: drop_seg)
    moreover have "h'\<lparr>hp_pbufs := Map.empty\<rparr> = h\<lparr>hp_pbufs := Map.empty\<rparr>"
      by (simp add: h'_def move_payload_def put_pbuf_def)
    ultimately show thesis using that [of h'] M pb(1,2) by auto
  qed
qed

text \<open>A header that is longer than the first pbuf trips the check, and the process aborts.\<close>

lemma pbuf_remove_header_abort:
  assumes "hp_pbufs h a = Some pb" "unat (pb_len pb) < n" "n \<le> 0xFFFF"
  shows "pbuf_remove_header (Some a) n h = None"
  using assms by (simp add: pbuf_remove_header_def word_le_nat_alt unat_of_nat_u16)

text \<open>Moving the payload does not change the type of a pbuf.\<close>

lemma pbuf_header_type:
  "pbuf_add_header (Some a) n h = Some (e, h') \<Longrightarrow> pb_type_internal (the_pbuf h' a) = pb_type_internal (the_pbuf h a)"
  "pbuf_remove_header (Some a) n h = Some (e, h') \<Longrightarrow> pb_type_internal (the_pbuf h' a) = pb_type_internal (the_pbuf h a)"
  unfolding pbuf_add_header_def pbuf_add_header_impl_def pbuf_remove_header_def
  by (auto simp: Let_def lwip_assert_def bind_eq_Some_conv the_pbuf_def put_pbuf_def split: if_splits option.splits)

section \<open>Adding a header\<close>

lemma pbuf_add_header_spec:
  assumes pk: "packet h (Some a) (a # as)" and pl: "pb_payload (the_pbuf h a) = Some (a, off)"
    and ct: "contiguous_data (the_pbuf h a)" and n: "n \<le> off" "n + length (pbytes h (a # as)) < 65536"
  obtains h' bs where "pbuf_add_header (Some a) n h = Some (0, h')" "packet h' (Some a) (a # as)"
    "hp_blocks h a = Some bs" "pbytes h' (a # as) = seg (off - n) n bs @ pbytes h (a # as)" "same_on (- {a}) h h'"
    "list_all (sole h) (a # as) \<Longrightarrow> list_all (sole h') (a # as)" "hp_blocks h' = hp_blocks h"
    "pb_payload (the_pbuf h' a) = Some (a, off - n)" "unat (pb_len (the_pbuf h' a)) = unat (pb_len (the_pbuf h a)) + n"
    "h'\<lparr>hp_pbufs := Map.empty\<rparr> = h\<lparr>hp_pbufs := Map.empty\<rparr>"
proof -
  have "owned h a" using pk by (simp add: packet_def)
  then obtain pb off' bs where pb: "hp_pbufs h a = Some pb" "pb_payload pb = Some (a, off')" "hp_blocks h a = Some bs"
      "off' + unat (pb_len pb) \<le> length bs" "pdata h a = seg off' (unat (pb_len pb)) bs"
    by (rule owned_pbuf)
  have oo: "off' = off" using pl pb(1,2) by simp
  show thesis
  proof (cases "n = 0")
    case True
    then have "pbuf_add_header (Some a) n h = Some (0, h)"
      by (simp add: pbuf_add_header_def pbuf_add_header_impl_def)
    then show thesis using that [of h] pk True pb pl by simp
  next
    case False
    let ?len = "pb_len pb + of_nat n" and ?tot = "pb_tot_len pb + of_nat n"
    define h' where "h' = move_payload h a (off - n) ?len ?tot"
    have tl: "unat (pb_tot_len pb) = unat (pb_len pb) + length (pbytes h as)"
      using pk pb(1) packet_readable [OF pk] by (simp add: packet_def length_pbytes)
    have ld: "length (pdata h a) = unat (pb_len pb)" using pb(4,5) by simp
    have un: "unat (of_nat n :: u16) = n" using n(2) by (simp add: unat_of_nat_u16)
    have ul: "unat ?len = unat (pb_len pb) + n" "unat ?tot = unat (pb_tot_len pb) + n"
      using n(2) tl ld by (simp_all add: unat_u16_add un)
    have pre: "off - n + unat ?len \<le> length bs" "unat ?tot = unat ?len + length (pbytes h as)"
      using pb(4) n ul tl oo by simp_all
    note M = move_payload_spec [OF pk pb(3) pre h'_def]
    have nw: "\<not> of_nat n + pb_tot_len pb < (of_nat n :: u16)"
      using ul(2) un by (simp add: word_less_nat_alt add.commute)
    have "n \<le> 0xFFFF" using n(2) by simp
    then have "pbuf_add_header (Some a) n h = Some (0, h')"
      using False pb oo n(1) nw ct
      by (simp add: pbuf_add_header_def pbuf_add_header_impl_def h'_def move_payload_def contiguous_data_def Let_def)
    moreover have "pbytes h' (a # as) = seg (off - n) n bs @ pbytes h (a # as)"
      using M(2) pb(5) ul n(1) oo seg_append_seg [of "off - n" n bs "unat (pb_len pb)"] by (simp add: add.commute)
    moreover have "h'\<lparr>hp_pbufs := Map.empty\<rparr> = h\<lparr>hp_pbufs := Map.empty\<rparr>"
      by (simp add: h'_def move_payload_def put_pbuf_def)
    moreover have "unat (pb_len (the_pbuf h' a)) = unat (pb_len (the_pbuf h a)) + n"
      using ul(1) pb(1) by (simp add: h'_def move_payload_def)
    ultimately show thesis using that [of h' bs] M pb(1,3) by auto
  qed
qed

text \<open>No room in front of the payload: the call fails and changes nothing.\<close>

lemma pbuf_add_header_no_room:
  assumes "hp_pbufs h a = Some pb" "pb_payload pb = Some (a, off)" "contiguous_data pb" "off < n"
  shows "pbuf_add_header (Some a) n h = Some (1, h)"
  using assms by (simp add: pbuf_add_header_def pbuf_add_header_impl_def contiguous_data_def Let_def)

lemma pbuf_header_inverse:
  assumes "hp_pbufs h a = Some pb" "n \<le> 0xFFFF"
    and "pbuf_add_header (Some a) n h = Some (0, h')" "unat (pb_len pb) + n < 65536"
  shows "pbuf_remove_header (Some a) n h' = Some (0, h)"
proof (cases "n = 0")
  case True
  then show ?thesis using assms by (simp add: pbuf_add_header_def pbuf_add_header_impl_def pbuf_remove_header_def)
next
  case False
  have un: "unat (of_nat n :: u16) = n" using assms(2) by (simp add: unat_of_nat_u16)
  have ge: "(of_nat n :: u16) \<le> pb_len pb + of_nat n"
    using assms(4) un by (simp add: word_le_nat_alt unat_u16_add)
  obtain b off where p: "pb_payload pb = Some (b, off)" "n \<le> off"
      "h' = put_pbuf h a (pb\<lparr>pb_payload := Some (b, off - n), pb_len := pb_len pb + of_nat n,
                  pb_tot_len := pb_tot_len pb + of_nat n\<rparr>)"
    using assms(1-3) False
    by (auto simp: pbuf_add_header_def pbuf_add_header_impl_def bind_eq_Some_conv lwip_assert_def Let_def split: if_splits)
  have e: "pb\<lparr>pb_payload := Some (b, off)\<rparr> = pb" using p(1) by (cases pb) simp
  have i: "h\<lparr>hp_pbufs := (hp_pbufs h)(a \<mapsto> pb)\<rparr> = h" using assms(1) by (simp add: fun_upd_idem)
  show ?thesis using p False assms(2) ge by (simp add: pbuf_remove_header_def) (simp add: put_pbuf_def e i)
qed


section \<open>Properties\<close>

text \<open>A packet of two pbufs with room for a header, and a second packet, for the concrete instances.\<close>

definition ex_two :: heap where
  "ex_two = \<lparr>hp_pbufs = [1 \<mapsto> ex_pbuf (Some 2) (1, 2) 5 2 1, 2 \<mapsto> ex_pbuf None (2, 0) 3 3 1,
       3 \<mapsto> ex_pbuf None (3, 0) 2 2 1],
     hp_blocks = [1 \<mapsto> [7, 9, 104, 101], 2 \<mapsto> [108, 108, 111], 3 \<mapsto> [33, 34]], hp_msgs = Map.empty,
     hp_mbox = sys_mbox_new (replicate 128 0), hp_ooseq_pending = False, hp_brk = 4,
     hp_oom = (\<lambda>_. False), hp_junk = (\<lambda>_ _. 0)\<rparr>"

lemma ex_two_packets:
  "packet ex_two (Some 1) [1, 2]" "pbytes ex_two [1, 2] = [104, 101, 108, 108, 111]"
  "packet ex_two (Some 3) [3]" "pbytes ex_two [3] = [33, 34]"
  "list_all (sole ex_two) [1, 2]" "list_all (sole ex_two) [3]" "heap_ok ex_two"
  "pb_payload (the_pbuf ex_two 1) = Some (1, 2)" "pb_len (the_pbuf ex_two 1) = 2" "contiguous_data (the_pbuf ex_two 1)"
  by (simp_all add: packet_def ex_two_def ex_pbuf_def owned_def the_pbuf_def pdata_def mem_read_def seg_def
      sole_def src_ok_def pbuf_get_allocsrc_def PBUF_TYPE_ALLOC_SRC_MASK_def PBUF_TYPE_ALLOC_SRC_MASK_STD_HEAP_def
      PBUF_TYPE_ALLOC_SRC_MASK_STD_MEMP_PBUF_def PBUF_TYPE_ALLOC_SRC_MASK_STD_MEMP_PBUF_POOL_def heap_ok_def
      contiguous_data_def PBUF_TYPE_FLAG_STRUCT_DATA_CONTIGUOUS_def)

lemma ex_two_env: "env_ok ex_two"
  using mbox_new_inv [of "replicate 128 (0 :: nat)"]
  by (simp add: env_ok_def ex_two_def SYS_MBOX_SIZE_def) (simp add: sys_mbox_new_def mbox_ready_def SYS_MBOX_SIZE_def INT_MAX_def)

text \<open>C25: filling a packet with \<open>pbuf_take\<close> and reading it back with \<open>pbuf_copy_partial\<close> returns the
  bytes that were put in, for every way the packet is split into pbufs; the rest of the packet
  and all other pbufs and blocks keep their contents.\<close>

theorem pbuf_take_copy_roundtrip:
  assumes "packet h p as" "unat len \<le> length (pbytes h as)" "unat len \<le> length xs"
  shows "\<exists>h'. pbuf_take p xs len h = Some (ERR_OK, h') \<and> packet h' p as
    \<and> pbuf_copy_partial p len 0 h' = Some (len, take (unat len) xs)
    \<and> drop (unat len) (pbytes h' as) = drop (unat len) (pbytes h as) \<and> same_on (- set as) h h'"
proof -
  obtain h' where h': "pbuf_take p xs len h = Some (ERR_OK, h')" "packet h' p as"
      "pbytes h' as = take (unat len) xs @ drop (unat len) (pbytes h as)" "same_on (- set as) h h'"
    using pbuf_take_spec [OF assms] by metis
  have "pbuf_copy_partial p len 0 h' = Some (len, take (unat len) xs)"
    using pbuf_copy_partial_spec [of h' p as len 0] h'(2,3) packet_readable [OF h'(2)] assms(2,3)
    by (simp add: packet_def min_absorb2)
  then show ?thesis using h' assms(3) by (intro exI [of _ h']) simp
qed

theorem pbuf_take_copy_roundtrip_witness:
  "\<exists>h'. pbuf_take (Some 1) [1, 2, 3] 3 ex_two = Some (ERR_OK, h') \<and> packet h' (Some 1) [1, 2]
    \<and> pbuf_copy_partial (Some 1) 3 0 h' = Some (3, [1, 2, 3]) \<and> drop 3 (pbytes h' [1, 2]) = [108, 111]"
proof -
  have l: "unat (3 :: u16) \<le> length (pbytes ex_two [1, 2])" "unat (3 :: u16) \<le> length [1, 2, 3 :: byte]"
    unfolding ex_two_packets(2) by simp_all
  from pbuf_take_copy_roundtrip [OF ex_two_packets(1) l] show ?thesis
    unfolding ex_two_packets(2) by auto
qed

text \<open>C27: \<open>pbuf_cat\<close> of two disjoint packets whose total length fits in 16 bits gives one
  well-formed packet whose bytes are those of the first followed by those of the second; no
  reference count and no other pbuf changes.\<close>

theorem pbuf_cat_concat:
  assumes "packet h p as" "packet h q bs" "set as \<inter> set bs = {}"
    and "length (pbytes h as) + length (pbytes h bs) < 65536"
  shows "\<exists>h'. pbuf_cat p q h = Some h' \<and> packet h' p (as @ bs) \<and> pbytes h' (as @ bs) = pbytes h as @ pbytes h bs
    \<and> relinked (set as) h h'"
  using pbuf_cat_spec [OF assms] by metis

theorem pbuf_cat_concat_witness:
  "\<exists>h'. pbuf_cat (Some 1) (Some 3) ex_two = Some h' \<and> packet h' (Some 1) [1, 2, 3]
    \<and> pbytes h' [1, 2, 3] = [104, 101, 108, 108, 111, 33, 34]"
proof -
  have s: "set [1, 2] \<inter> set [3 :: nat] = {}"
    and l: "length (pbytes ex_two [1, 2]) + length (pbytes ex_two [3]) < 65536"
    unfolding ex_two_packets(2,4) by simp_all
  from pbuf_cat_concat [OF ex_two_packets(1,3) s l] show ?thesis
    unfolding ex_two_packets(2,4) by (auto simp del: pbytes_simps)
qed

text \<open>C28: \<open>pbuf_realloc\<close> trims a packet to a shorter length: the result is a well-formed packet
  with the first \<open>new_len\<close> bytes, its pbufs are a front part of the old ones, and the pbufs that
  are cut off are released.\<close>

theorem pbuf_realloc_trims:
  assumes "packet h p as" "list_all (sole h) as" "unat n < length (pbytes h as)"
  shows "\<exists>h' pre a post. as = pre @ a # post \<and> pbuf_realloc p n h = Some h' \<and> packet h' p (pre @ [a])
    \<and> pbytes h' (pre @ [a]) = take (unat n) (pbytes h as) \<and> same_on (- set as) h h'
    \<and> list_all (sole h') (pre @ [a]) \<and> (\<forall>x \<in> set post. hp_pbufs h' x = None)"
proof -
  have "list_all (live h) as" using assms(2) by (auto simp: list_all_iff intro: sole_live)
  from pbuf_realloc_trim [OF assms(1) this assms(3)] assms(2) show ?thesis by metis
qed

theorem pbuf_realloc_trims_witness:
  "\<exists>h' pre a post. [1, 2] = pre @ a # post \<and> pbuf_realloc (Some 1) 1 ex_two = Some h' \<and> packet h' (Some 1) (pre @ [a])
    \<and> pbytes h' (pre @ [a]) = [104]"
proof -
  have "unat (1 :: u16) < length (pbytes ex_two [1, 2])" unfolding ex_two_packets(2) by simp
  from pbuf_realloc_trims [OF ex_two_packets(1,5) this] show ?thesis
    unfolding ex_two_packets(2) by (auto simp del: pbytes_simps)
qed

text \<open>C12: \<open>pbuf_alloc\<close> of a \<open>PBUF_RAM\<close> or \<open>PBUF_POOL\<close> packet either fails, and then no pbuf and no
  block is left over from the attempt, or returns a well-formed packet of fresh pbufs with one
  reference each, exactly the requested length and room for the headers of its layer.\<close>

theorem pbuf_alloc_fresh_or_nothing:
  assumes "heap_ok h" "env_ok h" "type = PBUF_RAM \<or> type = PBUF_POOL"
  shows "\<exists>r h'. pbuf_alloc layer n type h = Some (r, h') \<and> heap_ok h' \<and>
    (case r of None \<Rightarrow> hp_pbufs h' = hp_pbufs h \<and> hp_blocks h' = hp_blocks h
     | Some a \<Rightarrow> \<exists>as off. packet h' r (a # as) \<and> list_all (sole h') (a # as) \<and> length (pbytes h' (a # as)) = unat n
         \<and> set (a # as) \<inter> dom (hp_pbufs h) = {} \<and> same_on (- set (a # as)) h h'
         \<and> pb_payload (the_pbuf h' a) = Some (a, off) \<and> unat (pbuf_layer_hlen layer) \<le> off)"
proof (rule pbuf_alloc_cases [OF assms, of layer n], goal_cases)
  case (1 h')
  then show ?case by (intro exI [of _ None] exI [of _ h']) simp
next
  case (2 h' a as off)
  then have "set (a # as) \<inter> dom (hp_pbufs h) = {}" using assms(1) by (force simp: heap_ok_def)
  then show ?case using 2 by (intro exI [of _ "Some a"] exI [of _ h']) auto
qed

theorem pbuf_alloc_fresh_or_nothing_witness:
  "\<exists>r h'. pbuf_alloc PBUF_IP 1500 PBUF_POOL ex_two = Some (r, h') \<and> heap_ok h' \<and>
    (case r of None \<Rightarrow> hp_pbufs h' = hp_pbufs ex_two \<and> hp_blocks h' = hp_blocks ex_two
     | Some a \<Rightarrow> \<exists>as off. packet h' r (a # as) \<and> list_all (sole h') (a # as) \<and> length (pbytes h' (a # as)) = 1500
         \<and> set (a # as) \<inter> dom (hp_pbufs ex_two) = {} \<and> same_on (- set (a # as)) ex_two h'
         \<and> pb_payload (the_pbuf h' a) = Some (a, off) \<and> unat (pbuf_layer_hlen PBUF_IP) \<le> off)"
proof -
  have u: "unat (1500 :: u16) = 1500" by simp
  show ?thesis
    using pbuf_alloc_fresh_or_nothing [OF ex_two_packets(7) ex_two_env, of PBUF_POOL PBUF_IP 1500] unfolding u by blast
qed

text \<open>C29: on a packet with enough room, \<open>pbuf_add_header\<close> uncovers exactly the \<open>n\<close> bytes in front of
  the payload, and \<open>pbuf_remove_header\<close> of the same size restores the heap it started from.\<close>

theorem pbuf_header_roundtrip:
  assumes "packet h (Some a) (a # as)" "pb_payload (the_pbuf h a) = Some (a, off)"
    and "contiguous_data (the_pbuf h a)" "n \<le> off" "n + length (pbytes h (a # as)) < 65536"
  shows "\<exists>h'. pbuf_add_header (Some a) n h = Some (0, h') \<and> packet h' (Some a) (a # as)
    \<and> (\<exists>hdr. length hdr = n \<and> pbytes h' (a # as) = hdr @ pbytes h (a # as))
    \<and> pbuf_remove_header (Some a) n h' = Some (0, h)"
proof -
  obtain pb where pb: "hp_pbufs h a = Some pb" using assms(1) by (auto simp: packet_def)
  obtain h' bs where h': "pbuf_add_header (Some a) n h = Some (0, h')" "packet h' (Some a) (a # as)"
      "hp_blocks h a = Some bs" "pbytes h' (a # as) = seg (off - n) n bs @ pbytes h (a # as)"
    using pbuf_add_header_spec [OF assms] by metis
  have len: "unat (pb_len pb) \<le> length (pbytes h (a # as))"
    using packet_readable [OF assms(1)] pb by (simp add: length_pdata)
  then have "pbuf_remove_header (Some a) n h' = Some (0, h)"
    using pbuf_header_inverse [OF pb _ h'(1)] assms(5) by simp
  moreover have "length (seg (off - n) n bs) = n"
    using assms(1,2,4) pb h'(3) by (auto simp: packet_def owned_def)
  ultimately show ?thesis using h' by blast
qed

theorem pbuf_header_roundtrip_witness:
  "\<exists>h'. pbuf_add_header (Some 1) 2 ex_two = Some (0, h') \<and> packet h' (Some 1) [1, 2]
    \<and> (\<exists>hdr. length hdr = 2 \<and> pbytes h' [1, 2] = hdr @ [104, 101, 108, 108, 111])
    \<and> pbuf_remove_header (Some 1) 2 h' = Some (0, ex_two)"
proof -
  have "2 + length (pbytes ex_two [1, 2]) < 65536" unfolding ex_two_packets(2) by simp
  from pbuf_header_roundtrip [OF ex_two_packets(1,8,10) _ this] show ?thesis
    unfolding ex_two_packets(2) by (auto simp del: pbytes_simps)
qed

text \<open>C5: \<open>pbuf_free\<close> of a chain that is referenced once releases all its pbufs and nothing else,
  and returns their number (modulo 256, the width of its result).\<close>

theorem pbuf_free_exact:
  assumes "chain h p as" "as \<noteq> []" "list_all (sole h) as"
  shows "pbuf_free p h = Some (of_nat (length as), without h (set as))"
  using pbuf_free_sole [OF assms] .

theorem pbuf_free_exact_witness:
  "pbuf_free (Some 1) ex_two = Some (2, without ex_two {1, 2})"
  using pbuf_free_exact [OF packet_chain [OF ex_two_packets(1)] _ ex_two_packets(5)] by simp

end
