(* ===== verification/Pbuf_Queue.thy ===== *)
theory Pbuf_Queue
  imports Pbuf_Header Fifo_Spec
begin

text \<open>
  The packet queue of the link and of the UDP connections (\<open>native/queues.c\<close>): a ring of 256
  pointers that drops its oldest packet when it is full.  The indices are \<open>int\<close> in C and stay
  in the range 0 to 255, so they are natural numbers here; \<open>full\<close> is the flag as a truth value.
\<close>

definition PBUF_QUEUE_LENGTH :: nat where "PBUF_QUEUE_LENGTH = 256"

record pbuf_queue_t =
  q_head :: nat
  q_tail :: nat
  q_full :: bool
  q_data :: "addr option list"

text \<open>The queue after \<open>memset(ctx, 0, ...)\<close>.\<close>

definition pbuf_queue_zero :: pbuf_queue_t where
  "pbuf_queue_zero = \<lparr>q_head = 0, q_tail = 0, q_full = False, q_data = replicate PBUF_QUEUE_LENGTH None\<rparr>"

text \<open>One round of the loop of \<open>pbuf_queue_append\<close>: the pointer that was in the slot, and the queue.\<close>

definition pbuf_queue_put :: "pbuf_queue_t \<Rightarrow> addr option \<Rightarrow> addr option \<times> pbuf_queue_t" where
  "pbuf_queue_put queue p =
     (let tail = q_tail queue;
          old = q_data queue ! tail;
          queue = queue\<lparr>q_data := (q_data queue)[tail := p]\<rparr>;
          queue = queue\<lparr>q_tail := (tail + 1) mod PBUF_QUEUE_LENGTH\<rparr>;
          queue = (if q_full queue then queue\<lparr>q_head := q_tail queue\<rparr> else queue);
          queue = queue\<lparr>q_full := (q_head queue = q_tail queue)\<rparr>
      in (old, queue))"

fun pbuf_queue_append :: "pbuf_queue_t \<Rightarrow> addr option list \<Rightarrow> heap \<Rightarrow> (pbuf_queue_t \<times> heap) option" where
  "pbuf_queue_append queue [] h = Some (queue, h)"
| "pbuf_queue_append queue (p # in_rest) h =
     (let (old, queue') = pbuf_queue_put queue p in do {
        h \<leftarrow> (if old \<noteq> None then map_option snd (pbuf_free old h) else Some h);
        pbuf_queue_append queue' in_rest h
      })"

definition pbuf_queue_length :: "pbuf_queue_t \<Rightarrow> nat" where
  "pbuf_queue_length queue =
     (let sz = (q_tail queue + PBUF_QUEUE_LENGTH - q_head queue) mod PBUF_QUEUE_LENGTH in
      if sz = 0 \<and> q_full queue then PBUF_QUEUE_LENGTH else sz)"

text \<open>The popped pointers in order; their number is the return value.\<close>

fun pbuf_queue_pop :: "pbuf_queue_t \<Rightarrow> nat \<Rightarrow> addr option list \<times> pbuf_queue_t" where
  "pbuf_queue_pop queue 0 = ([], queue)"
| "pbuf_queue_pop queue (Suc n) =
     (if q_head queue = q_tail queue \<and> \<not> q_full queue then ([], queue)
      else let head = q_head queue;
               out = q_data queue ! head;
               queue = queue\<lparr>q_data := (q_data queue)[head := None],
                             q_head := (head + 1) mod PBUF_QUEUE_LENGTH, q_full := False\<rparr>;
               (outs, queue) = pbuf_queue_pop queue n
           in (out # outs, queue))"

section \<open>Abstraction to a list\<close>

definition queue_rep :: "pbuf_queue_t \<Rightarrow> addr list \<Rightarrow> bool" where
  "queue_rep q xs \<longleftrightarrow> length (q_data q) = PBUF_QUEUE_LENGTH \<and> q_head q < PBUF_QUEUE_LENGTH
     \<and> length xs \<le> PBUF_QUEUE_LENGTH \<and> q_tail q = (q_head q + length xs) mod PBUF_QUEUE_LENGTH
     \<and> q_full q = (length xs = PBUF_QUEUE_LENGTH)
     \<and> (\<forall>i < PBUF_QUEUE_LENGTH. q_data q ! ((q_head q + i) mod PBUF_QUEUE_LENGTH)
          = (if i < length xs then Some (xs ! i) else None))"

definition queue_contents :: "pbuf_queue_t \<Rightarrow> addr list" where
  "queue_contents q = map (\<lambda>i. the (q_data q ! ((q_head q + i) mod PBUF_QUEUE_LENGTH))) [0..<pbuf_queue_length q]"

definition queue_inv :: "pbuf_queue_t \<Rightarrow> bool" where
  "queue_inv q \<longleftrightarrow> queue_rep q (queue_contents q)"

lemma ring_mod:
  assumes "a < PBUF_QUEUE_LENGTH" "i \<le> PBUF_QUEUE_LENGTH"
  shows "(a + i) mod PBUF_QUEUE_LENGTH = (if a + i < PBUF_QUEUE_LENGTH then a + i else a + i - PBUF_QUEUE_LENGTH)"
  using assms by (simp add: PBUF_QUEUE_LENGTH_def le_mod_geq)

lemma ring_inj:
  assumes "a < PBUF_QUEUE_LENGTH" "i < PBUF_QUEUE_LENGTH" "j < PBUF_QUEUE_LENGTH"
  shows "(a + i) mod PBUF_QUEUE_LENGTH = (a + j) mod PBUF_QUEUE_LENGTH \<longleftrightarrow> i = j"
  using assms by (auto simp: ring_mod less_imp_le split: if_splits)

lemma ring_less [simp]: "n mod PBUF_QUEUE_LENGTH < PBUF_QUEUE_LENGTH"
  by (simp add: PBUF_QUEUE_LENGTH_def)

lemma queue_rep_length:
  assumes "queue_rep q xs"
  shows "pbuf_queue_length q = length xs"
proof -
  have h: "q_head q < PBUF_QUEUE_LENGTH" "length xs \<le> PBUF_QUEUE_LENGTH"
    and t: "q_tail q = (q_head q + length xs) mod PBUF_QUEUE_LENGTH" and f: "q_full q = (length xs = PBUF_QUEUE_LENGTH)"
    using assms by (simp_all add: queue_rep_def)
  show ?thesis
  proof (cases "q_head q + length xs < PBUF_QUEUE_LENGTH")
    case True
    then have "q_tail q + PBUF_QUEUE_LENGTH - q_head q = length xs + PBUF_QUEUE_LENGTH"
      using t h by (simp add: ring_mod)
    then show ?thesis using True h f by (simp add: pbuf_queue_length_def Let_def)
  next
    case False
    then have "q_tail q + PBUF_QUEUE_LENGTH - q_head q = length xs" using t h by (simp add: ring_mod)
    then show ?thesis using h f by (cases "length xs = PBUF_QUEUE_LENGTH") (simp_all add: pbuf_queue_length_def Let_def)
  qed
qed

lemma queue_rep_contents:
  assumes "queue_rep q xs"
  shows "queue_contents q = xs" "queue_inv q"
proof -
  have "i < PBUF_QUEUE_LENGTH" if "i < length xs" for i using that assms by (simp add: queue_rep_def)
  then show *: "queue_contents q = xs"
    using assms queue_rep_length [OF assms] by (intro nth_equalityI) (auto simp: queue_contents_def queue_rep_def)
  show "queue_inv q" using assms * by (simp add: queue_inv_def)
qed

lemma queue_inv_empty: "q_head q = q_tail q \<and> \<not> q_full q \<longleftrightarrow> queue_contents q = []" if i: "queue_inv q"
proof -
  have r: "queue_rep q (queue_contents q)" using i by (simp add: queue_inv_def)
  then have h: "q_head q < PBUF_QUEUE_LENGTH" "length (queue_contents q) \<le> PBUF_QUEUE_LENGTH"
    and t: "q_tail q = (q_head q + length (queue_contents q)) mod PBUF_QUEUE_LENGTH"
    and f: "q_full q = (length (queue_contents q) = PBUF_QUEUE_LENGTH)" by (simp_all add: queue_rep_def)
  have "q_head q = q_tail q \<longleftrightarrow> length (queue_contents q) = 0 \<or> length (queue_contents q) = PBUF_QUEUE_LENGTH"
    using h t ring_mod [OF h] by (auto split: if_splits)
  then show ?thesis using f by (auto simp: PBUF_QUEUE_LENGTH_def)
qed

lemma queue_zero: "queue_rep pbuf_queue_zero []"
  by (simp add: queue_rep_def pbuf_queue_zero_def PBUF_QUEUE_LENGTH_def)

section \<open>Appending and popping\<close>

lemma queue_put_room:
  assumes "queue_rep q xs" "length xs < PBUF_QUEUE_LENGTH" "pbuf_queue_put q (Some x) = (old, q')"
  shows "old = None" "queue_rep q' (xs @ [x])"
proof -
  let ?N = PBUF_QUEUE_LENGTH
  have r: "length (q_data q) = ?N" "q_head q < ?N" "q_tail q = (q_head q + length xs) mod ?N" "\<not> q_full q"
    and d: "\<And>i. i < ?N \<Longrightarrow> q_data q ! ((q_head q + i) mod ?N) = (if i < length xs then Some (xs ! i) else None)"
    using assms(1,2) by (simp_all add: queue_rep_def)
  show "old = None" using assms(3) r(3) d [OF assms(2)] by (auto simp: pbuf_queue_put_def Let_def)
  have q': "q_data q' = (q_data q)[q_tail q := Some x]" "q_head q' = q_head q" "q_tail q' = (q_tail q + 1) mod ?N"
      "q_full q' = (q_head q = (q_tail q + 1) mod ?N)"
    using assms(3) r(4) by (auto simp: pbuf_queue_put_def Let_def)
  have t': "q_tail q' = (q_head q + Suc (length xs)) mod ?N" using q'(3) r(3) by (simp add: mod_Suc_eq)
  have "q_full q' = (Suc (length xs) = ?N)"
    using t' q'(3,4) r(2) assms(2) ring_mod [of "q_head q" "Suc (length xs)"] by (auto simp: PBUF_QUEUE_LENGTH_def split: if_splits)
  moreover have "q_data q' ! ((q_head q + i) mod ?N) = (if i < length (xs @ [x]) then Some ((xs @ [x]) ! i) else None)"
    if "i < ?N" for i
  proof (cases "i = length xs")
    case True
    then show ?thesis using q'(1) r(1,3) by simp
  next
    case False
    then have "(q_head q + i) mod ?N \<noteq> q_tail q" using ring_inj [OF r(2) that assms(2)] r(3) by simp
    then show ?thesis using q'(1) d [OF that] False by (auto simp: nth_append)
  qed
  ultimately show "queue_rep q' (xs @ [x])" using r q' t' assms(2) by (simp add: queue_rep_def)
qed

lemma queue_put_full:
  assumes "queue_rep q (y # ys)" "length (y # ys) = PBUF_QUEUE_LENGTH" "pbuf_queue_put q (Some x) = (old, q')"
  shows "old = Some y" "queue_rep q' (ys @ [x])"
proof -
  let ?N = PBUF_QUEUE_LENGTH
  have r: "length (q_data q) = ?N" "q_head q < ?N" "q_full q"
    and d: "\<And>i. i < ?N \<Longrightarrow> q_data q ! ((q_head q + i) mod ?N) = Some ((y # ys) ! i)"
    using assms(1,2) by (simp_all add: queue_rep_def)
  have t0: "q_tail q = (q_head q + length (y # ys)) mod ?N" using assms(1) by (simp add: queue_rep_def)
  have t: "q_tail q = q_head q" using t0 r(2) unfolding assms(2) by simp
  have N: "0 < ?N" by (simp add: PBUF_QUEUE_LENGTH_def)
  show "old = Some y" using assms(3) t r(2) d [OF N] by (auto simp: pbuf_queue_put_def Let_def)
  have q': "q_data q' = (q_data q)[q_head q := Some x]" "q_head q' = (q_head q + 1) mod ?N"
      "q_tail q' = (q_head q + 1) mod ?N" "q_full q'"
    using assms(3) r(3) t by (auto simp: pbuf_queue_put_def Let_def)
  have "q_data q' ! ((q_head q' + i) mod ?N) = (if i < length (ys @ [x]) then Some ((ys @ [x]) ! i) else None)"
    if i: "i < ?N" for i
  proof -
    have idx: "(q_head q' + i) mod ?N = (q_head q + Suc i) mod ?N" using q'(2) by (simp add: mod_add_left_eq)
    show ?thesis
    proof (cases "Suc i < ?N")
      case True
      then have "(q_head q + Suc i) mod ?N \<noteq> q_head q" using ring_inj [OF r(2) True N] r(2) by simp
      then show ?thesis using d [OF True] idx q'(1) True assms(2) by (simp add: nth_append)
    next
      case False
      then have "Suc i = ?N" using i by simp
      then have "(q_head q + Suc i) mod ?N = q_head q" "i = length ys" using r(2) assms(2) by simp_all
      then show ?thesis using idx q'(1) r(1,2) by simp
    qed
  qed
  then show "queue_rep q' (ys @ [x])" using r q' assms(2) by (auto simp: queue_rep_def)
qed

lemma queue_pop_one:
  assumes "queue_rep q (y # ys)" "pbuf_queue_pop q 1 = (outs, q')"
  shows "outs = [Some y]" "queue_rep q' ys"
proof -
  let ?N = PBUF_QUEUE_LENGTH
  have r: "length (q_data q) = ?N" "q_head q < ?N" "q_tail q = (q_head q + length (y # ys)) mod ?N"
      "length (y # ys) \<le> ?N"
    and d: "\<And>i. i < ?N \<Longrightarrow> q_data q ! ((q_head q + i) mod ?N) = (if i < length (y # ys) then Some ((y # ys) ! i) else None)"
    using assms(1) by (simp_all add: queue_rep_def)
  have N: "0 < ?N" by (simp add: PBUF_QUEUE_LENGTH_def)
  have ne: "\<not> (q_head q = q_tail q \<and> \<not> q_full q)"
    using queue_inv_empty [OF queue_rep_contents(2) [OF assms(1)]] queue_rep_contents(1) [OF assms(1)] by simp
  then have q': "outs = [q_data q ! q_head q]" "q_data q' = (q_data q)[q_head q := None]"
      "q_head q' = (q_head q + 1) mod ?N" "q_tail q' = q_tail q" "\<not> q_full q'"
    using assms(2) by (auto simp: Let_def)
  show "outs = [Some y]" using q'(1) d [OF N] r(2) by simp
  have "q_data q' ! ((q_head q' + i) mod ?N) = (if i < length ys then Some (ys ! i) else None)" if i: "i < ?N" for i
  proof -
    have idx: "(q_head q' + i) mod ?N = (q_head q + Suc i) mod ?N" using q'(3) by (simp add: mod_add_left_eq)
    show ?thesis
    proof (cases "Suc i < ?N")
      case True
      then have "(q_head q + Suc i) mod ?N \<noteq> q_head q" using ring_inj [OF r(2) True N] r(2) by simp
      then show ?thesis using d [OF True] idx q'(2) by simp
    next
      case False
      then have "Suc i = ?N" using i by simp
      then have "(q_head q + Suc i) mod ?N = q_head q" "\<not> i < length ys" using r(2,4) by simp_all
      then show ?thesis using idx q'(2) r(1,2) by simp
    qed
  qed
  moreover have "q_tail q' = (q_head q' + length ys) mod ?N" using q'(3,4) r(3) by (simp add: mod_add_left_eq)
  ultimately show "queue_rep q' ys" using r q' by (simp add: queue_rep_def)
qed

lemma queue_pop_rep:
  assumes "queue_rep q xs" "pbuf_queue_pop q n = (outs, q')"
  shows "outs = map Some (take n xs) \<and> queue_rep q' (drop n xs)"
  using assms
proof (induction n arbitrary: q xs outs q')
  case 0
  then show ?case by simp
next
  case (Suc n)
  have e: "q_head q = q_tail q \<and> \<not> q_full q \<longleftrightarrow> xs = []"
    using queue_inv_empty [OF queue_rep_contents(2) [OF Suc.prems(1)]] queue_rep_contents(1) [OF Suc.prems(1)] by simp
  show ?case
  proof (cases xs)
    case Nil
    then show ?thesis using Suc.prems e by simp
  next
    case (Cons y ys)
    obtain o1 q1 where p1: "pbuf_queue_pop q 1 = (o1, q1)" by fastforce
    obtain o2 q2 where p2: "pbuf_queue_pop q1 n = (o2, q2)" by fastforce
    note s = queue_pop_one [OF Suc.prems(1) [unfolded Cons] p1]
    have "outs = o1 @ o2" "q' = q2" using Suc.prems(2) e Cons p1 p2 by (auto simp: Let_def split: prod.splits)
    then show ?thesis using Suc.IH [OF s(2) p2] s(1) Cons by simp
  qed
qed

section \<open>The queue implements the lossy FIFO\<close>

definition queue_push :: "pbuf_queue_t \<Rightarrow> addr \<Rightarrow> addr list \<times> pbuf_queue_t" where
  "queue_push q x = (let (old, q') = pbuf_queue_put q (Some x) in (case old of None \<Rightarrow> [] | Some a \<Rightarrow> [a], q'))"

definition queue_get :: "pbuf_queue_t \<Rightarrow> (addr \<times> pbuf_queue_t) option" where
  "queue_get q = (case pbuf_queue_pop q 1 of ([Some x], q') \<Rightarrow> Some (x, q') | _ \<Rightarrow> None)"

lemma queue_get_rep:
  "queue_rep q [] \<Longrightarrow> queue_get q = None"
  "queue_rep q (y # ys) \<Longrightarrow> \<exists>q'. queue_get q = Some (y, q') \<and> queue_rep q' ys"
proof -
  obtain outs q' where p: "pbuf_queue_pop q 1 = (outs, q')" by fastforce
  show "queue_rep q [] \<Longrightarrow> queue_get q = None"
    using queue_pop_rep [OF _ p, of "[]"] p by (simp add: queue_get_def)
  show "queue_rep q (y # ys) \<Longrightarrow> \<exists>q'. queue_get q = Some (y, q') \<and> queue_rep q' ys"
    using queue_pop_rep [OF _ p, of "y # ys"] p by (simp add: queue_get_def)
qed

lemma queue_inv_rep: "queue_inv q \<Longrightarrow> queue_rep q (queue_contents q)"
  by (simp add: queue_inv_def)

interpretation pq: lossy_fifo queue_inv queue_contents queue_get queue_push PBUF_QUEUE_LENGTH
proof
  fix q q' :: pbuf_queue_t and x :: addr and ev :: "addr list"
  show "0 < PBUF_QUEUE_LENGTH" by (simp add: PBUF_QUEUE_LENGTH_def)
  assume i: "queue_inv q"
  note r = queue_inv_rep [OF i]
  show "queue_get q = None \<longleftrightarrow> queue_contents q = []"
    using queue_get_rep(1) [of q] queue_get_rep(2) [of q] r by (cases "queue_contents q") fastforce+
  show "length (queue_contents q) \<le> PBUF_QUEUE_LENGTH" using r by (simp add: queue_rep_def)
  show "queue_get q = Some (x, q') \<Longrightarrow> queue_contents q = x # queue_contents q' \<and> queue_inv q'"
    using queue_get_rep(1) [of q] queue_get_rep(2) [of q] r queue_rep_contents
    by (cases "queue_contents q") fastforce+
  obtain old q1 where p: "pbuf_queue_put q (Some x) = (old, q1)" by fastforce
  show "length (queue_contents q) < PBUF_QUEUE_LENGTH \<Longrightarrow> queue_push q x = (ev, q') \<Longrightarrow>
      ev = [] \<and> queue_contents q' = queue_contents q @ [x] \<and> queue_inv q'"
    using queue_put_room [OF r _ p] p queue_rep_contents by (auto simp: queue_push_def)
  assume f: "length (queue_contents q) = PBUF_QUEUE_LENGTH" and u: "queue_push q x = (ev, q')"
  then obtain y ys where c: "queue_contents q = y # ys"
    by (cases "queue_contents q") (auto simp: PBUF_QUEUE_LENGTH_def)
  show "ev = [hd (queue_contents q)] \<and> queue_contents q' = tl (queue_contents q) @ [x] \<and> queue_inv q'"
    using queue_put_full [OF r [unfolded c] f [unfolded c] p] p u c queue_rep_contents by (auto simp: queue_push_def)
qed


section \<open>The queue and the packets it owns\<close>

lemma pbuf_queue_append_push:
  assumes "pbuf_queue_append q (map Some xs) h = Some (q', h')"
  shows "snd (pq.push_all q xs) = q'"
  using assms
proof (induction xs arbitrary: q h)
  case (Cons x xs)
  obtain old q1 where p: "pbuf_queue_put q (Some x) = (old, q1)" by fastforce
  from Cons.prems p obtain h1 where h1: "pbuf_queue_append q1 (map Some xs) h1 = Some (q', h')"
    by (auto simp: Let_def bind_eq_Some_conv)
  have "\<exists>ev. queue_push q x = (ev, q1)" using p by (simp add: queue_push_def)
  then show ?case using Cons.IH [OF h1] by (auto split: prod.splits)
qed simp

text \<open>Every packet in the queue is a chain of its own whose pbufs nobody else refers to.\<close>

definition owns :: "heap \<Rightarrow> addr \<Rightarrow> addr list \<Rightarrow> bool" where
  "owns h a as \<longleftrightarrow> packet h (Some a) as \<and> list_all (sole h) as"

definition queue_owns :: "heap \<Rightarrow> pbuf_queue_t \<Rightarrow> addr list list \<Rightarrow> bool" where
  "queue_owns h q pss \<longleftrightarrow> queue_inv q \<and> list_all2 (owns h) (queue_contents q) pss \<and> distinct (concat pss)"

lemma owns_same: "owns h a as \<Longrightarrow> same_on A h h' \<Longrightarrow> set as \<subseteq> A \<Longrightarrow> owns h' a as"
  using packet_same(1) [of h "Some a" as A h']
  by (auto simp: owns_def list_all_iff sole_def same_on_def subset_iff)

lemma list_all2_owns_same:
  "list_all2 (owns h) xs pss \<Longrightarrow> same_on A h h' \<Longrightarrow> set (concat pss) \<subseteq> A \<Longrightarrow> list_all2 (owns h') xs pss"
  by (induction rule: list_all2_induct) (auto intro: owns_same)

lemma owns_free: "owns h a as \<Longrightarrow> map_option snd (pbuf_free (Some a) h) = Some (without h (set as))"
  using pbuf_free_sole [of h "Some a" as] by (simp add: owns_def packet_def)

lemma pbuf_queue_append_owned:
  assumes q: "queue_owns h q pss" and a: "owns h a as" "set as \<inter> set (concat pss) = {}"
  shows "\<exists>q' h'. pbuf_queue_append q [Some a] h = Some (q', h') \<and>
    (if length pss < PBUF_QUEUE_LENGTH
     then h' = h \<and> queue_contents q' = queue_contents q @ [a] \<and> queue_owns h' q' (pss @ [as])
     else length pss = PBUF_QUEUE_LENGTH \<and> h' = without h (set (hd pss))
       \<and> queue_contents q' = tl (queue_contents q) @ [a] \<and> queue_owns h' q' (tl pss @ [as]))"
proof -
  have i: "queue_inv q" and l2: "list_all2 (owns h) (queue_contents q) pss" and d: "distinct (concat pss)"
    using q by (simp_all add: queue_owns_def)
  note r = queue_inv_rep [OF i]
  have len: "length (queue_contents q) = length pss" using l2 by (rule list_all2_lengthD)
  have das: "distinct as" using a(1) chain_distinct by (auto simp: owns_def packet_def)
  obtain old q' where p: "pbuf_queue_put q (Some a) = (old, q')" by fastforce
  have le: "length pss \<le> PBUF_QUEUE_LENGTH" using r len by (simp add: queue_rep_def)
  show ?thesis
  proof (cases "length pss < PBUF_QUEUE_LENGTH")
    case True
    note R = queue_put_room [OF r _ p]
    have "pbuf_queue_append q [Some a] h = Some (q', h)" using p R True len by simp
    moreover have "queue_contents q' = queue_contents q @ [a]" "queue_inv q'"
      using R True len queue_rep_contents by simp_all
    moreover have "distinct (concat (pss @ [as]))" using d das a(2) by auto
    ultimately show ?thesis using True l2 a(1) by (simp add: queue_owns_def list_all2_appendI)
  next
    case False
    then have full: "length (queue_contents q) = PBUF_QUEUE_LENGTH" using le len by simp
    then obtain y ys where c: "queue_contents q = y # ys" by (cases "queue_contents q") (auto simp: PBUF_QUEUE_LENGTH_def)
    then obtain ps pss' where ps: "pss = ps # pss'" "owns h y ps" "list_all2 (owns h) ys pss'"
      using l2 by (auto simp: list_all2_Cons1)
    note R = queue_put_full [OF r [unfolded c] full [unfolded c] p]
    let ?h = "without h (set ps)"
    have "pbuf_queue_append q [Some a] h = Some (q', ?h)" using p R(1) owns_free [OF ps(2)] by (simp del: map_option_eq_Some)
    moreover have "queue_contents q' = ys @ [a]" "queue_inv q'" using R(2) queue_rep_contents by simp_all
    moreover have sm: "same_on (- set ps) h ?h" by simp
    moreover have "owns ?h a as" using owns_same [OF a(1) sm] a(2) ps(1) by auto
    moreover have "list_all2 (owns ?h) ys pss'" using list_all2_owns_same [OF ps(3) sm] d ps(1) by auto
    moreover have "distinct (concat (pss' @ [as]))" using d das a(2) ps(1) by auto
    ultimately show ?thesis using False c ps(1) le by (simp add: queue_owns_def list_all2_appendI)
  qed
qed

section \<open>Properties\<close>

text \<open>C8: appending packets to the queue keeps the newest 256 packets in the order they came; older
  ones are dropped from the front and none in between is lost.\<close>

theorem pbuf_queue_append_newest:
  assumes "queue_inv q" "pbuf_queue_append q (map Some xs) h = Some (q', h')"
  shows "queue_inv q' \<and> queue_contents q'
    = drop (length (queue_contents q) + length xs - 256) (queue_contents q @ xs)"
proof -
  obtain ev where "pq.push_all q xs = (ev, q')"
    using pbuf_queue_append_push [OF assms(2)] by (metis prod.collapse)
  from pq.push_all_newest [OF assms(1) this] pq.push_all_contents [OF assms(1) this]
  show ?thesis by (simp add: PBUF_QUEUE_LENGTH_def)
qed

theorem pbuf_queue_append_newest_witness:
  "\<exists>q'. pbuf_queue_append pbuf_queue_zero [Some 1, Some 3] ex_two = Some (q', ex_two) \<and> queue_contents q' = [1, 3]"
proof -
  have z: "queue_inv pbuf_queue_zero" "queue_contents pbuf_queue_zero = []"
    using queue_rep_contents [OF queue_zero] by simp_all
  have run: "pbuf_queue_append pbuf_queue_zero (map Some [1, 3]) ex_two
      = Some (snd (pbuf_queue_put (snd (pbuf_queue_put pbuf_queue_zero (Some 1))) (Some 3)), ex_two)"
    by (simp add: pbuf_queue_put_def pbuf_queue_zero_def PBUF_QUEUE_LENGTH_def Let_def)
  from pbuf_queue_append_newest [OF z(1) run] run z(2) show ?thesis by auto
qed

text \<open>C36: \<open>pbuf_queue_pop\<close> returns the oldest packets in order, at most \<open>n\<close> of them, and leaves the rest.\<close>

theorem pbuf_queue_pop_oldest:
  assumes "queue_inv q"
  shows "fst (pbuf_queue_pop q n) = map Some (take n (queue_contents q))
    \<and> queue_contents (snd (pbuf_queue_pop q n)) = drop n (queue_contents q) \<and> queue_inv (snd (pbuf_queue_pop q n))"
proof -
  obtain outs q' where p: "pbuf_queue_pop q n = (outs, q')" by fastforce
  show ?thesis
    using queue_pop_rep [OF queue_inv_rep [OF assms] p] p queue_rep_contents by auto
qed

theorem pbuf_queue_pop_oldest_witness:
  "fst (pbuf_queue_pop pbuf_queue_zero 32) = [] \<and> queue_inv (snd (pbuf_queue_pop pbuf_queue_zero 32))"
proof -
  have z: "queue_inv pbuf_queue_zero" "queue_contents pbuf_queue_zero = []"
    using queue_rep_contents [OF queue_zero] by simp_all
  show ?thesis using pbuf_queue_pop_oldest [OF z(1), of 32] z(2) by simp
qed

text \<open>appending a packet that nobody else refers to never crashes: with room, the heap is
  untouched; when the queue is full, exactly the pbufs of the oldest packet are released, and
  every packet that stays in the queue is still whole and owned by the queue.\<close>

theorem pbuf_queue_append_frees_oldest:
  assumes "queue_owns h q pss" "owns h a as" "set as \<inter> set (concat pss) = {}"
  shows "\<exists>q' h'. pbuf_queue_append q [Some a] h = Some (q', h') \<and>
    (if length pss < 256 then h' = h \<and> queue_owns h' q' (pss @ [as])
     else h' = without h (set (hd pss)) \<and> queue_owns h' q' (tl pss @ [as]))"
  using pbuf_queue_append_owned [OF assms] by (force simp: PBUF_QUEUE_LENGTH_def split: if_splits)

theorem pbuf_queue_append_frees_oldest_witness:
  "\<exists>q'. pbuf_queue_append pbuf_queue_zero [Some 1] ex_two = Some (q', ex_two) \<and> queue_owns ex_two q' [[1, 2]]"
proof -
  have "queue_owns ex_two pbuf_queue_zero []" "owns ex_two 1 [1, 2]" "set [1, 2] \<inter> set (concat []) = {}"
    using queue_rep_contents [OF queue_zero] ex_two_packets by (simp_all add: queue_owns_def owns_def)
  from pbuf_queue_append_frees_oldest [OF this] show ?thesis by auto
qed

end
