(* ===== verification/Ip4_Addr.thy ===== *)
theory Ip4_Addr
  imports Def
begin

unbundle bit_operations_syntax

text \<open>
  IPv4 addresses: \<open>lwip/include/lwip/ip4_addr.h\<close> and \<open>lwip/core/ipv4/ip4_addr.c\<close>.  An
  \<open>ip4_addr_t\<close> is its 32 bit word in network byte order; the host is little endian, so that byte
  \<open>i\<close> of the address is \<^const>\<open>u32_byte\<close> \<open>addr i\<close>.  Where C passes a pointer that may be \<open>NULL\<close> the
  model has an option.
\<close>

section \<open>Constants and macros of \<open>ip4_addr.h\<close>\<close>

type_synonym ip4_addr_t = u32

definition IPADDR_NONE :: u32 where "IPADDR_NONE = 0xFFFFFFFF"
definition IPADDR_ANY :: u32 where "IPADDR_ANY = 0"
definition IPADDR_BROADCAST :: u32 where "IPADDR_BROADCAST = 0xFFFFFFFF"

definition ip4_addr_netcmp :: "ip4_addr_t \<Rightarrow> ip4_addr_t \<Rightarrow> ip4_addr_t \<Rightarrow> bool" where
  "ip4_addr_netcmp addr1 addr2 nm \<longleftrightarrow> addr1 AND nm = addr2 AND nm"

definition ip4_addr_isany_val :: "ip4_addr_t \<Rightarrow> bool" where
  "ip4_addr_isany_val a \<longleftrightarrow> a = IPADDR_ANY"

definition ip4_addr_isany :: "ip4_addr_t option \<Rightarrow> bool" where
  "ip4_addr_isany p \<longleftrightarrow> (case p of None \<Rightarrow> True | Some a \<Rightarrow> ip4_addr_isany_val a)"

definition ip4_addr_set :: "ip4_addr_t option \<Rightarrow> ip4_addr_t" where
  "ip4_addr_set src = (case src of None \<Rightarrow> 0 | Some a \<Rightarrow> a)"

definition ip4_addr_isloopback :: "ip4_addr_t \<Rightarrow> bool" where
  "ip4_addr_isloopback a \<longleftrightarrow> a AND lwip_htonl 0xFF000000 = lwip_htonl (push_bit 24 127)"

definition ip4_addr_ismulticast :: "ip4_addr_t \<Rightarrow> bool" where
  "ip4_addr_ismulticast a \<longleftrightarrow> a AND lwip_htonl 0xF0000000 = lwip_htonl 0xE0000000"

definition ip4_addr_islinklocal :: "ip4_addr_t \<Rightarrow> bool" where
  "ip4_addr_islinklocal a \<longleftrightarrow> a AND lwip_htonl 0xFFFF0000 = lwip_htonl 0xA9FE0000"

section \<open>Netmasks\<close>

text \<open>The two loops of \<open>ip4_addr_netmask_valid\<close>; \<open>k\<close> is the number of the bit that \<open>mask\<close> has,
  plus one, so that \<open>mask = 0\<close> is \<open>k = 0\<close>.\<close>

fun netmask_first_zero :: "u32 \<Rightarrow> nat \<Rightarrow> nat" where
  "netmask_first_zero nm 0 = 0"
| "netmask_first_zero nm (Suc k) = (if nm AND push_bit k 1 = 0 then Suc k else netmask_first_zero nm k)"

fun netmask_no_one :: "u32 \<Rightarrow> nat \<Rightarrow> bool" where
  "netmask_no_one nm 0 = True"
| "netmask_no_one nm (Suc k) = (if nm AND push_bit k 1 \<noteq> 0 then False else netmask_no_one nm k)"

definition ip4_addr_netmask_valid :: "u32 \<Rightarrow> bool" where
  "ip4_addr_netmask_valid netmask =
     (let nm_hostorder = lwip_htonl netmask in netmask_no_one nm_hostorder (netmask_first_zero nm_hostorder 32))"

section \<open>Reading an address\<close>

definition lwip_isdigit :: "byte \<Rightarrow> bool" where "lwip_isdigit c \<longleftrightarrow> 0x30 \<le> c \<and> c \<le> 0x39"
definition lwip_islower :: "byte \<Rightarrow> bool" where "lwip_islower c \<longleftrightarrow> 0x61 \<le> c \<and> c \<le> 0x7A"
definition lwip_isxdigit :: "byte \<Rightarrow> bool" where
  "lwip_isxdigit c \<longleftrightarrow> lwip_isdigit c \<or> 0x61 \<le> c \<and> c \<le> 0x66 \<or> 0x41 \<le> c \<and> c \<le> 0x46"
definition lwip_isspace :: "byte \<Rightarrow> bool" where
  "lwip_isspace c \<longleftrightarrow> c \<in> {0x20, 0x0C, 0x0A, 0x0D, 0x09, 0x0B}"

text \<open>The inner loop: the digits of one number, and the rest of the string.\<close>

fun aton_digits :: "u32 \<Rightarrow> u32 \<Rightarrow> cstring \<Rightarrow> u32 \<times> cstring" where
  "aton_digits base val [] = (val, [])"
| "aton_digits base val (c # cp) =
     (if lwip_isdigit c then aton_digits base (val * base + (ucast c - 0x30)) cp
      else if base = 16 \<and> lwip_isxdigit c
      then aton_digits base (push_bit 4 val OR (ucast c + 10 - (if lwip_islower c then 0x61 else 0x41))) cp
      else (val, c # cp))"

text \<open>One number with its base: \<open>0x\<close> hexadecimal, \<open>0\<close> octal, otherwise decimal.\<close>

definition aton_number :: "cstring \<Rightarrow> u32 \<times> cstring" where
  "aton_number cp =
     (if peek cp = 0x30 then
        let cp = tl cp in
        if peek cp = 0x78 \<or> peek cp = 0x58 then aton_digits 16 0 (tl cp) else aton_digits 8 0 cp
      else aton_digits 10 0 cp)"

lemma aton_digits_length: "length (snd (aton_digits base val cp)) \<le> length cp"
  by (induction base val cp rule: aton_digits.induct) auto

lemma aton_number_length: "length (snd (aton_number cp)) \<le> length cp"
  using aton_digits_length [of 16 0 "tl (tl cp)"] aton_digits_length [of 8 0 "tl cp"] aton_digits_length [of 10 0 cp]
  by (auto simp: aton_number_def Let_def)

text \<open>The outer loop: \<open>parts\<close> are the numbers stored so far, \<open>pp - parts\<close> their number.\<close>

function aton_parts :: "cstring \<Rightarrow> u32 list \<Rightarrow> (u32 list \<times> u32 \<times> cstring) option" where
  "aton_parts cp parts =
     (if \<not> lwip_isdigit (peek cp) then None
      else case aton_number cp of (val, cp') \<Rightarrow>
        if peek cp' = 0x2E then
          if length parts \<ge> 3 then None else aton_parts (tl cp') (parts @ [val])
        else Some (parts, val, cp'))"
  by pat_completeness auto

termination
proof (relation "measure (\<lambda>(cp, parts). length cp)")
  fix cp parts val cp'
  assume a: "(val, cp') = aton_number cp" and c: "peek cp' = (0x2E :: byte)"
  have "length cp' \<le> length cp" using aton_number_length [of cp] unfolding a [symmetric] by simp
  moreover have "cp' \<noteq> []" using c by (auto simp: peek_def)
  ultimately show "((tl cp', parts @ [val]), cp, parts) \<in> measure (\<lambda>(cp, parts). length cp)"
    by (cases cp') auto
qed simp

definition ip4addr_aton :: "cstring \<Rightarrow> ip4_addr_t option" where
  "ip4addr_aton cp = do {
     (parts, val, cp) \<leftarrow> aton_parts cp [];
     if peek cp \<noteq> 0 \<and> \<not> lwip_isspace (peek cp) then None
     else do {
       val \<leftarrow> (case parts of
           [] \<Rightarrow> Some val
         | [p0] \<Rightarrow> if val > 0xFFFFFF then None else if p0 > 0xFF then None else Some (val OR push_bit 24 p0)
         | [p0, p1] \<Rightarrow> if val > 0xFFFF then None else if p0 > 0xFF \<or> p1 > 0xFF then None
             else Some (val OR (push_bit 24 p0 OR push_bit 16 p1))
         | [p0, p1, p2] \<Rightarrow> if val > 0xFF then None else if p0 > 0xFF \<or> p1 > 0xFF \<or> p2 > 0xFF then None
             else Some (val OR (push_bit 24 p0 OR push_bit 16 p1 OR push_bit 8 p2))
         | _ \<Rightarrow> None);
       Some (lwip_htonl val)
     }
   }"

definition ipaddr_addr :: "cstring \<Rightarrow> u32" where
  "ipaddr_addr cp = (case ip4addr_aton cp of Some val \<Rightarrow> val | None \<Rightarrow> IPADDR_NONE)"

section \<open>Printing an address\<close>

text \<open>The digits of one octet, lowest first, as the \<open>do\<close> loop stores them in \<open>inv\<close>.\<close>

function ntoa_inv :: "u8 \<Rightarrow> cstring" where
  "ntoa_inv ap = (0x30 + ap mod 10) # (if ap div 10 \<noteq> 0 then ntoa_inv (ap div 10) else [])"
  by pat_completeness auto

termination
proof (relation "measure unat", simp)
  fix ap :: u8 assume "ap div 10 \<noteq> 0"
  then have "unat ap \<noteq> 0" by (metis unat_eq_zero unat_div div_0)
  then show "(ap div 10, ap) \<in> measure unat" by (simp add: unat_div)
qed

declare ntoa_inv.simps [simp del] aton_parts.simps [simp del]

text \<open>\<open>if (len++ >= buflen) return NULL; *rp++ = c;\<close>\<close>

definition ntoa_put :: "int \<Rightarrow> byte \<Rightarrow> cstring \<Rightarrow> cstring option" where
  "ntoa_put buflen c out = (if int (length out) \<ge> buflen then None else Some (out @ [c]))"

fun ntoa_put_all :: "int \<Rightarrow> byte list \<Rightarrow> cstring \<Rightarrow> cstring option" where
  "ntoa_put_all buflen [] out = Some out"
| "ntoa_put_all buflen (c # cs) out = do { out \<leftarrow> ntoa_put buflen c out; ntoa_put_all buflen cs out }"

fun ntoa_octets :: "int \<Rightarrow> u8 list \<Rightarrow> cstring \<Rightarrow> cstring option" where
  "ntoa_octets buflen [] out = Some out"
| "ntoa_octets buflen (ap # aps) out = do {
     out \<leftarrow> ntoa_put_all buflen (rev (ntoa_inv ap)) out;
     out \<leftarrow> ntoa_put buflen 0x2E out;
     ntoa_octets buflen aps out
   }"

text \<open>The string in \<open>buf\<close> at the end: the last dot becomes the terminating zero.\<close>

definition ip4addr_ntoa_r :: "ip4_addr_t \<Rightarrow> int \<Rightarrow> cstring option" where
  "ip4addr_ntoa_r addr buflen = do {
     out \<leftarrow> ntoa_octets buflen [u32_byte addr 0, u32_byte addr 1, u32_byte addr 2, u32_byte addr 3] [];
     Some (butlast out)
   }"

definition IP4ADDR_STRLEN_MAX :: int where "IP4ADDR_STRLEN_MAX = 16"

definition ip4addr_ntoa :: "ip4_addr_t \<Rightarrow> cstring option" where
  "ip4addr_ntoa addr = ip4addr_ntoa_r addr IP4ADDR_STRLEN_MAX"

section \<open>Lemmas on netmasks\<close>

lemma and_push_bit_1 [simp]: "(nm AND 2 ^ k = 0) \<longleftrightarrow> \<not> bit nm k" if "k < 32" for nm :: u32
proof -
  have "bit (nm AND 2 ^ k) n = (n = k \<and> bit nm k)" for n
    using that by (auto simp: bit_and_iff bit_exp_iff)
  then show ?thesis by (metis bit_eqI bit_0_eq bot_apply bot_bool_def)
qed

lemma and_1_eq_0 [simp]: "(nm AND 1 = 0) \<longleftrightarrow> \<not> bit nm 0" for nm :: u32
  using and_push_bit_1 [of 0 nm] by simp

lemma netmask_no_one_iff: "k \<le> 32 \<Longrightarrow> netmask_no_one nm k \<longleftrightarrow> (\<forall>i < k. \<not> bit nm i)"
  by (induction k) (auto simp: less_Suc_eq)

lemma netmask_first_zero_spec:
  "k \<le> 32 \<Longrightarrow> netmask_first_zero nm k \<le> k \<and> (\<forall>i. netmask_first_zero nm k \<le> i \<and> i < k \<longrightarrow> bit nm i)
     \<and> (netmask_first_zero nm k \<noteq> 0 \<longrightarrow> \<not> bit nm (netmask_first_zero nm k - 1))"
  by (induction k) (auto simp: less_Suc_eq)

lemma netmask_valid_iff:
  "ip4_addr_netmask_valid a \<longleftrightarrow> (\<exists>k \<le> 32. \<forall>i < 32. bit (lwip_htonl a) i = (k \<le> i))"
proof -
  define nm where "nm = lwip_htonl a"
  define z where "z = netmask_first_zero nm 32"
  have z: "z \<le> 32" "\<forall>i. z \<le> i \<and> i < 32 \<longrightarrow> bit nm i" "z \<noteq> 0 \<longrightarrow> \<not> bit nm (z - 1)"
    using netmask_first_zero_spec [of 32 nm] by (simp_all add: z_def)
  have v: "ip4_addr_netmask_valid a \<longleftrightarrow> (\<forall>i < z. \<not> bit nm i)"
    using z(1) by (simp add: ip4_addr_netmask_valid_def Let_def nm_def [symmetric] z_def [symmetric] netmask_no_one_iff)
  show ?thesis
  proof
    assume "ip4_addr_netmask_valid a"
    then have "\<forall>i < 32. bit nm i = (z \<le> i)" using v z(2) by (meson not_le)
    then show "\<exists>k \<le> 32. \<forall>i < 32. bit (lwip_htonl a) i = (k \<le> i)" using z(1) nm_def by blast
  next
    assume "\<exists>k \<le> 32. \<forall>i < 32. bit (lwip_htonl a) i = (k \<le> i)"
    then obtain k where k: "k \<le> 32" "\<forall>i < 32. bit nm i = (k \<le> i)" using nm_def by blast
    have "z \<le> k"
    proof (rule ccontr)
      assume "\<not> z \<le> k"
      then have "z \<noteq> 0" "k \<le> z - 1" "z - 1 < 32" using z(1) by auto
      then show False using z(3) k(2) by blast
    qed
    then show "ip4_addr_netmask_valid a" using v k(2) z(1) by (metis less_le_trans not_le)
  qed
qed

section \<open>Lemmas on printing and reading\<close>

lemma ntoa_put_all_Some:
  "ntoa_put_all buflen cs out = Some out' \<longleftrightarrow> out' = out @ cs \<and> (cs = [] \<or> int (length out + length cs) \<le> buflen)"
proof (induction cs arbitrary: out)
  case (Cons c cs)
  show ?case using Cons [of "out @ [c]"] by (auto simp: ntoa_put_def)
qed auto

text \<open>What one octet prints.\<close>

definition octet_str :: "u8 \<Rightarrow> cstring" where
  "octet_str b = rev (ntoa_inv b)"

lemma ntoa_inv_digits: "list_all lwip_isdigit (ntoa_inv b)"
proof (induction b rule: ntoa_inv.induct)
  case (1 b)
  have m: "unat b mod 10 < 10" by simp
  have u: "unat (0x30 + b mod 10) = 48 + unat b mod 10"
    using m by (simp add: unat_word_ariths unat_mod)
  have "lwip_isdigit (0x30 + b mod 10)" using m unfolding lwip_isdigit_def word_le_nat_alt u by simp
  then show ?case using 1 by (subst ntoa_inv.simps) auto
qed

lemma ntoa_inv_ne [simp]: "ntoa_inv b \<noteq> []"
  by (subst ntoa_inv.simps) simp

lemma ntoa_inv_length: "length (ntoa_inv b) \<le> 3"
proof -
  have z: "b div 10 div 10 div 10 = 0"
  proof -
    have "unat b div 10 div 10 div 10 = 0" using unat_u8_less [of b] by linarith
    then show ?thesis unfolding word_unat_eq_iff unat_div by simp
  qed
  show ?thesis
    by (subst ntoa_inv.simps, subst ntoa_inv.simps, subst ntoa_inv.simps) (simp add: z)
qed

lemma octet_str_digits: "list_all lwip_isdigit (octet_str b)"
  using ntoa_inv_digits [of b] by (simp add: octet_str_def list_all_iff)

lemma octet_str_ne [simp]: "octet_str b \<noteq> []"
  by (simp add: octet_str_def)

lemma octet_str_length: "1 \<le> length (octet_str b)" "length (octet_str b) \<le> 3"
  using ntoa_inv_length [of b] by (simp_all add: octet_str_def Suc_le_eq)

lemma octet_str_0: "octet_str 0 = [0x30]"
  by (simp add: octet_str_def ntoa_inv.simps)

lemma ntoa_inv_last: "b \<noteq> 0 \<Longrightarrow> List.last (ntoa_inv b) \<noteq> 0x30"
proof (induction b rule: ntoa_inv.induct)
  case (1 b)
  show ?case
  proof (cases "b div 10 = 0")
    case True
    then have "unat b div 10 = 0" using unat_div [of b 10] by simp
    then have "unat b < 10" by linarith
    then have "unat (0x30 + b mod 10) = 48 + unat b"
      by (simp add: unat_word_ariths unat_mod)
    moreover have "unat b \<noteq> 0" using 1(2) by (simp add: unat_eq_zero)
    ultimately have "unat (0x30 + b mod 10) \<noteq> unat (0x30 :: byte)" by simp
    then have "0x30 + b mod 10 \<noteq> 0x30" by metis
    then show ?thesis using True by (subst ntoa_inv.simps) (simp del: add_cancel_left_right)
  next
    case False
    then show ?thesis using 1(1) by (subst ntoa_inv.simps) auto
  qed
qed


text \<open>A number is read up to the first character that is no digit.\<close>

lemma aton_digits_dec:
  "list_all lwip_isdigit ds \<Longrightarrow> \<not> lwip_isdigit (peek rest) \<Longrightarrow>
   aton_digits 10 v (ds @ rest) = (foldl (\<lambda>v c. v * 10 + (ucast c - 0x30)) v ds, rest)"
proof (induction ds arbitrary: v)
  case Nil
  then show ?case by (cases rest) (auto simp: peek_def)
qed simp

lemma unat_ucast_u8: "unat (ucast (b :: u8) :: u32) = unat b"
proof -
  have "unat b < 2 ^ 32" using unat_u8_less [of b] by (rule order_less_trans) simp
  then show ?thesis by (simp add: unsigned_ucast_eq take_bit_nat_eq_self)
qed

lemma ucast_u8_of_nat: "(ucast (b :: u8) :: u32) = of_nat (unat b)"
  using unat_ucast_u8 [of b] by (metis of_nat_unat ucast_id)

lemma octet_str_value: "foldl (\<lambda>v c. v * 10 + (ucast c - 0x30)) (0 :: u32) (octet_str b) = ucast b"
  unfolding octet_str_def
proof (induction b rule: ntoa_inv.induct)
  case (1 b)
  let ?f = "\<lambda>v c. v * 10 + (ucast c - 0x30) :: u32"
  have m: "unat b mod 10 < 10" by simp
  have u: "unat (0x30 + b mod 10) = 48 + unat b mod 10"
    using m by (simp add: unat_word_ariths unat_mod)
  have d: "ucast (0x30 + b mod 10) - 0x30 = (of_nat (unat b mod 10) :: u32)"
    unfolding ucast_u8_of_nat u by simp
  have q: "foldl ?f 0 (rev (if b div 10 \<noteq> 0 then ntoa_inv (b div 10) else [])) = of_nat (unat b div 10)"
  proof (cases "b div 10 = 0")
    case True
    then have "unat b div 10 = 0" using unat_div [of b 10] by simp
    then show ?thesis using True by simp
  next
    case False
    have "foldl ?f 0 (rev (ntoa_inv (b div 10))) = ucast (b div 10)" using 1 [OF False] .
    also have "\<dots> = of_nat (unat b div 10)" unfolding ucast_u8_of_nat unat_div by simp
    finally show ?thesis using False by (simp only: if_True simp_thms)
  qed
  have "foldl ?f 0 (rev (ntoa_inv b)) = of_nat (unat b div 10) * 10 + of_nat (unat b mod 10)"
    using q d by (subst ntoa_inv.simps) simp
  also have "\<dots> = of_nat (unat b div 10 * 10 + unat b mod 10)" by (simp only: of_nat_add of_nat_mult of_nat_numeral)
  also have "\<dots> = ucast b" unfolding div_mult_mod_eq ucast_u8_of_nat ..
  finally show ?case .
qed

lemma aton_number_octet:
  assumes "\<not> lwip_isdigit (peek rest)" "peek rest \<noteq> 0x78" "peek rest \<noteq> 0x58"
  shows "aton_number (octet_str b @ rest) = (ucast b, rest)"
proof (cases "b = 0")
  case True
  have "aton_digits 8 0 rest = (0, rest)" using assms(1) by (cases rest) (auto simp: peek_def)
  then show ?thesis using True assms by (simp add: octet_str_0 aton_number_def peek_def [of "_ # _"])
next
  case False
  have "peek (octet_str b @ rest) = List.last (ntoa_inv b)"
    by (cases "ntoa_inv b" rule: rev_cases) (simp_all add: octet_str_def peek_def)
  then have "peek (octet_str b @ rest) \<noteq> 0x30" using ntoa_inv_last [OF False] by simp
  then show ?thesis
    using aton_digits_dec [OF octet_str_digits assms(1), of 0 b] by (simp add: aton_number_def octet_str_value)
qed

lemma octet_str_first_digit: "lwip_isdigit (peek (octet_str b @ rest))"
  using octet_str_digits [of b] octet_str_ne [of b] by (cases "octet_str b") (auto simp: peek_def)

lemma ip4addr_ntoa_r_eq:
  assumes "16 \<le> buflen"
  shows "ip4addr_ntoa_r a buflen = Some (octet_str (u32_byte a 0) @ 0x2E # octet_str (u32_byte a 1) @ 0x2E #
           octet_str (u32_byte a 2) @ 0x2E # octet_str (u32_byte a 3))"
proof -
  have l: "length (octet_str (u32_byte a i)) \<le> 3" for i by (rule octet_str_length)
  show ?thesis
    using assms l [of 0] l [of 1] l [of 2] l [of 3]
    by (simp add: ip4addr_ntoa_r_def octet_str_def [symmetric] ntoa_put_all_Some [THEN iffD2] ntoa_put_def
        butlast_append)
qed


lemma u32_bytes_eqI: "(\<And>i. i < 4 \<Longrightarrow> u32_byte x i = u32_byte y i) \<Longrightarrow> x = y"
proof (rule bit_word_eqI)
  fix n :: nat assume e: "\<And>i. i < 4 \<Longrightarrow> u32_byte x i = u32_byte y i" and n: "n < LENGTH(32)"
  have "bit (u32_byte x (n div 8)) (n mod 8) = bit (u32_byte y (n div 8)) (n mod 8)"
    using e [of "n div 8"] n by simp
  then show "bit x n = bit y n" by (simp add: bit_u32_byte)
qed

text \<open>The address is put together from its octets, highest first.\<close>

lemma octets_join:
  "lwip_htonl (ucast (u32_byte a 3) OR (push_bit 24 (ucast (u32_byte a 0)) OR push_bit 16 (ucast (u32_byte a 1))
     OR push_bit 8 (ucast (u32_byte a 2)))) = a"
proof (rule u32_bytes_eqI)
  fix i :: nat assume i: "i < 4"
  let ?v = "ucast (u32_byte a 3) OR (push_bit 24 (ucast (u32_byte a 0)) OR push_bit 16 (ucast (u32_byte a 1))
     OR push_bit 8 (ucast (u32_byte a 2))) :: u32"
  have "bit (u32_byte ?v (3 - i)) n = bit (u32_byte a i) n" for n
  proof -
    consider "i = 0" | "i = 1" | "i = 2" | "i = 3" using i by linarith
    then show ?thesis
      by cases (auto simp: bit_u32_byte bit_or_iff bit_push_bit_iff bit_ucast_iff add.commute)
  qed
  then show "u32_byte (lwip_htonl ?v) i = u32_byte a i"
    unfolding lwip_htonl_byte [OF i] by (intro bit_word_eqI) blast
qed

lemma ucast_u8_le: "(ucast (b :: u8) :: u32) \<le> 0xFF"
proof -
  have "unat b \<le> 255" using unat_u8_less [of b] by linarith
  then show ?thesis unfolding word_le_nat_alt unat_ucast_u8 by simp
qed

lemma ip4addr_aton_octets:
  "ip4addr_aton (octet_str (u32_byte a 0) @ 0x2E # octet_str (u32_byte a 1) @ 0x2E #
           octet_str (u32_byte a 2) @ 0x2E # octet_str (u32_byte a 3)) = Some a"
proof -
  have dot: "\<not> lwip_isdigit 0x2E" "peek (0x2E # r) = 0x2E" for r
    by (simp_all add: peek_def lwip_isdigit_def)
  have nil: "\<not> lwip_isdigit 0" "peek [] = 0" by (simp_all add: peek_def lwip_isdigit_def)
  have num: "aton_number (octet_str b @ 0x2E # r) = (ucast b, 0x2E # r)" for b r
    by (rule aton_number_octet) (simp_all add: dot)
  have num0: "aton_number (octet_str b) = (ucast b, [])" for b
    using aton_number_octet [of "[]" b] by (simp add: nil)
  have fd: "lwip_isdigit (peek (octet_str b))" for b using octet_str_first_digit [of b "[]"] by simp
  have step: "aton_parts (octet_str b @ 0x2E # r) ps = (if length ps \<ge> 3 then None else aton_parts r (ps @ [ucast b]))" for b r ps
    by (subst aton_parts.simps) (simp add: octet_str_first_digit num dot)
  have stop: "aton_parts (octet_str b) ps = Some (ps, ucast b, [])" for b ps
    by (subst aton_parts.simps) (simp add: fd num0 nil)
  show ?thesis
    unfolding ip4addr_aton_def step
    by (simp add: step stop nil ucast_u8_le not_less octets_join [unfolded One_nat_def])
qed

lemma aton_length_ntoa:
  assumes "ip4addr_ntoa_r a 16 = Some s" shows "length s \<le> 15"
  using assms octet_str_length(2) [of "u32_byte a 0"] octet_str_length(2) [of "u32_byte a 1"]
    octet_str_length(2) [of "u32_byte a 2"] octet_str_length(2) [of "u32_byte a 3"]
  by (auto simp: ip4addr_ntoa_r_eq)

section \<open>Properties\<close>

text \<open>C37: printing any address with \<open>ip4addr_ntoa\<close> fits the 16 byte buffer, and \<open>ip4addr_aton\<close> (and
  \<open>ipaddr_addr\<close>) reads the string back to the same address.\<close>

theorem ip4addr_ntoa_aton_roundtrip:
  "\<exists>s. ip4addr_ntoa a = Some s \<and> length s \<le> 15 \<and> ip4addr_aton s = Some a \<and> ipaddr_addr s = a"
proof -
  obtain s where "ip4addr_ntoa_r a 16 = Some s" "ip4addr_aton s = Some a"
    using ip4addr_ntoa_r_eq [of 16 a] ip4addr_aton_octets [of a] by fastforce
  then show ?thesis
    using aton_length_ntoa [of a s] by (simp add: ip4addr_ntoa_def IP4ADDR_STRLEN_MAX_def ipaddr_addr_def)
qed

text \<open>C38: \<open>ip4_addr_netmask_valid\<close> accepts exactly the netmasks that are ones followed by zeros in host
  byte order: the 33 prefix masks and nothing else.\<close>

theorem ip4_addr_netmask_valid_prefix:
  "ip4_addr_netmask_valid a \<longleftrightarrow> (\<exists>n \<le> 32. lwip_htonl a = push_bit (32 - n) (mask n))"
proof -
  have m: "(\<forall>i < 32. bit (lwip_htonl a) i = (k \<le> i)) \<longleftrightarrow> lwip_htonl a = push_bit k (mask (32 - k))" if "k \<le> 32" for k
  proof -
    have b: "bit (push_bit k (mask (32 - k)) :: u32) i = (k \<le> i)" if "i < 32" for i
      using that \<open>k \<le> 32\<close> by (auto simp: bit_push_bit_iff bit_mask_iff)
    show ?thesis
    proof
      assume "\<forall>i < 32. bit (lwip_htonl a) i = (k \<le> i)"
      then show "lwip_htonl a = push_bit k (mask (32 - k))" using b by (intro bit_word_eqI) simp
    qed (simp add: b)
  qed
  show ?thesis unfolding netmask_valid_iff
  proof
    assume "\<exists>k \<le> 32. \<forall>i < 32. bit (lwip_htonl a) i = (k \<le> i)"
    then obtain k where "k \<le> 32" "lwip_htonl a = push_bit k (mask (32 - k))" using m by blast
    then show "\<exists>n \<le> 32. lwip_htonl a = push_bit (32 - n) (mask n)" by (intro exI [of _ "32 - k"]) simp
  next
    assume "\<exists>n \<le> 32. lwip_htonl a = push_bit (32 - n) (mask n)"
    then obtain n where n: "n \<le> 32" "lwip_htonl a = push_bit (32 - n) (mask n)" by blast
    then have "lwip_htonl a = push_bit (32 - n) (mask (32 - (32 - n)))" by simp
    then show "\<exists>k \<le> 32. \<forall>i < 32. bit (lwip_htonl a) i = (k \<le> i)"
      using m [of "32 - n"] by (intro exI [of _ "32 - n"]) simp
  qed
qed

end
