(* ===== verification/Tcp_Data.thy ===== *)
theory Tcp_Data
  imports Inet_Chksum Pbuf_Queue Ip4_Addr
begin

unbundle bit_operations_syntax

text \<open>
  The data of TCP: the states, the constants of this build (\<open>lwipopts.h\<close>: window scaling and selective
  acknowledgements on, timestamps off, out of order queueing on), segments (\<open>struct tcp_seg\<close>), control
  blocks (\<open>struct tcp_pcb\<close>, \<open>struct tcp_pcb_listen\<close>), the static variables of \<open>tcp.c\<close> and \<open>tcp_in.c\<close>, and
  the comparison of sequence numbers.

  A queue of segments is the list of the segments in the order of their \<open>next\<close> pointers; the header of a
  segment stays in the memory of its pbuf, behind the pointer \<open>tcphdr\<close>.  A list of control blocks is
  the list of their addresses.  The signed 16 bit fields are integers with explicit casts (\<open>s16\<close>).  The type
  \<open>tcpwnd_size_t\<close> is 32 bits wide because of window scaling.
\<close>

section \<open>States and constants\<close>

datatype tcp_state =
    CLOSED | LISTEN | SYN_SENT | SYN_RCVD | ESTABLISHED | FIN_WAIT_1 | FIN_WAIT_2 | CLOSE_WAIT | CLOSING | LAST_ACK | TIME_WAIT

text \<open>The number of a state, for the comparisons \<open>pcb->state >= ESTABLISHED\<close>.\<close>

fun tcp_state_num :: "tcp_state \<Rightarrow> nat" where
  "tcp_state_num CLOSED = 0"
| "tcp_state_num LISTEN = 1"
| "tcp_state_num SYN_SENT = 2"
| "tcp_state_num SYN_RCVD = 3"
| "tcp_state_num ESTABLISHED = 4"
| "tcp_state_num FIN_WAIT_1 = 5"
| "tcp_state_num FIN_WAIT_2 = 6"
| "tcp_state_num CLOSE_WAIT = 7"
| "tcp_state_num CLOSING = 8"
| "tcp_state_num LAST_ACK = 9"
| "tcp_state_num TIME_WAIT = 10"

definition TCP_WND :: u32 where "TCP_WND = 65535"
definition TCP_MSS :: u16 where "TCP_MSS = 9000"
definition TCP_SND_BUF :: u32 where "TCP_SND_BUF = 65535"
definition TCP_SND_QUEUELEN :: u16 where "TCP_SND_QUEUELEN = 64"
definition TCP_RCV_SCALE :: u8 where "TCP_RCV_SCALE = 8"
definition TCP_MAXRTX :: u8 where "TCP_MAXRTX = 2"
definition TCP_SYNMAXRTX :: u8 where "TCP_SYNMAXRTX = 2"
definition TCP_TTL :: u8 where "TCP_TTL = 255"
definition INITIAL_MSS :: u16 where "INITIAL_MSS = 536"
definition TCP_ACCEPT_ANY_PORT :: u16 where "TCP_ACCEPT_ANY_PORT = 1"
definition TCP_WND_UPDATE_THRESHOLD :: u32 where "TCP_WND_UPDATE_THRESHOLD = min (TCP_WND div 4) (ucast TCP_MSS * 4)"
definition LWIP_TCP_MAX_SACK_NUM :: nat where "LWIP_TCP_MAX_SACK_NUM = 4"
definition TCP_HLEN :: nat where "TCP_HLEN = 20"
definition TCP_MAX_OPTION_BYTES :: u8 where "TCP_MAX_OPTION_BYTES = 40"

definition TCP_FIN :: u8 where "TCP_FIN = 0x01"
definition TCP_SYN :: u8 where "TCP_SYN = 0x02"
definition TCP_RST :: u8 where "TCP_RST = 0x04"
definition TCP_PSH :: u8 where "TCP_PSH = 0x08"
definition TCP_ACK :: u8 where "TCP_ACK = 0x10"

definition TF_ACK_DELAY :: u16 where "TF_ACK_DELAY = 0x01"
definition TF_ACK_NOW :: u16 where "TF_ACK_NOW = 0x02"
definition TF_INFR :: u16 where "TF_INFR = 0x04"
definition TF_CLOSEPEND :: u16 where "TF_CLOSEPEND = 0x08"
definition TF_RXCLOSED :: u16 where "TF_RXCLOSED = 0x10"
definition TF_FIN :: u16 where "TF_FIN = 0x20"
definition TF_NODELAY :: u16 where "TF_NODELAY = 0x40"
definition TF_NAGLEMEMERR :: u16 where "TF_NAGLEMEMERR = 0x80"
definition TF_WND_SCALE :: u16 where "TF_WND_SCALE = 0x0100"
definition TF_BACKLOGPEND :: u16 where "TF_BACKLOGPEND = 0x0200"
definition TF_RTO :: u16 where "TF_RTO = 0x0800"
definition TF_SACK :: u16 where "TF_SACK = 0x1000"

text \<open>The flags of the input processing (\<open>recv_flags\<close>).\<close>

definition TF_RESET :: u8 where "TF_RESET = 0x08"
definition TF_CLOSED :: u8 where "TF_CLOSED = 0x10"
definition TF_GOT_FIN :: u8 where "TF_GOT_FIN = 0x20"

definition TF_SEG_OPTS_MSS :: u8 where "TF_SEG_OPTS_MSS = 0x01"
definition TF_SEG_OPTS_WND_SCALE :: u8 where "TF_SEG_OPTS_WND_SCALE = 0x08"
definition TF_SEG_OPTS_SACK_PERM :: u8 where "TF_SEG_OPTS_SACK_PERM = 0x10"

definition TCP_WRITE_FLAG_COPY :: u8 where "TCP_WRITE_FLAG_COPY = 0x01"
definition TCP_WRITE_FLAG_MORE :: u8 where "TCP_WRITE_FLAG_MORE = 0x02"

definition LWIP_TCP_OPT_LENGTH :: "u8 \<Rightarrow> u8" where
  "LWIP_TCP_OPT_LENGTH flags =
     (if flags AND TF_SEG_OPTS_MSS \<noteq> 0 then 4 else 0)
     + (if flags AND TF_SEG_OPTS_WND_SCALE \<noteq> 0 then 4 else 0)
     + (if flags AND TF_SEG_OPTS_SACK_PERM \<noteq> 0 then 4 else 0)"

text \<open>The cast of an \<open>int\<close> to \<open>s16_t\<close>.\<close>

definition s16 :: "int \<Rightarrow> int" where
  "s16 x = (x + 2 ^ 15) mod 2 ^ 16 - 2 ^ 15"

section \<open>Segments and control blocks\<close>

record tcp_seg =
  sg_p :: "addr option"
  sg_len :: u16
  sg_flags :: u8
  sg_tcphdr :: "ptr option"

datatype tcp_accept_fn = fn_tcp_accept_null | fn_accept_function
datatype tcp_recv_fn = fn_tcp_recv_null | fn_recv_tcp
datatype tcp_sent_fn = fn_sent_tcp
datatype tcp_connected_fn = fn_do_connected
datatype tcp_poll_fn = fn_poll_tcp
datatype tcp_err_fn = fn_err_tcp

record tcp_pcb_listen =
  lp_local_ip :: ip4_addr_t
  lp_netif_idx :: u8
  lp_so_options :: u8
  lp_tos :: u8
  lp_ttl :: u8
  lp_callback_arg :: "addr option"
  lp_prio :: u8
  lp_local_port :: u16
  lp_accept :: "tcp_accept_fn option"
  lp_backlog :: u8
  lp_accepts_pending :: u8

record tcp_pcb =
  tp_local_ip :: ip4_addr_t
  tp_remote_ip :: ip4_addr_t
  tp_netif_idx :: u8
  tp_so_options :: u8
  tp_tos :: u8
  tp_ttl :: u8
  tp_callback_arg :: "addr option"
  tp_state :: tcp_state
  tp_prio :: u8
  tp_local_port :: u16
  tp_remote_port :: u16
  tp_flags :: u16
  tp_polltmr :: u8
  tp_pollinterval :: u8
  tp_last_timer :: u8
  tp_tmr :: u32
  tp_rcv_nxt :: u32
  tp_rcv_wnd :: u32
  tp_rcv_ann_wnd :: u32
  tp_rcv_ann_right_edge :: u32
  tp_rcv_sacks :: "(u32 \<times> u32) list"
  tp_rtime :: int
  tp_mss :: u16
  tp_rttest :: u32
  tp_rtseq :: u32
  tp_sa :: int
  tp_sv :: int
  tp_rto :: int
  tp_nrtx :: u8
  tp_dupacks :: u8
  tp_lastack :: u32
  tp_cwnd :: u32
  tp_ssthresh :: u32
  tp_rto_end :: u32
  tp_snd_nxt :: u32
  tp_snd_wl1 :: u32
  tp_snd_wl2 :: u32
  tp_snd_lbb :: u32
  tp_snd_wnd :: u32
  tp_snd_wnd_max :: u32
  tp_snd_buf :: u32
  tp_snd_queuelen :: u16
  tp_unsent_oversize :: u16
  tp_bytes_acked :: u32
  tp_unsent :: "tcp_seg list"
  tp_unacked :: "tcp_seg list"
  tp_ooseq :: "tcp_seg list"
  tp_refused_data :: "addr option"
  tp_listener :: "addr option"
  tp_sent :: "tcp_sent_fn option"
  tp_recv :: "tcp_recv_fn option"
  tp_connected :: "tcp_connected_fn option"
  tp_poll :: "tcp_poll_fn option"
  tp_errf :: "tcp_err_fn option"
  tp_keep_idle :: u32
  tp_persist_cnt :: u8
  tp_persist_backoff :: u8
  tp_persist_probe :: u8
  tp_keep_cnt_sent :: u8
  tp_snd_scale :: u8
  tp_rcv_scale :: u8

text \<open>The static variables of \<open>tcp.c\<close>, of \<open>tcp_next_iss\<close> and of \<open>tcp_in.c\<close>, and the memory of the control blocks.\<close>

record tcp_globals =
  tg_pcbs :: "addr \<rightharpoonup> tcp_pcb"
  tg_lpcbs :: "addr \<rightharpoonup> tcp_pcb_listen"
  tg_bound :: "addr list"
  tg_listen :: "addr list"
  tg_active :: "addr list"
  tg_tw :: "addr list"
  tg_active_changed :: bool
  tg_port :: u16
  tg_ticks :: u32
  tg_timer :: u8
  tg_timer_ctr :: u8
  tg_iss :: u32
  tg_input_pcb :: "addr option"

record tcp_in_vars =
  ti_inseg :: tcp_seg
  ti_tcphdr :: "ptr option"
  ti_optlen :: u16
  ti_opt1len :: u16
  ti_opt2 :: "ptr option"
  ti_optidx :: u16
  ti_seqno :: u32
  ti_ackno :: u32
  ti_recv_acked :: u32
  ti_tcplen :: u16
  ti_flags :: u8
  ti_recv_flags :: u8
  ti_recv_data :: "addr option"

definition tcp_globals_zero :: tcp_globals where
  "tcp_globals_zero = \<lparr>tg_pcbs = Map.empty, tg_lpcbs = Map.empty, tg_bound = [], tg_listen = [], tg_active = [], tg_tw = [],
     tg_active_changed = False, tg_port = 0xC000, tg_ticks = 0, tg_timer = 0, tg_timer_ctr = 0, tg_iss = 6510, tg_input_pcb = None\<rparr>"

definition tcp_in_zero :: tcp_in_vars where
  "tcp_in_zero = \<lparr>ti_inseg = \<lparr>sg_p = None, sg_len = 0, sg_flags = 0, sg_tcphdr = None\<rparr>, ti_tcphdr = None, ti_optlen = 0, ti_opt1len = 0,
     ti_opt2 = None, ti_optidx = 0, ti_seqno = 0, ti_ackno = 0, ti_recv_acked = 0, ti_tcplen = 0, ti_flags = 0, ti_recv_flags = 0,
     ti_recv_data = None\<rparr>"

section \<open>Windows\<close>

definition TCPWND_MIN16 :: "u32 \<Rightarrow> u16" where
  "TCPWND_MIN16 x = ucast (min x 0xFFFF)"

definition RCV_WND_SCALE :: "tcp_pcb \<Rightarrow> u32 \<Rightarrow> u32" where
  "RCV_WND_SCALE pcb wnd = drop_bit (unat (tp_rcv_scale pcb)) wnd"

text \<open>A shift of a 16 bit value as an \<open>int\<close>, cast to 32 bits.\<close>

definition SND_WND_SCALE :: "tcp_pcb \<Rightarrow> u16 \<Rightarrow> u32" where
  "SND_WND_SCALE pcb wnd = push_bit (unat (tp_snd_scale pcb)) (ucast wnd)"

definition TCP_WND_MAX :: "tcp_pcb \<Rightarrow> u32" where
  "TCP_WND_MAX pcb = (if tp_flags pcb AND TF_WND_SCALE \<noteq> 0 then TCP_WND else ucast (TCPWND_MIN16 TCP_WND))"

definition TCP_WND_INC :: "u32 \<Rightarrow> u32 \<Rightarrow> u32" where
  "TCP_WND_INC wnd inc = (if wnd + inc \<ge> wnd then wnd + inc else - 1)"

definition tcp_set_flags :: "u16 \<Rightarrow> tcp_pcb \<Rightarrow> tcp_pcb" where
  "tcp_set_flags f pcb = pcb\<lparr>tp_flags := tp_flags pcb OR f\<rparr>"

definition tcp_clear_flags :: "u16 \<Rightarrow> tcp_pcb \<Rightarrow> tcp_pcb" where
  "tcp_clear_flags f pcb = pcb\<lparr>tp_flags := tp_flags pcb AND NOT f\<rparr>"

definition tcp_ack_now :: "tcp_pcb \<Rightarrow> tcp_pcb" where
  "tcp_ack_now pcb = tcp_set_flags TF_ACK_NOW pcb"

definition tcp_ack :: "tcp_pcb \<Rightarrow> tcp_pcb" where
  "tcp_ack pcb = (if tp_flags pcb AND TF_ACK_DELAY \<noteq> 0 then tcp_ack_now (tcp_clear_flags TF_ACK_DELAY pcb)
     else tcp_set_flags TF_ACK_DELAY pcb)"

section \<open>Sequence numbers\<close>

definition TCP_SEQ_LT :: "u32 \<Rightarrow> u32 \<Rightarrow> bool" where "TCP_SEQ_LT a b \<longleftrightarrow> sint (a - b) < 0"
definition TCP_SEQ_LEQ :: "u32 \<Rightarrow> u32 \<Rightarrow> bool" where "TCP_SEQ_LEQ a b \<longleftrightarrow> sint (a - b) \<le> 0"
definition TCP_SEQ_GT :: "u32 \<Rightarrow> u32 \<Rightarrow> bool" where "TCP_SEQ_GT a b \<longleftrightarrow> sint (a - b) > 0"
definition TCP_SEQ_GEQ :: "u32 \<Rightarrow> u32 \<Rightarrow> bool" where "TCP_SEQ_GEQ a b \<longleftrightarrow> sint (a - b) \<ge> 0"
definition TCP_SEQ_BETWEEN :: "u32 \<Rightarrow> u32 \<Rightarrow> u32 \<Rightarrow> bool" where "TCP_SEQ_BETWEEN a b c \<longleftrightarrow> TCP_SEQ_GEQ a b \<and> TCP_SEQ_LEQ a c"

text \<open>The difference of two positions of the stream that are less than 2 GB apart survives the wrap-around.\<close>

lemma sint_of_int_u32:
  assumes "- (2 ^ 31) \<le> d" "d < (2 ^ 31 :: int)"
  shows "sint (of_int d :: u32) = d"
  using assms by (simp add: sint_sbintrunc' signed_take_bit_int_eq_self)

text \<open>C39: The comparisons of sequence numbers: for two positions of the unbounded stream of bytes that are
  less than 2 GB apart, each macro decides on the 32 bit sequence numbers what the comparison of the
  positions says, wherever the numbers wrap around.  \<open>TCP_SEQ_BETWEEN\<close> is membership in the interval.\<close>

theorem tcp_seq_order:
  fixes m n k :: int
  assumes "- (2 ^ 31) < m - n" "m - n < 2 ^ 31" "- (2 ^ 31) < m - k" "m - k < 2 ^ 31"
  shows "TCP_SEQ_LT (of_int m) (of_int n) = (m < n) \<and> TCP_SEQ_LEQ (of_int m) (of_int n) = (m \<le> n)
    \<and> TCP_SEQ_GT (of_int m) (of_int n) = (m > n) \<and> TCP_SEQ_GEQ (of_int m) (of_int n) = (m \<ge> n)
    \<and> TCP_SEQ_BETWEEN (of_int m) (of_int n) (of_int k) = (n \<le> m \<and> m \<le> k)"
proof -
  have "sint (of_int m - of_int n :: u32) = m - n" "sint (of_int m - of_int k :: u32) = m - k"
    using sint_of_int_u32 [of "m - n"] sint_of_int_u32 [of "m - k"] assms by simp_all
  then show ?thesis
    unfolding TCP_SEQ_BETWEEN_def TCP_SEQ_LT_def TCP_SEQ_LEQ_def TCP_SEQ_GT_def TCP_SEQ_GEQ_def by linarith
qed

theorem tcp_seq_order_witness: "TCP_SEQ_LT 0xFFFFFFF0 0x10 \<and> \<not> TCP_SEQ_GEQ 0xFFFFFFF0 0x10 \<and> TCP_SEQ_BETWEEN 0xFFFFFFF0 0xFFFFFF00 0x10"
proof -
  have e: "(4294967312 :: u32) = 16" by simp
  show ?thesis
    using tcp_seq_order [of "0xFFFFFFF0" "0x100000010" "0x100000010"] tcp_seq_order [of "0xFFFFFFF0" "0xFFFFFF00" "0x100000010"]
    by (simp add: e)
qed

end
