(* ===== verification/Stack.thy ===== *)
theory Stack
  imports Tcp_Data
begin

unbundle bit_operations_syntax

text \<open>
  The state of the whole program: the heap with its packets, the network interface
  (\<open>struct netif\<close> and the globals of \<open>netif.c\<close>), the globals of \<open>ip.c\<close> and \<open>ip4.c\<close>, the UDP control
  blocks and globals of \<open>udp.c\<close>, those of TCP (\<open>Tcp_Data\<close>), the list of timeouts of \<open>timeouts.c\<close>
  with the clock that \<open>sys_now\<close> reads, and the objects of the native layer (\<open>link_t\<close>, \<open>udp_conn_t\<close>, the
  globals of \<open>native/interface.c\<close>).

  The program has one \<open>struct netif\<close>, the static \<open>global_if\<close> of \<open>native/interface.c\<close>
  (\<open>LWIP_SINGLE_NETIF = 1\<close>), so that a pointer to an interface is \<open>NULL\<close> or \<open>&global_if\<close>.  Function
  pointers are the constructors of a datatype with the functions that the program stores there.  The
  list of UDP control blocks is the list of their addresses in the order of the \<open>next\<close> pointers.
  Mutexes and condition variables have no state here: every definition is one critical section.
\<close>

section \<open>Network interfaces\<close>

datatype netif_ptr = global_if
datatype netif_output_fn = fn_netif_null_output_ip4 | fn_global_if_output
datatype netif_input_fn = fn_ip_input

record netif =
  nif_ip_addr :: ip4_addr_t
  nif_netmask :: ip4_addr_t
  nif_gw :: ip4_addr_t
  nif_input :: "netif_input_fn option"
  nif_output :: "netif_output_fn option"
  nif_state :: "addr option"
  nif_mtu :: u16
  nif_flags :: u8
  nif_name :: "byte \<times> byte"
  nif_num :: u8

definition NETIF_FLAG_UP :: u8 where "NETIF_FLAG_UP = 0x01"
definition NETIF_FLAG_BROADCAST :: u8 where "NETIF_FLAG_BROADCAST = 0x02"
definition NETIF_FLAG_LINK_UP :: u8 where "NETIF_FLAG_LINK_UP = 0x04"

definition netif_is_up :: "netif \<Rightarrow> bool" where
  "netif_is_up n \<longleftrightarrow> nif_flags n AND NETIF_FLAG_UP \<noteq> 0"

definition netif_is_link_up :: "netif \<Rightarrow> bool" where
  "netif_is_link_up n \<longleftrightarrow> nif_flags n AND NETIF_FLAG_LINK_UP \<noteq> 0"

definition netif_get_index :: "netif \<Rightarrow> u8" where
  "netif_get_index n = nif_num n + 1"

definition ip4_addr_isbroadcast_u32 :: "u32 \<Rightarrow> netif \<Rightarrow> bool" where
  "ip4_addr_isbroadcast_u32 a n =
     (if NOT a = IPADDR_ANY \<or> a = IPADDR_ANY then True
      else if nif_flags n AND NETIF_FLAG_BROADCAST = 0 then False
      else if a = nif_ip_addr n then False
      else if ip4_addr_netcmp a (nif_ip_addr n) (nif_netmask n)
        \<and> a AND NOT (nif_netmask n) = IPADDR_BROADCAST AND NOT (nif_netmask n) then True
      else False)"

section \<open>Globals of IP\<close>

record ip_globals =
  current_netif :: "netif_ptr option"
  current_input_netif :: "netif_ptr option"
  current_ip4_header :: "ptr option"
  current_ip_header_tot_len :: u16
  current_iphdr_src :: ip4_addr_t
  current_iphdr_dest :: ip4_addr_t

section \<open>UDP control blocks\<close>

datatype udp_recv_fn = fn_udp_on_received

record udp_pcb =
  up_local_ip :: ip4_addr_t
  up_remote_ip :: ip4_addr_t
  up_netif_idx :: u8
  up_so_options :: u8
  up_tos :: u8
  up_ttl :: u8
  up_flags :: u8
  up_local_port :: u16
  up_remote_port :: u16
  up_chksum_len_rx :: u16
  up_chksum_len_tx :: u16
  up_recv :: "udp_recv_fn option"
  up_recv_arg :: "addr option"

record udp_data =
  ud_src :: u16
  ud_dst :: u16

section \<open>Objects of the native layer\<close>

record link_t =
  lk_rx :: pbuf_queue_t
  lk_tx :: pbuf_queue_t
  lk_tx_polling :: bool
  lk_closed :: bool
  lk_mtu :: int

record udp_conn_t =
  uc_pcb :: "addr option"
  uc_rx :: pbuf_queue_t
  uc_tx :: pbuf_queue_t
  uc_tx_polling :: bool

datatype global_interface_output_func = fn_if_output

section \<open>Timeouts\<close>

text \<open>
  The handlers of timeouts and their arguments; the argument of a cyclic timer points to an entry of the
  array \<open>lwip_cyclic_timers\<close>, whose only entry in this build is the one of TCP.
\<close>

datatype sys_timeout_handler = fn_tcpip_tcp_timer | fn_lwip_cyclic_timer
datatype timeout_arg = arg_null | arg_cyclic nat

record sys_timeo =
  to_time :: u32
  to_h :: "sys_timeout_handler option"
  to_arg :: timeout_arg

section \<open>The state\<close>

record stack =
  st_heap :: heap
  st_global_if :: netif
  st_netif_default :: "netif_ptr option"
  st_netif_num :: u8
  st_output_func :: "global_interface_output_func option"
  st_output_context :: "addr option"
  st_links :: "addr \<rightharpoonup> link_t"
  st_ip_data :: ip_globals
  st_ip_id :: u16
  st_udp_pcbs :: "addr list"
  st_udp_pcb :: "addr \<rightharpoonup> udp_pcb"
  st_udp_port :: u16
  st_udp_data :: udp_data
  st_udp_conns :: "addr \<rightharpoonup> udp_conn_t"
  st_tcp :: tcp_globals
  st_tcp_in :: tcp_in_vars
  st_next_timeout :: "sys_timeo list"
  st_timeout_due :: u32
  st_tcp_timer_active :: bool
  st_now :: u32

text \<open>The state at program start: static variables are zero but for their initialisers.\<close>

definition netif_zero :: netif where
  "netif_zero = \<lparr>nif_ip_addr = 0, nif_netmask = 0, nif_gw = 0, nif_input = None, nif_output = None, nif_state = None,
     nif_mtu = 0, nif_flags = 0, nif_name = (0, 0), nif_num = 0\<rparr>"

definition ip_data_zero :: ip_globals where
  "ip_data_zero = \<lparr>current_netif = None, current_input_netif = None, current_ip4_header = None,
     current_ip_header_tot_len = 0, current_iphdr_src = 0, current_iphdr_dest = 0\<rparr>"

definition stack_zero :: "heap \<Rightarrow> stack" where
  "stack_zero h = \<lparr>st_heap = h, st_global_if = netif_zero, st_netif_default = None, st_netif_num = 0,
     st_output_func = None, st_output_context = None, st_links = Map.empty, st_ip_data = ip_data_zero, st_ip_id = 0,
     st_udp_pcbs = [], st_udp_pcb = Map.empty, st_udp_port = 0xC000, st_udp_data = \<lparr>ud_src = 0, ud_dst = 0\<rparr>,
     st_udp_conns = Map.empty, st_tcp = tcp_globals_zero, st_tcp_in = tcp_in_zero, st_next_timeout = [],
     st_timeout_due = 0, st_tcp_timer_active = False, st_now = 0\<rparr>"

text \<open>\<open>*netif\<close> for a pointer that is not \<open>NULL\<close>.\<close>

definition netif_at :: "stack \<Rightarrow> netif_ptr \<Rightarrow> netif" where
  "netif_at s n = (case n of global_if \<Rightarrow> st_global_if s)"

definition upd_netif :: "netif_ptr \<Rightarrow> (netif \<Rightarrow> netif) \<Rightarrow> stack \<Rightarrow> stack" where
  "upd_netif n f s = (case n of global_if \<Rightarrow> s\<lparr>st_global_if := f (st_global_if s)\<rparr>)"

text \<open>Operations of the heap as operations of the state.\<close>

definition on_heap :: "(heap \<Rightarrow> ('a \<times> heap) option) \<Rightarrow> stack \<Rightarrow> ('a \<times> stack) option" where
  "on_heap f s = (case f (st_heap s) of None \<Rightarrow> None | Some (r, h) \<Rightarrow> Some (r, s\<lparr>st_heap := h\<rparr>))"

definition on_heap' :: "(heap \<Rightarrow> heap option) \<Rightarrow> stack \<Rightarrow> stack option" where
  "on_heap' f s = (case f (st_heap s) of None \<Rightarrow> None | Some h \<Rightarrow> Some (s\<lparr>st_heap := h\<rparr>))"

definition st_pbuf_free :: "addr option \<Rightarrow> stack \<Rightarrow> stack option" where
  "st_pbuf_free p s = on_heap' (\<lambda>h. map_option snd (pbuf_free p h)) s"

section \<open>Fields of packet headers in memory\<close>

text \<open>Reading and writing integers through a pointer; the host is little endian.\<close>

definition read_u8 :: "heap \<Rightarrow> ptr option \<Rightarrow> nat \<Rightarrow> u8 option" where
  "read_u8 h p off = map_option (\<lambda>bs. hd bs) (mem_read h p off 1)"

definition read_u16 :: "heap \<Rightarrow> ptr option \<Rightarrow> nat \<Rightarrow> u16 option" where
  "read_u16 h p off = map_option (\<lambda>bs. of_nat (le_val bs)) (mem_read h p off 2)"

definition read_u32 :: "heap \<Rightarrow> ptr option \<Rightarrow> nat \<Rightarrow> u32 option" where
  "read_u32 h p off = map_option (\<lambda>bs. of_nat (le_val bs)) (mem_read h p off 4)"

definition bytes_u16 :: "u16 \<Rightarrow> byte list" where
  "bytes_u16 w = [ucast w, ucast (drop_bit 8 w)]"

definition bytes_u32 :: "u32 \<Rightarrow> byte list" where
  "bytes_u32 w = map (u32_byte w) [0, 1, 2, 3]"

text \<open>The macros of \<open>prot/ip4.h\<close> on a header at a pointer.\<close>

definition IP_HLEN :: nat where "IP_HLEN = 20"
definition IP_PROTO_ICMP :: u8 where "IP_PROTO_ICMP = 1"
definition IP_PROTO_TCP :: u8 where "IP_PROTO_TCP = 6"
definition IP_PROTO_UDP :: u8 where "IP_PROTO_UDP = 17"
definition IP_PROTO_UDPLITE :: u8 where "IP_PROTO_UDPLITE = 136"

definition IPH_V :: "u8 \<Rightarrow> u8" where "IPH_V v_hl = drop_bit 4 v_hl"
definition IPH_HL_BYTES :: "u8 \<Rightarrow> u16" where "IPH_HL_BYTES v_hl = ucast ((v_hl AND 0x0F) * 4)"

lemma on_heap_Some: "f (st_heap s) = Some (r, h) \<Longrightarrow> on_heap f s = Some (r, s\<lparr>st_heap := h\<rparr>)"
  by (simp add: on_heap_def)

lemma on_heap'_Some: "f (st_heap s) = Some h \<Longrightarrow> on_heap' f s = Some (s\<lparr>st_heap := h\<rparr>)"
  by (simp add: on_heap'_def)

lemma netif_at_simps [simp]:
  "netif_at (s\<lparr>st_heap := h\<rparr>) n = netif_at s n" "netif_at (s\<lparr>st_ip_data := d\<rparr>) n = netif_at s n"
  "netif_at (s\<lparr>st_udp_pcbs := us\<rparr>) n = netif_at s n" "netif_at (s\<lparr>st_udp_data := ud\<rparr>) n = netif_at s n"
  "netif_at (s\<lparr>st_links := ls\<rparr>) n = netif_at s n" "netif_at (s\<lparr>st_udp_conns := cs\<rparr>) n = netif_at s n"
  "netif_at (s\<lparr>st_tcp := tg\<rparr>) n = netif_at s n" "netif_at (s\<lparr>st_tcp_in := ti\<rparr>) n = netif_at s n"
  by (cases n; simp add: netif_at_def)+

lemma length_bytes [simp]: "length (bytes_u16 w) = 2" "length (bytes_u32 x) = 4"
  by (simp_all add: bytes_u16_def bytes_u32_def)

lemma le_val_bytes_u32 [simp]: "le_val (bytes_u32 x) = unat x"
  unfolding bytes_u32_def by (rule u32_bytes_val)

lemma le_val_bytes_u16 [simp]: "le_val (bytes_u16 w) = unat w"
proof -
  have "unat w mod 256 + 256 * (unat w div 256) = unat w" by simp
  then show ?thesis unfolding bytes_u16_def le_val.simps htons_bytes(3) unfolding htons_bytes(4) by simp
qed

end
