(* ===== verification/Udp_Pcb.thy ===== *)
theory Udp_Pcb
  imports Stack Transitions
begin

unbundle bit_operations_syntax

text \<open>
  The UDP control blocks and their list: the management functions of \<open>lwip/core/udp.c\<close> (allocation,
  binding, connecting, removal), with the invariant that every reachable state has, and that an
  ephemeral port is found whenever one is free.
\<close>

section \<open>Operations\<close>

definition UDP_FLAGS_NOCHKSUM :: u8 where "UDP_FLAGS_NOCHKSUM = 0x01"
definition UDP_FLAGS_UDPLITE :: u8 where "UDP_FLAGS_UDPLITE = 0x02"
definition UDP_FLAGS_CONNECTED :: u8 where "UDP_FLAGS_CONNECTED = 0x04"
definition UDP_TTL :: u8 where "UDP_TTL = 255"
definition UDP_ACCEPT_ANY_PORT :: u16 where "UDP_ACCEPT_ANY_PORT = 1"

definition UDP_LOCAL_PORT_RANGE_START :: u16 where "UDP_LOCAL_PORT_RANGE_START = 0xC000"
definition UDP_LOCAL_PORT_RANGE_END :: u16 where "UDP_LOCAL_PORT_RANGE_END = 0xFFFF"

definition UDP_ENSURE_LOCAL_PORT_RANGE :: "u32 \<Rightarrow> u16" where
  "UDP_ENSURE_LOCAL_PORT_RANGE port =
     ucast ((port AND ucast (NOT UDP_LOCAL_PORT_RANGE_START)) + ucast UDP_LOCAL_PORT_RANGE_START)"

text \<open>\<open>rand\<close> is the value that \<open>LWIP_RAND()\<close> gives.\<close>

definition udp_init :: "u32 \<Rightarrow> stack \<Rightarrow> stack" where
  "udp_init rand s = s\<lparr>st_udp_port := UDP_ENSURE_LOCAL_PORT_RANGE rand\<rparr>"

text \<open>The walk over \<open>udp_pcbs\<close> in \<open>udp_new_port\<close>: is the port taken?\<close>

fun udp_port_taken :: "stack \<Rightarrow> u16 \<Rightarrow> addr list \<Rightarrow> bool option" where
  "udp_port_taken s port [] = Some False"
| "udp_port_taken s port (a # as) = do {
     pcb \<leftarrow> st_udp_pcb s a;
     if up_local_port pcb = port then Some True else udp_port_taken s port as
   }"

lemma port_count: "n + 1 \<le> (0x3FFF :: u16) \<Longrightarrow> 65536 - unat (2 + n) < 65536 - unat (n + 1)"
proof -
  assume "n + 1 \<le> 0x3FFF"
  then have le: "unat (n + 1) \<le> 16383" by (simp add: word_le_nat_alt)
  then have "unat (n + 1 + 1) = unat (n + 1) + 1" by (intro unat_u16_inc) simp
  then show ?thesis using le by (simp add: add.commute add.left_commute)
qed

function udp_new_port_loop :: "u16 \<Rightarrow> stack \<Rightarrow> (u16 \<times> stack) option" where
  "udp_new_port_loop n s =
     (let port = (if st_udp_port s = UDP_LOCAL_PORT_RANGE_END then UDP_LOCAL_PORT_RANGE_START
                  else st_udp_port s + 1);
          s = s\<lparr>st_udp_port := port\<rparr>
      in case udp_port_taken s port (st_udp_pcbs s) of
           None \<Rightarrow> None
         | Some taken \<Rightarrow>
             if taken then
               if n + 1 > UDP_LOCAL_PORT_RANGE_END - UDP_LOCAL_PORT_RANGE_START then Some (0, s)
               else udp_new_port_loop (n + 1) s
             else Some (port, s))"
  by pat_completeness auto

termination
  by (relation "measure (\<lambda>(n, s). 65536 - unat (n + 1))")
    (auto simp: UDP_LOCAL_PORT_RANGE_END_def UDP_LOCAL_PORT_RANGE_START_def not_less intro: port_count)

declare udp_new_port_loop.simps [simp del]

definition udp_new_port :: "stack \<Rightarrow> (u16 \<times> stack) option" where
  "udp_new_port s = udp_new_port_loop 0 s"

definition put_udp_pcb :: "addr \<Rightarrow> udp_pcb \<Rightarrow> stack \<Rightarrow> stack" where
  "put_udp_pcb a pcb s = s\<lparr>st_udp_pcb := (st_udp_pcb s)(a \<mapsto> pcb)\<rparr>"

text \<open>The walk of \<open>udp_bind\<close> for another control block with this port and a clashing address.\<close>

fun udp_bind_clash :: "stack \<Rightarrow> addr \<Rightarrow> ip4_addr_t \<Rightarrow> u16 \<Rightarrow> addr list \<Rightarrow> bool option" where
  "udp_bind_clash s pcb ipaddr port [] = Some False"
| "udp_bind_clash s pcb ipaddr port (ipcb # rest) =
     (if pcb \<noteq> ipcb then do {
        ip \<leftarrow> st_udp_pcb s ipcb;
        if up_local_port ip = port
           \<and> (up_local_ip ip = ipaddr \<or> ip4_addr_isany_val ipaddr \<or> ip4_addr_isany_val (up_local_ip ip))
        then Some True else udp_bind_clash s pcb ipaddr port rest
      } else udp_bind_clash s pcb ipaddr port rest)"

definition udp_bind :: "addr option \<Rightarrow> ip4_addr_t option \<Rightarrow> u16 \<Rightarrow> stack \<Rightarrow> (err_t \<times> stack) option" where
  "udp_bind pcb ipaddr port s = do {
     let ipaddr = (case ipaddr of None \<Rightarrow> IPADDR_ANY | Some a \<Rightarrow> a);
     lwip_assert (pcb \<noteq> None);
     a \<leftarrow> pcb;
     let rebind = (a \<in> set (st_udp_pcbs s));
     (failed, port, s) \<leftarrow>
       (if port = 0 then do {
          (port, s) \<leftarrow> udp_new_port s;
          Some (port = 0, port, s)
        } else do {
          clash \<leftarrow> udp_bind_clash s a ipaddr port (st_udp_pcbs s);
          Some (clash, port, s)
        });
     if failed then Some (ERR_USE, s)
     else do {
       p \<leftarrow> st_udp_pcb s a;
       let s = put_udp_pcb a (p\<lparr>up_local_ip := ipaddr, up_local_port := port\<rparr>) s;
       Some (ERR_OK, if rebind then s else s\<lparr>st_udp_pcbs := a # st_udp_pcbs s\<rparr>)
     }
   }"

definition udp_bind_netif :: "addr \<Rightarrow> netif_ptr option \<Rightarrow> stack \<Rightarrow> stack option" where
  "udp_bind_netif a netif s = do {
     p \<leftarrow> st_udp_pcb s a;
     Some (put_udp_pcb a (p\<lparr>up_netif_idx := (case netif of Some n \<Rightarrow> netif_get_index (netif_at s n)
       | None \<Rightarrow> NETIF_NO_INDEX)\<rparr>) s)
   }"

definition udp_connect :: "addr option \<Rightarrow> ip4_addr_t option \<Rightarrow> u16 \<Rightarrow> stack \<Rightarrow> (err_t \<times> stack) option" where
  "udp_connect pcb ipaddr port s = do {
     a \<leftarrow> pcb;
     ip \<leftarrow> ipaddr;
     p \<leftarrow> st_udp_pcb s a;
     (err, s) \<leftarrow> (if up_local_port p = 0 then udp_bind pcb (Some (up_local_ip p)) (up_local_port p) s
                  else Some (ERR_OK, s));
     if err \<noteq> ERR_OK then Some (err, s)
     else do {
       p \<leftarrow> st_udp_pcb s a;
       let s = put_udp_pcb a (p\<lparr>up_remote_ip := ip, up_remote_port := port,
                  up_flags := up_flags p OR UDP_FLAGS_CONNECTED\<rparr>) s;
       Some (ERR_OK, if a \<in> set (st_udp_pcbs s) then s else s\<lparr>st_udp_pcbs := a # st_udp_pcbs s\<rparr>)
     }
   }"

definition udp_disconnect :: "addr option \<Rightarrow> stack \<Rightarrow> stack option" where
  "udp_disconnect pcb s = do {
     a \<leftarrow> pcb;
     p \<leftarrow> st_udp_pcb s a;
     Some (put_udp_pcb a (p\<lparr>up_remote_ip := IPADDR_ANY, up_remote_port := 0, up_netif_idx := NETIF_NO_INDEX,
       up_flags := up_flags p AND (NOT UDP_FLAGS_CONNECTED AND 0xFF)\<rparr>) s)
   }"

definition udp_recv :: "addr option \<Rightarrow> udp_recv_fn option \<Rightarrow> addr option \<Rightarrow> stack \<Rightarrow> stack option" where
  "udp_recv pcb recv recv_arg s = do {
     a \<leftarrow> pcb;
     p \<leftarrow> st_udp_pcb s a;
     Some (put_udp_pcb a (p\<lparr>up_recv := recv, up_recv_arg := recv_arg\<rparr>) s)
   }"

definition udp_remove :: "addr option \<Rightarrow> stack \<Rightarrow> stack option" where
  "udp_remove pcb s = do {
     a \<leftarrow> pcb;
     p \<leftarrow> st_udp_pcb s a;
     Some (s\<lparr>st_udp_pcbs := remove1 a (st_udp_pcbs s), st_udp_pcb := (st_udp_pcb s)(a := None)\<rparr>)
   }"

definition udp_pcb_zero :: udp_pcb where
  "udp_pcb_zero = \<lparr>up_local_ip = 0, up_remote_ip = 0, up_netif_idx = 0, up_so_options = 0, up_tos = 0, up_ttl = 0,
     up_flags = 0, up_local_port = 0, up_remote_port = 0, up_chksum_len_rx = 0, up_chksum_len_tx = 0,
     up_recv = None, up_recv_arg = None\<rparr>"

definition udp_new :: "stack \<Rightarrow> addr option \<times> stack" where
  "udp_new s = (case mem_malloc (st_heap s) of
      (None, h) \<Rightarrow> (None, s\<lparr>st_heap := h\<rparr>)
    | (Some a, h) \<Rightarrow> (Some a, put_udp_pcb a (udp_pcb_zero\<lparr>up_ttl := UDP_TTL\<rparr>) (s\<lparr>st_heap := h\<rparr>)))"

definition udp_new_ip_type :: "u8 \<Rightarrow> stack \<Rightarrow> addr option \<times> stack" where
  "udp_new_ip_type type s = udp_new s"

text \<open>The loop of \<open>udp_netif_ip_addr_changed\<close>.\<close>

fun udp_rebind_ip :: "ip4_addr_t \<Rightarrow> ip4_addr_t \<Rightarrow> addr list \<Rightarrow> stack \<Rightarrow> stack option" where
  "udp_rebind_ip old_addr new_addr [] s = Some s"
| "udp_rebind_ip old_addr new_addr (a # as) s = do {
     p \<leftarrow> st_udp_pcb s a;
     udp_rebind_ip old_addr new_addr as
       (if up_local_ip p = old_addr then put_udp_pcb a (p\<lparr>up_local_ip := new_addr\<rparr>) s else s)
   }"

definition udp_netif_ip_addr_changed :: "ip4_addr_t option \<Rightarrow> ip4_addr_t option \<Rightarrow> stack \<Rightarrow> stack option" where
  "udp_netif_ip_addr_changed old_addr new_addr s =
     (case (old_addr, new_addr) of
        (Some old, Some new) \<Rightarrow>
          if \<not> ip4_addr_isany_val old \<and> \<not> ip4_addr_isany_val new
          then udp_rebind_ip old new (st_udp_pcbs s) s else Some s
      | _ \<Rightarrow> Some s)"

section \<open>Ephemeral ports\<close>

definition port_used :: "stack \<Rightarrow> u16 \<Rightarrow> bool" where
  "port_used s port \<longleftrightarrow> (\<exists>a \<in> set (st_udp_pcbs s). \<exists>p. st_udp_pcb s a = Some p \<and> up_local_port p = port)"

definition pcbs_live :: "stack \<Rightarrow> bool" where
  "pcbs_live s \<longleftrightarrow> (\<forall>a \<in> set (st_udp_pcbs s). st_udp_pcb s a \<noteq> None)"

lemma port_used_upd [simp]: "port_used (s\<lparr>st_udp_port := q\<rparr>) p = port_used s p" "pcbs_live (s\<lparr>st_udp_port := q\<rparr>) = pcbs_live s"
  by (simp_all add: port_used_def pcbs_live_def)

lemma udp_port_taken_spec:
  "\<forall>a \<in> set as. st_udp_pcb s a \<noteq> None \<Longrightarrow>
   udp_port_taken s port as = Some (\<exists>a \<in> set as. \<exists>p. st_udp_pcb s a = Some p \<and> up_local_port p = port)"
  by (induction as) auto

lemma udp_port_taken_used:
  "pcbs_live s \<Longrightarrow> udp_port_taken (s\<lparr>st_udp_port := q\<rparr>) port (st_udp_pcbs s) = Some (port_used s port)"
  by (simp add: udp_port_taken_spec pcbs_live_def port_used_def)

text \<open>The \<open>k\<close>-th port that the loop tries, when it starts \<open>c\<close> ports into the range.\<close>

definition nth_port :: "nat \<Rightarrow> nat \<Rightarrow> u16" where
  "nth_port c k = of_nat (49152 + (c + k) mod 16384)"

lemma unat_nth_port: "unat (nth_port c k) = 49152 + (c + k) mod 16384"
  by (simp add: nth_port_def unat_of_nat_u16 del: of_nat_add)

lemma nth_port_next:
  "(if nth_port c k = UDP_LOCAL_PORT_RANGE_END then UDP_LOCAL_PORT_RANGE_START else nth_port c k + 1) = nth_port c (Suc k)"
proof (cases "(c + k) mod 16384 = 16383")
  case True
  then have e: "nth_port c k = UDP_LOCAL_PORT_RANGE_END"
    by (simp add: u16_eq_unat unat_nth_port UDP_LOCAL_PORT_RANGE_END_def)
  have "(c + Suc k) mod 16384 = 0" using True by (simp add: mod_Suc)
  then have "nth_port c (Suc k) = UDP_LOCAL_PORT_RANGE_START"
    by (simp add: u16_eq_unat unat_nth_port UDP_LOCAL_PORT_RANGE_START_def)
  then show ?thesis using e by simp
next
  case False
  then have e: "nth_port c k \<noteq> UDP_LOCAL_PORT_RANGE_END"
    by (simp add: u16_eq_unat unat_nth_port UDP_LOCAL_PORT_RANGE_END_def)
  have lt: "(c + k) mod 16384 < 16384" by simp
  have m: "(c + Suc k) mod 16384 = (c + k) mod 16384 + 1" using False by (simp add: mod_Suc)
  have "unat (nth_port c k + 1) = unat (nth_port c k) + 1"
    using False lt by (intro unat_u16_inc) (simp add: unat_nth_port)
  then have "nth_port c k + 1 = nth_port c (Suc k)"
    unfolding u16_eq_unat unat_nth_port m by simp
  then show ?thesis using e by simp
qed

lemma nth_port_all: "0xC000 \<le> port \<Longrightarrow> \<exists>k \<in> {1..16384}. nth_port c k = port"
proof -
  assume "0xC000 \<le> port"
  then have p: "49152 \<le> unat port" by (simp add: word_le_nat_alt)
  define d where "d = unat port - 49152"
  have d: "d < 16384" "unat port = 49152 + d" using p unat_u16_less [of port] unfolding d_def by linarith+
  define k where "k = (d + 16384 - c mod 16384 + 16383) mod 16384 + 1"
  have g: "(x + (e mod m + 1)) mod m = (x mod m + e + 1) mod m" for x e m :: nat
    by (metis (no_types) add.assoc mod_add_left_eq mod_add_right_eq)
  have "(c + k) mod 16384 = (c mod 16384 + (d + 16384 - c mod 16384 + 16383) + 1) mod 16384"
    unfolding k_def by (rule g)
  also have "c mod 16384 + (d + 16384 - c mod 16384 + 16383) + 1 = d + 2 * 16384"
    using mod_less_divisor [of 16384 c] by linarith
  also have "\<dots> mod 16384 = d" using d(1) by (simp only: mod_mult_self1 mod_less)
  finally have "nth_port c k = port" using d by (simp add: u16_eq_unat unat_nth_port)
  moreover have "k \<in> {1..16384}"
  proof -
    have "(d + 16384 - c mod 16384 + 16383) mod 16384 < 16384" by simp
    then show ?thesis unfolding k_def by auto
  qed
  ultimately show ?thesis by blast
qed

lemma port_range: "UDP_LOCAL_PORT_RANGE_END - UDP_LOCAL_PORT_RANGE_START = 0x3FFF"
  by (simp add: UDP_LOCAL_PORT_RANGE_END_def UDP_LOCAL_PORT_RANGE_START_def)

lemma udp_new_port_loop_spec:
  assumes "pcbs_live s" "k < 16384" "unat n = k" "st_udp_port s = nth_port c k" "\<forall>j \<in> {1..k}. port_used s (nth_port c j)"
  shows "\<exists>p q. udp_new_port_loop n s = Some (p, s\<lparr>st_udp_port := q\<rparr>) \<and> 0xC000 \<le> q
    \<and> (p = 0 \<and> (\<forall>j \<in> {1..16384}. port_used s (nth_port c j)) \<or> p = q \<and> \<not> port_used s p)"
  using assms
proof (induction "16384 - k" arbitrary: k n s rule: less_induct)
  case less
  let ?q = "nth_port c (Suc k)"
  have q: "0xC000 \<le> ?q" by (simp add: word_le_nat_alt unat_nth_port)
  have tk: "udp_port_taken (s\<lparr>st_udp_port := ?q\<rparr>) ?q (st_udp_pcbs s) = Some (port_used s ?q)"
    by (rule udp_port_taken_used [OF less.prems(1)])
  have n1: "unat (n + 1) = Suc k" using less.prems(2,3) by (simp add: unat_u16_inc)
  have step: "udp_new_port_loop n s = (if port_used s ?q then
      if n + 1 > 0x3FFF then Some (0, s\<lparr>st_udp_port := ?q\<rparr>) else udp_new_port_loop (n + 1) (s\<lparr>st_udp_port := ?q\<rparr>)
      else Some (?q, s\<lparr>st_udp_port := ?q\<rparr>))"
    unfolding udp_new_port_loop.simps [of n s] less.prems(4) nth_port_next Let_def port_range by (simp add: tk)
  show ?case
  proof (cases "port_used s ?q")
    case False
    then show ?thesis using step q by (intro exI [of _ ?q]) simp
  next
    case True
    then have all: "\<forall>j \<in> {1..Suc k}. port_used s (nth_port c j)" using less.prems(5) by (auto simp: le_Suc_eq)
    show ?thesis
    proof (cases "Suc k < 16384")
      case True
      have "\<not> n + 1 > 0x3FFF" using True n1 by (simp add: word_less_nat_alt)
      then have e: "udp_new_port_loop n s = udp_new_port_loop (n + 1) (s\<lparr>st_udp_port := ?q\<rparr>)"
        using step \<open>port_used s ?q\<close> by simp
      have "\<exists>p q. udp_new_port_loop (n + 1) (s\<lparr>st_udp_port := ?q\<rparr>) = Some (p, s\<lparr>st_udp_port := ?q\<rparr>\<lparr>st_udp_port := q\<rparr>) \<and> 0xC000 \<le> q
        \<and> (p = 0 \<and> (\<forall>j \<in> {1..16384}. port_used (s\<lparr>st_udp_port := ?q\<rparr>) (nth_port c j)) \<or> p = q \<and> \<not> port_used (s\<lparr>st_udp_port := ?q\<rparr>) p)"
        by (rule less.hyps [of "Suc k"]) (use True n1 all less.prems(1) in simp_all)
      then show ?thesis unfolding e by simp
    next
      case False
      then have k: "Suc k = 16384" using less.prems(2) by simp
      then have "n + 1 > 0x3FFF" using n1 by (simp add: word_less_nat_alt)
      then show ?thesis using step \<open>port_used s ?q\<close> all k q by (intro exI [of _ 0] exI [of _ ?q]) simp
    qed
  qed
qed

lemma udp_new_port_spec:
  assumes "pcbs_live s" "0xC000 \<le> st_udp_port s"
  obtains p q where "udp_new_port s = Some (p, s\<lparr>st_udp_port := q\<rparr>)" "0xC000 \<le> q"
    "p = 0 \<longleftrightarrow> (\<forall>port. 0xC000 \<le> port \<longrightarrow> port_used s port)" "p \<noteq> 0 \<Longrightarrow> p = q \<and> \<not> port_used s p"
proof -
  define c where "c = unat (st_udp_port s) - 49152"
  have le: "49152 \<le> unat (st_udp_port s)" using assms(2) by (simp add: word_le_nat_alt)
  then have "c < 16384" using unat_u16_less [of "st_udp_port s"] unfolding c_def by linarith
  then have c: "st_udp_port s = nth_port c 0" using le by (simp add: u16_eq_unat unat_nth_port c_def)
  obtain p q where r: "udp_new_port_loop 0 s = Some (p, s\<lparr>st_udp_port := q\<rparr>)" "0xC000 \<le> q"
    "p = 0 \<and> (\<forall>j \<in> {1..16384}. port_used s (nth_port c j)) \<or> p = q \<and> \<not> port_used s p"
    using udp_new_port_loop_spec [OF assms(1), of 0 0 c] c by auto
  have q0: "q \<noteq> 0" using r(2) by (auto simp: word_le_nat_alt)
  have "p = 0 \<longleftrightarrow> (\<forall>port. 0xC000 \<le> port \<longrightarrow> port_used s port)"
  proof
    assume "p = 0"
    then have "\<forall>j \<in> {1..16384}. port_used s (nth_port c j)" using r(3) q0 by auto
    then show "\<forall>port. 0xC000 \<le> port \<longrightarrow> port_used s port" using nth_port_all [of _ c] by metis
  next
    assume "\<forall>port. 0xC000 \<le> port \<longrightarrow> port_used s port"
    then show "p = 0" using r(2,3) by auto
  qed
  moreover have "p = q \<and> \<not> port_used s p" if "p \<noteq> 0" using r(3) that by auto
  ultimately show ?thesis using that r(1,2) unfolding udp_new_port_def by blast
qed

section \<open>The invariant of the control blocks\<close>

definition udp_clash :: "udp_pcb \<Rightarrow> udp_pcb \<Rightarrow> bool" where
  "udp_clash p q \<longleftrightarrow> up_local_port p = up_local_port q
     \<and> (up_local_ip p = up_local_ip q \<or> ip4_addr_isany_val (up_local_ip p) \<or> ip4_addr_isany_val (up_local_ip q))"

text \<open>
  The invariant.  \<^const>\<open>udp_bind\<close> refuses an address and port that clash with another block's; but
  \<^const>\<open>udp_netif_ip_addr_changed\<close> moves every block at the old address to the new one and does not look
  whether another block has the port there.  So the invariant is stated relative to the set \<open>N\<close> of the addresses that the
  interface has been changed to: two listed blocks may clash only where an address change has put them, both at one and
  the same specific address of \<open>N\<close>.  With \<open>N = {}\<close> no two blocks clash at all.
\<close>

definition moved_together :: "ip4_addr_t set \<Rightarrow> udp_pcb \<Rightarrow> udp_pcb \<Rightarrow> bool" where
  "moved_together N p q \<longleftrightarrow> up_local_ip p = up_local_ip q \<and> up_local_ip p \<in> N \<and> \<not> ip4_addr_isany_val (up_local_ip p)"

definition udp_inv :: "ip4_addr_t set \<Rightarrow> stack \<Rightarrow> bool" where
  "udp_inv N s \<longleftrightarrow> distinct (st_udp_pcbs s) \<and> pcbs_live s \<and> 0xC000 \<le> st_udp_port s
     \<and> (\<forall>a p. st_udp_pcb s a = Some p \<longrightarrow> a < hp_brk (st_heap s) \<and> (up_local_port p \<noteq> 0 \<longrightarrow> a \<in> set (st_udp_pcbs s)))
     \<and> (\<forall>a \<in> set (st_udp_pcbs s). \<forall>b \<in> set (st_udp_pcbs s). a \<noteq> b \<longrightarrow>
          (\<forall>p q. st_udp_pcb s a = Some p \<longrightarrow> st_udp_pcb s b = Some q \<longrightarrow> udp_clash p q \<longrightarrow> moved_together N p q))"

lemma udp_invD:
  assumes "udp_inv N s"
  shows "distinct (st_udp_pcbs s)" "pcbs_live s" "0xC000 \<le> st_udp_port s"
    "st_udp_pcb s a = Some p \<Longrightarrow> a < hp_brk (st_heap s)"
    "st_udp_pcb s a = Some p \<Longrightarrow> up_local_port p \<noteq> 0 \<Longrightarrow> a \<in> set (st_udp_pcbs s)"
    "a \<in> set (st_udp_pcbs s) \<Longrightarrow> b \<in> set (st_udp_pcbs s) \<Longrightarrow> a \<noteq> b \<Longrightarrow> st_udp_pcb s a = Some p \<Longrightarrow>
       st_udp_pcb s b = Some q \<Longrightarrow> udp_clash p q \<Longrightarrow> moved_together N p q"
  using assms unfolding udp_inv_def by blast+

lemma udp_clash_sym: "udp_clash p q = udp_clash q p" "moved_together N p q = moved_together N q p"
  by (auto simp: udp_clash_def moved_together_def)

text \<open>Updating a control block that is bound, with an address and port that clash with no other.\<close>

lemma udp_inv_bound:
  assumes inv: "udp_inv N s" and a: "st_udp_pcb s a = Some p"
    and l: "as = (if a \<in> set (st_udp_pcbs s) then st_udp_pcbs s else a # st_udp_pcbs s)"
    and c: "\<And>b q. b \<in> set (st_udp_pcbs s) \<Longrightarrow> b \<noteq> a \<Longrightarrow> st_udp_pcb s b = Some q \<Longrightarrow> \<not> udp_clash p' q"
    and port: "0xC000 \<le> port"
  shows "udp_inv N (s\<lparr>st_udp_port := port, st_udp_pcb := (st_udp_pcb s)(a \<mapsto> p'), st_udp_pcbs := as\<rparr>)"
proof -
  have as: "set as = insert a (set (st_udp_pcbs s))" "distinct as" using l udp_invD(1) [OF inv] by auto
  have "udp_clash x y \<longrightarrow> moved_together N x y" if "b \<in> set as" "d \<in> set as" "b \<noteq> d" "((st_udp_pcb s)(a \<mapsto> p')) b = Some x"
    "((st_udp_pcb s)(a \<mapsto> p')) d = Some y" for b d x y
    using that as(1) c udp_clash_sym udp_invD(6) [OF inv] by (auto split: if_splits) blast+
  moreover have "st_udp_pcb s b \<noteq> None" if "b \<in> set (st_udp_pcbs s)" for b
    using that udp_invD(2) [OF inv] unfolding pcbs_live_def by blast
  ultimately show ?thesis
    using as port a udp_invD(4,5) [OF inv] unfolding udp_inv_def pcbs_live_def
    by (auto split: if_splits)
qed

lemma udp_inv_same_port:
  assumes "udp_inv N s" "st_udp_pcb s a = Some p" "up_local_port p' = up_local_port p" "up_local_ip p' = up_local_ip p"
  shows "udp_inv N (put_udp_pcb a p' s)"
proof -
  have c: "udp_clash p' q = udp_clash p q" "udp_clash q p' = udp_clash q p"
    "moved_together N p' q = moved_together N p q" "moved_together N q p' = moved_together N q p" for q
    using assms(3,4) by (simp_all add: udp_clash_def moved_together_def)
  show ?thesis using assms c unfolding udp_inv_def put_udp_pcb_def pcbs_live_def by (auto split: if_splits)
qed

lemma udp_bind_clash_spec:
  "\<forall>b \<in> set as. st_udp_pcb s b \<noteq> None \<Longrightarrow> udp_bind_clash s a ip port as = Some (\<exists>b \<in> set as. b \<noteq> a \<and>
     (\<exists>q. st_udp_pcb s b = Some q \<and> udp_clash (p\<lparr>up_local_ip := ip, up_local_port := port\<rparr>) q))"
proof (induction as)
  case (Cons b as)
  then obtain q where q: "st_udp_pcb s b = Some q" by auto
  have t: "(up_local_port q = port \<and> (up_local_ip q = ip \<or> ip4_addr_isany_val ip \<or> ip4_addr_isany_val (up_local_ip q)))
    = udp_clash (p\<lparr>up_local_ip := ip, up_local_port := port\<rparr>) q" by (auto simp: udp_clash_def)
  define E where "E \<longleftrightarrow> (\<exists>b \<in> set as. b \<noteq> a \<and>
     (\<exists>q. st_udp_pcb s b = Some q \<and> udp_clash (p\<lparr>up_local_ip := ip, up_local_port := port\<rparr>) q))"
  have ih: "udp_bind_clash s a ip port as = Some E" using Cons by (simp add: E_def)
  have "udp_bind_clash s a ip port (b # as)
    = (if a \<noteq> b then if udp_clash (p\<lparr>up_local_ip := ip, up_local_port := port\<rparr>) q then Some True else Some E else Some E)"
    unfolding udp_bind_clash.simps q bind.bind_lunit t ih ..
  then show ?case using q by (auto simp: E_def)
qed simp

lemma udp_bind_inv:
  assumes inv: "udp_inv N s" and a: "st_udp_pcb s a = Some p" and run: "udp_bind (Some a) ipa port s = Some (e, s')"
  shows "udp_inv N s' \<and> (e = ERR_OK \<longrightarrow> (\<exists>p'. st_udp_pcb s' a = Some p' \<and> up_local_port p' \<noteq> 0 \<and> a \<in> set (st_udp_pcbs s')))"
proof -
  define ip where "ip = (case ipa of None \<Rightarrow> IPADDR_ANY | Some x \<Rightarrow> x)"
  have lv: "pcbs_live s" by (rule udp_invD [OF inv])
  show ?thesis
  proof (cases "port = 0")
    case True
    obtain n q where np: "udp_new_port s = Some (n, s\<lparr>st_udp_port := q\<rparr>)" "0xC000 \<le> q"
      "n \<noteq> 0 \<Longrightarrow> n = q \<and> \<not> port_used s n"
      using udp_new_port_spec [OF lv udp_invD(3) [OF inv]] by metis
    let ?p = "p\<lparr>up_local_ip := ip, up_local_port := n\<rparr>"
    show ?thesis
    proof (cases "n = 0")
      case True
      then have "e = ERR_USE" "s' = s\<lparr>st_udp_port := q\<rparr>" using run np(1) \<open>port = 0\<close> by (auto simp: udp_bind_def)
      then show ?thesis using inv np(2) by (simp add: udp_inv_def pcbs_live_def)
    next
      case False
      then have e: "e = ERR_OK" "s' = (let s2 = put_udp_pcb a ?p (s\<lparr>st_udp_port := q\<rparr>) in
          if a \<in> set (st_udp_pcbs s) then s2 else s2\<lparr>st_udp_pcbs := a # st_udp_pcbs s2\<rparr>)"
        using run np(1) \<open>port = 0\<close> a by (auto simp: udp_bind_def ip_def Let_def put_udp_pcb_def)
      have "udp_inv N (s\<lparr>st_udp_port := q, st_udp_pcb := (st_udp_pcb s)(a \<mapsto> ?p),
          st_udp_pcbs := (if a \<in> set (st_udp_pcbs s) then st_udp_pcbs s else a # st_udp_pcbs s)\<rparr>)"
        by (rule udp_inv_bound [OF inv a refl _ np(2)]) (use np(3) [OF False] in \<open>auto simp: udp_clash_def port_used_def\<close>)
      then show ?thesis using e False by (auto simp: Let_def put_udp_pcb_def)
    qed
  next
    case False
    let ?p = "p\<lparr>up_local_ip := ip, up_local_port := port\<rparr>"
    define cl where "cl \<longleftrightarrow> (\<exists>b \<in> set (st_udp_pcbs s). b \<noteq> a \<and> (\<exists>q. st_udp_pcb s b = Some q \<and> udp_clash ?p q))"
    have c: "udp_bind_clash s a ip port (st_udp_pcbs s) = Some cl"
      using udp_bind_clash_spec [of "st_udp_pcbs s" s a ip port p] lv unfolding cl_def pcbs_live_def by blast
    show ?thesis
    proof (cases cl)
      case True
      then have "e = ERR_USE" "s' = s" using run c False by (auto simp: udp_bind_def ip_def [symmetric])
      then show ?thesis using inv by simp
    next
      case ncl: False
      then have e: "e = ERR_OK" "s' = (let s2 = put_udp_pcb a ?p s in
          if a \<in> set (st_udp_pcbs s) then s2 else s2\<lparr>st_udp_pcbs := a # st_udp_pcbs s2\<rparr>)"
        using run c False a by (auto simp: udp_bind_def ip_def [symmetric] Let_def put_udp_pcb_def)
      have "udp_inv N (s\<lparr>st_udp_port := st_udp_port s, st_udp_pcb := (st_udp_pcb s)(a \<mapsto> ?p),
          st_udp_pcbs := (if a \<in> set (st_udp_pcbs s) then st_udp_pcbs s else a # st_udp_pcbs s)\<rparr>)"
        by (rule udp_inv_bound [OF inv a refl _ udp_invD(3) [OF inv]]) (use ncl in \<open>auto simp: cl_def\<close>)
      then show ?thesis using e False by (auto simp: Let_def put_udp_pcb_def)
    qed
  qed
qed

lemma udp_connect_inv:
  assumes inv: "udp_inv N s" and run: "udp_connect (Some a) ipa port s = Some (e, s')"
  shows "udp_inv N s'"
proof -
  obtain ip p where ip: "ipa = Some ip" and p: "st_udp_pcb s a = Some p"
    using run by (auto simp: udp_connect_def bind_eq_Some_conv)
  define b where "b = (if up_local_port p = 0 then udp_bind (Some a) (Some (up_local_ip p)) (up_local_port p) s
                  else Some (ERR_OK, s))"
  obtain e1 s1 where b1: "b = Some (e1, s1)"
    using run ip p by (auto simp: udp_connect_def b_def [symmetric] bind_eq_Some_conv)
  have s1: "udp_inv N s1 \<and> (e1 = ERR_OK \<longrightarrow> (\<exists>p1. st_udp_pcb s1 a = Some p1 \<and> up_local_port p1 \<noteq> 0 \<and> a \<in> set (st_udp_pcbs s1)))"
  proof (cases "up_local_port p = 0")
    case True
    then show ?thesis using udp_bind_inv [OF inv p] b1 by (simp add: b_def)
  next
    case False
    then show ?thesis using b1 inv p udp_invD(5) [OF inv p] by (auto simp: b_def)
  qed
  show ?thesis
  proof (cases "e1 = ERR_OK")
    case True
    then obtain p1 where p1: "st_udp_pcb s1 a = Some p1" "a \<in> set (st_udp_pcbs s1)" using s1 by blast
    then have "s' = put_udp_pcb a (p1\<lparr>up_remote_ip := ip, up_remote_port := port,
                  up_flags := up_flags p1 OR UDP_FLAGS_CONNECTED\<rparr>) s1"
      using run ip p b1 True by (auto simp: udp_connect_def b_def [symmetric] put_udp_pcb_def)
    then show ?thesis using udp_inv_same_port [of N s1 a p1] s1 p1 by simp
  next
    case False
    then show ?thesis using run ip p b1 s1 by (auto simp: udp_connect_def b_def [symmetric])
  qed
qed

lemma udp_remove_inv:
  assumes "udp_inv N s" "udp_remove (Some a) s = Some s'"
  shows "udp_inv N s'"
  using assms unfolding udp_remove_def udp_inv_def pcbs_live_def
  by (auto simp: bind_eq_Some_conv split: if_splits)

lemma udp_new_inv:
  assumes inv: "udp_inv N s" and run: "udp_new s = (r, s')"
  shows "udp_inv N s'"
proof -
  let ?b = "hp_brk (st_heap s)"
  have none: "st_udp_pcb s ?b = None" using udp_invD(4) [OF inv] by (cases "st_udp_pcb s ?b") auto
  then have "?b \<notin> set (st_udp_pcbs s)" using udp_invD(2) [OF inv] by (auto simp: pcbs_live_def)
  then show ?thesis
    using run inv unfolding udp_inv_def pcbs_live_def udp_new_def mem_malloc_def put_udp_pcb_def
    by (auto simp: udp_pcb_zero_def less_Suc_eq split: if_splits)
qed

lemma unat_port_range: "0xC000 \<le> UDP_ENSURE_LOCAL_PORT_RANGE rand"
proof -
  let ?x = "rand AND 0x3FFF"
  have "?x = take_bit 14 rand" by (simp add: take_bit_eq_mask mask_eq_exp_minus_1)
  then have "unat ?x = take_bit 14 (unat rand)" by (simp only: unsigned_take_bit_eq)
  then have "unat ?x = unat rand mod 16384" by (simp only: take_bit_eq_mod) simp
  then have lt: "unat ?x < 16384" by simp
  then have u: "unat (?x + 0xC000) = unat ?x + 49152" by (simp add: unat_word_ariths)
  have "unat (ucast (?x + 0xC000) :: u16) = unat ?x + 49152"
    unfolding unsigned_ucast_eq u using lt by (simp add: take_bit_eq_mod)
  moreover have "UDP_ENSURE_LOCAL_PORT_RANGE rand = ucast (?x + 0xC000)"
    by (simp add: UDP_ENSURE_LOCAL_PORT_RANGE_def UDP_LOCAL_PORT_RANGE_START_def)
  ultimately show ?thesis by (simp add: word_le_nat_alt)
qed

section \<open>The change of an interface's address\<close>

definition rebound :: "ip4_addr_t \<Rightarrow> ip4_addr_t \<Rightarrow> udp_pcb \<Rightarrow> udp_pcb" where
  "rebound old new p = (if up_local_ip p = old then p\<lparr>up_local_ip := new\<rparr> else p)"

lemma rebound_simps [simp]:
  "up_local_port (rebound old new p) = up_local_port p"
  "up_local_ip (rebound old new p) = (if up_local_ip p = old then new else up_local_ip p)"
  by (simp_all add: rebound_def)

text \<open>The loop gives each block of the list the new address; it changes nothing else.\<close>

lemma udp_rebind_ip_eq:
  "distinct as \<Longrightarrow> \<forall>a \<in> set as. st_udp_pcb s a \<noteq> None \<Longrightarrow>
   udp_rebind_ip old new as s = Some (s\<lparr>st_udp_pcb := (\<lambda>a. if a \<in> set as then map_option (rebound old new) (st_udp_pcb s a)
     else st_udp_pcb s a)\<rparr>)"
proof (induction as arbitrary: s)
  case (Cons a as)
  obtain p where p: "st_udp_pcb s a = Some p" using Cons.prems(2) by auto
  let ?s = "if up_local_ip p = old then put_udp_pcb a (p\<lparr>up_local_ip := new\<rparr>) s else s"
  have s1: "?s = s\<lparr>st_udp_pcb := (st_udp_pcb s)(a \<mapsto> rebound old new p)\<rparr>"
    using p by (auto simp: put_udp_pcb_def rebound_def map_upd_triv)
  have "udp_rebind_ip old new as ?s = Some (?s\<lparr>st_udp_pcb := (\<lambda>b. if b \<in> set as then map_option (rebound old new) (st_udp_pcb ?s b)
     else st_udp_pcb ?s b)\<rparr>)"
    using Cons.prems by (intro Cons.IH) (auto simp: s1)
  moreover have "udp_rebind_ip old new (a # as) s = udp_rebind_ip old new as ?s" using p by simp
  ultimately have r: "udp_rebind_ip old new (a # as) s = Some (?s\<lparr>st_udp_pcb := (\<lambda>b. if b \<in> set as then
    map_option (rebound old new) (st_udp_pcb ?s b) else st_udp_pcb ?s b)\<rparr>)" by simp
  have f: "(\<lambda>b. if b \<in> set as then map_option (rebound old new) (st_udp_pcb ?s b) else st_udp_pcb ?s b)
    = (\<lambda>b. if b \<in> set (a # as) then map_option (rebound old new) (st_udp_pcb s b) else st_udp_pcb s b)"
    using Cons.prems(1) p unfolding s1 by (intro ext) auto
  show ?case unfolding r f by (simp add: s1)
qed simp

text \<open>After a rebinding two blocks clash only at the new address, or where they clashed before.\<close>

lemma rebound_clash:
  assumes old: "\<not> ip4_addr_isany_val old" and new: "\<not> ip4_addr_isany_val new" "new \<in> N"
    and before: "udp_clash p q \<Longrightarrow> moved_together N p q" and c: "udp_clash (rebound old new p) (rebound old new q)"
  shows "moved_together N (rebound old new p) (rebound old new q)"
  using assms unfolding udp_clash_def moved_together_def by (auto split: if_splits)

lemma udp_addr_changed_inv:
  assumes inv: "udp_inv N s" and n: "set_option new \<subseteq> N" and run: "udp_netif_ip_addr_changed old new s = Some s'"
  shows "udp_inv N s'"
proof (cases "\<exists>o1 n1. old = Some o1 \<and> new = Some n1 \<and> \<not> ip4_addr_isany_val o1 \<and> \<not> ip4_addr_isany_val n1")
  case False
  then have "s' = s" using run by (auto simp: udp_netif_ip_addr_changed_def split: option.splits if_splits)
  then show ?thesis using inv by simp
next
  case True
  then obtain o1 n1 where e: "old = Some o1" "new = Some n1" "\<not> ip4_addr_isany_val o1" "\<not> ip4_addr_isany_val n1" by blast
  have lv: "\<forall>a \<in> set (st_udp_pcbs s). st_udp_pcb s a \<noteq> None" using udp_invD(2) [OF inv] by (simp add: pcbs_live_def)
  let ?f = "\<lambda>a. if a \<in> set (st_udp_pcbs s) then map_option (rebound o1 n1) (st_udp_pcb s a) else st_udp_pcb s a"
  have s': "s' = s\<lparr>st_udp_pcb := ?f\<rparr>"
    using run e udp_rebind_ip_eq [OF udp_invD(1) [OF inv] lv] by (simp add: udp_netif_ip_addr_changed_def)
  have "moved_together N x y" if ab: "a \<in> set (st_udp_pcbs s)" "b \<in> set (st_udp_pcbs s)" "a \<noteq> b"
    and xy: "?f a = Some x" "?f b = Some y" and c: "udp_clash x y" for a b x y
  proof -
    obtain p q where pq: "st_udp_pcb s a = Some p" "st_udp_pcb s b = Some q" "x = rebound o1 n1 p" "y = rebound o1 n1 q"
      using ab xy by auto
    show ?thesis using rebound_clash [OF e(3,4), of N p q] udp_invD(6) [OF inv ab pq(1,2)] c n e(2) pq(3,4) by simp
  qed
  then show ?thesis
    using inv unfolding udp_inv_def s' pcbs_live_def by (auto split: if_splits)
qed

section \<open>Runs\<close>

text \<open>
  One call of a management function; a change of the interface's address to one of \<open>N\<close>, which \<open>netif.c\<close> reports; or
  any work of the rest of the program, which does not write the control blocks and the last port (\<open>udp_input\<close> may move
  a block to the front of the list, and the heap may grow).
\<close>

inductive udp_step :: "ip4_addr_t set \<Rightarrow> stack \<Rightarrow> stack \<Rightarrow> bool" for N where
  init: "udp_step N s (udp_init rand s)"
| new: "udp_new s = (r, s') \<Longrightarrow> udp_step N s s'"
| bind: "st_udp_pcb s a = Some p \<Longrightarrow> udp_bind (Some a) ip port s = Some (e, s') \<Longrightarrow> udp_step N s s'"
| bind_netif: "udp_bind_netif a nif s = Some s' \<Longrightarrow> udp_step N s s'"
| connect: "udp_connect (Some a) ip port s = Some (e, s') \<Longrightarrow> udp_step N s s'"
| disconnect: "udp_disconnect (Some a) s = Some s' \<Longrightarrow> udp_step N s s'"
| recv: "udp_recv (Some a) f arg s = Some s' \<Longrightarrow> udp_step N s s'"
| remove: "udp_remove (Some a) s = Some s' \<Longrightarrow> udp_step N s s'"
| addr_changed: "set_option new \<subseteq> N \<Longrightarrow> udp_netif_ip_addr_changed old new s = Some s' \<Longrightarrow> udp_step N s s'"
| rest: "st_udp_pcb s' = st_udp_pcb s \<Longrightarrow> st_udp_port s' = st_udp_port s \<Longrightarrow> set (st_udp_pcbs s') = set (st_udp_pcbs s) \<Longrightarrow>
    length (st_udp_pcbs s') = length (st_udp_pcbs s) \<Longrightarrow> hp_brk (st_heap s) \<le> hp_brk (st_heap s') \<Longrightarrow> udp_step N s s'"

lemma udp_step_inv: "udp_step N s s' \<Longrightarrow> udp_inv N s \<Longrightarrow> udp_inv N s'"
proof (induction rule: udp_step.induct)
  case (init s rand)
  then show ?case using unat_port_range [of rand] by (simp add: udp_inv_def udp_init_def pcbs_live_def)
next
  case (bind_netif a nif s s')
  then show ?case using udp_inv_same_port by (auto simp: udp_bind_netif_def bind_eq_Some_conv)
next
  case (disconnect a s s')
  then show ?case using udp_inv_same_port by (auto simp: udp_disconnect_def bind_eq_Some_conv)
next
  case (recv a f arg s s')
  then show ?case using udp_inv_same_port by (auto simp: udp_recv_def bind_eq_Some_conv)
next
  case (rest s' s)
  have "distinct (st_udp_pcbs s')"
    using rest udp_invD(1) [OF rest.prems] by (metis card_distinct distinct_card)
  moreover have "a < hp_brk (st_heap s')" if "st_udp_pcb s a = Some p" for a p
    using udp_invD(4) [OF rest.prems that] rest.hyps(5) by simp
  ultimately show ?case using rest.prems rest.hyps(1-4) unfolding udp_inv_def pcbs_live_def by auto
qed (auto dest: udp_new_inv udp_bind_inv udp_connect_inv udp_remove_inv udp_addr_changed_inv)

lemma stack_zero_udp_inv: "udp_inv N (stack_zero h)"
  by (simp add: udp_inv_def stack_zero_def pcbs_live_def)

section \<open>Properties\<close>

text \<open>C30: \<open>udp_new_port\<close> always returns.  It fails with 0 exactly when every one of the 16384 ports
  of the ephemeral range is bound, and otherwise returns a port of the range that no control block has;
  it changes nothing but the last port used.\<close>

theorem udp_new_port_finds_free:
  assumes "udp_inv N s"
  shows "\<exists>p q. udp_new_port s = Some (p, s\<lparr>st_udp_port := q\<rparr>) \<and> 0xC000 \<le> q
    \<and> (p = 0 \<longleftrightarrow> (\<forall>port. 0xC000 \<le> port \<longrightarrow> port_used s port)) \<and> (p \<noteq> 0 \<longrightarrow> 0xC000 \<le> p \<and> \<not> port_used s p)"
  using udp_new_port_spec [OF udp_invD(2,3) [OF assms]] by metis

theorem udp_new_port_finds_free_witness:
  "\<exists>p q. udp_new_port (stack_zero ex_two) = Some (p, (stack_zero ex_two)\<lparr>st_udp_port := q\<rparr>) \<and> 0xC000 \<le> p"
  using udp_new_port_finds_free [OF stack_zero_udp_inv [of "{}" ex_two]]
  by (auto simp: port_used_def stack_zero_def)

interpretation udp_pcbs: transitions "udp_step N" "udp_inv N" for N
  by unfold_locales (rule udp_step_inv)

text \<open>C6: in every state that the management functions, the changes of the interface's address to addresses of \<open>N\<close> and
  the rest of the program can reach from one with the invariant, the list of control blocks has no duplicates and no dangling
  pointers, every bound control block is on it, and no two of them are bound to the same port with clashing addresses, save
  two that an address change has put at the same address of \<open>N\<close>.  In particular (\<open>N = {}\<close>) there is no clash while the
  interface keeps its address.\<close>

theorem udp_pcbs_exclusive:
  assumes "(udp_step N)\<^sup>*\<^sup>* s0 s" "udp_inv N s0"
  shows "udp_inv N s"
  using assms by (rule udp_pcbs.steps_inv)

text \<open>Two blocks bound to port 53 of 10.0.0.1 and 10.0.0.2, which do not clash until the interface's address changes from
  the one to the other.\<close>

definition ex_one :: stack where
  "ex_one = snd (the (udp_bind (Some (hp_brk ex_two)) (Some 0x0100000A) 53 (snd (udp_new (udp_init 77 (stack_zero ex_two))))))"

definition ex_bound :: stack where
  "ex_bound = snd (the (udp_bind (Some (hp_brk ex_two + 1)) (Some 0x0200000A) 53 (snd (udp_new ex_one))))"

definition ex_moved :: stack where
  "ex_moved = the (udp_netif_ip_addr_changed (Some 0x0100000A) (Some 0x0200000A) ex_bound)"

lemma udp_step_bind: "st_udp_pcb s a \<noteq> None \<Longrightarrow> udp_bind (Some a) ip port s \<noteq> None \<Longrightarrow>
    udp_step N s (snd (the (udp_bind (Some a) ip port s)))"
  by (cases "udp_bind (Some a) ip port s") (auto intro: udp_step.bind)

lemma udp_step_new: "udp_step N s (snd (udp_new s))"
  by (rule udp_step.new [of s "fst (udp_new s)"]) simp

lemma ex_bound_run: "(udp_step N)\<^sup>*\<^sup>* (stack_zero ex_two) ex_bound"
proof -
  note [trans] = rtranclp.rtrancl_into_rtrancl
  have "(udp_step N)\<^sup>*\<^sup>* (stack_zero ex_two) (udp_init 77 (stack_zero ex_two))" by (intro r_into_rtranclp udp_step.init)
  also have "udp_step N \<dots> (snd (udp_new \<dots>))" by (rule udp_step_new)
  also have "udp_step N \<dots> ex_one" unfolding ex_one_def by (rule udp_step_bind) code_simp+
  also have "udp_step N \<dots> (snd (udp_new \<dots>))" by (rule udp_step_new)
  also have "udp_step N \<dots> ex_bound" unfolding ex_bound_def by (rule udp_step_bind) code_simp+
  finally show ?thesis .
qed

lemma ex_moved_step: "udp_step {0x0200000A} ex_bound ex_moved"
proof -
  have "udp_netif_ip_addr_changed (Some 0x0100000A) (Some 0x0200000A) ex_bound \<noteq> None" by code_simp
  then show ?thesis unfolding ex_moved_def by (intro udp_step.addr_changed [of "Some 0x0200000A" _ "Some 0x0100000A"]) auto
qed

theorem udp_pcbs_exclusive_witness:
  "udp_inv {} ex_bound \<and> map (\<lambda>a. map_option up_local_port (st_udp_pcb ex_bound a)) (st_udp_pcbs ex_bound) = [Some 53, Some 53]
   \<and> udp_inv {0x0200000A} ex_moved
   \<and> map (\<lambda>a. map_option up_local_ip (st_udp_pcb ex_moved a)) (st_udp_pcbs ex_moved) = [Some 0x0200000A, Some 0x0200000A]"
proof (intro conjI)
  show "udp_inv {} ex_bound" by (rule udp_pcbs_exclusive [OF ex_bound_run stack_zero_udp_inv])
  show "udp_inv {0x0200000A} ex_moved"
    by (rule udp_pcbs_exclusive [OF rtranclp.rtrancl_into_rtrancl [OF ex_bound_run ex_moved_step] stack_zero_udp_inv])
qed code_simp+

end
