(* ===== verification/Netif.thy ===== *)
theory Netif
  imports Udp_Pcb
begin

unbundle bit_operations_syntax

text \<open>
  The network interface: \<open>lwip/core/netif.c\<close> in the configuration of this program
  (\<open>LWIP_SINGLE_NETIF = 1\<close>, IPv4 only, no status callbacks, no ARP, no IGMP).  The functions that
  tell the transport layers about a changed address take what TCP does,
  \<open>tcp_netif_ip_addr_changed\<close>, as their first argument; the part of UDP is
  \<^const>\<open>udp_netif_ip_addr_changed\<close>.
\<close>

type_synonym tcp_addr_changed = "ip4_addr_t option \<Rightarrow> ip4_addr_t option \<Rightarrow> stack \<Rightarrow> stack option"

section \<open>Addresses\<close>

definition netif_do_ip_addr_changed :: "tcp_addr_changed \<Rightarrow> tcp_addr_changed" where
  "netif_do_ip_addr_changed tcp_netif_ip_addr_changed old_addr new_addr s = do {
     s \<leftarrow> tcp_netif_ip_addr_changed old_addr new_addr s;
     udp_netif_ip_addr_changed old_addr new_addr s
   }"

text \<open>Reports go out for ARP, IGMP and MLD only, none of which this build has.\<close>

definition netif_issue_reports :: "netif_ptr option \<Rightarrow> stack \<Rightarrow> stack option" where
  "netif_issue_reports netif s = do { lwip_assert (netif \<noteq> None); Some s }"

text \<open>The results of the setters: whether the value changed.\<close>

definition netif_do_set_ipaddr :: "tcp_addr_changed \<Rightarrow> netif_ptr \<Rightarrow> ip4_addr_t \<Rightarrow> stack \<Rightarrow> (bool \<times> stack) option" where
  "netif_do_set_ipaddr tcp netif ipaddr s =
     (if ipaddr \<noteq> nif_ip_addr (netif_at s netif) then do {
        let old_addr = nif_ip_addr (netif_at s netif);
        s \<leftarrow> netif_do_ip_addr_changed tcp (Some old_addr) (Some ipaddr) s;
        let s = upd_netif netif (\<lambda>n. n\<lparr>nif_ip_addr := ipaddr\<rparr>) s;
        s \<leftarrow> netif_issue_reports (Some netif) s;
        Some (True, s)
      } else Some (False, s))"

definition netif_set_ipaddr :: "tcp_addr_changed \<Rightarrow> netif_ptr option \<Rightarrow> ip4_addr_t option \<Rightarrow> stack \<Rightarrow> stack option" where
  "netif_set_ipaddr tcp netif ipaddr s = do {
     n \<leftarrow> netif;
     (changed, s) \<leftarrow> netif_do_set_ipaddr tcp n (case ipaddr of None \<Rightarrow> IPADDR_ANY | Some a \<Rightarrow> a) s;
     Some s
   }"

definition netif_do_set_netmask :: "netif_ptr \<Rightarrow> ip4_addr_t \<Rightarrow> stack \<Rightarrow> bool \<times> stack" where
  "netif_do_set_netmask netif netmask s =
     (if netmask \<noteq> nif_netmask (netif_at s netif)
      then (True, upd_netif netif (\<lambda>n. n\<lparr>nif_netmask := netmask\<rparr>) s) else (False, s))"

definition netif_set_netmask :: "netif_ptr option \<Rightarrow> ip4_addr_t option \<Rightarrow> stack \<Rightarrow> stack option" where
  "netif_set_netmask netif netmask s = do {
     n \<leftarrow> netif;
     Some (snd (netif_do_set_netmask n (case netmask of None \<Rightarrow> IPADDR_ANY | Some a \<Rightarrow> a) s))
   }"

definition netif_do_set_gw :: "netif_ptr \<Rightarrow> ip4_addr_t \<Rightarrow> stack \<Rightarrow> bool \<times> stack" where
  "netif_do_set_gw netif gw s =
     (if gw \<noteq> nif_gw (netif_at s netif)
      then (True, upd_netif netif (\<lambda>n. n\<lparr>nif_gw := gw\<rparr>) s) else (False, s))"

definition netif_set_gw :: "netif_ptr option \<Rightarrow> ip4_addr_t option \<Rightarrow> stack \<Rightarrow> stack option" where
  "netif_set_gw netif gw s = do {
     n \<leftarrow> netif;
     Some (snd (netif_do_set_gw n (case gw of None \<Rightarrow> IPADDR_ANY | Some a \<Rightarrow> a) s))
   }"

text \<open>An address is taken away before the netmask and the gateway change, and set after them.\<close>

definition netif_set_addr :: "tcp_addr_changed \<Rightarrow> netif_ptr \<Rightarrow> ip4_addr_t option \<Rightarrow> ip4_addr_t option
    \<Rightarrow> ip4_addr_t option \<Rightarrow> stack \<Rightarrow> stack option" where
  "netif_set_addr tcp netif ipaddr netmask gw s = do {
     let ipaddr = (case ipaddr of None \<Rightarrow> IPADDR_ANY | Some a \<Rightarrow> a);
     let netmask = (case netmask of None \<Rightarrow> IPADDR_ANY | Some a \<Rightarrow> a);
     let gw = (case gw of None \<Rightarrow> IPADDR_ANY | Some a \<Rightarrow> a);
     let remove = ip4_addr_isany (Some ipaddr);
     s \<leftarrow> (if remove then map_option snd (netif_do_set_ipaddr tcp netif ipaddr s) else Some s);
     let s = snd (netif_do_set_netmask netif netmask s);
     let s = snd (netif_do_set_gw netif gw s);
     if \<not> remove then map_option snd (netif_do_set_ipaddr tcp netif ipaddr s) else Some s
   }"

section \<open>Adding and removing\<close>

text \<open>\<open>init\<close> is the function that the driver passes: it returns an error code and may change the
  interface.  A second interface is refused with an assertion.\<close>

definition netif_add :: "tcp_addr_changed \<Rightarrow> netif_ptr option \<Rightarrow> ip4_addr_t option \<Rightarrow> ip4_addr_t option
    \<Rightarrow> ip4_addr_t option \<Rightarrow> addr option \<Rightarrow> (netif \<Rightarrow> err_t \<times> netif) option \<Rightarrow> netif_input_fn option
    \<Rightarrow> stack \<Rightarrow> (netif_ptr option \<times> stack) option" where
  "netif_add tcp netif ipaddr netmask gw state init input s = do {
     lwip_assert (st_netif_default s = None);
     n \<leftarrow> netif;
     initf \<leftarrow> init;
     let ipaddr = (case ipaddr of None \<Rightarrow> IPADDR_ANY | Some a \<Rightarrow> a);
     let netmask = (case netmask of None \<Rightarrow> IPADDR_ANY | Some a \<Rightarrow> a);
     let gw = (case gw of None \<Rightarrow> IPADDR_ANY | Some a \<Rightarrow> a);
     let s = upd_netif n (\<lambda>n. n\<lparr>nif_ip_addr := 0, nif_netmask := 0, nif_gw := 0,
                nif_output := Some fn_netif_null_output_ip4, nif_mtu := 0, nif_flags := 0\<rparr>) s;
     let s = upd_netif n (\<lambda>n. n\<lparr>nif_state := state, nif_num := st_netif_num s, nif_input := input\<rparr>) s;
     s \<leftarrow> netif_set_addr tcp n (Some ipaddr) (Some netmask) (Some gw) s;
     let (err, nif) = initf (netif_at s n);
     let s = upd_netif n (\<lambda>_. nif) s;
     if err \<noteq> ERR_OK then Some (None, s) else Some (netif, s)
   }"

definition netif_add_noaddr :: "tcp_addr_changed \<Rightarrow> netif_ptr option \<Rightarrow> addr option
    \<Rightarrow> (netif \<Rightarrow> err_t \<times> netif) option \<Rightarrow> netif_input_fn option \<Rightarrow> stack \<Rightarrow> (netif_ptr option \<times> stack) option" where
  "netif_add_noaddr tcp netif state init input s = netif_add tcp netif None None None state init input s"

definition netif_set_default :: "netif_ptr option \<Rightarrow> stack \<Rightarrow> stack" where
  "netif_set_default netif s = s\<lparr>st_netif_default := netif\<rparr>"

definition netif_set_flags :: "u8 \<Rightarrow> netif \<Rightarrow> netif" where
  "netif_set_flags f n = n\<lparr>nif_flags := nif_flags n OR f\<rparr>"

definition netif_clear_flags :: "u8 \<Rightarrow> netif \<Rightarrow> netif" where
  "netif_clear_flags f n = n\<lparr>nif_flags := nif_flags n AND (NOT f AND 0xFF)\<rparr>"

definition netif_set_up :: "netif_ptr option \<Rightarrow> stack \<Rightarrow> stack option" where
  "netif_set_up netif s = do {
     n \<leftarrow> netif;
     if nif_flags (netif_at s n) AND NETIF_FLAG_UP = 0
     then netif_issue_reports netif (upd_netif n (netif_set_flags NETIF_FLAG_UP) s)
     else Some s
   }"

definition netif_set_down :: "netif_ptr option \<Rightarrow> stack \<Rightarrow> stack option" where
  "netif_set_down netif s = do {
     n \<leftarrow> netif;
     Some (if nif_flags (netif_at s n) AND NETIF_FLAG_UP \<noteq> 0
           then upd_netif n (netif_clear_flags NETIF_FLAG_UP) s else s)
   }"

definition netif_set_link_up :: "netif_ptr option \<Rightarrow> stack \<Rightarrow> stack option" where
  "netif_set_link_up netif s = do {
     n \<leftarrow> netif;
     if nif_flags (netif_at s n) AND NETIF_FLAG_LINK_UP = 0
     then netif_issue_reports netif (upd_netif n (netif_set_flags NETIF_FLAG_LINK_UP) s)
     else Some s
   }"

definition netif_set_link_down :: "netif_ptr option \<Rightarrow> stack \<Rightarrow> stack option" where
  "netif_set_link_down netif s = do {
     n \<leftarrow> netif;
     Some (if nif_flags (netif_at s n) AND NETIF_FLAG_LINK_UP \<noteq> 0
           then upd_netif n (netif_clear_flags NETIF_FLAG_LINK_UP) s else s)
   }"

definition netif_remove :: "tcp_addr_changed \<Rightarrow> netif_ptr option \<Rightarrow> stack \<Rightarrow> stack option" where
  "netif_remove tcp netif s = (case netif of
      None \<Rightarrow> Some s
    | Some n \<Rightarrow> do {
        s \<leftarrow> (if \<not> ip4_addr_isany_val (nif_ip_addr (netif_at s n))
             then netif_do_ip_addr_changed tcp (Some (nif_ip_addr (netif_at s n))) None s else Some s);
        s \<leftarrow> (if netif_is_up (netif_at s n) then netif_set_down netif s else Some s);
        Some (if st_netif_default s = netif then netif_set_default None s else s)
      })"

section \<open>Looking up\<close>

text \<open>\<open>NETIF_FOREACH\<close> of a build with one interface visits \<open>netif_default\<close>.\<close>

definition netif_get_by_index :: "u8 \<Rightarrow> stack \<Rightarrow> netif_ptr option" where
  "netif_get_by_index idx s =
     (if idx \<noteq> NETIF_NO_INDEX then
        (case st_netif_default s of
           Some n \<Rightarrow> if idx = netif_get_index (netif_at s n) then Some n else None
         | None \<Rightarrow> None)
      else None)"

text \<open>\<open>atoi\<close> of the C library; the value is undefined outside the range of \<open>int\<close>.\<close>

definition atoi :: "cstring \<Rightarrow> int option" where
  "atoi str =
     (let t = dropWhile lwip_isspace str;
          neg = (peek t = 0x2D);
          t = (if peek t = 0x2D \<or> peek t = 0x2B then tl t else t);
          v = int (dec_val (takeWhile lwip_isdigit t));
          v = (if neg then - v else v)
      in if - 2147483648 \<le> v \<and> v < 2147483648 then Some v else None)"

text \<open>A name of fewer than two characters is read past its end.\<close>

definition netif_find :: "cstring option \<Rightarrow> stack \<Rightarrow> netif_ptr option option" where
  "netif_find name s = (case name of
      None \<Rightarrow> Some None
    | Some (c0 # c1 # rest) \<Rightarrow> do {
        v \<leftarrow> atoi rest;
        let num = (word_of_int v :: u8);
        Some (case st_netif_default s of
           Some n \<Rightarrow> if num = nif_num (netif_at s n) \<and> (c0, c1) = nif_name (netif_at s n) then Some n else None
         | None \<Rightarrow> None)
      }
    | Some _ \<Rightarrow> None)"

definition netif_name_to_index :: "cstring option \<Rightarrow> stack \<Rightarrow> u8 option" where
  "netif_name_to_index name s = do {
     netif \<leftarrow> netif_find name s;
     Some (case netif of Some n \<Rightarrow> netif_get_index (netif_at s n) | None \<Rightarrow> NETIF_NO_INDEX)
   }"

definition NETIF_NAMESIZE :: nat where "NETIF_NAMESIZE = 6"

definition netif_index_to_name :: "u8 \<Rightarrow> stack \<Rightarrow> cstring option" where
  "netif_index_to_name idx s = (case netif_get_by_index idx s of
      Some n \<Rightarrow> do {
        digits \<leftarrow> lwip_itoa (NETIF_NAMESIZE - 2) (int (unat idx) - 1);
        Some (fst (nif_name (netif_at s n)) # snd (nif_name (netif_at s n)) # digits)
      }
    | None \<Rightarrow> None)"

section \<open>The interface of the program\<close>

text \<open>\<open>native/interface.c\<close>: the output function of the interface, attaching a device, initialisation.\<close>

definition DEFAULT_MTU :: int where "DEFAULT_MTU = 1500"

definition global_if_init :: "netif \<Rightarrow> err_t \<times> netif" where
  "global_if_init n = (ERR_OK, n\<lparr>nif_name := (0x65, 0x6E), nif_output := Some fn_global_if_output, nif_state := None\<rparr>)"

definition global_interface_init :: "tcp_addr_changed \<Rightarrow> stack \<Rightarrow> stack option" where
  "global_interface_init tcp s = do {
     (created, s) \<leftarrow> netif_add tcp (Some global_if) (Some IPADDR_ANY) (Some IPADDR_ANY) (Some IPADDR_ANY) None
                       (Some global_if_init) (Some fn_ip_input) s;
     lwip_assert (created \<noteq> None);
     n \<leftarrow> created;
     let s = upd_netif n (\<lambda>n. n\<lparr>nif_mtu := word_of_int DEFAULT_MTU\<rparr>) s;
     s \<leftarrow> netif_set_up created s;
     s \<leftarrow> netif_set_link_up created s;
     Some (netif_set_default created s)
   }"

definition global_interface_attach_device :: "global_interface_output_func option \<Rightarrow> addr option \<Rightarrow> int \<Rightarrow> stack \<Rightarrow> stack" where
  "global_interface_attach_device output state mtu s =
     (let s = s\<lparr>st_output_func := output, st_output_context := state\<rparr>;
          mtu = (if mtu \<le> 0 then DEFAULT_MTU else mtu)
      in upd_netif global_if (\<lambda>n. n\<lparr>nif_mtu := word_of_int mtu\<rparr>) s)"

definition global_interface_is_attached :: "stack \<Rightarrow> bool" where
  "global_interface_is_attached s \<longleftrightarrow> st_output_func s \<noteq> None \<or> st_output_context s \<noteq> None"

definition global_interface_get :: "netif_ptr option" where
  "global_interface_get = Some global_if"

section \<open>Lemmas\<close>

lemma netif_at_upd [simp]:
  "netif_at (upd_netif n f s) m = f (netif_at s m)"
  "netif_at (s\<lparr>st_netif_default := d\<rparr>) m = netif_at s m" "netif_at (s\<lparr>st_heap := h\<rparr>) m = netif_at s m"
  by (cases n; cases m; simp add: netif_at_def upd_netif_def)+

lemma flag_masks:
  "(f OR NETIF_FLAG_UP) AND NETIF_FLAG_UP \<noteq> 0" "(f OR NETIF_FLAG_LINK_UP) AND NETIF_FLAG_LINK_UP \<noteq> 0"
  "(f OR NETIF_FLAG_LINK_UP) AND NETIF_FLAG_UP = f AND NETIF_FLAG_UP"
  "(f OR NETIF_FLAG_UP) AND NETIF_FLAG_LINK_UP = f AND NETIF_FLAG_LINK_UP"
proof -
  have b: "bit NETIF_FLAG_UP n = (n = 0)" "bit NETIF_FLAG_LINK_UP n = (n = 2)" for n
  proof -
    have e: "NETIF_FLAG_LINK_UP = push_bit 2 1" by (simp add: NETIF_FLAG_LINK_UP_def)
    show "bit NETIF_FLAG_LINK_UP n = (n = 2)" unfolding e bit_push_bit_iff bit_1_iff by auto
    show "bit NETIF_FLAG_UP n = (n = 0)" by (simp add: NETIF_FLAG_UP_def bit_1_iff)
  qed
  have "bit ((f OR NETIF_FLAG_UP) AND NETIF_FLAG_UP) 0" "bit ((f OR NETIF_FLAG_LINK_UP) AND NETIF_FLAG_LINK_UP) 2"
    by (simp_all add: bit_and_iff bit_or_iff b)
  then show "(f OR NETIF_FLAG_UP) AND NETIF_FLAG_UP \<noteq> 0" "(f OR NETIF_FLAG_LINK_UP) AND NETIF_FLAG_LINK_UP \<noteq> 0" by auto
  show "(f OR NETIF_FLAG_LINK_UP) AND NETIF_FLAG_UP = f AND NETIF_FLAG_UP"
    "(f OR NETIF_FLAG_UP) AND NETIF_FLAG_LINK_UP = f AND NETIF_FLAG_LINK_UP"
    by (rule bit_word_eqI, auto simp: bit_and_iff bit_or_iff b)+
qed

text \<open>The state that the interface has while the program runs.\<close>

definition iface_ready :: "stack \<Rightarrow> bool" where
  "iface_ready s \<longleftrightarrow> st_netif_default s = Some global_if \<and> netif_is_up (st_global_if s) \<and> netif_is_link_up (st_global_if s)
     \<and> nif_flags (st_global_if s) AND NETIF_FLAG_BROADCAST = 0
     \<and> nif_ip_addr (st_global_if s) = IPADDR_ANY \<and> nif_netmask (st_global_if s) = IPADDR_ANY
     \<and> nif_gw (st_global_if s) = IPADDR_ANY
     \<and> nif_output (st_global_if s) = Some fn_global_if_output \<and> nif_input (st_global_if s) = Some fn_ip_input"

text \<open>A transport layer that leaves the interface alone when it is told about a new address.\<close>

definition keeps_netif :: "tcp_addr_changed \<Rightarrow> bool" where
  "keeps_netif f \<longleftrightarrow> (\<forall>old new s s'. f old new s = Some s' \<longrightarrow> st_global_if s' = st_global_if s
     \<and> st_udp_pcbs s' = st_udp_pcbs s \<and> st_udp_pcb s' = st_udp_pcb s)"

lemma put_udp_pcb_simps [simp]:
  "st_global_if (put_udp_pcb a p s) = st_global_if s" "st_udp_pcbs (put_udp_pcb a p s) = st_udp_pcbs s"
  "st_udp_pcb (put_udp_pcb a p s) = (st_udp_pcb s)(a \<mapsto> p)" "st_heap (put_udp_pcb a p s) = st_heap s"
  by (simp_all add: put_udp_pcb_def)

text \<open>Control blocks bound to the old address are bound to the new one afterwards, all others are as before.\<close>

lemma udp_changed_spec:
  assumes "distinct (st_udp_pcbs s)" "\<forall>a \<in> set (st_udp_pcbs s). st_udp_pcb s a \<noteq> None"
  shows "\<exists>s'. udp_netif_ip_addr_changed (Some old) (Some new) s = Some s' \<and> st_global_if s' = st_global_if s
    \<and> st_udp_pcbs s' = st_udp_pcbs s \<and> st_udp_pcb s' = (\<lambda>a. if a \<in> set (st_udp_pcbs s) \<and> old \<noteq> IPADDR_ANY \<and> new \<noteq> IPADDR_ANY
      then map_option (rebound old new) (st_udp_pcb s a) else st_udp_pcb s a)"
proof (cases "old \<noteq> IPADDR_ANY \<and> new \<noteq> IPADDR_ANY")
  case True
  then show ?thesis
    using udp_rebind_ip_eq [OF assms, of old new]
    by (simp add: udp_netif_ip_addr_changed_def ip4_addr_isany_val_def)
next
  case False
  then have "udp_netif_ip_addr_changed (Some old) (Some new) s = Some s"
    by (auto simp: udp_netif_ip_addr_changed_def ip4_addr_isany_val_def)
  then show ?thesis using False by auto
qed

lemma netif_do_set_ipaddr_spec:
  assumes "netif_do_set_ipaddr tcp global_if ip s = Some (c, s')" "keeps_netif tcp" "udp_inv N s"
  shows "st_global_if s' = (st_global_if s)\<lparr>nif_ip_addr := ip\<rparr> \<and> st_udp_pcbs s' = st_udp_pcbs s
    \<and> st_udp_pcb s' = (\<lambda>a. if a \<in> set (st_udp_pcbs s) \<and> nif_ip_addr (st_global_if s) \<noteq> IPADDR_ANY \<and> ip \<noteq> IPADDR_ANY
      then map_option (rebound (nif_ip_addr (st_global_if s)) ip) (st_udp_pcb s a) else st_udp_pcb s a)"
proof (cases "ip = nif_ip_addr (st_global_if s)")
  case True
  then have "s' = s" using assms(1) by (simp add: netif_do_set_ipaddr_def netif_at_def)
  moreover have "map_option (rebound ip ip) x = x" for x by (cases x) (simp_all add: rebound_def)
  moreover have "st_global_if s = (st_global_if s)\<lparr>nif_ip_addr := ip\<rparr>" using True by simp
  ultimately show ?thesis unfolding True [symmetric] by (simp add: fun_eq_iff)
next
  case False
  define old where "old = nif_ip_addr (st_global_if s)"
  obtain s1 s2 where t: "tcp (Some old) (Some ip) s = Some s1" and u: "udp_netif_ip_addr_changed (Some old) (Some ip) s1 = Some s2"
    and s': "s' = upd_netif global_if (\<lambda>n. n\<lparr>nif_ip_addr := ip\<rparr>) s2"
    using assms(1) False
    by (auto simp: netif_do_set_ipaddr_def netif_do_ip_addr_changed_def netif_issue_reports_def netif_at_def old_def
        Let_def bind_eq_Some_conv)
  have k: "st_global_if s1 = st_global_if s" "st_udp_pcbs s1 = st_udp_pcbs s" "st_udp_pcb s1 = st_udp_pcb s"
    using assms(2) t unfolding keeps_netif_def by blast+
  have lv: "distinct (st_udp_pcbs s1)" "\<forall>a \<in> set (st_udp_pcbs s1). st_udp_pcb s1 a \<noteq> None"
    using udp_invD(1,2) [OF assms(3)] k by (simp_all add: pcbs_live_def)
  have "st_global_if s2 = st_global_if s1 \<and> st_udp_pcbs s2 = st_udp_pcbs s1
    \<and> st_udp_pcb s2 = (\<lambda>a. if a \<in> set (st_udp_pcbs s1) \<and> old \<noteq> IPADDR_ANY \<and> ip \<noteq> IPADDR_ANY
      then map_option (rebound old ip) (st_udp_pcb s1 a) else st_udp_pcb s1 a)"
    using udp_changed_spec [OF lv, of old ip] u by auto
  then show ?thesis unfolding s' k old_def by (simp add: upd_netif_def)
qed

lemma keep_masks [simp]:
  "st_global_if (upd_netif n f s) = f (st_global_if s)"
  "st_udp_pcbs (upd_netif n f s) = st_udp_pcbs s" "st_udp_pcb (upd_netif n f s) = st_udp_pcb s"
  "st_udp_port (upd_netif n f s) = st_udp_port s" "st_heap (upd_netif n f s) = st_heap s"
  "st_netif_default (upd_netif n f s) = st_netif_default s" "st_netif_num (upd_netif n f s) = st_netif_num s"
  by (cases n; simp add: upd_netif_def)+

lemma udp_inv_upd_netif [simp]: "udp_inv N (upd_netif n f s) = udp_inv N s"
  by (simp add: udp_inv_def pcbs_live_def)

lemma set_mask_gw:
  "snd (netif_do_set_gw global_if g (snd (netif_do_set_netmask global_if m s)))
     = upd_netif global_if (\<lambda>n. n\<lparr>nif_netmask := m, nif_gw := g\<rparr>) s"
  by (auto simp: netif_do_set_gw_def netif_do_set_netmask_def netif_at_def upd_netif_def)

lemma dec_digits: "lwip_isdigit c = is_digit c"
  by (simp add: lwip_isdigit_def is_digit_def word_le_nat_alt)

lemma itoa_small:
  assumes "n < 1000"
  obtains d where "lwip_itoa 4 (int n) = Some d" "list_all lwip_isdigit d" "dec_val d = n" "d \<noteq> []"
proof -
  obtain n' s where l: "lwip_itoa_loop n 3 [] = (n', s)" by fastforce
  have "n < 10 ^ 3" using assms by simp
  from lwip_itoa_loop_done [OF this, of "[]"] have n0: "n' = 0" using l by simp
  have v: "dec_val s = n" using lwip_itoa_loop_value [OF l] n0 by (simp add: dec_val_def)
  have d: "list_all is_digit s" using lwip_itoa_loop_digits [OF l] by simp
  have run: "lwip_itoa 4 (int n) = Some (if s = [] then [0x30] else s)"
    using l n0 by (simp add: lwip_itoa_def Let_def)
  show ?thesis
  proof (cases "s = []")
    case True
    then have "n = 0" using v by (simp add: dec_val_def)
    then show ?thesis using run True by (intro that [of "[0x30]"]) (simp_all add: dec_digits is_digit_def dec_val_def)
  next
    case False
    have "list_all lwip_isdigit s" using d by (simp add: list_all_iff dec_digits)
    then show ?thesis using run False v by (intro that [of s]) simp_all
  qed
qed

lemma atoi_digits:
  assumes "list_all lwip_isdigit d" "d \<noteq> []" "dec_val d < 2147483648"
  shows "atoi d = Some (int (dec_val d))"
proof -
  obtain c r where c: "d = c # r" "is_digit c" using assms(1,2) by (cases d) (auto simp: dec_digits)
  have sp: "c \<noteq> 0x20" "c \<noteq> 0x0C" "c \<noteq> 0x0A" "c \<noteq> 0x0D" "c \<noteq> 0x09" "c \<noteq> 0x0B" "c \<noteq> 0x2D" "c \<noteq> 0x2B"
    using c(2) by (auto simp: is_digit_def)
  have "dropWhile lwip_isspace d = d" using c sp by (simp add: lwip_isspace_def)
  moreover have "takeWhile lwip_isdigit d = d" using assms(1) by (simp add: list_all_iff takeWhile_eq_all_conv)
  moreover have "peek d = c" using c by (simp add: peek_def)
  ultimately show ?thesis using sp assms(3) by (simp add: atoi_def del: takeWhile_eq_all_conv)
qed

section \<open>Properties\<close>

text \<open>\<open>global_interface_init\<close> on a program without an interface always succeeds, whatever TCP
  does on an address change, and leaves one interface that is up, has its link up, is the default route,
  accepts every address, sends through the output function of the program and has the default MTU; UDP and
  the heap are untouched.  Called again it aborts.\<close>

theorem global_interface_init_ready:
  assumes "st_netif_default s = None"
  shows "\<exists>s'. global_interface_init tcp s = Some s' \<and> iface_ready s' \<and> nif_mtu (st_global_if s') = 1500
    \<and> st_heap s' = st_heap s \<and> st_udp_pcb s' = st_udp_pcb s \<and> st_udp_pcbs s' = st_udp_pcbs s
    \<and> global_interface_init tcp' s' = None"
proof -
  let ?n = "(st_global_if s)\<lparr>nif_ip_addr := 0, nif_netmask := 0, nif_gw := 0, nif_output := Some fn_global_if_output,
      nif_mtu := 0, nif_flags := 0, nif_state := None, nif_num := st_netif_num s, nif_input := Some fn_ip_input, nif_name := (0x65, 0x6E)\<rparr>"
  let ?f = "(0 OR NETIF_FLAG_UP) OR NETIF_FLAG_LINK_UP"
  let ?s = "s\<lparr>st_global_if := ?n\<lparr>nif_mtu := 1500, nif_flags := ?f\<rparr>, st_netif_default := Some global_if\<rparr>"
  have run: "global_interface_init tcp s = Some ?s"
    using assms
    by (simp add: global_interface_init_def netif_add_def netif_set_addr_def netif_do_set_ipaddr_def set_mask_gw
        ip4_addr_isany_def ip4_addr_isany_val_def netif_at_def upd_netif_def global_if_init_def netif_set_up_def
        netif_set_link_up_def netif_issue_reports_def netif_set_flags_def netif_set_default_def DEFAULT_MTU_def
        IPADDR_ANY_def netif_do_set_netmask_def netif_do_set_gw_def) (simp add: NETIF_FLAG_UP_def NETIF_FLAG_LINK_UP_def netif_issue_reports_def upd_netif_def netif_set_flags_def)
  have "iface_ready ?s"
    by (simp add: iface_ready_def netif_is_up_def netif_is_link_up_def IPADDR_ANY_def)
      (simp add: NETIF_FLAG_UP_def NETIF_FLAG_LINK_UP_def NETIF_FLAG_BROADCAST_def)
  moreover have "global_interface_init tcp' ?s = None" by (simp add: global_interface_init_def netif_add_def)
  ultimately show ?thesis unfolding run by (intro exI [of _ ?s]) simp
qed

theorem global_interface_init_ready_witness:
  "\<exists>s'. global_interface_init (\<lambda>_ _ s. Some s) (stack_zero ex_two) = Some s' \<and> iface_ready s' \<and> nif_mtu (st_global_if s') = 1500"
  using global_interface_init_ready [of "stack_zero ex_two" "\<lambda>_ _ s. Some s" "\<lambda>_ _ s. Some s"]
  by (auto simp: stack_zero_def)

text \<open>when \<open>netif_set_addr\<close> returns, the interface has exactly the given address, netmask and
  gateway and is otherwise unchanged, and the UDP control blocks bound to the old address (when both
  addresses are real ones) are bound to the new one, whichever of the two orders the function took.  TCP is
  assumed to leave the interface and UDP alone.\<close>

theorem netif_set_addr_configures:
  assumes "netif_set_addr tcp global_if (Some ip) (Some nm) (Some gw) s = Some s'" "keeps_netif tcp" "udp_inv N s"
  shows "st_global_if s' = (st_global_if s)\<lparr>nif_ip_addr := ip, nif_netmask := nm, nif_gw := gw\<rparr>
    \<and> st_udp_pcbs s' = st_udp_pcbs s
    \<and> st_udp_pcb s' = (\<lambda>a. if a \<in> set (st_udp_pcbs s) \<and> nif_ip_addr (st_global_if s) \<noteq> IPADDR_ANY \<and> ip \<noteq> IPADDR_ANY
      then map_option (rebound (nif_ip_addr (st_global_if s)) ip) (st_udp_pcb s a) else st_udp_pcb s a)"
proof (cases "ip = IPADDR_ANY")
  case True
  then obtain c s1 where d: "netif_do_set_ipaddr tcp global_if ip s = Some (c, s1)"
    and s': "s' = upd_netif global_if (\<lambda>n. n\<lparr>nif_netmask := nm, nif_gw := gw\<rparr>) s1"
    using assms(1) by (auto simp: netif_set_addr_def ip4_addr_isany_def ip4_addr_isany_val_def Let_def set_mask_gw bind_eq_Some_conv)
  show ?thesis using netif_do_set_ipaddr_spec [OF d assms(2,3)] unfolding s' by (simp add: upd_netif_def)
next
  case False
  let ?s1 = "upd_netif global_if (\<lambda>n. n\<lparr>nif_netmask := nm, nif_gw := gw\<rparr>) s"
  obtain c where d: "netif_do_set_ipaddr tcp global_if ip ?s1 = Some (c, s')"
    using assms(1) False by (auto simp: netif_set_addr_def ip4_addr_isany_def ip4_addr_isany_val_def Let_def set_mask_gw)
  have "udp_inv N ?s1" using assms(3) by simp
  from netif_do_set_ipaddr_spec [OF d assms(2) this] show ?thesis by (simp cong: if_cong)
qed

theorem netif_set_addr_configures_witness:
  "\<exists>s'. netif_set_addr (\<lambda>_ _ s. Some s) global_if (Some 0x0100007F) (Some 0xFF) (Some 0) (stack_zero ex_two) = Some s'
     \<and> nif_ip_addr (st_global_if s') = 0x0100007F \<and> nif_netmask (st_global_if s') = 0xFF"
proof -
  let ?s = "stack_zero ex_two" and ?tcp = "\<lambda>_ _ s. Some s :: stack option"
  obtain s' where r: "netif_set_addr ?tcp global_if (Some 0x0100007F) (Some 0xFF) (Some 0) ?s = Some s'"
    by (simp add: netif_set_addr_def ip4_addr_isany_def ip4_addr_isany_val_def IPADDR_ANY_def set_mask_gw
        netif_do_set_ipaddr_def netif_do_ip_addr_changed_def udp_netif_ip_addr_changed_def netif_issue_reports_def
        stack_zero_def netif_at_def upd_netif_def netif_zero_def)
  have "keeps_netif ?tcp" by (simp add: keeps_netif_def)
  from netif_set_addr_configures [OF r this stack_zero_udp_inv] show ?thesis using r by simp
qed

text \<open>the name that \<open>netif_index_to_name\<close> makes of an index leads \<open>netif_name_to_index\<close> back to
  the index.\<close>

theorem netif_index_name_roundtrip:
  assumes "netif_index_to_name idx s = Some name"
  shows "netif_name_to_index (Some name) s = Some idx \<and> idx \<noteq> NETIF_NO_INDEX"
proof -
  obtain n where n: "st_netif_default s = Some n" "idx = netif_get_index (netif_at s n)" "idx \<noteq> NETIF_NO_INDEX"
    using assms by (auto simp: netif_index_to_name_def netif_get_by_index_def split: option.splits if_splits)
  obtain k where k: "unat idx = Suc k" using n(3) by (cases "unat idx") (auto simp: NETIF_NO_INDEX_def unat_eq_zero)
  have k255: "k < 255" using k unat_u8_less [of idx] by linarith
  obtain d where d: "lwip_itoa 4 (int k) = Some d" "list_all lwip_isdigit d" "dec_val d = k" "d \<noteq> []"
    using itoa_small [of k] k255 by auto
  have nm: "name = fst (nif_name (netif_at s n)) # snd (nif_name (netif_at s n)) # d"
    using assms n d(1) k by (simp add: netif_index_to_name_def netif_get_by_index_def NETIF_NAMESIZE_def)
  have a: "atoi d = Some (int k)" using atoi_digits [OF d(2,4)] d(3) k255 by simp
  have "idx - 1 = nif_num (netif_at s n)" using n(2) by (simp add: netif_get_index_def)
  moreover have "unat (idx - 1) = k" using k by (metis One_nat_def diff_Suc_1 unat_minus_one unat_eq_zero nat.distinct(1))
  ultimately have "(word_of_int (int k) :: u8) = nif_num (netif_at s n)" by (metis of_int_of_nat_eq of_nat_unat word_unat_eq_iff unsigned_of_nat ucast_id of_nat_inverse)
  then show ?thesis
    using n a nm by (simp add: netif_name_to_index_def netif_find_def)
qed

theorem netif_index_name_roundtrip_witness:
  "netif_index_to_name 1 ((stack_zero ex_two)\<lparr>st_netif_default := Some global_if\<rparr>) = Some [0, 0, 0x30]
   \<and> netif_name_to_index (Some [0, 0, 0x30]) ((stack_zero ex_two)\<lparr>st_netif_default := Some global_if\<rparr>) = Some 1"
proof -
  let ?s = "(stack_zero ex_two)\<lparr>st_netif_default := Some global_if\<rparr>"
  have "netif_index_to_name 1 ?s = Some [0, 0, 0x30]"
    by (simp add: netif_index_to_name_def netif_get_by_index_def netif_get_index_def netif_at_def stack_zero_def
        netif_zero_def NETIF_NO_INDEX_def NETIF_NAMESIZE_def lwip_itoa_def numeral_3_eq_3)
  from this netif_index_name_roundtrip [OF this] show ?thesis by simp
qed

end
