(* ===== verification/Ip4_Out.thy ===== *)
theory Ip4_Out
  imports Netif
begin

unbundle bit_operations_syntax

text \<open>
  Sending: routing and the construction of the IP header in \<open>lwip/core/ipv4/ip4.c\<close>, the output
  function of the interface in \<open>native/interface.c\<close> and the one of the link in \<open>native/link.c\<close>, which
  puts the packet into the queue that \<open>link_read\<close> empties.  The checksum of the IP header is computed
  while the header is filled in (\<open>CHECKSUM_GEN_IP_INLINE = 1\<close>).
\<close>

section \<open>Output functions\<close>

text \<open>\<open>if_output\<close> of \<open>native/link.c\<close>.\<close>

definition if_output :: "addr option \<Rightarrow> addr option \<Rightarrow> stack \<Rightarrow> stack option" where
  "if_output context p s = do {
     c \<leftarrow> context;
     ctx \<leftarrow> st_links s c;
     (rx, h) \<leftarrow> pbuf_queue_append (lk_rx ctx) [p] (st_heap s);
     Some (s\<lparr>st_heap := h, st_links := (st_links s)(c \<mapsto> ctx\<lparr>lk_rx := rx\<rparr>)\<rparr>)
   }"

definition global_if_output :: "netif_ptr \<Rightarrow> addr option \<Rightarrow> ip4_addr_t \<Rightarrow> stack \<Rightarrow> (err_t \<times> stack) option" where
  "global_if_output netif p ipaddr s =
     (case st_output_func s of
        Some fn_if_output \<Rightarrow> do {
          s \<leftarrow> on_heap' (pbuf_ref p) s;
          s \<leftarrow> if_output (st_output_context s) p s;
          Some (ERR_OK, s)
        }
      | None \<Rightarrow> Some (ERR_OK, s))"

definition netif_null_output_ip4 :: "netif_ptr \<Rightarrow> addr option \<Rightarrow> ip4_addr_t \<Rightarrow> stack \<Rightarrow> (err_t \<times> stack) option" where
  "netif_null_output_ip4 netif p ipaddr s = Some (ERR_IF, s)"

text \<open>\<open>netif->output(netif, p, dest)\<close>\<close>

definition netif_output :: "netif_ptr \<Rightarrow> addr option \<Rightarrow> ip4_addr_t \<Rightarrow> stack \<Rightarrow> (err_t \<times> stack) option" where
  "netif_output netif p dest s = (case nif_output (netif_at s netif) of
      None \<Rightarrow> None
    | Some fn_netif_null_output_ip4 \<Rightarrow> netif_null_output_ip4 netif p dest s
    | Some fn_global_if_output \<Rightarrow> global_if_output netif p dest s)"

section \<open>Routing\<close>

definition ip4_route :: "ip4_addr_t \<Rightarrow> stack \<Rightarrow> netif_ptr option" where
  "ip4_route dest s = (case st_netif_default s of
      None \<Rightarrow> None
    | Some n \<Rightarrow> if \<not> netif_is_up (netif_at s n) \<or> \<not> netif_is_link_up (netif_at s n) \<or> ip4_addr_isloopback dest
               then None else Some n)"

section \<open>The IP header\<close>

text \<open>The bytes of a \<open>struct ip_hdr\<close>; the arguments are the fields as they are stored.\<close>

definition ip_hdr :: "u8 \<Rightarrow> u8 \<Rightarrow> u16 \<Rightarrow> u16 \<Rightarrow> u16 \<Rightarrow> u8 \<Rightarrow> u8 \<Rightarrow> u16 \<Rightarrow> u32 \<Rightarrow> u32 \<Rightarrow> byte list" where
  "ip_hdr v_hl tos len ident offset ttl proto chksum src dest =
     [v_hl, tos] @ bytes_u16 len @ bytes_u16 ident @ bytes_u16 offset @ [ttl, proto] @ bytes_u16 chksum
     @ bytes_u32 src @ bytes_u32 dest"

text \<open>The checksum summed up along the way, in the order of the code.\<close>

definition ip_chksum_inline :: "u8 \<Rightarrow> u8 \<Rightarrow> u16 \<Rightarrow> u16 \<Rightarrow> u8 \<Rightarrow> u8 \<Rightarrow> u32 \<Rightarrow> u32 \<Rightarrow> u16" where
  "ip_chksum_inline v_hl tos len ident ttl proto src dest =
     (let chk_sum = (0 :: u32);
          chk_sum = chk_sum + ucast (lwip_htons (ucast proto OR push_bit 8 (ucast ttl)));
          chk_sum = chk_sum + (dest AND 0xFFFF);
          chk_sum = chk_sum + drop_bit 16 dest;
          chk_sum = chk_sum + ucast (lwip_htons (ucast tos OR push_bit 8 (ucast v_hl)));
          chk_sum = chk_sum + ucast len;
          chk_sum = chk_sum + ucast ident;
          chk_sum = chk_sum + (src AND 0xFFFF);
          chk_sum = chk_sum + drop_bit 16 src;
          chk_sum = drop_bit 16 chk_sum + (chk_sum AND 0xFFFF);
          chk_sum = drop_bit 16 chk_sum + chk_sum;
          chk_sum = NOT chk_sum
      in ucast chk_sum)"

text \<open>\<open>dest = None\<close> is \<open>LWIP_IP_HDRINCL\<close>: the packet has its header already.\<close>

definition ip4_output_if_src :: "addr \<Rightarrow> ip4_addr_t option \<Rightarrow> ip4_addr_t option \<Rightarrow> u8 \<Rightarrow> u8 \<Rightarrow> u8 \<Rightarrow> netif_ptr
    \<Rightarrow> stack \<Rightarrow> (err_t \<times> stack) option" where
  "ip4_output_if_src p src dest ttl tos proto netif s = do {
     pb \<leftarrow> hp_pbufs (st_heap s) p;
     lwip_assert (pb_ref pb = 1);
     case dest of
       Some d \<Rightarrow> do {
         (r, s) \<leftarrow> on_heap (pbuf_add_header (Some p) IP_HLEN) s;
         if r \<noteq> 0 then Some (ERR_BUF, s)
         else do {
           pb \<leftarrow> hp_pbufs (st_heap s) p;
           lwip_assert (IP_HLEN \<le> unat (pb_len pb));
           let v_hl = (push_bit 4 4 OR 5 :: u8);
           let len = lwip_htons (pb_tot_len pb);
           let ident = lwip_htons (st_ip_id s);
           let sa = (case src of None \<Rightarrow> IPADDR_ANY | Some a \<Rightarrow> a);
           let chksum = ip_chksum_inline v_hl tos len ident ttl proto sa d;
           s \<leftarrow> on_heap' (\<lambda>h. mem_write h (pb_payload pb) 0 (ip_hdr v_hl tos len ident 0 ttl proto chksum sa d)) s;
           let s = s\<lparr>st_ip_id := st_ip_id s + 1\<rparr>;
           netif_output netif (Some p) d s
         }
       }
     | None \<Rightarrow>
         if unat (pb_len pb) < IP_HLEN then Some (ERR_BUF, s)
         else do {
           d \<leftarrow> read_u32 (st_heap s) (pb_payload pb) 16;
           netif_output netif (Some p) d s
         }
   }"

definition ip4_output_if :: "addr \<Rightarrow> ip4_addr_t option \<Rightarrow> ip4_addr_t option \<Rightarrow> u8 \<Rightarrow> u8 \<Rightarrow> u8 \<Rightarrow> netif_ptr
    \<Rightarrow> stack \<Rightarrow> (err_t \<times> stack) option" where
  "ip4_output_if p src dest ttl tos proto netif s =
     (let src_used = (if dest \<noteq> None \<and> ip4_addr_isany src then Some (nif_ip_addr (netif_at s netif)) else src)
      in ip4_output_if_src p src_used dest ttl tos proto netif s)"

definition ip4_output :: "addr \<Rightarrow> ip4_addr_t option \<Rightarrow> ip4_addr_t \<Rightarrow> u8 \<Rightarrow> u8 \<Rightarrow> u8 \<Rightarrow> stack \<Rightarrow> (err_t \<times> stack) option" where
  "ip4_output p src dest ttl tos proto s = do {
     pb \<leftarrow> hp_pbufs (st_heap s) p;
     lwip_assert (pb_ref pb = 1);
     case ip4_route dest s of
       None \<Rightarrow> Some (ERR_RTE, s)
     | Some netif \<Rightarrow> ip4_output_if p src (Some dest) ttl tos proto netif s
   }"

section \<open>The checksum of the header\<close>

lemma length_ip_hdr [simp]: "length (ip_hdr v tos len i off ttl proto c src dest) = 20"
  by (simp add: ip_hdr_def)

lemma u16_pair: "unat (lwip_htons (ucast (lo :: u8) OR push_bit 8 (ucast (hi :: u8)))) = unat hi + 256 * unat lo"
proof -
  have lo: "unat (ucast lo :: u16) = unat lo" "unat (ucast hi :: u16) = unat hi"
    by (simp_all add: unsigned_ucast_eq take_bit_nat_eq_self order_less_trans [OF unat_u8_less])
  have "ucast lo AND push_bit 8 (ucast hi) = (0 :: u16)"
    by (rule bytes_eqI16) (auto simp: bit_and_iff bit_push_bit_iff bit_ucast_iff dest: bit_imp_le_length)
  then have "ucast lo OR push_bit 8 (ucast hi) = (ucast lo + push_bit 8 (ucast hi) :: u16)"
    by (simp add: disjunctive_add_eq_or)
  moreover have "unat (push_bit 8 (ucast hi) :: u16) = 256 * unat hi"
    unfolding unsigned_push_bit_eq using unat_u8_less [of hi] by (simp add: lo push_bit_eq_mult take_bit_eq_mod)
  ultimately have u: "unat (ucast lo OR push_bit 8 (ucast hi) :: u16) = unat lo + 256 * unat hi"
  proof -
    have "unat (ucast lo :: u16) + unat (push_bit 8 (ucast hi) :: u16) < 65536"
      using unat_u8_less [of lo] unat_u8_less [of hi] \<open>unat (push_bit 8 (ucast hi) :: u16) = 256 * unat hi\<close> lo(1) by linarith
    from unat_u16_add [OF this] show ?thesis
      using \<open>ucast lo OR push_bit 8 (ucast hi) = (ucast lo + push_bit 8 (ucast hi) :: u16)\<close>
        \<open>unat (push_bit 8 (ucast hi) :: u16) = 256 * unat hi\<close> lo(1) by simp
  qed
  have "(unat lo + 256 * unat hi) mod 256 = unat lo" "(unat lo + 256 * unat hi) div 256 = unat hi"
    using unat_u8_less [of lo] by simp_all
  then show ?thesis unfolding unat_lwip_htons u by simp
qed

lemma unat_ucast_16_32: "unat (ucast (w :: u16) :: u32) = unat w"
proof -
  have "unat w < 2 ^ 32" by (rule order_less_trans [OF unat_u16_less]) simp
  then show ?thesis by (simp add: unsigned_ucast_eq take_bit_nat_eq_self)
qed

lemma unat_sum_list_u32: "sum_list (map unat ws) < 4294967296 \<Longrightarrow> unat (sum_list (ws :: u32 list)) = sum_list (map unat ws)"
  by (induction ws) (simp_all add: unat_u32_add)

lemma oc_append: "even (length xs) \<Longrightarrow> oc (le_val ys) v \<Longrightarrow> oc (le_val (xs @ ys)) (le_val xs + v)"
  using oc_add [OF oc_refl [of "le_val xs"] oc_trans [OF oc_pow(1) [of "length xs" "le_val ys"]], of v]
  by (simp add: le_val_append)

lemma le_val_ip_hdr:
  "oc (le_val (ip_hdr v tos len i 0 ttl proto 0 src dest))
     ((unat v + 256 * unat tos) + (unat len + (unat i + ((unat ttl + 256 * unat proto) + (unat src + unat dest)))))"
proof -
  have d: "oc (le_val (bytes_u32 src @ bytes_u32 dest)) (unat src + unat dest)"
    using oc_append [of "bytes_u32 src" "bytes_u32 dest" "unat dest"] by simp
  have p: "oc (le_val ([ttl, proto] @ bytes_u16 0 @ bytes_u32 src @ bytes_u32 dest)) ((unat ttl + 256 * unat proto) + (unat src + unat dest))"
    using oc_append [of "[ttl, proto]", OF _ oc_append [of "bytes_u16 0", OF _ d]] by simp
  have i: "oc (le_val (bytes_u16 i @ bytes_u16 0 @ [ttl, proto] @ bytes_u16 0 @ bytes_u32 src @ bytes_u32 dest))
      (unat i + ((unat ttl + 256 * unat proto) + (unat src + unat dest)))"
    using oc_append [of "bytes_u16 i", OF _ oc_append [of "bytes_u16 0", OF _ p]] by simp
  show ?thesis
    unfolding ip_hdr_def
    using oc_append [of "[v, tos]", OF _ oc_append [of "bytes_u16 len", OF _ i]] by simp
qed

lemma fold_tail: "unat c \<le> 131070 \<Longrightarrow> (ucast (NOT (drop_bit 16 c + c :: u32)) :: u16) = NOT (of_nat (unat (FOLD_U32T c)))"
proof -
  assume c: "unat c \<le> 131070"
  have d: "unat (drop_bit 16 c + c) = unat c div 65536 + unat c"
    using c by (subst unat_u32_add) (simp_all add: u32_high)
  have "(unat c div 65536 + unat c) mod 65536 = unat (FOLD_U32T c)"
  proof (cases "unat c < 65536")
    case True
    then show ?thesis by (simp add: unat_FOLD)
  next
    case False
    then have q: "unat c div 65536 = 1" using c by linarith
    then have "unat c mod 65536 = unat c - 65536" using False c by (simp add: mod_if)
    moreover have "(1 + unat c) mod 65536 = 1 + unat c - 65536" using False c by (simp add: mod_if)
    ultimately show ?thesis using q False by (simp add: unat_FOLD)
  qed
  then have "unat (ucast (drop_bit 16 c + c) :: u16) = unat (FOLD_U32T c)"
    unfolding unsigned_ucast_eq d by (simp add: take_bit_eq_mod)
  then have "(ucast (drop_bit 16 c + c) :: u16) = of_nat (unat (FOLD_U32T c))" by (metis of_nat_unat ucast_id)
  moreover have "(ucast (NOT x) :: u16) = NOT (ucast x)" for x :: u32
    by (rule bytes_eqI16) (simp add: bit_ucast_iff bit_not_iff)
  ultimately show ?thesis by simp
qed

text \<open>The sum built up while the header is written is the checksum of the header with a zero field.\<close>

lemma ip_chksum_inline_eq:
  "ip_chksum_inline v tos len i ttl proto src dest = NOT (of_nat (ones (le_val (ip_hdr v tos len i 0 ttl proto 0 src dest))))"
proof -
  let ?S = "unat ttl + 256 * unat proto + unat dest mod 65536 + unat dest div 65536 + (unat v + 256 * unat tos)
     + unat len + unat i + unat src mod 65536 + unat src div 65536"
  define c :: u32 where "c = 0 + ucast (lwip_htons (ucast proto OR push_bit 8 (ucast ttl))) + (dest AND 0xFFFF) + drop_bit 16 dest
    + ucast (lwip_htons (ucast tos OR push_bit 8 (ucast v))) + ucast len + ucast i + (src AND 0xFFFF) + drop_bit 16 src"
  have a: "unat (ucast (lwip_htons (ucast proto OR push_bit 8 (ucast ttl))) :: u32) = unat ttl + 256 * unat proto"
    "unat (ucast (lwip_htons (ucast tos OR push_bit 8 (ucast v))) :: u32) = unat v + 256 * unat tos"
    by (simp_all only: unat_ucast_16_32 u16_pair)
  have b: "unat ttl < 256" "unat proto < 256" "unat v < 256" "unat tos < 256" "unat len < 65536" "unat i < 65536"
    "unat dest mod 65536 < 65536" "unat src mod 65536 < 65536" by simp_all
  have b2: "unat dest div 65536 < 65536" "unat src div 65536 < 65536"
    using unat_u32_less [of dest] unat_u32_less [of src] by linarith+
  have le: "?S < 4294967296" using b b2 by linarith
  let ?ws = "[ucast (lwip_htons (ucast proto OR push_bit 8 (ucast ttl))), dest AND 0xFFFF, drop_bit 16 dest,
    ucast (lwip_htons (ucast tos OR push_bit 8 (ucast v))), ucast len, ucast i, src AND 0xFFFF, drop_bit 16 src] :: u32 list"
  have ws: "sum_list (map unat ?ws) = ?S"
    by (simp only: list.map sum_list.Cons sum_list.Nil unat_ucast_16_32 u16_pair u32_low u32_high add_ac add_0_right)
  have "c = sum_list ?ws" by (simp add: c_def add_ac)
  then have c: "unat c = ?S" using unat_sum_list_u32 [of ?ws] le unfolding ws by simp
  have u: "ip_chksum_inline v tos len i ttl proto src dest = ucast (NOT (drop_bit 16 (FOLD_U32T c) + FOLD_U32T c))"
    unfolding ip_chksum_inline_def Let_def c_def FOLD_U32T_def by simp
  have "oc (unat src mod 65536 + unat src div 65536) (unat src)" for src :: u32
    using oc_fold [of "unat src"] by (simp add: add.commute)
  note sd = this [of src] this [of dest]
  have "oc (unat c) ((unat v + 256 * unat tos) + (unat len + (unat i + ((unat ttl + 256 * unat proto) + (unat src + unat dest)))))"
    using oc_add [OF oc_add [OF sd] oc_refl [of "unat ttl + 256 * unat proto + (unat v + 256 * unat tos) + unat len + unat i"]]
    unfolding c by (simp add: add_ac)
  from oc_trans [OF this oc_sym [OF le_val_ip_hdr]]
  have o: "oc (unat (FOLD_U32T (FOLD_U32T c))) (le_val (ip_hdr v tos len i 0 ttl proto 0 src dest))"
    using oc_trans [OF FOLD2_spec(1)] by blast
  have "unat (FOLD_U32T (FOLD_U32T c)) = ones (le_val (ip_hdr v tos len i 0 ttl proto 0 src dest))"
    by (rule oc_onesI [OF o FOLD2_spec(2)])
  then show ?thesis unfolding u fold_tail [OF FOLD_spec(3)] by (simp only:)
qed

text \<open>The receiver's test of the header succeeds.\<close>

lemma ip_hdr_verifies:
  "inet_chksum is_odd (ip_hdr v tos len i 0 ttl proto (ip_chksum_inline v tos len i ttl proto src dest) src dest) = 0"
proof -
  let ?c = "ip_chksum_inline v tos len i ttl proto src dest"
  let ?xs = "[v, tos] @ bytes_u16 len @ bytes_u16 i @ bytes_u16 0 @ [ttl, proto]" and ?ys = "bytes_u32 src @ bytes_u32 dest"
  have z: "ip_hdr v tos len i 0 ttl proto 0 src dest = ?xs @ [0, 0] @ ?ys" by (simp add: ip_hdr_def bytes_u16_def)
  have h: "ip_hdr v tos len i 0 ttl proto ?c src dest = ?xs @ [ucast ?c, ucast (drop_bit 8 ?c)] @ ?ys"
    by (simp add: ip_hdr_def bytes_u16_def)
  have "oc (ones (le_val (?xs @ [0, 0] @ ?ys)) + unat ?c) 65535"
    unfolding ip_chksum_inline_eq z unat_not_ones using ones_le [of "le_val (?xs @ [0, 0] @ ?ys)"] by simp
  from chksum_field_ones [OF _ this] have "ones (le_val (ip_hdr v tos len i 0 ttl proto ?c src dest)) = 65535"
    unfolding h by simp
  then show ?thesis by (subst inet_chksum_ones) (simp, simp only: not_of_nat_65535)
qed

section \<open>Delivering a packet to the link\<close>

text \<open>What appending a packet does to the packets of the queue: at most one is dropped, the oldest.\<close>

definition kept :: "addr list list \<Rightarrow> addr list list" where
  "kept pss = (if length pss < PBUF_QUEUE_LENGTH then pss else tl pss)"

definition dropped :: "addr list list \<Rightarrow> addr set" where
  "dropped pss = (if length pss < PBUF_QUEUE_LENGTH then {} else set (hd pss))"

lemma kept_subset: "set (concat (kept pss)) \<subseteq> set (concat pss)" "dropped pss \<subseteq> set (concat pss)"
  by (cases pss; auto simp: kept_def dropped_def PBUF_QUEUE_LENGTH_def)+

lemma kept_dropped: "distinct (concat pss) \<Longrightarrow> set (concat (kept pss)) \<inter> dropped pss = {}"
  by (cases pss) (auto simp: kept_def dropped_def)

lemma pbuf_queue_append_kept:
  assumes q: "queue_owns h q pss"
  obtains q' where "pbuf_queue_append q [Some a] h = Some (q', without h (dropped pss))" "queue_inv q'"
    "\<forall>h' as. same_on (set (concat (kept pss))) h h' \<longrightarrow> owns h' a as \<longrightarrow> set as \<inter> set (concat pss) = {}
       \<longrightarrow> queue_owns h' q' (kept pss @ [as])"
proof -
  have i: "queue_inv q" and l2: "list_all2 (owns h) (queue_contents q) pss" and d: "distinct (concat pss)"
    using q by (simp_all add: queue_owns_def)
  note r = queue_inv_rep [OF i]
  have len: "length (queue_contents q) = length pss" using l2 by (rule list_all2_lengthD)
  obtain old q' where p: "pbuf_queue_put q (Some a) = (old, q')" by fastforce
  have le: "length pss \<le> PBUF_QUEUE_LENGTH" using r len by (simp add: queue_rep_def)
  let ?k = "if length pss < PBUF_QUEUE_LENGTH then queue_contents q else tl (queue_contents q)"
  have run: "pbuf_queue_append q [Some a] h = Some (q', without h (dropped pss)) \<and> queue_contents q' = ?k @ [a] \<and> queue_inv q'"
  proof (cases "length pss < PBUF_QUEUE_LENGTH")
    case True
    then show ?thesis using queue_put_room [OF r _ p] p len queue_rep_contents by (simp add: dropped_def)
  next
    case False
    then have full: "length (queue_contents q) = PBUF_QUEUE_LENGTH" using le len by simp
    then obtain y ys where c: "queue_contents q = y # ys" by (cases "queue_contents q") (auto simp: PBUF_QUEUE_LENGTH_def)
    then obtain ps pss' where ps: "pss = ps # pss'" "owns h y ps" using l2 by (auto simp: list_all2_Cons1)
    note R = queue_put_full [OF r [unfolded c] full [unfolded c] p]
    show ?thesis
      using False p c R(1) owns_free [OF ps(2)] queue_rep_contents [OF R(2)] ps(1) by (simp add: dropped_def del: map_option_eq_Some)
  qed
  have k: "list_all2 (owns h) ?k (kept pss)"
    using l2 by (cases pss) (auto simp: kept_def list_all2_Cons2)
  have dk: "distinct (concat (kept pss))" using d by (cases pss) (auto simp: kept_def)
  have "\<forall>h' as. same_on (set (concat (kept pss))) h h' \<longrightarrow> owns h' a as \<longrightarrow> set as \<inter> set (concat pss) = {}
      \<longrightarrow> queue_owns h' q' (kept pss @ [as])"
  proof (intro allI impI)
    fix h' as
    assume s: "same_on (set (concat (kept pss))) h h'" and o: "owns h' a as" and disj: "set as \<inter> set (concat pss) = {}"
    have "list_all2 (owns h') (?k @ [a]) (kept pss @ [as])"
      using list_all2_owns_same [OF k s] o by (simp add: list_all2_appendI)
    moreover have "distinct as" using o chain_distinct by (auto simp: owns_def packet_def)
    moreover have "set as \<inter> set (concat (kept pss)) = {}" using disj kept_subset(1) [of pss] by blast
    ultimately have "list_all2 (owns h') (queue_contents q') (kept pss @ [as])" "distinct (concat (kept pss @ [as]))"
      using run dk by auto
    then show "queue_owns h' q' (kept pss @ [as])" using run by (simp add: queue_owns_def)
  qed
  with run that show thesis by blast
qed

lemma owns_head: "owns h a as \<Longrightarrow> \<exists>pb bs. hp_pbufs h a = Some pb \<and> pb_ref pb = 1 \<and> src_ok pb \<and> as = a # bs"
  unfolding owns_def by (elim conjE packet_Some) (auto simp: sole_def)

text \<open>A link that is attached, with the packets waiting to be read.\<close>

definition link_ready :: "stack \<Rightarrow> addr \<Rightarrow> link_t \<Rightarrow> addr list list \<Rightarrow> bool" where
  "link_ready s c lk pss \<longleftrightarrow> nif_output (st_global_if s) = Some fn_global_if_output \<and> st_output_func s = Some fn_if_output
     \<and> st_output_context s = Some c \<and> st_links s c = Some lk \<and> queue_owns (st_heap s) (lk_rx lk) pss"

text \<open>
  The output function takes a reference of its own; when the sender drops its reference, the packet
  belongs to the queue of the link.
\<close>

lemma netif_output_link:
  assumes l: "link_ready s c lk pss" and o: "owns (st_heap s) a as" and dj: "set as \<inter> set (concat pss) = {}"
  obtains s' rx where "netif_output global_if (Some a) d s = Some (ERR_OK, s')"
    "s' = s\<lparr>st_heap := st_heap s', st_links := (st_links s)(c \<mapsto> lk\<lparr>lk_rx := rx\<rparr>)\<rparr>"
    "st_pbuf_free (Some a) s' = Some (s'\<lparr>st_heap := without (st_heap s) (dropped pss)\<rparr>)"
    "queue_owns (without (st_heap s) (dropped pss)) rx (kept pss @ [as])"
    "owns (without (st_heap s) (dropped pss)) a as"
proof -
  let ?h = "st_heap s"
  obtain pb bs where pb: "hp_pbufs ?h a = Some pb" "pb_ref pb = 1" "src_ok pb" "as = a # bs"
    using owns_head [OF o] by blast
  let ?h1 = "put_pbuf ?h a (pb\<lparr>pb_ref := 2\<rparr>)"
  have na: "a \<notin> set (concat pss)" using dj pb(4) by auto
  have q1: "queue_owns ?h1 (lk_rx lk) pss"
  proof -
    have "same_on (set (concat pss)) ?h ?h1" using na by (intro same_on_put_pbuf) simp
    then show ?thesis
      using l list_all2_owns_same [of ?h "queue_contents (lk_rx lk)" pss _ ?h1] by (auto simp: link_ready_def queue_owns_def)
  qed
  obtain rx where rx: "pbuf_queue_append (lk_rx lk) [Some a] ?h1 = Some (rx, without ?h1 (dropped pss))"
    and own: "\<forall>h' as. same_on (set (concat (kept pss))) ?h1 h' \<longrightarrow> owns h' a as \<longrightarrow> set as \<inter> set (concat pss) = {}
       \<longrightarrow> queue_owns h' rx (kept pss @ [as])"
    using pbuf_queue_append_kept [OF q1, where a = a] by metis
  let ?s' = "s\<lparr>st_heap := without ?h1 (dropped pss), st_links := (st_links s)(c \<mapsto> lk\<lparr>lk_rx := rx\<rparr>)\<rparr>"
  let ?h2 = "without ?h (dropped pss)"
  have "pbuf_ref (Some a) ?h = Some ?h1" using pbuf_ref_spec [OF pb(1)] pb(2) by simp
  then have out: "netif_output global_if (Some a) d s = Some (ERR_OK, ?s')"
    using l rx
    by (simp add: netif_output_def netif_at_def link_ready_def global_if_output_def on_heap'_def if_output_def
        del: pbuf_queue_append.simps)
  have nd: "a \<notin> dropped pss" using na kept_subset(2) by auto
  then have live: "hp_pbufs (without ?h1 (dropped pss)) a = Some (pb\<lparr>pb_ref := 2\<rparr>)" by simp
  have bk: "put_pbuf (without ?h1 (dropped pss)) a pb = ?h2"
    using nd pb(1) by (auto simp: put_pbuf_def without_def restrict_map_def fun_eq_iff)
  have e: "(pb\<lparr>pb_ref := 2\<rparr>)\<lparr>pb_ref := 1\<rparr> = pb" using pb(2) by (cases pb) simp
  have "pbuf_free (Some a) (without ?h1 (dropped pss)) = Some (0, ?h2)"
    using pbuf_free_loop_step [OF live] pb(3) bk e by (simp add: pbuf_free_def)
  then have fr: "st_pbuf_free (Some a) ?s' = Some (?s'\<lparr>st_heap := ?h2\<rparr>)" by (simp add: st_pbuf_free_def on_heap'_def)
  have dd: "set as \<inter> dropped pss = {}" using dj kept_subset(2) [of pss] by auto
  then have o2: "owns ?h2 a as" by (intro owns_same [OF o, of "- dropped pss"]) (auto simp: same_on_def)
  have ds: "distinct (concat pss)" using l by (simp add: link_ready_def queue_owns_def)
  have "same_on (set (concat (kept pss))) ?h1 ?h2"
    using na kept_subset(1) [of pss] kept_dropped [OF ds] unfolding same_on_def by (auto simp: restrict_map_def simp del: set_concat)
  with own o2 dj have "queue_owns ?h2 rx (kept pss @ [as])" by blast
  from that [OF out _ fr this o2] show thesis by simp
qed

section \<open>Sending an IP packet\<close>

text \<open>The allocator and the mailbox are the same in both heaps.\<close>

definition same_env :: "heap \<Rightarrow> heap \<Rightarrow> bool" where
  "same_env h h' \<longleftrightarrow> h'\<lparr>hp_pbufs := Map.empty, hp_blocks := Map.empty\<rparr> = h\<lparr>hp_pbufs := Map.empty, hp_blocks := Map.empty\<rparr>"

lemma same_env_refl [simp]: "same_env h h"
  by (simp add: same_env_def)

lemma same_env_trans: "same_env h h' \<Longrightarrow> same_env h' h'' \<Longrightarrow> same_env h h''"
  by (simp add: same_env_def)

lemma same_env_shape: "same_shape h h' \<Longrightarrow> same_env h h'"
  by (simp add: same_env_def same_shape_def)

lemma same_env_pbufs: "h'\<lparr>hp_pbufs := Map.empty\<rparr> = h\<lparr>hp_pbufs := Map.empty\<rparr> \<Longrightarrow> same_env h h'"
  by (cases h, cases h') (simp add: same_env_def)

lemma same_env_without [simp]: "same_env h (without h A)"
  by (simp add: same_env_def without_def)

text \<open>The header that \<open>ip4_output_if_src\<close> puts in front of \<open>n\<close> bytes of data.\<close>

definition ip_header :: "nat \<Rightarrow> u16 \<Rightarrow> u8 \<Rightarrow> u8 \<Rightarrow> u8 \<Rightarrow> u32 \<Rightarrow> u32 \<Rightarrow> byte list" where
  "ip_header n ident tos ttl proto src dest =
     (let len = lwip_htons (of_nat (20 + n)); i = lwip_htons ident in
      ip_hdr 0x45 tos len i 0 ttl proto (ip_chksum_inline 0x45 tos len i ttl proto src dest) src dest)"

lemma length_ip_header [simp]: "length (ip_header n ident tos ttl proto src dest) = 20"
  by (simp add: ip_header_def Let_def)

lemma ip_header_fields:
  "ip_header n ident tos ttl proto src d ! 0 = 0x45" "ip_header n ident tos ttl proto src d ! 8 = ttl"
  "ip_header n ident tos ttl proto src d ! 9 = proto" "inet_chksum False (ip_header n ident tos ttl proto src d) = 0"
  "seg 2 2 (ip_header n ident tos ttl proto src d) = bytes_u16 (lwip_htons (of_nat (20 + n)))"
  "seg 12 4 (ip_header n ident tos ttl proto src d) = bytes_u32 src" "seg 16 4 (ip_header n ident tos ttl proto src d) = bytes_u32 d"
  by (simp_all add: ip_header_def Let_def ip_hdr_verifies) (simp_all add: ip_hdr_def bytes_u16_def bytes_u32_def seg_def)

lemma owns_write:
  assumes o: "owns h a (a # as)" and n: "length ys \<le> unat (pb_len (the_pbuf h a))"
  obtains h' where "mem_write h (pb_payload (the_pbuf h a)) 0 ys = Some h'" "owns h' a (a # as)"
    "pbytes h' (a # as) = ys @ drop (length ys) (pbytes h (a # as))" "same_shape h h'" "same_on (- {a}) h h'"
proof -
  have pk: "packet h (Some a) (a # as)" using o by (simp add: owns_def)
  then have ow: "owned h a" by (simp add: packet_def)
  obtain h' where w: "mem_write h (pb_payload (the_pbuf h a)) 0 ys = Some h'" "same_shape h h'" "owned h' a"
      "pdata h' a = splice_at 0 ys (pdata h a)" "same_on (- {a}) h h'"
    using mem_write_owned [OF ow, of 0 ys] n by auto
  have na: "a \<notin> set as" using chain_distinct [OF packet_chain [OF pk]] by simp
  have oas: "list_all (owned h) as" using pk by (simp add: packet_def)
  have so: "list_all (owned h') as" using oas na owned_same [OF w(5)] unfolding list_all_iff by (metis ComplI singletonD)
  have pas: "pbytes h' as = pbytes h as"
    using oas na by (intro pbytes_cong) (auto simp: list_all_iff intro: pdata_same [OF w(5)])
  have "packet h' (Some a) (a # as)"
    using pk so w(3) same_shape_chain [OF w(2), of "Some a" "a # as"] same_shape_tot_ok [OF w(2), of "a # as"]
    by (simp add: packet_def)
  moreover have "list_all (sole h') (a # as)" using o w(2) by (simp add: owns_def sole_def same_shape_def list_all_iff)
  moreover have "length ys \<le> length (pdata h a)" using n length_pdata [OF owned_readable [OF ow]] by simp
  ultimately show thesis
    using that [OF w(1) _ _ w(2,5)] w(4) pas by (simp add: owns_def splice_at_def)
qed

lemma ip4_output_if_src_sends:
  assumes l: "link_ready s c lk pss" and o: "owns (st_heap s) a (a # as)" and dj: "set (a # as) \<inter> set (concat pss) = {}"
    and pl: "pb_payload (the_pbuf (st_heap s) a) = Some (a, off)" "contiguous_data (the_pbuf (st_heap s) a)"
    and n: "20 \<le> off" "20 + length (pbytes (st_heap s) (a # as)) < 65536"
  obtains s' h rx where "ip4_output_if_src a src (Some d) ttl tos proto global_if s = Some (ERR_OK, s')"
    "st_pbuf_free (Some a) s' = Some (s\<lparr>st_heap := h, st_ip_id := st_ip_id s + 1, st_links := (st_links s)(c \<mapsto> lk\<lparr>lk_rx := rx\<rparr>)\<rparr>)"
    "queue_owns h rx (kept pss @ [a # as])" "same_on (- ({a} \<union> dropped pss)) (st_heap s) h" "same_env (st_heap s) h"
    "pbytes h (a # as) = ip_header (length (pbytes (st_heap s) (a # as))) (st_ip_id s) tos ttl proto
       (case src of None \<Rightarrow> IPADDR_ANY | Some x \<Rightarrow> x) d @ pbytes (st_heap s) (a # as)"
proof -
  let ?h = "st_heap s"
  have pk: "packet ?h (Some a) (a # as)" and so: "list_all (sole ?h) (a # as)" using o by (simp_all add: owns_def)
  obtain h1 bs where h1: "pbuf_add_header (Some a) 20 ?h = Some (0, h1)" "packet h1 (Some a) (a # as)"
      "pbytes h1 (a # as) = seg (off - 20) 20 bs @ pbytes ?h (a # as)" "same_on (- {a}) ?h h1"
      "list_all (sole h1) (a # as)" "unat (pb_len (the_pbuf h1 a)) = unat (pb_len (the_pbuf ?h a)) + 20" "same_env ?h h1"
      "hp_blocks ?h a = Some bs"
    using pbuf_add_header_spec [OF pk pl n] so same_env_pbufs by metis
  have o1: "owns h1 a (a # as)" using h1(2,5) by (simp add: owns_def)
  obtain pb1 where pb1: "hp_pbufs h1 a = Some pb1" "unat (pb_tot_len pb1) = length (pbytes h1 (a # as))"
    using packet_Some [OF h1(2)] by auto
  let ?n = "length (pbytes ?h (a # as))"
  obtain pb bs' where pb: "hp_pbufs ?h a = Some pb" "pb_ref pb = 1" using owns_head [OF o] by blast
  have "owned ?h a" using pk by (simp add: packet_def)
  then have lb: "off \<le> length bs" using pl(1) h1(8) by (auto simp: owned_def the_pbuf_def)
  have tot: "pb_tot_len pb1 = of_nat (20 + ?n)"
    using pb1(2) h1(3) n lb unat_of_nat_u16 [of "20 + ?n"] unfolding u16_eq_unat by (simp del: pbytes_simps of_nat_add)
  let ?hd = "ip_header ?n (st_ip_id s) tos ttl proto (case src of None \<Rightarrow> IPADDR_ANY | Some x \<Rightarrow> x) d"
  have len20: "length ?hd \<le> unat (pb_len (the_pbuf h1 a))" using h1(6) by simp
  obtain h2 where h2: "mem_write h1 (pb_payload (the_pbuf h1 a)) 0 ?hd = Some h2" "owns h2 a (a # as)"
      "pbytes h2 (a # as) = ?hd @ drop 20 (pbytes h1 (a # as))" "same_shape h1 h2" "same_on (- {a}) h1 h2"
    using owns_write [OF o1 len20] by auto
  let ?s = "s\<lparr>st_heap := h2, st_ip_id := st_ip_id s + 1\<rparr>"
  have s2: "same_on (- {a}) ?h h2" using same_on_trans [OF h1(4) h2(5)] .
  have na: "a \<notin> set (concat pss)" using dj by auto
  have "list_all2 (owns h2) (queue_contents (lk_rx lk)) pss"
    using list_all2_owns_same [OF _ s2, of "queue_contents (lk_rx lk)" pss] na l by (auto simp: link_ready_def queue_owns_def)
  then have "link_ready ?s c lk pss" using l by (simp add: link_ready_def queue_owns_def)
  from netif_output_link [OF this, of a "a # as" d] h2(2) dj
  obtain s' rx where s': "netif_output global_if (Some a) d ?s = Some (ERR_OK, s')"
      "s' = ?s\<lparr>st_heap := st_heap s', st_links := (st_links s)(c \<mapsto> lk\<lparr>lk_rx := rx\<rparr>)\<rparr>"
      "st_pbuf_free (Some a) s' = Some (s'\<lparr>st_heap := without h2 (dropped pss)\<rparr>)"
      "queue_owns (without h2 (dropped pss)) rx (kept pss @ [a # as])" "owns (without h2 (dropped pss)) a (a # as)"
    by auto
  let ?h3 = "without h2 (dropped pss)"
  have "push_bit 4 4 OR 5 = (0x45 :: u8)" by simp
  then have run: "ip4_output_if_src a src (Some d) ttl tos proto global_if s = Some (ERR_OK, s')"
    using pb h1(1,6) pb1(1) tot h2(1) s'(1)
    by (simp add: ip4_output_if_src_def on_heap_def on_heap'_def IP_HLEN_def ip_header_def Let_def)
  have fr: "st_pbuf_free (Some a) s' = Some (s\<lparr>st_heap := ?h3, st_ip_id := st_ip_id s + 1, st_links := (st_links s)(c \<mapsto> lk\<lparr>lk_rx := rx\<rparr>)\<rparr>)"
    unfolding s'(3) by (subst s'(2)) simp
  have dd: "set (a # as) \<inter> dropped pss = {}" using dj kept_subset(2) [of pss] by auto
  have sw: "same_on (- dropped pss) h2 ?h3" by (simp add: same_on_def)
  have "pbytes ?h3 (a # as) = pbytes h2 (a # as)"
    using packet_same(2) [OF _ sw, of "Some a" "a # as"] h2(2) dd by (auto simp: owns_def)
  also have "\<dots> = ?hd @ pbytes ?h (a # as)" using h2(3) h1(3) lb n by (simp del: pbytes_simps)
  finally have byt: "pbytes ?h3 (a # as) = ?hd @ pbytes ?h (a # as)" .
  have "same_on (- ({a} \<union> dropped pss)) ?h ?h3"
    by (rule same_on_trans [of _ _ h2], rule same_on_subset [OF s2], simp, rule same_on_subset [OF sw]) auto
  moreover have "same_env ?h ?h3" using same_env_trans [OF h1(7) same_env_trans [OF same_env_shape [OF h2(4)] same_env_without]] .
  ultimately show thesis using that [OF run fr s'(4)] byt by blast
qed

section \<open>Properties\<close>

text \<open>A packet of three bytes with 24 bytes of room in front of it, and a link to send it to.\<close>

definition ex_out :: stack where
  "ex_out = (stack_zero \<lparr>hp_pbufs = [1 \<mapsto> ex_pbuf None (1, 24) 3 3 1],
       hp_blocks = [1 \<mapsto> replicate 24 0 @ [1, 2, 3]], hp_msgs = Map.empty, hp_mbox = sys_mbox_new (replicate 128 0),
       hp_ooseq_pending = False, hp_brk = 8, hp_oom = (\<lambda>_. False), hp_junk = (\<lambda>_ _. 0)\<rparr>)
     \<lparr>st_global_if := netif_zero\<lparr>nif_output := Some fn_global_if_output\<rparr>, st_output_func := Some fn_if_output,
      st_output_context := Some 7,
      st_links := [7 \<mapsto> \<lparr>lk_rx = pbuf_queue_zero, lk_tx = pbuf_queue_zero, lk_tx_polling = False, lk_closed = False, lk_mtu = 1500\<rparr>]\<rparr>"

lemma ex_out_ready:
  "link_ready ex_out 7 (the (st_links ex_out 7)) []" "owns (st_heap ex_out) 1 [1]"
  "pb_payload (the_pbuf (st_heap ex_out) 1) = Some (1, 24)" "contiguous_data (the_pbuf (st_heap ex_out) 1)"
  "pbytes (st_heap ex_out) [1] = [1, 2, 3]"
proof -
  show "link_ready ex_out 7 (the (st_links ex_out 7)) []"
    using queue_rep_contents [OF queue_zero] by (simp add: link_ready_def ex_out_def queue_owns_def)
  show p: "pb_payload (the_pbuf (st_heap ex_out) 1) = Some (1, 24)" "contiguous_data (the_pbuf (st_heap ex_out) 1)"
    by (simp_all add: ex_out_def ex_pbuf_def the_pbuf_def stack_zero_def contiguous_data_def PBUF_TYPE_FLAG_STRUCT_DATA_CONTIGUOUS_def)
  have "owned (st_heap ex_out) 1" by (simp add: ex_out_def ex_pbuf_def stack_zero_def owned_def)
  moreover have "src_ok (the_pbuf (st_heap ex_out) 1)"
    by (simp add: ex_out_def ex_pbuf_def the_pbuf_def stack_zero_def src_ok_def pbuf_get_allocsrc_def PBUF_TYPE_ALLOC_SRC_MASK_def
        PBUF_TYPE_ALLOC_SRC_MASK_STD_HEAP_def)
  ultimately show "owns (st_heap ex_out) 1 [1]"
    by (simp add: owns_def packet_def sole_def ex_out_def ex_pbuf_def stack_zero_def the_pbuf_def)
  show "pbytes (st_heap ex_out) [1] = [1, 2, 3]"
    by (simp add: pdata_def mem_read_def the_pbuf_def ex_out_def ex_pbuf_def stack_zero_def seg_def)
qed

text \<open>C23: a packet that the sender owns, with room for a header, reaches the link: \<open>ip4_output_if_src\<close>
  returns \<open>ERR_OK\<close>, and once the sender has dropped its reference the packet is the last one in the queue that
  \<open>link_read\<close> empties (when the queue was full its oldest packet has been released), it consists of a
  20-byte header followed by the data of the sender, the header has version, addresses, protocol and
  the total length in their places, and its checksum is the one a receiver accepts.\<close>

theorem ip4_output_if_src_delivers:
  assumes "link_ready s c lk pss" "owns (st_heap s) a (a # as)" "set (a # as) \<inter> set (concat pss) = {}"
    and "pb_payload (the_pbuf (st_heap s) a) = Some (a, off)" "contiguous_data (the_pbuf (st_heap s) a)"
    and "20 \<le> off" "20 + length (pbytes (st_heap s) (a # as)) < 65536"
  shows "\<exists>s' s'' rx hdr. ip4_output_if_src a (Some src) (Some d) ttl tos proto global_if s = Some (ERR_OK, s')
    \<and> st_pbuf_free (Some a) s' = Some s'' \<and> st_links s'' c = Some (lk\<lparr>lk_rx := rx\<rparr>)
    \<and> queue_owns (st_heap s'') rx (kept pss @ [a # as])
    \<and> pbytes (st_heap s'') (a # as) = hdr @ pbytes (st_heap s) (a # as)
    \<and> length hdr = 20 \<and> hdr ! 0 = 0x45 \<and> hdr ! 8 = ttl \<and> hdr ! 9 = proto
    \<and> seg 2 2 hdr = bytes_u16 (lwip_htons (of_nat (20 + length (pbytes (st_heap s) (a # as)))))
    \<and> seg 12 4 hdr = bytes_u32 src \<and> seg 16 4 hdr = bytes_u32 d \<and> inet_chksum False hdr = 0"
proof -
  let ?hd = "ip_header (length (pbytes (st_heap s) (a # as))) (st_ip_id s) tos ttl proto src d"
  obtain s' h rx where r: "ip4_output_if_src a (Some src) (Some d) ttl tos proto global_if s = Some (ERR_OK, s')"
      "st_pbuf_free (Some a) s' = Some (s\<lparr>st_heap := h, st_ip_id := st_ip_id s + 1, st_links := (st_links s)(c \<mapsto> lk\<lparr>lk_rx := rx\<rparr>)\<rparr>)"
      "queue_owns h rx (kept pss @ [a # as])" "pbytes h (a # as) = ?hd @ pbytes (st_heap s) (a # as)"
    using ip4_output_if_src_sends [OF assms, of "Some src" d ttl tos proto] unfolding option.case by blast
  show ?thesis
    by (rule exI [of _ s'], rule exI, rule exI [of _ rx], rule exI [of _ ?hd], intro conjI, rule r(1), rule r(2))
      (simp_all del: pbytes_simps of_nat_add add: ip_header_fields r(3,4))
qed

theorem ip4_output_if_src_delivers_witness:
  "\<exists>s' s'' hdr. ip4_output_if_src 1 (Some 5) (Some 6) 255 0 17 global_if ex_out = Some (ERR_OK, s')
    \<and> st_pbuf_free (Some 1) s' = Some s'' \<and> pbytes (st_heap s'') [1] = hdr @ [1, 2, 3]
    \<and> seg 2 2 hdr = bytes_u16 (lwip_htons 23) \<and> inet_chksum False hdr = 0"
  using ip4_output_if_src_delivers [of ex_out 7 _ "[]" 1 "[]" 24 5 6 255 0 17, OF ex_out_ready(1,2) _ ex_out_ready(3,4)]
  unfolding ex_out_ready(5) by (auto simp del: pbytes_simps)

text \<open>C35: what the sending functions refuse, they refuse without touching anything: \<open>ERR_RTE\<close> when there is no
  default interface, when it or its link is down and for loopback addresses; \<open>ERR_BUF\<close> when there is no room
  for the header in front of the data, and when a packet that should bring its own header is shorter
  than one.\<close>

theorem ip4_output_errors:
  assumes "hp_pbufs (st_heap s) p = Some pb" "pb_ref pb = 1"
  shows "(st_netif_default s = None \<or> \<not> netif_is_up (st_global_if s) \<or> \<not> netif_is_link_up (st_global_if s) \<or> ip4_addr_isloopback dest
      \<longrightarrow> ip4_output p src dest ttl tos proto s = Some (ERR_RTE, s))
    \<and> (\<forall>off. pb_payload pb = Some (p, off) \<and> contiguous_data pb \<and> off < 20
      \<longrightarrow> ip4_output_if_src p src (Some dest) ttl tos proto netif s = Some (ERR_BUF, s))
    \<and> (unat (pb_len pb) < 20 \<longrightarrow> ip4_output_if_src p src None ttl tos proto netif s = Some (ERR_BUF, s))"
proof (intro conjI allI impI)
  assume "st_netif_default s = None \<or> \<not> netif_is_up (st_global_if s) \<or> \<not> netif_is_link_up (st_global_if s) \<or> ip4_addr_isloopback dest"
  then have "ip4_route dest s = None"
    by (auto simp: ip4_route_def netif_at_def split: option.splits netif_ptr.splits)
  then show "ip4_output p src dest ttl tos proto s = Some (ERR_RTE, s)" using assms by (simp add: ip4_output_def)
next
  fix off
  assume "pb_payload pb = Some (p, off) \<and> contiguous_data pb \<and> off < 20"
  then have "pbuf_add_header (Some p) 20 (st_heap s) = Some (1, st_heap s)"
    using pbuf_add_header_no_room [OF assms(1)] by simp
  then show "ip4_output_if_src p src (Some dest) ttl tos proto netif s = Some (ERR_BUF, s)"
    using assms by (simp add: ip4_output_if_src_def on_heap_def IP_HLEN_def)
next
  assume "unat (pb_len pb) < 20"
  then show "ip4_output_if_src p src None ttl tos proto netif s = Some (ERR_BUF, s)"
    using assms by (simp add: ip4_output_if_src_def IP_HLEN_def)
qed

theorem ip4_output_errors_witness:
  "ip4_output 1 None 6 255 0 17 ex_out = Some (ERR_RTE, ex_out)
    \<and> ip4_output_if_src 1 None None 255 0 17 global_if ex_out = Some (ERR_BUF, ex_out)"
proof -
  obtain pb where pb: "hp_pbufs (st_heap ex_out) 1 = Some pb" "pb_ref pb = 1" "pb_len pb = 3" "st_netif_default ex_out = None"
    by (simp add: ex_out_def stack_zero_def ex_pbuf_def)
  show ?thesis using ip4_output_errors [OF pb(1,2)] pb(3,4) by simp
qed

end
