(* ===== verification/Icmp.thy ===== *)
theory Icmp
  imports Ip4_Out
begin

unbundle bit_operations_syntax

text \<open>
  ICMP (\<open>lwip/core/ipv4/icmp.c\<close>): answering echo requests and telling senders that a protocol or a port
  is not reachable.  Echo requests to broadcast and multicast addresses are dropped in this build
  (\<open>LWIP_BROADCAST_PING = LWIP_MULTICAST_PING = 0\<close>), and before an echo is answered the packet is checked
  for room for a link header (\<open>LWIP_ICMP_ECHO_CHECK_INPUT_PBUF_LEN = 1\<close>).
\<close>

definition ICMP_ER :: u8 where "ICMP_ER = 0"
definition ICMP_DUR :: u8 where "ICMP_DUR = 3"
definition ICMP_ECHO :: u8 where "ICMP_ECHO = 8"
definition ICMP_TTL :: u8 where "ICMP_TTL = 255"
definition PBUF_LINK_HLEN :: nat where "PBUF_LINK_HLEN = 14"
definition ICMP_DEST_UNREACH_DATASIZE :: nat where "ICMP_DEST_UNREACH_DATASIZE = 8"

datatype icmp_dur_type = ICMP_DUR_NET | ICMP_DUR_HOST | ICMP_DUR_PROTO | ICMP_DUR_PORT | ICMP_DUR_FRAG | ICMP_DUR_SR

definition icmp_dur_val :: "icmp_dur_type \<Rightarrow> u8" where
  "icmp_dur_val t = (case t of ICMP_DUR_NET \<Rightarrow> 0 | ICMP_DUR_HOST \<Rightarrow> 1 | ICMP_DUR_PROTO \<Rightarrow> 2 | ICMP_DUR_PORT \<Rightarrow> 3
     | ICMP_DUR_FRAG \<Rightarrow> 4 | ICMP_DUR_SR \<Rightarrow> 5)"

text \<open>\<open>ip4_addr_isbroadcast\<close> looks at the interface only for addresses that are not all ones or zero.\<close>

definition ip4_addr_isbroadcast :: "ip4_addr_t \<Rightarrow> netif_ptr option \<Rightarrow> stack \<Rightarrow> bool option" where
  "ip4_addr_isbroadcast a netif s =
     (if NOT a = IPADDR_ANY \<or> a = IPADDR_ANY then Some True
      else do { n \<leftarrow> netif; Some (ip4_addr_isbroadcast_u32 a (netif_at s n)) })"

text \<open>A write into the packet at a pointer.\<close>

definition st_write :: "ptr option \<Rightarrow> nat \<Rightarrow> byte list \<Rightarrow> stack \<Rightarrow> stack option" where
  "st_write p off bs s = on_heap' (\<lambda>h. mem_write h p off bs) s"

section \<open>Error messages\<close>

definition icmp_send_response :: "addr \<Rightarrow> u8 \<Rightarrow> u8 \<Rightarrow> stack \<Rightarrow> stack option" where
  "icmp_send_response p type code s = do {
     (q, s) \<leftarrow> on_heap (pbuf_alloc PBUF_IP (of_nat (8 + IP_HLEN + ICMP_DEST_UNREACH_DATASIZE)) PBUF_RAM) s;
     case q of
       None \<Rightarrow> Some s
     | Some q \<Rightarrow> do {
         qb \<leftarrow> hp_pbufs (st_heap s) q;
         lwip_assert (unat (pb_len qb) \<ge> 8 + IP_HLEN + ICMP_DEST_UNREACH_DATASIZE);
         pb \<leftarrow> hp_pbufs (st_heap s) p;
         let iphdr = pb_payload pb;
         let icmphdr = pb_payload qb;
         s \<leftarrow> st_write icmphdr 0 [type, code] s;
         s \<leftarrow> st_write icmphdr 4 [0, 0, 0, 0] s;
         bs \<leftarrow> mem_read (st_heap s) iphdr 0 (IP_HLEN + ICMP_DEST_UNREACH_DATASIZE);
         s \<leftarrow> st_write icmphdr 8 bs s;
         iphdr_src \<leftarrow> read_u32 (st_heap s) iphdr 12;
         s \<leftarrow> (case ip4_route iphdr_src s of
             None \<Rightarrow> Some s
           | Some netif \<Rightarrow> do {
               s \<leftarrow> st_write icmphdr 2 [0, 0] s;
               ys \<leftarrow> mem_read (st_heap s) icmphdr 0 (unat (pb_len qb));
               s \<leftarrow> st_write icmphdr 2 (bytes_u16 (inet_chksum (payload_odd icmphdr) ys)) s;
               (_, s) \<leftarrow> ip4_output_if q None (Some iphdr_src) ICMP_TTL 0 IP_PROTO_ICMP netif s;
               Some s
             });
         st_pbuf_free (Some q) s
       }
   }"

definition icmp_dest_unreach :: "addr \<Rightarrow> icmp_dur_type \<Rightarrow> stack \<Rightarrow> stack option" where
  "icmp_dest_unreach p t s = icmp_send_response p ICMP_DUR (icmp_dur_val t) s"

section \<open>Echo requests\<close>

text \<open>
  Room for the link header: the packet itself, or a copy with the IP header in front of it when there is
  no room; no packet is the jump to \<open>icmperr\<close>.
\<close>

definition icmp_echo_room :: "addr \<Rightarrow> nat \<Rightarrow> stack \<Rightarrow> (addr option \<times> stack) option" where
  "icmp_echo_room p hlen s = do {
     (e, s) \<leftarrow> on_heap (pbuf_add_header (Some p) (hlen + PBUF_LINK_HLEN)) s;
     if e \<noteq> 0 then do {
       pb \<leftarrow> hp_pbufs (st_heap s) p;
       let alloc_len = pb_tot_len pb + of_nat hlen;
       if alloc_len < pb_tot_len pb then Some (None, s)
       else do {
         (r, s) \<leftarrow> on_heap (pbuf_alloc PBUF_LINK alloc_len PBUF_RAM) s;
         case r of
           None \<Rightarrow> Some (None, s)
         | Some r \<Rightarrow> do {
             rb \<leftarrow> hp_pbufs (st_heap s) r;
             if unat (pb_len rb) < hlen + 8 then do { s \<leftarrow> st_pbuf_free (Some r) s; Some (None, s) }
             else do {
               bs \<leftarrow> mem_read (st_heap s) (current_ip4_header (st_ip_data s)) 0 hlen;
               s \<leftarrow> st_write (pb_payload rb) 0 bs s;
               (e, s) \<leftarrow> on_heap (pbuf_remove_header (Some r) hlen) s;
               lwip_assert (e = 0);
               (e, s) \<leftarrow> on_heap (pbuf_copy (Some r) (Some p)) s;
               if e \<noteq> ERR_OK then do { s \<leftarrow> st_pbuf_free (Some r) s; Some (None, s) }
               else do { s \<leftarrow> st_pbuf_free (Some p) s; Some (Some r, s) }
             }
           }
       }
     } else do {
       (e, s) \<leftarrow> on_heap (pbuf_remove_header (Some p) (hlen + PBUF_LINK_HLEN)) s;
       lwip_assert (e = 0);
       Some (Some p, s)
     }
   }"

text \<open>The checksum after the type has changed from 8 to 0.\<close>

definition echo_chksum :: "u16 \<Rightarrow> u16" where
  "echo_chksum chksum =
     (if chksum > lwip_htons (0xFFFF - push_bit 8 (ucast ICMP_ECHO))
      then chksum + lwip_htons (push_bit 8 (ucast ICMP_ECHO)) + 1
      else chksum + lwip_htons (push_bit 8 (ucast ICMP_ECHO)))"

text \<open>The answer in place: addresses, type, checksum, TTL and the checksum of the IP header.\<close>

definition icmp_echo_rewrite :: "ptr option \<Rightarrow> ptr option \<Rightarrow> nat \<Rightarrow> ip4_addr_t \<Rightarrow> stack \<Rightarrow> stack option" where
  "icmp_echo_rewrite iphdr iecho hlen src s = do {
     s \<leftarrow> st_write iphdr 12 (bytes_u32 src) s;
     s \<leftarrow> st_write iphdr 16 (bytes_u32 (current_iphdr_src (st_ip_data s))) s;
     s \<leftarrow> st_write iecho 0 [ICMP_ER] s;
     chksum \<leftarrow> read_u16 (st_heap s) iecho 2;
     s \<leftarrow> st_write iecho 2 (bytes_u16 (echo_chksum chksum)) s;
     s \<leftarrow> st_write iphdr 8 [ICMP_TTL] s;
     s \<leftarrow> st_write iphdr 10 [0, 0] s;
     bs \<leftarrow> mem_read (st_heap s) iphdr 0 hlen;
     st_write iphdr 10 (bytes_u16 (inet_chksum (payload_odd iphdr) bs)) s
   }"

definition icmp_echo_reply :: "addr \<Rightarrow> nat \<Rightarrow> ip4_addr_t \<Rightarrow> netif_ptr \<Rightarrow> stack \<Rightarrow> stack option" where
  "icmp_echo_reply p hlen src inp s = do {
     pb \<leftarrow> hp_pbufs (st_heap s) p;
     let iecho = pb_payload pb;
     (e, s) \<leftarrow> on_heap (pbuf_add_header (Some p) hlen) s;
     if e \<noteq> 0 then Some s
     else do {
       pb \<leftarrow> hp_pbufs (st_heap s) p;
       s \<leftarrow> icmp_echo_rewrite (pb_payload pb) iecho hlen src s;
       (_, s) \<leftarrow> ip4_output_if p (Some src) None ICMP_TTL 0 IP_PROTO_ICMP inp s;
       Some s
     }
   }"

definition icmp_echo :: "addr \<Rightarrow> nat \<Rightarrow> netif_ptr \<Rightarrow> stack \<Rightarrow> stack option" where
  "icmp_echo p hlen inp s = do {
     let src = current_iphdr_dest (st_ip_data s);
     if ip4_addr_ismulticast src then st_pbuf_free (Some p) s
     else do {
       bc \<leftarrow> ip4_addr_isbroadcast src (current_netif (st_ip_data s)) s;
       if bc then st_pbuf_free (Some p) s
       else do {
         pb \<leftarrow> hp_pbufs (st_heap s) p;
         if unat (pb_tot_len pb) < 8 then st_pbuf_free (Some p) s
         else do {
           c \<leftarrow> inet_chksum_pbuf (Some p) (st_heap s);
           if c \<noteq> 0 then st_pbuf_free (Some p) s
           else do {
             (r, s) \<leftarrow> icmp_echo_room p hlen s;
             case r of
               None \<Rightarrow> st_pbuf_free (Some p) s
             | Some p \<Rightarrow> do { s \<leftarrow> icmp_echo_reply p hlen src inp s; st_pbuf_free (Some p) s }
           }
         }
       }
     }
   }"

definition icmp_input :: "addr \<Rightarrow> netif_ptr \<Rightarrow> stack \<Rightarrow> stack option" where
  "icmp_input p inp s = do {
     v_hl \<leftarrow> read_u8 (st_heap s) (current_ip4_header (st_ip_data s)) 0;
     let hlen = unat (IPH_HL_BYTES v_hl);
     pb \<leftarrow> hp_pbufs (st_heap s) p;
     if hlen < IP_HLEN then st_pbuf_free (Some p) s
     else if unat (pb_len pb) < 4 then st_pbuf_free (Some p) s
     else do {
       type \<leftarrow> read_u8 (st_heap s) (pb_payload pb) 0;
       if type = ICMP_ECHO then icmp_echo p hlen inp s
       else st_pbuf_free (Some p) s
     }
   }"

section \<open>Rewriting the first pbuf of a packet\<close>

text \<open>\<open>h'\<close> differs from \<open>h\<close> in the bytes of the first pbuf only, which are now \<open>xs\<close>.\<close>

definition rewritten :: "heap \<Rightarrow> addr \<Rightarrow> addr list \<Rightarrow> byte list \<Rightarrow> heap \<Rightarrow> bool" where
  "rewritten h a as xs h' \<longleftrightarrow> owns h' a (a # as) \<and> same_shape h h' \<and> same_on (- {a}) h h' \<and> pdata h' a = xs"

lemma rewritten_refl: "owns h a (a # as) \<Longrightarrow> rewritten h a as (pdata h a) h"
  by (simp add: rewritten_def)

lemma owns_owned: "owns h a (a # as) \<Longrightarrow> owned h a"
  by (simp add: owns_def packet_def)

lemma rewritten_len:
  assumes "rewritten h a as xs h'"
  shows "length xs = unat (pb_len (the_pbuf h a))" "the_pbuf h' a = the_pbuf h a"
proof -
  have "owns h' a (a # as)" using assms by (simp add: rewritten_def)
  then have "length (pdata h' a) = unat (pb_len (the_pbuf h' a))" by (intro length_pdata owned_readable owns_owned)
  then show "length xs = unat (pb_len (the_pbuf h a))" "the_pbuf h' a = the_pbuf h a"
    using assms same_shape_the_pbuf [of h h' a] by (auto simp: rewritten_def)
qed

lemma mem_access_shift:
  "off \<le> o1 + k \<Longrightarrow> mem_write h (Some (a, o1)) k ys = mem_write h (Some (a, off)) (o1 + k - off) ys"
  "off \<le> o1 + k \<Longrightarrow> mem_read h (Some (a, o1)) k n = mem_read h (Some (a, off)) (o1 + k - off) n"
proof -
  assume le: "off \<le> o1 + k"
  then have e: "off + (o1 + k - off) = o1 + k" by simp
  show "mem_write h (Some (a, o1)) k ys = mem_write h (Some (a, off)) (o1 + k - off) ys"
    "mem_read h (Some (a, o1)) k n = mem_read h (Some (a, off)) (o1 + k - off) n"
    unfolding mem_write_def mem_read_def bind.bind_lunit prod.case e by (rule refl)+
qed

lemma rewritten_write:
  assumes r: "rewritten h a as xs (st_heap s)" and pl: "pb_payload (the_pbuf h a) = Some (a, off)"
    and le: "off \<le> o1 + k" "o1 + k + length ys \<le> off + length xs"
  obtains h' where "st_write (Some (a, o1)) k ys s = Some (s\<lparr>st_heap := h'\<rparr>)"
    "rewritten h a as (splice_at (o1 + k - off) ys xs) h'"
proof -
  let ?h = "st_heap s"
  have o: "owns ?h a (a # as)" and xs: "pdata ?h a = xs" using r by (simp_all add: rewritten_def)
  note len = rewritten_len [OF r]
  have ub: "o1 + k - off + length ys \<le> unat (pb_len (the_pbuf ?h a))" using le len by simp
  obtain h' where w: "mem_write ?h (pb_payload (the_pbuf ?h a)) (o1 + k - off) ys = Some h'" "same_shape ?h h'" "owned h' a"
      "pdata h' a = splice_at (o1 + k - off) ys (pdata ?h a)" "same_on (- {a}) ?h h'"
    using mem_write_owned [OF owns_owned [OF o] ub] by blast
  have pk: "packet ?h (Some a) (a # as)" using o by (simp add: owns_def)
  have na: "a \<notin> set as" using chain_distinct [OF packet_chain [OF pk]] by simp
  have "list_all (owned h') as"
    using pk na owned_same [OF w(5)] unfolding packet_def list_all_iff by (metis ComplI list.set_intros(2) singletonD)
  then have "packet h' (Some a) (a # as)"
    using pk w(3) same_shape_chain [OF w(2), of "Some a" "a # as"] same_shape_tot_ok [OF w(2), of "a # as"]
    by (simp add: packet_def)
  moreover have "list_all (sole h') (a # as)" using o w(2) by (simp add: owns_def sole_def same_shape_def list_all_iff)
  ultimately have "rewritten h a as (splice_at (o1 + k - off) ys xs) h'"
    using r w(2,4,5) xs by (auto simp: rewritten_def owns_def intro: same_shape_trans same_on_trans)
  moreover have "st_write (Some (a, o1)) k ys s = Some (s\<lparr>st_heap := h'\<rparr>)"
    using w(1) pl len(2) mem_access_shift(1) [OF le(1)] by (simp add: st_write_def on_heap'_def)
  ultimately show thesis using that by blast
qed

lemma rewritten_read:
  assumes r: "rewritten h a as xs h'" and pl: "pb_payload (the_pbuf h a) = Some (a, off)"
    and le: "off \<le> o1 + k" "o1 + k + n \<le> off + length xs"
  shows "mem_read h' (Some (a, o1)) k n = Some (seg (o1 + k - off) n xs)"
proof -
  have o: "owns h' a (a # as)" and xs: "pdata h' a = xs" using r by (simp_all add: rewritten_def)
  note len = rewritten_len [OF r]
  show ?thesis
    using mem_read_pdata [OF owned_readable [OF owns_owned [OF o]], of "o1 + k - off" n] le len pl xs
      mem_access_shift(2) [OF le(1)] by simp
qed

lemma rewritten_pbytes:
  assumes r: "rewritten h a as xs h'" and o: "owns h a (a # as)"
  shows "pbytes h' (a # as) = xs @ pbytes h as"
proof -
  have pk: "packet h (Some a) (a # as)" using o by (simp add: owns_def)
  have na: "a \<notin> set as" using chain_distinct [OF packet_chain [OF pk]] by simp
  have "pbytes h' as = pbytes h as"
  proof (rule pbytes_cong)
    fix x assume "x \<in> set as"
    then show "pdata h' x = pdata h x"
      using r na pk by (intro pdata_same [of "- {a}" h h' x]) (auto simp: rewritten_def packet_def list_all_iff)
  qed
  then show ?thesis using r by (simp add: rewritten_def)
qed

section \<open>The answer to an echo request\<close>

text \<open>The update of the checksum adds 8 in one's complement arithmetic.\<close>

lemma echo_chksum_spec:
  "unat (echo_chksum c) mod 65535 = (unat c + 8) mod 65535" "0 < unat (echo_chksum c)"
proof -
  have v: "lwip_htons (0xFFFF - push_bit 8 (ucast ICMP_ECHO)) = (0xFFF7 :: u16)" "lwip_htons (push_bit 8 (ucast ICMP_ECHO)) = (8 :: u16)"
    by (simp_all add: ICMP_ECHO_def lwip_htons_def)
  have c: "unat c < 65536" by simp
  have e: "unat (echo_chksum c) = (if unat c > 65527 then unat c + 9 - 65536 else unat c + 8)"
  proof (cases "unat c > 65527")
    case True
    then have "unat (c + 8) = unat c + 8 - 65536" using c by (simp add: unat_u16_add_mod le_mod_geq order_le_less_trans [OF diff_le_self])
    moreover have "unat (c + 8 + 1) = unat (c + 8) + 1" using calculation c by (intro unat_u16_inc) linarith
    ultimately have "unat (c + 8 + 1) = unat c + 8 - 65536 + 1" by (simp only:)
    then show ?thesis using True by (simp add: echo_chksum_def v word_less_nat_alt)
  next
    case False
    then have "unat (c + 8) = unat c + 8" by (simp add: unat_u16_add)
    then show ?thesis using False by (simp add: echo_chksum_def v word_less_nat_alt)
  qed
  show "0 < unat (echo_chksum c)" using e c by simp
  show "unat (echo_chksum c) mod 65535 = (unat c + 8) mod 65535"
  proof (cases "unat c > 65527")
    case True
    then have "unat c + 8 = unat (echo_chksum c) + 65535" using e by simp
    then show ?thesis by simp
  qed (simp add: e)
qed

text \<open>An ICMP message of type 8 that passes the test of the checksum still passes it as an answer.\<close>

lemma echo_answer_verifies:
  assumes "ones (le_val ([8, code] @ bytes_u16 c @ ys)) = 65535"
  shows "ones (le_val ([0, code] @ bytes_u16 (echo_chksum c) @ ys)) = 65535"
proof -
  let ?old = "le_val ([8, code] @ bytes_u16 c @ ys)" and ?new = "le_val ([0, code] @ bytes_u16 (echo_chksum c) @ ys)"
  have v: "le_val ([t, code] @ bytes_u16 k @ ys) = unat t + 256 * unat code + 65536 * (unat k + 65536 * le_val ys)" for t k
    by (simp add: le_val_append)
  have o: "?old = 8 + 256 * unat code + 65536 * (unat c + 65536 * le_val ys)"
    and n: "?new = 256 * unat code + 65536 * (unat (echo_chksum c) + 65536 * le_val ys)"
    unfolding v by simp_all
  have "?old mod 65535 = 0" using assms unfolding ones_full by simp
  moreover have "?new mod 65535 = ?old mod 65535"
  proof -
    have m: "(65536 * x) mod 65535 = x mod 65535" for x :: nat by (simp add: mod_mult_left_eq [of 65536, symmetric])
    have "(65536 * unat (echo_chksum c)) mod 65535 = (8 + 65536 * unat c) mod 65535"
      unfolding m echo_chksum_spec(1) mod_add_right_eq [of 8 "65536 * unat c", symmetric] by (simp add: mod_add_right_eq add.commute)
    from mod_add_cong [OF this refl, of "256 * unat code + 65536 * (65536 * le_val ys)"]
    show ?thesis unfolding o n by (simp add: algebra_simps)
  qed
  ultimately have "?new mod 65535 = 0" by simp
  moreover have "0 < ?new" using n echo_chksum_spec(2) [of c] by simp
  ultimately show ?thesis unfolding ones_full by simp
qed

lemma splice_mid: "length A = n \<Longrightarrow> length B = length ys \<Longrightarrow> splice_at n ys (A @ B @ C) = A @ ys @ C"
  by (simp add: splice_at_def)

lemma seg_mid: "length A = n \<Longrightarrow> length B = k \<Longrightarrow> seg n k (A @ B @ C) = B"
  by (simp add: seg_def)

text \<open>The parts of an IP header.\<close>

definition ip_fields :: "byte list \<Rightarrow> byte list \<Rightarrow> byte list \<Rightarrow> byte list \<Rightarrow> byte list \<Rightarrow> byte list \<Rightarrow> byte list" where
  "ip_fields A tp K S D opts = A @ tp @ K @ S @ D @ opts"

lemma ip_fields_cover:
  assumes "20 \<le> length xs"
  shows "\<exists>A ttl proto K S D opts. xs = ip_fields A [ttl, proto] K S D opts \<and> length A = 8 \<and> length K = 2 \<and> length S = 4 \<and> length D = 4
    \<and> length opts = length xs - 20"
proof -
  have e: "drop n xs = seg n k xs @ drop (n + k) xs" for n k
    unfolding seg_def by (metis append_take_drop_id drop_drop add.commute)
  have tp: "seg 8 2 xs = [seg 8 2 xs ! 0, seg 8 2 xs ! 1]"
    using assms by (intro nth_equalityI) (auto simp: less_2_cases_iff)
  have "xs = take 8 xs @ drop 8 xs" by simp
  also have "drop 8 xs = seg 8 2 xs @ seg 10 2 xs @ seg 12 4 xs @ seg 16 4 xs @ drop 20 xs"
    using e [of 8 2] e [of 10 2] e [of 12 4] e [of 16 4] by (simp only: numeral_plus_numeral add_num_simps)
  finally have "xs = ip_fields (take 8 xs) [seg 8 2 xs ! 0, seg 8 2 xs ! 1] (seg 10 2 xs) (seg 12 4 xs) (seg 16 4 xs) (drop 20 xs)"
    unfolding ip_fields_def using tp by simp
  then show ?thesis using assms
    by (intro exI [of _ "take 8 xs"] exI [of _ "seg 8 2 xs ! 0"] exI [of _ "seg 8 2 xs ! 1"] exI [of _ "seg 10 2 xs"]
        exI [of _ "seg 12 4 xs"] exI [of _ "seg 16 4 xs"] exI [of _ "drop 20 xs"]) simp
qed

text \<open>The header of the answer: new TTL and checksum, the addresses swapped, the rest as it was.\<close>

definition echo_ip :: "byte list \<Rightarrow> u8 \<Rightarrow> u32 \<Rightarrow> u32 \<Rightarrow> byte list \<Rightarrow> byte list" where
  "echo_ip A proto src dest opts =
     ip_fields A [255, proto] (bytes_u16 (inet_chksum False (ip_fields A [255, proto] [0, 0] (bytes_u32 src) (bytes_u32 dest) opts)))
       (bytes_u32 src) (bytes_u32 dest) opts"

lemma length_ip_fields [simp]:
  "length (ip_fields A tp K S D opts) = length A + length tp + length K + length S + length D + length opts"
  by (simp add: ip_fields_def)

lemma echo_writes:
  fixes c k :: u16 and src dst :: u32
  assumes l: "length A = 8" "length K = 2" "length S = 4" "length D = 4" "length (ip_fields A [ttl, proto] K S D opts) = hlen"
    and x: "x0 = ip_fields A [ttl, proto] K S D opts @ [8, code] @ bytes_u16 c @ ys"
  defines "x1 \<equiv> splice_at 12 (bytes_u32 src) x0"
  defines "x2 \<equiv> splice_at 16 (bytes_u32 dst) x1"
  defines "x3 \<equiv> splice_at hlen [0] x2"
  defines "x4 \<equiv> splice_at (hlen + 2) (bytes_u16 (echo_chksum c)) x3"
  defines "x5 \<equiv> splice_at 8 [255] x4"
  defines "x6 \<equiv> splice_at 10 [0, 0] x5"
  shows "seg (hlen + 2) 2 x3 = bytes_u16 c"
    and "seg 0 hlen x6 = ip_fields A [255, proto] [0, 0] (bytes_u32 src) (bytes_u32 dst) opts"
    and "splice_at 10 (bytes_u16 k) x6 = ip_fields A [255, proto] (bytes_u16 k) (bytes_u32 src) (bytes_u32 dst) opts
      @ [0, code] @ bytes_u16 (echo_chksum c) @ ys"
proof -
  let ?S = "bytes_u32 src" and ?D = "bytes_u32 dst" and ?k = "bytes_u16 (echo_chksum c)"
  have h: "hlen = 20 + length opts" using l by simp
  have x1: "x1 = (A @ [ttl, proto] @ K @ ?S) @ D @ (opts @ [8, code] @ bytes_u16 c @ ys)"
    unfolding x1_def x ip_fields_def using splice_mid [of "A @ [ttl, proto] @ K" 12 S ?S "D @ opts @ [8, code] @ bytes_u16 c @ ys"] l by simp
  have x2: "x2 = (A @ [ttl, proto] @ K @ ?S @ ?D @ opts) @ [8] @ ([code] @ bytes_u16 c @ ys)"
    unfolding x2_def x1 using splice_mid [of "A @ [ttl, proto] @ K @ ?S" 16 D ?D] l by simp
  have x3: "x3 = (A @ [ttl, proto] @ K @ ?S @ ?D @ opts @ [0, code]) @ bytes_u16 c @ ys"
    unfolding x3_def x2 using splice_mid [of "A @ [ttl, proto] @ K @ ?S @ ?D @ opts" hlen "[8]" "[0]"] l h by simp
  show "seg (hlen + 2) 2 x3 = bytes_u16 c" unfolding x3 by (rule seg_mid) (use l h in simp_all)
  have x4: "x4 = A @ [ttl] @ ([proto] @ K @ ?S @ ?D @ opts @ [0, code] @ ?k @ ys)"
    unfolding x4_def x3 using splice_mid [of "A @ [ttl, proto] @ K @ ?S @ ?D @ opts @ [0, code]" "hlen + 2" "bytes_u16 c" ?k ys] l h by simp
  have x5: "x5 = (A @ [255, proto]) @ K @ (?S @ ?D @ opts @ [0, code] @ ?k @ ys)"
    unfolding x5_def x4 using splice_mid [of A 8 "[ttl]" "[255]"] l by simp
  have x6: "x6 = (A @ [255, proto]) @ [0, 0] @ (?S @ ?D @ opts @ [0, code] @ ?k @ ys)"
    unfolding x6_def x5 by (rule splice_mid) (use l in simp_all)
  have x6': "x6 = [] @ (A @ [255, proto] @ [0, 0] @ ?S @ ?D @ opts) @ ([0, code] @ ?k @ ys)" unfolding x6 by simp
  show "seg 0 hlen x6 = ip_fields A [255, proto] [0, 0] ?S ?D opts"
    unfolding x6' ip_fields_def by (rule seg_mid) (use l h in simp_all)
  show "splice_at 10 (bytes_u16 k) x6 = ip_fields A [255, proto] (bytes_u16 k) ?S ?D opts @ [0, code] @ ?k @ ys"
    unfolding x6 ip_fields_def using splice_mid [of "A @ [255, proto]" 10 "[0, 0]" "bytes_u16 k"] l by simp
qed

lemma echo_ip_verifies:
  assumes "length A = 8" "20 + length opts < 65536"
  shows "inet_chksum is_odd (echo_ip A proto src dest opts) = 0"
proof -
  let ?xs = "A @ [255, proto]" and ?ys = "bytes_u32 src @ bytes_u32 dest @ opts"
  define c where "c = inet_chksum False (?xs @ [0, 0] @ ?ys)"
  have c: "c = NOT (of_nat (ones (le_val (?xs @ [0, 0] @ ?ys))))" unfolding c_def using assms by (intro inet_chksum_ones) simp
  have "oc (ones (le_val (?xs @ [0, 0] @ ?ys)) + unat c) 65535"
    unfolding c unat_not_ones using ones_le [of "le_val (?xs @ [0, 0] @ ?ys)"] by simp
  from chksum_field_ones [OF _ this] have "ones (le_val (?xs @ bytes_u16 c @ ?ys)) = 65535"
    using assms by (simp add: bytes_u16_def)
  moreover have "echo_ip A proto src dest opts = ?xs @ bytes_u16 c @ ?ys" by (simp add: echo_ip_def ip_fields_def c_def)
  ultimately show ?thesis using assms by (subst inet_chksum_ones) (simp, simp only: not_of_nat_65535)
qed

lemma link_ready_heap:
  assumes "link_ready s c lk pss" "same_on (- {a}) (st_heap s) h" "a \<notin> set (concat pss)"
  shows "link_ready (s\<lparr>st_heap := h\<rparr>) c lk pss"
  using assms list_all2_owns_same [OF _ assms(2), of "queue_contents (lk_rx lk)" pss]
  by (auto simp: link_ready_def queue_owns_def)

text \<open>Uncovering the IP header again.\<close>

lemma add_header_pdata:
  assumes o: "owns h a (a # as)" and pl: "pb_payload (the_pbuf h a) = Some (a, off)" "contiguous_data (the_pbuf h a)"
    and n: "n \<le> off" "n + length (pbytes h (a # as)) < 65536" and bs: "hp_blocks h a = Some bs"
  obtains h' where "pbuf_add_header (Some a) n h = Some (0, h')" "owns h' a (a # as)"
    "pdata h' a = seg (off - n) n bs @ pdata h a" "pbytes h' as = pbytes h as" "same_on (- {a}) h h'" "same_env h h'"
    "pb_payload (the_pbuf h' a) = Some (a, off - n)"
proof -
  have pk: "packet h (Some a) (a # as)" and so: "list_all (sole h) (a # as)" using o by (simp_all add: owns_def)
  obtain h' bs' where h': "pbuf_add_header (Some a) n h = Some (0, h')" "packet h' (Some a) (a # as)" "hp_blocks h a = Some bs'"
      "pbytes h' (a # as) = seg (off - n) n bs' @ pbytes h (a # as)" "same_on (- {a}) h h'" "list_all (sole h') (a # as)"
      "pb_payload (the_pbuf h' a) = Some (a, off - n)" "same_env h h'"
    using pbuf_add_header_spec [OF pk pl n] so same_env_pbufs by metis
  have na: "a \<notin> set as" using chain_distinct [OF packet_chain [OF pk]] by simp
  have eq: "pbytes h' as = pbytes h as"
    using pk na by (intro pbytes_cong) (auto simp: packet_def list_all_iff intro: pdata_same [OF h'(5)])
  then have "pdata h' a = seg (off - n) n bs @ pdata h a" using h'(3,4) bs by simp
  then show thesis using that h' eq by (simp add: owns_def)
qed

lemma icmp_echo_rewrite_spec:
  assumes o: "owns (st_heap s) a (a # as)" and pl: "pb_payload (the_pbuf (st_heap s) a) = Some (a, ip)"
    and d: "pdata (st_heap s) a = ip_fields A [ttl, proto] K S D opts @ [8, code] @ bytes_u16 k @ ys"
    and l: "length A = 8" "length K = 2" "length S = 4" "length D = 4" "length (ip_fields A [ttl, proto] K S D opts) = hlen" "hlen < 65536"
  obtains g where "icmp_echo_rewrite (Some (a, ip)) (Some (a, ip + hlen)) hlen src s = Some (s\<lparr>st_heap := g\<rparr>)"
    "rewritten (st_heap s) a as (echo_ip A proto src (current_iphdr_src (st_ip_data s)) opts @ [0, code] @ bytes_u16 (echo_chksum k) @ ys) g"
proof -
  let ?h = "st_heap s" and ?dst = "current_iphdr_src (st_ip_data s)" and ?e = "ip + hlen"
  let ?z = "ip_fields A [255, proto] [0, 0] (bytes_u32 src) (bytes_u32 ?dst) opts"
  let ?k = "bytes_u16 (inet_chksum False ?z)" and ?c = "bytes_u16 (echo_chksum k)"
  define x0 where "x0 = pdata ?h a"
  define x1 where "x1 = splice_at 12 (bytes_u32 src) x0"
  define x2 where "x2 = splice_at 16 (bytes_u32 ?dst) x1"
  define x3 where "x3 = splice_at hlen [0] x2"
  define x4 where "x4 = splice_at (hlen + 2) ?c x3"
  define x5 where "x5 = splice_at 8 [255] x4"
  define x6 where "x6 = splice_at 10 [0, 0] x5"
  have h20: "20 \<le> hlen" using l by simp
  have x0: "x0 = ip_fields A [ttl, proto] K S D opts @ [8, code] @ bytes_u16 k @ ys" using d by (simp add: x0_def)
  note W = echo_writes [OF l(1-5) x0, where src = src and dst = ?dst]
  have X: "seg (hlen + 2) 2 x3 = bytes_u16 k" "seg 0 hlen x6 = ?z"
    "splice_at 10 ?k x6 = echo_ip A proto src ?dst opts @ [0, code] @ ?c @ ys"
    unfolding x6_def x5_def x4_def x3_def x2_def x1_def echo_ip_def by (rule W(1), rule W(2), rule W(3))
  have L0: "length x0 = hlen + 4 + length ys" using l(5) by (simp add: x0)
  have L: "length x1 = length x0" "length x2 = length x0" "length x3 = length x0" "length x4 = length x0" "length x5 = length x0"
    "length x6 = length x0"
    using h20 L0 by (simp_all add: x1_def x2_def x3_def x4_def x5_def x6_def)
  have step: "\<exists>g'. st_write (Some (a, q)) i zs (s\<lparr>st_heap := g\<rparr>) = Some (s\<lparr>st_heap := g'\<rparr>) \<and> rewritten ?h a as (splice_at (q + i - ip) zs xs) g'"
    if "rewritten ?h a as xs g" "ip \<le> q + i" "q + i + length zs \<le> ip + length xs" for q i zs xs g
    using rewritten_write [of ?h a as xs "s\<lparr>st_heap := g\<rparr>", OF _ pl that(2,3)] that(1) by auto
  have r0: "rewritten ?h a as x0 ?h" using rewritten_refl [OF o] by (simp add: x0_def)
  obtain g1 where w1: "st_write (Some (a, ip)) 12 (bytes_u32 src) s = Some (s\<lparr>st_heap := g1\<rparr>)" "rewritten ?h a as x1 g1"
    using step [OF r0, of ip 12 "bytes_u32 src"] h20 L0 by (auto simp: x1_def)
  obtain g2 where w2: "st_write (Some (a, ip)) 16 (bytes_u32 ?dst) (s\<lparr>st_heap := g1\<rparr>) = Some (s\<lparr>st_heap := g2\<rparr>)" "rewritten ?h a as x2 g2"
    using step [OF w1(2), of ip 16 "bytes_u32 ?dst"] h20 L0 L(1) by (auto simp: x2_def)
  obtain g3 where w3: "st_write (Some (a, ?e)) 0 [0] (s\<lparr>st_heap := g2\<rparr>) = Some (s\<lparr>st_heap := g3\<rparr>)" "rewritten ?h a as x3 g3"
    using step [OF w2(2), of ?e 0 "[0]"] L0 L(2) by (auto simp: x3_def)
  have e2: "?e + 2 - ip = hlen + 2" by simp
  have rd: "read_u16 g3 (Some (a, ?e)) 2 = Some k"
    using rewritten_read [OF w3(2) pl, of ?e 2 2] X(1) L0 L(3) unfolding e2 by (simp add: read_u16_def)
  obtain g4 where w4: "st_write (Some (a, ?e)) 2 ?c (s\<lparr>st_heap := g3\<rparr>) = Some (s\<lparr>st_heap := g4\<rparr>)" "rewritten ?h a as x4 g4"
    using step [OF w3(2), of ?e 2 ?c] L0 L(3) unfolding e2 x4_def [symmetric] by auto
  obtain g5 where w5: "st_write (Some (a, ip)) 8 [255] (s\<lparr>st_heap := g4\<rparr>) = Some (s\<lparr>st_heap := g5\<rparr>)" "rewritten ?h a as x5 g5"
    using step [OF w4(2), of ip 8 "[255]"] h20 L0 L(4) by (auto simp: x5_def)
  obtain g6 where w6: "st_write (Some (a, ip)) 10 [0, 0] (s\<lparr>st_heap := g5\<rparr>) = Some (s\<lparr>st_heap := g6\<rparr>)" "rewritten ?h a as x6 g6"
    using step [OF w5(2), of ip 10 "[0, 0]"] h20 L0 L(5) by (auto simp: x6_def)
  have rz: "mem_read g6 (Some (a, ip)) 0 hlen = Some ?z" using rewritten_read [OF w6(2) pl, of ip 0 hlen] X(2) L0 L(6) by simp
  have "length ?z < 65536" using l by simp
  then have od: "inet_chksum (payload_odd (Some (a, ip))) ?z = inet_chksum False ?z" using inet_chksum_ones by metis
  obtain g7 where w7: "st_write (Some (a, ip)) 10 ?k (s\<lparr>st_heap := g6\<rparr>) = Some (s\<lparr>st_heap := g7\<rparr>)"
      "rewritten ?h a as (echo_ip A proto src ?dst opts @ [0, code] @ ?c @ ys) g7"
    using step [OF w6(2), of ip 10 ?k] h20 L0 L(6) unfolding add_diff_cancel_left' X(3) by auto
  have "icmp_echo_rewrite (Some (a, ip)) (Some (a, ?e)) hlen src s = Some (s\<lparr>st_heap := g7\<rparr>)"
    using w1(1) w2(1) w3(1) rd w4(1) w5(1) w6(1) rz w7(1) by (simp add: icmp_echo_rewrite_def ICMP_ER_def od ICMP_TTL_def)
  then show thesis using that w7(2) by blast
qed

text \<open>Sending a packet that has its IP header already.\<close>

lemma ip4_output_hdrincl_sends:
  assumes l: "link_ready s c lk pss" and o: "owns (st_heap s) a (a # as)" and dj: "set (a # as) \<inter> set (concat pss) = {}"
    and len: "20 \<le> unat (pb_len (the_pbuf (st_heap s) a))"
  obtains s' rx where "ip4_output_if a src None ttl tos proto global_if s = Some (ERR_OK, s')"
    "st_pbuf_free (Some a) s' = Some (s\<lparr>st_heap := without (st_heap s) (dropped pss), st_links := (st_links s)(c \<mapsto> lk\<lparr>lk_rx := rx\<rparr>)\<rparr>)"
    "queue_owns (without (st_heap s) (dropped pss)) rx (kept pss @ [a # as])"
proof -
  let ?h = "st_heap s"
  obtain pb where pb: "hp_pbufs ?h a = Some pb" "pb_ref pb = 1" using owns_head [OF o] by blast
  obtain d where d: "read_u32 ?h (pb_payload pb) 16 = Some d"
    using mem_read_pdata [OF owned_readable [OF owns_owned [OF o]], of 16 4] len pb(1) by (auto simp: read_u32_def)
  from netif_output_link [OF l o dj, of d]
  obtain s' rx where s': "netif_output global_if (Some a) d s = Some (ERR_OK, s')"
      "s' = s\<lparr>st_heap := st_heap s', st_links := (st_links s)(c \<mapsto> lk\<lparr>lk_rx := rx\<rparr>)\<rparr>"
      "st_pbuf_free (Some a) s' = Some (s'\<lparr>st_heap := without ?h (dropped pss)\<rparr>)"
      "queue_owns (without ?h (dropped pss)) rx (kept pss @ [a # as])" by blast
  have run: "ip4_output_if a src None ttl tos proto global_if s = Some (ERR_OK, s')"
    using pb d s'(1) len by (simp add: ip4_output_if_def ip4_output_if_src_def IP_HLEN_def)
  have fr: "st_pbuf_free (Some a) s' = Some (s\<lparr>st_heap := without ?h (dropped pss), st_links := (st_links s)(c \<mapsto> lk\<lparr>lk_rx := rx\<rparr>)\<rparr>)"
    unfolding s'(3) by (subst s'(2)) simp
  show thesis by (rule that [OF run fr s'(4)])
qed

lemma icmp_echo_reply_sends:
  assumes l: "link_ready s c lk pss" and o: "owns (st_heap s) a (a # as)" and dj: "set (a # as) \<inter> set (concat pss) = {}"
    and pl: "pb_payload (the_pbuf (st_heap s) a) = Some (a, off)" "contiguous_data (the_pbuf (st_heap s) a)"
    and n: "hlen \<le> off" "20 \<le> hlen" "hlen + length (pbytes (st_heap s) (a # as)) < 65536"
    and d: "pdata (st_heap s) a = [8, code] @ bytes_u16 k @ ys" and bs: "hp_blocks (st_heap s) a = Some bs"
    and ip: "seg (off - hlen) hlen bs = ip_fields A [ttl, proto] K S D opts" "length A = 8" "length K = 2" "length S = 4" "length D = 4"
      "length opts = hlen - 20"
  obtains s' h rx where "icmp_echo_reply a hlen src global_if s = Some s'"
    "st_pbuf_free (Some a) s' = Some (s\<lparr>st_heap := h, st_links := (st_links s)(c \<mapsto> lk\<lparr>lk_rx := rx\<rparr>)\<rparr>)"
    "queue_owns h rx (kept pss @ [a # as])" "same_on (- ({a} \<union> dropped pss)) (st_heap s) h" "same_env (st_heap s) h"
    "pbytes h (a # as) = echo_ip A proto src (current_iphdr_src (st_ip_data s)) opts @ [0, code] @ bytes_u16 (echo_chksum k) @ ys
       @ pbytes (st_heap s) as"
proof -
  let ?h = "st_heap s" and ?o = "off - hlen" and ?dst = "current_iphdr_src (st_ip_data s)"
  let ?ans = "echo_ip A proto src ?dst opts @ [0, code] @ bytes_u16 (echo_chksum k) @ ys"
  obtain h1 where h1: "pbuf_add_header (Some a) hlen ?h = Some (0, h1)" "owns h1 a (a # as)"
      "pdata h1 a = ip_fields A [ttl, proto] K S D opts @ [8, code] @ bytes_u16 k @ ys" "pbytes h1 as = pbytes ?h as"
      "same_on (- {a}) ?h h1" "same_env ?h h1" "pb_payload (the_pbuf h1 a) = Some (a, ?o)"
    using add_header_pdata [OF o pl n(1,3) bs] ip(1) d by metis
  have hl: "length (ip_fields A [ttl, proto] K S D opts) = hlen" "hlen < 65536" using ip(2-6) n(2,3) by simp_all
  obtain g where g: "icmp_echo_rewrite (Some (a, ?o)) (Some (a, ?o + hlen)) hlen src (s\<lparr>st_heap := h1\<rparr>) = Some (s\<lparr>st_heap := g\<rparr>)"
      "rewritten h1 a as ?ans g"
    using icmp_echo_rewrite_spec [of "s\<lparr>st_heap := h1\<rparr>" a as ?o, OF _ _ _ ip(2-5) hl] h1(2,3,7) by auto
  have G: "owns g a (a # as)" "same_shape h1 g" "same_on (- {a}) h1 g" using g(2) by (simp_all add: rewritten_def)
  have sg: "same_on (- {a}) ?h g" using same_on_trans [OF h1(5) G(3)] .
  have lr: "link_ready (s\<lparr>st_heap := g\<rparr>) c lk pss" using dj by (intro link_ready_heap [OF l sg]) auto
  have len: "20 \<le> unat (pb_len (the_pbuf g a))"
    using rewritten_len [OF g(2)] ip(2) by (simp add: echo_ip_def)
  obtain s' rx where s': "ip4_output_if a (Some src) None ICMP_TTL 0 IP_PROTO_ICMP global_if (s\<lparr>st_heap := g\<rparr>) = Some (ERR_OK, s')"
      "st_pbuf_free (Some a) s' = Some (s\<lparr>st_heap := without g (dropped pss), st_links := (st_links s)(c \<mapsto> lk\<lparr>lk_rx := rx\<rparr>)\<rparr>)"
      "queue_owns (without g (dropped pss)) rx (kept pss @ [a # as])"
    using ip4_output_hdrincl_sends [OF lr, of a as "Some src" ICMP_TTL 0 IP_PROTO_ICMP] G(1) dj len by auto
  obtain pb0 pb1 where pb: "hp_pbufs ?h a = Some pb0" "pb_payload pb0 = Some (a, off)" "hp_pbufs h1 a = Some pb1" "pb_payload pb1 = Some (a, ?o)"
    using owns_head [OF o] pl(1) owns_head [OF h1(2)] h1(7) by force
  have "?o + hlen = off" using n(1) by simp
  then have run: "icmp_echo_reply a hlen src global_if s = Some s'"
    using pb h1(1) g(1) s'(1) by (simp add: icmp_echo_reply_def on_heap_def)
  let ?g = "without g (dropped pss)"
  have dd: "set (a # as) \<subseteq> - dropped pss" using dj kept_subset(2) [of pss] by auto
  have sw: "same_on (- dropped pss) g ?g" by (simp add: same_on_def)
  have "pbytes ?g (a # as) = ?ans @ pbytes ?h as"
    using packet_same(2) [OF _ sw dd, of "Some a"] G(1) rewritten_pbytes [OF g(2) h1(2)] h1(4) by (simp add: owns_def)
  moreover have "same_on (- ({a} \<union> dropped pss)) ?h ?g"
    by (rule same_on_trans [of _ _ g], rule same_on_subset [OF sg], simp, rule same_on_subset [OF sw]) auto
  moreover have "same_env ?h ?g" using same_env_trans [OF h1(6) same_env_trans [OF same_env_shape [OF G(2)] same_env_without]] .
  ultimately show thesis using that [OF run s'(2,3)] by simp
qed

section \<open>A received packet\<close>

text \<open>
  The state in which the protocols above IP are called: the payload pointer stands behind the IP header
  \<open>hdr\<close>, there is room for a link header in front of it, and \<open>ip_data\<close> describes the packet.
\<close>

definition received :: "stack \<Rightarrow> addr \<Rightarrow> addr list \<Rightarrow> nat \<Rightarrow> byte list \<Rightarrow> byte list \<Rightarrow> bool" where
  "received s a as off hdr data \<longleftrightarrow> owns (st_heap s) a (a # as) \<and> pb_payload (the_pbuf (st_heap s) a) = Some (a, off)
     \<and> contiguous_data (the_pbuf (st_heap s) a) \<and> pbytes (st_heap s) (a # as) = data
     \<and> 20 \<le> length hdr \<and> length hdr + 14 \<le> off \<and> length hdr + 14 + length data < 65536
     \<and> (\<exists>bs. hp_blocks (st_heap s) a = Some bs \<and> seg (off - length hdr) (length hdr) bs = hdr)
     \<and> unat (IPH_HL_BYTES (hdr ! 0)) = length hdr
     \<and> st_ip_data s = \<lparr>current_netif = Some global_if, current_input_netif = Some global_if,
          current_ip4_header = Some (a, off - length hdr), current_ip_header_tot_len = of_nat (length hdr),
          current_iphdr_src = of_nat (le_val (seg 12 4 hdr)), current_iphdr_dest = of_nat (le_val (seg 16 4 hdr))\<rparr>"

abbreviation "recv_src s \<equiv> current_iphdr_src (st_ip_data s)"
abbreviation "recv_dest s \<equiv> current_iphdr_dest (st_ip_data s)"

text \<open>Neither a multicast nor a broadcast address for the interface.\<close>

definition unicast :: "stack \<Rightarrow> ip4_addr_t \<Rightarrow> bool" where
  "unicast s d \<longleftrightarrow> \<not> ip4_addr_ismulticast d \<and> d \<noteq> IPADDR_ANY \<and> NOT d \<noteq> IPADDR_ANY
     \<and> \<not> ip4_addr_isbroadcast_u32 d (st_global_if s)"

lemma isbroadcast_unicast: "unicast s d \<Longrightarrow> ip4_addr_isbroadcast d (Some global_if) s = Some False"
  by (simp add: unicast_def ip4_addr_isbroadcast_def netif_at_def)

lemma received_header:
  assumes "received s a as off hdr data" "k + n \<le> length hdr"
  shows "mem_read (st_heap s) (current_ip4_header (st_ip_data s)) k n = Some (seg k n hdr)"
proof -
  obtain bs where bs: "hp_blocks (st_heap s) a = Some bs" "seg (off - length hdr) (length hdr) bs = hdr"
    and o: "owned (st_heap s) a" "pb_payload (the_pbuf (st_heap s) a) = Some (a, off)" "length hdr + 14 \<le> off"
    and ip: "current_ip4_header (st_ip_data s) = Some (a, off - length hdr)"
    using assms(1) owns_owned by (auto simp: received_def)
  have lb: "off \<le> length bs" using o(1,2) bs(1) by (auto simp: owned_def the_pbuf_def)
  then have "off - length hdr + k + n \<le> length bs" using o(3) assms(2) by linarith
  moreover have "seg (off - length hdr + k) n bs = seg k n (seg (off - length hdr) (length hdr) bs)"
    using assms(2) by (simp add: seg_def take_drop min_def add.commute)
  ultimately show ?thesis using bs by (simp add: ip mem_read_def seg_def)
qed

text \<open>With room for the link header nothing is copied.\<close>

lemma icmp_echo_room_ok:
  assumes "received s a as off hdr data"
  shows "icmp_echo_room a (length hdr) s = Some (Some a, s)"
proof -
  let ?h = "st_heap s" and ?n = "length hdr + 14"
  have o: "owns ?h a (a # as)" and pl: "pb_payload (the_pbuf ?h a) = Some (a, off)" "contiguous_data (the_pbuf ?h a)"
    and n: "?n \<le> off" "?n + length (pbytes ?h (a # as)) < 65536"
    using assms by (simp_all add: received_def)
  obtain pb where pb: "hp_pbufs ?h a = Some pb" using owns_head [OF o] by blast
  obtain bs where "hp_blocks ?h a = Some bs" using assms by (auto simp: received_def)
  from add_header_pdata [OF o pl n this] obtain h' where h': "pbuf_add_header (Some a) ?n ?h = Some (0, h')" by blast
  have "unat (pb_len pb) \<le> length (pbytes ?h (a # as))"
    using length_pdata [OF owned_readable [OF owns_owned [OF o]]] pb by simp
  then have "pbuf_remove_header (Some a) ?n h' = Some (0, ?h)"
    using pbuf_header_inverse [OF pb _ h'] n(2) by simp
  then show ?thesis using h' by (simp add: icmp_echo_room_def on_heap_def PBUF_LINK_HLEN_def)
qed

lemma icmp_echo_answers:
  assumes l: "link_ready s c lk pss" and r: "received s a as off hdr ([8, code] @ bytes_u16 k @ data)"
    and dj: "set (a # as) \<inter> set (concat pss) = {}" and u: "unicast s (recv_dest s)" and n: "4 \<le> length data"
    and len: "4 \<le> unat (pb_len (the_pbuf (st_heap s) a))"
    and v: "inet_chksum False ([8, code] @ bytes_u16 k @ data) = 0"
  obtains h rx hdr' where "icmp_input a global_if s = Some (s\<lparr>st_heap := h, st_links := (st_links s)(c \<mapsto> lk\<lparr>lk_rx := rx\<rparr>)\<rparr>)"
    "queue_owns h rx (kept pss @ [a # as])" "same_on (- ({a} \<union> dropped pss)) (st_heap s) h" "same_env (st_heap s) h"
    "pbytes h (a # as) = hdr' @ [0, code] @ bytes_u16 (echo_chksum k) @ data"
    "length hdr' = length hdr" "take 8 hdr' = take 8 hdr" "hdr' ! 8 = 255" "hdr' ! 9 = hdr ! 9"
    "seg 12 4 hdr' = bytes_u32 (recv_dest s)" "seg 16 4 hdr' = bytes_u32 (recv_src s)" "inet_chksum False hdr' = 0"
proof -
  let ?h = "st_heap s" and ?m = "[8, code] @ bytes_u16 k @ data"
  have o: "owns ?h a (a # as)" and pl: "pb_payload (the_pbuf ?h a) = Some (a, off)" "contiguous_data (the_pbuf ?h a)"
    and hl: "20 \<le> length hdr" "length hdr \<le> off" "length hdr + length (pbytes ?h (a # as)) < 65536"
    and m: "pbytes ?h (a # as) = ?m" "unat (IPH_HL_BYTES (hdr ! 0)) = length hdr"
    using r by (simp_all add: received_def)
  obtain bs where bs: "hp_blocks ?h a = Some bs" "seg (off - length hdr) (length hdr) bs = hdr" using r by (auto simp: received_def)
  obtain pb where pb: "hp_pbufs ?h a = Some pb" using owns_head [OF o] by blast
  have pk: "packet ?h (Some a) (a # as)" using o by (simp add: owns_def)
  have ld: "length (pdata ?h a) = unat (pb_len pb)" using length_pdata [OF owned_readable [OF owns_owned [OF o]]] pb by simp
  obtain ys where ys: "pdata ?h a = [8, code] @ bytes_u16 k @ ys" "ys @ pbytes ?h as = data"
  proof -
    have a1: "pdata ?h a @ pbytes ?h as = ?m" using m(1) by simp
    then have "take 4 (pdata ?h a) = [8, code] @ bytes_u16 k"
      using ld len pb by (metis append_eq_append_conv_if length_append length_bytes(1) list.size(3,4) numeral_Bit0 numeral_One One_nat_def add_Suc_right add_0_right append.assoc nat_1_add_1 the_pbuf_Some)
    then have "pdata ?h a = [8, code] @ bytes_u16 k @ drop 4 (pdata ?h a)" by (metis append_take_drop_id append.assoc)
    with a1 that show thesis by (metis append.assoc same_append_eq)
  qed
  obtain A ttl proto K S D opts where f: "hdr = ip_fields A [ttl, proto] K S D opts" "length A = 8" "length K = 2" "length S = 4"
      "length D = 4" "length opts = length hdr - 20"
    using ip_fields_cover [OF hl(1)] by blast
  let ?hd = "echo_ip A proto (recv_dest s) (recv_src s) opts"
  obtain s' h rx where S: "icmp_echo_reply a (length hdr) (recv_dest s) global_if s = Some s'"
      "st_pbuf_free (Some a) s' = Some (s\<lparr>st_heap := h, st_links := (st_links s)(c \<mapsto> lk\<lparr>lk_rx := rx\<rparr>)\<rparr>)"
      "queue_owns h rx (kept pss @ [a # as])" "same_on (- ({a} \<union> dropped pss)) ?h h" "same_env ?h h"
      "pbytes h (a # as) = ?hd @ [0, code] @ bytes_u16 (echo_chksum k) @ ys @ pbytes ?h as"
    using icmp_echo_reply_sends [OF l o dj pl hl(2,1,3) ys(1) bs(1) _ f(2-6), of ttl proto] bs(2) f(1) by metis
  have v_hl: "read_u8 ?h (current_ip4_header (st_ip_data s)) 0 = Some (hdr ! 0)"
    using received_header [OF r, of 0 1] hl(1) by (cases hdr) (auto simp: read_u8_def seg_def)
  have ty: "read_u8 ?h (pb_payload pb) 0 = Some 8"
    using mem_read_pdata [OF owned_readable [OF owns_owned [OF o]], of 0 1] pb len ys(1) by (simp add: read_u8_def seg_def)
  have ck: "inet_chksum_pbuf (Some a) ?h = Some 0"
    using inet_chksum_pbuf_sum [OF pk] v m(1) hl(3) inet_chksum_0 [of ?m False] by (simp add: not_ones_0 del: pbytes_simps)
  have tot: "\<not> unat (pb_tot_len pb) < 8"
  proof -
    have "unat (pb_tot_len pb) = length ?m" using packet_Some [OF pk] pb m(1) by (metis option.inject)
    then show ?thesis using n by simp
  qed
  have cn: "current_netif (st_ip_data s) = Some global_if" using r by (simp add: received_def)
  have run: "icmp_input a global_if s = Some (s\<lparr>st_heap := h, st_links := (st_links s)(c \<mapsto> lk\<lparr>lk_rx := rx\<rparr>)\<rparr>)"
    using v_hl m(2) hl(1) pb len ty u isbroadcast_unicast [OF u] cn tot ck icmp_echo_room_ok [OF r] S(1,2)
    by (simp add: icmp_input_def icmp_echo_def ICMP_ECHO_def IP_HLEN_def unicast_def)
  have "inet_chksum False ?hd = 0" using f(2,6) hl by (intro echo_ip_verifies) (use hl in simp_all)
  moreover have "take 8 ?hd = take 8 hdr" "?hd ! 8 = 255" "?hd ! 9 = hdr ! 9" "length ?hd = length hdr"
    using f by (simp_all add: echo_ip_def ip_fields_def nth_append)
  moreover have "seg 12 4 ?hd = bytes_u32 (recv_dest s)" "seg 16 4 ?hd = bytes_u32 (recv_src s)"
    using f(2) by (simp_all add: echo_ip_def ip_fields_def seg_def)
  ultimately show thesis using that [OF run S(3,4,5)] S(6) ys(2) by simp
qed

section \<open>Destination unreachable\<close>

lemma le_val_less: "le_val xs < 256 ^ length xs"
proof (induction xs)
  case (Cons b bs)
  have "unat b + 256 * le_val bs < 256 + 256 * le_val bs" by simp
  also have "\<dots> = 256 * Suc (le_val bs)" by simp
  also have "\<dots> \<le> 256 * 256 ^ length bs" using Cons by (intro mult_le_mono2) simp
  finally show ?case by simp
qed simp

lemma le_val_inj: "length xs = length ys \<Longrightarrow> le_val xs = le_val ys \<Longrightarrow> xs = ys"
proof (induction xs ys rule: list_induct2)
  case (Cons x xs y ys)
  have e: "(unat b + 256 * n) mod 256 = unat b" "(unat b + 256 * n) div 256 = n" for b :: byte and n by simp_all
  have "unat x = unat y" "le_val xs = le_val ys"
    using Cons.prems e(1) [of x "le_val xs"] e(1) [of y "le_val ys"] e(2) [of x "le_val xs"] e(2) [of y "le_val ys"] by simp_all
  then show ?case using Cons.IH by (simp add: word_unat_eq_iff)
qed simp

lemma unat_le_val_4: "length xs = 4 \<Longrightarrow> unat (of_nat (le_val xs) :: u32) = le_val xs"
  using le_val_less [of xs] by (simp add: unat_of_nat take_bit_nat_eq_self)

text \<open>The message: type, code, checksum, four unused bytes and the head of the packet that caused it.\<close>

definition icmp_error :: "u8 \<Rightarrow> u8 \<Rightarrow> byte list \<Rightarrow> byte list" where
  "icmp_error type code orig =
     [type, code] @ bytes_u16 (inet_chksum False ([type, code] @ [0, 0] @ [0, 0, 0, 0] @ orig)) @ [0, 0, 0, 0] @ orig"

lemma icmp_error_verifies:
  assumes "length orig = 28"
  shows "inet_chksum is_odd (icmp_error type code orig) = 0"
proof -
  let ?xs = "[type, code]" and ?ys = "[0, 0, 0, 0] @ orig"
  define c where "c = inet_chksum False (?xs @ [0, 0] @ ?ys)"
  have c: "c = NOT (of_nat (ones (le_val (?xs @ [0, 0] @ ?ys))))" unfolding c_def using assms by (intro inet_chksum_ones) simp
  have "oc (ones (le_val (?xs @ [0, 0] @ ?ys)) + unat c) 65535"
    unfolding c unat_not_ones using ones_le [of "le_val (?xs @ [0, 0] @ ?ys)"] by simp
  from chksum_field_ones [OF _ this] have "ones (le_val (?xs @ bytes_u16 c @ ?ys)) = 65535" by (simp add: bytes_u16_def)
  moreover have "icmp_error type code orig = ?xs @ bytes_u16 c @ ?ys" by (simp add: icmp_error_def c_def)
  ultimately show ?thesis using assms inet_chksum_0 [of "?xs @ bytes_u16 c @ ?ys"] by simp
qed

lemma length_icmp_error [simp]: "length (icmp_error type code orig) = 8 + length orig"
  by (simp add: icmp_error_def)

lemma mem_read_same: "same_on A h h' \<Longrightarrow> b \<in> A \<Longrightarrow> mem_read h' (Some (b, off)) k n = mem_read h (Some (b, off)) k n"
  by (simp add: mem_read_def same_on_def)

text \<open>Filling in the message.\<close>

lemma icmp_error_writes:
  fixes type code :: u8 and k :: u16
  assumes l: "length x0 = 36" "length orig = 28"
  defines "x1 \<equiv> splice_at 0 [type, code] x0"
  defines "x2 \<equiv> splice_at 4 [0, 0, 0, 0] x1"
  defines "x3 \<equiv> splice_at 8 orig x2"
  defines "x4 \<equiv> splice_at 2 [0, 0] x3"
  shows "length x1 = 36" "length x2 = 36" "length x3 = 36" "x4 = [type, code] @ [0, 0] @ [0, 0, 0, 0] @ orig"
    "splice_at 2 (bytes_u16 k) x4 = [type, code] @ bytes_u16 k @ [0, 0, 0, 0] @ orig"
proof -
  have x1: "x1 = [type, code] @ drop 2 x0" by (simp add: x1_def splice_at_def numeral_2_eq_2)
  have x2: "x2 = ([type, code] @ take 2 (drop 2 x0)) @ [0, 0, 0, 0] @ drop 8 x0"
    using l by (simp add: x2_def x1 splice_at_def)
  have x3: "x3 = [type, code] @ take 2 (drop 2 x0) @ [0, 0, 0, 0] @ orig"
    using l by (simp add: x3_def x2 splice_at_def)
  show x4: "x4 = [type, code] @ [0, 0] @ [0, 0, 0, 0] @ orig"
    unfolding x4_def x3 by (rule splice_mid) (use l in simp_all)
  show "splice_at 2 (bytes_u16 k) x4 = [type, code] @ bytes_u16 k @ [0, 0, 0, 0] @ orig"
    unfolding x4 by (rule splice_mid) simp_all
  show "length x1 = 36" "length x2 = 36" "length x3 = 36" using l by (simp_all add: x1 x2 x3)
qed

lemma queue_owns_below:
  assumes "queue_owns h q pss" "heap_ok h" "x \<in> set (concat pss)"
  shows "x < hp_brk h"
proof -
  obtain ps where ps: "ps \<in> set pss" "x \<in> set ps" using assms(3) by auto
  then obtain a where "owns h a ps" using assms(1) by (metis (no_types, lifting) in_set_conv_nth list_all2_conv_all_nth queue_owns_def)
  then have "hp_pbufs h x \<noteq> None" using chain_live [of h "Some a" ps x] ps(2) by (auto simp: owns_def packet_def)
  then show ?thesis using heap_okD(1) [OF assms(2)] by auto
qed

lemma icmp_response_writes:
  fixes type code :: u8
  assumes o: "owns h1 q (q # qs)" and pl: "pb_payload (the_pbuf h1 q) = Some (q, off)"
    and l: "length (pdata h1 q) = 36" "length orig = 28"
  defines "z \<equiv> [type, code] @ [0, 0] @ [0, 0, 0, 0] @ orig"
  obtains g1 g2 g3 g4 g5 where "st_write (Some (q, off)) 0 [type, code] (s\<lparr>st_heap := h1\<rparr>) = Some (s\<lparr>st_heap := g1\<rparr>)"
    "st_write (Some (q, off)) 4 [0, 0, 0, 0] (s\<lparr>st_heap := g1\<rparr>) = Some (s\<lparr>st_heap := g2\<rparr>)" "same_on (- {q}) h1 g2"
    "st_write (Some (q, off)) 8 orig (s\<lparr>st_heap := g2\<rparr>) = Some (s\<lparr>st_heap := g3\<rparr>)" "same_on (- {q}) h1 g3"
    "st_write (Some (q, off)) 2 [0, 0] (s\<lparr>st_heap := g3\<rparr>) = Some (s\<lparr>st_heap := g4\<rparr>)" "mem_read g4 (Some (q, off)) 0 36 = Some z"
    "st_write (Some (q, off)) 2 (bytes_u16 (inet_chksum (payload_odd (Some (q, off))) z)) (s\<lparr>st_heap := g4\<rparr>) = Some (s\<lparr>st_heap := g5\<rparr>)"
    "rewritten h1 q qs (icmp_error type code orig) g5"
proof -
  define x0 where "x0 = pdata h1 q"
  define x1 where "x1 = splice_at 0 [type, code] x0"
  define x2 where "x2 = splice_at 4 [0, 0, 0, 0] x1"
  define x3 where "x3 = splice_at 8 orig x2"
  define x4 where "x4 = splice_at 2 [0, 0] x3"
  let ?k = "bytes_u16 (inet_chksum False z)"
  have x0: "length x0 = 36" using l(1) by (simp add: x0_def)
  note W = icmp_error_writes [OF x0 l(2), where type = type and code = code]
  have L: "length x1 = 36" "length x2 = 36" "length x3 = 36" "x4 = z" "splice_at 2 ?k x4 = icmp_error type code orig"
    unfolding x4_def x3_def x2_def x1_def icmp_error_def z_def by (rule W(1), rule W(2), rule W(3), rule W(4), rule W(5))
  have step: "\<exists>g'. st_write (Some (q, off)) i zs (s\<lparr>st_heap := g\<rparr>) = Some (s\<lparr>st_heap := g'\<rparr>) \<and> rewritten h1 q qs (splice_at i zs xs) g'"
    if "rewritten h1 q qs xs g" "i + length zs \<le> length xs" for i zs xs g
    using rewritten_write [of h1 q qs xs "s\<lparr>st_heap := g\<rparr>", OF _ pl, of off i zs] that by auto
  have r0: "rewritten h1 q qs x0 h1" using rewritten_refl [OF o] by (simp add: x0_def)
  obtain g1 where w1: "st_write (Some (q, off)) 0 [type, code] (s\<lparr>st_heap := h1\<rparr>) = Some (s\<lparr>st_heap := g1\<rparr>)" "rewritten h1 q qs x1 g1"
    using step [OF r0, of 0 "[type, code]"] x0 by (auto simp: x1_def)
  obtain g2 where w2: "st_write (Some (q, off)) 4 [0, 0, 0, 0] (s\<lparr>st_heap := g1\<rparr>) = Some (s\<lparr>st_heap := g2\<rparr>)" "rewritten h1 q qs x2 g2"
    using step [OF w1(2), of 4 "[0, 0, 0, 0]"] L(1) by (auto simp: x2_def)
  obtain g3 where w3: "st_write (Some (q, off)) 8 orig (s\<lparr>st_heap := g2\<rparr>) = Some (s\<lparr>st_heap := g3\<rparr>)" "rewritten h1 q qs x3 g3"
    using step [OF w2(2), of 8 orig] L(2) l(2) by (auto simp: x3_def)
  obtain g4 where w4: "st_write (Some (q, off)) 2 [0, 0] (s\<lparr>st_heap := g3\<rparr>) = Some (s\<lparr>st_heap := g4\<rparr>)" "rewritten h1 q qs x4 g4"
    using step [OF w3(2), of 2 "[0, 0]"] L(3) by (auto simp: x4_def)
  have z36: "length z = 36" using l(2) by (simp add: z_def)
  obtain g5 where w5: "st_write (Some (q, off)) 2 ?k (s\<lparr>st_heap := g4\<rparr>) = Some (s\<lparr>st_heap := g5\<rparr>)" "rewritten h1 q qs (icmp_error type code orig) g5"
    using step [OF w4(2), of 2 ?k] z36 unfolding L(5) unfolding L(4) by auto
  have rz: "mem_read g4 (Some (q, off)) 0 36 = Some z"
    using rewritten_read [OF w4(2) pl, of off 0 36] z36 unfolding L(4) by (simp add: seg_def)
  have od: "inet_chksum (payload_odd (Some (q, off))) z = inet_chksum False z" using z36 by (simp add: inet_chksum_ones)
  have "same_on (- {q}) h1 g2" "same_on (- {q}) h1 g3" using w2(2) w3(2) by (simp_all add: rewritten_def)
  then show thesis using that w1(1) w2(1) w3(1) w4(1) rz w5 unfolding od by blast
qed

lemma icmp_send_response_sends:
  assumes l: "link_ready s c lk pss" and ok: "heap_ok (st_heap s)" "env_ok (st_heap s)"
    and p: "hp_pbufs (st_heap s) p = Some pb" "pb_payload pb = Some (b, o1)" "mem_read (st_heap s) (Some (b, o1)) 0 28 = Some orig"
    and rt: "ip4_route (of_nat (le_val (seg 12 4 orig))) s = Some global_if"
  obtains (nomem) h where "icmp_send_response p type code s = Some (s\<lparr>st_heap := h\<rparr>)"
      "hp_pbufs h = hp_pbufs (st_heap s)" "hp_blocks h = hp_blocks (st_heap s)" "hp_oom (st_heap s) (hp_brk (st_heap s))"
    | (sent) h rx q qs where
      "icmp_send_response p type code s
         = Some (s\<lparr>st_heap := h, st_ip_id := st_ip_id s + 1, st_links := (st_links s)(c \<mapsto> lk\<lparr>lk_rx := rx\<rparr>)\<rparr>)"
      "set (q # qs) \<subseteq> {hp_brk (st_heap s)..<hp_brk h}" "queue_owns h rx (kept pss @ [q # qs])"
      "same_on (- (set (q # qs) \<union> dropped pss)) (st_heap s) h"
      "pbytes h (q # qs) = ip_header 36 (st_ip_id s) 0 255 1 (nif_ip_addr (st_global_if s)) (of_nat (le_val (seg 12 4 orig)))
         @ icmp_error type code orig"
proof -
  let ?h = "st_heap s" and ?dst = "of_nat (le_val (seg 12 4 orig)) :: u32" and ?a36 = "of_nat (8 + IP_HLEN + ICMP_DEST_UNREACH_DATASIZE) :: u16"
  have a36: "?a36 = 36" by (simp add: IP_HLEN_def ICMP_DEST_UNREACH_DATASIZE_def)
  have ram: "PBUF_RAM = PBUF_RAM \<or> PBUF_RAM = PBUF_POOL" by simp
  from ok ram show thesis
  proof (cases rule: pbuf_alloc_cases [where layer = PBUF_IP and n = 36])
    case (fail h')
    then have "hp_oom ?h (hp_brk ?h)" using pbuf_alloc_ram_succeeds [of ?h 36 PBUF_IP] by auto
    with fail show thesis using nomem [of h'] unfolding icmp_send_response_def a36 by (simp add: on_heap_def)
  next
    case (ok h1 q qs off)
    have o: "owns h1 q (q # qs)" using ok(3,4) by (simp add: owns_def)
    have off: "34 \<le> off" "off \<le> 41" using ok(10,11) by (simp_all add: pbuf_layer_hlen_def)
    obtain qb where qb: "hp_pbufs h1 q = Some qb" "pb_payload qb = Some (q, off)" using owns_head [OF o] ok(9) by force
    have lq: "length (pdata h1 q) = unat (pb_len qb)" using length_pdata [OF owned_readable [OF owns_owned [OF o]]] qb by simp
    have l36: "unat (pb_len qb) = 36" "length (pbytes h1 qs) = 0" 
    proof -
      have "unat (pb_len qb) + length (pbytes h1 qs) = 36" "36 \<le> unat (pb_len qb)"
        using ok(5,12) off lq qb by (auto simp: good_head_def)
      then show "unat (pb_len qb) = 36" "length (pbytes h1 qs) = 0" by linarith+
    qed
    obtain bs where bs: "hp_blocks ?h b = Some bs" using p(3) by (auto simp: mem_read_def bind_eq_Some_conv)
    then have "b < hp_brk ?h" "p < hp_brk ?h" using heap_okD [OF assms(2)] p(1) by auto
    then have new: "p \<notin> set (q # qs)" "b \<notin> set (q # qs)" using ok(6) by (auto simp: subset_iff)
    have lo: "length orig = 28" and so: "orig = seg o1 28 bs" "o1 + 28 \<le> length bs"
      using p(3) bs by (auto simp: mem_read_def split: if_splits)
    have x36: "length (pdata h1 q) = 36" using lq l36 by simp
    let ?z = "[type, code] @ [0, 0] @ [0, 0, 0, 0] @ orig"
    obtain g1 g2 g3 g4 g5 where w: "st_write (Some (q, off)) 0 [type, code] (s\<lparr>st_heap := h1\<rparr>) = Some (s\<lparr>st_heap := g1\<rparr>)"
      "st_write (Some (q, off)) 4 [0, 0, 0, 0] (s\<lparr>st_heap := g1\<rparr>) = Some (s\<lparr>st_heap := g2\<rparr>)" "same_on (- {q}) h1 g2"
      "st_write (Some (q, off)) 8 orig (s\<lparr>st_heap := g2\<rparr>) = Some (s\<lparr>st_heap := g3\<rparr>)" "same_on (- {q}) h1 g3"
      "st_write (Some (q, off)) 2 [0, 0] (s\<lparr>st_heap := g3\<rparr>) = Some (s\<lparr>st_heap := g4\<rparr>)" "mem_read g4 (Some (q, off)) 0 36 = Some ?z"
      "st_write (Some (q, off)) 2 (bytes_u16 (inet_chksum (payload_odd (Some (q, off))) ?z)) (s\<lparr>st_heap := g4\<rparr>) = Some (s\<lparr>st_heap := g5\<rparr>)"
      "rewritten h1 q qs (icmp_error type code orig) g5"
      by (rule icmp_response_writes [OF o ok(9) x36 lo, where type = type and code = code and s = s], rule that)
    have keep: "hp_blocks g b = Some bs" if "same_on (- {q}) h1 g" for g
      using that ok(7) new(2) bs by (auto simp: same_on_def)
    have r28: "mem_read g2 (Some (b, o1)) 0 28 = Some orig" using keep [OF w(3)] so by (simp add: mem_read_def)
    have "seg (o1 + 12) 4 bs = seg 12 4 orig" by (simp add: so(1) seg_def take_drop min_def add.commute)
    then have rs: "read_u32 g3 (Some (b, o1)) 12 = Some ?dst" using keep [OF w(5)] so(2) by (simp add: read_u32_def mem_read_def)
    have G: "owns g5 q (q # qs)" "same_shape h1 g5" "same_on (- {q}) h1 g5" using w(9) by (simp_all add: rewritten_def)
    let ?s5 = "s\<lparr>st_heap := g5\<rparr>"
    have s5: "same_on (- set (q # qs)) ?h g5" by (rule same_on_trans [OF ok(7) same_on_subset [OF G(3)]]) auto
    have pss: "set (q # qs) \<inter> set (concat pss) = {}"
    proof -
      have "queue_owns ?h (lk_rx lk) pss" using l by (simp add: link_ready_def)
      from queue_owns_below [OF this assms(2)] show ?thesis using ok(6) by (fastforce simp: subset_iff)
    qed
    have lr: "link_ready ?s5 c lk pss"
      using l list_all2_owns_same [OF _ s5, of "queue_contents (lk_rx lk)" pss] pss by (auto simp: link_ready_def queue_owns_def)
    have B: "pbytes g5 (q # qs) = icmp_error type code orig" using rewritten_pbytes [OF w(9) o] l36(2) by simp
    have T: "pb_payload (the_pbuf g5 q) = Some (q, off)" "contiguous_data (the_pbuf g5 q)"
      using rewritten_len(2) [OF w(9)] ok(9,12) by (simp_all add: good_head_def)
    let ?src = "Some (nif_ip_addr (st_global_if s))"
    obtain s' h rx where S: "ip4_output_if_src q ?src (Some ?dst) 255 0 1 global_if ?s5 = Some (ERR_OK, s')"
      "st_pbuf_free (Some q) s' = Some (s\<lparr>st_heap := h, st_ip_id := st_ip_id s + 1, st_links := (st_links s)(c \<mapsto> lk\<lparr>lk_rx := rx\<rparr>)\<rparr>)"
      "queue_owns h rx (kept pss @ [q # qs])" "same_on (- ({q} \<union> dropped pss)) g5 h" "same_env g5 h"
      "pbytes h (q # qs) = ip_header 36 (st_ip_id s) 0 255 1 (nif_ip_addr (st_global_if s)) ?dst @ icmp_error type code orig"
    proof -
      have pre: "owns (st_heap ?s5) q (q # qs)" "pb_payload (the_pbuf (st_heap ?s5) q) = Some (q, off)"
        "contiguous_data (the_pbuf (st_heap ?s5) q)" "20 \<le> off" "20 + length (pbytes (st_heap ?s5) (q # qs)) < 65536"
        using G(1) T off B lo by (simp_all del: pbytes_simps)
      show thesis
        by (rule ip4_output_if_src_sends [OF lr pre(1) pss pre(2-5), of ?src ?dst 255 0 1], rule that)
          (simp_all add: B lo del: pbytes_simps)
    qed
    have out: "ip4_output_if q None (Some ?dst) ICMP_TTL 0 IP_PROTO_ICMP global_if ?s5 = Some (ERR_OK, s')"
      using S(1) by (simp add: ip4_output_if_def ip4_addr_isany_def netif_at_def ICMP_TTL_def IP_PROTO_ICMP_def)
    have pb1: "hp_pbufs h1 p = Some pb" using ok(7) new(1) p(1) by (simp add: same_on_def)
    have rt3: "ip4_route ?dst (s\<lparr>st_heap := g3\<rparr>) = Some global_if" using rt by (auto simp: ip4_route_def split: option.splits if_splits)
    have run: "icmp_send_response p type code s
        = Some (s\<lparr>st_heap := h, st_ip_id := st_ip_id s + 1, st_links := (st_links s)(c \<mapsto> lk\<lparr>lk_rx := rx\<rparr>)\<rparr>)"
      unfolding icmp_send_response_def a36
      using ok(1) qb l36(1) pb1 p(2) w(1,2,4,6-8) r28 rs rt3 out S(2) by (simp add: on_heap_def IP_HLEN_def ICMP_DEST_UNREACH_DATASIZE_def)
    have "same_on (- (set (q # qs) \<union> dropped pss)) ?h h"
      by (rule same_on_trans [OF same_on_subset [OF s5] same_on_subset [OF S(4)]]) auto
    moreover have "hp_brk h = hp_brk h1"
    proof -
      have "same_env h1 h" using same_env_trans [OF same_env_shape [OF G(2)] S(5)] .
      then show ?thesis unfolding same_env_def by (metis heap.select_convs(6) heap.surjective heap.update_convs(1,2))
    qed
    ultimately show thesis using sent [OF run _ S(3)] ok(6) S(6) by simp
  qed
qed

section \<open>Properties\<close>

text \<open>A ping from 10.0.0.2 to 10.0.0.1 that has arrived.\<close>

definition ex_ping_hdr :: "byte list" where
  "ex_ping_hdr = [0x45, 0, 0, 28, 0, 1, 0, 0, 64, 1, 0x66, 0xDE, 10, 0, 0, 2, 10, 0, 0, 1]"

definition ex_ping :: stack where
  "ex_ping = ex_out
     \<lparr>st_heap := (st_heap ex_out)\<lparr>hp_pbufs := [1 \<mapsto> ex_pbuf None (1, 34) 8 8 1],
         hp_blocks := [1 \<mapsto> replicate 14 0 @ ex_ping_hdr @ [8, 0, 0xF7, 0xFF, 0, 0, 0, 0]]\<rparr>,
      st_ip_data := \<lparr>current_netif = Some global_if, current_input_netif = Some global_if, current_ip4_header = Some (1, 14),
        current_ip_header_tot_len = 20, current_iphdr_src = 0x0200000A, current_iphdr_dest = 0x0100000A\<rparr>\<rparr>"

lemma ex_ping_received:
  "received ex_ping 1 [] 34 ex_ping_hdr ([8, 0] @ bytes_u16 0xFFF7 @ [0, 0, 0, 0])"
  "link_ready ex_ping 7 (the (st_links ex_ping 7)) []" "unat (pb_len (the_pbuf (st_heap ex_ping) 1)) = 8"
  "unicast ex_ping (recv_dest ex_ping)" "recv_src ex_ping = 0x0200000A" "recv_dest ex_ping = 0x0100000A"
proof -
  note d = ex_ping_def ex_out_def stack_zero_def ex_pbuf_def the_pbuf_def
  have "owned (st_heap ex_ping) 1" by (simp add: d owned_def ex_ping_hdr_def)
  moreover have "src_ok (the_pbuf (st_heap ex_ping) 1)"
    by (simp add: d src_ok_def pbuf_get_allocsrc_def PBUF_TYPE_ALLOC_SRC_MASK_def PBUF_TYPE_ALLOC_SRC_MASK_STD_HEAP_def)
  ultimately have "owns (st_heap ex_ping) 1 [1]" by (simp add: owns_def packet_def sole_def d)
  moreover have "pdata (st_heap ex_ping) 1 = [8, 0, 0xF7, 0xFF, 0, 0, 0, 0]"
    by (simp add: pdata_def mem_read_def d seg_def ex_ping_hdr_def)
  moreover have "[8, 0] @ bytes_u16 0xFFF7 @ [0, 0, 0, 0] = ([8, 0, 0xF7, 0xFF, 0, 0, 0, 0] :: byte list)" by (simp add: bytes_u16_def)
  moreover have "contiguous_data (the_pbuf (st_heap ex_ping) 1)" by (simp add: d contiguous_data_def PBUF_TYPE_FLAG_STRUCT_DATA_CONTIGUOUS_def)
  moreover have "le_val (seg 12 4 ex_ping_hdr) = 0x0200000A" "le_val (seg 16 4 ex_ping_hdr) = 0x0100000A"
    by (simp_all add: seg_def ex_ping_hdr_def)
  moreover have "unat (IPH_HL_BYTES (ex_ping_hdr ! 0)) = 20" by (simp add: ex_ping_hdr_def IPH_HL_BYTES_def)
  ultimately show "received ex_ping 1 [] 34 ex_ping_hdr ([8, 0] @ bytes_u16 0xFFF7 @ [0, 0, 0, 0])"
    unfolding received_def by (simp add: d) (simp add: ex_ping_hdr_def seg_def)
  show "link_ready ex_ping 7 (the (st_links ex_ping 7)) []"
    using queue_rep_contents [OF queue_zero] by (simp add: link_ready_def d queue_owns_def)
  show "unat (pb_len (the_pbuf (st_heap ex_ping) 1)) = 8" "recv_src ex_ping = 0x0200000A" "recv_dest ex_ping = 0x0100000A" by (simp_all add: d)
  show "unicast ex_ping (recv_dest ex_ping)"
    by (simp add: d unicast_def ip4_addr_ismulticast_def ip4_addr_isbroadcast_u32_def netif_zero_def IPADDR_ANY_def lwip_htonl_def)
qed

text \<open>The same packet with the payload pointer at the IP header, on an interface that is up.\<close>

definition ex_unreach :: stack where
  "ex_unreach = ex_ping\<lparr>st_heap := (st_heap ex_ping)\<lparr>hp_pbufs := [1 \<mapsto> ex_pbuf None (1, 14) 28 28 1]\<rparr>,
     st_netif_default := Some global_if, st_global_if := (st_global_if ex_ping)\<lparr>nif_flags := 5\<rparr>\<rparr>"

text \<open>C24: \<open>icmp_dest_unreach\<close> for a packet whose first 28 bytes are \<open>orig\<close>: when there is memory and a route to the
  sender, the link gets a packet to the source address of \<open>orig\<close>, with a correct IP header, followed by
  an ICMP message of type 3 with the code of the reason, \<open>orig\<close> itself, and a checksum that verifies; nothing else in
  the heap changes but for the packet that the queue drops when it is full.\<close>

theorem icmp_dest_unreach_reports:
  assumes "link_ready s c lk pss" "heap_ok (st_heap s)" "env_ok (st_heap s)" "\<not> hp_oom (st_heap s) (hp_brk (st_heap s))"
    and "hp_pbufs (st_heap s) p = Some pb" "pb_payload pb = Some (b, o1)" "mem_read (st_heap s) (Some (b, o1)) 0 28 = Some orig"
    and "ip4_route (of_nat (le_val (seg 12 4 orig))) s = Some global_if"
  shows "\<exists>s' rx q qs hdr k. icmp_dest_unreach p t s = Some s' \<and> st_links s' c = Some (lk\<lparr>lk_rx := rx\<rparr>)
    \<and> queue_owns (st_heap s') rx (kept pss @ [q # qs]) \<and> same_on (- (set (q # qs) \<union> dropped pss)) (st_heap s) (st_heap s')
    \<and> pbytes (st_heap s') (q # qs) = hdr @ [3, icmp_dur_val t] @ bytes_u16 k @ [0, 0, 0, 0] @ orig
    \<and> length hdr = 20 \<and> hdr ! 9 = 1 \<and> seg 16 4 hdr = seg 12 4 orig \<and> inet_chksum False hdr = 0
    \<and> inet_chksum False ([3, icmp_dur_val t] @ bytes_u16 k @ [0, 0, 0, 0] @ orig) = 0"
proof -
  let ?dst = "of_nat (le_val (seg 12 4 orig)) :: u32"
  let ?hd = "ip_header 36 (st_ip_id s) 0 255 1 (nif_ip_addr (st_global_if s)) ?dst"
  have lo: "length orig = 28" using assms(7) by (auto simp: mem_read_def bind_eq_Some_conv split: if_splits)
  have d: "bytes_u32 ?dst = seg 12 4 orig"
    using lo by (intro le_val_inj) (simp_all add: unat_le_val_4)
  from assms(1-3,5-8) show ?thesis
  proof (cases rule: icmp_send_response_sends [where type = ICMP_DUR and code = "icmp_dur_val t"])
    case (sent h rx q qs)
    let ?s = "s\<lparr>st_heap := h, st_ip_id := st_ip_id s + 1, st_links := (st_links s)(c \<mapsto> lk\<lparr>lk_rx := rx\<rparr>)\<rparr>"
    let ?k = "inet_chksum False ([3, icmp_dur_val t] @ [0, 0] @ [0, 0, 0, 0] @ orig)"
    have v: "inet_chksum False ([3, icmp_dur_val t] @ bytes_u16 ?k @ [0, 0, 0, 0] @ orig) = 0"
      using icmp_error_verifies [OF lo, of False 3 "icmp_dur_val t"] by (simp add: icmp_error_def)
    show ?thesis
      by (rule exI [of _ ?s], rule exI [of _ rx], rule exI [of _ q], rule exI [of _ qs], rule exI [of _ ?hd], rule exI [of _ ?k])
        (use sent d v in \<open>simp add: icmp_dest_unreach_def icmp_error_def ICMP_DUR_def ip_header_fields del: pbytes_simps\<close>)
  qed (use assms(4) in simp)
qed

theorem icmp_dest_unreach_reports_witness:
  "\<exists>s' q qs hdr k. icmp_dest_unreach 1 ICMP_DUR_PORT ex_unreach = Some s' \<and> pbytes (st_heap s') (q # qs)
      = hdr @ [3, 3] @ bytes_u16 k @ [0, 0, 0, 0] @ ex_ping_hdr @ [8, 0, 0xF7, 0xFF, 0, 0, 0, 0]
    \<and> seg 16 4 hdr = [10, 0, 0, 2]"
proof -
  note d = ex_unreach_def ex_ping_def ex_out_def stack_zero_def
  let ?orig = "ex_ping_hdr @ [8, 0, 0xF7, 0xFF, 0, 0, 0, 0]"
  have l: "link_ready ex_unreach 7 (the (st_links ex_unreach 7)) []"
    using queue_rep_contents [OF queue_zero] by (simp add: link_ready_def d queue_owns_def)
  have h: "heap_ok (st_heap ex_unreach)" "env_ok (st_heap ex_unreach)" "\<not> hp_oom (st_heap ex_unreach) (hp_brk (st_heap ex_unreach))"
    using mbox_new_inv [of "replicate 128 (0 :: nat)"]
    by (simp_all add: d heap_ok_def env_ok_def SYS_MBOX_SIZE_def) (simp add: sys_mbox_new_def mbox_ready_def SYS_MBOX_SIZE_def INT_MAX_def)
  have p: "hp_pbufs (st_heap ex_unreach) 1 = Some (ex_pbuf None (1, 14) 28 28 1)" "pb_payload (ex_pbuf None (1, 14) 28 28 1) = Some (1, 14)"
    "mem_read (st_heap ex_unreach) (Some (1, 14)) 0 28 = Some ?orig"
    by (simp_all add: d ex_pbuf_def mem_read_def ex_ping_hdr_def seg_def)
  have sg: "seg 12 4 ?orig = [10, 0, 0, 2]" by (simp add: seg_def ex_ping_hdr_def)
  have r: "ip4_route (of_nat (le_val (seg 12 4 ?orig))) ex_unreach = Some global_if"
    unfolding sg by (simp add: ip4_route_def d netif_at_def netif_is_up_def netif_is_link_up_def NETIF_FLAG_UP_def NETIF_FLAG_LINK_UP_def
        ip4_addr_isloopback_def lwip_htonl_def)
  from icmp_dest_unreach_reports [OF l h p r, of ICMP_DUR_PORT] show ?thesis
    unfolding sg icmp_dur_val_def icmp_dur_type.case by blast
qed

end
