(* ===== verification/Udp.thy ===== *)
theory Udp
  imports Icmp
begin

unbundle bit_operations_syntax

text \<open>
  Receiving UDP datagrams (\<open>lwip/core/udp.c\<close>), and the receive function that the native layer
  registers (\<open>native/udp.c\<close>).  The list of control blocks is searched for the best match: a block that is
  connected to the sender wins and moves to the front of the list; otherwise the first unconnected block
  takes the datagram.  A block that is bound to \<open>UDP_ACCEPT_ANY_PORT\<close> matches every destination port.
\<close>

definition UDP_HLEN :: nat where "UDP_HLEN = 8"

section \<open>Delivery to the native layer\<close>

text \<open>The bytes of a \<open>struct udp_metadata_t\<close>.\<close>

definition udp_metadata :: "u32 \<Rightarrow> u32 \<Rightarrow> u16 \<Rightarrow> u16 \<Rightarrow> byte list" where
  "udp_metadata src_addr dst_addr src_port dst_port =
     bytes_u32 src_addr @ bytes_u32 dst_addr @ bytes_u16 src_port @ bytes_u16 dst_port"

definition udp_on_received :: "addr option \<Rightarrow> addr \<Rightarrow> addr \<Rightarrow> ip4_addr_t \<Rightarrow> u16 \<Rightarrow> stack \<Rightarrow> stack option" where
  "udp_on_received arg pcb p src_addr src_port s = do {
     (buffer, s) \<leftarrow> on_heap (pbuf_alloc PBUF_RAW 12 PBUF_RAM) s;
     case buffer of
       None \<Rightarrow> Some s
     | Some b \<Rightarrow> do {
         let header = udp_metadata src_addr (current_iphdr_dest (st_ip_data s)) src_port (ud_dst (st_udp_data s));
         (_, s) \<leftarrow> on_heap (pbuf_take (Some b) header 12) s;
         s \<leftarrow> on_heap' (pbuf_cat (Some b) (Some p)) s;
         c \<leftarrow> arg;
         conn \<leftarrow> st_udp_conns s c;
         (rx, h) \<leftarrow> pbuf_queue_append (uc_rx conn) [Some b] (st_heap s);
         Some (s\<lparr>st_heap := h, st_udp_conns := (st_udp_conns s)(c \<mapsto> conn\<lparr>uc_rx := rx\<rparr>)\<rparr>)
       }
   }"

section \<open>Input\<close>

definition udp_input_local_match :: "udp_pcb \<Rightarrow> netif_ptr \<Rightarrow> bool \<Rightarrow> stack \<Rightarrow> bool option" where
  "udp_input_local_match pcb inp broadcast s = do {
     wrong \<leftarrow> (if up_netif_idx pcb \<noteq> NETIF_NO_INDEX
               then do { n \<leftarrow> current_input_netif (st_ip_data s); Some (up_netif_idx pcb \<noteq> netif_get_index (netif_at s n)) }
               else Some False);
     let dest = current_iphdr_dest (st_ip_data s);
     Some (if wrong then False
           else if broadcast then ip4_addr_isany_val (up_local_ip pcb) \<or> dest = IPADDR_BROADCAST
             \<or> ip4_addr_netcmp (up_local_ip pcb) dest (nif_netmask (netif_at s inp))
           else ip4_addr_isany_val (up_local_ip pcb) \<or> up_local_ip pcb = dest)
   }"

text \<open>
  The search through the list: the block that matches completely (if any), the first unconnected one, and
  the list with the complete match in front.  \<open>passed\<close> are the blocks before the current one.
\<close>

fun udp_input_loop :: "stack \<Rightarrow> netif_ptr \<Rightarrow> bool \<Rightarrow> u16 \<Rightarrow> u16 \<Rightarrow> addr list \<Rightarrow> addr list \<Rightarrow> addr option
    \<Rightarrow> (addr option \<times> addr option \<times> addr list) option" where
  "udp_input_loop s inp broadcast src dest passed [] uncon = Some (None, uncon, passed)"
| "udp_input_loop s inp broadcast src dest passed (a # rest) uncon = do {
     pcb \<leftarrow> st_udp_pcb s a;
     let port_ok = (up_local_port pcb = dest \<or> up_local_port pcb = UDP_ACCEPT_ANY_PORT);
     m \<leftarrow> (if port_ok then udp_input_local_match pcb inp broadcast s else Some False);
     if m then do {
       uncon \<leftarrow> (if up_flags pcb AND UDP_FLAGS_CONNECTED = 0 then
           (case uncon of
              None \<Rightarrow> Some (Some a)
            | Some u \<Rightarrow>
                if broadcast \<and> current_iphdr_dest (st_ip_data s) = IPADDR_BROADCAST then do {
                  ub \<leftarrow> st_udp_pcb s u;
                  Some (if up_local_ip ub \<noteq> nif_ip_addr (netif_at s inp) \<and> up_local_ip pcb = nif_ip_addr (netif_at s inp)
                        then Some a else uncon)
                } else Some uncon)
         else Some uncon);
       if up_remote_port pcb = src
         \<and> (ip4_addr_isany_val (up_remote_ip pcb) \<or> up_remote_ip pcb = current_iphdr_src (st_ip_data s))
       then Some (Some a, uncon, a # passed @ rest)
       else udp_input_loop s inp broadcast src dest (passed @ [a]) rest uncon
     }
     else udp_input_loop s inp broadcast src dest (passed @ [a]) rest uncon
   }"

text \<open>The test of the checksum: \<open>False\<close> is the jump to \<open>chkerr\<close>.\<close>

definition udp_check :: "addr \<Rightarrow> ptr option \<Rightarrow> u16 \<Rightarrow> stack \<Rightarrow> bool option" where
  "udp_check p udphdr tot_len s = do {
     let src = current_iphdr_src (st_ip_data s);
     let dst = current_iphdr_dest (st_ip_data s);
     proto \<leftarrow> read_u8 (st_heap s) (current_ip4_header (st_ip_data s)) 9;
     if proto = IP_PROTO_UDPLITE then do {
       n \<leftarrow> read_u16 (st_heap s) udphdr 4;
       let chklen = lwip_htons n;
       if chklen < 8 \<and> chklen \<noteq> 0 then Some False
       else do {
         let chklen = (if chklen = 0 then tot_len else chklen);
         c \<leftarrow> ip_chksum_pseudo_partial (Some p) IP_PROTO_UDPLITE tot_len chklen src dst (st_heap s);
         Some (c = 0)
       }
     } else do {
       chksum \<leftarrow> read_u16 (st_heap s) udphdr 6;
       if chksum = 0 then Some True
       else do {
         c \<leftarrow> ip_chksum_pseudo (Some p) IP_PROTO_UDP tot_len src dst (st_heap s);
         Some (c = 0)
       }
     }
   }"

text \<open>\<open>pcb->recv(pcb->recv_arg, pcb, p, ip_current_src_addr(), src)\<close>\<close>

definition udp_call_recv :: "udp_recv_fn \<Rightarrow> udp_pcb \<Rightarrow> addr \<Rightarrow> addr \<Rightarrow> u16 \<Rightarrow> stack \<Rightarrow> stack option" where
  "udp_call_recv f pcb a p src s = (case f of
      fn_udp_on_received \<Rightarrow> udp_on_received (up_recv_arg pcb) a p (current_iphdr_src (st_ip_data s)) src s)"

definition udp_input :: "addr \<Rightarrow> netif_ptr \<Rightarrow> stack \<Rightarrow> stack option" where
  "udp_input p inp s = do {
     pb \<leftarrow> hp_pbufs (st_heap s) p;
     if unat (pb_len pb) < UDP_HLEN then st_pbuf_free (Some p) s
     else do {
       let udphdr = pb_payload pb;
       broadcast \<leftarrow> ip4_addr_isbroadcast (current_iphdr_dest (st_ip_data s)) (current_netif (st_ip_data s)) s;
       src \<leftarrow> map_option lwip_htons (read_u16 (st_heap s) udphdr 0);
       dest \<leftarrow> map_option lwip_htons (read_u16 (st_heap s) udphdr 2);
       let s = s\<lparr>st_udp_data := \<lparr>ud_src = src, ud_dst = dest\<rparr>\<rparr>;
       (full, uncon, pcbs) \<leftarrow> udp_input_loop s inp broadcast src dest [] (st_udp_pcbs s) None;
       let s = s\<lparr>st_udp_pcbs := pcbs\<rparr>;
       let pcb = (if full = None then uncon else full);
       let for_us = (pcb \<noteq> None \<or> nif_ip_addr (netif_at s inp) = current_iphdr_dest (st_ip_data s));
       if \<not> for_us then st_pbuf_free (Some p) s
       else do {
         ok \<leftarrow> udp_check p udphdr (pb_tot_len pb) s;
         if \<not> ok then st_pbuf_free (Some p) s
         else do {
           (e, s) \<leftarrow> on_heap (pbuf_remove_header (Some p) UDP_HLEN) s;
           lwip_assert (e = 0);
           case pcb of
             Some a \<Rightarrow> do {
               ub \<leftarrow> st_udp_pcb s a;
               case up_recv ub of
                 Some f \<Rightarrow> udp_call_recv f ub a p src s
               | None \<Rightarrow> st_pbuf_free (Some p) s
             }
           | None \<Rightarrow> do {
               s \<leftarrow> (if \<not> broadcast \<and> \<not> ip4_addr_ismulticast (current_iphdr_dest (st_ip_data s)) then do {
                     (_, s) \<leftarrow> on_heap (pbuf_header_force (Some p)
                        (int (unat (current_ip_header_tot_len (st_ip_data s))) + int UDP_HLEN)) s;
                     icmp_dest_unreach p ICMP_DUR_PORT s
                   } else Some s);
               st_pbuf_free (Some p) s
             }
         }
       }
     }
   }"

section \<open>What the native layer gets\<close>

lemma same_env_fields:
  "same_env h h' \<Longrightarrow> hp_brk h' = hp_brk h \<and> hp_msgs h' = hp_msgs h \<and> hp_mbox h' = hp_mbox h \<and> hp_oom h' = hp_oom h"
  by (cases h, cases h') (simp add: same_env_def)

lemma heap_ok_same_on:
  assumes ok: "heap_ok h" and s: "same_on (- {a}) h h'" and e: "same_env h h'" and a: "hp_pbufs h a = Some pb"
  shows "heap_ok h'"
proof -
  have "dom (hp_pbufs h') \<subseteq> insert a (dom (hp_pbufs h))" "dom (hp_blocks h') \<subseteq> insert a (dom (hp_blocks h))"
    using s by (auto simp: same_on_def domIff)
  moreover have "hp_brk h' = hp_brk h" "hp_msgs h' = hp_msgs h"
    using same_env_fields [OF e] by simp_all
  ultimately show ?thesis using ok a by (fastforce simp: heap_ok_def)
qed

lemma heap_ok_shape: "heap_ok h \<Longrightarrow> same_shape h h' \<Longrightarrow> heap_ok h'"
  by (simp add: heap_ok_def same_shape_def)

lemma heap_ok_relinked: "heap_ok h \<Longrightarrow> relinked A h h' \<Longrightarrow> heap_ok h'"
  using relinked_env [of A h h'] by (simp add: heap_ok_def)

lemma owns_shape: "owns h a as \<Longrightarrow> same_shape h h' \<Longrightarrow> packet h' (Some a) as \<Longrightarrow> owns h' a as"
  by (simp add: owns_def sole_def same_shape_def list_all_iff)

lemma owns_fresh:
  assumes "owns h a as" "heap_ok h" "x \<in> set as"
  shows "x < hp_brk h"
  using chain_live [of h "Some a" as x] assms heap_okD(1) [OF assms(2)] by (auto simp: owns_def packet_def)

lemma length_udp_metadata [simp]: "length (udp_metadata sa da sp dp) = 12"
  by (simp add: udp_metadata_def)

lemma udp_on_received_spec:
  assumes o: "owns (st_heap s) p (p # as)" and ok: "heap_ok (st_heap s)" "env_ok (st_heap s)"
    and c: "st_udp_conns s c = Some conn" "queue_owns (st_heap s) (uc_rx conn) qss" "set (p # as) \<inter> set (concat qss) = {}"
    and n: "12 + length (pbytes (st_heap s) (p # as)) < 65536"
  obtains (nomem) h where "udp_on_received (Some c) u p sa sp s = Some (s\<lparr>st_heap := h\<rparr>)"
      "hp_pbufs h = hp_pbufs (st_heap s)" "hp_blocks h = hp_blocks (st_heap s)" "hp_oom (st_heap s) (hp_brk (st_heap s))"
    | (queued) h rx b bs where
      "udp_on_received (Some c) u p sa sp s = Some (s\<lparr>st_heap := h, st_udp_conns := (st_udp_conns s)(c \<mapsto> conn\<lparr>uc_rx := rx\<rparr>)\<rparr>)"
      "queue_owns h rx (kept qss @ [b # bs @ p # as])" "heap_ok h" "set (b # bs) \<subseteq> {hp_brk (st_heap s)..<hp_brk h}"
      "pbytes h (b # bs @ p # as) = udp_metadata sa (recv_dest s) sp (ud_dst (st_udp_data s)) @ pbytes (st_heap s) (p # as)"
      "same_on (- (set (b # bs @ p # as) \<union> dropped qss)) (st_heap s) h" "hp_mbox h = hp_mbox (st_heap s)"
proof -
  let ?h = "st_heap s" and ?md = "udp_metadata sa (recv_dest s) sp (ud_dst (st_udp_data s))"
  have ram: "PBUF_RAM = PBUF_RAM \<or> PBUF_RAM = PBUF_POOL" by simp
  from ok ram show thesis
  proof (cases rule: pbuf_alloc_cases [where layer = PBUF_RAW and n = 12])
    case (fail h')
    then have "hp_oom ?h (hp_brk ?h)" using pbuf_alloc_ram_succeeds [of ?h 12 PBUF_RAW] by auto
    with fail show thesis using nomem [of h'] by (simp add: udp_on_received_def on_heap_def)
  next
    case (ok h1 b bs off)
    have new: "x \<notin> set (b # bs)" if "x < hp_brk ?h" for x using ok(6) that by (auto simp: subset_iff)
    have pb: "set (b # bs) \<inter> set (p # as) = {}" using new owns_fresh [OF o assms(2)] by auto
    have qb: "set (b # bs) \<inter> set (concat qss) = {}" using new queue_owns_below [OF c(2) assms(2)] by blast
    obtain h2 where h2: "pbuf_take (Some b) ?md 12 h1 = Some (ERR_OK, h2)" "packet h2 (Some b) (b # bs)"
        "pbytes h2 (b # bs) = ?md" "same_shape h1 h2" "same_on (- set (b # bs)) h1 h2"
      using pbuf_take_spec [OF ok(3), of 12 ?md] ok(5) by (auto simp del: pbytes_simps)
    have s2: "same_on (- set (b # bs)) ?h h2" using same_on_trans [OF ok(7) h2(5)] .
    have o2: "owns h2 p (p # as)" "pbytes h2 (p # as) = pbytes ?h (p # as)"
      using owns_same [OF o s2] packet_same(2) [OF _ s2, of "Some p" "p # as"] o pb by (auto simp: owns_def)
    have lens: "length (pbytes h2 (b # bs)) + length (pbytes h2 (p # as)) < 65536" using h2(3) o2(2) n by simp
    obtain h3 where h3: "pbuf_cat (Some b) (Some p) h2 = Some h3" "packet h3 (Some b) ((b # bs) @ p # as)"
        "pbytes h3 ((b # bs) @ p # as) = ?md @ pbytes ?h (p # as)" "relinked (set (b # bs)) h2 h3"
      using pbuf_cat_spec [OF h2(2) _ pb lens] o2 h2(3) by (auto simp: owns_def simp del: pbytes_simps)
    have so: "list_all (sole h3) ((b # bs) @ p # as)"
      using relinked_live(2) [OF h3(4)] o2(1) ok(4) h2(4)
      by (auto simp: owns_def list_all_iff sole_def same_shape_def)
    have o3: "owns h3 b (b # bs @ p # as)" using h3(2) so by (simp add: owns_def)
    have s3: "same_on (- set (b # bs)) ?h h3"
      using s2 h3(4) relinked_env(1) [OF h3(4)] by (auto simp: same_on_def relinked_def)
    have q3: "queue_owns h3 (uc_rx conn) qss"
      using c(2) list_all2_owns_same [OF _ s3, of "queue_contents (uc_rx conn)" qss] qb by (auto simp: queue_owns_def)
    obtain rx where rx: "pbuf_queue_append (uc_rx conn) [Some b] h3 = Some (rx, without h3 (dropped qss))"
        "\<forall>h' as'. same_on (set (concat (kept qss))) h3 h' \<longrightarrow> owns h' b as' \<longrightarrow> set as' \<inter> set (concat qss) = {}
           \<longrightarrow> queue_owns h' rx (kept qss @ [as'])"
      using pbuf_queue_append_kept [OF q3, where a = b] by metis
    let ?g = "without h3 (dropped qss)"
    have sub: "set (b # bs @ p # as) \<subseteq> - dropped qss" using kept_subset(2) [of qss] qb c(3) by auto
    have sw: "same_on (- dropped qss) h3 ?g" by (simp add: same_on_def)
    have og: "owns ?g b (b # bs @ p # as)" using owns_same [OF o3 sw sub] .
    have ds: "distinct (concat qss)" using c(2) by (simp add: queue_owns_def)
    have "same_on (set (concat (kept qss))) h3 ?g" using same_on_subset [OF sw] kept_dropped [OF ds] by blast
    moreover have "set (b # bs @ p # as) \<inter> set (concat qss) = {}" using qb c(3) by auto
    ultimately have Q: "queue_owns ?g rx (kept qss @ [b # bs @ p # as])" using rx(2) og by blast
    have "pbytes ?g (b # bs @ p # as) = pbytes h3 ((b # bs) @ p # as)"
      using packet_same(2) [OF _ sw sub, of "Some b"] o3 by (simp add: owns_def del: pbytes_simps)
    then have B: "pbytes ?g (b # bs @ p # as) = ?md @ pbytes ?h (p # as)" using h3(3) by simp
    have S: "same_on (- (set (b # bs @ p # as) \<union> dropped qss)) ?h ?g"
      by (rule same_on_trans [OF same_on_subset [OF s3] same_on_subset [OF sw]]) auto
    have "hp_brk h3 = hp_brk h1" "hp_mbox h3 = hp_mbox ?h"
      using relinked_env [OF h3(4)] h2(4) ok(8) by (simp_all add: same_shape_def)
    then have E: "set (b # bs) \<subseteq> {hp_brk ?h..<hp_brk ?g}" "hp_mbox ?g = hp_mbox ?h" using ok(6) by simp_all
    have "heap_ok ?g" using heap_ok_relinked [OF heap_ok_shape [OF ok(2) h2(4)] h3(4)] by simp
    moreover have "udp_on_received (Some c) u p sa sp s = Some (s\<lparr>st_heap := ?g, st_udp_conns := (st_udp_conns s)(c \<mapsto> conn\<lparr>uc_rx := rx\<rparr>)\<rparr>)"
      using ok(1) h2(1) h3(1) c(1) rx(1)
      by (simp add: udp_on_received_def on_heap_def on_heap'_def Let_def del: pbuf_queue_append.simps)
    ultimately show thesis using queued Q B S E by blast
  qed
qed

section \<open>Finding the control block\<close>

text \<open>The local side of a block matches; the remote side matches too; the block is not connected.\<close>

definition udp_local_ok :: "stack \<Rightarrow> netif_ptr \<Rightarrow> bool \<Rightarrow> u16 \<Rightarrow> addr \<Rightarrow> bool" where
  "udp_local_ok s inp bc dest a \<longleftrightarrow> (let pcb = the (st_udp_pcb s a) in
     (up_local_port pcb = dest \<or> up_local_port pcb = UDP_ACCEPT_ANY_PORT) \<and> udp_input_local_match pcb inp bc s = Some True)"

definition udp_full_ok :: "stack \<Rightarrow> netif_ptr \<Rightarrow> bool \<Rightarrow> u16 \<Rightarrow> u16 \<Rightarrow> addr \<Rightarrow> bool" where
  "udp_full_ok s inp bc src dest a \<longleftrightarrow> udp_local_ok s inp bc dest a \<and> (let pcb = the (st_udp_pcb s a) in
     up_remote_port pcb = src \<and> (ip4_addr_isany_val (up_remote_ip pcb) \<or> up_remote_ip pcb = recv_src s))"

definition udp_unconnected :: "stack \<Rightarrow> addr \<Rightarrow> bool" where
  "udp_unconnected s a \<longleftrightarrow> up_flags (the (st_udp_pcb s a)) AND UDP_FLAGS_CONNECTED = 0"

definition or_else :: "'a option \<Rightarrow> 'a option \<Rightarrow> 'a option" where
  "or_else x y = (if x = None then y else x)"

lemma udp_local_match_total:
  "current_input_netif (st_ip_data s) \<noteq> None \<Longrightarrow> \<exists>b. udp_input_local_match pcb inp bc s = Some b"
  by (auto simp: udp_input_local_match_def Let_def)

text \<open>
  What the loop does with an unconnected block that matches: the first one is kept, but for a datagram to 255.255.255.255
  one that is bound to the interface's address replaces one that is not.
\<close>

definition udp_at_netif :: "stack \<Rightarrow> netif_ptr \<Rightarrow> addr \<Rightarrow> bool" where
  "udp_at_netif s inp a \<longleftrightarrow> up_local_ip (the (st_udp_pcb s a)) = nif_ip_addr (netif_at s inp)"

definition udp_global_broadcast :: "stack \<Rightarrow> bool \<Rightarrow> bool" where
  "udp_global_broadcast s bc \<longleftrightarrow> bc \<and> recv_dest s = IPADDR_BROADCAST"

definition udp_candidate :: "stack \<Rightarrow> netif_ptr \<Rightarrow> bool \<Rightarrow> u16 \<Rightarrow> addr \<Rightarrow> bool" where
  "udp_candidate s inp bc dest a \<longleftrightarrow> udp_local_ok s inp bc dest a \<and> udp_unconnected s a"

definition udp_consider :: "stack \<Rightarrow> netif_ptr \<Rightarrow> bool \<Rightarrow> u16 \<Rightarrow> addr \<Rightarrow> addr option \<Rightarrow> addr option" where
  "udp_consider s inp bc dest a uncon =
     (if udp_candidate s inp bc dest a
        \<and> (uncon = None \<or> udp_global_broadcast s bc \<and> \<not> udp_at_netif s inp (the uncon) \<and> udp_at_netif s inp a)
      then Some a else uncon)"

lemma udp_input_loop_step:
  assumes "st_udp_pcb s a = Some pcb" "current_input_netif (st_ip_data s) \<noteq> None" "\<forall>u. uncon = Some u \<longrightarrow> st_udp_pcb s u \<noteq> None"
  shows "udp_input_loop s inp bc src dest passed (a # rest) uncon =
    (let uncon' = udp_consider s inp bc dest a uncon in
     if udp_full_ok s inp bc src dest a then Some (Some a, uncon', a # passed @ rest)
     else udp_input_loop s inp bc src dest (passed @ [a]) rest uncon')"
proof -
  obtain m where m: "udp_input_local_match pcb inp bc s = Some m" using udp_local_match_total [OF assms(2)] by blast
  note d = udp_local_ok_def udp_full_ok_def udp_unconnected_def udp_consider_def udp_candidate_def udp_at_netif_def
    udp_global_broadcast_def Let_def
  show ?thesis
  proof (cases uncon)
    case None
    then show ?thesis using assms(1) m by (auto simp: d)
  next
    case (Some u)
    then obtain ub where "st_udp_pcb s u = Some ub" using assms(3) by blast
    then show ?thesis using Some assms(1) m by (auto simp: d)
  qed
qed

lemma udp_input_loop_spec:
  assumes "\<forall>a \<in> set rest. st_udp_pcb s a \<noteq> None" "current_input_netif (st_ip_data s) \<noteq> None"
    and "\<forall>u. uncon = Some u \<longrightarrow> st_udp_pcb s u \<noteq> None"
  shows "\<exists>uncon'. udp_input_loop s inp bc src dest passed rest uncon =
      Some (List.find (udp_full_ok s inp bc src dest) rest, uncon',
        (case List.find (udp_full_ok s inp bc src dest) rest of None \<Rightarrow> passed @ rest | Some a \<Rightarrow> a # passed @ remove1 a rest))
    \<and> (List.find (udp_full_ok s inp bc src dest) rest = None \<longrightarrow> uncon' = fold (udp_consider s inp bc dest) rest uncon)"
  using assms(1,3)
proof (induction rest arbitrary: passed uncon)
  case (Cons a rest)
  then obtain pcb where pcb: "st_udp_pcb s a = Some pcb" by auto
  let ?u = "udp_consider s inp bc dest a uncon"
  note st = udp_input_loop_step [OF pcb assms(2) Cons.prems(2)]
  show ?case
  proof (cases "udp_full_ok s inp bc src dest a")
    case True
    then show ?thesis unfolding st Let_def by simp
  next
    case False
    have na: "List.find P rest = Some x \<Longrightarrow> P x" for P and x :: addr by (auto simp: find_Some_iff)
    have live: "\<forall>u. ?u = Some u \<longrightarrow> st_udp_pcb s u \<noteq> None"
      using Cons.prems(2) pcb by (auto simp: udp_consider_def split: if_splits)
    obtain u' where u': "udp_input_loop s inp bc src dest (passed @ [a]) rest ?u =
        Some (List.find (udp_full_ok s inp bc src dest) rest, u',
          (case List.find (udp_full_ok s inp bc src dest) rest of None \<Rightarrow> (passed @ [a]) @ rest | Some x \<Rightarrow> x # (passed @ [a]) @ remove1 x rest))"
      "List.find (udp_full_ok s inp bc src dest) rest = None \<longrightarrow> u' = fold (udp_consider s inp bc dest) rest ?u"
      using Cons.IH [of ?u "passed @ [a]"] Cons.prems(1) live by auto
    show ?thesis
      unfolding st Let_def
      using False u' na [of "udp_full_ok s inp bc src dest"]
      by (cases "List.find (udp_full_ok s inp bc src dest) rest") auto
  qed
qed simp

text \<open>All the blocks considered: the first candidate at the interface's address, otherwise the first candidate.\<close>

lemma udp_consider_from:
  "fold (udp_consider s inp bc dest) as (Some u) =
    (if udp_global_broadcast s bc \<and> \<not> udp_at_netif s inp u
     then or_else (List.find (\<lambda>a. udp_candidate s inp bc dest a \<and> udp_at_netif s inp a) as) (Some u) else Some u)"
  by (induction as arbitrary: u) (auto simp: udp_consider_def or_else_def)

lemma udp_consider_all:
  "fold (udp_consider s inp bc dest) as None =
    or_else (if udp_global_broadcast s bc then List.find (\<lambda>a. udp_candidate s inp bc dest a \<and> udp_at_netif s inp a) as else None)
      (List.find (udp_candidate s inp bc dest) as)"
proof (induction as)
  case (Cons a as)
  have "udp_consider s inp bc dest a None = (if udp_candidate s inp bc dest a then Some a else None)"
    by (simp add: udp_consider_def)
  then show ?case using Cons.IH by (auto simp: udp_consider_from or_else_def)
qed (simp add: or_else_def)

lemma udp_input_loop_moves:
  "set (case List.find P xs of None \<Rightarrow> xs | Some a \<Rightarrow> a # remove1 a xs) = set xs"
proof (cases "List.find P xs")
  case (Some a)
  then have "a \<in> set xs" by (auto simp: find_Some_iff)
  moreover have "x \<in> set (remove1 a xs)" if "x \<in> set xs" "x \<noteq> a" for x using that by simp
  ultimately have "set (a # remove1 a xs) = set xs" using set_remove1_subset [of a xs] by fastforce
  then show ?thesis using Some by simp
qed simp

section \<open>Receiving a datagram\<close>

text \<open>What the test of the checksum accepts: a UDP datagram without a checksum or with a correct one.\<close>

definition udp_datagram_ok :: "u32 \<Rightarrow> u32 \<Rightarrow> byte list \<Rightarrow> bool" where
  "udp_datagram_ok src dest xs \<longleftrightarrow> seg 6 2 xs = [0, 0]
     \<or> ones (le_val (pseudo_header src dest IP_PROTO_UDP (of_nat (length xs)) @ xs)) = 65535"

lemma le_val_bytes2: "length xs = 2 \<Longrightarrow> of_nat (le_val xs) = (0 :: u16) \<longleftrightarrow> xs = [0, 0]"
proof -
  assume l: "length xs = 2"
  have lt: "le_val xs < 65536" using le_val_less [of xs] l by simp
  then have "of_nat (le_val xs) = (0 :: u16) \<longleftrightarrow> le_val xs = 0" using unat_of_nat_u16 [OF lt] by (metis unat_0 unat_eq_zero)
  also have "\<dots> \<longleftrightarrow> xs = [0, 0]" using le_val_inj [of xs "[0, 0]"] l by auto
  finally show ?thesis .
qed

lemma udp_check_ok:
  assumes r: "received s a as off hdr xs" and pr: "hdr ! 9 = IP_PROTO_UDP"
    and len: "8 \<le> unat (pb_len (the_pbuf (st_heap s) a))"
  shows "udp_check a (Some (a, off)) (of_nat (length xs)) (s\<lparr>st_udp_data := d, st_udp_pcbs := us\<rparr>)
    = Some (udp_datagram_ok (recv_src s) (recv_dest s) xs)"
proof -
  let ?h = "st_heap s"
  have o: "owns ?h a (a # as)" and pl: "pb_payload (the_pbuf ?h a) = Some (a, off)" and xs: "pbytes ?h (a # as) = xs"
    and h20: "20 \<le> length hdr" using r by (simp_all add: received_def)
  have pk: "packet ?h (Some a) (a # as)" using o by (simp add: owns_def)
  have ld: "length (pdata ?h a) = unat (pb_len (the_pbuf ?h a))" by (rule length_pdata [OF owned_readable [OF owns_owned [OF o]]])
  have p: "read_u8 ?h (current_ip4_header (st_ip_data s)) 9 = Some IP_PROTO_UDP"
  proof -
    have "seg 9 1 hdr = [hdr ! 9]" using h20 by (intro nth_equalityI) (simp_all add: nth_seg)
    then show ?thesis using received_header [OF r, of 9 1] h20 pr by (simp add: read_u8_def)
  qed
  have "mem_read ?h (Some (a, off)) 6 2 = Some (seg 6 2 (pdata ?h a))"
    using mem_read_pdata [OF owned_readable [OF owns_owned [OF o]], of 6 2] len pl by simp
  moreover have "seg 6 2 (pdata ?h a) = seg 6 2 xs" using xs ld len by (auto simp: seg_def)
  ultimately have c: "read_u16 ?h (Some (a, off)) 6 = Some (of_nat (le_val (seg 6 2 xs)))" by (simp add: read_u16_def)
  have l2: "length (seg 6 2 xs) = 2" using xs ld len by (auto intro: length_seg)
  have "inet_chksum_pseudo (Some a) IP_PROTO_UDP (of_nat (length xs)) (recv_src s) (recv_dest s) ?h
      = Some (NOT (of_nat (ones (le_val (pseudo_header (recv_src s) (recv_dest s) IP_PROTO_UDP (of_nat (length xs)) @ xs)))))"
    using inet_chksum_pseudo_sum [OF pk] xs by (simp del: pbytes_simps)
  then show ?thesis
    using p c le_val_bytes2 [OF l2]
    by (simp add: udp_check_def ip_chksum_pseudo_def udp_datagram_ok_def not_ones_0 IP_PROTO_UDP_def IP_PROTO_UDPLITE_def)
qed

text \<open>The ports as the header has them.\<close>

definition udp_port_at :: "nat \<Rightarrow> byte list \<Rightarrow> u16" where
  "udp_port_at k xs = lwip_htons (of_nat (le_val (seg k 2 xs)))"

text \<open>The control block that gets a datagram with the given ports.\<close>

definition udp_chosen :: "stack \<Rightarrow> u16 \<Rightarrow> u16 \<Rightarrow> addr option" where
  "udp_chosen s sp dp = or_else (List.find (udp_full_ok s global_if False sp dp) (st_udp_pcbs s))
     (List.find (\<lambda>a. udp_local_ok s global_if False dp a \<and> udp_unconnected s a) (st_udp_pcbs s))"

definition udp_front :: "stack \<Rightarrow> u16 \<Rightarrow> u16 \<Rightarrow> addr list" where
  "udp_front s sp dp = (case List.find (udp_full_ok s global_if False sp dp) (st_udp_pcbs s) of
     None \<Rightarrow> st_udp_pcbs s | Some a \<Rightarrow> a # remove1 a (st_udp_pcbs s))"

lemma udp_input_local_match_upd [simp]:
  "udp_input_local_match pcb inp bc (s\<lparr>st_udp_data := d\<rparr>) = udp_input_local_match pcb inp bc s"
  "udp_input_local_match pcb inp bc (s\<lparr>st_heap := h\<rparr>) = udp_input_local_match pcb inp bc s"
  "udp_input_local_match pcb inp bc (s\<lparr>st_links := ls\<rparr>) = udp_input_local_match pcb inp bc s"
  unfolding udp_input_local_match_def by (cases "current_input_netif (st_ip_data s)"; simp add: Let_def)+

lemma udp_ok_upd [simp]:
  "udp_local_ok (s\<lparr>st_udp_data := d\<rparr>) = udp_local_ok s" "udp_full_ok (s\<lparr>st_udp_data := d\<rparr>) = udp_full_ok s"
  "udp_unconnected (s\<lparr>st_udp_data := d\<rparr>) = udp_unconnected s"
  "udp_local_ok (s\<lparr>st_heap := h\<rparr>) = udp_local_ok s" "udp_full_ok (s\<lparr>st_heap := h\<rparr>) = udp_full_ok s"
  "udp_unconnected (s\<lparr>st_heap := h\<rparr>) = udp_unconnected s"
  "udp_local_ok (s\<lparr>st_links := ls\<rparr>) = udp_local_ok s" "udp_full_ok (s\<lparr>st_links := ls\<rparr>) = udp_full_ok s"
  "udp_unconnected (s\<lparr>st_links := ls\<rparr>) = udp_unconnected s"
  by (simp_all add: fun_eq_iff udp_local_ok_def udp_full_ok_def udp_unconnected_def Let_def)

lemma udp_chosen_upd [simp]: "udp_chosen (s\<lparr>st_heap := h\<rparr>) = udp_chosen s" "udp_chosen (s\<lparr>st_links := ls\<rparr>) = udp_chosen s"
  by (simp_all add: fun_eq_iff udp_chosen_def)

lemma udp_input_run:
  assumes r: "received s a as off hdr xs" and pr: "hdr ! 9 = IP_PROTO_UDP" and u: "unicast s (recv_dest s)"
    and len: "8 \<le> unat (pb_len (the_pbuf (st_heap s) a))" and pcbs: "pcbs_live s"
    and ok: "udp_datagram_ok (recv_src s) (recv_dest s) xs"
    and ch: "udp_chosen s (udp_port_at 0 xs) (udp_port_at 2 xs) = Some v" "st_udp_pcb s v = Some ub" "up_recv ub = Some fn_udp_on_received"
  obtains h where "owns h a (a # as)" "pbytes h (a # as) = drop 8 xs" "same_on (- {a}) (st_heap s) h" "same_env (st_heap s) h"
    "heap_ok (st_heap s) \<Longrightarrow> heap_ok h"
    "udp_input a global_if s = udp_on_received (up_recv_arg ub) v a (recv_src s) (udp_port_at 0 xs)
       (s\<lparr>st_udp_data := \<lparr>ud_src = udp_port_at 0 xs, ud_dst = udp_port_at 2 xs\<rparr>,
          st_udp_pcbs := udp_front s (udp_port_at 0 xs) (udp_port_at 2 xs), st_heap := h\<rparr>)"
proof -
  let ?h = "st_heap s" and ?sp = "udp_port_at 0 xs" and ?dp = "udp_port_at 2 xs"
  let ?s1 = "s\<lparr>st_udp_data := \<lparr>ud_src = ?sp, ud_dst = ?dp\<rparr>\<rparr>"
  have o: "owns ?h a (a # as)" and pl: "pb_payload (the_pbuf ?h a) = Some (a, off)" and xs: "pbytes ?h (a # as) = xs"
    and ip: "current_netif (st_ip_data s) = Some global_if" "current_input_netif (st_ip_data s) = Some global_if"
    using r by (simp_all add: received_def)
  have pk: "packet ?h (Some a) (a # as)" using o by (simp add: owns_def)
  obtain pb where pb: "hp_pbufs ?h a = Some pb" using owns_head [OF o] by blast
  have tot: "pb_tot_len pb = of_nat (length xs)"
    using packet_Some [OF pk] pb xs by (metis of_nat_unat option.inject ucast_id)
  have ld: "length (pdata ?h a) = unat (pb_len (the_pbuf ?h a))" by (rule length_pdata [OF owned_readable [OF owns_owned [OF o]]])
  have rd: "map_option lwip_htons (read_u16 ?h (Some (a, off)) k) = Some (udp_port_at k xs)" if "k \<le> 2" for k
  proof -
    have "mem_read ?h (Some (a, off)) k 2 = Some (seg k 2 (pdata ?h a))"
      using mem_read_pdata [OF owned_readable [OF owns_owned [OF o]], of k 2] len pl that by simp
    moreover have "seg k 2 (pdata ?h a) = seg k 2 xs" using xs ld len that by (auto simp: seg_def)
    ultimately show ?thesis by (simp add: read_u16_def udp_port_at_def)
  qed
  have lv: "\<forall>a \<in> set (st_udp_pcbs s). st_udp_pcb ?s1 a \<noteq> None" using pcbs by (simp add: pcbs_live_def)
  obtain un where lp: "udp_input_loop ?s1 global_if False ?sp ?dp [] (st_udp_pcbs s) None
      = Some (List.find (udp_full_ok s global_if False ?sp ?dp) (st_udp_pcbs s), un, udp_front s ?sp ?dp)"
    and un: "List.find (udp_full_ok s global_if False ?sp ?dp) (st_udp_pcbs s) = None
      \<longrightarrow> un = List.find (\<lambda>a. udp_local_ok s global_if False ?dp a \<and> udp_unconnected s a) (st_udp_pcbs s)"
    using udp_input_loop_spec [OF lv, of None global_if False ?sp ?dp "[]"] ip
    unfolding append_Nil udp_front_def udp_consider_all udp_global_broadcast_def udp_candidate_def or_else_def
    by (auto simp del: udp_input_loop.simps)
  have pc: "(if List.find (udp_full_ok s global_if False ?sp ?dp) (st_udp_pcbs s) = None then un
      else List.find (udp_full_ok s global_if False ?sp ?dp) (st_udp_pcbs s)) = Some v"
    using ch(1) un by (auto simp: udp_chosen_def or_else_def split: if_splits)
  have n8: "8 \<le> unat (pb_len (the_pbuf ?h a))" by (rule len)
  obtain h where h: "pbuf_remove_header (Some a) 8 ?h = Some (0, h)" "packet h (Some a) (a # as)"
      "pbytes h (a # as) = drop 8 (pbytes ?h (a # as))" "same_on (- {a}) ?h h" "list_all (sole h) (a # as)" "same_env ?h h"
      "hp_blocks h = hp_blocks ?h"
    using pbuf_remove_header_spec [OF pk n8] o same_env_pbufs by (metis owns_def)
  have run: "udp_input a global_if s = udp_on_received (up_recv_arg ub) v a (recv_src s) ?sp
       (s\<lparr>st_udp_data := \<lparr>ud_src = ?sp, ud_dst = ?dp\<rparr>, st_udp_pcbs := udp_front s ?sp ?dp, st_heap := h\<rparr>)"
    using pb pl len rd [of 0] rd [of 2] isbroadcast_unicast [OF u] ip lp pc tot h(1) ch(2,3)
      udp_check_ok [OF r pr len, where d = "\<lparr>ud_src = ?sp, ud_dst = ?dp\<rparr>" and us = "udp_front s ?sp ?dp"] ok
    by (simp add: udp_input_def UDP_HLEN_def on_heap_def Let_def udp_call_recv_def del: map_option_eq_Some)
  have "heap_ok h" if "heap_ok ?h" using heap_ok_same_on [OF that h(4,6) pb] .
  with that [of h] show thesis using h run xs by (simp add: owns_def del: pbytes_simps)
qed

lemma udp_front_set: "set (udp_front s sp dp) = set (st_udp_pcbs s)"
  unfolding udp_front_def by (rule udp_input_loop_moves)

text \<open>C9: The search for a control block: the first block whose local and remote sides match wins and moves to the front
  of the list, which keeps the same blocks.  When there is none the list does not change and the
  first unconnected block whose local side matches is returned, except for a broadcast to 255.255.255.255, for which the first
  such block bound to the interface's own address goes before.\<close>

theorem udp_input_loop_best_match:
  assumes "pcbs_live s" "current_input_netif (st_ip_data s) \<noteq> None"
  shows "\<exists>full uncon pcbs. udp_input_loop s inp bc src dest [] (st_udp_pcbs s) None = Some (full, uncon, pcbs)
    \<and> full = List.find (udp_full_ok s inp bc src dest) (st_udp_pcbs s) \<and> set pcbs = set (st_udp_pcbs s)
    \<and> (\<forall>a. full = Some a \<longrightarrow> pcbs = a # remove1 a (st_udp_pcbs s))
    \<and> (full = None \<longrightarrow> pcbs = st_udp_pcbs s
        \<and> (let matches = (\<lambda>a. udp_local_ok s inp bc dest a \<and> udp_unconnected s a);
               at_netif = (\<lambda>a. up_local_ip (the (st_udp_pcb s a)) = nif_ip_addr (netif_at s inp));
               first = List.find matches pcbs;
               best = List.find (\<lambda>a. matches a \<and> at_netif a) pcbs
           in uncon = (if bc \<and> recv_dest s = IPADDR_BROADCAST \<and> best \<noteq> None then best else first)))"
proof -
  have lv: "\<forall>a \<in> set (st_udp_pcbs s). st_udp_pcb s a \<noteq> None" using assms(1) by (simp add: pcbs_live_def)
  show ?thesis
    using udp_input_loop_spec [OF lv assms(2), of None inp bc src dest "[]"]
      udp_input_loop_moves [where P = "udp_full_ok s inp bc src dest" and xs = "st_udp_pcbs s"]
    unfolding append_Nil udp_consider_all or_else_def udp_candidate_def udp_at_netif_def udp_global_broadcast_def Let_def
    by (cases "List.find (udp_full_ok s inp bc src dest) (st_udp_pcbs s)") (auto simp del: udp_input_loop.simps)
qed

text \<open>A UDP datagram for the native layer: control block 3 takes every port, its receive function belongs to connection 5.\<close>

definition ex_dgram_hdr :: "byte list" where
  "ex_dgram_hdr = [0x45, 0, 0, 30, 0, 1, 0, 0, 64, 17, 0x66, 0xCC, 10, 0, 0, 2, 10, 0, 0, 1]"

definition ex_dgram :: stack where
  "ex_dgram = ex_ping
     \<lparr>st_heap := (st_heap ex_out)\<lparr>hp_pbufs := [1 \<mapsto> ex_pbuf None (1, 34) 10 10 1],
         hp_blocks := [1 \<mapsto> replicate 14 0 @ ex_dgram_hdr @ [0x30, 0x39, 0, 53, 0, 10, 0, 0, 7, 9]]\<rparr>,
      st_udp_pcbs := [3],
      st_udp_pcb := [3 \<mapsto> \<lparr>up_local_ip = 0, up_remote_ip = 0, up_netif_idx = 0, up_so_options = 0, up_tos = 0, up_ttl = 255,
         up_flags = 0, up_local_port = UDP_ACCEPT_ANY_PORT, up_remote_port = 0, up_chksum_len_rx = 0, up_chksum_len_tx = 0,
         up_recv = Some fn_udp_on_received, up_recv_arg = Some 5\<rparr>],
      st_udp_conns := [5 \<mapsto> \<lparr>uc_pcb = Some 3, uc_rx = pbuf_queue_zero, uc_tx = pbuf_queue_zero, uc_tx_polling = False\<rparr>]\<rparr>"

lemma ex_dgram_received:
  "received ex_dgram 1 [] 34 ex_dgram_hdr [0x30, 0x39, 0, 53, 0, 10, 0, 0, 7, 9]"
  "unicast ex_dgram (recv_dest ex_dgram)" "unat (pb_len (the_pbuf (st_heap ex_dgram) 1)) = 10"
  "pcbs_live ex_dgram" "heap_ok (st_heap ex_dgram)" "env_ok (st_heap ex_dgram)"
  "\<not> hp_oom (st_heap ex_dgram) (hp_brk (st_heap ex_dgram))"
  "udp_chosen ex_dgram (udp_port_at 0 [0x30, 0x39, 0, 53, 0, 10, 0, 0, 7, 9]) (udp_port_at 2 [0x30, 0x39, 0, 53, 0, 10, 0, 0, 7, 9]) = Some 3"
proof -
  note d = ex_dgram_def ex_ping_def ex_out_def stack_zero_def ex_pbuf_def the_pbuf_def
  have "owned (st_heap ex_dgram) 1" by (simp add: d owned_def ex_dgram_hdr_def)
  moreover have "src_ok (the_pbuf (st_heap ex_dgram) 1)"
    by (simp add: d src_ok_def pbuf_get_allocsrc_def PBUF_TYPE_ALLOC_SRC_MASK_def PBUF_TYPE_ALLOC_SRC_MASK_STD_HEAP_def)
  ultimately have "owns (st_heap ex_dgram) 1 [1]" by (simp add: owns_def packet_def sole_def d)
  moreover have "pdata (st_heap ex_dgram) 1 = [0x30, 0x39, 0, 53, 0, 10, 0, 0, 7, 9]"
    by (simp add: pdata_def mem_read_def d seg_def ex_dgram_hdr_def)
  moreover have "contiguous_data (the_pbuf (st_heap ex_dgram) 1)" by (simp add: d contiguous_data_def PBUF_TYPE_FLAG_STRUCT_DATA_CONTIGUOUS_def)
  moreover have "le_val (seg 12 4 ex_dgram_hdr) = 0x0200000A" "le_val (seg 16 4 ex_dgram_hdr) = 0x0100000A"
    by (simp_all add: seg_def ex_dgram_hdr_def)
  moreover have "unat (IPH_HL_BYTES (ex_dgram_hdr ! 0)) = 20" by (simp add: ex_dgram_hdr_def IPH_HL_BYTES_def)
  ultimately show "received ex_dgram 1 [] 34 ex_dgram_hdr [0x30, 0x39, 0, 53, 0, 10, 0, 0, 7, 9]"
    unfolding received_def by (simp add: d) (simp add: ex_dgram_hdr_def seg_def)
  show "unicast ex_dgram (recv_dest ex_dgram)"
    by (simp add: d unicast_def ip4_addr_ismulticast_def ip4_addr_isbroadcast_u32_def netif_zero_def IPADDR_ANY_def lwip_htonl_def)
  show "unat (pb_len (the_pbuf (st_heap ex_dgram) 1)) = 10" "pcbs_live ex_dgram" "heap_ok (st_heap ex_dgram)"
    "\<not> hp_oom (st_heap ex_dgram) (hp_brk (st_heap ex_dgram))"
    by (simp_all add: d pcbs_live_def heap_ok_def)
  show "env_ok (st_heap ex_dgram)"
    using mbox_new_inv [of "replicate 128 (0 :: nat)"]
    by (simp add: d env_ok_def SYS_MBOX_SIZE_def) (simp add: sys_mbox_new_def mbox_ready_def SYS_MBOX_SIZE_def INT_MAX_def)
  have "udp_port_at 0 [0x30, 0x39, 0, 53, 0, 10, 0, 0, 7, 9] = 0x3039" "udp_port_at 2 [0x30, 0x39, 0, 53, 0, 10, 0, 0, 7, 9] = 53"
    by (simp_all add: udp_port_at_def seg_def lwip_htons_def)
  then show "udp_chosen ex_dgram (udp_port_at 0 [0x30, 0x39, 0, 53, 0, 10, 0, 0, 7, 9]) (udp_port_at 2 [0x30, 0x39, 0, 53, 0, 10, 0, 0, 7, 9]) = Some 3"
    by (simp add: udp_chosen_def or_else_def udp_full_ok_def udp_local_ok_def udp_unconnected_def udp_input_local_match_def
        d ip4_addr_isany_val_def IPADDR_ANY_def NETIF_NO_INDEX_def)
qed

text \<open>The same datagram, sent to 255.255.255.255, with a block for 10.0.0.9 before one for the interface's address 10.0.0.1.\<close>

definition ex_bcast :: stack where
  "ex_bcast = ex_dgram
     \<lparr>st_ip_data := (st_ip_data ex_dgram)\<lparr>current_iphdr_dest := IPADDR_BROADCAST\<rparr>,
      st_global_if := (st_global_if ex_dgram)\<lparr>nif_ip_addr := 0x0100000A\<rparr>,
      st_udp_pcbs := [4, 3],
      st_udp_pcb := (\<lambda>a. map_option (\<lambda>p. p\<lparr>up_local_ip := (if a = 3 then 0x0100000A else 0x0900000A)\<rparr>)
        (st_udp_pcb ex_dgram 3))\<rparr>"

theorem udp_input_loop_best_match_witness:
  "udp_input_loop ex_dgram global_if False 0x3039 53 [] [3] None = Some (None, Some 3, [3])
   \<and> udp_input_loop ex_bcast global_if True 0x3039 53 [] [4, 3] None = Some (None, Some 3, [4, 3])"
proof -
  note d = ex_dgram_def ex_ping_def ex_out_def stack_zero_def
  note e = udp_full_ok_def udp_local_ok_def udp_unconnected_def udp_input_local_match_def ip4_addr_isany_val_def IPADDR_ANY_def
    NETIF_NO_INDEX_def
  have f: "List.find (udp_full_ok ex_dgram global_if False 0x3039 53) [3] = None"
    "List.find (\<lambda>a. udp_local_ok ex_dgram global_if False 53 a \<and> udp_unconnected ex_dgram a) [3] = Some 3"
    "st_udp_pcbs ex_dgram = [3]" "current_input_netif (st_ip_data ex_dgram) \<noteq> None"
    by (simp_all add: e d)
  have g: "List.find (udp_full_ok ex_bcast global_if True 0x3039 53) [4, 3] = None"
    "List.find (\<lambda>a. (udp_local_ok ex_bcast global_if True 53 a \<and> udp_unconnected ex_bcast a)
      \<and> up_local_ip (the (st_udp_pcb ex_bcast a)) = nif_ip_addr (netif_at ex_bcast global_if)) [4, 3] = Some 3"
    "st_udp_pcbs ex_bcast = [4, 3]" "current_input_netif (st_ip_data ex_bcast) \<noteq> None" "pcbs_live ex_bcast"
    "recv_dest ex_bcast = IPADDR_BROADCAST"
    by (simp_all add: e d ex_bcast_def pcbs_live_def netif_at_def)
  show ?thesis
    using udp_input_loop_best_match [OF ex_dgram_received(4) f(4), of global_if False "0x3039" 53]
      udp_input_loop_best_match [OF g(5,4), of global_if True "0x3039" 53]
    unfolding f(3) g(3) Let_def by (auto simp: f(1,2) g(1,6) g(2) [simplified conj_assoc] simp del: udp_input_loop.simps List.find.simps)
qed

text \<open>A datagram for a block of the native layer, with a correct checksum or none: \<open>udp_input\<close> puts it, with
  addresses and ports of both sides in front of its data, at the end of the receive queue of the connection
  (when the queue was full its oldest packet is released); no other packet changes.\<close>

lemma udp_input_delivers:
  assumes "received s a as off hdr xs" "hdr ! 9 = IP_PROTO_UDP" "unicast s (recv_dest s)"
    and "8 \<le> unat (pb_len (the_pbuf (st_heap s) a))" "pcbs_live s" "udp_datagram_ok (recv_src s) (recv_dest s) xs"
    and "udp_chosen s (udp_port_at 0 xs) (udp_port_at 2 xs) = Some v" "st_udp_pcb s v = Some ub"
    and "up_recv ub = Some fn_udp_on_received" "up_recv_arg ub = Some c" "st_udp_conns s c = Some conn"
    and "queue_owns (st_heap s) (uc_rx conn) qss" "set (a # as) \<inter> set (concat qss) = {}"
    and "heap_ok (st_heap s)" "env_ok (st_heap s)" "\<not> hp_oom (st_heap s) (hp_brk (st_heap s))"
  shows "\<exists>s' rx b bs. udp_input a global_if s = Some s' \<and> st_udp_conns s' c = Some (conn\<lparr>uc_rx := rx\<rparr>)
    \<and> queue_owns (st_heap s') rx (kept qss @ [b # bs @ a # as])
    \<and> pbytes (st_heap s') (b # bs @ a # as) =
        udp_metadata (recv_src s) (recv_dest s) (udp_port_at 0 xs) (udp_port_at 2 xs) @ drop 8 xs
    \<and> same_on (- (set (b # bs @ a # as) \<union> dropped qss)) (st_heap s) (st_heap s')"
proof -
  obtain h where h: "owns h a (a # as)" "pbytes h (a # as) = drop 8 xs" "same_on (- {a}) (st_heap s) h" "same_env (st_heap s) h"
    "heap_ok (st_heap s) \<longrightarrow> heap_ok h"
    "udp_input a global_if s = udp_on_received (up_recv_arg ub) v a (recv_src s) (udp_port_at 0 xs)
       (s\<lparr>st_udp_data := \<lparr>ud_src = udp_port_at 0 xs, ud_dst = udp_port_at 2 xs\<rparr>,
          st_udp_pcbs := udp_front s (udp_port_at 0 xs) (udp_port_at 2 xs), st_heap := h\<rparr>)" (is "_ = udp_on_received _ _ _ _ _ ?s")
    using udp_input_run [OF assms(1-9)] by metis
  have e: "env_ok h" "hp_oom h (hp_brk h) = hp_oom (st_heap s) (hp_brk (st_heap s))"
    using same_env_fields [OF h(4)] assms(15) by (simp_all add: env_ok_def)
  have q: "queue_owns h (uc_rx conn) qss"
    using assms(12,13) list_all2_owns_same [OF _ h(3), of "queue_contents (uc_rx conn)" qss] by (auto simp: queue_owns_def)
  have n: "12 + length (pbytes h (a # as)) < 65536" using h(2) assms(1) by (auto simp: received_def simp del: pbytes_simps)
  have p: "owns (st_heap ?s) a (a # as)" "heap_ok (st_heap ?s)" "env_ok (st_heap ?s)" "st_udp_conns ?s c = Some conn"
    "queue_owns (st_heap ?s) (uc_rx conn) qss" "12 + length (pbytes (st_heap ?s) (a # as)) < 65536"
    using h(1,5) assms(11,14) e(1) q n by (simp_all del: pbytes_simps)
  show ?thesis
  proof (rule udp_on_received_spec [OF p(1-5) assms(13) p(6), of v "recv_src s" "udp_port_at 0 xs"])
    fix h' assume "hp_oom (st_heap ?s) (hp_brk (st_heap ?s))" then show ?thesis using e(2) assms(16) by simp
  next
    fix h' rx b bs
    assume k: "udp_on_received (Some c) v a (recv_src s) (udp_port_at 0 xs) ?s = Some (?s\<lparr>st_heap := h', st_udp_conns := (st_udp_conns ?s)(c \<mapsto> conn\<lparr>uc_rx := rx\<rparr>)\<rparr>)"
      "queue_owns h' rx (kept qss @ [b # bs @ a # as])"
      "pbytes h' (b # bs @ a # as) = udp_metadata (recv_src s) (recv_dest ?s) (udp_port_at 0 xs) (ud_dst (st_udp_data ?s)) @ pbytes (st_heap ?s) (a # as)"
      "same_on (- (set (b # bs @ a # as) \<union> dropped qss)) (st_heap ?s) h'"
    have "same_on (- (set (b # bs @ a # as) \<union> dropped qss)) (st_heap s) h'"
      by (rule same_on_trans [OF same_on_subset [OF h(3)]]) (use k(4) in auto)
    then show ?thesis
      by (intro exI [of _ "?s\<lparr>st_heap := h', st_udp_conns := (st_udp_conns ?s)(c \<mapsto> conn\<lparr>uc_rx := rx\<rparr>)\<rparr>"] exI [of _ rx] exI [of _ b] exI [of _ bs])
        (use h(2,6) k assms(10) in \<open>simp del: pbytes_simps\<close>)
  qed
qed

end
