(* ===== verification/Ip4_In.thy ===== *)
theory Ip4_In
  imports Udp
begin

unbundle bit_operations_syntax

text \<open>
  Receiving: \<open>ip4_input\<close> (\<open>lwip/core/ipv4/ip4.c\<close>) checks the header, decides whether the packet is for this
  host and hands it to UDP, TCP or ICMP.  The program is a catch-all gateway: its interface has the address
  0.0.0.0, and \<open>LWIP_NETIF_ALLOW_ANY\<close> makes it accept packets to any unicast address.  TCP is a
  parameter of the definitions.
\<close>

type_synonym tcp_input_fn = "addr \<Rightarrow> netif_ptr \<Rightarrow> stack \<Rightarrow> stack option"

definition ip4_input_accept :: "netif_ptr \<Rightarrow> stack \<Rightarrow> bool" where
  "ip4_input_accept netif s =
     (let n = netif_at s netif; dest = current_iphdr_dest (st_ip_data s) in
      if netif_is_up n then dest = nif_ip_addr n \<or> ip4_addr_isbroadcast_u32 dest n \<or> ip4_addr_isany_val (nif_ip_addr n)
      else False)"

text \<open>The header checks up to the checksum: the length of the header, or nothing when the packet is bad.\<close>

definition ip4_input_check :: "addr \<Rightarrow> stack \<Rightarrow> (nat option \<times> stack) option" where
  "ip4_input_check p s = do {
     pb \<leftarrow> hp_pbufs (st_heap s) p;
     let iphdr = pb_payload pb;
     v_hl \<leftarrow> read_u8 (st_heap s) iphdr 0;
     if IPH_V v_hl \<noteq> 4 then Some (None, s)
     else do {
       let iphdr_hlen = unat (IPH_HL_BYTES v_hl);
       iphdr_len \<leftarrow> map_option lwip_htons (read_u16 (st_heap s) iphdr 2);
       s \<leftarrow> (if iphdr_len < pb_tot_len pb then on_heap' (pbuf_realloc (Some p) iphdr_len) s else Some s);
       pb \<leftarrow> hp_pbufs (st_heap s) p;
       if iphdr_hlen > unat (pb_len pb) \<or> iphdr_len > pb_tot_len pb \<or> iphdr_hlen < IP_HLEN then Some (None, s)
       else do {
         bs \<leftarrow> mem_read (st_heap s) iphdr 0 iphdr_hlen;
         if inet_chksum (payload_odd iphdr) bs \<noteq> 0 then Some (None, s) else Some (Some iphdr_hlen, s)
       }
     }
   }"

text \<open>The interface a packet is accepted on.\<close>

definition ip4_input_netif :: "netif_ptr \<Rightarrow> stack \<Rightarrow> netif_ptr option" where
  "ip4_input_netif inp s =
     (if ip4_addr_ismulticast (current_iphdr_dest (st_ip_data s))
      then (if netif_is_up (netif_at s inp) \<and> \<not> ip4_addr_isany_val (nif_ip_addr (netif_at s inp)) then Some inp else None)
      else if ip4_input_accept inp s then Some inp else None)"

text \<open>Handing the packet to the protocol above.\<close>

definition ip4_input_deliver :: "tcp_input_fn \<Rightarrow> addr \<Rightarrow> ptr option \<Rightarrow> nat \<Rightarrow> netif_ptr \<Rightarrow> netif_ptr \<Rightarrow> stack \<Rightarrow> stack option" where
  "ip4_input_deliver tcp_input p iphdr iphdr_hlen netif inp s = do {
     (_, s) \<leftarrow> on_heap (pbuf_remove_header (Some p) iphdr_hlen) s;
     proto \<leftarrow> read_u8 (st_heap s) iphdr 9;
     if proto = IP_PROTO_UDP \<or> proto = IP_PROTO_UDPLITE then udp_input p inp s
     else if proto = IP_PROTO_TCP then tcp_input p inp s
     else if proto = IP_PROTO_ICMP then icmp_input p inp s
     else do {
       let dest = current_iphdr_dest (st_ip_data s);
       bc \<leftarrow> ip4_addr_isbroadcast dest (Some netif) s;
       s \<leftarrow> (if \<not> bc \<and> \<not> ip4_addr_ismulticast dest then do {
              (_, s) \<leftarrow> on_heap (pbuf_header_force (Some p) (int iphdr_hlen)) s;
              icmp_dest_unreach p ICMP_DUR_PROTO s
            } else Some s);
       st_pbuf_free (Some p) s
     }
   }"

definition ip4_input :: "tcp_input_fn \<Rightarrow> addr \<Rightarrow> netif_ptr \<Rightarrow> stack \<Rightarrow> (err_t \<times> stack) option" where
  "ip4_input tcp_input p inp s = do {
     pb \<leftarrow> hp_pbufs (st_heap s) p;
     let iphdr = pb_payload pb;
     (r, s) \<leftarrow> ip4_input_check p s;
     case r of
       None \<Rightarrow> do { s \<leftarrow> st_pbuf_free (Some p) s; Some (ERR_OK, s) }
     | Some iphdr_hlen \<Rightarrow> do {
         dest \<leftarrow> read_u32 (st_heap s) iphdr 16;
         src \<leftarrow> read_u32 (st_heap s) iphdr 12;
         let s = s\<lparr>st_ip_data := (st_ip_data s)\<lparr>current_iphdr_dest := dest, current_iphdr_src := src\<rparr>\<rparr>;
         let netif = ip4_input_netif inp s;
         bc \<leftarrow> ip4_addr_isbroadcast src (Some inp) s;
         if bc \<or> ip4_addr_ismulticast src then do { s \<leftarrow> st_pbuf_free (Some p) s; Some (ERR_OK, s) }
         else case netif of
           None \<Rightarrow> do { s \<leftarrow> st_pbuf_free (Some p) s; Some (ERR_OK, s) }
         | Some netif \<Rightarrow> do {
             off \<leftarrow> read_u16 (st_heap s) iphdr 6;
             if off AND lwip_htons (0x1FFF OR 0x2000) \<noteq> 0 then do { s \<leftarrow> st_pbuf_free (Some p) s; Some (ERR_OK, s) }
             else do {
               v_hl \<leftarrow> read_u8 (st_heap s) iphdr 0;
               let s = s\<lparr>st_ip_data := (st_ip_data s)\<lparr>current_netif := Some netif, current_input_netif := Some inp,
                    current_ip4_header := iphdr, current_ip_header_tot_len := IPH_HL_BYTES v_hl\<rparr>\<rparr>;
               s \<leftarrow> ip4_input_deliver tcp_input p iphdr iphdr_hlen netif inp s;
               Some (ERR_OK, s\<lparr>st_ip_data := ip_data_zero\<rparr>)
             }
           }
       }
   }"

section \<open>A well-formed packet\<close>

text \<open>
  A header that the checks accept, in front of \<open>n\<close> bytes: version 4, the length fields fit, no fragment,
  and the checksum verifies.
\<close>

definition ip_header_ok :: "byte list \<Rightarrow> nat \<Rightarrow> bool" where
  "ip_header_ok hdr n \<longleftrightarrow> 20 \<le> length hdr \<and> IPH_V (hdr ! 0) = 4 \<and> unat (IPH_HL_BYTES (hdr ! 0)) = length hdr
     \<and> lwip_htons (of_nat (le_val (seg 2 2 hdr))) = of_nat (length hdr + n)
     \<and> of_nat (le_val (seg 6 2 hdr)) AND lwip_htons (0x1FFF OR 0x2000) = 0 \<and> inet_chksum False hdr = 0"

abbreviation "hdr_src hdr \<equiv> of_nat (le_val (seg 12 4 hdr)) :: ip4_addr_t"
abbreviation "hdr_dest hdr \<equiv> of_nat (le_val (seg 16 4 hdr)) :: ip4_addr_t"

text \<open>The interface of the program takes packets to every unicast address, from every unicast address.\<close>

definition ip_addrs_ok :: "stack \<Rightarrow> byte list \<Rightarrow> bool" where
  "ip_addrs_ok s hdr \<longleftrightarrow> netif_is_up (st_global_if s) \<and> (ip4_addr_isany_val (nif_ip_addr (st_global_if s)) \<or> hdr_dest hdr = nif_ip_addr (st_global_if s))
     \<and> \<not> ip4_addr_ismulticast (hdr_dest hdr) \<and> \<not> ip4_addr_ismulticast (hdr_src hdr)
     \<and> ip4_addr_isbroadcast (hdr_src hdr) (Some global_if) s = Some False"

lemma owns_read:
  assumes o: "owns h a (a # as)" and pl: "pb_payload (the_pbuf h a) = Some (a, off)" and n: "k + n \<le> unat (pb_len (the_pbuf h a))"
  shows "mem_read h (Some (a, off)) k n = Some (seg k n (pbytes h (a # as)))"
proof -
  note r = owned_readable [OF owns_owned [OF o]]
  have "seg k n (pdata h a) = seg k n (pbytes h (a # as))" using n length_pdata [OF r] by (simp add: seg_def)
  then show ?thesis using mem_read_pdata [OF r n] pl by simp
qed

lemma seg_prefix: "k + n \<le> length xs \<Longrightarrow> seg k n (xs @ ys) = seg k n xs"
  by (simp add: seg_def)

lemma seg_1: "k < length xs \<Longrightarrow> seg k 1 xs = [xs ! k]"
  by (intro nth_equalityI) (simp_all add: nth_seg)

text \<open>The length fields of the header in front of a packet.\<close>

definition ip_hl :: "byte list \<Rightarrow> nat" where "ip_hl xs = unat (IPH_HL_BYTES (xs ! 0))"
definition ip_tot :: "byte list \<Rightarrow> u16" where "ip_tot xs = lwip_htons (of_nat (le_val (seg 2 2 xs)))"

text \<open>A packet that is longer than its header says is cut to that length, and its other pbufs are released.\<close>

lemma ip4_trim:
  assumes o: "owns (st_heap s) a (a # as)" and pb: "hp_pbufs (st_heap s) a = Some pb"
  obtains h' as' where
    "(if n < pb_tot_len pb then on_heap' (pbuf_realloc (Some a) n) s else Some s) = Some (s\<lparr>st_heap := h'\<rparr>)"
    "owns h' a (a # as')" "pbytes h' (a # as') = take (unat n) (pbytes (st_heap s) (a # as))"
    "pb_payload (the_pbuf h' a) = pb_payload pb" "pb_len (the_pbuf h' a) = min (pb_len pb) n"
    "hp_blocks h' a = hp_blocks (st_heap s) a" "without h' (set (a # as')) = without (st_heap s) (set (a # as))"
    "length (pbytes (st_heap s) (a # as)) \<le> unat n \<Longrightarrow> h' = st_heap s"
proof -
  let ?h = "st_heap s"
  have pk: "packet ?h (Some a) (a # as)" and so: "list_all (sole ?h) (a # as)" using o by (simp_all add: owns_def)
  have tot: "unat (pb_tot_len pb) = length (pbytes ?h (a # as))"
    using packet_Some [OF pk] pb by (metis option.inject)
  have tp: "the_pbuf ?h a = pb" using pb by (simp add: the_pbuf_def)
  show thesis
  proof (cases "n < pb_tot_len pb")
    case True
    then have n: "unat n < length (pbytes ?h (a # as))" using tot by (simp add: word_less_nat_alt)
    have lv: "list_all (live ?h) (a # as)" using so by (auto simp: list_all_iff intro: sole_live)
    obtain h' pre b post where r: "a # as = pre @ b # post" "pbuf_realloc (Some a) n ?h = Some h'" "packet h' (Some a) (pre @ [b])"
      "pbytes h' (pre @ [b]) = take (unat n) (pbytes ?h (a # as))" "list_all (sole h') (pre @ [b])"
      "\<forall>x \<in> set (pre @ [b]). hp_blocks h' x = hp_blocks ?h x \<and> pb_payload (the_pbuf h' x) = pb_payload (the_pbuf ?h x)"
      "pb_len (the_pbuf h' a) = min (pb_len (the_pbuf ?h a)) n" "without h' (set (pre @ [b])) = without ?h (set (a # as))"
      using pbuf_realloc_trim [OF pk lv n] so by metis
    obtain as' where as': "pre @ [b] = a # as'" using r(1) by (cases pre) auto
    show thesis
      by (rule that [of h' as']) (use True r as' tp n in \<open>simp_all add: on_heap'_def owns_def del: pbytes_simps\<close>)
  next
    case False
    have "length (pbytes ?h (a # as)) \<le> unat n" using False tot by (simp add: not_less word_le_nat_alt)
    moreover have "unat (pb_len pb) \<le> length (pbytes ?h (a # as))"
      using length_pdata [OF owned_readable [OF owns_owned [OF o]]] tp by auto
    ultimately have "pb_len pb \<le> n" by (simp add: word_le_nat_alt)
    then show thesis
      by (intro that [of ?h as]) (use False o tp \<open>length _ \<le> unat n\<close> in \<open>simp_all add: min_absorb1 del: pbytes_simps\<close>)
  qed
qed

text \<open>
  The checks, for a packet of which the first four bytes at the payload are memory \<open>m\<close> of its buffer (a packet of fewer
  bytes is looked at all the same).  They run on the packet after it has been cut.
\<close>

definition ip_len_ok :: "nat \<Rightarrow> nat \<Rightarrow> byte list \<Rightarrow> bool" where
  "ip_len_ok len n m \<longleftrightarrow> IPH_V (m ! 0) = 4 \<and> 20 \<le> ip_hl m \<and> ip_hl m \<le> min len (unat (ip_tot m)) \<and> unat (ip_tot m) \<le> n"

lemma ip4_input_check_run:
  assumes o: "owns (st_heap s) a (a # as)" and pl: "pb_payload (the_pbuf (st_heap s) a) = Some (a, off)"
    and xs: "pbytes (st_heap s) (a # as) = xs" and m: "mem_read (st_heap s) (Some (a, off)) 0 4 = Some m"
  obtains h' as' where "ip4_input_check a s = Some (if ip_len_ok (unat (pb_len (the_pbuf (st_heap s) a))) (length xs) m
      \<and> inet_chksum False (take (ip_hl m) xs) = 0 then Some (ip_hl m) else None, s\<lparr>st_heap := h'\<rparr>)"
    "owns h' a (a # as')" "pbytes h' (a # as') = (if IPH_V (m ! 0) = 4 then take (unat (ip_tot m)) xs else xs)"
    "pb_payload (the_pbuf h' a) = Some (a, off)" "without h' (set (a # as')) = without (st_heap s) (set (a # as))"
    "IPH_V (m ! 0) = 4 \<Longrightarrow> pb_len (the_pbuf h' a) = min (pb_len (the_pbuf (st_heap s) a)) (ip_tot m)"
    "length xs \<le> unat (ip_tot m) \<Longrightarrow> h' = st_heap s"
proof -
  let ?h = "st_heap s"
  obtain pb where pb: "hp_pbufs ?h a = Some pb" using owns_head [OF o] by blast
  have tp: "the_pbuf ?h a = pb" using pb by (simp add: the_pbuf_def)
  obtain bs where bs: "hp_blocks ?h a = Some bs" "off + 4 \<le> length bs" "m = seg off 4 bs"
    using m by (auto simp: mem_read_def seg_def bind_eq_Some_conv split: if_splits)
  have r: "read_u8 ?h (Some (a, off)) 0 = Some (m ! 0)" "map_option lwip_htons (read_u16 ?h (Some (a, off)) 2) = Some (ip_tot m)"
    using bs by (simp_all add: read_u8_def read_u16_def mem_read_def ip_tot_def seg_def nth_append drop_take min_def take_Suc_conv_app_nth)
  show thesis
  proof (cases "IPH_V (m ! 0) = 4")
    case False
    then show thesis
      by (intro that [of ?h as]) (use o xs pl tp pb r(1) in \<open>simp_all add: ip4_input_check_def ip_len_ok_def del: pbytes_simps\<close>)
  next
    case True
    obtain h' as' where t: "(if ip_tot m < pb_tot_len pb then on_heap' (pbuf_realloc (Some a) (ip_tot m)) s else Some s) = Some (s\<lparr>st_heap := h'\<rparr>)"
      "owns h' a (a # as')" "pbytes h' (a # as') = take (unat (ip_tot m)) (pbytes ?h (a # as))"
      "pb_payload (the_pbuf h' a) = pb_payload pb" "pb_len (the_pbuf h' a) = min (pb_len pb) (ip_tot m)"
      "hp_blocks h' a = hp_blocks ?h a" "without h' (set (a # as')) = without ?h (set (a # as))"
      "length (pbytes ?h (a # as)) \<le> unat (ip_tot m) \<Longrightarrow> h' = ?h"
      using ip4_trim [OF o pb] by blast
    have pl': "pb_payload (the_pbuf h' a) = Some (a, off)" using t(4) pl tp by simp
    obtain pb' where pb': "hp_pbufs h' a = Some pb'" "unat (pb_tot_len pb') = min (length xs) (unat (ip_tot m))"
      using packet_Some [of h' "Some a" "a # as'"] t(2,3) xs by (metis length_take option.inject owns_def)
    have len: "pb_len pb' = min (pb_len pb) (ip_tot m)" using t(5) pb'(1) by (simp add: the_pbuf_def)
    have ulen: "unat (pb_len pb') = min (unat (pb_len pb)) (unat (ip_tot m))"
      unfolding len by (simp add: min_def word_le_nat_alt)
    have gt: "ip_tot m > pb_tot_len pb' \<longleftrightarrow> length xs < unat (ip_tot m)" using pb'(2) by (auto simp: word_less_nat_alt)
    have rh: "mem_read h' (Some (a, off)) 0 (ip_hl m) = Some (take (ip_hl m) xs)" if hl: "ip_hl m \<le> unat (pb_len pb')"
    proof -
      have "mem_read h' (Some (a, off)) 0 (ip_hl m) = Some (seg 0 (ip_hl m) (take (unat (ip_tot m)) xs))"
        using owns_read [OF t(2) pl', of 0 "ip_hl m"] hl pb'(1) t(3) xs by (simp add: the_pbuf_def del: pbytes_simps)
      moreover have "ip_hl m \<le> unat (ip_tot m)" using hl ulen by simp
      ultimately show ?thesis by (simp add: seg_def min_absorb1)
    qed
    have ck: "inet_chksum (payload_odd (Some (a, off))) (take (ip_hl m) xs) = inet_chksum False (take (ip_hl m) xs)"
      if "ip_hl m \<le> unat (pb_len pb')"
    proof -
      have "length (take (ip_hl m) xs) \<le> ip_hl m" by simp
      then have "length (take (ip_hl m) xs) < 65536" using that unat_u16_less [of "pb_len pb'"] by linarith
      then show ?thesis by (simp only: inet_chksum_ones)
    qed
    have lo: "ip_len_ok (unat (pb_len pb)) (length xs) m \<longleftrightarrow> 20 \<le> ip_hl m \<and> ip_hl m \<le> unat (pb_len pb') \<and> unat (ip_tot m) \<le> length xs"
      by (simp add: ip_len_ok_def True ulen)
    have "ip4_input_check a s = Some (if ip_len_ok (unat (pb_len pb)) (length xs) m
        \<and> inet_chksum False (take (ip_hl m) xs) = 0 then Some (ip_hl m) else None, s\<lparr>st_heap := h'\<rparr>)"
      using pb pl tp r True t(1) pb'(1) rh ck
      by (auto simp: ip4_input_check_def lo IP_HLEN_def ip_hl_def [symmetric] gt Let_def simp del: map_option_eq_Some)
    then show thesis
      by (intro that [of h' as']) (use True t(2,3,5,7,8) pl' tp xs in \<open>simp_all del: pbytes_simps\<close>)
  qed
qed

lemma ip_fields_seg:
  "4 \<le> length xs \<Longrightarrow> ip_hl (seg 0 4 xs) = ip_hl xs" "4 \<le> length xs \<Longrightarrow> ip_tot (seg 0 4 xs) = ip_tot xs"
  "4 \<le> length xs \<Longrightarrow> seg 0 4 xs ! 0 = xs ! 0" "4 \<le> length xs \<Longrightarrow> ip_len_ok len n (seg 0 4 xs) = ip_len_ok len n xs"
proof -
  assume "4 \<le> length xs"
  then have "seg 0 4 xs ! 0 = xs ! 0" "seg 2 2 (seg 0 4 xs) = seg 2 2 xs" by (auto simp: seg_def drop_take)
  then show "ip_hl (seg 0 4 xs) = ip_hl xs" "ip_tot (seg 0 4 xs) = ip_tot xs" "seg 0 4 xs ! 0 = xs ! 0"
    "ip_len_ok len n (seg 0 4 xs) = ip_len_ok len n xs"
    by (simp_all add: ip_hl_def ip_tot_def ip_len_ok_def)
qed

lemma ip4_input_check_ok:
  assumes o: "owns (st_heap s) a (a # as)" and pl: "pb_payload (the_pbuf (st_heap s) a) = Some (a, off)"
    and xs: "pbytes (st_heap s) (a # as) = hdr @ data" and hd: "ip_header_ok hdr (length data)"
    and len: "length hdr \<le> unat (pb_len (the_pbuf (st_heap s) a))"
  shows "ip4_input_check a s = Some (Some (length hdr), s)"
proof -
  have h20: "20 \<le> length hdr" using hd by (simp add: ip_header_ok_def)
  have n: "20 \<le> unat (pb_len (the_pbuf (st_heap s) a))" using h20 len by linarith
  have m: "mem_read (st_heap s) (Some (a, off)) 0 4 = Some (seg 0 4 (hdr @ data))"
    using owns_read [OF o pl, of 0 4] n xs by simp
  have "(hdr @ data) ! 0 = hdr ! 0" "seg 2 2 (hdr @ data) = seg 2 2 hdr" using h20 by (auto simp: nth_append seg_prefix)
  then have f: "ip_hl (hdr @ data) = length hdr" "ip_tot (hdr @ data) = of_nat (length (hdr @ data))" "(hdr @ data) ! 0 = hdr ! 0"
    using hd by (simp_all add: ip_hl_def ip_tot_def ip_header_ok_def)
  have "length (hdr @ data) < 65536" using packet_tot_bound o xs by (metis owns_def)
  then have t: "unat (ip_tot (hdr @ data)) = length (hdr @ data)" unfolding f(2) by (rule unat_of_nat_u16)
  have l4: "4 \<le> length (hdr @ data)" using h20 by simp
  have ok: "ip_len_ok (unat (pb_len (the_pbuf (st_heap s) a))) (length (hdr @ data)) (hdr @ data)"
    "inet_chksum False (take (length hdr) (hdr @ data)) = 0"
    using t f(1,3) len hd by (simp_all add: ip_len_ok_def ip_header_ok_def)
  obtain h' where "ip4_input_check a s = Some (if ip_len_ok (unat (pb_len (the_pbuf (st_heap s) a))) (length (hdr @ data)) (hdr @ data)
      \<and> inet_chksum False (take (length hdr) (hdr @ data)) = 0 then Some (length hdr) else None, s\<lparr>st_heap := h'\<rparr>)"
    "length (hdr @ data) \<le> unat (ip_tot (hdr @ data)) \<Longrightarrow> h' = st_heap s"
    using ip4_input_check_run [OF o pl xs m] unfolding ip_fields_seg [OF l4] f(1) by metis
  then show ?thesis using ok t by simp
qed

text \<open>The state in which the protocol above gets a packet.\<close>

definition ip_received :: "addr \<Rightarrow> nat \<Rightarrow> byte list \<Rightarrow> ip_globals" where
  "ip_received a off hdr = \<lparr>current_netif = Some global_if, current_input_netif = Some global_if,
     current_ip4_header = Some (a, off), current_ip_header_tot_len = of_nat (length hdr),
     current_iphdr_src = hdr_src hdr, current_iphdr_dest = hdr_dest hdr\<rparr>"

lemma pb_len_after:
  assumes o: "owns h a (a # as)" "owns h' a (a # as)" and s: "same_on (- {a}) h h'"
    and b: "pbytes h' (a # as) = drop n (pbytes h (a # as))" and n: "n \<le> unat (pb_len (the_pbuf h a))"
  shows "unat (pb_len (the_pbuf h' a)) + n = unat (pb_len (the_pbuf h a))"
proof -
  have pk: "packet h (Some a) (a # as)" using o(1) by (simp add: owns_def)
  have na: "a \<notin> set as" using chain_distinct [OF packet_chain [OF pk]] by simp
  have "pbytes h' as = pbytes h as"
    using pk na by (intro pbytes_cong) (auto simp: packet_def list_all_iff intro: pdata_same [OF s])
  moreover have "length (pdata h a) = unat (pb_len (the_pbuf h a))" "length (pdata h' a) = unat (pb_len (the_pbuf h' a))"
    using o by (simp_all add: length_pdata owned_readable owns_owned)
  moreover have "length (pbytes h' (a # as)) = length (pbytes h (a # as)) - n" using b by (simp del: pbytes_simps)
  ultimately show ?thesis using n by simp
qed

lemma ip4_input_run:
  assumes o: "owns (st_heap s) a (a # as)" and pl: "pb_payload (the_pbuf (st_heap s) a) = Some (a, off)" "contiguous_data (the_pbuf (st_heap s) a)"
    and xs: "pbytes (st_heap s) (a # as) = hdr @ data" and hd: "ip_header_ok hdr (length data)"
    and len: "length hdr \<le> unat (pb_len (the_pbuf (st_heap s) a))" "14 \<le> off" "14 + length (hdr @ data) < 65536"
    and ad: "ip_addrs_ok s hdr"
  obtains s1 h where "s1 = s\<lparr>st_ip_data := ip_received a off hdr, st_heap := h\<rparr>" "received s1 a as (off + length hdr) hdr data"
    "same_on (- {a}) (st_heap s) h" "same_env (st_heap s) h" "hp_blocks h = hp_blocks (st_heap s)"
    "unat (pb_len (the_pbuf h a)) + length hdr = unat (pb_len (the_pbuf (st_heap s) a))"
    "\<forall>tcp. ip4_input tcp a global_if s = map_option (\<lambda>t. (ERR_OK, t\<lparr>st_ip_data := ip_data_zero\<rparr>))
       (if hdr ! 9 = IP_PROTO_UDP \<or> hdr ! 9 = IP_PROTO_UDPLITE then udp_input a global_if s1
        else if hdr ! 9 = IP_PROTO_TCP then tcp a global_if s1
        else if hdr ! 9 = IP_PROTO_ICMP then icmp_input a global_if s1
        else do { bc \<leftarrow> ip4_addr_isbroadcast (hdr_dest hdr) (Some global_if) s1;
          t \<leftarrow> (if \<not> bc then do { (_, t) \<leftarrow> on_heap (pbuf_header_force (Some a) (int (length hdr))) s1; icmp_dest_unreach a ICMP_DUR_PROTO t }
             else Some s1);
          st_pbuf_free (Some a) t })"
proof -
  let ?h = "st_heap s"
  have h20: "20 \<le> length hdr" and hl: "unat (IPH_HL_BYTES (hdr ! 0)) = length hdr" using hd by (simp_all add: ip_header_ok_def)
  then have ne: "0 < length hdr" by linarith
  have pk: "packet ?h (Some a) (a # as)" using o by (simp add: owns_def)
  have rd: "mem_read ?h (Some (a, off)) k n = Some (seg k n hdr)" if "k + n \<le> length hdr" for k n
    using owns_read [OF o pl(1), of k n] that len(1) xs by (simp add: seg_prefix del: pbytes_simps)
  obtain h where h: "pbuf_remove_header (Some a) (length hdr) ?h = Some (0, h)" "packet h (Some a) (a # as)"
      "pbytes h (a # as) = drop (length hdr) (pbytes ?h (a # as))" "same_on (- {a}) ?h h" "list_all (sole h) (a # as)" "same_env ?h h"
      "hp_blocks h = hp_blocks ?h" "pb_payload (the_pbuf h a) = Some (a, off + length hdr)"
    using pbuf_remove_header_spec [OF pk len(1)] o pl(1) same_env_pbufs by (metis owns_def)
  have oh: "owns h a (a # as)" using h(2,5) by (simp add: owns_def)
  let ?s1 = "s\<lparr>st_ip_data := ip_received a off hdr, st_heap := h\<rparr>"
  obtain bs where bs: "hp_blocks ?h a = Some bs" "off + unat (pb_len (the_pbuf ?h a)) \<le> length bs"
    using owns_owned [OF o] pl(1) by (auto simp: owned_def the_pbuf_def)
  have sg: "seg off (length hdr) bs = hdr"
    using rd [of 0 "length hdr"] bs len(1) h20 by (auto simp: mem_read_def seg_def split: if_splits)
  have hlw: "IPH_HL_BYTES (hdr ! 0) = of_nat (length hdr)" using hl by (metis of_nat_unat ucast_id)
  have rc: "received ?s1 a as (off + length hdr) hdr data"
    using oh h(3,7,8) pbuf_header_type(2) [OF h(1)] pl(2) xs h20 len bs(1) sg hl
    by (simp add: received_def ip_received_def contiguous_data_def del: pbytes_simps)
  have r9: "read_u8 h (Some (a, off)) 9 = Some (hdr ! 9)"
    using rd [of 9 1] h20 h(7) seg_1 [of 9 hdr] by (simp add: read_u8_def mem_read_def)
  have "mem_read ?h (Some (a, off)) 0 1 = Some [hdr ! 0]" using rd [of 0 1] ne unfolding seg_1 [OF ne] by (simp add: Suc_le_eq)
  then have r: "read_u32 ?h (Some (a, off)) 16 = Some (hdr_dest hdr)" "read_u32 ?h (Some (a, off)) 12 = Some (hdr_src hdr)"
    "read_u16 ?h (Some (a, off)) 6 = Some (of_nat (le_val (seg 6 2 hdr)))" "read_u8 ?h (Some (a, off)) 0 = Some (hdr ! 0)"
    using rd [of 16 4] rd [of 12 4] rd [of 6 2] h20 by (simp_all add: read_u32_def read_u16_def read_u8_def)
  let ?d = "\<lambda>s. s\<lparr>st_ip_data := (st_ip_data s)\<lparr>current_iphdr_dest := hdr_dest hdr, current_iphdr_src := hdr_src hdr\<rparr>\<rparr>"
  have nf: "ip4_input_netif global_if (?d s) = Some global_if" "ip4_addr_isbroadcast (hdr_src hdr) (Some global_if) (?d s) = Some False"
    "\<not> ip4_addr_ismulticast (hdr_dest hdr)" "\<not> ip4_addr_ismulticast (hdr_src hdr)"
    using ad by (auto simp: ip_addrs_ok_def ip4_input_netif_def ip4_input_accept_def Let_def netif_at_def ip4_addr_isbroadcast_def)
  obtain pb where pb: "hp_pbufs ?h a = Some pb" using owns_head [OF o] by blast
  have fr: "of_nat (le_val (seg 6 2 hdr)) AND lwip_htons (0x1FFF OR 0x2000) = 0" using hd by (simp add: ip_header_ok_def)
  have e: "(st_ip_data s)\<lparr>current_iphdr_dest := hdr_dest hdr, current_iphdr_src := hdr_src hdr, current_netif := Some global_if,
      current_input_netif := Some global_if, current_ip4_header := Some (a, off), current_ip_header_tot_len := of_nat (length hdr)\<rparr>
      = ip_received a off hdr"
    by (cases "st_ip_data s") (simp add: ip_received_def)
  have run: "ip4_input tcp a global_if s = map_option (\<lambda>t. (ERR_OK, t\<lparr>st_ip_data := ip_data_zero\<rparr>))
      (ip4_input_deliver tcp a (Some (a, off)) (length hdr) global_if global_if (s\<lparr>st_ip_data := ip_received a off hdr\<rparr>))" for tcp
    using pb pl(1) ip4_input_check_ok [OF o pl(1) xs hd len(1)] r nf fr hlw e
    by (simp add: ip4_input_def Let_def map_conv_bind_option comp_def del: of_nat_add)
  show thesis
    by (rule that [OF refl rc h(4,6,7) pb_len_after [OF o oh h(4,3) len(1)]])
      (use run h(1) r9 nf(3) in \<open>unfold ip_received_def, auto simp: ip4_input_deliver_def on_heap_def Let_def\<close>)
qed

section \<open>Packets that are dropped\<close>

lemma owns_st_free: "owns (st_heap s) a as \<Longrightarrow> st_pbuf_free (Some a) s = Some (s\<lparr>st_heap := without (st_heap s) (set as)\<rparr>)"
  using owns_free [of "st_heap s" a as] by (simp add: st_pbuf_free_def on_heap'_def del: map_option_eq_Some)

text \<open>
  What \<open>ip4_input\<close> accepts: \<open>len\<close> is the length of the first pbuf, \<open>xs\<close> are the bytes of the packet, which may go on
  behind the length in the header.
\<close>

definition ip_checks :: "nat \<Rightarrow> byte list \<Rightarrow> bool" where
  "ip_checks len xs \<longleftrightarrow> ip_len_ok len (length xs) xs \<and> inet_chksum False (take (ip_hl xs) xs) = 0"

definition ip_addressed :: "stack \<Rightarrow> byte list \<Rightarrow> stack" where
  "ip_addressed s xs = s\<lparr>st_ip_data := (st_ip_data s)\<lparr>current_iphdr_dest := hdr_dest xs, current_iphdr_src := hdr_src xs\<rparr>\<rparr>"

definition ip_accepted :: "stack \<Rightarrow> nat \<Rightarrow> byte list \<Rightarrow> bool" where
  "ip_accepted s len xs \<longleftrightarrow> ip_checks len xs
     \<and> ip4_input_netif global_if (ip_addressed s xs) \<noteq> None
     \<and> ip4_addr_isbroadcast (hdr_src xs) (Some global_if) (ip_addressed s xs) = Some False
     \<and> \<not> ip4_addr_ismulticast (hdr_src xs) \<and> of_nat (le_val (seg 6 2 xs)) AND lwip_htons (0x1FFF OR 0x2000) = 0"

lemma isbroadcast_total: "\<exists>b. ip4_addr_isbroadcast d (Some n) s = Some b"
  by (simp add: ip4_addr_isbroadcast_def) auto

lemma netif_at_heap: "netif_at (t\<lparr>st_heap := h\<rparr>) n = netif_at t n"
  by (cases n) (simp add: netif_at_def)

lemma ip_addressed_heap:
  "ip_addressed (s\<lparr>st_heap := h\<rparr>) xs = (ip_addressed s xs)\<lparr>st_heap := h\<rparr>" "st_heap (ip_addressed s xs) = st_heap s"
  "ip4_input_netif global_if (t\<lparr>st_heap := h\<rparr>) = ip4_input_netif global_if t"
  "ip4_addr_isbroadcast d n (t\<lparr>st_heap := h\<rparr>) = ip4_addr_isbroadcast d n t"
  by (simp_all add: ip_addressed_def ip4_input_netif_def ip4_input_accept_def ip4_addr_isbroadcast_def netif_at_heap Let_def)

text \<open>A packet that passes the checks of the header but not those of the addresses and of the fragment field.\<close>

lemma ip4_input_refused:
  assumes o: "owns h' a (a # as')" and pl: "pb_payload (the_pbuf h' a) = Some (a, off)" and l: "20 \<le> unat (pb_len (the_pbuf h' a))"
    and sg: "\<And>k n. k + n \<le> 20 \<Longrightarrow> seg k n (pbytes h' (a # as')) = seg k n xs"
    and c: "ip4_input_check a s = Some (Some hl, s\<lparr>st_heap := h'\<rparr>)" "pb_payload (the_pbuf (st_heap s) a) = Some (a, off)"
      "hp_pbufs (st_heap s) a \<noteq> None"
    and bad: "\<not> (ip4_input_netif global_if (ip_addressed s xs) \<noteq> None
     \<and> ip4_addr_isbroadcast (hdr_src xs) (Some global_if) (ip_addressed s xs) = Some False
     \<and> \<not> ip4_addr_ismulticast (hdr_src xs) \<and> of_nat (le_val (seg 6 2 xs)) AND lwip_htons (0x1FFF OR 0x2000) = 0)"
  shows "ip4_input tcp_input a global_if s = Some (ERR_OK, (ip_addressed s xs)\<lparr>st_heap := without h' (set (a # as'))\<rparr>)"
proof -
  let ?t = "(ip_addressed s xs)\<lparr>st_heap := h'\<rparr>"
  obtain pb where pb: "hp_pbufs (st_heap s) a = Some pb" "pb_payload pb = Some (a, off)" using c(2,3) by (auto simp: the_pbuf_def)
  have rd: "mem_read h' (Some (a, off)) k n = Some (seg k n xs)" if "k + n \<le> 20" for k n
    using owns_read [OF o pl, of k n] that l sg by simp
  have r: "read_u32 h' (Some (a, off)) 16 = Some (hdr_dest xs)" "read_u32 h' (Some (a, off)) 12 = Some (hdr_src xs)"
    "read_u16 h' (Some (a, off)) 6 = Some (of_nat (le_val (seg 6 2 xs)))"
    using rd by (simp_all add: read_u32_def read_u16_def)
  have t: "s\<lparr>st_heap := h', st_ip_data := (st_ip_data s)\<lparr>current_iphdr_dest := hdr_dest xs, current_iphdr_src := hdr_src xs\<rparr>\<rparr> = ?t"
    by (simp add: ip_addressed_def)
  have fr: "st_pbuf_free (Some a) ?t = Some ((ip_addressed s xs)\<lparr>st_heap := without h' (set (a # as'))\<rparr>)"
    using owns_st_free [of ?t a "a # as'"] o by simp
  obtain b where b: "ip4_addr_isbroadcast (hdr_src xs) (Some global_if) ?t = Some b" using isbroadcast_total by blast
  let ?bad = "b \<or> ip4_addr_ismulticast (hdr_src xs)"
  have bad': "?bad \<or> ip4_input_netif global_if ?t = None \<or> of_nat (le_val (seg 6 2 xs)) AND lwip_htons (0x1FFF OR 0x2000) \<noteq> 0"
    using bad b unfolding ip_addressed_heap by auto
  show ?thesis
  proof (cases "?bad \<or> ip4_input_netif global_if ?t = None")
    case True
    then show ?thesis using pb c(1) r b fr by (auto simp: ip4_input_def t Let_def)
  next
    case False
    then obtain n where "ip4_input_netif global_if ?t = Some n" by auto
    then show ?thesis using False bad' pb c(1) r b fr by (simp add: ip4_input_def t Let_def)
  qed
qed

text \<open>C14: Everything that \<open>ip4_input\<close> does not accept is dropped: runts, wrong version or length fields, a checksum
  that does not verify, a broadcast or multicast source, a destination that the interface does not take, and
  fragments; also when the packet has bytes behind the length in its header, which are cut off first.  The packet is
  released completely and nothing else in the heap changes, no protocol sees it and the result is \<open>ERR_OK\<close>.  In the
  rest of the state only the two addresses of \<open>ip_data\<close> change, to those of the packet, and only if its header
  passes the checks.  The first four bytes at the payload must be memory of the pbuf's buffer, since the code reads
  them whatever the length of the packet is.\<close>

theorem ip4_input_drops:
  assumes "owns (st_heap s) a (a # as)" "pb_payload (the_pbuf (st_heap s) a) = Some (a, off)"
    and "pbytes (st_heap s) (a # as) = xs" "mem_read (st_heap s) (Some (a, off)) 0 4 \<noteq> None"
    and "\<not> ip_accepted s (unat (pb_len (the_pbuf (st_heap s) a))) xs"
  shows "ip4_input tcp_input a global_if s = Some (ERR_OK,
    s\<lparr>st_heap := without (st_heap s) (set (a # as)),
      st_ip_data := (if ip_checks (unat (pb_len (the_pbuf (st_heap s) a))) xs
        then (st_ip_data s)\<lparr>current_iphdr_dest := hdr_dest xs, current_iphdr_src := hdr_src xs\<rparr> else st_ip_data s)\<rparr>)"
proof -
  let ?h = "st_heap s" and ?len = "unat (pb_len (the_pbuf (st_heap s) a))"
  obtain m where m: "mem_read ?h (Some (a, off)) 0 4 = Some m" using assms(4) by blast
  obtain h' as' where c: "ip4_input_check a s = Some (if ip_len_ok ?len (length xs) m
      \<and> inet_chksum False (take (ip_hl m) xs) = 0 then Some (ip_hl m) else None, s\<lparr>st_heap := h'\<rparr>)"
    "owns h' a (a # as')" "pbytes h' (a # as') = (if IPH_V (m ! 0) = 4 then take (unat (ip_tot m)) xs else xs)"
    "pb_payload (the_pbuf h' a) = Some (a, off)" "without h' (set (a # as')) = without ?h (set (a # as))"
    "IPH_V (m ! 0) = 4 \<Longrightarrow> pb_len (the_pbuf h' a) = min (pb_len (the_pbuf ?h a)) (ip_tot m)"
    using ip4_input_check_run [OF assms(1-3) m] by blast
  obtain pb where pb: "hp_pbufs ?h a = Some pb" using owns_head [OF assms(1)] by blast
  have lx: "?len \<le> length xs"
    using length_pdata [OF owned_readable [OF owns_owned [OF assms(1)]]] assms(3) by auto
  have m4: "m = seg 0 4 xs" "4 \<le> length xs" if "20 \<le> ?len"
    using owns_read [OF assms(1,2), of 0 4] assms(3) m that lx by simp_all
  have eq: "ip_checks ?len xs \<longleftrightarrow> ip_len_ok ?len (length xs) m \<and> inet_chksum False (take (ip_hl m) xs) = 0"
  proof (cases "20 \<le> ?len")
    case True
    then show ?thesis using m4 ip_fields_seg by (simp add: ip_checks_def)
  next
    case False
    then show ?thesis by (auto simp: ip_checks_def ip_len_ok_def)
  qed
  show ?thesis
  proof (cases "ip_checks ?len xs")
    case False
    have "st_pbuf_free (Some a) (s\<lparr>st_heap := h'\<rparr>) = Some (s\<lparr>st_heap := without ?h (set (a # as))\<rparr>)"
      using owns_st_free [of "s\<lparr>st_heap := h'\<rparr>" a "a # as'"] c(2,5) by simp
    moreover have "ip4_input_check a s = Some (None, s\<lparr>st_heap := h'\<rparr>)" using c(1) False unfolding eq by (simp only: if_False)
    ultimately show ?thesis using pb False by (simp add: ip4_input_def)
  next
    case True
    then have ok: "ip_len_ok ?len (length xs) m" using eq by simp
    then have "20 \<le> ?len" "IPH_V (m ! 0) = 4" "20 \<le> unat (ip_tot m)" by (auto simp: ip_len_ok_def)
    note l = this c(6) [OF this(2)]
    have "20 \<le> unat (pb_len (the_pbuf h' a))" unfolding l(4) using l(1,3) by (simp add: min_def)
    moreover have "seg k n (pbytes h' (a # as')) = seg k n xs" if "k + n \<le> 20" for k n
      using that l(2,3) c(3) by (simp add: seg_def drop_take min_def del: pbytes_simps)
    moreover have "ip4_input_check a s = Some (Some (ip_hl m), s\<lparr>st_heap := h'\<rparr>)" using c(1) eq True by simp
    ultimately have "ip4_input tcp_input a global_if s = Some (ERR_OK, (ip_addressed s xs)\<lparr>st_heap := without h' (set (a # as'))\<rparr>)"
      using ip4_input_refused [OF c(2,4)] assms(2,5) pb True unfolding ip_accepted_def by blast
    then show ?thesis using True c(5) by (simp add: ip_addressed_def)
  qed
qed

section \<open>From the link to the connection and back to the link\<close>

text \<open>A UDP datagram that arrives on the link for a connection of the native layer: after \<open>ip4_input\<close> the
  receive queue of the connection ends with the addresses and ports of both sides, as the two headers have
  them, and the data.  The packet must pass the checks of the headers and have a correct UDP checksum or none.\<close>

lemma ip4_input_udp_queues:
  assumes "owns (st_heap s) a (a # as)" "pb_payload (the_pbuf (st_heap s) a) = Some (a, off)" "contiguous_data (the_pbuf (st_heap s) a)"
    and "pbytes (st_heap s) (a # as) = hdr @ xs" "ip_header_ok hdr (length xs)" "hdr ! 9 = IP_PROTO_UDP"
    and "length hdr + 8 \<le> unat (pb_len (the_pbuf (st_heap s) a))" "14 \<le> off" "14 + length (hdr @ xs) < 65536"
    and "ip_addrs_ok s hdr" "unicast s (hdr_dest hdr)" "udp_datagram_ok (hdr_src hdr) (hdr_dest hdr) xs"
    and "pcbs_live s" "udp_chosen (s\<lparr>st_ip_data := ip_received a off hdr\<rparr>) (udp_port_at 0 xs) (udp_port_at 2 xs) = Some v"
    and "st_udp_pcb s v = Some ub" "up_recv ub = Some fn_udp_on_received" "up_recv_arg ub = Some c" "st_udp_conns s c = Some conn"
    and "queue_owns (st_heap s) (uc_rx conn) qss" "set (a # as) \<inter> set (concat qss) = {}"
    and "heap_ok (st_heap s)" "env_ok (st_heap s)" "\<not> hp_oom (st_heap s) (hp_brk (st_heap s))"
  shows "\<exists>s' rx b bs. ip4_input tcp_input a global_if s = Some (ERR_OK, s') \<and> st_udp_conns s' c = Some (conn\<lparr>uc_rx := rx\<rparr>)
    \<and> queue_owns (st_heap s') rx (kept qss @ [b # bs @ a # as])
    \<and> pbytes (st_heap s') (b # bs @ a # as) =
        udp_metadata (hdr_src hdr) (hdr_dest hdr) (udp_port_at 0 xs) (udp_port_at 2 xs) @ drop 8 xs
    \<and> same_on (- (set (b # bs @ a # as) \<union> dropped qss)) (st_heap s) (st_heap s')"
proof -
  have len: "length hdr \<le> unat (pb_len (the_pbuf (st_heap s) a))" using assms(7) by simp
  obtain s1 h where s1: "s1 = s\<lparr>st_ip_data := ip_received a off hdr, st_heap := h\<rparr>" "received s1 a as (off + length hdr) hdr xs"
    "same_on (- {a}) (st_heap s) h" "same_env (st_heap s) h" "hp_blocks h = hp_blocks (st_heap s)"
    "unat (pb_len (the_pbuf h a)) + length hdr = unat (pb_len (the_pbuf (st_heap s) a))"
    and run: "ip4_input tcp_input a global_if s = map_option (\<lambda>t. (ERR_OK, t\<lparr>st_ip_data := ip_data_zero\<rparr>)) (udp_input a global_if s1)"
    by (rule ip4_input_run [OF assms(1-5) len assms(8-10)]) (use assms(6) in simp)
  have f: "recv_src s1 = hdr_src hdr" "recv_dest s1 = hdr_dest hdr" "st_heap s1 = h" by (simp_all add: s1(1) ip_received_def)
  obtain pb where pb: "hp_pbufs (st_heap s) a = Some pb" using owns_head [OF assms(1)] by blast
  have e: "heap_ok h" "env_ok h" "hp_oom h (hp_brk h) = hp_oom (st_heap s) (hp_brk (st_heap s))"
    using heap_ok_same_on [OF assms(21) s1(3,4) pb] same_env_fields [OF s1(4)] assms(22) by (simp_all add: env_ok_def)
  have q: "queue_owns h (uc_rx conn) qss"
    using assms(19,20) list_all2_owns_same [OF _ s1(3), of "queue_contents (uc_rx conn)" qss] by (auto simp: queue_owns_def)
  have l8: "8 \<le> unat (pb_len (the_pbuf (st_heap s1) a))"
    using s1(6) assms(7) f(3) by simp
  have g: "unicast s1 (recv_dest s1)" "pcbs_live s1" "udp_datagram_ok (recv_src s1) (recv_dest s1) xs"
    "udp_chosen s1 (udp_port_at 0 xs) (udp_port_at 2 xs) = Some v"
    "st_udp_pcb s1 v = Some ub" "st_udp_conns s1 c = Some conn" "queue_owns (st_heap s1) (uc_rx conn) qss"
    "heap_ok (st_heap s1)" "env_ok (st_heap s1)" "\<not> hp_oom (st_heap s1) (hp_brk (st_heap s1))"
    using assms(11-15,18,23) q e unfolding f by (simp_all add: s1(1) unicast_def pcbs_live_def)
  obtain s' rx b bs where r: "udp_input a global_if s1 = Some s'" "st_udp_conns s' c = Some (conn\<lparr>uc_rx := rx\<rparr>)"
    "queue_owns (st_heap s') rx (kept qss @ [b # bs @ a # as])"
    "pbytes (st_heap s') (b # bs @ a # as) = udp_metadata (hdr_src hdr) (hdr_dest hdr) (udp_port_at 0 xs) (udp_port_at 2 xs) @ drop 8 xs"
    "same_on (- (set (b # bs @ a # as) \<union> dropped qss)) h (st_heap s')"
    using udp_input_delivers [OF s1(2) assms(6) g(1) l8 g(2,3,4,5) assms(16,17) g(6,7) assms(20) g(8,9,10)] unfolding f by blast
  have "same_on (- (set (b # bs @ a # as) \<union> dropped qss)) (st_heap s) (st_heap s')"
    by (rule same_on_trans [OF same_on_subset [OF s1(3)] r(5)]) auto
  then show ?thesis
    by (intro exI [of _ "s'\<lparr>st_ip_data := ip_data_zero\<rparr>"] exI [of _ rx] exI [of _ b] exI [of _ bs])
      (use r run in \<open>simp del: pbytes_simps\<close>)
qed

text \<open>The whole packet in front of the datagram of \<open>ex_dgram\<close>, as the link delivers it, and one with version 6.\<close>

definition ex_raw_bytes :: "byte list" where
  "ex_raw_bytes = ex_dgram_hdr @ [0x30, 0x39, 0, 53, 0, 10, 0, 0, 7, 9]"

definition ex_raw :: "byte list \<Rightarrow> stack" where
  "ex_raw xs = ex_dgram\<lparr>st_global_if := (st_global_if ex_dgram)\<lparr>nif_flags := 5\<rparr>,
     st_heap := (st_heap ex_out)\<lparr>hp_pbufs := [1 \<mapsto> ex_pbuf None (1, 14) 30 30 1], hp_blocks := [1 \<mapsto> replicate 14 0 @ xs]\<rparr>\<rparr>"

lemma ex_raw_owns:
  assumes "length xs = 30"
  shows "owns (st_heap (ex_raw xs)) 1 [1]" "pb_payload (the_pbuf (st_heap (ex_raw xs)) 1) = Some (1, 14)"
    "contiguous_data (the_pbuf (st_heap (ex_raw xs)) 1)" "pbytes (st_heap (ex_raw xs)) [1] = xs"
    "unat (pb_len (the_pbuf (st_heap (ex_raw xs)) 1)) = 30"
proof -
  note d = ex_raw_def ex_out_def stack_zero_def ex_pbuf_def the_pbuf_def
  have "owned (st_heap (ex_raw xs)) 1" using assms by (simp add: d owned_def)
  moreover have "src_ok (the_pbuf (st_heap (ex_raw xs)) 1)"
    by (simp add: d src_ok_def pbuf_get_allocsrc_def PBUF_TYPE_ALLOC_SRC_MASK_def PBUF_TYPE_ALLOC_SRC_MASK_STD_HEAP_def)
  ultimately show "owns (st_heap (ex_raw xs)) 1 [1]" by (simp add: owns_def packet_def sole_def d)
  show "pb_payload (the_pbuf (st_heap (ex_raw xs)) 1) = Some (1, 14)" "contiguous_data (the_pbuf (st_heap (ex_raw xs)) 1)"
    "unat (pb_len (the_pbuf (st_heap (ex_raw xs)) 1)) = 30"
    by (simp_all add: d contiguous_data_def PBUF_TYPE_FLAG_STRUCT_DATA_CONTIGUOUS_def)
  show "pbytes (st_heap (ex_raw xs)) [1] = xs" using assms by (simp add: pdata_def mem_read_def d seg_def)
qed

text \<open>Two packets that are dropped: one from a multicast address with two bytes behind its length, and one of two bytes.\<close>

definition ex_group_bytes :: "byte list" where
  "ex_group_bytes = [0x45, 0, 0, 28, 0, 1, 0, 0, 64, 17, 0x90, 0xCD, 224, 0, 0, 2, 10, 0, 0, 1, 0x30, 0x39, 0, 53, 0, 8, 0, 0, 7, 9]"

definition ex_runt :: stack where
  "ex_runt = (ex_raw ex_raw_bytes)\<lparr>st_heap := (st_heap (ex_raw ex_raw_bytes))\<lparr>hp_pbufs := [1 \<mapsto> ex_pbuf None (1, 14) 2 2 1]\<rparr>\<rparr>"

theorem ip4_input_drops_witness:
  "ip4_input (\<lambda>_ _ _. None) 1 global_if (ex_raw ex_group_bytes) = Some (ERR_OK, (ex_raw ex_group_bytes)
     \<lparr>st_heap := without (st_heap (ex_raw ex_group_bytes)) {1},
      st_ip_data := (st_ip_data (ex_raw ex_group_bytes))\<lparr>current_iphdr_dest := 0x0100000A, current_iphdr_src := 0x020000E0\<rparr>\<rparr>)
   \<and> ip4_input (\<lambda>_ _ _. None) 1 global_if ex_runt = Some (ERR_OK, ex_runt\<lparr>st_heap := without (st_heap ex_runt) {1}\<rparr>)"
proof
  let ?s = "ex_raw ex_group_bytes"
  have l: "length ex_group_bytes = 30" by (simp add: ex_group_bytes_def)
  note o = ex_raw_owns [OF l]
  have m: "mem_read (st_heap ?s) (Some (1, 14)) 0 4 \<noteq> None" using owns_read [OF o(1,2), of 0 4] o(5) by simp
  have f: "ip_hl ex_group_bytes = 20" "unat (ip_tot ex_group_bytes) = 28" "IPH_V (ex_group_bytes ! 0) = 4"
    "hdr_src ex_group_bytes = 0x020000E0" "hdr_dest ex_group_bytes = 0x0100000A"
    by (simp_all add: ip_hl_def ip_tot_def ex_group_bytes_def IPH_HL_BYTES_def IPH_V_def seg_def lwip_htons_def)
  have "inet_chksum False (take 20 ex_group_bytes) = 0"
    by (subst inet_chksum_0) (simp_all add: ex_group_bytes_def ones_def)
  then have c: "ip_checks 30 ex_group_bytes" using f(1-3) l by (simp add: ip_checks_def ip_len_ok_def)
  have "ip4_addr_ismulticast (hdr_src ex_group_bytes)" unfolding f(4) by (simp add: ip4_addr_ismulticast_def lwip_htonl_def)
  then have "\<not> ip_accepted ?s (unat (pb_len (the_pbuf (st_heap ?s) 1))) ex_group_bytes" by (simp add: ip_accepted_def)
  from ip4_input_drops [OF o(1,2,4) m this, of "\<lambda>_ _ _. None"]
  show "ip4_input (\<lambda>_ _ _. None) 1 global_if ?s = Some (ERR_OK, ?s\<lparr>st_heap := without (st_heap ?s) {1},
      st_ip_data := (st_ip_data ?s)\<lparr>current_iphdr_dest := 0x0100000A, current_iphdr_src := 0x020000E0\<rparr>\<rparr>)"
    unfolding o(5) if_P [OF c] f(4,5) list.set .
  let ?r = ex_runt
  note d = ex_runt_def ex_raw_def ex_out_def stack_zero_def ex_pbuf_def the_pbuf_def
  have "owned (st_heap ?r) 1" by (simp add: d owned_def ex_raw_bytes_def ex_dgram_hdr_def)
  moreover have "src_ok (the_pbuf (st_heap ?r) 1)"
    by (simp add: d src_ok_def pbuf_get_allocsrc_def PBUF_TYPE_ALLOC_SRC_MASK_def PBUF_TYPE_ALLOC_SRC_MASK_STD_HEAP_def)
  moreover have p: "pbytes (st_heap ?r) [1] = [0x45, 0]"
    by (simp add: pdata_def mem_read_def d seg_def ex_raw_bytes_def ex_dgram_hdr_def)
  ultimately have "owns (st_heap ?r) 1 [1]" by (simp add: owns_def packet_def sole_def d)
  moreover have "pb_payload (the_pbuf (st_heap ?r) 1) = Some (1, 14)" "unat (pb_len (the_pbuf (st_heap ?r) 1)) = 2"
    "mem_read (st_heap ?r) (Some (1, 14)) 0 4 \<noteq> None"
    by (simp_all add: d mem_read_def ex_raw_bytes_def ex_dgram_hdr_def)
  moreover have n: "\<not> ip_checks 2 [0x45, 0]" by (simp add: ip_checks_def ip_len_ok_def)
  ultimately show "ip4_input (\<lambda>_ _ _. None) 1 global_if ?r = Some (ERR_OK, ?r\<lparr>st_heap := without (st_heap ?r) {1}\<rparr>)"
    using ip4_input_drops [of ?r 1 "[]" 14 "[0x45, 0]" "\<lambda>_ _ _. None"] p by (simp add: ip_accepted_def)
qed

text \<open>C3: An echo request that arrives on the link for a unicast address: \<open>ip4_input\<close> answers it in place, and the answer, with
  the addresses exchanged, type 0, TTL 255 and checksums that verify, is the last packet in the queue that
  \<open>link_read\<close> empties.\<close>

theorem ip4_input_echo_answered:
  assumes "link_ready s c lk pss" "owns (st_heap s) a (a # as)" "set (a # as) \<inter> set (concat pss) = {}"
    and "pb_payload (the_pbuf (st_heap s) a) = Some (a, off)" "contiguous_data (the_pbuf (st_heap s) a)"
    and "pbytes (st_heap s) (a # as) = hdr @ [8, code] @ bytes_u16 k @ data" "4 \<le> length data"
    and "ip_header_ok hdr (length ([8, code] @ bytes_u16 k @ data))" "hdr ! 9 = IP_PROTO_ICMP"
    and "length hdr + 4 \<le> unat (pb_len (the_pbuf (st_heap s) a))" "14 \<le> off" "14 + length (hdr @ [8, code] @ bytes_u16 k @ data) < 65536"
    and "ip_addrs_ok s hdr" "unicast s (hdr_dest hdr)" "inet_chksum False ([8, code] @ bytes_u16 k @ data) = 0"
  shows "\<exists>s' rx hdr' k'. ip4_input tcp_input a global_if s = Some (ERR_OK, s') \<and> st_links s' c = Some (lk\<lparr>lk_rx := rx\<rparr>)
    \<and> queue_owns (st_heap s') rx (kept pss @ [a # as])
    \<and> pbytes (st_heap s') (a # as) = hdr' @ [0, code] @ bytes_u16 k' @ data
    \<and> length hdr' = length hdr \<and> seg 12 4 hdr' = seg 16 4 hdr \<and> seg 16 4 hdr' = seg 12 4 hdr
    \<and> hdr' ! 8 = 255 \<and> inet_chksum False hdr' = 0 \<and> inet_chksum False ([0, code] @ bytes_u16 k' @ data) = 0"
proof -
  let ?m = "[8, code] @ bytes_u16 k @ data"
  have len: "length hdr \<le> unat (pb_len (the_pbuf (st_heap s) a))" and h20: "20 \<le> length hdr"
    using assms(8,10) by (simp_all add: ip_header_ok_def)
  obtain s1 h where s1: "s1 = s\<lparr>st_ip_data := ip_received a off hdr, st_heap := h\<rparr>" "received s1 a as (off + length hdr) hdr ?m"
    "same_on (- {a}) (st_heap s) h" "unat (pb_len (the_pbuf h a)) + length hdr = unat (pb_len (the_pbuf (st_heap s) a))"
    and run: "ip4_input tcp_input a global_if s = map_option (\<lambda>t. (ERR_OK, t\<lparr>st_ip_data := ip_data_zero\<rparr>)) (icmp_input a global_if s1)"
    by (rule ip4_input_run [OF assms(2,4,5,6,8) len assms(11-13)])
      (use assms(9) in \<open>simp add: IP_PROTO_ICMP_def IP_PROTO_UDP_def IP_PROTO_UDPLITE_def IP_PROTO_TCP_def\<close>)
  have f: "recv_src s1 = hdr_src hdr" "recv_dest s1 = hdr_dest hdr" "st_heap s1 = h" by (simp_all add: s1(1) ip_received_def)
  have na: "a \<notin> set (concat pss)" using assms(3) by auto
  have lr: "link_ready s1 c lk pss" using link_ready_heap [OF assms(1) s1(3) na] by (simp add: s1(1) link_ready_def)
  have u: "unicast s1 (recv_dest s1)" using assms(14) unfolding f by (simp add: s1(1) unicast_def)
  have l4: "4 \<le> unat (pb_len (the_pbuf (st_heap s1) a))" using s1(4) assms(10) f(3) by simp
  have l: "length ([t, code] @ bytes_u16 x @ data) < 65536" for t x using assms(12) by simp
  have "ones (le_val ?m) = 65535" using assms(15) inet_chksum_0 [OF l] by simp
  then have v: "inet_chksum False ([0, code] @ bytes_u16 (echo_chksum k) @ data) = 0"
    using echo_answer_verifies inet_chksum_0 [OF l] by blast
  obtain h' rx hdr' where r: "icmp_input a global_if s1 = Some (s1\<lparr>st_heap := h', st_links := (st_links s1)(c \<mapsto> lk\<lparr>lk_rx := rx\<rparr>)\<rparr>)"
    "queue_owns h' rx (kept pss @ [a # as])" "pbytes h' (a # as) = hdr' @ [0, code] @ bytes_u16 (echo_chksum k) @ data"
    "length hdr' = length hdr" "hdr' ! 8 = 255" "seg 12 4 hdr' = bytes_u32 (recv_dest s1)" "seg 16 4 hdr' = bytes_u32 (recv_src s1)"
    "inet_chksum False hdr' = 0"
    using icmp_echo_answers [OF lr s1(2) assms(3) u assms(7) l4 assms(15)] by metis
  have b: "bytes_u32 (hdr_dest hdr) = seg 16 4 hdr" "bytes_u32 (hdr_src hdr) = seg 12 4 hdr"
    using h20 by (auto intro!: le_val_inj simp: unat_le_val_4)
  let ?s' = "(s1\<lparr>st_heap := h', st_links := (st_links s1)(c \<mapsto> lk\<lparr>lk_rx := rx\<rparr>)\<rparr>)\<lparr>st_ip_data := ip_data_zero\<rparr>"
  show ?thesis
    by (intro exI [of _ ?s'] exI [of _ rx] exI [of _ hdr'] exI [of _ "echo_chksum k"])
      (use r run v in \<open>simp add: f b del: pbytes_simps\<close>)
qed

text \<open>The echo request of \<open>ex_ping\<close> as the link delivers it.\<close>

definition ex_ping_raw :: stack where
  "ex_ping_raw = ex_raw (ex_ping_hdr @ [8, 0, 0xF7, 0xFF, 0, 0, 0, 0])\<lparr>st_heap := (st_heap ex_out)
     \<lparr>hp_pbufs := [1 \<mapsto> ex_pbuf None (1, 14) 28 28 1], hp_blocks := [1 \<mapsto> replicate 14 0 @ ex_ping_hdr @ [8, 0, 0xF7, 0xFF, 0, 0, 0, 0]]\<rparr>\<rparr>"

theorem ip4_input_echo_answered_witness:
  "\<exists>s' hdr' k'. ip4_input (\<lambda>_ _ _. None) 1 global_if ex_ping_raw = Some (ERR_OK, s')
    \<and> pbytes (st_heap s') [1] = hdr' @ [0, 0] @ bytes_u16 k' @ [0, 0, 0, 0] \<and> seg 16 4 hdr' = [10, 0, 0, 2]"
proof -
  let ?s = "ex_ping_raw" and ?m = "[8, 0] @ bytes_u16 0xFFF7 @ [0, 0, 0, 0] :: byte list"
  note d = ex_ping_raw_def ex_raw_def ex_dgram_def ex_ping_def ex_out_def stack_zero_def
  have m: "?m = [8, 0, 0xF7, 0xFF, 0, 0, 0, 0]" by (simp add: bytes_u16_def)
  have "owned (st_heap ?s) 1" by (simp add: d owned_def ex_pbuf_def ex_ping_hdr_def)
  moreover have "src_ok (the_pbuf (st_heap ?s) 1)"
    by (simp add: d the_pbuf_def ex_pbuf_def src_ok_def pbuf_get_allocsrc_def PBUF_TYPE_ALLOC_SRC_MASK_def PBUF_TYPE_ALLOC_SRC_MASK_STD_HEAP_def)
  ultimately have o: "owns (st_heap ?s) 1 [1]" by (simp add: owns_def packet_def sole_def d ex_pbuf_def the_pbuf_def)
  have p: "pb_payload (the_pbuf (st_heap ?s) 1) = Some (1, 14)" "contiguous_data (the_pbuf (st_heap ?s) 1)"
    "unat (pb_len (the_pbuf (st_heap ?s) 1)) = 28" "set [1 :: addr] \<inter> set (concat []) = {}"
    by (simp_all add: d ex_pbuf_def the_pbuf_def contiguous_data_def PBUF_TYPE_FLAG_STRUCT_DATA_CONTIGUOUS_def)
  have x: "pbytes (st_heap ?s) [1] = ex_ping_hdr @ ?m"
    unfolding m by (simp add: pdata_def mem_read_def d seg_def ex_pbuf_def the_pbuf_def ex_ping_hdr_def)
  have lr: "link_ready ?s 7 (the (st_links ?s 7)) []"
    using queue_rep_contents [OF queue_zero] by (simp add: link_ready_def d queue_owns_def)
  have sg: "seg 12 4 ex_ping_hdr = [10, 0, 0, 2]" "seg 16 4 ex_ping_hdr = [10, 0, 0, 1]" "seg 2 2 ex_ping_hdr = [0, 28]" "seg 6 2 ex_ping_hdr = [0, 0]"
    by (simp_all add: seg_def ex_ping_hdr_def)
  have v: "inet_chksum False ex_ping_hdr = 0" "inet_chksum False ?m = 0"
    using inet_chksum_0 [of ex_ping_hdr False] inet_chksum_0 [of ?m False] by (simp_all add: ex_ping_hdr_def bytes_u16_def ones_def)
  have h: "ip_header_ok ex_ping_hdr (length ?m)" "ex_ping_hdr ! 9 = IP_PROTO_ICMP"
    unfolding ip_header_ok_def sg using v(1) by (simp_all add: ex_ping_hdr_def IPH_V_def IPH_HL_BYTES_def lwip_htons_def IP_PROTO_ICMP_def)
  have n: "length ex_ping_hdr + 4 \<le> unat (pb_len (the_pbuf (st_heap ?s) 1))" "14 \<le> (14 :: nat)" "14 + length (ex_ping_hdr @ ?m) < 65536"
    unfolding p(3) by (simp_all add: ex_ping_hdr_def)
  have u: "ip_addrs_ok ?s ex_ping_hdr" "unicast ?s (hdr_dest ex_ping_hdr)"
    unfolding ip_addrs_ok_def sg
    by (simp_all add: unicast_def d ip4_addr_isbroadcast_def netif_at_def netif_is_up_def NETIF_FLAG_UP_def ip4_addr_isany_val_def IPADDR_ANY_def
        ip4_addr_ismulticast_def ip4_addr_isbroadcast_u32_def netif_zero_def lwip_htonl_def IPADDR_BROADCAST_def)
  have l4: "4 \<le> length [0 :: byte, 0, 0, 0]" by simp
  show ?thesis
    using ip4_input_echo_answered [OF lr o p(4,1,2) x l4 h n u v(2), of "\<lambda>_ _ _. None"] unfolding sg by blast
qed

end
