(* ===== verification/Udp_Send.thy ===== *)
theory Udp_Send
  imports Udp
begin

unbundle bit_operations_syntax

text \<open>
  Sending UDP datagrams (\<open>lwip/core/udp.c\<close>): the header goes in front of the data, the checksum covers it
  together with the pseudo header, and a checksum of 0 is sent as \<open>0xFFFF\<close>, because 0 stands for none.
\<close>

section \<open>Output\<close>

text \<open>The bytes of a \<open>struct udp_hdr\<close>.\<close>

definition udp_hdr :: "u16 \<Rightarrow> u16 \<Rightarrow> u16 \<Rightarrow> u16 \<Rightarrow> byte list" where
  "udp_hdr src dest len chksum = bytes_u16 src @ bytes_u16 dest @ bytes_u16 len @ bytes_u16 chksum"

text \<open>Length and checksum of the header of \<open>q\<close>; the result is the protocol number.\<close>

definition udp_fill_header :: "udp_pcb \<Rightarrow> addr \<Rightarrow> ptr option \<Rightarrow> ip4_addr_t \<Rightarrow> ip4_addr_t \<Rightarrow> stack \<Rightarrow> (u8 \<times> stack) option" where
  "udp_fill_header pcb q udphdr src_ip dst_ip s = do {
     qb \<leftarrow> hp_pbufs (st_heap s) q;
     let tot = pb_tot_len qb;
     if up_flags pcb AND UDP_FLAGS_UDPLITE \<noteq> 0 then do {
       let chklen = up_chksum_len_tx pcb;
       let (chklen_hdr, chklen) = (if chklen < 8 \<or> chklen > tot then (0, tot) else (chklen, chklen));
       s \<leftarrow> st_write udphdr 4 (bytes_u16 (lwip_htons chklen_hdr)) s;
       c \<leftarrow> ip_chksum_pseudo_partial (Some q) IP_PROTO_UDPLITE tot chklen src_ip dst_ip (st_heap s);
       s \<leftarrow> st_write udphdr 6 (bytes_u16 (if c = 0 then 0xFFFF else c)) s;
       Some (IP_PROTO_UDPLITE, s)
     } else do {
       s \<leftarrow> st_write udphdr 4 (bytes_u16 (lwip_htons tot)) s;
       s \<leftarrow> (if up_flags pcb AND UDP_FLAGS_NOCHKSUM = 0 then do {
               c \<leftarrow> ip_chksum_pseudo (Some q) IP_PROTO_UDP tot src_ip dst_ip (st_heap s);
               st_write udphdr 6 (bytes_u16 (if c = 0 then 0xFFFF else c)) s
             } else Some s);
       Some (IP_PROTO_UDP, s)
     }
   }"

text \<open>The header goes in front of the data or into a pbuf of its own that is chained in front.\<close>

definition udp_make_room :: "addr \<Rightarrow> stack \<Rightarrow> (addr option \<times> stack) option" where
  "udp_make_room p s = do {
     (e, s) \<leftarrow> on_heap (pbuf_add_header (Some p) UDP_HLEN) s;
     if e = 0 then Some (Some p, s)
     else do {
       (q, s) \<leftarrow> on_heap (pbuf_alloc PBUF_IP (of_nat UDP_HLEN) PBUF_RAM) s;
       case q of
         None \<Rightarrow> Some (None, s)
       | Some q \<Rightarrow> do {
           pb \<leftarrow> hp_pbufs (st_heap s) p;
           s \<leftarrow> (if pb_tot_len pb \<noteq> 0 then on_heap' (pbuf_chain (Some q) (Some p)) s else Some s);
           Some (Some q, s)
         }
     }
   }"

definition udp_sendto_if_src_port :: "addr option \<Rightarrow> addr option \<Rightarrow> ip4_addr_t option \<Rightarrow> u16 \<Rightarrow> netif_ptr option
    \<Rightarrow> ip4_addr_t option \<Rightarrow> u16 \<Rightarrow> stack \<Rightarrow> (err_t \<times> stack) option" where
  "udp_sendto_if_src_port pcb p dst_ip dst_port netif src_ip src_port s = do {
     u \<leftarrow> pcb;
     p \<leftarrow> p;
     dst_ip \<leftarrow> dst_ip;
     src_ip \<leftarrow> src_ip;
     netif \<leftarrow> netif;
     ub \<leftarrow> st_udp_pcb s u;
     (err, s) \<leftarrow> (if src_port = 0 \<and> up_local_port ub = 0
                 then udp_bind pcb (Some (up_local_ip ub)) (up_local_port ub) s else Some (ERR_OK, s));
     if err \<noteq> ERR_OK then Some (err, s)
     else do {
       ub \<leftarrow> st_udp_pcb s u;
       let src_port = (if src_port = 0 then up_local_port ub else src_port);
       pb \<leftarrow> hp_pbufs (st_heap s) p;
       if pb_tot_len pb + of_nat UDP_HLEN < pb_tot_len pb then Some (ERR_MEM, s)
       else do {
         (q, s) \<leftarrow> udp_make_room p s;
         case q of
           None \<Rightarrow> Some (ERR_MEM, s)
         | Some q \<Rightarrow> do {
             qb \<leftarrow> hp_pbufs (st_heap s) q;
             lwip_assert (unat (pb_len qb) \<ge> 8);
             let udphdr = pb_payload qb;
             s \<leftarrow> st_write udphdr 0 (bytes_u16 (lwip_htons src_port) @ bytes_u16 (lwip_htons dst_port)) s;
             s \<leftarrow> st_write udphdr 6 (bytes_u16 0) s;
             (ip_proto, s) \<leftarrow> udp_fill_header ub q udphdr src_ip dst_ip s;
             (err, s) \<leftarrow> ip4_output_if_src q (Some src_ip) (Some dst_ip) (up_ttl ub) (up_tos ub) ip_proto netif s;
             s \<leftarrow> (if q \<noteq> p then st_pbuf_free (Some q) s else Some s);
             Some (err, s)
           }
       }
     }
   }"

definition udp_sendto_if_src :: "addr option \<Rightarrow> addr option \<Rightarrow> ip4_addr_t option \<Rightarrow> u16 \<Rightarrow> netif_ptr option
    \<Rightarrow> ip4_addr_t option \<Rightarrow> stack \<Rightarrow> (err_t \<times> stack) option" where
  "udp_sendto_if_src pcb p dst_ip dst_port netif src_ip s = do {
     u \<leftarrow> pcb;
     ub \<leftarrow> st_udp_pcb s u;
     udp_sendto_if_src_port pcb p dst_ip dst_port netif src_ip (up_local_port ub) s
   }"

definition udp_sendto_if :: "addr option \<Rightarrow> addr option \<Rightarrow> ip4_addr_t option \<Rightarrow> u16 \<Rightarrow> netif_ptr option
    \<Rightarrow> stack \<Rightarrow> (err_t \<times> stack) option" where
  "udp_sendto_if pcb p dst_ip dst_port netif s = do {
     u \<leftarrow> pcb;
     lwip_assert (p \<noteq> None);
     lwip_assert (dst_ip \<noteq> None);
     n \<leftarrow> netif;
     ub \<leftarrow> st_udp_pcb s u;
     if ip4_addr_isany_val (up_local_ip ub) \<or> ip4_addr_ismulticast (up_local_ip ub)
     then udp_sendto_if_src pcb p dst_ip dst_port netif (Some (nif_ip_addr (netif_at s n))) s
     else if up_local_ip ub \<noteq> nif_ip_addr (netif_at s n) then Some (ERR_RTE, s)
     else udp_sendto_if_src pcb p dst_ip dst_port netif (Some (up_local_ip ub)) s
   }"

definition udp_sendto :: "addr option \<Rightarrow> addr option \<Rightarrow> ip4_addr_t option \<Rightarrow> u16 \<Rightarrow> stack \<Rightarrow> (err_t \<times> stack) option" where
  "udp_sendto pcb p dst_ip dst_port s = do {
     u \<leftarrow> pcb;
     lwip_assert (p \<noteq> None);
     d \<leftarrow> dst_ip;
     ub \<leftarrow> st_udp_pcb s u;
     let netif = (if up_netif_idx ub \<noteq> NETIF_NO_INDEX then netif_get_by_index (up_netif_idx ub) s else ip4_route d s);
     if netif = None then Some (ERR_RTE, s)
     else udp_sendto_if pcb p dst_ip dst_port netif s
   }"

definition udp_send :: "addr option \<Rightarrow> addr option \<Rightarrow> stack \<Rightarrow> (err_t \<times> stack) option" where
  "udp_send pcb p s = do {
     u \<leftarrow> pcb;
     lwip_assert (p \<noteq> None);
     ub \<leftarrow> st_udp_pcb s u;
     udp_sendto pcb p (Some (up_remote_ip ub)) (up_remote_port ub) s
   }"

section \<open>The datagram that is sent\<close>

text \<open>The checksum field: a sum of 0 is written as \<open>0xFFFF\<close>.\<close>

definition udp_chksum :: "u32 \<Rightarrow> u32 \<Rightarrow> byte list \<Rightarrow> u16" where
  "udp_chksum src dst xs =
     (let c = NOT (of_nat (ones (le_val (pseudo_header src dst IP_PROTO_UDP (of_nat (length xs)) @ xs)))) in if c = 0 then 0xFFFF else c)"

definition udp_datagram :: "u32 \<Rightarrow> u32 \<Rightarrow> u16 \<Rightarrow> u16 \<Rightarrow> byte list \<Rightarrow> byte list" where
  "udp_datagram src dst sp dp xs =
     (let len = lwip_htons (of_nat (8 + length xs)); hd0 = udp_hdr (lwip_htons sp) (lwip_htons dp) len in
      hd0 (udp_chksum src dst (hd0 0 @ xs)) @ xs)"

lemma length_udp_hdr [simp]: "length (udp_hdr a b c d) = 8"
  by (simp add: udp_hdr_def)

lemma length_udp_datagram [simp]: "length (udp_datagram src dst sp dp xs) = 8 + length xs"
  by (simp add: udp_datagram_def Let_def)

lemma udp_datagram_verifies: "udp_datagram_ok src dst (udp_datagram src dst sp dp xs)"
proof -
  define len where "len = (of_nat (8 + length xs) :: u16)"
  let ?ph = "pseudo_header src dst IP_PROTO_UDP len"
  let ?xs = "?ph @ bytes_u16 (lwip_htons sp) @ bytes_u16 (lwip_htons dp) @ bytes_u16 (lwip_htons len)"
  let ?z = "udp_hdr (lwip_htons sp) (lwip_htons dp) (lwip_htons len) 0 @ xs"
  define c where "c = udp_chksum src dst ?z"
  let ?n = "ones (le_val (?xs @ [0, 0] @ xs))"
  have z: "?ph @ ?z = ?xs @ [0, 0] @ xs" by (simp add: udp_hdr_def bytes_u16_def)
  have lz: "of_nat (length ?z) = len" by (simp add: len_def)
  have c: "c = (let c = NOT (of_nat ?n) in if c = 0 then 0xFFFF else c)" unfolding c_def udp_chksum_def lz z ..
  have "oc (?n + unat c) 65535"
  proof (cases "?n = 65535")
    case True
    then have "c = 0xFFFF" using not_ones_0 [of "le_val (?xs @ [0, 0] @ xs)"] unfolding c Let_def by simp
    then show ?thesis unfolding True by (simp add: oc_def)
  next
    case False
    then have "c = NOT (of_nat ?n)" using not_ones_0 [of "le_val (?xs @ [0, 0] @ xs)"] unfolding c Let_def by metis
    then have "unat c = 65535 - ?n" by (simp only: unat_not_ones)
    then have "?n + unat c = 65535" using ones_le [of "le_val (?xs @ [0, 0] @ xs)"] by linarith
    then show ?thesis by simp
  qed
  moreover have "even (length ?xs)" by (simp add: pseudo_header_def)
  ultimately have "ones (le_val (?xs @ bytes_u16 c @ xs)) = 65535" unfolding bytes_u16_def [of c] by (intro chksum_field_ones)
  moreover have "?xs @ bytes_u16 c @ xs = ?ph @ udp_datagram src dst sp dp xs"
    by (simp add: udp_datagram_def udp_hdr_def Let_def c_def len_def)
  moreover have "of_nat (length (udp_datagram src dst sp dp xs)) = len" by (simp add: len_def)
  ultimately show ?thesis unfolding udp_datagram_ok_def by simp
qed

lemma udp_header_writes:
  fixes p1 p2 len k :: u16
  assumes l: "length x0 = 8 + length xs" "drop 8 x0 = xs"
  shows "splice_at 4 (bytes_u16 len) (splice_at 6 (bytes_u16 0) (splice_at 0 (bytes_u16 p1 @ bytes_u16 p2) x0)) = udp_hdr p1 p2 len 0 @ xs"
    "splice_at 6 (bytes_u16 k) (udp_hdr p1 p2 len 0 @ xs) = udp_hdr p1 p2 len k @ xs"
proof -
  have x1: "splice_at 0 (bytes_u16 p1 @ bytes_u16 p2) x0 = (bytes_u16 p1 @ bytes_u16 p2) @ drop 4 x0" by (simp add: splice_at_def)
  have x2: "splice_at 6 (bytes_u16 0) ((bytes_u16 p1 @ bytes_u16 p2) @ drop 4 x0)
      = (bytes_u16 p1 @ bytes_u16 p2) @ take 2 (drop 4 x0) @ bytes_u16 0 @ xs"
    using l by (simp add: splice_at_def)
  show "splice_at 4 (bytes_u16 len) (splice_at 6 (bytes_u16 0) (splice_at 0 (bytes_u16 p1 @ bytes_u16 p2) x0)) = udp_hdr p1 p2 len 0 @ xs"
    unfolding x1 x2 by (subst splice_mid) (use l in \<open>simp_all add: udp_hdr_def\<close>)
  have "splice_at 6 (bytes_u16 k) ((bytes_u16 p1 @ bytes_u16 p2 @ bytes_u16 len) @ bytes_u16 0 @ xs)
      = (bytes_u16 p1 @ bytes_u16 p2 @ bytes_u16 len) @ bytes_u16 k @ xs"
    by (rule splice_mid) simp_all
  then show "splice_at 6 (bytes_u16 k) (udp_hdr p1 p2 len 0 @ xs) = udp_hdr p1 p2 len k @ xs" by (simp add: udp_hdr_def)
qed

lemma udp_fill_header_run:
  assumes "hp_pbufs (st_heap s) a = Some qb" "up_flags pcb AND UDP_FLAGS_UDPLITE = 0" "up_flags pcb AND UDP_FLAGS_NOCHKSUM = 0"
    and "st_write ptr 4 (bytes_u16 (lwip_htons (pb_tot_len qb))) s = Some s3"
    and "ip_chksum_pseudo (Some a) IP_PROTO_UDP (pb_tot_len qb) src dst (st_heap s3) = Some c"
    and "st_write ptr 6 (bytes_u16 (if c = 0 then 0xFFFF else c)) s3 = Some s4"
  shows "udp_fill_header pcb a ptr src dst s = Some (IP_PROTO_UDP, s4)"
  using assms by (simp add: udp_fill_header_def)

lemma udp_header_filled:
  assumes o: "owns (st_heap s) a (a # as)" and pl: "pb_payload (the_pbuf (st_heap s) a) = Some (a, off)"
    and pd: "length (pdata (st_heap s) a) = 8 + length ys" "drop 8 (pdata (st_heap s) a) = ys"
    and fl: "up_flags pcb AND UDP_FLAGS_UDPLITE = 0" "up_flags pcb AND UDP_FLAGS_NOCHKSUM = 0"
  obtains s1 s2 g where
    "st_write (Some (a, off)) 0 (bytes_u16 (lwip_htons sp) @ bytes_u16 (lwip_htons dp)) s = Some s1"
    "st_write (Some (a, off)) 6 (bytes_u16 0) s1 = Some s2"
    "udp_fill_header pcb a (Some (a, off)) src dst s2 = Some (IP_PROTO_UDP, s\<lparr>st_heap := g\<rparr>)"
    "owns g a (a # as)" "same_shape (st_heap s) g" "same_on (- {a}) (st_heap s) g" "the_pbuf g a = the_pbuf (st_heap s) a"
    "pbytes g (a # as) = udp_datagram src dst sp dp (ys @ pbytes (st_heap s) as)"
proof -
  let ?h = "st_heap s" and ?x0 = "pdata (st_heap s) a" and ?ports = "bytes_u16 (lwip_htons sp) @ bytes_u16 (lwip_htons dp)"
  let ?rest = "ys @ pbytes (st_heap s) as"
  let ?n = "8 + length ?rest" and ?hd = "udp_hdr (lwip_htons sp) (lwip_htons dp)"
  have step: "\<exists>g'. st_write (Some (a, off)) i zs (s\<lparr>st_heap := g\<rparr>) = Some (s\<lparr>st_heap := g'\<rparr>) \<and> rewritten ?h a as (splice_at i zs xs) g'"
    if "rewritten ?h a as xs g" "i + length zs \<le> 8" for i zs xs g
    using rewritten_write [of ?h a as xs "s\<lparr>st_heap := g\<rparr>", OF _ pl, of off i zs] that rewritten_len [OF that(1)] pd(1)
      rewritten_len [OF rewritten_refl [OF o]] by auto
  obtain g1 where g1: "st_write (Some (a, off)) 0 ?ports s = Some (s\<lparr>st_heap := g1\<rparr>)" "rewritten ?h a as (splice_at 0 ?ports ?x0) g1"
    using step [OF rewritten_refl [OF o], of 0 ?ports] by auto
  obtain g2 where g2: "st_write (Some (a, off)) 6 (bytes_u16 0) (s\<lparr>st_heap := g1\<rparr>) = Some (s\<lparr>st_heap := g2\<rparr>)"
      "rewritten ?h a as (splice_at 6 (bytes_u16 0) (splice_at 0 ?ports ?x0)) g2"
    using step [OF g1(2), of 6 "bytes_u16 0"] by auto
  have o2: "owns g2 a (a # as)" and sh2: "same_shape ?h g2" using g2(2) by (simp_all add: rewritten_def)
  obtain qb where qb: "hp_pbufs g2 a = Some qb" using owns_head [OF o2] by blast
  have tot: "pb_tot_len qb = of_nat ?n"
  proof -
    have "unat (pb_tot_len qb) = length (pbytes g2 (a # as))" using packet_Some [of g2 "Some a" "a # as"] o2 qb by (metis option.inject owns_def)
    also have "\<dots> = ?n" using rewritten_pbytes [OF g2(2) o] rewritten_len(1) [OF g2(2)] rewritten_len(1) [OF rewritten_refl [OF o]] pd(1)
      by (simp del: pbytes_simps)
    finally show ?thesis by (metis of_nat_unat ucast_id)
  qed
  let ?len = "lwip_htons (of_nat ?n) :: u16"
  obtain g3 where g3: "st_write (Some (a, off)) 4 (bytes_u16 ?len) (s\<lparr>st_heap := g2\<rparr>) = Some (s\<lparr>st_heap := g3\<rparr>)"
      "rewritten ?h a as (?hd ?len 0 @ ys) g3"
    using step [OF g2(2), of 4 "bytes_u16 ?len"] udp_header_writes(1) [OF pd] by auto
  have o3: "packet g3 (Some a) (a # as)" and B3: "pbytes g3 (a # as) = ?hd ?len 0 @ ?rest"
    using g3(2) rewritten_pbytes [OF g3(2) o] by (simp_all add: rewritten_def owns_def del: pbytes_simps)
  let ?k = "udp_chksum src dst (?hd ?len 0 @ ?rest)"
  have lz: "of_nat (length (?hd ?len 0 @ ?rest)) = (of_nat ?n :: u16)" by simp
  have ck: "ip_chksum_pseudo (Some a) IP_PROTO_UDP (of_nat ?n) src dst g3 =
      Some (NOT (of_nat (ones (le_val (pseudo_header src dst IP_PROTO_UDP (of_nat ?n) @ ?hd ?len 0 @ ?rest)))))"
    unfolding ip_chksum_pseudo_def inet_chksum_pseudo_sum [OF o3] B3 ..
  obtain g4 where g4: "st_write (Some (a, off)) 6 (bytes_u16 ?k) (s\<lparr>st_heap := g3\<rparr>) = Some (s\<lparr>st_heap := g4\<rparr>)"
      "rewritten ?h a as (?hd ?len ?k @ ys) g4"
    using step [OF g3(2), of 6 "bytes_u16 ?k"] udp_header_writes(2) [OF pd] by auto
  have w: "st_write (Some (a, off)) 6 (bytes_u16 (let c = NOT (of_nat (ones (le_val (pseudo_header src dst IP_PROTO_UDP (of_nat ?n) @ ?hd ?len 0 @ ?rest))))
      in if c = 0 then 0xFFFF else c)) (s\<lparr>st_heap := g3\<rparr>) = Some (s\<lparr>st_heap := g4\<rparr>)"
    using g4(1) unfolding udp_chksum_def lz .
  have hp: "st_heap (s\<lparr>st_heap := g\<rparr>) = g" for g by simp
  have fill: "udp_fill_header pcb a (Some (a, off)) src dst (s\<lparr>st_heap := g2\<rparr>) = Some (IP_PROTO_UDP, s\<lparr>st_heap := g4\<rparr>)"
    by (rule udp_fill_header_run [OF _ fl, of _ a qb])
      (use qb g3(1) ck w tot in \<open>simp_all only: hp Let_def\<close>)
  have "pbytes g4 (a # as) = udp_datagram src dst sp dp ?rest"
    unfolding rewritten_pbytes [OF g4(2) o] by (simp add: udp_datagram_def Let_def)
  then show thesis using that [OF g1(1) g2(1) fill] g4(2) rewritten_len(2) [OF g4(2)] by (simp add: rewritten_def del: pbytes_simps)
qed

text \<open>Sending a datagram with room for both headers.\<close>

lemma udp_sendto_sends:
  assumes l: "link_ready s c lk pss" and o: "owns (st_heap s) a (a # as)" and dj: "set (a # as) \<inter> set (concat pss) = {}"
    and pl: "pb_payload (the_pbuf (st_heap s) a) = Some (a, off)" "contiguous_data (the_pbuf (st_heap s) a)"
    and n: "28 \<le> off" "28 + length (pbytes (st_heap s) (a # as)) < 65536"
    and u: "st_udp_pcb s u = Some ub" "up_flags ub AND UDP_FLAGS_UDPLITE = 0" "up_flags ub AND UDP_FLAGS_NOCHKSUM = 0"
    and sp: "sp = (if src_port = 0 then up_local_port ub else src_port)" "sp \<noteq> 0"
  obtains s' h rx where "udp_sendto_if_src_port (Some u) (Some a) (Some dst) dp (Some global_if) (Some src) src_port s = Some (ERR_OK, s')"
    "st_pbuf_free (Some a) s' = Some (s\<lparr>st_heap := h, st_ip_id := st_ip_id s + 1, st_links := (st_links s)(c \<mapsto> lk\<lparr>lk_rx := rx\<rparr>)\<rparr>)"
    "queue_owns h rx (kept pss @ [a # as])" "same_on (- ({a} \<union> dropped pss)) (st_heap s) h" "same_env (st_heap s) h"
    "pbytes h (a # as) = ip_header (8 + length (pbytes (st_heap s) (a # as))) (st_ip_id s) (up_tos ub) (up_ttl ub) IP_PROTO_UDP src dst
       @ udp_datagram src dst sp dp (pbytes (st_heap s) (a # as))"
proof -
  let ?h = "st_heap s" and ?xs = "pbytes (st_heap s) (a # as)"
  obtain bs where bs: "hp_blocks ?h a = Some bs" "off \<le> length bs"
    using owns_owned [OF o] pl(1) by (auto simp: owned_def the_pbuf_def)
  have n8: "8 \<le> off" "8 + length ?xs < 65536" using n by simp_all
  obtain h1 where h1: "pbuf_add_header (Some a) 8 ?h = Some (0, h1)" "owns h1 a (a # as)"
      "pdata h1 a = seg (off - 8) 8 bs @ pdata ?h a" "pbytes h1 as = pbytes ?h as" "same_on (- {a}) ?h h1" "same_env ?h h1"
      "pb_payload (the_pbuf h1 a) = Some (a, off - 8)"
    using add_header_pdata [OF o pl n8 bs(1)] by blast
  let ?s1 = "s\<lparr>st_heap := h1\<rparr>"
  have s8: "length (seg (off - 8) 8 bs) = 8" using bs(2) n8 by (intro length_seg) simp
  have pre: "owns (st_heap ?s1) a (a # as)" "pb_payload (the_pbuf (st_heap ?s1) a) = Some (a, off - 8)"
    "length (pdata (st_heap ?s1) a) = 8 + length (pdata ?h a)" "drop 8 (pdata (st_heap ?s1) a) = pdata ?h a"
    using h1(2,3,7) s8 by simp_all
  obtain t1 t2 g where w: "st_write (Some (a, off - 8)) 0 (bytes_u16 (lwip_htons sp) @ bytes_u16 (lwip_htons dp)) ?s1 = Some t1"
      "st_write (Some (a, off - 8)) 6 (bytes_u16 0) t1 = Some t2"
      "udp_fill_header ub a (Some (a, off - 8)) src dst t2 = Some (IP_PROTO_UDP, ?s1\<lparr>st_heap := g\<rparr>)"
      "owns g a (a # as)" "same_shape h1 g" "same_on (- {a}) h1 g" "the_pbuf g a = the_pbuf h1 a"
      "pbytes g (a # as) = udp_datagram src dst sp dp ?xs"
  proof (rule udp_header_filled [OF pre u(2,3), of sp dp src dst])
    fix t1 t2 g
    assume "st_write (Some (a, off - 8)) 0 (bytes_u16 (lwip_htons sp) @ bytes_u16 (lwip_htons dp)) ?s1 = Some t1"
      "st_write (Some (a, off - 8)) 6 (bytes_u16 0) t1 = Some t2"
      "udp_fill_header ub a (Some (a, off - 8)) src dst t2 = Some (IP_PROTO_UDP, ?s1\<lparr>st_heap := g\<rparr>)"
      "owns g a (a # as)" "same_shape (st_heap ?s1) g" "same_on (- {a}) (st_heap ?s1) g" "the_pbuf g a = the_pbuf (st_heap ?s1) a"
      "pbytes g (a # as) = udp_datagram src dst sp dp (pdata ?h a @ pbytes (st_heap ?s1) as)"
    then show thesis using that [of t1 t2 g] h1(4) by simp
  qed
  let ?s2 = "s\<lparr>st_heap := g\<rparr>"
  have s2: "same_on (- {a}) ?h g" using same_on_trans [OF h1(5) w(6)] .
  have na: "a \<notin> set (concat pss)" using dj by auto
  have pre2: "owns (st_heap ?s2) a (a # as)" "pb_payload (the_pbuf (st_heap ?s2) a) = Some (a, off - 8)"
    "contiguous_data (the_pbuf (st_heap ?s2) a)" "20 \<le> off - 8" "20 + length (pbytes (st_heap ?s2) (a # as)) < 65536"
    using w(4,7,8) h1(7) pbuf_header_type(1) [OF h1(1)] pl(2) n by (simp_all add: contiguous_data_def del: pbytes_simps)
  obtain s' h rx where S: "ip4_output_if_src a (Some src) (Some dst) (up_ttl ub) (up_tos ub) IP_PROTO_UDP global_if ?s2 = Some (ERR_OK, s')"
      "st_pbuf_free (Some a) s' = Some (s\<lparr>st_heap := h, st_ip_id := st_ip_id s + 1, st_links := (st_links s)(c \<mapsto> lk\<lparr>lk_rx := rx\<rparr>)\<rparr>)"
      "queue_owns h rx (kept pss @ [a # as])" "same_on (- ({a} \<union> dropped pss)) g h" "same_env g h"
      "pbytes h (a # as) = ip_header (8 + length ?xs) (st_ip_id s) (up_tos ub) (up_ttl ub) IP_PROTO_UDP src dst @ udp_datagram src dst sp dp ?xs"
    by (rule ip4_output_if_src_sends [OF link_ready_heap [OF l s2 na] pre2(1) dj pre2(2-5), of "Some src" dst "up_ttl ub" "up_tos ub" IP_PROTO_UDP], rule that)
      (simp_all add: w(8) del: pbytes_simps)
  obtain pb where pb: "hp_pbufs ?h a = Some pb" "unat (pb_tot_len pb) = length ?xs"
    using packet_Some [of ?h "Some a" "a # as"] o by (metis option.inject owns_def)
  have ov: "\<not> pb_tot_len pb + 8 < pb_tot_len pb" using pb(2) n unat_u16_add [of "pb_tot_len pb" 8] by (simp add: word_less_nat_alt)
  obtain qb where qb: "hp_pbufs h1 a = Some qb" "pb_payload qb = Some (a, off - 8)" "8 \<le> unat (pb_len qb)"
    using owns_head [OF h1(2)] h1(7) length_pdata [OF owned_readable [OF owns_owned [OF h1(2)]]] h1(3) s8 by force
  have mk: "udp_make_room a s = Some (Some a, ?s1)" using h1(1) by (simp add: udp_make_room_def on_heap_def UDP_HLEN_def)
  have lp: "\<not> (src_port = 0 \<and> up_local_port ub = 0)" using sp by (auto split: if_splits)
  have run: "udp_sendto_if_src_port (Some u) (Some a) (Some dst) dp (Some global_if) (Some src) src_port s = Some (ERR_OK, s')"
    using u(1) lp pb(1) ov mk qb w(1,2,3) S(1) unfolding sp(1)
    by (auto simp: udp_sendto_if_src_port_def UDP_HLEN_def Let_def)
  have "same_on (- ({a} \<union> dropped pss)) ?h h" by (rule same_on_trans [OF same_on_subset [OF s2] S(4)]) auto
  moreover have "same_env ?h h" using same_env_trans [OF h1(6) same_env_trans [OF same_env_shape [OF w(5)] S(5)]] .
  ultimately show thesis using that [OF run S(2,3)] S(6) by blast
qed

lemma udp_datagram_fields:
  "udp_port_at 0 (udp_datagram src dst sp dp xs) = sp" "udp_port_at 2 (udp_datagram src dst sp dp xs) = dp"
  "drop 8 (udp_datagram src dst sp dp xs) = xs"
proof -
  have s: "seg 0 2 (bytes_u16 x @ zs) = bytes_u16 x" "seg 2 2 (bytes_u16 x @ bytes_u16 y @ zs) = bytes_u16 y" for x y zs
    by (simp_all add: seg_def bytes_u16_def)
  show "udp_port_at 0 (udp_datagram src dst sp dp xs) = sp" "udp_port_at 2 (udp_datagram src dst sp dp xs) = dp"
    by (simp_all add: udp_port_at_def udp_datagram_def udp_hdr_def Let_def s)
  show "drop 8 (udp_datagram src dst sp dp xs) = xs" by (simp add: udp_datagram_def Let_def)
qed

section \<open>Properties\<close>

text \<open>C22: A packet with room for the headers and a control block with the checksum turned on: \<open>udp_sendto_if_src_port\<close>
  puts it into the queue of the link as an IP packet with a correct header, whose content is a UDP
  datagram with the given ports and data and a checksum that the receiver accepts.\<close>

theorem udp_sendto_delivers:
  assumes "link_ready s c lk pss" "owns (st_heap s) a (a # as)" "set (a # as) \<inter> set (concat pss) = {}"
    and "pb_payload (the_pbuf (st_heap s) a) = Some (a, off)" "contiguous_data (the_pbuf (st_heap s) a)"
    and "28 \<le> off" "28 + length (pbytes (st_heap s) (a # as)) < 65536"
    and "st_udp_pcb s u = Some ub" "up_flags ub AND UDP_FLAGS_UDPLITE = 0" "up_flags ub AND UDP_FLAGS_NOCHKSUM = 0"
    and "sp = (if src_port = 0 then up_local_port ub else src_port)" "sp \<noteq> 0"
  shows "\<exists>s' s'' rx hdr dgram.
      udp_sendto_if_src_port (Some u) (Some a) (Some dst) dp (Some global_if) (Some src) src_port s = Some (ERR_OK, s')
    \<and> st_pbuf_free (Some a) s' = Some s'' \<and> st_links s'' c = Some (lk\<lparr>lk_rx := rx\<rparr>)
    \<and> queue_owns (st_heap s'') rx (kept pss @ [a # as]) \<and> pbytes (st_heap s'') (a # as) = hdr @ dgram
    \<and> length hdr = 20 \<and> hdr ! 9 = IP_PROTO_UDP \<and> seg 12 4 hdr = bytes_u32 src \<and> seg 16 4 hdr = bytes_u32 dst
    \<and> inet_chksum False hdr = 0 \<and> udp_datagram_ok src dst dgram
    \<and> udp_port_at 0 dgram = sp \<and> udp_port_at 2 dgram = dp \<and> drop 8 dgram = pbytes (st_heap s) (a # as)"
proof -
  let ?xs = "pbytes (st_heap s) (a # as)"
  obtain s' h rx where r: "udp_sendto_if_src_port (Some u) (Some a) (Some dst) dp (Some global_if) (Some src) src_port s = Some (ERR_OK, s')"
      "st_pbuf_free (Some a) s' = Some (s\<lparr>st_heap := h, st_ip_id := st_ip_id s + 1, st_links := (st_links s)(c \<mapsto> lk\<lparr>lk_rx := rx\<rparr>)\<rparr>)"
      "queue_owns h rx (kept pss @ [a # as])"
      "pbytes h (a # as) = ip_header (8 + length ?xs) (st_ip_id s) (up_tos ub) (up_ttl ub) IP_PROTO_UDP src dst @ udp_datagram src dst sp dp ?xs"
    using udp_sendto_sends [OF assms, of dst dp src] by blast
  show ?thesis
    by (rule exI [of _ s'], rule exI, rule exI [of _ rx],
        rule exI [of _ "ip_header (8 + length ?xs) (st_ip_id s) (up_tos ub) (up_ttl ub) IP_PROTO_UDP src dst"],
        rule exI [of _ "udp_datagram src dst sp dp ?xs"], intro conjI, rule r(1), rule r(2))
      (simp_all add: r(3,4) ip_header_fields udp_datagram_fields udp_datagram_verifies del: pbytes_simps)
qed

text \<open>Three bytes with room for the headers, and control block 3.\<close>

definition ex_send :: stack where
  "ex_send = ex_dgram\<lparr>st_heap := (st_heap ex_out)\<lparr>hp_pbufs := [1 \<mapsto> ex_pbuf None (1, 44) 3 3 1],
     hp_blocks := [1 \<mapsto> replicate 44 0 @ [1, 2, 3]]\<rparr>\<rparr>"

lemma ex_send_ready:
  "link_ready ex_send 7 (the (st_links ex_send 7)) []" "owns (st_heap ex_send) 1 [1]" "set [1 :: addr] \<inter> set (concat []) = {}"
  "pb_payload (the_pbuf (st_heap ex_send) 1) = Some (1, 44)" "contiguous_data (the_pbuf (st_heap ex_send) 1)"
  "pbytes (st_heap ex_send) [1] = [1, 2, 3]"
proof -
  note d = ex_send_def ex_dgram_def ex_ping_def ex_out_def stack_zero_def ex_pbuf_def the_pbuf_def
  show "link_ready ex_send 7 (the (st_links ex_send 7)) []"
    using queue_rep_contents [OF queue_zero] by (simp add: link_ready_def d queue_owns_def)
  have "owned (st_heap ex_send) 1" by (simp add: d owned_def)
  moreover have "src_ok (the_pbuf (st_heap ex_send) 1)"
    by (simp add: d src_ok_def pbuf_get_allocsrc_def PBUF_TYPE_ALLOC_SRC_MASK_def PBUF_TYPE_ALLOC_SRC_MASK_STD_HEAP_def)
  ultimately show "owns (st_heap ex_send) 1 [1]" by (simp add: owns_def packet_def sole_def d)
  show "set [1 :: addr] \<inter> set (concat []) = {}" "pb_payload (the_pbuf (st_heap ex_send) 1) = Some (1, 44)"
    "contiguous_data (the_pbuf (st_heap ex_send) 1)" "pbytes (st_heap ex_send) [1] = [1, 2, 3]"
    by (simp_all add: d contiguous_data_def PBUF_TYPE_FLAG_STRUCT_DATA_CONTIGUOUS_def pdata_def mem_read_def seg_def)
qed

theorem udp_sendto_delivers_witness:
  "\<exists>s' s'' hdr dgram. udp_sendto_if_src_port (Some 3) (Some 1) (Some 6) 53 (Some global_if) (Some 5) 4242 ex_send = Some (ERR_OK, s')
    \<and> st_pbuf_free (Some 1) s' = Some s'' \<and> pbytes (st_heap s'') [1] = hdr @ dgram \<and> inet_chksum False hdr = 0
    \<and> udp_datagram_ok 5 6 dgram \<and> udp_port_at 0 dgram = 4242 \<and> udp_port_at 2 dgram = 53 \<and> drop 8 dgram = [1, 2, 3]"
proof -
  obtain ub where ub: "st_udp_pcb ex_send 3 = Some ub" "up_flags ub AND UDP_FLAGS_UDPLITE = 0" "up_flags ub AND UDP_FLAGS_NOCHKSUM = 0"
    by (simp add: ex_send_def ex_dgram_def)
  have l: "28 \<le> (44 :: nat)" "28 + length (pbytes (st_heap ex_send) [1]) < 65536"
    "(4242 :: u16) = (if (4242 :: u16) = 0 then up_local_port ub else 4242)" "(4242 :: u16) \<noteq> 0"
    unfolding ex_send_ready(6) by simp_all
  show ?thesis
    using udp_sendto_delivers [OF ex_send_ready(1-5) l(1,2) ub l(3,4), of 6 53 5] unfolding ex_send_ready(6) by blast
qed

text \<open>The implicit binding of a block without a port: \<open>udp_bind\<close> with port 0.\<close>

lemma udp_bind_ephemeral:
  assumes "pcbs_live s" "0xC000 \<le> st_udp_port s" "st_udp_pcb s u = Some ub"
  obtains port q where "0xC000 \<le> q" "port = 0 \<longleftrightarrow> (\<forall>n. 0xC000 \<le> n \<longrightarrow> port_used s n)" "port \<noteq> 0 \<Longrightarrow> 0xC000 \<le> port \<and> \<not> port_used s port"
    "udp_bind (Some u) (Some (up_local_ip ub)) 0 s = Some (if port = 0 then (ERR_USE, s\<lparr>st_udp_port := q\<rparr>)
      else (ERR_OK, s\<lparr>st_udp_port := q, st_udp_pcb := (st_udp_pcb s)(u \<mapsto> ub\<lparr>up_local_port := port\<rparr>),
        st_udp_pcbs := (if u \<in> set (st_udp_pcbs s) then st_udp_pcbs s else u # st_udp_pcbs s)\<rparr>))"
proof -
  obtain p q where np: "udp_new_port s = Some (p, s\<lparr>st_udp_port := q\<rparr>)" "0xC000 \<le> q"
    "p = 0 \<longleftrightarrow> (\<forall>port. 0xC000 \<le> port \<longrightarrow> port_used s port)" "p \<noteq> 0 \<Longrightarrow> p = q \<and> \<not> port_used s p"
    using udp_new_port_spec [OF assms(1,2)] by metis
  have "udp_bind (Some u) (Some (up_local_ip ub)) 0 s = Some (if p = 0 then (ERR_USE, s\<lparr>st_udp_port := q\<rparr>)
      else (ERR_OK, s\<lparr>st_udp_port := q, st_udp_pcb := (st_udp_pcb s)(u \<mapsto> ub\<lparr>up_local_port := p\<rparr>),
        st_udp_pcbs := (if u \<in> set (st_udp_pcbs s) then st_udp_pcbs s else u # st_udp_pcbs s)\<rparr>))"
    using np(1) assms(3) by (simp add: udp_bind_def put_udp_pcb_def Let_def lwip_assert_def)
  then show thesis using that [of q p] np(2-4) by blast
qed

text \<open>C34: What the sending functions refuse: \<open>ERR_RTE\<close> when the destination has no route or the block is bound to an interface
  that does not exist, \<open>ERR_RTE\<close> when the block is bound
  to an address that is not the one of the interface, \<open>ERR_MEM\<close> when the length with the header exceeds 16 bits.
  Nothing is changed or sent, with one exception: a block that has no port yet is bound first, so that after the \<open>ERR_MEM\<close> of
  an overlong packet it is on the list with a free ephemeral port, and when no ephemeral port is free the result is
  \<open>ERR_USE\<close> and only the last port tried has changed.\<close>

theorem udp_sendto_errors:
  assumes "st_udp_pcb s u = Some ub" "hp_pbufs (st_heap s) p = Some pb"
  shows "((if up_netif_idx ub = NETIF_NO_INDEX then ip4_route d s else netif_get_by_index (up_netif_idx ub) s) = None
        \<longrightarrow> udp_sendto (Some u) (Some p) (Some d) dp s = Some (ERR_RTE, s))
    \<and> (\<not> ip4_addr_isany_val (up_local_ip ub) \<and> \<not> ip4_addr_ismulticast (up_local_ip ub) \<and> up_local_ip ub \<noteq> nif_ip_addr (st_global_if s)
        \<longrightarrow> udp_sendto_if (Some u) (Some p) (Some d) dp (Some global_if) s = Some (ERR_RTE, s))
    \<and> (65527 < unat (pb_tot_len pb) \<and> (sp \<noteq> 0 \<or> up_local_port ub \<noteq> 0)
        \<longrightarrow> udp_sendto_if_src_port (Some u) (Some p) (Some d) dp (Some global_if) (Some src) sp s = Some (ERR_MEM, s))
    \<and> (65527 < unat (pb_tot_len pb) \<and> sp = 0 \<and> up_local_port ub = 0 \<and> pcbs_live s \<and> 0xC000 \<le> st_udp_port s
        \<longrightarrow> (\<exists>port q. udp_sendto_if_src_port (Some u) (Some p) (Some d) dp (Some global_if) (Some src) sp s =
               Some (if port = 0 then (ERR_USE, s\<lparr>st_udp_port := q\<rparr>)
                 else (ERR_MEM, s\<lparr>st_udp_port := q, st_udp_pcb := (st_udp_pcb s)(u \<mapsto> ub\<lparr>up_local_port := port\<rparr>),
                   st_udp_pcbs := (if u \<in> set (st_udp_pcbs s) then st_udp_pcbs s else u # st_udp_pcbs s)\<rparr>))
             \<and> 0xC000 \<le> q \<and> (port = 0 \<longleftrightarrow> (\<forall>n. 0xC000 \<le> n \<longrightarrow> port_used s n)) \<and> (port \<noteq> 0 \<longrightarrow> 0xC000 \<le> port \<and> \<not> port_used s port)))"
proof -
  have big: "pb_tot_len pb + 8 < pb_tot_len pb" if big: "65527 < unat (pb_tot_len pb)"
  proof -
    have "unat (pb_tot_len pb) - 65528 < 65536" using unat_u16_le [of "pb_tot_len pb"] by linarith
    then have "unat (pb_tot_len pb + 8) = unat (pb_tot_len pb) + 8 - 65536"
      using big mod_less le_mod_geq [of 65536 "unat (pb_tot_len pb) + 8"] by (simp add: unat_word_ariths)
    then show ?thesis using big by (simp add: word_less_nat_alt)
  qed
  show ?thesis
  proof (intro conjI impI)
    assume b: "65527 < unat (pb_tot_len pb) \<and> sp = 0 \<and> up_local_port ub = 0 \<and> pcbs_live s \<and> 0xC000 \<le> st_udp_port s"
    then have lv: "pcbs_live s" "0xC000 \<le> st_udp_port s" by simp_all
    show "\<exists>port q. udp_sendto_if_src_port (Some u) (Some p) (Some d) dp (Some global_if) (Some src) sp s =
               Some (if port = 0 then (ERR_USE, s\<lparr>st_udp_port := q\<rparr>)
                 else (ERR_MEM, s\<lparr>st_udp_port := q, st_udp_pcb := (st_udp_pcb s)(u \<mapsto> ub\<lparr>up_local_port := port\<rparr>),
                   st_udp_pcbs := (if u \<in> set (st_udp_pcbs s) then st_udp_pcbs s else u # st_udp_pcbs s)\<rparr>))
             \<and> 0xC000 \<le> q \<and> (port = 0 \<longleftrightarrow> (\<forall>n. 0xC000 \<le> n \<longrightarrow> port_used s n)) \<and> (port \<noteq> 0 \<longrightarrow> 0xC000 \<le> port \<and> \<not> port_used s port)"
    proof (rule udp_bind_ephemeral [OF lv assms(1)])
      fix port q
      assume r: "0xC000 \<le> q" "port = 0 \<longleftrightarrow> (\<forall>n. 0xC000 \<le> n \<longrightarrow> port_used s n)" "port \<noteq> 0 \<Longrightarrow> 0xC000 \<le> port \<and> \<not> port_used s port"
        "udp_bind (Some u) (Some (up_local_ip ub)) 0 s = Some (if port = 0 then (ERR_USE, s\<lparr>st_udp_port := q\<rparr>)
          else (ERR_OK, s\<lparr>st_udp_port := q, st_udp_pcb := (st_udp_pcb s)(u \<mapsto> ub\<lparr>up_local_port := port\<rparr>),
            st_udp_pcbs := (if u \<in> set (st_udp_pcbs s) then st_udp_pcbs s else u # st_udp_pcbs s)\<rparr>))"
      show ?thesis
        by (rule exI [of _ port], rule exI [of _ q], intro conjI)
          (use b r assms big in \<open>auto simp: udp_sendto_if_src_port_def UDP_HLEN_def Let_def\<close>)
    qed
  qed (use assms big in \<open>auto simp: udp_sendto_def udp_sendto_if_def udp_sendto_if_src_port_def UDP_HLEN_def netif_at_def
      lwip_assert_def Let_def\<close>)
qed

text \<open>A packet of 65535 bytes and a block without a port.\<close>

definition ex_unbound :: stack where
  "ex_unbound = ex_send\<lparr>st_udp_pcbs := [], st_udp_pcb := map_option (\<lambda>p. p\<lparr>up_local_port := 0\<rparr>) \<circ> st_udp_pcb ex_send,
     st_heap := (st_heap ex_send)\<lparr>hp_pbufs := [1 \<mapsto> ex_pbuf None (1, 44) 65535 65535 1]\<rparr>\<rparr>"

theorem udp_sendto_errors_witness:
  "udp_sendto (Some 3) (Some 1) (Some 6) 53 ex_send = Some (ERR_RTE, ex_send)
   \<and> (\<exists>port s'. udp_sendto_if_src_port (Some 3) (Some 1) (Some 6) 53 (Some global_if) (Some 5) 0 ex_unbound = Some (ERR_MEM, s')
       \<and> 0xC000 \<le> port \<and> map_option up_local_port (st_udp_pcb s' 3) = Some port \<and> st_udp_pcbs s' = [3])"
proof
  obtain ub pb where ub: "st_udp_pcb ex_send 3 = Some ub" "hp_pbufs (st_heap ex_send) 1 = Some pb"
      "up_netif_idx ub = NETIF_NO_INDEX"
    by (simp add: ex_send_def ex_dgram_def UDP_ACCEPT_ANY_PORT_def NETIF_NO_INDEX_def)
  have "ip4_route 6 ex_send = None" by (simp add: ip4_route_def ex_send_def ex_dgram_def ex_ping_def ex_out_def stack_zero_def)
  with udp_sendto_errors [OF ub(1,2), of 6 53] ub(3)
  show "udp_sendto (Some 3) (Some 1) (Some 6) 53 ex_send = Some (ERR_RTE, ex_send)" by simp
  obtain vb qb where vb: "st_udp_pcb ex_unbound 3 = Some vb" "hp_pbufs (st_heap ex_unbound) 1 = Some qb"
      "up_local_port vb = 0" "65527 < unat (pb_tot_len qb)" "pcbs_live ex_unbound" "0xC000 \<le> st_udp_port ex_unbound"
      "st_udp_pcbs ex_unbound = []" "\<not> port_used ex_unbound 0xC000"
    by (simp add: ex_unbound_def ex_send_def ex_dgram_def ex_ping_def ex_out_def stack_zero_def ex_pbuf_def pcbs_live_def port_used_def)
  then have c: "65527 < unat (pb_tot_len qb) \<and> (0 :: u16) = 0 \<and> up_local_port vb = 0 \<and> pcbs_live ex_unbound \<and> 0xC000 \<le> st_udp_port ex_unbound"
    by simp
  obtain port q where r: "udp_sendto_if_src_port (Some 3) (Some 1) (Some 6) 53 (Some global_if) (Some 5) 0 ex_unbound =
      Some (if port = 0 then (ERR_USE, ex_unbound\<lparr>st_udp_port := q\<rparr>)
        else (ERR_MEM, ex_unbound\<lparr>st_udp_port := q, st_udp_pcb := (st_udp_pcb ex_unbound)(3 \<mapsto> vb\<lparr>up_local_port := port\<rparr>),
          st_udp_pcbs := (if 3 \<in> set (st_udp_pcbs ex_unbound) then st_udp_pcbs ex_unbound else 3 # st_udp_pcbs ex_unbound)\<rparr>))"
    "port = 0 \<longleftrightarrow> (\<forall>n. 0xC000 \<le> n \<longrightarrow> port_used ex_unbound n)" "port \<noteq> 0 \<longrightarrow> 0xC000 \<le> port"
    using udp_sendto_errors [OF vb(1,2), of 6 53 0 5] c by blast
  have "port \<noteq> 0" using r(2) vb(8) by auto
  then show "\<exists>port s'. udp_sendto_if_src_port (Some 3) (Some 1) (Some 6) 53 (Some global_if) (Some 5) 0 ex_unbound = Some (ERR_MEM, s')
       \<and> 0xC000 \<le> port \<and> map_option up_local_port (st_udp_pcb s' 3) = Some port \<and> st_udp_pcbs s' = [3]"
    using r(1,3) vb(7) by (intro exI [of _ port]) simp
qed

end
