(* ===== verification/Native.thy ===== *)
theory Native
  imports Ip4_In Udp_Send
begin

text \<open>
  The functions that the Go side calls (\<open>native/link.c\<close>, \<open>native/udp.c\<close>): a link carries raw IP packets, a UDP
  connection carries datagrams with their addresses.  Writing puts a packet into a queue and posts a
  callback to the tcpip thread, which takes up to 32 packets out of the queue and processes them; reading
  takes one packet from a queue and waits while it is empty.  Every definition is one critical section of
  the C code, and a function that waits returns \<open>Blocked\<close>.  The C type \<open>int\<close> of sizes and results
  is \<open>int\<close> here; buffers are lists of bytes.
\<close>

datatype 'a blocking = Blocked | Returned 'a

section \<open>Packets from the link\<close>

definition global_interface_inject_packet :: "tcp_input_fn \<Rightarrow> addr option \<Rightarrow> stack \<Rightarrow> stack option" where
  "global_interface_inject_packet tcp_input buf s = (case buf of
      None \<Rightarrow> Some s
    | Some p \<Rightarrow> do {
        f \<leftarrow> nif_input (st_global_if s);
        (e, s) \<leftarrow> (case f of fn_ip_input \<Rightarrow> ip4_input tcp_input p global_if s);
        if e \<noteq> ERR_OK then st_pbuf_free buf s else Some s
      })"

fun inject_all :: "tcp_input_fn \<Rightarrow> addr option list \<Rightarrow> stack \<Rightarrow> stack option" where
  "inject_all tcp_input [] s = Some s"
| "inject_all tcp_input (p # ps) s = do { s \<leftarrow> global_interface_inject_packet tcp_input p s; inject_all tcp_input ps s }"

definition poll_tx :: "tcp_input_fn \<Rightarrow> addr option \<Rightarrow> stack \<Rightarrow> stack option" where
  "poll_tx tcp_input ctx s = do {
     c \<leftarrow> ctx;
     context \<leftarrow> st_links s c;
     let (array, tx) = pbuf_queue_pop (lk_tx context) 32;
     inject_all tcp_input array (s\<lparr>st_links := (st_links s)(c \<mapsto> context\<lparr>lk_tx_polling := False, lk_tx := tx\<rparr>)\<rparr>)
   }"

section \<open>The link\<close>

definition link_attach :: "int \<Rightarrow> stack \<Rightarrow> (addr option \<times> stack) option" where
  "link_attach mtu s =
     (if global_interface_is_attached s then Some (None, s)
      else case mem_malloc (st_heap s) of
        (None, h) \<Rightarrow> None
      | (Some ctx, h) \<Rightarrow>
          (let s = s\<lparr>st_heap := h, st_links := (st_links s)(ctx \<mapsto> \<lparr>lk_rx = pbuf_queue_zero, lk_tx = pbuf_queue_zero,
                 lk_tx_polling = False, lk_closed = False, lk_mtu = mtu\<rparr>)\<rparr>
           in Some (Some ctx, global_interface_attach_device (Some fn_if_output) (Some ctx) mtu s)))"

definition link_close :: "addr \<Rightarrow> stack \<Rightarrow> stack option" where
  "link_close ctx s = do {
     let s = global_interface_attach_device None None DEFAULT_MTU s;
     l \<leftarrow> st_links s ctx;
     Some (s\<lparr>st_links := (st_links s)(ctx \<mapsto> l\<lparr>lk_closed := True\<rparr>)\<rparr>)
   }"

definition link_free :: "addr \<Rightarrow> stack \<Rightarrow> stack" where
  "link_free ctx s = s\<lparr>st_links := (st_links s)(ctx := None)\<rparr>"

text \<open>The result of \<open>link_read\<close> is its return value and the bytes written to the buffer.\<close>

definition link_read :: "addr \<Rightarrow> int \<Rightarrow> stack \<Rightarrow> ((int \<times> byte list) blocking \<times> stack) option" where
  "link_read ctx sz s = do {
     l \<leftarrow> st_links s ctx;
     if pbuf_queue_length (lk_rx l) = 0
     then Some (if lk_closed l then Returned (- 1, []) else Blocked, s)
     else do {
       let (out, rx) = pbuf_queue_pop (lk_rx l) 1;
       let s = s\<lparr>st_links := (st_links s)(ctx \<mapsto> l\<lparr>lk_rx := rx\<rparr>)\<rparr>;
       case out of
         [Some source] \<Rightarrow> do {
           pb \<leftarrow> hp_pbufs (st_heap s) source;
           (sz, buffer) \<leftarrow> (if sz \<ge> int (unat (pb_tot_len pb)) then do {
                 (_, bs) \<leftarrow> pbuf_copy_partial (Some source) (pb_tot_len pb) 0 (st_heap s);
                 Some (int (unat (pb_tot_len pb)), bs)
               } else Some (0, []));
           s \<leftarrow> st_pbuf_free (Some source) s;
           Some (Returned (sz, buffer), s)
         }
       | _ \<Rightarrow> Some (Returned (0, []), s)
     }
   }"

definition link_write :: "addr \<Rightarrow> byte list \<Rightarrow> int \<Rightarrow> stack \<Rightarrow> (int \<times> stack) option" where
  "link_write ctx buffer sz s = do {
     (target, s) \<leftarrow> on_heap (pbuf_alloc PBUF_IP (of_int sz) PBUF_POOL) s;
     (_, s) \<leftarrow> on_heap (pbuf_take target buffer (of_int sz)) s;
     l \<leftarrow> st_links s ctx;
     if lk_closed l then do { s \<leftarrow> st_pbuf_free target s; Some (- 1, s) }
     else do {
       (tx, h) \<leftarrow> pbuf_queue_append (lk_tx l) [target] (st_heap s);
       (polling, h) \<leftarrow> (if lk_tx_polling l then Some (True, h)
         else do { (e, h) \<leftarrow> tcpip_try_callback fn_poll_tx (Some ctx) h; Some (e = ERR_OK, h) });
       Some (sz, s\<lparr>st_heap := h, st_links := (st_links s)(ctx \<mapsto> l\<lparr>lk_tx := tx, lk_tx_polling := polling\<rparr>)\<rparr>)
     }
   }"

section \<open>UDP connections\<close>

text \<open>One round of the loop of \<open>udp_poll_tx\<close>.\<close>

definition udp_poll_one :: "addr option \<Rightarrow> addr option \<Rightarrow> stack \<Rightarrow> stack option" where
  "udp_poll_one pcb buf s = do {
     p \<leftarrow> buf;
     pb \<leftarrow> hp_pbufs (st_heap s) p;
     src_addr \<leftarrow> read_u32 (st_heap s) (pb_payload pb) 0;
     dst_addr \<leftarrow> read_u32 (st_heap s) (pb_payload pb) 4;
     src_port \<leftarrow> read_u16 (st_heap s) (pb_payload pb) 8;
     dst_port \<leftarrow> read_u16 (st_heap s) (pb_payload pb) 10;
     (e, s) \<leftarrow> on_heap (pbuf_remove_header buf 12) s;
     if e \<noteq> 0 then st_pbuf_free buf s
     else do {
       s \<leftarrow> (if pcb \<noteq> None then
              map_option snd (udp_sendto_if_src_port pcb buf (Some dst_addr) dst_port global_interface_get (Some src_addr) src_port s)
            else Some s);
       st_pbuf_free buf s
     }
   }"

fun udp_poll_all :: "addr \<Rightarrow> addr option list \<Rightarrow> stack \<Rightarrow> stack option" where
  "udp_poll_all c [] s = Some s"
| "udp_poll_all c (p # ps) s = do {
     conn \<leftarrow> st_udp_conns s c;
     s \<leftarrow> udp_poll_one (uc_pcb conn) p s;
     udp_poll_all c ps s
   }"

definition udp_poll_tx :: "addr option \<Rightarrow> stack \<Rightarrow> stack option" where
  "udp_poll_tx ctx s = do {
     c \<leftarrow> ctx;
     conn \<leftarrow> st_udp_conns s c;
     let (array, tx) = pbuf_queue_pop (uc_tx conn) 32;
     udp_poll_all c array (s\<lparr>st_udp_conns := (st_udp_conns s)(c \<mapsto> conn\<lparr>uc_tx_polling := False, uc_tx := tx\<rparr>)\<rparr>)
   }"

definition udp_conn_listen :: "stack \<Rightarrow> (addr option \<times> stack) option" where
  "udp_conn_listen s = do {
     let (pcb, s) = udp_new s;
     (e, s) \<leftarrow> udp_bind pcb (Some IPADDR_ANY) UDP_ACCEPT_ANY_PORT s;
     if e \<noteq> ERR_OK then do { s \<leftarrow> udp_remove pcb s; Some (None, s) }
     else case mem_malloc (st_heap s) of
       (None, h) \<Rightarrow> None
     | (Some conn, h) \<Rightarrow> do {
         let s = s\<lparr>st_heap := h\<rparr>;
         u \<leftarrow> pcb;
         s \<leftarrow> udp_bind_netif u global_interface_get s;
         s \<leftarrow> udp_recv pcb (Some fn_udp_on_received) (Some conn) s;
         Some (Some conn, s\<lparr>st_udp_conns := (st_udp_conns s)(conn \<mapsto> \<lparr>uc_pcb = pcb, uc_rx = pbuf_queue_zero,
            uc_tx = pbuf_queue_zero, uc_tx_polling = False\<rparr>)\<rparr>)
       }
   }"

definition udp_conn_close :: "addr \<Rightarrow> stack \<Rightarrow> stack option" where
  "udp_conn_close c s = do {
     conn \<leftarrow> st_udp_conns s c;
     s \<leftarrow> (if uc_pcb conn \<noteq> None then udp_remove (uc_pcb conn) s else Some s);
     Some (s\<lparr>st_udp_conns := (st_udp_conns s)(c \<mapsto> conn\<lparr>uc_pcb := None\<rparr>)\<rparr>)
   }"

definition udp_conn_free :: "addr \<Rightarrow> stack \<Rightarrow> stack option" where
  "udp_conn_free c s = do {
     s \<leftarrow> udp_conn_close c s;
     Some (s\<lparr>st_udp_conns := (st_udp_conns s)(c := None)\<rparr>)
   }"

text \<open>
  The return value of \<open>udp_conn_recv\<close>, the metadata and the data.  The comparison of the length with the
  size of the buffer is one of unsigned 64 bit numbers.
\<close>

definition udp_conn_recv :: "addr \<Rightarrow> int \<Rightarrow> stack \<Rightarrow> ((int \<times> byte list \<times> byte list) blocking \<times> stack) option" where
  "udp_conn_recv c sz s = do {
     conn \<leftarrow> st_udp_conns s c;
     if pbuf_queue_length (uc_rx conn) = 0
     then Some (if uc_pcb conn = None then Returned (- 1, [], []) else Blocked, s)
     else do {
       let (out, rx) = pbuf_queue_pop (uc_rx conn) 1;
       let s = s\<lparr>st_udp_conns := (st_udp_conns s)(c \<mapsto> conn\<lparr>uc_rx := rx\<rparr>)\<rparr>;
       case out of
         [Some buf] \<Rightarrow> do {
           pb \<leftarrow> hp_pbufs (st_heap s) buf;
           if (int (unat (pb_tot_len pb)) - 12) mod 2 ^ 64 > sz mod 2 ^ 64
           then do { s \<leftarrow> st_pbuf_free (Some buf) s; Some (Returned (- 1, [], []), s) }
           else do {
             let data_length = (int (unat (pb_tot_len pb)) - 12) mod 2 ^ 32;
             (_, metadata) \<leftarrow> pbuf_copy_partial (Some buf) 12 0 (st_heap s);
             (_, buffer) \<leftarrow> pbuf_copy_partial (Some buf) (of_int data_length) 12 (st_heap s);
             s \<leftarrow> st_pbuf_free (Some buf) s;
             Some (Returned (if data_length < 2 ^ 31 then data_length else data_length - 2 ^ 32, metadata, buffer), s)
           }
         }
       | _ \<Rightarrow> Some (Returned (- 1, [], []), s)
     }
   }"

definition udp_conn_sendto :: "addr \<Rightarrow> byte list \<Rightarrow> byte list \<Rightarrow> int \<Rightarrow> stack \<Rightarrow> (int \<times> stack) option" where
  "udp_conn_sendto c metadata buffer sz s = do {
     conn \<leftarrow> st_udp_conns s c;
     if uc_pcb conn = None then Some (- 1, s)
     else do {
       (buf, s) \<leftarrow> on_heap (pbuf_alloc PBUF_TRANSPORT (of_int sz) PBUF_RAM) s;
       case buf of
         None \<Rightarrow> Some (- 1, s)
       | Some b \<Rightarrow> do {
           (_, s) \<leftarrow> on_heap (pbuf_take buf buffer (of_int sz)) s;
           (e, s) \<leftarrow> on_heap (pbuf_add_header buf 12) s;
           if e \<noteq> 0 then do { s \<leftarrow> st_pbuf_free buf s; Some (- 1, s) }
           else do {
             (_, s) \<leftarrow> on_heap (pbuf_take buf metadata 12) s;
             (tx, h) \<leftarrow> pbuf_queue_append (uc_tx conn) [buf] (st_heap s);
             (polling, h) \<leftarrow> (if uc_tx_polling conn then Some (True, h)
               else do { (e, h) \<leftarrow> tcpip_try_callback fn_udp_poll_tx (Some c) h; Some (e = ERR_OK, h) });
             Some (sz, s\<lparr>st_heap := h, st_udp_conns := (st_udp_conns s)(c \<mapsto> conn\<lparr>uc_tx := tx, uc_tx_polling := polling\<rparr>)\<rparr>)
           }
         }
     }
   }"

section \<open>Taking packets out of a queue\<close>

lemma queue_owns_empty: "queue_owns h q [] \<Longrightarrow> pbuf_queue_length q = 0"
  using queue_inv_rep by (auto simp: queue_owns_def queue_contents_def)

lemma queue_owns_length: "queue_owns h q pss \<Longrightarrow> pbuf_queue_length q = length pss"
  by (auto simp: queue_owns_def queue_contents_def dest: list_all2_lengthD)

lemma queue_owns_without:
  assumes "queue_owns h q pss" "A \<inter> set (concat pss) = {}"
  shows "queue_owns (without h A) q pss"
proof -
  have s: "same_on (- A) h (without h A)" by (simp add: same_on_def)
  show ?thesis
    using assms list_all2_owns_same [OF _ s, of "queue_contents q" pss] by (auto simp: queue_owns_def)
qed

lemma queue_owns_pop:
  assumes q: "queue_owns h q (ps # pss)"
  obtains a as q' where "ps = a # as" "owns h a (a # as)" "pbuf_queue_pop q 1 = ([Some a], q')" "queue_owns h q' pss"
    "queue_owns (without h (set ps)) q' pss"
proof -
  have l2: "list_all2 (owns h) (queue_contents q) (ps # pss)" and d: "distinct (concat (ps # pss))" and i: "queue_inv q"
    using q by (simp_all add: queue_owns_def)
  obtain a xs where c: "queue_contents q = a # xs" "owns h a ps" "list_all2 (owns h) xs pss"
    using l2 by (auto simp: list_all2_Cons2)
  obtain as where as: "ps = a # as" using owns_head [OF c(2)] by blast
  obtain outs q' where p: "pbuf_queue_pop q 1 = (outs, q')" by fastforce
  have r: "queue_rep q (a # xs)" using queue_inv_rep [OF i] c(1) by simp
  note R = queue_pop_one [OF r p]
  have q': "queue_owns h q' pss" using R(2) c(3) d queue_rep_contents [OF R(2)] by (simp add: queue_owns_def)
  have "set ps \<inter> set (concat pss) = {}" using d by simp
  from queue_owns_without [OF q' this] that [OF as _ _ q'] show thesis using p R(1) c(2) as by simp
qed

section \<open>Reading\<close>

lemma owns_copy:
  assumes o: "owns h a (a # as)" and l: "length (pbytes h (a # as)) = n"
  shows "\<exists>pb. hp_pbufs h a = Some pb \<and> pb_tot_len pb = of_nat n \<and> unat (pb_tot_len pb) = n
    \<and> (\<forall>k off. pbuf_copy_partial (Some a) k off h =
        Some (of_nat (length (take (unat k) (drop (unat off) (pbytes h (a # as))))), take (unat k) (drop (unat off) (pbytes h (a # as)))))"
proof -
  have pk: "packet h (Some a) (a # as)" using o by (simp add: owns_def)
  obtain pb where pb: "hp_pbufs h a = Some pb" "unat (pb_tot_len pb) = n"
    using packet_Some [OF pk] l by (metis option.inject)
  have "pb_tot_len pb = of_nat n" using pb(2) by (metis of_nat_unat ucast_id)
  moreover have "chain h (Some a) (a # as)" "list_all (readable h) (a # as)" using pk packet_chain packet_readable by blast+
  ultimately show ?thesis using pb pbuf_copy_partial_spec [of h "Some a" "a # as"] by blast
qed

lemma link_read_next:
  assumes "st_links s c = Some lk" "queue_owns (st_heap s) (lk_rx lk) (ps # pss)"
  obtains rx where "link_read c sz s = Some (Returned (if int (length (pbytes (st_heap s) ps)) \<le> sz
        then (int (length (pbytes (st_heap s) ps)), pbytes (st_heap s) ps) else (0, [])),
      s\<lparr>st_links := (st_links s)(c \<mapsto> lk\<lparr>lk_rx := rx\<rparr>), st_heap := without (st_heap s) (set ps)\<rparr>)"
    "queue_owns (without (st_heap s) (set ps)) rx pss"
proof -
  let ?h = "without (st_heap s) (set ps)" and ?bs = "pbytes (st_heap s) ps"
  obtain a as rx where r: "ps = a # as" "owns (st_heap s) a (a # as)" "pbuf_queue_pop (lk_rx lk) 1 = ([Some a], rx)" "queue_owns ?h rx pss"
    by (rule queue_owns_pop [OF assms(2)])
  obtain pb where pb: "hp_pbufs (st_heap s) a = Some pb" "unat (pb_tot_len pb) = length ?bs"
    "\<forall>k off. pbuf_copy_partial (Some a) k off (st_heap s) =
        Some (of_nat (length (take (unat k) (drop (unat off) ?bs))), take (unat k) (drop (unat off) ?bs))"
    using owns_copy [OF r(2) refl] unfolding r(1) by blast
  let ?s = "s\<lparr>st_links := (st_links s)(c \<mapsto> lk\<lparr>lk_rx := rx\<rparr>)\<rparr>"
  have f: "st_pbuf_free (Some a) ?s = Some (?s\<lparr>st_heap := ?h\<rparr>)" using owns_st_free [of ?s a ps] r(1,2) by simp
  have u: "uint (pb_tot_len pb) = int (length ?bs)" using arg_cong [where f = int, OF pb(2)] by simp
  have l: "pbuf_queue_length (lk_rx lk) \<noteq> 0" using queue_owns_length [OF assms(2)] by simp
  have "link_read c sz s = Some (Returned (if int (length ?bs) \<le> sz then (int (length ?bs), ?bs) else (0, [])), ?s\<lparr>st_heap := ?h\<rparr>)"
    using assms(1) l r(3) pb f u by (simp add: link_read_def Let_def del: pbuf_queue_pop.simps One_nat_def)
  then show thesis using that r(4) by blast
qed

lemma udp_conn_recv_next:
  assumes "st_udp_conns s c = Some conn" "queue_owns (st_heap s) (uc_rx conn) (ps # pss)" "0 \<le> sz" "sz < 2 ^ 31"
    and "pbytes (st_heap s) ps = md @ data" "length md = 12"
  obtains rx where "udp_conn_recv c sz s = Some (Returned (if int (length data) \<le> sz then (int (length data), md, data) else (- 1, [], [])),
      s\<lparr>st_udp_conns := (st_udp_conns s)(c \<mapsto> conn\<lparr>uc_rx := rx\<rparr>), st_heap := without (st_heap s) (set ps)\<rparr>)"
    "queue_owns (without (st_heap s) (set ps)) rx pss"
proof -
  let ?h = "without (st_heap s) (set ps)" and ?d = "length data"
  obtain a as rx where r: "ps = a # as" "owns (st_heap s) a (a # as)" "pbuf_queue_pop (uc_rx conn) 1 = ([Some a], rx)" "queue_owns ?h rx pss"
    by (rule queue_owns_pop [OF assms(2)])
  obtain pb where pb: "hp_pbufs (st_heap s) a = Some pb" "unat (pb_tot_len pb) = 12 + ?d"
    "\<forall>k off. pbuf_copy_partial (Some a) k off (st_heap s) =
        Some (of_nat (length (take (unat k) (drop (unat off) (md @ data)))), take (unat k) (drop (unat off) (md @ data)))"
    using owns_copy [OF r(2) refl] assms(5,6) unfolding r(1) by (metis length_append)
  let ?s = "s\<lparr>st_udp_conns := (st_udp_conns s)(c \<mapsto> conn\<lparr>uc_rx := rx\<rparr>)\<rparr>"
  have f: "st_pbuf_free (Some a) ?s = Some (?s\<lparr>st_heap := ?h\<rparr>)" using owns_st_free [of ?s a ps] r(1,2) by simp
  have l: "pbuf_queue_length (uc_rx conn) \<noteq> 0" using queue_owns_length [OF assms(2)] by simp
  have u: "uint (pb_tot_len pb) = 12 + int ?d" using arg_cong [where f = int, OF pb(2)] by simp
  have "12 + ?d < 65536" using pb(2) unat_u16_less [of "pb_tot_len pb"] by simp
  then have n: "int ?d mod 18446744073709551616 = int ?d" "int ?d mod 4294967296 = int ?d" "?d < 2147483648" "unat (of_nat ?d :: u16) = ?d"
    "sz mod 18446744073709551616 = sz"
    using assms(3,4) by (simp_all add: unat_of_nat_u16)
  have "udp_conn_recv c sz s = Some (Returned (if int ?d \<le> sz then (int ?d, md, data) else (- 1, [], [])), ?s\<lparr>st_heap := ?h\<rparr>)"
    using assms(1,6) l r(3) pb f n u by (simp add: udp_conn_recv_def Let_def del: pbuf_queue_pop.simps One_nat_def)
  then show thesis using that r(4) by blast
qed

section \<open>Sending through a connection\<close>

lemma udp_metadata_segs:
  "seg 0 4 (udp_metadata sa da sp dp) = bytes_u32 sa" "seg 4 4 (udp_metadata sa da sp dp) = bytes_u32 da"
  "seg 8 2 (udp_metadata sa da sp dp) = bytes_u16 sp" "seg 10 2 (udp_metadata sa da sp dp) = bytes_u16 dp"
  by (simp_all add: udp_metadata_def seg_def bytes_u32_def bytes_u16_def)

lemma udp_conn_sendto_queues:
  assumes c: "st_udp_conns s c = Some conn" "uc_pcb conn \<noteq> None" and q: "queue_owns (st_heap s) (uc_tx conn) pss"
    and ok: "heap_ok (st_heap s)" "env_ok (st_heap s)" "\<not> hp_oom (st_heap s) (hp_brk (st_heap s))"
    and n: "length md = 12" "length data \<le> 65000"
  obtains h tx polling b bs off where
    "udp_conn_sendto c md data (int (length data)) s = Some (int (length data),
       s\<lparr>st_heap := h, st_udp_conns := (st_udp_conns s)(c \<mapsto> conn\<lparr>uc_tx := tx, uc_tx_polling := polling\<rparr>)\<rparr>)"
    "queue_owns h tx (kept pss @ [b # bs])" "pbytes h (b # bs) = md @ data" "pb_payload (the_pbuf h b) = Some (b, off)" "42 \<le> off"
    "contiguous_data (the_pbuf h b)" "12 \<le> unat (pb_len (the_pbuf h b))" "set (b # bs) \<subseteq> {hp_brk (st_heap s)..}"
    "same_on (- (set (b # bs) \<union> dropped pss)) (st_heap s) h"
proof -
  let ?h = "st_heap s" and ?n = "of_nat (length data) :: u16"
  have un: "unat ?n = length data" using n(2) by (simp add: unat_of_nat_u16)
  have ram: "PBUF_RAM = PBUF_RAM \<or> PBUF_RAM = PBUF_POOL" by simp
  from ok(1,2) ram show thesis
  proof (cases rule: pbuf_alloc_cases [where layer = PBUF_TRANSPORT and n = ?n])
    case (fail h')
    then show thesis using pbuf_alloc_ram_succeeds [OF ok(3), of ?n PBUF_TRANSPORT] un n(2) by simp
  next
    case (ok h1 b bs off)
    have o1: "owns h1 b (b # bs)" using ok(3,4) by (simp add: owns_def)
    obtain h2 where h2: "pbuf_take (Some b) data ?n h1 = Some (ERR_OK, h2)" "packet h2 (Some b) (b # bs)"
        "pbytes h2 (b # bs) = data" "same_shape h1 h2" "same_on (- set (b # bs)) h1 h2"
      using pbuf_take_spec [OF ok(3), of ?n data] ok(5) un by (auto simp del: pbytes_simps)
    have o2: "owns h2 b (b # bs)" by (rule owns_shape [OF o1 h2(4,2)])
    have off: "54 \<le> off" "off \<le> 61" using ok(10,11) by (simp_all add: pbuf_layer_hlen_def)
    have p2: "pb_payload (the_pbuf h2 b) = Some (b, off)" "contiguous_data (the_pbuf h2 b)"
      using same_shape_the_pbuf [OF h2(4), of b] ok(9,12) by (simp_all add: good_head_def)
    obtain bl where bl: "hp_blocks h2 b = Some bl" "off + unat (pb_len (the_pbuf h2 b)) \<le> length bl"
      using owns_owned [OF o2] p2(1) by (auto simp: owned_def the_pbuf_def)
    have n12: "12 \<le> off" "12 + length (pbytes h2 (b # bs)) < 65536" using off h2(3) n(2) by (simp_all del: pbytes_simps)
    obtain h3 where h3: "pbuf_add_header (Some b) 12 h2 = Some (0, h3)" "owns h3 b (b # bs)" "pdata h3 b = seg (off - 12) 12 bl @ pdata h2 b"
        "pbytes h3 bs = pbytes h2 bs" "same_on (- {b}) h2 h3" "same_env h2 h3" "pb_payload (the_pbuf h3 b) = Some (b, off - 12)"
      by (rule add_header_pdata [OF o2 p2 n12 bl(1)])
    have l12: "length (seg (off - 12) 12 bl) = 12" using bl(2) off by (intro length_seg) simp
    have b3: "pbytes h3 (b # bs) = seg (off - 12) 12 bl @ data" using h3(3,4) h2(3) by simp
    have k3: "packet h3 (Some b) (b # bs)" using h3(2) by (simp add: owns_def)
    obtain h4 where h4: "pbuf_take (Some b) md 12 h3 = Some (ERR_OK, h4)" "packet h4 (Some b) (b # bs)"
        "pbytes h4 (b # bs) = md @ data" "same_shape h3 h4" "same_on (- set (b # bs)) h3 h4"
      using pbuf_take_spec [OF k3, of 12 md] b3 l12 n(1) by (auto simp del: pbytes_simps)
    have o4: "owns h4 b (b # bs)" by (rule owns_shape [OF h3(2) h4(4,2)])
    have s4: "same_on (- set (b # bs)) ?h h4"
      by (rule same_on_trans [OF ok(7)], rule same_on_trans [OF h2(5)], rule same_on_trans [OF same_on_subset [OF h3(5)] h4(5)]) auto
    have fr: "set (b # bs) \<inter> set (concat pss) = {}" using queue_owns_below [OF q assms(4)] ok(6) by (fastforce simp: subset_iff)
    have q4: "queue_owns h4 (uc_tx conn) pss"
      using q list_all2_owns_same [OF _ s4, of "queue_contents (uc_tx conn)" pss] fr by (auto simp: queue_owns_def)
    obtain tx where tx: "pbuf_queue_append (uc_tx conn) [Some b] h4 = Some (tx, without h4 (dropped pss))"
      "\<forall>h' as. same_on (set (concat (kept pss))) h4 h' \<longrightarrow> owns h' b as \<longrightarrow> set as \<inter> set (concat pss) = {} \<longrightarrow> queue_owns h' tx (kept pss @ [as])"
      using pbuf_queue_append_kept [OF q4, where a = b] by metis
    let ?h5 = "without h4 (dropped pss)"
    have sub: "set (b # bs) \<subseteq> - dropped pss" using fr kept_subset(2) [of pss] by auto
    have s5: "same_on (- dropped pss) h4 ?h5" by (simp add: same_on_def)
    have e: "heap_ok ?h5" "env_ok ?h5"
    proof -
      have "heap_ok h2" "hp_mbox h2 = hp_mbox ?h" using heap_ok_shape [OF ok(2) h2(4)] ok(8) h2(4) by (simp_all add: same_shape_def)
      moreover obtain pb where "hp_pbufs h2 b = Some pb" using owns_head [OF o2] by blast
      ultimately have "heap_ok h3" "hp_mbox h3 = hp_mbox ?h"
        using heap_ok_same_on [OF _ h3(5,6)] same_env_fields [OF h3(6)] h3(1) by auto
      then have "heap_ok h4" "hp_mbox h4 = hp_mbox ?h" using heap_ok_shape [OF _ h4(4)] h4(4) by (simp_all add: same_shape_def)
      then show "heap_ok ?h5" "env_ok ?h5" using assms(5) by (simp_all add: env_ok_def)
    qed
    obtain polling h6 where pol: "(if uc_tx_polling conn then Some (True, ?h5)
        else do { (e, h) \<leftarrow> tcpip_try_callback fn_udp_poll_tx (Some c) ?h5; Some (e = ERR_OK, h) }) = Some (polling, h6)"
      "hp_pbufs h6 = hp_pbufs ?h5" "hp_blocks h6 = hp_blocks ?h5"
    proof (cases "uc_tx_polling conn")
      case False
      then show thesis using tcpip_try_callback_spec [OF e(2,1), of fn_udp_poll_tx "Some c"] that by auto
    qed (use that in simp)
    have s6: "same_on UNIV ?h5 h6" using pol(2,3) by (simp add: same_on_def)
    have o6: "owns h6 b (b # bs)" using owns_same [OF owns_same [OF o4 s5 sub] s6] by simp
    have "same_on (set (concat (kept pss))) h4 h6"
      by (rule same_on_trans [OF same_on_subset [OF s5] same_on_subset [OF s6]]) (use kept_dropped q4 in \<open>auto simp: queue_owns_def\<close>)
    then have Q: "queue_owns h6 tx (kept pss @ [b # bs])" using tx(2) o6 fr by blast
    have t6: "the_pbuf h6 b = the_pbuf h3 b"
      using sub pol(2) same_shape_the_pbuf [OF h4(4), of b] by (simp add: the_pbuf_def)
    have B: "pbytes h6 (b # bs) = md @ data"
      using packet_same(2) [OF h4(2) s5 sub] packet_same(2) [OF _ s6, of "Some b" "b # bs"] owns_same [OF o4 s5 sub] h4(3)
      by (auto simp: owns_def simp del: pbytes_simps)
    have L: "12 \<le> unat (pb_len (the_pbuf h6 b))"
      using t6 length_pdata [OF owned_readable [OF owns_owned [OF h3(2)]]] h3(3) l12 by simp
    have C: "contiguous_data (the_pbuf h6 b)" using t6 pbuf_header_type(1) [OF h3(1)] p2(2) by (simp add: contiguous_data_def)
    have S: "same_on (- (set (b # bs) \<union> dropped pss)) ?h h6"
      by (rule same_on_trans [OF same_on_subset [OF s4] same_on_trans [OF same_on_subset [OF s5] same_on_subset [OF s6]]]) auto
    have run: "udp_conn_sendto c md data (int (length data)) s = Some (int (length data),
       s\<lparr>st_heap := h6, st_udp_conns := (st_udp_conns s)(c \<mapsto> conn\<lparr>uc_tx := tx, uc_tx_polling := polling\<rparr>)\<rparr>)"
      using c ok(1) h2(1) h3(1) h4(1) tx(1) pol(1)
      by (auto simp: udp_conn_sendto_def on_heap_def simp del: pbuf_queue_append.simps)
    show thesis
      by (rule that [OF run Q B _ _ C L _ S, of "off - 12"]) (use t6 h3(7) off ok(6) in auto)
  qed
qed

text \<open>C15: \<open>link_read\<close>: with an empty queue it waits, or returns -1 when the link is closed; otherwise it takes the
  oldest packet out of the queue, releases it, and returns its length and its bytes when they fit into the
  buffer, and 0 and nothing when they do not.\<close>

theorem link_read_oldest:
  assumes "st_links s c = Some lk" "queue_owns (st_heap s) (lk_rx lk) pss"
  shows "(pss = [] \<longrightarrow> link_read c sz s = Some (if lk_closed lk then Returned (- 1, []) else Blocked, s))
    \<and> (\<forall>ps pss'. pss = ps # pss' \<longrightarrow> (let bs = pbytes (st_heap s) ps; h = without (st_heap s) (set ps) in
        \<exists>rx. link_read c sz s = Some (Returned (if int (length bs) \<le> sz then (int (length bs), bs) else (0, [])),
            s\<lparr>st_links := (st_links s)(c \<mapsto> lk\<lparr>lk_rx := rx\<rparr>), st_heap := h\<rparr>) \<and> queue_owns h rx pss'))"
proof (intro conjI impI allI)
  assume "pss = []"
  then show "link_read c sz s = Some (if lk_closed lk then Returned (- 1, []) else Blocked, s)"
    using assms queue_owns_length [OF assms(2)] by (simp add: link_read_def)
next
  fix ps pss' assume p: "pss = ps # pss'"
  show "let bs = pbytes (st_heap s) ps; h = without (st_heap s) (set ps) in
      \<exists>rx. link_read c sz s = Some (Returned (if int (length bs) \<le> sz then (int (length bs), bs) else (0, [])),
          s\<lparr>st_links := (st_links s)(c \<mapsto> lk\<lparr>lk_rx := rx\<rparr>), st_heap := h\<rparr>) \<and> queue_owns h rx pss'"
    unfolding Let_def by (rule link_read_next [OF assms(1) assms(2) [unfolded p], of sz]) blast
qed

text \<open>C20: \<open>udp_conn_recv\<close>: with an empty queue it waits, or returns -1 when the connection is closed; otherwise it takes
  the oldest datagram out of the queue and releases it, and returns the length of the data, the metadata and the
  data when they fit into the buffer, and -1 when they do not.\<close>

theorem udp_conn_recv_oldest:
  assumes "st_udp_conns s c = Some conn" "queue_owns (st_heap s) (uc_rx conn) pss" "0 \<le> sz" "sz < 2 ^ 31"
  shows "(pss = [] \<longrightarrow> udp_conn_recv c sz s = Some (if uc_pcb conn = None then Returned (- 1, [], []) else Blocked, s))
    \<and> (\<forall>ps pss' md data. pss = ps # pss' \<and> pbytes (st_heap s) ps = md @ data \<and> length md = 12 \<longrightarrow>
        (\<exists>rx. udp_conn_recv c sz s = Some (Returned (if int (length data) \<le> sz then (int (length data), md, data) else (- 1, [], [])),
            s\<lparr>st_udp_conns := (st_udp_conns s)(c \<mapsto> conn\<lparr>uc_rx := rx\<rparr>), st_heap := without (st_heap s) (set ps)\<rparr>)
          \<and> queue_owns (without (st_heap s) (set ps)) rx pss'))"
proof (intro conjI impI allI)
  assume "pss = []"
  then show "udp_conn_recv c sz s = Some (if uc_pcb conn = None then Returned (- 1, [], []) else Blocked, s)"
    using assms queue_owns_length [OF assms(2)] by (simp add: udp_conn_recv_def)
next
  fix ps pss' md data assume p: "pss = ps # pss' \<and> pbytes (st_heap s) ps = md @ data \<and> length md = 12"
  then have q: "queue_owns (st_heap s) (uc_rx conn) (ps # pss')" "pbytes (st_heap s) ps = md @ data" "length md = 12"
    using assms(2) by simp_all
  show "\<exists>rx. udp_conn_recv c sz s = Some (Returned (if int (length data) \<le> sz then (int (length data), md, data) else (- 1, [], [])),
        s\<lparr>st_udp_conns := (st_udp_conns s)(c \<mapsto> conn\<lparr>uc_rx := rx\<rparr>), st_heap := without (st_heap s) (set ps)\<rparr>)
      \<and> queue_owns (without (st_heap s) (set ps)) rx pss'"
    by (rule udp_conn_recv_next [OF assms(1) q(1) assms(3,4) q(2,3)]) blast
qed

section \<open>From a connection to the link\<close>

lemma udp_poll_one_sends:
  assumes l: "link_ready s c lk pss" and o: "owns (st_heap s) b (b # bs)" and dj: "set (b # bs) \<inter> set (concat pss) = {}"
    and pl: "pb_payload (the_pbuf (st_heap s) b) = Some (b, off)" "contiguous_data (the_pbuf (st_heap s) b)" "16 \<le> off"
    and len: "12 \<le> unat (pb_len (the_pbuf (st_heap s) b))"
    and by1: "pbytes (st_heap s) (b # bs) = udp_metadata sa da sp dp @ data" and by2: "28 + length data < 65536"
    and u: "st_udp_pcb s u = Some ub" "up_flags ub AND UDP_FLAGS_UDPLITE = 0" "up_flags ub AND UDP_FLAGS_NOCHKSUM = 0" "sp \<noteq> 0"
  obtains h rx where "udp_poll_one (Some u) (Some b) s
      = Some (s\<lparr>st_heap := h, st_ip_id := st_ip_id s + 1, st_links := (st_links s)(c \<mapsto> lk\<lparr>lk_rx := rx\<rparr>)\<rparr>)"
    "queue_owns h rx (kept pss @ [b # bs])" "same_on (- ({b} \<union> dropped pss)) (st_heap s) h"
    "pbytes h (b # bs) = ip_header (8 + length data) (st_ip_id s) (up_tos ub) (up_ttl ub) IP_PROTO_UDP sa da
       @ udp_datagram sa da sp dp data"
proof -
  let ?h = "st_heap s" and ?md = "udp_metadata sa da sp dp"
  have pk: "packet ?h (Some b) (b # bs)" using o by (simp add: owns_def)
  obtain pb where pb: "hp_pbufs ?h b = Some pb" "pb_payload pb = Some (b, off)" using owns_head [OF o] pl(1) by force
  have rd: "mem_read ?h (Some (b, off)) k n = Some (seg k n ?md)" if "k + n \<le> 12" for k n
    using owns_read [OF o pl(1), of k n] that len by1 by (simp add: seg_prefix)
  have r: "read_u32 ?h (Some (b, off)) 0 = Some sa" "read_u32 ?h (Some (b, off)) 4 = Some da"
    "read_u16 ?h (Some (b, off)) 8 = Some sp" "read_u16 ?h (Some (b, off)) 10 = Some dp"
    using rd [of 0 4] rd [of 4 4] rd [of 8 2] rd [of 10 2] by (simp_all add: read_u32_def read_u16_def udp_metadata_segs)
  obtain h1 where h1: "pbuf_remove_header (Some b) 12 ?h = Some (0, h1)" "packet h1 (Some b) (b # bs)"
      "pbytes h1 (b # bs) = data" "same_on (- {b}) ?h h1" "list_all (sole h1) (b # bs)" "pb_payload (the_pbuf h1 b) = Some (b, off + 12)"
    using pbuf_remove_header_spec [OF pk len] o pl(1) by1 by (metis (no_types, lifting) append_eq_conv_conj length_udp_metadata owns_def)
  let ?s1 = "s\<lparr>st_heap := h1\<rparr>"
  have nb: "b \<notin> set (concat pss)" using dj by auto
  have pre: "owns (st_heap ?s1) b (b # bs)" "pb_payload (the_pbuf (st_heap ?s1) b) = Some (b, off + 12)"
    "contiguous_data (the_pbuf (st_heap ?s1) b)" "28 \<le> off + 12" "28 + length (pbytes (st_heap ?s1) (b # bs)) < 65536"
    "st_udp_pcb ?s1 u = Some ub" "sp = (if sp = 0 then up_local_port ub else sp)"
    using h1(2,3,5,6) pbuf_header_type(2) [OF h1(1)] pl(2,3) by2 u(1,4)
    by (simp_all add: owns_def contiguous_data_def del: pbytes_simps)
  obtain s' h rx where S: "udp_sendto_if_src_port (Some u) (Some b) (Some da) dp (Some global_if) (Some sa) sp ?s1 = Some (ERR_OK, s')"
    "st_pbuf_free (Some b) s' = Some (s\<lparr>st_heap := h, st_ip_id := st_ip_id s + 1, st_links := (st_links s)(c \<mapsto> lk\<lparr>lk_rx := rx\<rparr>)\<rparr>)"
    "queue_owns h rx (kept pss @ [b # bs])" "same_on (- ({b} \<union> dropped pss)) h1 h"
    "pbytes h (b # bs) = ip_header (8 + length data) (st_ip_id s) (up_tos ub) (up_ttl ub) IP_PROTO_UDP sa da @ udp_datagram sa da sp dp data"
  proof (rule udp_sendto_sends [OF link_ready_heap [OF l h1(4) nb] pre(1) dj pre(2-6) u(2,3) pre(7) u(4), of da dp sa])
    fix s' h rx
    assume "udp_sendto_if_src_port (Some u) (Some b) (Some da) dp (Some global_if) (Some sa) sp ?s1 = Some (ERR_OK, s')"
      "st_pbuf_free (Some b) s' = Some (?s1\<lparr>st_heap := h, st_ip_id := st_ip_id ?s1 + 1, st_links := (st_links ?s1)(c \<mapsto> lk\<lparr>lk_rx := rx\<rparr>)\<rparr>)"
      "queue_owns h rx (kept pss @ [b # bs])" "same_on (- ({b} \<union> dropped pss)) (st_heap ?s1) h"
      "pbytes h (b # bs) = ip_header (8 + length (pbytes (st_heap ?s1) (b # bs))) (st_ip_id ?s1) (up_tos ub) (up_ttl ub) IP_PROTO_UDP sa da
         @ udp_datagram sa da sp dp (pbytes (st_heap ?s1) (b # bs))"
    then show thesis using that [of s' rx h] h1(3) by (simp del: pbytes_simps)
  qed
  have "udp_poll_one (Some u) (Some b) s
      = Some (s\<lparr>st_heap := h, st_ip_id := st_ip_id s + 1, st_links := (st_links s)(c \<mapsto> lk\<lparr>lk_rx := rx\<rparr>)\<rparr>)"
    using pb r h1(1) S(1,2) by (simp add: udp_poll_one_def on_heap_def global_interface_get_def)
  moreover have "same_on (- ({b} \<union> dropped pss)) ?h h" by (rule same_on_trans [OF same_on_subset [OF h1(4)] S(4)]) auto
  ultimately show thesis using that S(3,5) by blast
qed

text \<open>C2: The whole way of a datagram from a connection to the TUN device: \<open>udp_conn_sendto\<close> accepts it, \<open>udp_poll_tx\<close>, which the tcpip
  thread runs, sends it, and the next \<open>link_read\<close> returns an IP packet with a correct header between the
  addresses of the metadata, and in it a UDP datagram with the ports of the metadata, the data, and a checksum that
  the receiver accepts.\<close>

theorem udp_conn_sendto_reaches_link:
  assumes "st_udp_conns s c = Some conn" "uc_pcb conn = Some u" "queue_owns (st_heap s) (uc_tx conn) []"
    and "st_udp_pcb s u = Some ub" "up_flags ub AND UDP_FLAGS_UDPLITE = 0" "up_flags ub AND UDP_FLAGS_NOCHKSUM = 0" "sp \<noteq> 0"
    and "link_ready s l lk []" "heap_ok (st_heap s)" "env_ok (st_heap s)" "\<not> hp_oom (st_heap s) (hp_brk (st_heap s))"
    and "length data \<le> 65000" "28 + int (length data) \<le> sz"
  shows "\<exists>s1 s2 s3 hdr dgram. udp_conn_sendto c (udp_metadata sa da sp dp) data (int (length data)) s = Some (int (length data), s1)
    \<and> udp_poll_tx (Some c) s1 = Some s2
    \<and> link_read l sz s2 = Some (Returned (28 + int (length data), hdr @ dgram), s3)
    \<and> length hdr = 20 \<and> hdr ! 9 = IP_PROTO_UDP \<and> seg 12 4 hdr = bytes_u32 sa \<and> seg 16 4 hdr = bytes_u32 da
    \<and> inet_chksum False hdr = 0 \<and> udp_datagram_ok sa da dgram
    \<and> udp_port_at 0 dgram = sp \<and> udp_port_at 2 dgram = dp \<and> drop 8 dgram = data"
proof -
  let ?md = "udp_metadata sa da sp dp" and ?hdr = "ip_header (8 + length data) (st_ip_id s) (up_tos ub) (up_ttl ub) IP_PROTO_UDP sa da"
  have pc: "uc_pcb conn \<noteq> None" using assms(2) by simp
  obtain h tx polling b bs off where S: "udp_conn_sendto c ?md data (int (length data)) s = Some (int (length data),
       s\<lparr>st_heap := h, st_udp_conns := (st_udp_conns s)(c \<mapsto> conn\<lparr>uc_tx := tx, uc_tx_polling := polling\<rparr>)\<rparr>)"
    "queue_owns h tx (kept [] @ [b # bs])" "pbytes h (b # bs) = ?md @ data" "pb_payload (the_pbuf h b) = Some (b, off)" "42 \<le> off"
    "contiguous_data (the_pbuf h b)" "12 \<le> unat (pb_len (the_pbuf h b))"
    by (rule udp_conn_sendto_queues [OF assms(1) pc assms(3,9,10,11) length_udp_metadata assms(12)])
  let ?s1 = "s\<lparr>st_heap := h, st_udp_conns := (st_udp_conns s)(c \<mapsto> conn\<lparr>uc_tx := tx, uc_tx_polling := polling\<rparr>)\<rparr>"
  have q1: "queue_owns h tx [b # bs]" using S(2) by (simp add: kept_def PBUF_QUEUE_LENGTH_def)
  have len1: "list_all2 (owns h) (queue_contents tx) [b # bs]" "queue_inv tx" using q1 by (simp_all add: queue_owns_def)
  obtain x where x: "queue_contents tx = [x]" "owns h x (b # bs)" using len1(1) by (auto simp: list_all2_Cons2)
  have xb: "x = b" using owns_head [OF x(2)] by auto
  obtain outs tx' where p: "pbuf_queue_pop tx 32 = (outs, tx')" by fastforce
  have outs: "outs = [Some b]" using queue_pop_rep [OF queue_inv_rep [OF len1(2)] p] x(1) xb by simp
  let ?s1' = "?s1\<lparr>st_udp_conns := (st_udp_conns ?s1)(c \<mapsto> conn\<lparr>uc_tx_polling := False, uc_tx := tx'\<rparr>)\<rparr>"
  have lr: "link_ready ?s1' l lk []" using assms(8) by (simp add: link_ready_def queue_owns_def)
  have pre: "owns (st_heap ?s1') b (b # bs)" "set (b # bs) \<inter> set (concat []) = {}" "pb_payload (the_pbuf (st_heap ?s1') b) = Some (b, off)"
    "contiguous_data (the_pbuf (st_heap ?s1') b)" "16 \<le> off" "12 \<le> unat (pb_len (the_pbuf (st_heap ?s1') b))"
    "pbytes (st_heap ?s1') (b # bs) = ?md @ data" "28 + length data < 65536" "st_udp_pcb ?s1' u = Some ub"
    using S(3-7) x(2) xb assms(4,12) by (simp_all del: pbytes_simps)
  obtain h2 rx where R: "udp_poll_one (Some u) (Some b) ?s1'
      = Some (?s1'\<lparr>st_heap := h2, st_ip_id := st_ip_id ?s1' + 1, st_links := (st_links ?s1')(l \<mapsto> lk\<lparr>lk_rx := rx\<rparr>)\<rparr>)" (is "_ = Some ?s2")
    "queue_owns h2 rx (kept [] @ [b # bs])" "pbytes h2 (b # bs) = ip_header (8 + length data) (st_ip_id ?s1') (up_tos ub) (up_ttl ub) IP_PROTO_UDP sa da
       @ udp_datagram sa da sp dp data"
    by (rule udp_poll_one_sends [OF lr pre assms(5,6,7)])
  have poll: "udp_poll_tx (Some c) ?s1 = Some ?s2" using p outs R(1) assms(2) by (simp add: udp_poll_tx_def)
  have B: "pbytes h2 (b # bs) = ?hdr @ udp_datagram sa da sp dp data" using R(3) by simp
  have l2: "st_links ?s2 l = Some (lk\<lparr>lk_rx := rx\<rparr>)" "queue_owns (st_heap ?s2) (lk_rx (lk\<lparr>lk_rx := rx\<rparr>)) [b # bs]"
    using R(2) by (simp_all add: kept_def PBUF_QUEUE_LENGTH_def)
  have fit: "int (length (pbytes (st_heap ?s2) (b # bs))) = 28 + int (length data)" using B by (simp del: pbytes_simps)
  obtain rx2 where L: "link_read l sz ?s2 = Some (Returned (28 + int (length data), ?hdr @ udp_datagram sa da sp dp data),
      ?s2\<lparr>st_links := (st_links ?s2)(l \<mapsto> (lk\<lparr>lk_rx := rx\<rparr>)\<lparr>lk_rx := rx2\<rparr>), st_heap := without (st_heap ?s2) (set (b # bs))\<rparr>)"
    by (rule link_read_next [OF l2, of sz]) (use fit B assms(13) in \<open>simp del: pbytes_simps\<close>)
  show ?thesis
    by (rule exI [of _ ?s1], rule exI [of _ ?s2], rule exI, rule exI [of _ ?hdr], rule exI [of _ "udp_datagram sa da sp dp data"],
        intro conjI, rule S(1), rule poll, rule L)
      (simp_all add: ip_header_fields udp_datagram_fields udp_datagram_verifies)
qed

section \<open>One run of the callbacks\<close>

text \<open>C21: One run of \<open>poll_tx\<close> takes the oldest 32 packets out of the queue (all of them when there are fewer) and gives them to the
  interface in their order.  The flag that a callback is pending is cleared although the rest of the packets stays in the
  queue: they wait for the next \<open>link_write\<close>.\<close>

theorem poll_tx_takes_32:
  assumes "st_links s c = Some lk" "queue_rep (lk_tx lk) xs"
  shows "\<exists>tx. queue_rep tx (drop 32 xs)
    \<and> poll_tx tcp_input (Some c) s = inject_all tcp_input (map Some (take 32 xs))
        (s\<lparr>st_links := (st_links s)(c \<mapsto> lk\<lparr>lk_tx_polling := False, lk_tx := tx\<rparr>)\<rparr>)"
proof -
  obtain outs tx where p: "pbuf_queue_pop (lk_tx lk) 32 = (outs, tx)" by fastforce
  then show ?thesis using queue_pop_rep [OF assms(2) p] assms(1) by (auto simp: poll_tx_def)
qed

section \<open>From the link to a connection\<close>

lemma link_write_queues:
  assumes l: "st_links s l = Some lk" "\<not> lk_closed lk" and q: "queue_owns (st_heap s) (lk_tx lk) pss"
    and ok: "heap_ok (st_heap s)" "env_ok (st_heap s)" "\<forall>a. \<not> hp_oom (st_heap s) a" and n: "length data < 65536"
  obtains h tx polling b bs off where
    "link_write l data (int (length data)) s = Some (int (length data),
       s\<lparr>st_heap := h, st_links := (st_links s)(l \<mapsto> lk\<lparr>lk_tx := tx, lk_tx_polling := polling\<rparr>)\<rparr>)"
    "queue_owns h tx (kept pss @ [b # bs])" "pbytes h (b # bs) = data" "pb_payload (the_pbuf h b) = Some (b, off)" "34 \<le> off" "off \<le> 41"
    "contiguous_data (the_pbuf h b)" "min (length data) (1024 - off) \<le> unat (pb_len (the_pbuf h b))"
    "set (b # bs) \<subseteq> {hp_brk (st_heap s)..}" "same_on (- (set (b # bs) \<union> dropped pss)) (st_heap s) h"
    "heap_ok h" "mbox_inv (hp_mbox h)" "mb_first (hp_mbox h) = mb_first (hp_mbox (st_heap s))" "hp_oom h = hp_oom (st_heap s)"
proof -
  let ?h = "st_heap s" and ?n = "of_nat (length data) :: u16"
  have un: "unat ?n = length data" using n by (rule unat_of_nat_u16)
  have pool: "PBUF_POOL = PBUF_RAM \<or> PBUF_POOL = PBUF_POOL" by simp
  from ok(1,2) pool show thesis
  proof (cases rule: pbuf_alloc_cases [where layer = PBUF_IP and n = ?n])
    case (fail h')
    then show thesis using pbuf_alloc_pool_type_succeeds [OF ok, of PBUF_IP ?n] by simp
  next
    case (ok h1 b bs off)
    have o1: "owns h1 b (b # bs)" using ok(3,4) by (simp add: owns_def)
    obtain h2 where h2: "pbuf_take (Some b) data ?n h1 = Some (ERR_OK, h2)" "packet h2 (Some b) (b # bs)"
        "pbytes h2 (b # bs) = data" "same_shape h1 h2" "same_on (- set (b # bs)) h1 h2"
      using pbuf_take_spec [OF ok(3), of ?n data] ok(5) un by (auto simp del: pbytes_simps)
    have o2: "owns h2 b (b # bs)" by (rule owns_shape [OF o1 h2(4,2)])
    have off: "34 \<le> off" "off \<le> 41" using ok(10,11) by (simp_all add: pbuf_layer_hlen_def)
    have s2: "same_on (- set (b # bs)) ?h h2" by (rule same_on_trans [OF ok(7) h2(5)])
    have fr: "set (b # bs) \<inter> set (concat pss) = {}" using queue_owns_below [OF q assms(4)] ok(6) by (fastforce simp: subset_iff)
    have q2: "queue_owns h2 (lk_tx lk) pss"
      using q list_all2_owns_same [OF _ s2, of "queue_contents (lk_tx lk)" pss] fr by (auto simp: queue_owns_def)
    obtain tx where tx: "pbuf_queue_append (lk_tx lk) [Some b] h2 = Some (tx, without h2 (dropped pss))"
      "\<forall>h' as. same_on (set (concat (kept pss))) h2 h' \<longrightarrow> owns h' b as \<longrightarrow> set as \<inter> set (concat pss) = {} \<longrightarrow> queue_owns h' tx (kept pss @ [as])"
      using pbuf_queue_append_kept [OF q2, where a = b] by metis
    let ?h3 = "without h2 (dropped pss)"
    have sub: "set (b # bs) \<subseteq> - dropped pss" using fr kept_subset(2) [of pss] by auto
    have s3: "same_on (- dropped pss) h2 ?h3" by (simp add: same_on_def)
    have m2: "hp_mbox h2 = hp_mbox ?h" "hp_oom h2 = hp_oom ?h" using ok(8,13) h2(4) by (simp_all add: same_shape_def)
    have e: "heap_ok ?h3" "env_ok ?h3" "hp_mbox ?h3 = hp_mbox ?h" "hp_oom ?h3 = hp_oom ?h"
      using heap_ok_shape [OF ok(2) h2(4)] m2 assms(5) by (simp_all add: env_ok_def)
    obtain polling h4 where pol: "(if lk_tx_polling lk then Some (True, ?h3)
        else do { (e, h) \<leftarrow> tcpip_try_callback fn_poll_tx (Some l) ?h3; Some (e = ERR_OK, h) }) = Some (polling, h4)"
      "hp_pbufs h4 = hp_pbufs ?h3" "hp_blocks h4 = hp_blocks ?h3" "heap_ok h4" "mbox_inv (hp_mbox h4)"
      "mb_first (hp_mbox h4) = mb_first (hp_mbox ?h)" "hp_oom h4 = hp_oom ?h"
    proof (cases "lk_tx_polling lk")
      case True
      then show thesis using that e by (simp add: env_ok_def)
    next
      case False
      then show thesis using tcpip_try_callback_spec [OF e(2,1), of fn_poll_tx "Some l"] that e(3,4) by auto
    qed
    have s4: "same_on UNIV ?h3 h4" using pol(2,3) by (simp add: same_on_def)
    have o3: "owns ?h3 b (b # bs)" by (rule owns_same [OF o2 s3 sub])
    have o4: "owns h4 b (b # bs)" using owns_same [OF o3 s4] by simp
    have "same_on (set (concat (kept pss))) h2 h4"
      by (rule same_on_trans [OF same_on_subset [OF s3] same_on_subset [OF s4]]) (use kept_dropped q2 in \<open>auto simp: queue_owns_def\<close>)
    then have Q: "queue_owns h4 tx (kept pss @ [b # bs])" using tx(2) o4 fr by blast
    have t4: "the_pbuf h4 b = the_pbuf h1 b"
      using sub pol(2) same_shape_the_pbuf [OF h2(4), of b] by (simp add: the_pbuf_def)
    have B: "pbytes h4 (b # bs) = data"
      using packet_same(2) [OF h2(2) s3 sub] packet_same(2) [OF _ s4, of "Some b" "b # bs"] o3 h2(3)
      by (auto simp: owns_def simp del: pbytes_simps)
    have S: "same_on (- (set (b # bs) \<union> dropped pss)) ?h h4"
      by (rule same_on_trans [OF same_on_subset [OF s2] same_on_trans [OF same_on_subset [OF s3] same_on_subset [OF s4]]]) auto
    have run: "link_write l data (int (length data)) s = Some (int (length data),
       s\<lparr>st_heap := h4, st_links := (st_links s)(l \<mapsto> lk\<lparr>lk_tx := tx, lk_tx_polling := polling\<rparr>)\<rparr>)"
      using l ok(1) h2(1) tx(1) pol(1)
      by (auto simp: link_write_def on_heap_def simp del: pbuf_queue_append.simps)
    show thesis
      by (rule that [OF run Q B _ off _ _ _ S pol(4,5,6,7)]) (use t4 ok(6,9,12) un in \<open>auto simp: good_head_def\<close>)
  qed
qed

text \<open>The choice of the control block depends on the addresses only.\<close>

lemma udp_chosen_received: "udp_chosen (s\<lparr>st_ip_data := ip_received a off hdr\<rparr>) sp dp = udp_chosen (s\<lparr>st_ip_data := ip_received b k hdr\<rparr>) sp dp"
  by (simp add: udp_chosen_def udp_full_ok_def [abs_def] udp_local_ok_def [abs_def] udp_unconnected_def [abs_def]
      udp_input_local_match_def ip_received_def Let_def)

lemma ip_hl_le: "unat (IPH_HL_BYTES v) \<le> 60"
proof -
  have "v AND 0x0F = take_bit 4 v" by (simp add: take_bit_eq_mask mask_eq_exp_minus_1)
  then have "unat (v AND 0x0F) = unat (take_bit 4 v)" by (simp only:)
  also have "\<dots> = take_bit 4 (unat v)" by (rule unsigned_take_bit_eq)
  also have "\<dots> = unat v mod 16" by (simp add: take_bit_eq_mod)
  finally have "unat (v AND 0x0F) = unat v mod 16" .
  then have "unat ((v AND 0x0F) * 4) \<le> 60" by (simp add: unat_word_ariths)
  moreover have "unat (IPH_HL_BYTES v) \<le> unat ((v AND 0x0F) * 4)" by (simp add: IPH_HL_BYTES_def unsigned_ucast_eq)
  ultimately show ?thesis by linarith
qed

lemma link_update_fields:
  "ip4_addr_isbroadcast a n (s\<lparr>st_heap := h, st_links := l\<rparr>) = ip4_addr_isbroadcast a n s"
  "ip_addrs_ok (s\<lparr>st_heap := h, st_links := l\<rparr>) hdr = ip_addrs_ok s hdr"
  "pcbs_live (s\<lparr>st_heap := h, st_links := l\<rparr>) = pcbs_live s"
proof -
  show b: "ip4_addr_isbroadcast a n (s\<lparr>st_heap := h, st_links := l\<rparr>) = ip4_addr_isbroadcast a n s" for a n
    by (cases n) (simp_all add: ip4_addr_isbroadcast_def netif_at_def split: netif_ptr.split)
  show "ip_addrs_ok (s\<lparr>st_heap := h, st_links := l\<rparr>) hdr = ip_addrs_ok s hdr" unfolding ip_addrs_ok_def b by simp
  show "pcbs_live (s\<lparr>st_heap := h, st_links := l\<rparr>) = pcbs_live s" by (simp add: pcbs_live_def)
qed

lemma unicast_links: "unicast (s\<lparr>st_heap := h, st_links := l\<rparr>) d = unicast s d"
  unfolding unicast_def link_update_fields by simp

text \<open>C1: The whole way of a datagram from the TUN device to a connection: \<open>link_write\<close> accepts the IP packet, \<open>poll_tx\<close>, which the
  tcpip thread runs, hands it to the stack, and the next \<open>udp_conn_recv\<close> returns the data of the datagram, with the
  addresses of the IP header and the ports of the UDP header as metadata.  The headers must be well formed,
  the UDP checksum correct or absent.\<close>

theorem link_write_reaches_connection:
  assumes "st_links s l = Some lk" "\<not> lk_closed lk" "queue_owns (st_heap s) (lk_tx lk) []" "nif_input (st_global_if s) = Some fn_ip_input"
    and "heap_ok (st_heap s)" "mbox_inv (hp_mbox (st_heap s))" "mbox_ready (hp_mbox (st_heap s))" "\<forall>a. \<not> hp_oom (st_heap s) a"
    and "ip_header_ok hdr (length xs)" "hdr ! 9 = IP_PROTO_UDP" "8 \<le> length xs" "14 + length (hdr @ xs) < 65536"
    and "ip_addrs_ok s hdr" "unicast s (hdr_dest hdr)" "udp_datagram_ok (hdr_src hdr) (hdr_dest hdr) xs"
    and "pcbs_live s" "udp_chosen (s\<lparr>st_ip_data := ip_received 0 0 hdr\<rparr>) (udp_port_at 0 xs) (udp_port_at 2 xs) = Some v"
    and "st_udp_pcb s v = Some ub" "up_recv ub = Some fn_udp_on_received" "up_recv_arg ub = Some c" "st_udp_conns s c = Some conn"
    and "queue_owns (st_heap s) (uc_rx conn) []" "int (length xs) - 8 \<le> sz" "sz < 2 ^ 31"
  shows "\<exists>s1 s2 s3. link_write l (hdr @ xs) (int (length (hdr @ xs))) s = Some (int (length (hdr @ xs)), s1)
    \<and> poll_tx tcp_input (Some l) s1 = Some s2
    \<and> udp_conn_recv c sz s2 = Some (Returned (int (length xs) - 8,
        udp_metadata (hdr_src hdr) (hdr_dest hdr) (udp_port_at 0 xs) (udp_port_at 2 xs), drop 8 xs), s3)"
proof -
  let ?md = "udp_metadata (hdr_src hdr) (hdr_dest hdr) (udp_port_at 0 xs) (udp_port_at 2 xs)"
  have env: "env_ok (st_heap s)" using assms(6,7) by (simp add: env_ok_def)
  have n: "length (hdr @ xs) < 65536" using assms(12) by simp
  obtain h tx polling b bs off where W: "link_write l (hdr @ xs) (int (length (hdr @ xs))) s = Some (int (length (hdr @ xs)),
       s\<lparr>st_heap := h, st_links := (st_links s)(l \<mapsto> lk\<lparr>lk_tx := tx, lk_tx_polling := polling\<rparr>)\<rparr>)"
    "queue_owns h tx (kept [] @ [b # bs])" "pbytes h (b # bs) = hdr @ xs" "pb_payload (the_pbuf h b) = Some (b, off)" "34 \<le> off" "off \<le> 41"
    "contiguous_data (the_pbuf h b)" "min (length (hdr @ xs)) (1024 - off) \<le> unat (pb_len (the_pbuf h b))"
    "set (b # bs) \<subseteq> {hp_brk (st_heap s)..}" "same_on (- (set (b # bs) \<union> dropped [])) (st_heap s) h"
    "heap_ok h" "mbox_inv (hp_mbox h)" "mb_first (hp_mbox h) = mb_first (hp_mbox (st_heap s))" "hp_oom h = hp_oom (st_heap s)"
    by (rule link_write_queues [OF assms(1-3,5) env assms(8) n])
  let ?s1 = "s\<lparr>st_heap := h, st_links := (st_links s)(l \<mapsto> lk\<lparr>lk_tx := tx, lk_tx_polling := polling\<rparr>)\<rparr>"
  have q1: "list_all2 (owns h) (queue_contents tx) [b # bs]" "queue_inv tx"
    using W(2) by (simp_all add: kept_def PBUF_QUEUE_LENGTH_def queue_owns_def)
  obtain x where x: "queue_contents tx = [x]" "owns h x (b # bs)" using q1(1) by (auto simp: list_all2_Cons2)
  have o: "owns h b (b # bs)" using x(2) owns_head [OF x(2)] by auto
  obtain outs tx' where p: "pbuf_queue_pop tx 32 = (outs, tx')" by fastforce
  have outs: "outs = [Some b]" using queue_pop_rep [OF queue_inv_rep [OF q1(2)] p] x owns_head [OF x(2)] by auto
  let ?s2 = "?s1\<lparr>st_links := (st_links ?s1)(l \<mapsto> lk\<lparr>lk_tx_polling := False, lk_tx := tx'\<rparr>)\<rparr>"
  have qc: "queue_owns h (uc_rx conn) []" using assms(22) by (simp add: queue_owns_def)
  have "length hdr \<le> 60" using assms(9) ip_hl_le [of "hdr ! 0"] by (simp add: ip_header_ok_def)
  then have l8: "length hdr + 8 \<le> unat (pb_len (the_pbuf h b))" using W(6,8) assms(11) by simp
  have order: "?s2\<lparr>st_ip_data := ip_received b off hdr\<rparr> = (s\<lparr>st_ip_data := ip_received b off hdr\<rparr>)
      \<lparr>st_heap := h, st_links := (st_links s)(l \<mapsto> lk\<lparr>lk_tx_polling := False, lk_tx := tx'\<rparr>)\<rparr>"
    by simp
  have ch: "udp_chosen (?s2\<lparr>st_ip_data := ip_received b off hdr\<rparr>) (udp_port_at 0 xs) (udp_port_at 2 xs) = Some v"
    unfolding order using assms(17) udp_chosen_received [where s = s and a = b and off = off and hdr = hdr and b = 0 and k = 0] by simp
  have s2: "?s2 = s\<lparr>st_heap := h, st_links := (st_links s)(l \<mapsto> lk\<lparr>lk_tx_polling := False, lk_tx := tx'\<rparr>)\<rparr>" by simp
  have g1: "owns (st_heap ?s2) b (b # bs)" "pb_payload (the_pbuf (st_heap ?s2) b) = Some (b, off)" "contiguous_data (the_pbuf (st_heap ?s2) b)"
    "pbytes (st_heap ?s2) (b # bs) = hdr @ xs"
    using o W(3,4,7) by (simp_all del: pbytes_simps)
  have g2: "length hdr + 8 \<le> unat (pb_len (the_pbuf (st_heap ?s2) b))" "14 \<le> off" using l8 W(5) by simp_all
  have g3: "ip_addrs_ok ?s2 hdr" "unicast ?s2 (hdr_dest hdr)" "pcbs_live ?s2"
    unfolding s2 link_update_fields unicast_links by (rule assms(13), rule assms(14), rule assms(16))
  have g4: "st_udp_pcb ?s2 v = Some ub" "st_udp_conns ?s2 c = Some conn" "queue_owns (st_heap ?s2) (uc_rx conn) []"
    "set (b # bs) \<inter> set (concat []) = {}"
    using assms(18,21) qc by simp_all
  have g5: "heap_ok (st_heap ?s2)" "env_ok (st_heap ?s2)" "\<not> hp_oom (st_heap ?s2) (hp_brk (st_heap ?s2))"
    using W(11-14) assms(7,8) by (simp_all add: env_ok_def mbox_ready_def)
  obtain s' rx b' bs' where D: "ip4_input tcp_input b global_if ?s2 = Some (ERR_OK, s')" "st_udp_conns s' c = Some (conn\<lparr>uc_rx := rx\<rparr>)"
    "queue_owns (st_heap s') rx (kept [] @ [b' # bs' @ b # bs])" "pbytes (st_heap s') (b' # bs' @ b # bs) = ?md @ drop 8 xs"
    using ip4_input_udp_queues [OF g1 assms(9,10) g2 assms(12) g3(1,2) assms(15) g3(3) ch g4(1) assms(19,20) g4(2-4) g5, of tcp_input]
    by blast
  have poll: "poll_tx tcp_input (Some l) ?s1 = Some s'"
    using p outs D(1) assms(4) by (simp add: poll_tx_def global_interface_inject_packet_def)
  have q: "queue_owns (st_heap s') (uc_rx (conn\<lparr>uc_rx := rx\<rparr>)) [b' # bs' @ b # bs]"
    using D(3) by (simp add: kept_def PBUF_QUEUE_LENGTH_def)
  have sz: "0 \<le> sz" "int (length (drop 8 xs)) \<le> sz" "int (length (drop 8 xs)) = int (length xs) - 8" using assms(11,23) by simp_all
  have fits: "(if int (length (drop 8 xs)) \<le> sz then (int (length (drop 8 xs)), ?md, drop 8 xs) else (- 1, [], [])) = (int (length xs) - 8, ?md, drop 8 xs)"
    using sz(2,3) by (simp only: if_True)
  obtain rx2 where R: "udp_conn_recv c sz s' = Some (Returned (int (length xs) - 8, ?md, drop 8 xs),
      s'\<lparr>st_udp_conns := (st_udp_conns s')(c \<mapsto> (conn\<lparr>uc_rx := rx\<rparr>)\<lparr>uc_rx := rx2\<rparr>), st_heap := without (st_heap s') (set (b' # bs' @ b # bs))\<rparr>)"
    by (rule udp_conn_recv_next [OF D(2) q sz(1) assms(24) D(4) length_udp_metadata]) (unfold fits, rule that)
  show ?thesis by (rule exI [of _ ?s1], rule exI [of _ s'], rule exI, intro conjI, rule W(1), rule poll, rule R)
qed

section \<open>A state for the examples\<close>

definition ex_native :: stack where
  "ex_native = (ex_raw ex_raw_bytes)\<lparr>st_global_if := (st_global_if (ex_raw ex_raw_bytes))\<lparr>nif_input := Some fn_ip_input\<rparr>\<rparr>"

lemma ex_native_facts:
  "st_links ex_native 7 = Some \<lparr>lk_rx = pbuf_queue_zero, lk_tx = pbuf_queue_zero, lk_tx_polling = False, lk_closed = False, lk_mtu = 1500\<rparr>"
  "st_udp_conns ex_native 5 = Some \<lparr>uc_pcb = Some 3, uc_rx = pbuf_queue_zero, uc_tx = pbuf_queue_zero, uc_tx_polling = False\<rparr>"
  "queue_owns (st_heap ex_native) pbuf_queue_zero []" "heap_ok (st_heap ex_native)" "\<forall>a. \<not> hp_oom (st_heap ex_native) a"
  "mbox_inv (hp_mbox (st_heap ex_native))" "mbox_ready (hp_mbox (st_heap ex_native))" "env_ok (st_heap ex_native)"
  "nif_input (st_global_if ex_native) = Some fn_ip_input" "pcbs_live ex_native" "link_ready ex_native 7 (the (st_links ex_native 7)) []"
proof -
  note d = ex_native_def ex_raw_def ex_dgram_def ex_ping_def ex_out_def stack_zero_def
  show "st_links ex_native 7 = Some \<lparr>lk_rx = pbuf_queue_zero, lk_tx = pbuf_queue_zero, lk_tx_polling = False, lk_closed = False, lk_mtu = 1500\<rparr>"
    "st_udp_conns ex_native 5 = Some \<lparr>uc_pcb = Some 3, uc_rx = pbuf_queue_zero, uc_tx = pbuf_queue_zero, uc_tx_polling = False\<rparr>"
    "heap_ok (st_heap ex_native)" "\<forall>a. \<not> hp_oom (st_heap ex_native) a" "nif_input (st_global_if ex_native) = Some fn_ip_input"
    "pcbs_live ex_native"
    by (simp_all add: d heap_ok_def pcbs_live_def)
  show q: "queue_owns (st_heap ex_native) pbuf_queue_zero []" using queue_rep_contents [OF queue_zero] by (simp add: queue_owns_def)
  have "hp_mbox (st_heap ex_native) = sys_mbox_new (replicate 128 0)" by (simp add: d)
  with mbox_new_inv [of "replicate 128 (0 :: nat)"]
  show m: "mbox_inv (hp_mbox (st_heap ex_native))" "mbox_ready (hp_mbox (st_heap ex_native))"
    by (simp_all add: SYS_MBOX_SIZE_def) (simp add: sys_mbox_new_def mbox_ready_def SYS_MBOX_SIZE_def INT_MAX_def)
  show "env_ok (st_heap ex_native)" using m by (simp add: env_ok_def)
  show "link_ready ex_native 7 (the (st_links ex_native 7)) []" using q by (simp add: link_ready_def d)
qed

theorem link_read_oldest_witness:
  "\<exists>rx rx'. link_read 7 2000 (ex_native\<lparr>st_links := [7 \<mapsto> \<lparr>lk_rx = rx, lk_tx = pbuf_queue_zero, lk_tx_polling = False, lk_closed = False, lk_mtu = 1500\<rparr>]\<rparr>)
    = Some (Returned (30, ex_raw_bytes), ex_native\<lparr>st_links := [7 \<mapsto> \<lparr>lk_rx = rx', lk_tx = pbuf_queue_zero, lk_tx_polling = False, lk_closed = False, lk_mtu = 1500\<rparr>],
        st_heap := without (st_heap ex_native) {1}\<rparr>)"
proof -
  have n: "length ex_raw_bytes = 30" by (simp add: ex_raw_bytes_def ex_dgram_hdr_def)
  have h: "st_heap ex_native = st_heap (ex_raw ex_raw_bytes)" by (simp add: ex_native_def)
  have o: "owns (st_heap ex_native) 1 [1]" "pbytes (st_heap ex_native) [1] = ex_raw_bytes" unfolding h by (rule ex_raw_owns [OF n])+
  obtain rx where rx: "\<forall>h' as. same_on (set (concat (kept []))) (st_heap ex_native) h' \<longrightarrow> owns h' 1 as \<longrightarrow> set as \<inter> set (concat []) = {} \<longrightarrow> queue_owns h' rx (kept [] @ [as])"
    using pbuf_queue_append_kept [OF ex_native_facts(3), where a = 1] by metis
  let ?lk = "\<lparr>lk_rx = rx, lk_tx = pbuf_queue_zero, lk_tx_polling = False, lk_closed = False, lk_mtu = 1500\<rparr>"
  let ?s = "ex_native\<lparr>st_links := [7 \<mapsto> ?lk]\<rparr>"
  have q: "queue_owns (st_heap ?s) (lk_rx ?lk) [[1]]" using rx o(1) by (simp add: kept_def PBUF_QUEUE_LENGTH_def same_on_def)
  have l: "st_links ?s 7 = Some ?lk" by simp
  have fit: "int (length (pbytes (st_heap ?s) [1])) = 30" using n o(2) by simp
  have "\<forall>ps pss'. [[1 :: addr]] = ps # pss' \<longrightarrow> (let bs = pbytes (st_heap ?s) ps; h = without (st_heap ?s) (set ps) in
        \<exists>rx'. link_read 7 2000 ?s = Some (Returned (if int (length bs) \<le> 2000 then (int (length bs), bs) else (0, [])),
            ?s\<lparr>st_links := (st_links ?s)(7 \<mapsto> ?lk\<lparr>lk_rx := rx'\<rparr>), st_heap := h\<rparr>) \<and> queue_owns h rx' pss')"
    using link_read_oldest [OF l q, of 2000] by blast
  then have "\<exists>rx'. link_read 7 2000 ?s = Some (Returned (30, ex_raw_bytes), ?s\<lparr>st_links := (st_links ?s)(7 \<mapsto> ?lk\<lparr>lk_rx := rx'\<rparr>), st_heap := without (st_heap ?s) {1}\<rparr>)"
    using fit o(2) by (auto simp: Let_def simp del: pbytes_simps)
  then show ?thesis by auto
qed

theorem udp_conn_recv_oldest_witness: "udp_conn_recv 5 100 ex_native = Some (Blocked, ex_native)"
  using udp_conn_recv_oldest [OF ex_native_facts(2), of "[]" 100] ex_native_facts(3) by simp

theorem udp_conn_sendto_reaches_link_witness:
  "\<exists>s1 s2 s3 hdr dgram. udp_conn_sendto 5 (udp_metadata 6 7 53 4242) [1, 2, 3] 3 ex_native = Some (3, s1) \<and> udp_poll_tx (Some 5) s1 = Some s2
    \<and> link_read 7 1500 s2 = Some (Returned (31, hdr @ dgram), s3) \<and> length hdr = 20 \<and> seg 16 4 hdr = bytes_u32 7
    \<and> inet_chksum False hdr = 0 \<and> udp_datagram_ok 6 7 dgram \<and> drop 8 dgram = [1, 2, 3]"
proof -
  obtain ub where ub: "st_udp_pcb ex_native 3 = Some ub" "up_flags ub AND UDP_FLAGS_UDPLITE = 0" "up_flags ub AND UDP_FLAGS_NOCHKSUM = 0"
    by (simp add: ex_native_def ex_raw_def ex_dgram_def)
  let ?conn = "\<lparr>uc_pcb = Some 3, uc_rx = pbuf_queue_zero, uc_tx = pbuf_queue_zero, uc_tx_polling = False\<rparr>"
  have c: "uc_pcb ?conn = Some 3" "queue_owns (st_heap ex_native) (uc_tx ?conn) []" "(53 :: u16) \<noteq> 0"
    "\<not> hp_oom (st_heap ex_native) (hp_brk (st_heap ex_native))" "length [1, 2, 3 :: byte] \<le> 65000" "28 + int (length [1, 2, 3 :: byte]) \<le> 1500"
    using ex_native_facts(3,5) by simp_all
  have n: "int (length [1, 2, 3 :: byte]) = 3" "28 + (3 :: int) = 31" by simp_all
  note udp_conn_sendto_reaches_link [OF ex_native_facts(2) c(1,2) ub c(3) ex_native_facts(11,4,8) c(4-6), of 6 7 4242]
  then show ?thesis unfolding n by blast
qed

theorem link_write_reaches_connection_witness:
  "\<exists>s1 s2 s3. link_write 7 ex_raw_bytes 30 ex_native = Some (30, s1) \<and> poll_tx (\<lambda>_ _ _. None) (Some 7) s1 = Some s2
    \<and> udp_conn_recv 5 100 s2 = Some (Returned (2, udp_metadata 0x0200000A 0x0100000A 0x3039 53, [7, 9]), s3)"
proof -
  let ?s = "ex_native" and ?xs = "[0x30, 0x39, 0, 53, 0, 10, 0, 0, 7, 9] :: byte list"
  note d = ex_native_def ex_raw_def ex_dgram_def ex_ping_def ex_out_def stack_zero_def
  have sg: "seg 12 4 ex_dgram_hdr = [10, 0, 0, 2]" "seg 16 4 ex_dgram_hdr = [10, 0, 0, 1]" "seg 2 2 ex_dgram_hdr = [0, 30]" "seg 6 2 ex_dgram_hdr = [0, 0]"
    by (simp_all add: seg_def ex_dgram_hdr_def)
  have x: "ex_dgram_hdr ! 9 = IP_PROTO_UDP" "hdr_src ex_dgram_hdr = 0x0200000A" "hdr_dest ex_dgram_hdr = 0x0100000A"
    "udp_port_at 0 ?xs = 0x3039" "udp_port_at 2 ?xs = 53" "udp_datagram_ok (hdr_src ex_dgram_hdr) (hdr_dest ex_dgram_hdr) ?xs" "drop 8 ?xs = [7, 9]"
    unfolding sg by (simp_all add: ex_dgram_hdr_def IP_PROTO_UDP_def udp_port_at_def lwip_htons_def udp_datagram_ok_def seg_def)
  have v: "inet_chksum False ex_dgram_hdr = 0"
    by (subst inet_chksum_0) (simp_all add: ex_dgram_hdr_def ones_def)
  have h: "ip_header_ok ex_dgram_hdr (length ?xs)"
    unfolding ip_header_ok_def sg using v by (simp add: ex_dgram_hdr_def IPH_V_def IPH_HL_BYTES_def lwip_htons_def)
  have n: "8 \<le> length ?xs" "14 + length (ex_dgram_hdr @ ?xs) < 65536" "int (length ?xs) - 8 \<le> 100" "(100 :: int) < 2 ^ 31"
    by (simp_all add: ex_dgram_hdr_def)
  have u: "ip_addrs_ok ?s ex_dgram_hdr" "unicast ?s (hdr_dest ex_dgram_hdr)"
    unfolding ip_addrs_ok_def x(2,3)
    by (simp_all add: unicast_def d ip4_addr_isbroadcast_def netif_at_def netif_is_up_def NETIF_FLAG_UP_def ip4_addr_isany_val_def IPADDR_ANY_def
        ip4_addr_ismulticast_def ip4_addr_isbroadcast_u32_def netif_zero_def lwip_htonl_def IPADDR_BROADCAST_def)
  have ch: "udp_chosen (?s\<lparr>st_ip_data := ip_received 0 0 ex_dgram_hdr\<rparr>) (udp_port_at 0 ?xs) (udp_port_at 2 ?xs) = Some 3"
    unfolding x by (simp add: udp_chosen_def or_else_def udp_full_ok_def udp_local_ok_def udp_unconnected_def udp_input_local_match_def
        d ip4_addr_isany_val_def IPADDR_ANY_def NETIF_NO_INDEX_def ip_received_def)
  obtain ub where ub: "st_udp_pcb ?s 3 = Some ub" "up_recv ub = Some fn_udp_on_received" "up_recv_arg ub = Some 5"
    by (simp add: d)
  let ?lk = "\<lparr>lk_rx = pbuf_queue_zero, lk_tx = pbuf_queue_zero, lk_tx_polling = False, lk_closed = False, lk_mtu = 1500\<rparr>"
  let ?conn = "\<lparr>uc_pcb = Some 3, uc_rx = pbuf_queue_zero, uc_tx = pbuf_queue_zero, uc_tx_polling = False\<rparr>"
  have q: "\<not> lk_closed ?lk" "queue_owns (st_heap ?s) (lk_tx ?lk) []" "queue_owns (st_heap ?s) (uc_rx ?conn) []"
    "mbox_ready (hp_mbox (st_heap ?s))"
    using ex_native_facts(3,7) by simp_all
  have b: "ex_raw_bytes = ex_dgram_hdr @ ?xs" "int (length (ex_dgram_hdr @ ?xs)) = 30" "int (length ?xs) - 8 = 2"
    by (simp_all add: ex_raw_bytes_def ex_dgram_hdr_def)
  show ?thesis
    using link_write_reaches_connection [OF ex_native_facts(1) q(1,2) ex_native_facts(9,4,6) q(4) ex_native_facts(5) h x(1) n(1,2) u x(6)
        ex_native_facts(10) ch ub ex_native_facts(2) q(3) n(3,4), of "\<lambda>_ _ _. None"]
    unfolding b(2,3) x(2-5,7) b(1) by blast
qed

theorem poll_tx_takes_32_witness:
  "\<exists>tx. queue_rep tx [] \<and> poll_tx (\<lambda>_ _ _. None) (Some 7) ex_native
    = Some (ex_native\<lparr>st_links := (st_links ex_native)(7 \<mapsto> (the (st_links ex_native 7))\<lparr>lk_tx_polling := False, lk_tx := tx\<rparr>)\<rparr>)"
  using poll_tx_takes_32 [OF ex_native_facts(1), of "[]" "\<lambda>_ _ _. None"] queue_zero ex_native_facts(1) by simp

end
