(* ===== verification/Tcp_Out.thy ===== *)
theory Tcp_Out
  imports Icmp Netif
begin

text \<open>
  TCP output (\<open>tcp_out.c\<close>, with \<open>tcp_eff_send_mss_netif\<close>, \<open>tcp_seg_free\<close> and \<open>tcp_segs_free\<close> of \<open>tcp.c\<close>):
  segments for data, SYN and FIN, acknowledgements and resets, the output of the send queue under the windows
  of receiver and congestion control, and the retransmissions.

  A control block is the value behind its address in \<open>tg_pcbs\<close>; segments are values whose allocation may
  fail.  The data of \<open>tcp_write\<close> are behind a pointer into a block of the heap.
\<close>

section \<open>Control blocks in the state\<close>

definition tcp_pcb_at :: "addr \<Rightarrow> stack \<Rightarrow> tcp_pcb option" where
  "tcp_pcb_at a s = tg_pcbs (st_tcp s) a"

definition put_tcp_pcb :: "addr \<Rightarrow> tcp_pcb \<Rightarrow> stack \<Rightarrow> stack" where
  "put_tcp_pcb a pcb s = s\<lparr>st_tcp := (st_tcp s)\<lparr>tg_pcbs := (tg_pcbs (st_tcp s))(a \<mapsto> pcb)\<rparr>\<rparr>"

definition upd_tcp_pcb :: "addr \<Rightarrow> (tcp_pcb \<Rightarrow> tcp_pcb) \<Rightarrow> stack \<Rightarrow> stack option" where
  "upd_tcp_pcb a f s = map_option (\<lambda>pcb. put_tcp_pcb a (f pcb) s) (tcp_pcb_at a s)"

text \<open>The members that listening and other control blocks share (\<open>struct ip_pcb\<close>).\<close>

record ip_pcb =
  ip_netif_idx :: u8
  ip_tos :: u8
  ip_ttl :: u8

definition tcp_ip_pcb :: "tcp_pcb \<Rightarrow> ip_pcb" where
  "tcp_ip_pcb pcb = \<lparr>ip_netif_idx = tp_netif_idx pcb, ip_tos = tp_tos pcb, ip_ttl = tp_ttl pcb\<rparr>"

section \<open>Headers in memory\<close>

text \<open>A sequence number in network order, the flags, and the length in the header at a pointer.\<close>

definition tcph_seqno :: "heap \<Rightarrow> ptr option \<Rightarrow> u32 option" where
  "tcph_seqno h hdr = map_option lwip_htonl (read_u32 h hdr 4)"

definition TCPH_FLAGS :: "heap \<Rightarrow> ptr option \<Rightarrow> u8 option" where
  "TCPH_FLAGS h hdr = map_option (\<lambda>w. ucast (lwip_htons w AND 0x3F)) (read_u16 h hdr 12)"

definition TCPH_SET_FLAG :: "ptr option \<Rightarrow> u8 \<Rightarrow> stack \<Rightarrow> stack option" where
  "TCPH_SET_FLAG hdr flags s = do {
     w \<leftarrow> read_u16 (st_heap s) hdr 12;
     st_write hdr 12 (bytes_u16 (w OR lwip_htons (ucast flags))) s
   }"

definition TCPH_FLAGS_SET :: "ptr option \<Rightarrow> u8 \<Rightarrow> stack \<Rightarrow> stack option" where
  "TCPH_FLAGS_SET hdr flags s = do {
     w \<leftarrow> read_u16 (st_heap s) hdr 12;
     st_write hdr 12 (bytes_u16 ((w AND lwip_htons 0xFFC0) OR lwip_htons (ucast flags))) s
   }"

definition TCPH_HDRLEN_FLAGS_SET :: "ptr option \<Rightarrow> u16 \<Rightarrow> u8 \<Rightarrow> stack \<Rightarrow> stack option" where
  "TCPH_HDRLEN_FLAGS_SET hdr len flags s = st_write hdr 12 (bytes_u16 (lwip_htons (push_bit 12 len OR ucast flags))) s"

definition TCP_TCPLEN :: "heap \<Rightarrow> tcp_seg \<Rightarrow> u32 option" where
  "TCP_TCPLEN h sg = map_option (\<lambda>f. ucast (sg_len sg) + (if f AND (TCP_FIN OR TCP_SYN) \<noteq> 0 then 1 else 0)) (TCPH_FLAGS h (sg_tcphdr sg))"

section \<open>Segments\<close>

definition tcp_seg_free :: "tcp_seg \<Rightarrow> stack \<Rightarrow> stack option" where
  "tcp_seg_free sg s = (if sg_p sg \<noteq> None then st_pbuf_free (sg_p sg) s else Some s)"

fun tcp_segs_free :: "tcp_seg list \<Rightarrow> stack \<Rightarrow> stack option" where
  "tcp_segs_free [] s = Some s"
| "tcp_segs_free (sg # sgs) s = do { s \<leftarrow> tcp_seg_free sg s; tcp_segs_free sgs s }"

definition tcp_eff_send_mss_netif :: "u16 \<Rightarrow> netif_ptr option \<Rightarrow> stack \<Rightarrow> u16" where
  "tcp_eff_send_mss_netif sendmss outif s = (case outif of
      None \<Rightarrow> sendmss
    | Some n \<Rightarrow>
        (let mtu = nif_mtu (netif_at s n) in
         if mtu \<noteq> 0 then (let offset = 40; mss_s = (if mtu > offset then mtu - offset else 0) in min sendmss mss_s)
         else sendmss))"

definition tcp_route :: "ip_pcb option \<Rightarrow> ip4_addr_t \<Rightarrow> stack \<Rightarrow> netif_ptr option" where
  "tcp_route pcb dst s = (case pcb of
      Some p \<Rightarrow> if ip_netif_idx p \<noteq> NETIF_NO_INDEX then netif_get_by_index (ip_netif_idx p) s else ip4_route dst s
    | None \<Rightarrow> ip4_route dst s)"

definition tcp_create_segment :: "tcp_pcb \<Rightarrow> addr option \<Rightarrow> u8 \<Rightarrow> u32 \<Rightarrow> u8 \<Rightarrow> stack \<Rightarrow> (tcp_seg option \<times> stack) option" where
  "tcp_create_segment pcb p hdrflags seqno optflags s = do {
     a \<leftarrow> p;
     let optlen = LWIP_TCP_OPT_LENGTH optflags;
     let (m, h) = mem_malloc (st_heap s);
     let s = s\<lparr>st_heap := h\<rparr>;
     if m = None then do { s \<leftarrow> st_pbuf_free p s; Some (None, s) }
     else do {
       pb \<leftarrow> hp_pbufs (st_heap s) a;
       lwip_assert (pb_tot_len pb \<ge> ucast optlen);
       let sg = \<lparr>sg_p = p, sg_len = pb_tot_len pb - ucast optlen, sg_flags = optflags, sg_tcphdr = None\<rparr>;
       (e, s) \<leftarrow> on_heap (pbuf_add_header p TCP_HLEN) s;
       if e \<noteq> 0 then do { s \<leftarrow> tcp_seg_free sg s; Some (None, s) }
       else do {
         pb \<leftarrow> hp_pbufs (st_heap s) a;
         let hdr = pb_payload pb;
         s \<leftarrow> st_write hdr 0 (bytes_u16 (lwip_htons (tp_local_port pcb)) @ bytes_u16 (lwip_htons (tp_remote_port pcb))
                @ bytes_u32 (lwip_htonl seqno)) s;
         s \<leftarrow> TCPH_HDRLEN_FLAGS_SET hdr (5 + ucast optlen div 4) hdrflags s;
         s \<leftarrow> st_write hdr 18 (bytes_u16 0) s;
         Some (Some (sg\<lparr>sg_tcphdr := hdr\<rparr>), s)
       }
     }
   }"

section \<open>Queueing data\<close>

text \<open>The result is the pbuf and the unused room behind its data (\<open>*oversize\<close>).\<close>

definition tcp_pbuf_prealloc :: "pbuf_layer \<Rightarrow> u16 \<Rightarrow> u16 \<Rightarrow> tcp_pcb \<Rightarrow> u8 \<Rightarrow> bool \<Rightarrow> stack \<Rightarrow> ((addr \<times> u16) option \<times> stack) option" where
  "tcp_pbuf_prealloc layer n max_length pcb apiflags first_seg s = do {
     let alloc = (if n < max_length \<and> (apiflags AND TCP_WRITE_FLAG_MORE \<noteq> 0
           \<or> tp_flags pcb AND TF_NODELAY = 0 \<and> (\<not> first_seg \<or> tp_unsent pcb \<noteq> [] \<or> tp_unacked pcb \<noteq> []))
         then of_nat (min (unat max_length) (LWIP_MEM_ALIGN_SIZE (unat n + unat TCP_MSS))) else n);
     (p, s) \<leftarrow> on_heap (pbuf_alloc layer alloc PBUF_RAM) s;
     case p of
       None \<Rightarrow> Some (None, s)
     | Some a \<Rightarrow> do {
         pb \<leftarrow> hp_pbufs (st_heap s) a;
         lwip_assert (pb_next pb = None);
         Some (Some (a, pb_len pb - n), s\<lparr>st_heap := put_pbuf (st_heap s) a (pb\<lparr>pb_len := n, pb_tot_len := n\<rparr>)\<rparr>)
       }
   }"

definition tcp_write_checks :: "addr \<Rightarrow> u16 \<Rightarrow> stack \<Rightarrow> (err_t \<times> stack) option" where
  "tcp_write_checks a len s = do {
     pcb \<leftarrow> tcp_pcb_at a s;
     if tp_state pcb \<notin> {ESTABLISHED, CLOSE_WAIT, SYN_SENT, SYN_RCVD} then Some (ERR_CONN, s)
     else if len = 0 then Some (ERR_OK, s)
     else if ucast len > tp_snd_buf pcb then Some (ERR_MEM, put_tcp_pcb a (tcp_set_flags TF_NAGLEMEMERR pcb) s)
     else if tp_snd_queuelen pcb \<ge> min TCP_SND_QUEUELEN 0xFFFD then Some (ERR_MEM, put_tcp_pcb a (tcp_set_flags TF_NAGLEMEMERR pcb) s)
     else do {
       lwip_assert (if tp_snd_queuelen pcb \<noteq> 0 then tp_unacked pcb \<noteq> [] \<or> tp_unsent pcb \<noteq> []
                    else tp_unacked pcb = [] \<and> tp_unsent pcb = []);
       Some (ERR_OK, s)
     }
   }"

text \<open>The local variables of \<open>tcp_write\<close>; \<open>tw_seg\<close> is the header of the segment that gets the PSH flag.\<close>

record tcp_write_vars =
  tw_pos :: u16
  tw_queuelen :: u16
  tw_oversize :: u16
  tw_oversize_used :: u16
  tw_extendlen :: u16
  tw_concat :: "addr option"
  tw_seg :: "ptr option"
  tw_queue :: "tcp_seg list"

text \<open>The last pbuf of a chain.\<close>

partial_function (option) pbuf_last :: "addr \<Rightarrow> heap \<Rightarrow> addr option" where
  "pbuf_last p h = do {
     pb \<leftarrow> hp_pbufs h p;
     case pb_next pb of None \<Rightarrow> Some p | Some q \<Rightarrow> pbuf_last q h
   }"

definition ptr_add :: "ptr option \<Rightarrow> nat \<Rightarrow> ptr option" where
  "ptr_add p n = map_option (\<lambda>(b, off). (b, off + n)) p"

text \<open>Phases 1 and 2 of \<open>tcp_write\<close>: room at the end of the last unsent segment.\<close>

definition tcp_write_tail_ref :: "tcp_seg \<Rightarrow> ptr option \<Rightarrow> u16 \<Rightarrow> tcp_write_vars \<Rightarrow> stack \<Rightarrow> (bool \<times> tcp_write_vars \<times> stack) option" where
  "tcp_write_tail_ref last_unsent arg seglen v s = do {
     a \<leftarrow> sg_p last_unsent;
     p \<leftarrow> pbuf_last a (st_heap s);
     pb \<leftarrow> hp_pbufs (st_heap s) p;
     if ucast (pb_type_internal pb) AND (PBUF_TYPE_FLAG_STRUCT_DATA_CONTIGUOUS OR PBUF_TYPE_FLAG_DATA_VOLATILE) = 0
       \<and> ptr_add (pb_payload pb) (unat (pb_len pb)) = arg
     then do { lwip_assert (tw_pos v = 0); Some (True, v\<lparr>tw_extendlen := seglen\<rparr>, s) }
     else do {
       (c, s) \<leftarrow> on_heap (pbuf_alloc PBUF_RAW seglen PBUF_ROM) s;
       case c of
         None \<Rightarrow> Some (False, v, s)
       | Some c \<Rightarrow> do {
           cb \<leftarrow> hp_pbufs (st_heap s) c;
           let s = s\<lparr>st_heap := put_pbuf (st_heap s) c (cb\<lparr>pb_payload := ptr_add arg (unat (tw_pos v))\<rparr>)\<rparr>;
           n \<leftarrow> pbuf_clen (Some c) (st_heap s);
           Some (True, v\<lparr>tw_concat := Some c, tw_queuelen := tw_queuelen v + n\<rparr>, s)
         }
     }
   }"

definition tcp_write_tail :: "tcp_pcb \<Rightarrow> ptr option \<Rightarrow> u16 \<Rightarrow> u8 \<Rightarrow> u16 \<Rightarrow> tcp_write_vars \<Rightarrow> stack \<Rightarrow> (bool \<times> tcp_write_vars \<times> stack) option" where
  "tcp_write_tail pcb arg len apiflags mss_local v s =
     (if tp_unsent pcb = [] then do { lwip_assert (tp_unsent_oversize pcb = 0); Some (True, v, s) }
      else do {
        let last_unsent = last (tp_unsent pcb);
        let used = unat (sg_len last_unsent) + unat (LWIP_TCP_OPT_LENGTH (sg_flags last_unsent));
        lwip_assert (unat mss_local \<ge> used);
        let space = mss_local - of_nat used;
        let oversize = tp_unsent_oversize pcb;
        lwip_assert (oversize > 0 \<longrightarrow> oversize \<le> space);
        let oversize_used = (if oversize > 0 then min space (min oversize len) else 0);
        let pos = tw_pos v + oversize_used;
        let oversize = oversize - oversize_used;
        let space = space - oversize_used;
        let v = v\<lparr>tw_pos := pos, tw_oversize := oversize, tw_oversize_used := oversize_used,
                  tw_seg := (if tp_unsent_oversize pcb > 0 then sg_tcphdr last_unsent else None)\<rparr>;
        lwip_assert (oversize = 0 \<or> pos = len);
        if pos < len \<and> space > 0 \<and> sg_len last_unsent > 0 then do {
          let seglen = min space (len - pos);
          let v = v\<lparr>tw_seg := sg_tcphdr last_unsent\<rparr>;
          (ok, v, s) \<leftarrow> (if apiflags AND TCP_WRITE_FLAG_COPY \<noteq> 0 then do {
              (r, s) \<leftarrow> tcp_pbuf_prealloc PBUF_RAW seglen space pcb apiflags True s;
              case r of
                None \<Rightarrow> Some (False, v, s)
              | Some (c, oversize) \<Rightarrow> do {
                  bs \<leftarrow> mem_read (st_heap s) arg (unat pos) (unat seglen);
                  cb \<leftarrow> hp_pbufs (st_heap s) c;
                  s \<leftarrow> st_write (pb_payload cb) 0 bs s;
                  n \<leftarrow> pbuf_clen (Some c) (st_heap s);
                  Some (True, v\<lparr>tw_concat := Some c, tw_oversize := oversize, tw_queuelen := tw_queuelen v + n\<rparr>, s)
                }
            } else tcp_write_tail_ref last_unsent arg seglen v s);
          Some (ok, (if ok then v\<lparr>tw_pos := pos + seglen\<rparr> else v), s)
        } else Some (True, v, s)
      })"

text \<open>Phase 3: new segments for the rest of the data.\<close>

definition tcp_write_pbuf :: "tcp_pcb \<Rightarrow> ptr option \<Rightarrow> u16 \<Rightarrow> u8 \<Rightarrow> u16 \<Rightarrow> u8 \<Rightarrow> tcp_write_vars \<Rightarrow> stack
    \<Rightarrow> (addr option \<times> tcp_write_vars \<times> stack) option" where
  "tcp_write_pbuf pcb arg seglen apiflags mss_local optlen v s =
     (if apiflags AND TCP_WRITE_FLAG_COPY \<noteq> 0 then do {
        (r, s) \<leftarrow> tcp_pbuf_prealloc PBUF_TRANSPORT (seglen + ucast optlen) mss_local pcb apiflags (tw_queue v = []) s;
        case r of
          None \<Rightarrow> Some (None, v, s)
        | Some (p, oversize) \<Rightarrow> do {
            pb \<leftarrow> hp_pbufs (st_heap s) p;
            lwip_assert (pb_len pb \<ge> seglen);
            bs \<leftarrow> mem_read (st_heap s) arg (unat (tw_pos v)) (unat seglen);
            s \<leftarrow> st_write (pb_payload pb) (unat optlen) bs s;
            Some (Some p, v\<lparr>tw_oversize := oversize\<rparr>, s)
          }
      } else do {
        lwip_assert (tw_oversize v = 0);
        (p2, s) \<leftarrow> on_heap (pbuf_alloc PBUF_TRANSPORT seglen PBUF_ROM) s;
        case p2 of
          None \<Rightarrow> Some (None, v, s)
        | Some c \<Rightarrow> do {
            cb \<leftarrow> hp_pbufs (st_heap s) c;
            let s = s\<lparr>st_heap := put_pbuf (st_heap s) c (cb\<lparr>pb_payload := ptr_add arg (unat (tw_pos v))\<rparr>)\<rparr>;
            (p, s) \<leftarrow> on_heap (pbuf_alloc PBUF_TRANSPORT (ucast optlen) PBUF_RAM) s;
            if p = None then do { s \<leftarrow> st_pbuf_free p2 s; Some (None, v, s) }
            else do { s \<leftarrow> on_heap' (pbuf_cat p p2) s; Some (p, v, s) }
          }
      })"

partial_function (option) tcp_write_loop :: "tcp_pcb \<Rightarrow> ptr option \<Rightarrow> u16 \<Rightarrow> u8 \<Rightarrow> u16 \<Rightarrow> u8 \<Rightarrow> u8 \<Rightarrow> tcp_write_vars \<Rightarrow> stack
    \<Rightarrow> (bool \<times> tcp_write_vars \<times> stack) option" where
  "tcp_write_loop pcb arg len apiflags mss_local optlen optflags v s =
     (if \<not> tw_pos v < len then Some (True, v, s)
      else do {
        let left = len - tw_pos v;
        let max_len = mss_local - ucast optlen;
        let seglen = min left max_len;
        (p, v, s) \<leftarrow> tcp_write_pbuf pcb arg seglen apiflags mss_local optlen v s;
        if p = None then Some (False, v, s)
        else do {
          n \<leftarrow> pbuf_clen p (st_heap s);
          let v = v\<lparr>tw_queuelen := tw_queuelen v + n\<rparr>;
          if tw_queuelen v > min TCP_SND_QUEUELEN 0xFFFC then do { s \<leftarrow> st_pbuf_free p s; Some (False, v, s) }
          else do {
            (sg, s) \<leftarrow> tcp_create_segment pcb p 0 (tp_snd_lbb pcb + ucast (tw_pos v)) optflags s;
            case sg of
              None \<Rightarrow> Some (False, v, s)
            | Some g \<Rightarrow> tcp_write_loop pcb arg len apiflags mss_local optlen optflags
                (v\<lparr>tw_queue := tw_queue v @ [g], tw_seg := sg_tcphdr g, tw_pos := tw_pos v + seglen\<rparr>) s
          }
        }
      })"

text \<open>The two loops over the pbufs of the last unsent segment.\<close>

partial_function (option) tcp_write_fill :: "addr \<Rightarrow> u16 \<Rightarrow> byte list \<Rightarrow> heap \<Rightarrow> heap option" where
  "tcp_write_fill p n bs h = do {
     pb \<leftarrow> hp_pbufs h p;
     case pb_next pb of
       None \<Rightarrow> do {
         h \<leftarrow> mem_write h (pb_payload pb) (unat (pb_len pb)) bs;
         Some (put_pbuf h p (pb\<lparr>pb_tot_len := pb_tot_len pb + n, pb_len := pb_len pb + n\<rparr>))
       }
     | Some q \<Rightarrow> tcp_write_fill q n bs (put_pbuf h p (pb\<lparr>pb_tot_len := pb_tot_len pb + n\<rparr>))
   }"

partial_function (option) tcp_write_extend :: "addr \<Rightarrow> u16 \<Rightarrow> heap \<Rightarrow> heap option" where
  "tcp_write_extend p n h = do {
     pb \<leftarrow> hp_pbufs h p;
     case pb_next pb of
       None \<Rightarrow> Some (put_pbuf h p (pb\<lparr>pb_tot_len := pb_tot_len pb + n, pb_len := pb_len pb + n\<rparr>))
     | Some q \<Rightarrow> tcp_write_extend q n (put_pbuf h p (pb\<lparr>pb_tot_len := pb_tot_len pb + n\<rparr>))
   }"

definition tcp_write_commit :: "addr \<Rightarrow> ptr option \<Rightarrow> u16 \<Rightarrow> u8 \<Rightarrow> tcp_write_vars \<Rightarrow> stack \<Rightarrow> (err_t \<times> stack) option" where
  "tcp_write_commit a arg len apiflags v s = do {
     pcb \<leftarrow> tcp_pcb_at a s;
     let unsent = tp_unsent pcb;
     (unsent, s) \<leftarrow> (if tw_oversize_used v > 0 then do {
         let lu = last unsent;
         p \<leftarrow> sg_p lu;
         bs \<leftarrow> mem_read (st_heap s) arg 0 (unat (tw_oversize_used v));
         s \<leftarrow> on_heap' (tcp_write_fill p (tw_oversize_used v) bs) s;
         Some (butlast unsent @ [lu\<lparr>sg_len := sg_len lu + tw_oversize_used v\<rparr>], s)
       } else Some (unsent, s));
     (unsent, s) \<leftarrow> (if tw_concat v \<noteq> None then do {
         lwip_assert (unsent \<noteq> []);
         let lu = last unsent;
         c \<leftarrow> tw_concat v;
         s \<leftarrow> on_heap' (pbuf_cat (sg_p lu) (tw_concat v)) s;
         cb \<leftarrow> hp_pbufs (st_heap s) c;
         Some (butlast unsent @ [lu\<lparr>sg_len := sg_len lu + pb_tot_len cb\<rparr>], s)
       } else if tw_extendlen v > 0 then do {
         lwip_assert (unsent \<noteq> []);
         let lu = last unsent;
         p \<leftarrow> sg_p lu;
         s \<leftarrow> on_heap' (tcp_write_extend p (tw_extendlen v)) s;
         Some (butlast unsent @ [lu\<lparr>sg_len := sg_len lu + tw_extendlen v\<rparr>], s)
       } else Some (unsent, s));
     let pcb = pcb\<lparr>tp_unsent_oversize := tw_oversize v, tp_unsent := unsent @ tw_queue v, tp_snd_lbb := tp_snd_lbb pcb + ucast len,
                   tp_snd_buf := tp_snd_buf pcb - ucast len, tp_snd_queuelen := tw_queuelen v\<rparr>;
     lwip_assert (tp_snd_queuelen pcb \<noteq> 0 \<longrightarrow> tp_unacked pcb \<noteq> [] \<or> tp_unsent pcb \<noteq> []);
     let s = put_tcp_pcb a pcb s;
     s \<leftarrow> (if tw_seg v \<noteq> None \<and> apiflags AND TCP_WRITE_FLAG_MORE = 0 then TCPH_SET_FLAG (tw_seg v) TCP_PSH s else Some s);
     Some (ERR_OK, s)
   }"

definition tcp_write_memerr :: "addr \<Rightarrow> tcp_write_vars \<Rightarrow> stack \<Rightarrow> (err_t \<times> stack) option" where
  "tcp_write_memerr a v s = do {
     s \<leftarrow> upd_tcp_pcb a (tcp_set_flags TF_NAGLEMEMERR) s;
     s \<leftarrow> (if tw_concat v \<noteq> None then st_pbuf_free (tw_concat v) s else Some s);
     s \<leftarrow> tcp_segs_free (tw_queue v) s;
     pcb \<leftarrow> tcp_pcb_at a s;
     lwip_assert (tp_snd_queuelen pcb \<noteq> 0 \<longrightarrow> tp_unacked pcb \<noteq> [] \<or> tp_unsent pcb \<noteq> []);
     Some (ERR_MEM, s)
   }"

definition tcp_write :: "addr option \<Rightarrow> ptr option \<Rightarrow> u16 \<Rightarrow> u8 \<Rightarrow> stack \<Rightarrow> (err_t \<times> stack) option" where
  "tcp_write pcb arg len apiflags s = do {
     a \<leftarrow> pcb;
     pcb \<leftarrow> tcp_pcb_at a s;
     let mss_local = min (tp_mss pcb) (TCPWND_MIN16 (tp_snd_wnd_max pcb div 2));
     let mss_local = (if mss_local \<noteq> 0 then mss_local else tp_mss pcb);
     lwip_assert (arg \<noteq> None);
     (err, s) \<leftarrow> tcp_write_checks a len s;
     if err \<noteq> ERR_OK then Some (err, s)
     else do {
       pcb \<leftarrow> tcp_pcb_at a s;
       let v = \<lparr>tw_pos = 0, tw_queuelen = tp_snd_queuelen pcb, tw_oversize = 0, tw_oversize_used = 0, tw_extendlen = 0,
                tw_concat = None, tw_seg = None, tw_queue = []\<rparr>;
       (ok, v, s) \<leftarrow> tcp_write_tail pcb arg len apiflags mss_local v s;
       (ok, v, s) \<leftarrow> (if ok then tcp_write_loop pcb arg len apiflags mss_local (LWIP_TCP_OPT_LENGTH 0) 0 v s else Some (False, v, s));
       if ok then tcp_write_commit a arg len apiflags v s else tcp_write_memerr a v s
     }
   }"

section \<open>Splitting, SYN and FIN\<close>

definition tcp_split_unsent_seg :: "addr \<Rightarrow> u16 \<Rightarrow> stack \<Rightarrow> (err_t \<times> stack) option" where
  "tcp_split_unsent_seg a split s = do {
     pcb \<leftarrow> tcp_pcb_at a s;
     case tp_unsent pcb of
       [] \<Rightarrow> Some (ERR_MEM, s)
     | useg # rest \<Rightarrow> do {
         lwip_assert (split \<noteq> 0);
         if sg_len useg \<le> split then Some (ERR_OK, s)
         else do {
           lwip_assert (split \<le> tp_mss pcb \<and> sg_len useg > 0);
           let optflags = sg_flags useg;
           let optlen = LWIP_TCP_OPT_LENGTH optflags;
           let remainder = sg_len useg - split;
           (p, s) \<leftarrow> on_heap (pbuf_alloc PBUF_TRANSPORT (remainder + ucast optlen) PBUF_RAM) s;
           if p = None then Some (ERR_MEM, s)
           else do {
             b \<leftarrow> p;
             u \<leftarrow> sg_p useg;
             ub \<leftarrow> hp_pbufs (st_heap s) u;
             let offset = pb_tot_len ub - sg_len useg + split;
             (n, bs) \<leftarrow> pbuf_copy_partial (Some u) remainder offset (st_heap s);
             pb \<leftarrow> hp_pbufs (st_heap s) b;
             s \<leftarrow> st_write (pb_payload pb) (unat optlen) bs s;
             if n \<noteq> remainder then do { s \<leftarrow> st_pbuf_free p s; Some (ERR_MEM, s) }
             else do {
               split_flags \<leftarrow> TCPH_FLAGS (st_heap s) (sg_tcphdr useg);
               let remainder_flags = (split_flags AND TCP_PSH) OR (split_flags AND TCP_FIN);
               let split_flags = split_flags AND NOT (TCP_PSH OR TCP_FIN);
               sq \<leftarrow> tcph_seqno (st_heap s) (sg_tcphdr useg);
               (sg, s) \<leftarrow> tcp_create_segment pcb p remainder_flags (sq + ucast split) optflags s;
               case sg of
                 None \<Rightarrow> do { s \<leftarrow> st_pbuf_free p s; Some (ERR_MEM, s) }
               | Some sg \<Rightarrow> do {
                   n1 \<leftarrow> pbuf_clen (Some u) (st_heap s);
                   ub \<leftarrow> hp_pbufs (st_heap s) u;
                   s \<leftarrow> on_heap' (pbuf_realloc (Some u) (pb_tot_len ub - remainder)) s;
                   let useg = useg\<lparr>sg_len := sg_len useg - remainder\<rparr>;
                   s \<leftarrow> TCPH_SET_FLAG (sg_tcphdr useg) split_flags s;
                   n2 \<leftarrow> pbuf_clen (Some u) (st_heap s);
                   n3 \<leftarrow> pbuf_clen (sg_p sg) (st_heap s);
                   let pcb = pcb\<lparr>tp_snd_queuelen := tp_snd_queuelen pcb - n1 + n2 + n3, tp_unsent := useg # sg # rest\<rparr>;
                   let pcb = (if rest = [] then pcb\<lparr>tp_unsent_oversize := 0\<rparr> else pcb);
                   Some (ERR_OK, put_tcp_pcb a pcb s)
                 }
             }
           }
         }
       }
   }"

definition tcp_enqueue_flags :: "addr \<Rightarrow> u8 \<Rightarrow> stack \<Rightarrow> (err_t \<times> stack) option" where
  "tcp_enqueue_flags a flags s = do {
     pcb \<leftarrow> tcp_pcb_at a s;
     lwip_assert (flags AND (TCP_SYN OR TCP_FIN) \<noteq> 0);
     let optflags = (if flags AND TCP_SYN \<noteq> 0
       then TF_SEG_OPTS_MSS
         OR (if tp_state pcb \<noteq> SYN_RCVD \<or> tp_flags pcb AND TF_WND_SCALE \<noteq> 0 then TF_SEG_OPTS_WND_SCALE else 0)
         OR (if tp_state pcb \<noteq> SYN_RCVD \<or> tp_flags pcb AND TF_SACK \<noteq> 0 then TF_SEG_OPTS_SACK_PERM else 0)
       else 0);
     let optlen = LWIP_TCP_OPT_LENGTH optflags;
     (p, s) \<leftarrow> on_heap (pbuf_alloc PBUF_TRANSPORT (ucast optlen) PBUF_RAM) s;
     case p of
       None \<Rightarrow> Some (ERR_MEM, put_tcp_pcb a (tcp_set_flags TF_NAGLEMEMERR pcb) s)
     | Some b \<Rightarrow> do {
         pb \<leftarrow> hp_pbufs (st_heap s) b;
         lwip_assert (pb_len pb \<ge> ucast optlen);
         (sg, s) \<leftarrow> tcp_create_segment pcb p flags (tp_snd_lbb pcb) optflags s;
         case sg of
           None \<Rightarrow> Some (ERR_MEM, put_tcp_pcb a (tcp_set_flags TF_NAGLEMEMERR pcb) s)
         | Some sg \<Rightarrow> do {
             (_, off) \<leftarrow> sg_tcphdr sg;
             lwip_assert (off mod 4 = 0);
             lwip_assert (sg_len sg = 0);
             n \<leftarrow> pbuf_clen (sg_p sg) (st_heap s);
             let pcb = pcb\<lparr>tp_unsent := tp_unsent pcb @ [sg], tp_unsent_oversize := 0, tp_snd_lbb := tp_snd_lbb pcb + 1\<rparr>;
             let pcb = (if flags AND TCP_FIN \<noteq> 0 then tcp_set_flags TF_FIN pcb else pcb);
             let pcb = pcb\<lparr>tp_snd_queuelen := tp_snd_queuelen pcb + n\<rparr>;
             Some (ERR_OK, put_tcp_pcb a pcb s)
           }
       }
   }"

definition tcp_send_fin :: "addr \<Rightarrow> stack \<Rightarrow> (err_t \<times> stack) option" where
  "tcp_send_fin a s = do {
     pcb \<leftarrow> tcp_pcb_at a s;
     if tp_unsent pcb = [] then tcp_enqueue_flags a TCP_FIN s
     else do {
       let hdr = sg_tcphdr (last (tp_unsent pcb));
       f \<leftarrow> TCPH_FLAGS (st_heap s) hdr;
       if f AND (TCP_SYN OR TCP_FIN OR TCP_RST) = 0 then do {
         s \<leftarrow> TCPH_SET_FLAG hdr TCP_FIN s;
         Some (ERR_OK, put_tcp_pcb a (tcp_set_flags TF_FIN pcb) s)
       } else tcp_enqueue_flags a TCP_FIN s
     }
   }"

section \<open>Control segments\<close>

text \<open>\<open>optlen\<close> is the length of the other options.\<close>

fun count_sacks :: "(u32 \<times> u32) list \<Rightarrow> u8 \<Rightarrow> u8 \<Rightarrow> u8" where
  "count_sacks [] optlen n = n"
| "count_sacks ((l, r) # rest) optlen n =
     (if optlen \<le> TCP_MAX_OPTION_BYTES \<and> l \<noteq> r then count_sacks rest (optlen + 8) (n + 1) else n)"

definition tcp_get_num_sacks :: "tcp_pcb \<Rightarrow> u8 \<Rightarrow> u8" where
  "tcp_get_num_sacks pcb optlen =
     (if tp_flags pcb AND TF_SACK \<noteq> 0 then count_sacks (take LWIP_TCP_MAX_SACK_NUM (tp_rcv_sacks pcb)) (optlen + 12) 0 else 0)"

definition tcp_build_sack_option :: "(u32 \<times> u32) list \<Rightarrow> u8 \<Rightarrow> byte list" where
  "tcp_build_sack_option sacks num_sacks =
     bytes_u32 (lwip_htonl (0x01010500 + 2 + ucast num_sacks * 8))
     @ concat (map (\<lambda>(l, r). bytes_u32 (lwip_htonl l) @ bytes_u32 (lwip_htonl r)) (take (unat num_sacks) sacks))"

definition tcp_output_alloc_header_common :: "u32 \<Rightarrow> u16 \<Rightarrow> u16 \<Rightarrow> u32 \<Rightarrow> u16 \<Rightarrow> u16 \<Rightarrow> u8 \<Rightarrow> u16 \<Rightarrow> stack
    \<Rightarrow> (addr option \<times> stack) option" where
  "tcp_output_alloc_header_common ackno optlen datalen seqno_be src_port dst_port flags wnd s = do {
     (p, s) \<leftarrow> on_heap (pbuf_alloc PBUF_IP (of_nat TCP_HLEN + optlen + datalen) PBUF_RAM) s;
     case p of
       None \<Rightarrow> Some (None, s)
     | Some a \<Rightarrow> do {
         pb \<leftarrow> hp_pbufs (st_heap s) a;
         lwip_assert (unat (pb_len pb) \<ge> TCP_HLEN + unat optlen);
         let hdr = pb_payload pb;
         s \<leftarrow> st_write hdr 0 (bytes_u16 (lwip_htons src_port) @ bytes_u16 (lwip_htons dst_port) @ bytes_u32 seqno_be
                @ bytes_u32 (lwip_htonl ackno)) s;
         s \<leftarrow> TCPH_HDRLEN_FLAGS_SET hdr (5 + optlen div 4) flags s;
         s \<leftarrow> st_write hdr 14 (bytes_u16 (lwip_htons wnd) @ bytes_u16 0 @ bytes_u16 0) s;
         Some (Some a, s)
       }
   }"

definition tcp_output_alloc_header :: "addr \<Rightarrow> u16 \<Rightarrow> u16 \<Rightarrow> u32 \<Rightarrow> stack \<Rightarrow> (addr option \<times> stack) option" where
  "tcp_output_alloc_header a optlen datalen seqno_be s = do {
     pcb \<leftarrow> tcp_pcb_at a s;
     (p, s) \<leftarrow> tcp_output_alloc_header_common (tp_rcv_nxt pcb) optlen datalen seqno_be (tp_local_port pcb) (tp_remote_port pcb)
         TCP_ACK (TCPWND_MIN16 (RCV_WND_SCALE pcb (tp_rcv_ann_wnd pcb))) s;
     Some (p, if p \<noteq> None then put_tcp_pcb a (pcb\<lparr>tp_rcv_ann_right_edge := tp_rcv_nxt pcb + tp_rcv_ann_wnd pcb\<rparr>) s else s)
   }"

text \<open>The options behind the header: the ranges of the selective acknowledgement, if any.\<close>

definition tcp_output_fill_options :: "(u32 \<times> u32) list option \<Rightarrow> addr \<Rightarrow> u8 \<Rightarrow> u8 \<Rightarrow> stack \<Rightarrow> stack option" where
  "tcp_output_fill_options sacks p optflags num_sacks s = do {
     pb \<leftarrow> hp_pbufs (st_heap s) p;
     let n = (if sacks \<noteq> None \<and> num_sacks > 0 then 4 + 8 * unat num_sacks else 0);
     s \<leftarrow> (if sacks \<noteq> None \<and> num_sacks > 0
          then st_write (pb_payload pb) TCP_HLEN (tcp_build_sack_option (the sacks) num_sacks) s else Some s);
     lwip_assert (n = n + unat (LWIP_TCP_OPT_LENGTH optflags));
     Some s
   }"

definition tcp_output_control_segment :: "ip_pcb option \<Rightarrow> addr \<Rightarrow> ip4_addr_t \<Rightarrow> ip4_addr_t \<Rightarrow> stack \<Rightarrow> (err_t \<times> stack) option" where
  "tcp_output_control_segment pcb p src dst s = do {
     (err, s) \<leftarrow> (case tcp_route pcb dst s of
         None \<Rightarrow> Some (ERR_RTE, s)
       | Some netif \<Rightarrow> do {
           pb \<leftarrow> hp_pbufs (st_heap s) p;
           chksum \<leftarrow> ip_chksum_pseudo (Some p) IP_PROTO_TCP (pb_tot_len pb) src dst (st_heap s);
           s \<leftarrow> st_write (pb_payload pb) 16 (bytes_u16 chksum) s;
           let (ttl, tos) = (case pcb of Some c \<Rightarrow> (ip_ttl c, ip_tos c) | None \<Rightarrow> (TCP_TTL, 0));
           ip4_output_if p (Some src) (Some dst) ttl tos IP_PROTO_TCP netif s
         });
     s \<leftarrow> st_pbuf_free (Some p) s;
     Some (err, s)
   }"

text \<open>The window of a reset is swapped here and once more in \<open>tcp_output_alloc_header_common\<close>.\<close>

definition tcp_rst :: "ip_pcb option \<Rightarrow> u32 \<Rightarrow> u32 \<Rightarrow> ip4_addr_t \<Rightarrow> ip4_addr_t \<Rightarrow> u16 \<Rightarrow> u16 \<Rightarrow> stack \<Rightarrow> stack option" where
  "tcp_rst pcb seqno ackno local_ip remote_ip local_port remote_port s = do {
     let optlen = LWIP_TCP_OPT_LENGTH 0;
     let wnd = lwip_htons (ucast (drop_bit (unat TCP_RCV_SCALE) TCP_WND AND 0xFFFF));
     (p, s) \<leftarrow> tcp_output_alloc_header_common ackno (ucast optlen) 0 (lwip_htonl seqno) local_port remote_port (TCP_RST OR TCP_ACK) wnd s;
     case p of
       None \<Rightarrow> Some s
     | Some a \<Rightarrow> do {
         s \<leftarrow> tcp_output_fill_options None a 0 optlen s;
         (_, s) \<leftarrow> tcp_output_control_segment pcb a local_ip remote_ip s;
         Some s
       }
   }"

definition tcp_send_empty_ack :: "addr \<Rightarrow> stack \<Rightarrow> (err_t \<times> stack) option" where
  "tcp_send_empty_ack a s = do {
     pcb \<leftarrow> tcp_pcb_at a s;
     let optlen = LWIP_TCP_OPT_LENGTH 0;
     let num_sacks = tcp_get_num_sacks pcb optlen;
     let optlen = (if num_sacks > 0 then optlen + 4 + num_sacks * 8 else optlen);
     (p, s) \<leftarrow> tcp_output_alloc_header a (ucast optlen) 0 (lwip_htonl (tp_snd_nxt pcb)) s;
     case p of
       None \<Rightarrow> do { s \<leftarrow> upd_tcp_pcb a (tcp_set_flags (TF_ACK_DELAY OR TF_ACK_NOW)) s; Some (ERR_BUF, s) }
     | Some b \<Rightarrow> do {
         s \<leftarrow> tcp_output_fill_options (Some (tp_rcv_sacks pcb)) b 0 num_sacks s;
         (err, s) \<leftarrow> tcp_output_control_segment (Some (tcp_ip_pcb pcb)) b (tp_local_ip pcb) (tp_remote_ip pcb) s;
         s \<leftarrow> upd_tcp_pcb a (if err \<noteq> ERR_OK then tcp_set_flags (TF_ACK_DELAY OR TF_ACK_NOW)
                           else tcp_clear_flags (TF_ACK_DELAY OR TF_ACK_NOW)) s;
         Some (err, s)
       }
   }"

definition tcp_keepalive :: "addr \<Rightarrow> stack \<Rightarrow> (err_t \<times> stack) option" where
  "tcp_keepalive a s = do {
     pcb \<leftarrow> tcp_pcb_at a s;
     let optlen = LWIP_TCP_OPT_LENGTH 0;
     (p, s) \<leftarrow> tcp_output_alloc_header a (ucast optlen) 0 (lwip_htonl (tp_snd_nxt pcb - 1)) s;
     case p of
       None \<Rightarrow> Some (ERR_MEM, s)
     | Some b \<Rightarrow> do {
         s \<leftarrow> tcp_output_fill_options (Some (tp_rcv_sacks pcb)) b 0 optlen s;
         tcp_output_control_segment (Some (tcp_ip_pcb pcb)) b (tp_local_ip pcb) (tp_remote_ip pcb) s
       }
   }"

definition tcp_zero_window_probe :: "addr \<Rightarrow> stack \<Rightarrow> (err_t \<times> stack) option" where
  "tcp_zero_window_probe a s = do {
     pcb \<leftarrow> tcp_pcb_at a s;
     case tp_unsent pcb of
       [] \<Rightarrow> Some (ERR_OK, s)
     | sg # _ \<Rightarrow> do {
         let optlen = LWIP_TCP_OPT_LENGTH 0;
         s \<leftarrow> upd_tcp_pcb a (\<lambda>pcb. pcb\<lparr>tp_persist_probe := (if tp_persist_probe pcb < 0xFF then tp_persist_probe pcb + 1 else tp_persist_probe pcb)\<rparr>) s;
         f \<leftarrow> TCPH_FLAGS (st_heap s) (sg_tcphdr sg);
         let is_fin = (f AND TCP_FIN \<noteq> 0 \<and> sg_len sg = 0);
         seqno_be \<leftarrow> read_u32 (st_heap s) (sg_tcphdr sg) 4;
         (p, s) \<leftarrow> tcp_output_alloc_header a (ucast optlen) (if is_fin then 0 else 1) seqno_be s;
         case p of
           None \<Rightarrow> Some (ERR_MEM, s)
         | Some b \<Rightarrow> do {
             pb \<leftarrow> hp_pbufs (st_heap s) b;
             s \<leftarrow> (if is_fin then TCPH_FLAGS_SET (pb_payload pb) (TCP_ACK OR TCP_FIN) s
                  else do {
                    q \<leftarrow> sg_p sg;
                    qb \<leftarrow> hp_pbufs (st_heap s) q;
                    (_, bs) \<leftarrow> pbuf_copy_partial (Some q) 1 (pb_tot_len qb - sg_len sg) (st_heap s);
                    st_write (pb_payload pb) TCP_HLEN bs s
                  });
             sq \<leftarrow> tcph_seqno (st_heap s) (sg_tcphdr sg);
             let snd_nxt = sq + 1;
             s \<leftarrow> upd_tcp_pcb a (\<lambda>pcb. if TCP_SEQ_LT (tp_snd_nxt pcb) snd_nxt then pcb\<lparr>tp_snd_nxt := snd_nxt\<rparr> else pcb) s;
             s \<leftarrow> tcp_output_fill_options (Some (tp_rcv_sacks pcb)) b 0 optlen s;
             tcp_output_control_segment (Some (tcp_ip_pcb pcb)) b (tp_local_ip pcb) (tp_remote_ip pcb) s
           }
       }
   }"

section \<open>Output\<close>

definition tcp_do_output_nagle :: "tcp_pcb \<Rightarrow> bool" where
  "tcp_do_output_nagle pcb \<longleftrightarrow> tp_unacked pcb = []
     \<or> tp_flags pcb AND (TF_NODELAY OR TF_INFR) \<noteq> 0
     \<or> (case tp_unsent pcb of [] \<Rightarrow> False | sg # rest \<Rightarrow> rest \<noteq> [] \<or> sg_len sg \<ge> tp_mss pcb)
     \<or> tp_snd_buf pcb = 0 \<or> tp_snd_queuelen pcb \<ge> TCP_SND_QUEUELEN"

definition tcp_output_segment_busy :: "heap \<Rightarrow> tcp_seg \<Rightarrow> bool option" where
  "tcp_output_segment_busy h sg = do { p \<leftarrow> sg_p sg; pb \<leftarrow> hp_pbufs h p; Some (pb_ref pb \<noteq> 1) }"

text \<open>The options of a SYN; the result is the offset behind them.\<close>

definition tcp_write_options :: "tcp_seg \<Rightarrow> netif_ptr \<Rightarrow> stack \<Rightarrow> (nat \<times> stack) option" where
  "tcp_write_options sg netif s = do {
     let opts = TCP_HLEN;
     (opts, s) \<leftarrow> (if sg_flags sg AND TF_SEG_OPTS_MSS \<noteq> 0 then do {
         let mss = tcp_eff_send_mss_netif TCP_MSS (Some netif) s;
         s \<leftarrow> st_write (sg_tcphdr sg) opts (bytes_u32 (lwip_htonl (0x02040000 OR (ucast mss AND 0xFFFF)))) s;
         Some (opts + 4, s)
       } else Some (opts, s));
     (opts, s) \<leftarrow> (if sg_flags sg AND TF_SEG_OPTS_WND_SCALE \<noteq> 0 then do {
         s \<leftarrow> st_write (sg_tcphdr sg) opts (bytes_u32 (lwip_htonl (0x01030300 OR ucast TCP_RCV_SCALE))) s;
         Some (opts + 4, s)
       } else Some (opts, s));
     if sg_flags sg AND TF_SEG_OPTS_SACK_PERM \<noteq> 0 then do {
       s \<leftarrow> st_write (sg_tcphdr sg) opts (bytes_u32 (lwip_htonl 0x01010402)) s;
       Some (opts + 4, s)
     } else Some (opts, s)
   }"

definition tcp_output_segment :: "tcp_seg \<Rightarrow> addr \<Rightarrow> netif_ptr \<Rightarrow> stack \<Rightarrow> (err_t \<times> stack) option" where
  "tcp_output_segment sg a netif s = do {
     pcb \<leftarrow> tcp_pcb_at a s;
     busy \<leftarrow> tcp_output_segment_busy (st_heap s) sg;
     if busy then Some (ERR_OK, s)
     else do {
       let hdr = sg_tcphdr sg;
       s \<leftarrow> st_write hdr 8 (bytes_u32 (lwip_htonl (tp_rcv_nxt pcb))) s;
       s \<leftarrow> st_write hdr 14 (bytes_u16 (lwip_htons (if sg_flags sg AND TF_SEG_OPTS_WND_SCALE \<noteq> 0
              then TCPWND_MIN16 (tp_rcv_ann_wnd pcb) else TCPWND_MIN16 (RCV_WND_SCALE pcb (tp_rcv_ann_wnd pcb))))) s;
       let pcb = pcb\<lparr>tp_rcv_ann_right_edge := tp_rcv_nxt pcb + tp_rcv_ann_wnd pcb\<rparr>;
       (opts, s) \<leftarrow> tcp_write_options sg netif s;
       let pcb = (if tp_rtime pcb < 0 then pcb\<lparr>tp_rtime := 0\<rparr> else pcb);
       sq \<leftarrow> tcph_seqno (st_heap s) hdr;
       let pcb = (if tp_rttest pcb = 0 then pcb\<lparr>tp_rttest := tg_ticks (st_tcp s), tp_rtseq := sq\<rparr> else pcb);
       p \<leftarrow> sg_p sg;
       pb \<leftarrow> hp_pbufs (st_heap s) p;
       (hb, hoff) \<leftarrow> hdr;
       (pbk, poff) \<leftarrow> pb_payload pb;
       lwip_assert (hb = pbk);
       let len = (of_int (int hoff - int poff) :: u16);
       let s = s\<lparr>st_heap := put_pbuf (st_heap s) p (pb\<lparr>pb_len := pb_len pb - len, pb_tot_len := pb_tot_len pb - len, pb_payload := hdr\<rparr>)\<rparr>;
       s \<leftarrow> st_write hdr 16 (bytes_u16 0) s;
       lwip_assert (opts = TCP_HLEN + unat (LWIP_TCP_OPT_LENGTH (sg_flags sg)));
       pb \<leftarrow> hp_pbufs (st_heap s) p;
       chksum \<leftarrow> ip_chksum_pseudo (Some p) IP_PROTO_TCP (pb_tot_len pb) (tp_local_ip pcb) (tp_remote_ip pcb) (st_heap s);
       s \<leftarrow> st_write hdr 16 (bytes_u16 chksum) s;
       ip4_output_if p (Some (tp_local_ip pcb)) (Some (tp_remote_ip pcb)) (tp_ttl pcb) (tp_tos pcb) IP_PROTO_TCP netif (put_tcp_pcb a pcb s)
     }
   }"

text \<open>Insertion into a queue ordered by sequence numbers.\<close>

fun tcp_seg_insert :: "heap \<Rightarrow> u32 \<Rightarrow> tcp_seg \<Rightarrow> tcp_seg list \<Rightarrow> tcp_seg list option" where
  "tcp_seg_insert h sq sg [] = Some [sg]"
| "tcp_seg_insert h sq sg (c # cs) = do {
     cq \<leftarrow> tcph_seqno h (sg_tcphdr c);
     if TCP_SEQ_LT cq sq then map_option (Cons c) (tcp_seg_insert h sq sg cs) else Some (sg # c # cs)
   }"

text \<open>The loop of \<open>tcp_output\<close> over the segments that fit into the window.\<close>

definition tcp_output_sent :: "addr \<Rightarrow> tcp_seg \<Rightarrow> tcp_seg list \<Rightarrow> stack \<Rightarrow> stack option" where
  "tcp_output_sent a sg rest s = do {
     pcb \<leftarrow> tcp_pcb_at a s;
     let pcb = pcb\<lparr>tp_unsent := rest\<rparr>;
     let pcb = (if tp_state pcb \<noteq> SYN_SENT then tcp_clear_flags (TF_ACK_DELAY OR TF_ACK_NOW) pcb else pcb);
     sq \<leftarrow> tcph_seqno (st_heap s) (sg_tcphdr sg);
     n \<leftarrow> TCP_TCPLEN (st_heap s) sg;
     let snd_nxt = sq + n;
     let pcb = (if TCP_SEQ_LT (tp_snd_nxt pcb) snd_nxt then pcb\<lparr>tp_snd_nxt := snd_nxt\<rparr> else pcb);
     if n > 0 then do {
       unacked \<leftarrow> (if tp_unacked pcb = [] then Some [sg]
         else do {
           uq \<leftarrow> tcph_seqno (st_heap s) (sg_tcphdr (last (tp_unacked pcb)));
           if TCP_SEQ_LT sq uq then tcp_seg_insert (st_heap s) sq sg (tp_unacked pcb) else Some (tp_unacked pcb @ [sg])
         });
       Some (put_tcp_pcb a (pcb\<lparr>tp_unacked := unacked\<rparr>) s)
     } else tcp_seg_free sg (put_tcp_pcb a pcb s)
   }"

partial_function (option) tcp_output_loop :: "addr \<Rightarrow> u32 \<Rightarrow> netif_ptr \<Rightarrow> stack \<Rightarrow> (err_t \<times> stack) option" where
  "tcp_output_loop a wnd netif s = do {
     pcb \<leftarrow> tcp_pcb_at a s;
     case tp_unsent pcb of
       [] \<Rightarrow> Some (ERR_OK, s)
     | sg # rest \<Rightarrow> do {
         sq \<leftarrow> tcph_seqno (st_heap s) (sg_tcphdr sg);
         if \<not> sq - tp_lastack pcb + ucast (sg_len sg) \<le> wnd then Some (ERR_OK, s)
         else do {
           f \<leftarrow> TCPH_FLAGS (st_heap s) (sg_tcphdr sg);
           lwip_assert (f AND TCP_RST = 0);
           if \<not> tcp_do_output_nagle pcb \<and> tp_flags pcb AND (TF_NAGLEMEMERR OR TF_FIN) = 0 then Some (ERR_OK, s)
           else do {
             s \<leftarrow> (if tp_state pcb \<noteq> SYN_SENT then TCPH_SET_FLAG (sg_tcphdr sg) TCP_ACK s else Some s);
             (err, s) \<leftarrow> tcp_output_segment sg a netif s;
             if err \<noteq> ERR_OK then do { s \<leftarrow> upd_tcp_pcb a (tcp_set_flags TF_NAGLEMEMERR) s; Some (err, s) }
             else do { s \<leftarrow> tcp_output_sent a sg rest s; tcp_output_loop a wnd netif s }
           }
         }
       }
   }"

definition tcp_output_done :: "addr \<Rightarrow> stack \<Rightarrow> (err_t \<times> stack) option" where
  "tcp_output_done a s = do { s \<leftarrow> upd_tcp_pcb a (tcp_clear_flags TF_NAGLEMEMERR) s; Some (ERR_OK, s) }"

definition tcp_output :: "addr \<Rightarrow> stack \<Rightarrow> (err_t \<times> stack) option" where
  "tcp_output a s = do {
     pcb \<leftarrow> tcp_pcb_at a s;
     lwip_assert (tp_state pcb \<noteq> LISTEN);
     if tg_input_pcb (st_tcp s) = Some a then Some (ERR_OK, s)
     else do {
       let wnd = min (tp_snd_wnd pcb) (tp_cwnd pcb);
       case tp_unsent pcb of
         [] \<Rightarrow> if tp_flags pcb AND TF_ACK_NOW \<noteq> 0 then tcp_send_empty_ack a s else tcp_output_done a s
       | sg # _ \<Rightarrow> (case tcp_route (Some (tcp_ip_pcb pcb)) (tp_remote_ip pcb) s of
             None \<Rightarrow> Some (ERR_RTE, s)
           | Some netif \<Rightarrow> do {
               let pcb = (if ip4_addr_isany_val (tp_local_ip pcb) then pcb\<lparr>tp_local_ip := nif_ip_addr (netif_at s netif)\<rparr> else pcb);
               sq \<leftarrow> tcph_seqno (st_heap s) (sg_tcphdr sg);
               if sq - tp_lastack pcb + ucast (sg_len sg) > wnd then do {
                 let pcb = (if wnd = tp_snd_wnd pcb \<and> tp_unacked pcb = [] \<and> tp_persist_backoff pcb = 0
                   then pcb\<lparr>tp_persist_cnt := 0, tp_persist_backoff := 1, tp_persist_probe := 0\<rparr> else pcb);
                 let s = put_tcp_pcb a pcb s;
                 if tp_flags pcb AND TF_ACK_NOW \<noteq> 0 then tcp_send_empty_ack a s else tcp_output_done a s
               } else do {
                 let s = put_tcp_pcb a (pcb\<lparr>tp_persist_backoff := 0\<rparr>) s;
                 (err, s) \<leftarrow> tcp_output_loop a wnd netif s;
                 if err \<noteq> ERR_OK then Some (err, s)
                 else do {
                   s \<leftarrow> upd_tcp_pcb a (\<lambda>pcb. if tp_unsent pcb = [] then pcb\<lparr>tp_unsent_oversize := 0\<rparr> else pcb) s;
                   tcp_output_done a s
                 }
               }
             })
     }
   }"

section \<open>Retransmission\<close>

fun segs_busy :: "heap \<Rightarrow> tcp_seg list \<Rightarrow> bool option" where
  "segs_busy h [] = Some False"
| "segs_busy h (sg # sgs) = do { b \<leftarrow> tcp_output_segment_busy h sg; if b then Some True else segs_busy h sgs }"

definition tcp_rexmit_rto_prepare :: "addr \<Rightarrow> stack \<Rightarrow> (err_t \<times> stack) option" where
  "tcp_rexmit_rto_prepare a s = do {
     pcb \<leftarrow> tcp_pcb_at a s;
     if tp_unacked pcb = [] then Some (ERR_VAL, s)
     else do {
       busy \<leftarrow> segs_busy (st_heap s) (tp_unacked pcb);
       if busy then Some (ERR_VAL, s)
       else do {
         let sg = last (tp_unacked pcb);
         sq \<leftarrow> tcph_seqno (st_heap s) (sg_tcphdr sg);
         n \<leftarrow> TCP_TCPLEN (st_heap s) sg;
         Some (ERR_OK, put_tcp_pcb a ((tcp_set_flags TF_RTO (pcb\<lparr>tp_unsent := tp_unacked pcb @ tp_unsent pcb, tp_unacked := []\<rparr>))
           \<lparr>tp_rto_end := sq + n, tp_rttest := 0\<rparr>) s)
       }
     }
   }"

definition tcp_rexmit_rto_commit :: "addr \<Rightarrow> stack \<Rightarrow> stack option" where
  "tcp_rexmit_rto_commit a s = do {
     s \<leftarrow> upd_tcp_pcb a (\<lambda>pcb. if tp_nrtx pcb < 0xFF then pcb\<lparr>tp_nrtx := tp_nrtx pcb + 1\<rparr> else pcb) s;
     (_, s) \<leftarrow> tcp_output a s;
     Some s
   }"

definition tcp_rexmit_rto :: "addr \<Rightarrow> stack \<Rightarrow> stack option" where
  "tcp_rexmit_rto a s = do {
     (e, s) \<leftarrow> tcp_rexmit_rto_prepare a s;
     if e = ERR_OK then tcp_rexmit_rto_commit a s else Some s
   }"

definition tcp_rexmit :: "addr \<Rightarrow> stack \<Rightarrow> (err_t \<times> stack) option" where
  "tcp_rexmit a s = do {
     pcb \<leftarrow> tcp_pcb_at a s;
     case tp_unacked pcb of
       [] \<Rightarrow> Some (ERR_VAL, s)
     | sg # rest \<Rightarrow> do {
         busy \<leftarrow> tcp_output_segment_busy (st_heap s) sg;
         if busy then Some (ERR_VAL, s)
         else do {
           sq \<leftarrow> tcph_seqno (st_heap s) (sg_tcphdr sg);
           unsent \<leftarrow> tcp_seg_insert (st_heap s) sq sg (tp_unsent pcb);
           let pcb = pcb\<lparr>tp_unacked := rest, tp_unsent := unsent\<rparr>;
           let pcb = (if unsent = tp_unsent pcb @ [sg] then pcb\<lparr>tp_unsent_oversize := 0\<rparr> else pcb);
           let pcb = (if tp_nrtx pcb < 0xFF then pcb\<lparr>tp_nrtx := tp_nrtx pcb + 1\<rparr> else pcb);
           Some (ERR_OK, put_tcp_pcb a (pcb\<lparr>tp_rttest := 0\<rparr>) s)
         }
       }
   }"

definition tcp_rexmit_fast :: "addr \<Rightarrow> stack \<Rightarrow> stack option" where
  "tcp_rexmit_fast a s = do {
     pcb \<leftarrow> tcp_pcb_at a s;
     if tp_unacked pcb \<noteq> [] \<and> tp_flags pcb AND TF_INFR = 0 then do {
       (e, s) \<leftarrow> tcp_rexmit a s;
       if e = ERR_OK then upd_tcp_pcb a (\<lambda>pcb.
         let t = min (tp_cwnd pcb) (tp_snd_wnd pcb) div 2;
             t = (if t < 2 * ucast (tp_mss pcb) then 2 * ucast (tp_mss pcb) else t)
         in (tcp_set_flags TF_INFR (pcb\<lparr>tp_ssthresh := t, tp_cwnd := t + 3 * ucast (tp_mss pcb)\<rparr>))\<lparr>tp_rtime := 0\<rparr>) s
       else Some s
     } else Some s
   }"

end
