(* ===== verification/Timeouts.thy ===== *)
theory Timeouts
  imports Stack
begin

text \<open>
  The list of timeouts (\<open>timeouts.c\<close>): one list ordered by the time at which the timeouts are due, where times
  are 32 bit milliseconds that wrap around.  What runs the handlers is in \<open>Tcp_Timer\<close>.  A timeout is
  a value whose allocation may fail, which aborts.
\<close>

definition LWIP_MAX_TIMEOUT :: u32 where "LWIP_MAX_TIMEOUT = 0x7fffffff"
definition SYS_TIMEOUTS_SLEEPTIME_INFINITE :: u32 where "SYS_TIMEOUTS_SLEEPTIME_INFINITE = 0xFFFFFFFF"
definition TCP_TMR_INTERVAL :: u32 where "TCP_TMR_INTERVAL = 250"

definition TIME_LESS_THAN :: "u32 \<Rightarrow> u32 \<Rightarrow> bool" where
  "TIME_LESS_THAN t compare_to \<longleftrightarrow> t - compare_to > LWIP_MAX_TIMEOUT"

definition sys_now :: "stack \<Rightarrow> u32" where "sys_now s = st_now s"

text \<open>The place of a new timeout: behind all that are not due later.\<close>

fun timeout_insert :: "sys_timeo \<Rightarrow> sys_timeo list \<Rightarrow> sys_timeo list" where
  "timeout_insert t [] = [t]"
| "timeout_insert t (x # xs) = (if TIME_LESS_THAN (to_time t) (to_time x) then t # x # xs else x # timeout_insert t xs)"

definition sys_timeout_abs :: "u32 \<Rightarrow> sys_timeout_handler option \<Rightarrow> timeout_arg \<Rightarrow> stack \<Rightarrow> stack option" where
  "sys_timeout_abs abs_time handler arg s = do {
     let (m, h) = mem_malloc (st_heap s);
     lwip_assert (m \<noteq> None);
     let t = \<lparr>to_time = abs_time, to_h = handler, to_arg = arg\<rparr>;
     Some (s\<lparr>st_heap := h, st_next_timeout := timeout_insert t (st_next_timeout s)\<rparr>)
   }"

definition sys_timeout :: "u32 \<Rightarrow> sys_timeout_handler option \<Rightarrow> timeout_arg \<Rightarrow> stack \<Rightarrow> stack option" where
  "sys_timeout msecs handler arg s = do {
     lwip_assert (msecs \<le> 0xFFFFFFFF div 4);
     sys_timeout_abs (sys_now s + msecs) handler arg s
   }"

fun timeout_remove :: "sys_timeout_handler option \<Rightarrow> timeout_arg \<Rightarrow> sys_timeo list \<Rightarrow> sys_timeo list" where
  "timeout_remove h arg [] = []"
| "timeout_remove h arg (t # ts) = (if to_h t = h \<and> to_arg t = arg then ts else t # timeout_remove h arg ts)"

definition sys_untimeout :: "sys_timeout_handler option \<Rightarrow> timeout_arg \<Rightarrow> stack \<Rightarrow> stack" where
  "sys_untimeout handler arg s = s\<lparr>st_next_timeout := timeout_remove handler arg (st_next_timeout s)\<rparr>"

definition sys_restart_timeouts :: "stack \<Rightarrow> stack" where
  "sys_restart_timeouts s = (case st_next_timeout s of
      [] \<Rightarrow> s
    | t # _ \<Rightarrow> (let base = to_time t in
        s\<lparr>st_next_timeout := map (\<lambda>t. t\<lparr>to_time := (to_time t - base) + sys_now s\<rparr>) (st_next_timeout s)\<rparr>))"

definition sys_timeouts_sleeptime :: "stack \<Rightarrow> u32 option" where
  "sys_timeouts_sleeptime s = (case st_next_timeout s of
      [] \<Rightarrow> Some SYS_TIMEOUTS_SLEEPTIME_INFINITE
    | t # _ \<Rightarrow>
        if TIME_LESS_THAN (to_time t) (sys_now s) then Some 0
        else do { let ret = to_time t - sys_now s; lwip_assert (ret \<le> LWIP_MAX_TIMEOUT); Some ret })"

definition tcp_timer_needed :: "stack \<Rightarrow> stack option" where
  "tcp_timer_needed s =
     (if \<not> st_tcp_timer_active s \<and> (tg_active (st_tcp s) \<noteq> [] \<or> tg_tw (st_tcp s) \<noteq> [])
      then sys_timeout TCP_TMR_INTERVAL (Some fn_tcpip_tcp_timer) arg_null (s\<lparr>st_tcp_timer_active := True\<rparr>)
      else Some s)"

end
