(* ===== verification/Tcp.thy ===== *)
theory Tcp
  imports Tcp_Out Timeouts
begin

text \<open>
  The control blocks of TCP (\<open>tcp.c\<close>): the four lists, binding, listening, connecting, closing, aborting,
  the windows of the receiver, allocation with the eviction of old connections, and the timers.

  The callbacks of the connections are the functions of \<open>api_msg.c\<close> that the program installs; they are the
  fields of the record \<open>tcp_callbacks\<close>, an argument of every operation that can call one.
  \<open>tcp_recv_null\<close> and \<open>tcp_accept_null\<close> are defined here.
\<close>

record tcp_callbacks =
  cb_accept_function :: "addr option \<Rightarrow> addr option \<Rightarrow> err_t \<Rightarrow> stack \<Rightarrow> (err_t \<times> stack) option"
  cb_recv_tcp :: "addr option \<Rightarrow> addr \<Rightarrow> addr option \<Rightarrow> err_t \<Rightarrow> stack \<Rightarrow> (err_t \<times> stack) option"
  cb_sent_tcp :: "addr option \<Rightarrow> addr \<Rightarrow> u16 \<Rightarrow> stack \<Rightarrow> (err_t \<times> stack) option"
  cb_do_connected :: "addr option \<Rightarrow> addr \<Rightarrow> err_t \<Rightarrow> stack \<Rightarrow> (err_t \<times> stack) option"
  cb_poll_tcp :: "addr option \<Rightarrow> addr \<Rightarrow> stack \<Rightarrow> (err_t \<times> stack) option"
  cb_err_tcp :: "addr option \<Rightarrow> err_t \<Rightarrow> stack \<Rightarrow> stack option"

section \<open>The lists of control blocks\<close>

datatype tcp_list = L_listen | L_bound | L_active | L_tw

fun tcp_pcb_list :: "tcp_list \<Rightarrow> stack \<Rightarrow> addr list" where
  "tcp_pcb_list L_listen s = tg_listen (st_tcp s)"
| "tcp_pcb_list L_bound s = tg_bound (st_tcp s)"
| "tcp_pcb_list L_active s = tg_active (st_tcp s)"
| "tcp_pcb_list L_tw s = tg_tw (st_tcp s)"

fun set_tcp_list :: "tcp_list \<Rightarrow> addr list \<Rightarrow> stack \<Rightarrow> stack" where
  "set_tcp_list L_listen l s = s\<lparr>st_tcp := (st_tcp s)\<lparr>tg_listen := l\<rparr>\<rparr>"
| "set_tcp_list L_bound l s = s\<lparr>st_tcp := (st_tcp s)\<lparr>tg_bound := l\<rparr>\<rparr>"
| "set_tcp_list L_active l s = s\<lparr>st_tcp := (st_tcp s)\<lparr>tg_active := l\<rparr>\<rparr>"
| "set_tcp_list L_tw l s = s\<lparr>st_tcp := (st_tcp s)\<lparr>tg_tw := l\<rparr>\<rparr>"

definition tcp_active_changed :: "bool \<Rightarrow> stack \<Rightarrow> stack" where
  "tcp_active_changed b s = s\<lparr>st_tcp := (st_tcp s)\<lparr>tg_active_changed := b\<rparr>\<rparr>"

definition TCP_REG :: "tcp_list \<Rightarrow> addr \<Rightarrow> stack \<Rightarrow> stack option" where
  "TCP_REG l a s = tcp_timer_needed (set_tcp_list l (a # tcp_pcb_list l s) s)"

text \<open>
  Every control block has one pointer \<open>next\<close>.  A control block that is not in the list keeps the list as it
  is, but its pointer is cleared all the same, which would cut another list off behind it.
\<close>

definition cut_behind :: "addr \<Rightarrow> addr list \<Rightarrow> addr list" where
  "cut_behind a l = (if a \<in> set l then takeWhile (\<lambda>x. x \<noteq> a) l @ [a] else l)"

definition TCP_RMV :: "tcp_list \<Rightarrow> addr \<Rightarrow> stack \<Rightarrow> stack" where
  "TCP_RMV l a s =
     (if a \<in> set (tcp_pcb_list l s) then set_tcp_list l (remove1 a (tcp_pcb_list l s)) s
      else s\<lparr>st_tcp := (st_tcp s)\<lparr>tg_listen := cut_behind a (tg_listen (st_tcp s)), tg_bound := cut_behind a (tg_bound (st_tcp s)),
        tg_active := cut_behind a (tg_active (st_tcp s)), tg_tw := cut_behind a (tg_tw (st_tcp s))\<rparr>\<rparr>)"

definition TCP_REG_ACTIVE :: "addr \<Rightarrow> stack \<Rightarrow> stack option" where
  "TCP_REG_ACTIVE a s = do { s \<leftarrow> TCP_REG L_active a s; Some (tcp_active_changed True s) }"

definition TCP_RMV_ACTIVE :: "addr \<Rightarrow> stack \<Rightarrow> stack" where
  "TCP_RMV_ACTIVE a s = tcp_active_changed True (TCP_RMV L_active a s)"

text \<open>\<open>pcb->next\<close>; a control block that is in no list any more has no value.\<close>

fun list_next :: "addr \<Rightarrow> addr list \<Rightarrow> addr option" where
  "list_next a [] = None"
| "list_next a (x # xs) = (if x = a then (case xs of [] \<Rightarrow> None | y # _ \<Rightarrow> Some y) else list_next a xs)"

definition tcp_next :: "tcp_list \<Rightarrow> addr \<Rightarrow> stack \<Rightarrow> addr option option" where
  "tcp_next l a s = do { lwip_assert (a \<in> set (tcp_pcb_list l s)); Some (list_next a (tcp_pcb_list l s)) }"

definition tcp_lpcb_at :: "addr \<Rightarrow> stack \<Rightarrow> tcp_pcb_listen option" where
  "tcp_lpcb_at a s = tg_lpcbs (st_tcp s) a"

definition put_tcp_lpcb :: "addr \<Rightarrow> tcp_pcb_listen \<Rightarrow> stack \<Rightarrow> stack" where
  "put_tcp_lpcb a lpcb s = s\<lparr>st_tcp := (st_tcp s)\<lparr>tg_lpcbs := (tg_lpcbs (st_tcp s))(a \<mapsto> lpcb)\<rparr>\<rparr>"

text \<open>\<open>pcb->state\<close> and \<open>pcb->local_port\<close> of a pointer that may be to either kind of control block.\<close>

definition tcp_state_at :: "addr \<Rightarrow> stack \<Rightarrow> tcp_state option" where
  "tcp_state_at a s = (case tcp_lpcb_at a s of Some _ \<Rightarrow> Some LISTEN | None \<Rightarrow> map_option tp_state (tcp_pcb_at a s))"

definition tcp_local_at :: "addr \<Rightarrow> stack \<Rightarrow> (ip4_addr_t \<times> u16) option" where
  "tcp_local_at a s = (case tcp_lpcb_at a s of
      Some l \<Rightarrow> Some (lp_local_ip l, lp_local_port l)
    | None \<Rightarrow> map_option (\<lambda>p. (tp_local_ip p, tp_local_port p)) (tcp_pcb_at a s))"

section \<open>Releasing\<close>

definition tcp_free :: "addr \<Rightarrow> stack \<Rightarrow> stack option" where
  "tcp_free a s = do {
     pcb \<leftarrow> tcp_pcb_at a s;
     lwip_assert (tp_state pcb \<noteq> LISTEN);
     Some (s\<lparr>st_tcp := (st_tcp s)\<lparr>tg_pcbs := (tg_pcbs (st_tcp s))(a := None)\<rparr>\<rparr>)
   }"

definition tcp_free_listen :: "addr \<Rightarrow> stack \<Rightarrow> stack option" where
  "tcp_free_listen a s = do {
     _ \<leftarrow> tcp_lpcb_at a s;
     Some (s\<lparr>st_tcp := (st_tcp s)\<lparr>tg_lpcbs := (tg_lpcbs (st_tcp s))(a := None)\<rparr>\<rparr>)
   }"

definition tcp_backlog_delayed :: "addr \<Rightarrow> stack \<Rightarrow> stack option" where
  "tcp_backlog_delayed a s = do {
     pcb \<leftarrow> tcp_pcb_at a s;
     if tp_flags pcb AND TF_BACKLOGPEND = 0 then (case tp_listener pcb of
         None \<Rightarrow> Some s
       | Some l \<Rightarrow> do {
           lpcb \<leftarrow> tcp_lpcb_at l s;
           lwip_assert (lp_accepts_pending lpcb + 1 \<noteq> 0);
           upd_tcp_pcb a (tcp_set_flags TF_BACKLOGPEND) (put_tcp_lpcb l (lpcb\<lparr>lp_accepts_pending := lp_accepts_pending lpcb + 1\<rparr>) s)
         })
     else Some s
   }"

definition tcp_backlog_accepted :: "addr \<Rightarrow> stack \<Rightarrow> stack option" where
  "tcp_backlog_accepted a s = do {
     pcb \<leftarrow> tcp_pcb_at a s;
     if tp_flags pcb AND TF_BACKLOGPEND \<noteq> 0 then (case tp_listener pcb of
         None \<Rightarrow> Some s
       | Some l \<Rightarrow> do {
           lpcb \<leftarrow> tcp_lpcb_at l s;
           lwip_assert (lp_accepts_pending lpcb \<noteq> 0);
           upd_tcp_pcb a (tcp_clear_flags TF_BACKLOGPEND) (put_tcp_lpcb l (lpcb\<lparr>lp_accepts_pending := lp_accepts_pending lpcb - 1\<rparr>) s)
         })
     else Some s
   }"

fun tcp_remove_listener :: "addr list \<Rightarrow> addr \<Rightarrow> stack \<Rightarrow> stack option" where
  "tcp_remove_listener [] lpcb s = Some s"
| "tcp_remove_listener (a # as) lpcb s = do {
     pcb \<leftarrow> tcp_pcb_at a s;
     tcp_remove_listener as lpcb (if tp_listener pcb = Some lpcb then put_tcp_pcb a (pcb\<lparr>tp_listener := None\<rparr>) s else s)
   }"

definition tcp_listen_closed :: "addr \<Rightarrow> stack \<Rightarrow> stack option" where
  "tcp_listen_closed a s = do {
     st \<leftarrow> tcp_state_at a s;
     lwip_assert (st = LISTEN);
     s \<leftarrow> tcp_remove_listener (tcp_pcb_list L_bound s) a s;
     s \<leftarrow> tcp_remove_listener (tcp_pcb_list L_active s) a s;
     tcp_remove_listener (tcp_pcb_list L_tw s) a s
   }"

definition no_sacks :: "(u32 \<times> u32) list" where
  "no_sacks = replicate LWIP_TCP_MAX_SACK_NUM (0, 0)"

definition tcp_free_ooseq :: "addr \<Rightarrow> stack \<Rightarrow> stack option" where
  "tcp_free_ooseq a s = do {
     pcb \<leftarrow> tcp_pcb_at a s;
     if tp_ooseq pcb \<noteq> [] then do {
       s \<leftarrow> tcp_segs_free (tp_ooseq pcb) s;
       Some (put_tcp_pcb a (pcb\<lparr>tp_ooseq := [], tp_rcv_sacks := no_sacks\<rparr>) s)
     } else Some s
   }"

definition tcp_pcb_purge :: "addr \<Rightarrow> stack \<Rightarrow> stack option" where
  "tcp_pcb_purge a s = do {
     pcb \<leftarrow> tcp_pcb_at a s;
     if tp_state pcb \<notin> {CLOSED, TIME_WAIT, LISTEN} then do {
       s \<leftarrow> tcp_backlog_accepted a s;
       s \<leftarrow> (if tp_refused_data pcb \<noteq> None then do {
              s \<leftarrow> st_pbuf_free (tp_refused_data pcb) s;
              upd_tcp_pcb a (\<lambda>pcb. pcb\<lparr>tp_refused_data := None\<rparr>) s
            } else Some s);
       s \<leftarrow> tcp_free_ooseq a s;
       s \<leftarrow> upd_tcp_pcb a (\<lambda>pcb. pcb\<lparr>tp_rtime := - 1\<rparr>) s;
       s \<leftarrow> tcp_segs_free (tp_unsent pcb) s;
       s \<leftarrow> tcp_segs_free (tp_unacked pcb) s;
       upd_tcp_pcb a (\<lambda>pcb. pcb\<lparr>tp_unacked := [], tp_unsent := [], tp_unsent_oversize := 0\<rparr>) s
     } else Some s
   }"

definition tcp_pcb_remove :: "tcp_list \<Rightarrow> addr \<Rightarrow> stack \<Rightarrow> stack option" where
  "tcp_pcb_remove l a s = do {
     let s = TCP_RMV l a s;
     s \<leftarrow> tcp_pcb_purge a s;
     pcb \<leftarrow> tcp_pcb_at a s;
     s \<leftarrow> (if tp_state pcb \<noteq> TIME_WAIT \<and> tp_state pcb \<noteq> LISTEN \<and> tp_flags pcb AND TF_ACK_DELAY \<noteq> 0 then do {
            s \<leftarrow> upd_tcp_pcb a tcp_ack_now s;
            (_, s) \<leftarrow> tcp_output a s;
            Some s
          } else Some s);
     pcb \<leftarrow> tcp_pcb_at a s;
     lwip_assert (tp_unsent pcb = [] \<and> tp_unacked pcb = [] \<and> tp_ooseq pcb = []);
     Some (put_tcp_pcb a (pcb\<lparr>tp_state := CLOSED, tp_local_port := 0\<rparr>) s)
   }"

definition TCP_PCB_REMOVE_ACTIVE :: "addr \<Rightarrow> stack \<Rightarrow> stack option" where
  "TCP_PCB_REMOVE_ACTIVE a s = do { s \<leftarrow> tcp_pcb_remove L_active a s; Some (tcp_active_changed True s) }"

section \<open>Closing\<close>

definition tcp_trigger_input_pcb_close :: "stack \<Rightarrow> stack" where
  "tcp_trigger_input_pcb_close s = s\<lparr>st_tcp_in := (st_tcp_in s)\<lparr>ti_recv_flags := ti_recv_flags (st_tcp_in s) OR TF_CLOSED\<rparr>\<rparr>"

definition tcp_close_shutdown_fin :: "addr \<Rightarrow> stack \<Rightarrow> (err_t \<times> stack) option" where
  "tcp_close_shutdown_fin a s = do {
     pcb \<leftarrow> tcp_pcb_at a s;
     if tp_state pcb \<notin> {SYN_RCVD, ESTABLISHED, CLOSE_WAIT} then Some (ERR_OK, s)
     else do {
       (err, s) \<leftarrow> tcp_send_fin a s;
       if err = ERR_OK then do {
         s \<leftarrow> (if tp_state pcb = SYN_RCVD then tcp_backlog_accepted a s else Some s);
         s \<leftarrow> upd_tcp_pcb a (\<lambda>p. p\<lparr>tp_state := (if tp_state pcb = CLOSE_WAIT then LAST_ACK else FIN_WAIT_1)\<rparr>) s;
         (_, s) \<leftarrow> tcp_output a s;
         Some (ERR_OK, s)
       } else if err = ERR_MEM then do {
         s \<leftarrow> upd_tcp_pcb a (tcp_set_flags TF_CLOSEPEND) s;
         Some (ERR_OK, s)
       } else Some (err, s)
     }
   }"

definition tcp_close_listen :: "addr \<Rightarrow> stack \<Rightarrow> stack option" where
  "tcp_close_listen a s = do {
     s \<leftarrow> tcp_listen_closed a s;
     let s = TCP_RMV L_listen a s;
     tcp_free_listen a s
   }"

definition tcp_close_shutdown :: "addr \<Rightarrow> bool \<Rightarrow> stack \<Rightarrow> (err_t \<times> stack) option" where
  "tcp_close_shutdown a rst_on_unacked_data s = (case tcp_lpcb_at a s of
      Some _ \<Rightarrow> do { s \<leftarrow> tcp_close_listen a s; Some (ERR_OK, s) }
    | None \<Rightarrow> do {
        pcb \<leftarrow> tcp_pcb_at a s;
        if rst_on_unacked_data \<and> tp_state pcb \<in> {ESTABLISHED, CLOSE_WAIT}
          \<and> (tp_refused_data pcb \<noteq> None \<or> tp_rcv_wnd pcb \<noteq> TCP_WND_MAX pcb) then do {
          lwip_assert (tp_flags pcb AND TF_RXCLOSED \<noteq> 0);
          s \<leftarrow> tcp_rst (Some (tcp_ip_pcb pcb)) (tp_snd_nxt pcb) (tp_rcv_nxt pcb) (tp_local_ip pcb) (tp_remote_ip pcb)
                 (tp_local_port pcb) (tp_remote_port pcb) s;
          s \<leftarrow> tcp_pcb_purge a s;
          let s = TCP_RMV_ACTIVE a s;
          s \<leftarrow> (if tg_input_pcb (st_tcp s) = Some a then Some (tcp_trigger_input_pcb_close s) else tcp_free a s);
          Some (ERR_OK, s)
        } else (case tp_state pcb of
            CLOSED \<Rightarrow> do {
              s \<leftarrow> (if tp_local_port pcb \<noteq> 0 then Some (TCP_RMV L_bound a s) else Some s);
              s \<leftarrow> tcp_free a s;
              Some (ERR_OK, s)
            }
          | SYN_SENT \<Rightarrow> do {
              s \<leftarrow> TCP_PCB_REMOVE_ACTIVE a s;
              s \<leftarrow> tcp_free a s;
              Some (ERR_OK, s)
            }
          | _ \<Rightarrow> tcp_close_shutdown_fin a s)
      })"

definition tcp_close :: "addr option \<Rightarrow> stack \<Rightarrow> (err_t \<times> stack) option" where
  "tcp_close pcb s = do {
     a \<leftarrow> pcb;
     s \<leftarrow> (if tcp_lpcb_at a s = None then upd_tcp_pcb a (tcp_set_flags TF_RXCLOSED) s else Some s);
     tcp_close_shutdown a True s
   }"

definition tcp_shutdown :: "addr option \<Rightarrow> bool \<Rightarrow> bool \<Rightarrow> stack \<Rightarrow> (err_t \<times> stack) option" where
  "tcp_shutdown pcb shut_rx shut_tx s = do {
     a \<leftarrow> pcb;
     if tcp_lpcb_at a s \<noteq> None then Some (ERR_CONN, s)
     else if shut_rx \<and> shut_tx then do {
       s \<leftarrow> upd_tcp_pcb a (tcp_set_flags TF_RXCLOSED) s;
       tcp_close_shutdown a True s
     } else do {
       s \<leftarrow> (if shut_rx then do {
           s \<leftarrow> upd_tcp_pcb a (tcp_set_flags TF_RXCLOSED) s;
           p \<leftarrow> tcp_pcb_at a s;
           if tp_refused_data p \<noteq> None then do {
             s \<leftarrow> st_pbuf_free (tp_refused_data p) s;
             upd_tcp_pcb a (\<lambda>p. p\<lparr>tp_refused_data := None\<rparr>) s
           } else Some s
         } else Some s);
       if shut_tx then do {
         p \<leftarrow> tcp_pcb_at a s;
         if tp_state p \<in> {SYN_RCVD, ESTABLISHED, CLOSE_WAIT} then tcp_close_shutdown a shut_rx s else Some (ERR_CONN, s)
       } else Some (ERR_OK, s)
     }
   }"

text \<open>\<open>TCP_EVENT_ERR\<close>\<close>

definition TCP_EVENT_ERR :: "tcp_callbacks \<Rightarrow> tcp_err_fn option \<Rightarrow> addr option \<Rightarrow> err_t \<Rightarrow> stack \<Rightarrow> stack option" where
  "TCP_EVENT_ERR cb errf arg err s = (case errf of None \<Rightarrow> Some s | Some fn_err_tcp \<Rightarrow> cb_err_tcp cb arg err s)"

definition tcp_abandon :: "tcp_callbacks \<Rightarrow> addr option \<Rightarrow> bool \<Rightarrow> stack \<Rightarrow> stack option" where
  "tcp_abandon cb pcb reset s = do {
     a \<leftarrow> pcb;
     lwip_assert (tcp_lpcb_at a s = None);
     p \<leftarrow> tcp_pcb_at a s;
     if tp_state p = TIME_WAIT then do {
       s \<leftarrow> tcp_pcb_remove L_tw a s;
       tcp_free a s
     } else do {
       let (send_rst, local_port) = (if tp_state p = CLOSED then (False, 0) else (reset, tp_local_port p));
       s \<leftarrow> (if tp_state p = CLOSED then (if tp_local_port p \<noteq> 0 then Some (TCP_RMV L_bound a s) else Some s)
            else TCP_PCB_REMOVE_ACTIVE a s);
       q \<leftarrow> tcp_pcb_at a s;
       s \<leftarrow> tcp_segs_free (tp_unacked q) s;
       s \<leftarrow> tcp_segs_free (tp_unsent q) s;
       s \<leftarrow> tcp_segs_free (tp_ooseq q) s;
       s \<leftarrow> tcp_backlog_accepted a s;
       s \<leftarrow> (if send_rst then tcp_rst (Some (tcp_ip_pcb q)) (tp_snd_nxt p) (tp_rcv_nxt p) (tp_local_ip q) (tp_remote_ip q)
                local_port (tp_remote_port q) s else Some s);
       s \<leftarrow> tcp_free a s;
       TCP_EVENT_ERR cb (tp_errf p) (tp_callback_arg p) ERR_ABRT s
     }
   }"

definition tcp_abort :: "tcp_callbacks \<Rightarrow> addr option \<Rightarrow> stack \<Rightarrow> stack option" where
  "tcp_abort cb pcb s = tcp_abandon cb pcb True s"

section \<open>Binding and listening\<close>

definition tcp_lists :: "stack \<Rightarrow> addr list" where
  "tcp_lists s = tcp_pcb_list L_listen s @ tcp_pcb_list L_bound s @ tcp_pcb_list L_active s @ tcp_pcb_list L_tw s"

text \<open>Does a control block of the lists use the port?\<close>

fun tcp_port_taken :: "u16 \<Rightarrow> addr list \<Rightarrow> stack \<Rightarrow> bool option" where
  "tcp_port_taken port [] s = Some False"
| "tcp_port_taken port (a # as) s = do {
     (_, lport) \<leftarrow> tcp_local_at a s;
     if lport = port then Some True else tcp_port_taken port as s
   }"

text \<open>\<open>n\<close> counts the collisions.\<close>

function tcp_new_port_loop :: "nat \<Rightarrow> u16 \<Rightarrow> stack \<Rightarrow> (u16 \<times> u16) option" where
  "tcp_new_port_loop n port s = do {
     let port = port + 1;
     let port = (if port = 0xFFFF then 0xC000 else port);
     taken \<leftarrow> tcp_port_taken port (tcp_lists s) s;
     if \<not> taken then Some (port, port)
     else if n + 1 > 0x3FFF then Some (0, port)
     else tcp_new_port_loop (n + 1) port s
   }"
  by pat_completeness auto
termination by (relation "measure (\<lambda>(n, _). 0x4000 - n)") auto

declare tcp_new_port_loop.simps [simp del]

definition tcp_new_port :: "stack \<Rightarrow> (u16 \<times> stack) option" where
  "tcp_new_port s = do {
     (r, port) \<leftarrow> tcp_new_port_loop 0 (tg_port (st_tcp s)) s;
     Some (r, s\<lparr>st_tcp := (st_tcp s)\<lparr>tg_port := port\<rparr>\<rparr>)
   }"

fun tcp_bind_clash :: "ip4_addr_t \<Rightarrow> u16 \<Rightarrow> addr list \<Rightarrow> stack \<Rightarrow> bool option" where
  "tcp_bind_clash ipaddr port [] s = Some False"
| "tcp_bind_clash ipaddr port (a # as) s = do {
     (ip, lport) \<leftarrow> tcp_local_at a s;
     if lport = port \<and> (ip4_addr_isany_val ip \<or> ip4_addr_isany_val ipaddr \<or> ip = ipaddr) then Some True
     else tcp_bind_clash ipaddr port as s
   }"

definition tcp_bind :: "addr option \<Rightarrow> ip4_addr_t option \<Rightarrow> u16 \<Rightarrow> stack \<Rightarrow> (err_t \<times> stack) option" where
  "tcp_bind pcb ipaddr port s = do {
     let ipaddr = (case ipaddr of None \<Rightarrow> IPADDR_ANY | Some i \<Rightarrow> i);
     a \<leftarrow> pcb;
     st \<leftarrow> tcp_state_at a s;
     lwip_assert (st = CLOSED);
     (err, port, s) \<leftarrow> (if port = 0 then do {
         (port, s) \<leftarrow> tcp_new_port s;
         Some (if port = 0 then ERR_BUF else ERR_OK, port, s)
       } else do {
         clash \<leftarrow> tcp_bind_clash ipaddr port (tcp_lists s) s;
         Some (if clash then ERR_USE else ERR_OK, port, s)
       });
     if err \<noteq> ERR_OK then Some (err, s)
     else do {
       s \<leftarrow> upd_tcp_pcb a (\<lambda>p. (if ip4_addr_isany_val ipaddr then p else p\<lparr>tp_local_ip := ipaddr\<rparr>)\<lparr>tp_local_port := port\<rparr>) s;
       s \<leftarrow> TCP_REG L_bound a s;
       Some (ERR_OK, s)
     }
   }"

definition tcp_bind_netif :: "addr \<Rightarrow> netif_ptr option \<Rightarrow> stack \<Rightarrow> stack option" where
  "tcp_bind_netif a netif s =
     (let idx = (case netif of Some n \<Rightarrow> netif_get_index (netif_at s n) | None \<Rightarrow> NETIF_NO_INDEX) in
      case tcp_lpcb_at a s of
        Some l \<Rightarrow> Some (put_tcp_lpcb a (l\<lparr>lp_netif_idx := idx\<rparr>) s)
      | None \<Rightarrow> upd_tcp_pcb a (\<lambda>p. p\<lparr>tp_netif_idx := idx\<rparr>) s)"

definition tcp_accept_null :: "tcp_callbacks \<Rightarrow> addr option \<Rightarrow> stack \<Rightarrow> (err_t \<times> stack) option" where
  "tcp_accept_null cb pcb s = do { s \<leftarrow> tcp_abort cb pcb s; Some (ERR_ABRT, s) }"

definition tcp_listen_with_backlog_and_err :: "addr option \<Rightarrow> u8 \<Rightarrow> stack \<Rightarrow> (addr option \<times> err_t \<times> stack) option" where
  "tcp_listen_with_backlog_and_err pcb backlog s = do {
     a \<leftarrow> pcb;
     st \<leftarrow> tcp_state_at a s;
     lwip_assert (st = CLOSED);
     p \<leftarrow> tcp_pcb_at a s;
     let (m, h) = mem_malloc (st_heap s);
     let s = s\<lparr>st_heap := h\<rparr>;
     case m of
       None \<Rightarrow> Some (None, ERR_MEM, s)
     | Some l \<Rightarrow> do {
         let lpcb = \<lparr>lp_local_ip = tp_local_ip p, lp_netif_idx = NETIF_NO_INDEX, lp_so_options = tp_so_options p, lp_tos = tp_tos p,
           lp_ttl = tp_ttl p, lp_callback_arg = tp_callback_arg p, lp_prio = tp_prio p, lp_local_port = tp_local_port p,
           lp_accept = Some fn_tcp_accept_null, lp_backlog = (if backlog \<noteq> 0 then backlog else 1), lp_accepts_pending = 0\<rparr>;
         s \<leftarrow> (if tp_local_port p \<noteq> 0 then Some (TCP_RMV L_bound a s) else Some s);
         s \<leftarrow> tcp_free a s;
         s \<leftarrow> TCP_REG L_listen l (put_tcp_lpcb l lpcb s);
         Some (Some l, ERR_OK, s)
       }
   }"

definition tcp_listen_with_backlog :: "addr option \<Rightarrow> u8 \<Rightarrow> stack \<Rightarrow> (addr option \<times> stack) option" where
  "tcp_listen_with_backlog pcb backlog s = map_option (\<lambda>(l, _, s). (l, s)) (tcp_listen_with_backlog_and_err pcb backlog s)"

section \<open>The window of the receiver\<close>

definition tcp_update_rcv_ann_wnd :: "tcp_pcb \<Rightarrow> u32 \<times> tcp_pcb" where
  "tcp_update_rcv_ann_wnd pcb =
     (let new_right_edge = tp_rcv_nxt pcb + tp_rcv_wnd pcb in
      if TCP_SEQ_GEQ new_right_edge (tp_rcv_ann_right_edge pcb + min (TCP_WND div 2) (ucast (tp_mss pcb)))
      then (new_right_edge - tp_rcv_ann_right_edge pcb, pcb\<lparr>tp_rcv_ann_wnd := tp_rcv_wnd pcb\<rparr>)
      else if TCP_SEQ_GT (tp_rcv_nxt pcb) (tp_rcv_ann_right_edge pcb) then (0, pcb\<lparr>tp_rcv_ann_wnd := 0\<rparr>)
      else (0, pcb\<lparr>tp_rcv_ann_wnd := tp_rcv_ann_right_edge pcb - tp_rcv_nxt pcb\<rparr>))"

definition tcp_recved :: "addr option \<Rightarrow> u16 \<Rightarrow> stack \<Rightarrow> stack option" where
  "tcp_recved pcb len s = do {
     a \<leftarrow> pcb;
     lwip_assert (tcp_lpcb_at a s = None);
     p \<leftarrow> tcp_pcb_at a s;
     let rcv_wnd = tp_rcv_wnd p + ucast len;
     let p = p\<lparr>tp_rcv_wnd := (if rcv_wnd > TCP_WND_MAX p \<or> rcv_wnd < tp_rcv_wnd p then TCP_WND_MAX p else rcv_wnd)\<rparr>;
     let (wnd_inflation, p) = tcp_update_rcv_ann_wnd p;
     if wnd_inflation \<ge> TCP_WND_UPDATE_THRESHOLD then do {
       (_, s) \<leftarrow> tcp_output a (put_tcp_pcb a (tcp_ack_now p) s);
       Some s
     } else Some (put_tcp_pcb a p s)
   }"

text \<open>\<open>iss\<close> advances by the number of ticks.\<close>

definition tcp_next_iss :: "stack \<Rightarrow> u32 \<times> stack" where
  "tcp_next_iss s = (let iss = tg_iss (st_tcp s) + tg_ticks (st_tcp s) in (iss, s\<lparr>st_tcp := (st_tcp s)\<lparr>tg_iss := iss\<rparr>\<rparr>))"

section \<open>Connecting\<close>

definition tcp_connect :: "addr option \<Rightarrow> ip4_addr_t option \<Rightarrow> u16 \<Rightarrow> tcp_connected_fn option \<Rightarrow> stack \<Rightarrow> (err_t \<times> stack) option" where
  "tcp_connect pcb ipaddr port connected s = do {
     a \<leftarrow> pcb;
     ipaddr \<leftarrow> ipaddr;
     st \<leftarrow> tcp_state_at a s;
     lwip_assert (st = CLOSED);
     s \<leftarrow> upd_tcp_pcb a (\<lambda>p. p\<lparr>tp_remote_ip := ipaddr, tp_remote_port := port\<rparr>) s;
     p \<leftarrow> tcp_pcb_at a s;
     case (if tp_netif_idx p \<noteq> NETIF_NO_INDEX then netif_get_by_index (tp_netif_idx p) s else ip4_route (tp_remote_ip p) s) of
       None \<Rightarrow> Some (ERR_RTE, s)
     | Some netif \<Rightarrow> do {
         let p = (if ip4_addr_isany_val (tp_local_ip p) then p\<lparr>tp_local_ip := nif_ip_addr (netif_at s netif)\<rparr> else p);
         let old_local_port = tp_local_port p;
         (lport, s) \<leftarrow> (if old_local_port = 0 then tcp_new_port (put_tcp_pcb a p s) else Some (old_local_port, s));
         let p = p\<lparr>tp_local_port := lport\<rparr>;
         if lport = 0 then Some (ERR_BUF, put_tcp_pcb a p s)
         else do {
           let (iss, s) = tcp_next_iss s;
           let p = p\<lparr>tp_rcv_nxt := 0, tp_snd_nxt := iss, tp_lastack := iss - 1, tp_snd_wl2 := iss - 1, tp_snd_lbb := iss - 1,
             tp_rcv_wnd := ucast (TCPWND_MIN16 TCP_WND), tp_rcv_ann_wnd := ucast (TCPWND_MIN16 TCP_WND), tp_rcv_ann_right_edge := 0,
             tp_snd_wnd := TCP_WND, tp_mss := tcp_eff_send_mss_netif INITIAL_MSS (Some netif) s, tp_cwnd := 1, tp_connected := connected\<rparr>;
           (ret, s) \<leftarrow> tcp_enqueue_flags a TCP_SYN (put_tcp_pcb a p s);
           if ret = ERR_OK then do {
             s \<leftarrow> upd_tcp_pcb a (\<lambda>p. p\<lparr>tp_state := SYN_SENT\<rparr>) s;
             s \<leftarrow> (if old_local_port \<noteq> 0 then Some (TCP_RMV L_bound a s) else Some s);
             s \<leftarrow> TCP_REG_ACTIVE a s;
             (_, s) \<leftarrow> tcp_output a s;
             Some (ret, s)
           } else Some (ret, s)
         }
       }
   }"

section \<open>Allocation\<close>

text \<open>The control block of the lowest priority below the given one, of several the one that was idle for longest.\<close>

fun tcp_kill_prio_find :: "addr list \<Rightarrow> u8 \<Rightarrow> u32 \<Rightarrow> addr option \<Rightarrow> stack \<Rightarrow> addr option option" where
  "tcp_kill_prio_find [] mprio inactivity inactive s = Some inactive"
| "tcp_kill_prio_find (a # as) mprio inactivity inactive s = do {
     p \<leftarrow> tcp_pcb_at a s;
     let idle = tg_ticks (st_tcp s) - tp_tmr p;
     if tp_prio p < mprio \<or> (tp_prio p = mprio \<and> idle \<ge> inactivity)
     then tcp_kill_prio_find as (tp_prio p) idle (Some a) s
     else tcp_kill_prio_find as mprio inactivity inactive s
   }"

definition TCP_PRIO_MAX :: u8 where "TCP_PRIO_MAX = 127"
definition TCP_PRIO_NORMAL :: u8 where "TCP_PRIO_NORMAL = 64"

definition tcp_kill_prio :: "tcp_callbacks \<Rightarrow> u8 \<Rightarrow> stack \<Rightarrow> stack option" where
  "tcp_kill_prio cb prio s = do {
     let mprio = min TCP_PRIO_MAX prio;
     if mprio = 0 then Some s
     else do {
       inactive \<leftarrow> tcp_kill_prio_find (tcp_pcb_list L_active s) (mprio - 1) 0 None s;
       if inactive \<noteq> None then tcp_abort cb inactive s else Some s
     }
   }"

text \<open>The control block of the list that was idle for longest, of those in the given state, if one is given.\<close>

fun tcp_kill_find :: "tcp_state option \<Rightarrow> addr list \<Rightarrow> u32 \<Rightarrow> addr option \<Rightarrow> stack \<Rightarrow> addr option option" where
  "tcp_kill_find st [] inactivity inactive s = Some inactive"
| "tcp_kill_find st (a # as) inactivity inactive s = do {
     p \<leftarrow> tcp_pcb_at a s;
     let idle = tg_ticks (st_tcp s) - tp_tmr p;
     if (st = None \<or> st = Some (tp_state p)) \<and> idle \<ge> inactivity then tcp_kill_find st as idle (Some a) s
     else tcp_kill_find st as inactivity inactive s
   }"

definition tcp_kill_state :: "tcp_callbacks \<Rightarrow> tcp_state \<Rightarrow> stack \<Rightarrow> stack option" where
  "tcp_kill_state cb st s = do {
     lwip_assert (st = CLOSING \<or> st = LAST_ACK);
     inactive \<leftarrow> tcp_kill_find (Some st) (tcp_pcb_list L_active s) 0 None s;
     if inactive \<noteq> None then tcp_abandon cb inactive False s else Some s
   }"

definition tcp_kill_timewait :: "tcp_callbacks \<Rightarrow> stack \<Rightarrow> stack option" where
  "tcp_kill_timewait cb s = do {
     inactive \<leftarrow> tcp_kill_find None (tcp_pcb_list L_tw s) 0 None s;
     if inactive \<noteq> None then tcp_abort cb inactive s else Some s
   }"

text \<open>\<open>tcp_close_shutdown_fin\<close> does not change the list.\<close>

fun tcp_closepend_all :: "addr list \<Rightarrow> stack \<Rightarrow> stack option" where
  "tcp_closepend_all [] s = Some s"
| "tcp_closepend_all (a # as) s = do {
     p \<leftarrow> tcp_pcb_at a s;
     s \<leftarrow> (if tp_flags p AND TF_CLOSEPEND \<noteq> 0 then do {
            (_, s) \<leftarrow> tcp_close_shutdown_fin a (put_tcp_pcb a (tcp_clear_flags TF_CLOSEPEND p) s);
            Some s
          } else Some s);
     tcp_closepend_all as s
   }"

definition tcp_handle_closepend :: "stack \<Rightarrow> stack option" where
  "tcp_handle_closepend s = tcp_closepend_all (tcp_pcb_list L_active s) s"

definition tcp_pcb_zero :: tcp_pcb where
  "tcp_pcb_zero = \<lparr>tp_local_ip = 0, tp_remote_ip = 0, tp_netif_idx = 0, tp_so_options = 0, tp_tos = 0, tp_ttl = 0,
     tp_callback_arg = None, tp_state = CLOSED, tp_prio = 0, tp_local_port = 0, tp_remote_port = 0, tp_flags = 0, tp_polltmr = 0,
     tp_pollinterval = 0, tp_last_timer = 0, tp_tmr = 0, tp_rcv_nxt = 0, tp_rcv_wnd = 0, tp_rcv_ann_wnd = 0, tp_rcv_ann_right_edge = 0,
     tp_rcv_sacks = no_sacks, tp_rtime = 0, tp_mss = 0, tp_rttest = 0, tp_rtseq = 0, tp_sa = 0, tp_sv = 0, tp_rto = 0, tp_nrtx = 0,
     tp_dupacks = 0, tp_lastack = 0, tp_cwnd = 0, tp_ssthresh = 0, tp_rto_end = 0, tp_snd_nxt = 0, tp_snd_wl1 = 0, tp_snd_wl2 = 0,
     tp_snd_lbb = 0, tp_snd_wnd = 0, tp_snd_wnd_max = 0, tp_snd_buf = 0, tp_snd_queuelen = 0, tp_unsent_oversize = 0, tp_bytes_acked = 0,
     tp_unsent = [], tp_unacked = [], tp_ooseq = [], tp_refused_data = None, tp_listener = None, tp_sent = None, tp_recv = None,
     tp_connected = None, tp_poll = None, tp_errf = None, tp_keep_idle = 0, tp_persist_cnt = 0, tp_persist_backoff = 0,
     tp_persist_probe = 0, tp_keep_cnt_sent = 0, tp_snd_scale = 0, tp_rcv_scale = 0\<rparr>"

definition tcp_malloc :: "stack \<Rightarrow> addr option \<times> stack" where
  "tcp_malloc s = (let (m, h) = mem_malloc (st_heap s) in (m, s\<lparr>st_heap := h\<rparr>))"

definition tcp_alloc :: "tcp_callbacks \<Rightarrow> u8 \<Rightarrow> stack \<Rightarrow> (addr option \<times> stack) option" where
  "tcp_alloc cb prio s = do {
     let (m, s) = tcp_malloc s;
     (m, s) \<leftarrow> (if m \<noteq> None then Some (m, s) else do {
         s \<leftarrow> tcp_handle_closepend s;
         s \<leftarrow> tcp_kill_timewait cb s;
         let (m, s) = tcp_malloc s;
         if m \<noteq> None then Some (m, s) else do {
           s \<leftarrow> tcp_kill_state cb LAST_ACK s;
           let (m, s) = tcp_malloc s;
           if m \<noteq> None then Some (m, s) else do {
             s \<leftarrow> tcp_kill_state cb CLOSING s;
             let (m, s) = tcp_malloc s;
             if m \<noteq> None then Some (m, s) else do {
               s \<leftarrow> tcp_kill_prio cb prio s;
               Some (tcp_malloc s)
             }
           }
         }
       });
     case m of
       None \<Rightarrow> Some (None, s)
     | Some a \<Rightarrow> Some (Some a, put_tcp_pcb a (tcp_pcb_zero\<lparr>tp_prio := prio, tp_snd_buf := TCP_SND_BUF,
           tp_rcv_wnd := ucast (TCPWND_MIN16 TCP_WND), tp_rcv_ann_wnd := ucast (TCPWND_MIN16 TCP_WND), tp_ttl := TCP_TTL,
           tp_mss := INITIAL_MSS, tp_rto := 6, tp_sv := 6, tp_rtime := - 1, tp_cwnd := 1, tp_tmr := tg_ticks (st_tcp s),
           tp_last_timer := tg_timer_ctr (st_tcp s), tp_ssthresh := TCP_SND_BUF, tp_recv := Some fn_tcp_recv_null,
           tp_keep_idle := 7200000\<rparr>) s)
   }"

definition tcp_new :: "tcp_callbacks \<Rightarrow> stack \<Rightarrow> (addr option \<times> stack) option" where
  "tcp_new cb s = tcp_alloc cb TCP_PRIO_NORMAL s"

definition tcp_new_ip_type :: "tcp_callbacks \<Rightarrow> u8 \<Rightarrow> stack \<Rightarrow> (addr option \<times> stack) option" where
  "tcp_new_ip_type cb type s = tcp_alloc cb TCP_PRIO_NORMAL s"

section \<open>Properties of a control block\<close>

definition tcp_setprio :: "addr option \<Rightarrow> u8 \<Rightarrow> stack \<Rightarrow> stack option" where
  "tcp_setprio pcb prio s = do {
     a \<leftarrow> pcb;
     case tcp_lpcb_at a s of
       Some l \<Rightarrow> Some (put_tcp_lpcb a (l\<lparr>lp_prio := prio\<rparr>) s)
     | None \<Rightarrow> upd_tcp_pcb a (\<lambda>p. p\<lparr>tp_prio := prio\<rparr>) s
   }"

definition tcp_arg :: "addr option \<Rightarrow> addr option \<Rightarrow> stack \<Rightarrow> stack option" where
  "tcp_arg pcb arg s = (case pcb of
      None \<Rightarrow> Some s
    | Some a \<Rightarrow> (case tcp_lpcb_at a s of
          Some l \<Rightarrow> Some (put_tcp_lpcb a (l\<lparr>lp_callback_arg := arg\<rparr>) s)
        | None \<Rightarrow> upd_tcp_pcb a (\<lambda>p. p\<lparr>tp_callback_arg := arg\<rparr>) s))"

definition tcp_recv :: "addr option \<Rightarrow> tcp_recv_fn option \<Rightarrow> stack \<Rightarrow> stack option" where
  "tcp_recv pcb recv s = (case pcb of
      None \<Rightarrow> Some s
    | Some a \<Rightarrow> do { lwip_assert (tcp_lpcb_at a s = None); upd_tcp_pcb a (\<lambda>p. p\<lparr>tp_recv := recv\<rparr>) s })"

definition tcp_sent :: "addr option \<Rightarrow> tcp_sent_fn option \<Rightarrow> stack \<Rightarrow> stack option" where
  "tcp_sent pcb sent s = (case pcb of
      None \<Rightarrow> Some s
    | Some a \<Rightarrow> do { lwip_assert (tcp_lpcb_at a s = None); upd_tcp_pcb a (\<lambda>p. p\<lparr>tp_sent := sent\<rparr>) s })"

definition tcp_err :: "addr option \<Rightarrow> tcp_err_fn option \<Rightarrow> stack \<Rightarrow> stack option" where
  "tcp_err pcb err s = (case pcb of
      None \<Rightarrow> Some s
    | Some a \<Rightarrow> do { lwip_assert (tcp_lpcb_at a s = None); upd_tcp_pcb a (\<lambda>p. p\<lparr>tp_errf := err\<rparr>) s })"

definition tcp_accept :: "addr option \<Rightarrow> tcp_accept_fn option \<Rightarrow> stack \<Rightarrow> stack option" where
  "tcp_accept pcb accept s = (case pcb of
      None \<Rightarrow> Some s
    | Some a \<Rightarrow> (case tcp_lpcb_at a s of
          Some l \<Rightarrow> Some (put_tcp_lpcb a (l\<lparr>lp_accept := accept\<rparr>) s)
        | None \<Rightarrow> map_option (\<lambda>_. s) (tcp_pcb_at a s)))"

definition tcp_poll :: "addr option \<Rightarrow> tcp_poll_fn option \<Rightarrow> u8 \<Rightarrow> stack \<Rightarrow> stack option" where
  "tcp_poll pcb poll interval s = do {
     a \<leftarrow> pcb;
     lwip_assert (tcp_lpcb_at a s = None);
     upd_tcp_pcb a (\<lambda>p. p\<lparr>tp_poll := poll, tp_pollinterval := interval\<rparr>) s
   }"

text \<open>The copy of a segment is the same value with one more reference to its pbuf.\<close>

definition tcp_seg_copy :: "tcp_seg \<Rightarrow> stack \<Rightarrow> (tcp_seg option \<times> stack) option" where
  "tcp_seg_copy sg s = do {
     let (m, s) = tcp_malloc s;
     if m = None then Some (None, s)
     else do { s \<leftarrow> on_heap' (pbuf_ref (sg_p sg)) s; Some (Some sg, s) }
   }"

definition tcp_recv_null :: "addr option \<Rightarrow> addr option \<Rightarrow> err_t \<Rightarrow> stack \<Rightarrow> (err_t \<times> stack) option" where
  "tcp_recv_null pcb p err s = do {
     a \<leftarrow> pcb;
     case p of
       Some b \<Rightarrow> do {
         pb \<leftarrow> hp_pbufs (st_heap s) b;
         s \<leftarrow> tcp_recved pcb (pb_tot_len pb) s;
         s \<leftarrow> st_pbuf_free p s;
         Some (ERR_OK, s)
       }
     | None \<Rightarrow> if err = ERR_OK then tcp_close pcb s else Some (ERR_OK, s)
   }"

definition tcp_tcp_get_tcp_addrinfo :: "addr option \<Rightarrow> bool \<Rightarrow> stack \<Rightarrow> (err_t \<times> (ip4_addr_t \<times> u16) option) option" where
  "tcp_tcp_get_tcp_addrinfo pcb loc s = (case pcb of
      None \<Rightarrow> Some (ERR_VAL, None)
    | Some a \<Rightarrow> if loc then map_option (\<lambda>x. (ERR_OK, Some x)) (tcp_local_at a s)
        else map_option (\<lambda>p. (ERR_OK, Some (tp_remote_ip p, tp_remote_port p))) (tcp_pcb_at a s))"

section \<open>A changed address of the interface\<close>

partial_function (option) tcp_netif_ip_addr_changed_pcblist :: "tcp_callbacks \<Rightarrow> ip4_addr_t \<Rightarrow> tcp_list \<Rightarrow> addr option \<Rightarrow> stack \<Rightarrow> stack option" where
  "tcp_netif_ip_addr_changed_pcblist cb old_addr l pcb s = (case pcb of
      None \<Rightarrow> Some s
    | Some a \<Rightarrow> do {
        p \<leftarrow> tcp_pcb_at a s;
        next \<leftarrow> tcp_next l a s;
        s \<leftarrow> (if tp_local_ip p = old_addr then tcp_abort cb pcb s else Some s);
        tcp_netif_ip_addr_changed_pcblist cb old_addr l next s
      })"

fun tcp_listen_rebind :: "ip4_addr_t \<Rightarrow> ip4_addr_t \<Rightarrow> addr list \<Rightarrow> stack \<Rightarrow> stack option" where
  "tcp_listen_rebind old_addr new_addr [] s = Some s"
| "tcp_listen_rebind old_addr new_addr (a # as) s = do {
     l \<leftarrow> tcp_lpcb_at a s;
     tcp_listen_rebind old_addr new_addr as (if lp_local_ip l = old_addr then put_tcp_lpcb a (l\<lparr>lp_local_ip := new_addr\<rparr>) s else s)
   }"

definition list_head :: "addr list \<Rightarrow> addr option" where
  "list_head l = (case l of [] \<Rightarrow> None | a # _ \<Rightarrow> Some a)"

definition tcp_netif_ip_addr_changed :: "tcp_callbacks \<Rightarrow> ip4_addr_t option \<Rightarrow> ip4_addr_t option \<Rightarrow> stack \<Rightarrow> stack option" where
  "tcp_netif_ip_addr_changed cb old_addr new_addr s =
     (if ip4_addr_isany old_addr then Some s
      else do {
        old \<leftarrow> old_addr;
        s \<leftarrow> tcp_netif_ip_addr_changed_pcblist cb old L_active (list_head (tcp_pcb_list L_active s)) s;
        s \<leftarrow> tcp_netif_ip_addr_changed_pcblist cb old L_bound (list_head (tcp_pcb_list L_bound s)) s;
        if ip4_addr_isany new_addr then Some s
        else do { new \<leftarrow> new_addr; tcp_listen_rebind old new (tcp_pcb_list L_listen s) s }
      })"

section \<open>The window that is announced\<close>

lemma uint_of_int_u32: "0 \<le> d \<Longrightarrow> d < 2 ^ 32 \<Longrightarrow> uint (of_int d :: u32) = d"
  by (simp only: uint_word_of_int) simp

lemma tcp_update_rcv_ann_wnd_edge:
  fixes n e :: int
  assumes "tp_rcv_nxt p = of_int n" "tp_rcv_ann_right_edge p = of_int e" "\<bar>n - e\<bar> < 2 ^ 30" "uint (tp_rcv_wnd p) < 2 ^ 30"
  defines "m \<equiv> uint (min (TCP_WND div 2) (ucast (tp_mss p)) :: u32)"
  shows "tcp_update_rcv_ann_wnd p = (if e + m \<le> n + uint (tp_rcv_wnd p)
      then (of_int (n + uint (tp_rcv_wnd p) - e), p\<lparr>tp_rcv_ann_wnd := tp_rcv_wnd p\<rparr>)
      else (0, p\<lparr>tp_rcv_ann_wnd := of_int (max 0 (e - n))\<rparr>))"
proof -
  have m: "0 \<le> m" "m < 2 ^ 16"
  proof -
    have "m \<le> uint (ucast (tp_mss p) :: u32)" unfolding m_def word_le_def [symmetric] by simp
    also have "\<dots> = uint (tp_mss p)" using unat_ucast_16_32 [of "tp_mss p"] by (metis of_nat_unat)
    also have "\<dots> < 2 ^ 16" by (rule order_less_le_trans [OF unsigned_less]) simp
    finally show "m < 2 ^ 16" .
  qed (simp add: m_def)
  have w: "0 \<le> uint (tp_rcv_wnd p)" by simp
  have new: "tp_rcv_nxt p + tp_rcv_wnd p = of_int (n + uint (tp_rcv_wnd p))" using assms(1) by simp
  have lim: "tp_rcv_ann_right_edge p + min (TCP_WND div 2) (ucast (tp_mss p)) = of_int (e + m)"
    using assms(2) by (simp add: m_def)
  have pw: "(2 :: int) ^ 31 = 2 * 2 ^ 30" "(2 :: int) ^ 16 < 2 ^ 30" by simp_all
  have b: "- (2 ^ 31) \<le> n + uint (tp_rcv_wnd p) - (e + m)" "n + uint (tp_rcv_wnd p) - (e + m) < 2 ^ 31"
    using assms(3,4) m w pw by linarith+
  have s1: "sint (of_int (n + uint (tp_rcv_wnd p)) - of_int (e + m) :: u32) = n + uint (tp_rcv_wnd p) - (e + m)"
    using sint_of_int_u32 [OF b] by (simp only: of_int_diff)
  have s2: "sint (of_int n - of_int e :: u32) = n - e"
    using sint_of_int_u32 [of "n - e"] assms(3) by (simp add: of_int_diff)
  show ?thesis
    unfolding tcp_update_rcv_ann_wnd_def Let_def new lim TCP_SEQ_GEQ_def TCP_SEQ_GT_def s1
    unfolding assms(1,2) s2 by (auto simp: max_def simp flip: of_int_diff of_int_add)
qed

lemma TCP_WND_MAX_val: "TCP_WND_MAX p = 65535"
proof -
  have "TCP_WND = 65535" "ucast (TCPWND_MIN16 TCP_WND) = (65535 :: u32)" by code_simp+
  then show ?thesis by (simp add: TCP_WND_MAX_def)
qed

lemma min_half_wnd_mss: "uint (min (TCP_WND div 2) (ucast (mss :: u16)) :: u32) = min 32767 (uint mss)"
proof -
  have "TCP_WND div 2 = 32767" by code_simp
  moreover have "uint (ucast mss :: u32) = uint mss" using unat_ucast_16_32 [of mss] by (metis of_nat_unat)
  ultimately show ?thesis by (simp add: min_def word_le_def)
qed

lemma uint_recved:
  assumes "uint w \<le> 65535"
  shows "(if w + ucast (len :: u16) > (65535 :: u32) \<or> w + ucast len < w then 65535 else w + ucast len) = of_int (min 65535 (uint w + uint len))"
proof -
  have l: "uint (ucast len :: u32) = uint len" using unat_ucast_16_32 [of len] by (metis of_nat_unat)
  have "uint len < 2 ^ 16" by (rule order_less_le_trans [OF unsigned_less]) simp
  then have "uint (w + ucast len) = uint w + uint len"
    using assms l by (simp add: uint_word_ariths)
  then have "w + ucast len = of_int (uint w + uint len)" "\<not> w + ucast len < w" "w + ucast len > 65535 \<longleftrightarrow> uint w + uint len > 65535"
    by (metis word_of_int_uint, simp_all add: word_less_def)
  then show ?thesis by (auto simp: min_def)
qed

lemma update_threshold: "TCP_WND_UPDATE_THRESHOLD = 16383"
  by code_simp

text \<open>C18: \<open>tcp_recved\<close> and the announced window, in positions of the unbounded stream: the window grows by the
  number of bytes, but not beyond \<open>TCP_WND\<close>; the new right edge is announced when that gains \<open>min(TCP_WND/2, mss)\<close>
  bytes, otherwise the old one is kept: the announced right edge never moves back.  A window update is
  sent at once when it gains \<open>TCP_WND_UPDATE_THRESHOLD\<close> bytes.\<close>

theorem tcp_recved_window:
  fixes n e :: int and len :: u16
  assumes "tcp_pcb_at a s = Some p" "tcp_lpcb_at a s = None" "tp_rcv_nxt p = of_int n" "tp_rcv_ann_right_edge p = of_int e"
    "\<bar>n - e\<bar> < 2 ^ 29" "uint (tp_rcv_wnd p) \<le> 65535"
  defines "W \<equiv> min 65535 (uint (tp_rcv_wnd p) + uint len)"
  defines "grow \<equiv> e + min 32767 (uint (tp_mss p)) \<le> n + W"
  defines "A \<equiv> (if grow then W else max 0 (e - n))"
  defines "q \<equiv> p\<lparr>tp_rcv_wnd := of_int W, tp_rcv_ann_wnd := of_int A\<rparr>"
  shows "e \<le> n + A \<and> 0 \<le> A \<and> W \<le> 65535
    \<and> tcp_recved (Some a) len s = (if grow \<and> 16383 \<le> n + W - e then map_option snd (tcp_output a (put_tcp_pcb a (tcp_ack_now q) s))
        else Some (put_tcp_pcb a q s))"
proof -
  have W: "0 \<le> W" "W \<le> 65535" unfolding W_def by simp_all
  have uW: "uint (of_int W :: u32) = W" using uint_of_int_u32 [of W] W by simp
  let ?p = "p\<lparr>tp_rcv_wnd := of_int W\<rparr>"
  have m0: "0 \<le> min 32767 (uint (tp_mss p))" by simp
  have ann: "tcp_update_rcv_ann_wnd ?p = (if grow then of_int (n + W - e) else 0, q)"
    using tcp_update_rcv_ann_wnd_edge [of ?p n e] assms(3-5) W
    by (simp add: uW min_half_wnd_mss grow_def q_def A_def)
  have gain: "16383 \<le> (of_int (n + W - e) :: u32) \<longleftrightarrow> 16383 \<le> n + W - e" if grow
  proof -
    have "(2 :: int) ^ 29 + 65535 < 2 ^ 32" by simp
    then have "0 \<le> n + W - e" "n + W - e < 2 ^ 32" using that m0 assms(5) W unfolding grow_def by linarith+
    then show ?thesis using uint_of_int_u32 [of "n + W - e"] by (simp add: word_le_def)
  qed
  have "tcp_recved (Some a) len s = (if TCP_WND_UPDATE_THRESHOLD \<le> (if grow then of_int (n + W - e) else 0)
      then map_option snd (tcp_output a (put_tcp_pcb a (tcp_ack_now q) s)) else Some (put_tcp_pcb a q s))"
  proof -
    let ?w = "tp_rcv_wnd p + ucast len"
    have w: "(if ?w > TCP_WND_MAX p \<or> ?w < tp_rcv_wnd p then TCP_WND_MAX p else ?w) = of_int W"
      unfolding TCP_WND_MAX_val W_def by (rule uint_recved [OF assms(6)])
    have o: "do { (_, s) \<leftarrow> tcp_output a t; Some s } = map_option snd (tcp_output a t)" for t
      by (cases "tcp_output a t") auto
    show ?thesis
      unfolding tcp_recved_def Let_def using assms(1,2) ann w o by (simp add: lwip_assert_def del: if_split)
  qed
  moreover have "e \<le> n + A \<and> 0 \<le> A"
  proof (cases grow)
    case True
    then have "A = W" "e + min 32767 (uint (tp_mss p)) \<le> n + W" by (simp_all add: A_def grow_def)
    then show ?thesis using m0 W by linarith
  qed (simp add: A_def)
  ultimately show ?thesis using W gain by (auto simp: update_threshold)
qed

text \<open>A window that crosses the wrap-around: 1000 bytes are open, 5000 are taken, 6000 are announced.\<close>

definition ex_recved :: tcp_pcb where
  "ex_recved = tcp_pcb_zero\<lparr>tp_rcv_nxt := - 500, tp_rcv_ann_right_edge := 500, tp_rcv_wnd := 1000, tp_rcv_ann_wnd := 1000, tp_mss := 1460\<rparr>"

theorem tcp_recved_window_witness:
  "\<exists>s. s = put_tcp_pcb 7 ex_recved (stack_zero ex_heap) \<and> tcp_recved (Some 7) 5000 s
    = Some (put_tcp_pcb 7 (ex_recved\<lparr>tp_rcv_wnd := 6000, tp_rcv_ann_wnd := 6000\<rparr>) s)"
proof -
  let ?s = "put_tcp_pcb 7 ex_recved (stack_zero ex_heap)"
  have "tcp_pcb_at 7 ?s = Some ex_recved" "tcp_lpcb_at 7 ?s = None"
    by (simp_all add: tcp_pcb_at_def tcp_lpcb_at_def put_tcp_pcb_def stack_zero_def tcp_globals_zero_def)
  from tcp_recved_window [OF this, of "- 500" 500 5000] show ?thesis
    by (simp add: ex_recved_def)
qed

end
