(* ===== verification/Tcp_Tmr.thy ===== *)
theory Tcp_Tmr
  imports Tcp
begin

text \<open>
  The timers of TCP (\<open>tcp_slowtmr\<close>, \<open>tcp_fasttmr\<close>, \<open>tcp_tmr\<close>, \<open>tcp_txnow\<close> of \<open>tcp.c\<close>), the delivery of data
  that the application refused (\<open>tcp_process_refused_data\<close>), the events of \<open>tcp_priv.h\<close>, and what runs the
  timers (\<open>timeouts.c\<close>).

  The loops over the active control blocks start again when a callback changed the list; their cursor is a
  pointer, so that they are partial functions.
\<close>

unbundle bit_operations_syntax

section \<open>Events\<close>

definition TCP_EVENT_RECV :: "tcp_callbacks \<Rightarrow> addr \<Rightarrow> addr option \<Rightarrow> err_t \<Rightarrow> stack \<Rightarrow> (err_t \<times> stack) option" where
  "TCP_EVENT_RECV cb a p err s = do {
     pcb \<leftarrow> tcp_pcb_at a s;
     case tp_recv pcb of
       Some fn_recv_tcp \<Rightarrow> cb_recv_tcp cb (tp_callback_arg pcb) a p err s
     | _ \<Rightarrow> tcp_recv_null (Some a) p err s
   }"

definition TCP_EVENT_CLOSED :: "tcp_callbacks \<Rightarrow> addr \<Rightarrow> stack \<Rightarrow> (err_t \<times> stack) option" where
  "TCP_EVENT_CLOSED cb a s = do {
     pcb \<leftarrow> tcp_pcb_at a s;
     case tp_recv pcb of
       Some fn_recv_tcp \<Rightarrow> cb_recv_tcp cb (tp_callback_arg pcb) a None ERR_OK s
     | Some fn_tcp_recv_null \<Rightarrow> tcp_recv_null (Some a) None ERR_OK s
     | None \<Rightarrow> Some (ERR_OK, s)
   }"

definition TCP_EVENT_SENT :: "tcp_callbacks \<Rightarrow> addr \<Rightarrow> u16 \<Rightarrow> stack \<Rightarrow> (err_t \<times> stack) option" where
  "TCP_EVENT_SENT cb a space s = do {
     pcb \<leftarrow> tcp_pcb_at a s;
     case tp_sent pcb of
       Some fn_sent_tcp \<Rightarrow> cb_sent_tcp cb (tp_callback_arg pcb) a space s
     | None \<Rightarrow> Some (ERR_OK, s)
   }"

definition TCP_EVENT_CONNECTED :: "tcp_callbacks \<Rightarrow> addr \<Rightarrow> err_t \<Rightarrow> stack \<Rightarrow> (err_t \<times> stack) option" where
  "TCP_EVENT_CONNECTED cb a err s = do {
     pcb \<leftarrow> tcp_pcb_at a s;
     case tp_connected pcb of
       Some fn_do_connected \<Rightarrow> cb_do_connected cb (tp_callback_arg pcb) a err s
     | None \<Rightarrow> Some (ERR_OK, s)
   }"

definition TCP_EVENT_POLL :: "tcp_callbacks \<Rightarrow> addr \<Rightarrow> stack \<Rightarrow> (err_t \<times> stack) option" where
  "TCP_EVENT_POLL cb a s = do {
     pcb \<leftarrow> tcp_pcb_at a s;
     case tp_poll pcb of
       Some fn_poll_tcp \<Rightarrow> cb_poll_tcp cb (tp_callback_arg pcb) a s
     | None \<Rightarrow> Some (ERR_OK, s)
   }"

definition TCP_EVENT_ACCEPT :: "tcp_callbacks \<Rightarrow> addr \<Rightarrow> addr option \<Rightarrow> addr option \<Rightarrow> err_t \<Rightarrow> stack \<Rightarrow> (err_t \<times> stack) option" where
  "TCP_EVENT_ACCEPT cb l pcb arg err s = do {
     lpcb \<leftarrow> tcp_lpcb_at l s;
     case lp_accept lpcb of
       Some fn_accept_function \<Rightarrow> cb_accept_function cb arg pcb err s
     | Some fn_tcp_accept_null \<Rightarrow> tcp_accept_null cb pcb s
     | None \<Rightarrow> Some (ERR_ARG, s)
   }"

section \<open>Refused data\<close>

partial_function (option) tcp_process_refused_data :: "tcp_callbacks \<Rightarrow> addr \<Rightarrow> stack \<Rightarrow> (err_t \<times> stack) option" where
  "tcp_process_refused_data cb a s = do {
     pcb \<leftarrow> tcp_pcb_at a s;
     case tp_refused_data pcb of
       None \<Rightarrow> Some (ERR_OK, s)
     | Some refused \<Rightarrow> do {
         pb \<leftarrow> hp_pbufs (st_heap s) refused;
         (rest, s) \<leftarrow> on_heap (pbuf_split_64k (Some refused)) s;
         (err, s) \<leftarrow> TCP_EVENT_RECV cb a (Some refused) ERR_OK (put_tcp_pcb a (pcb\<lparr>tp_refused_data := rest\<rparr>) s);
         if err = ERR_OK then
           (if pb_flags pb AND PBUF_FLAG_TCP_FIN \<noteq> 0 \<and> rest = None then do {
              s \<leftarrow> upd_tcp_pcb a (\<lambda>p. if tp_rcv_wnd p \<noteq> TCP_WND_MAX p then p\<lparr>tp_rcv_wnd := tp_rcv_wnd p + 1\<rparr> else p) s;
              (err, s) \<leftarrow> TCP_EVENT_CLOSED cb a s;
              if err = ERR_ABRT then Some (ERR_ABRT, s) else tcp_process_refused_data cb a s
            } else tcp_process_refused_data cb a s)
         else if err = ERR_ABRT then Some (ERR_ABRT, s)
         else do {
           s \<leftarrow> (if rest \<noteq> None then on_heap' (pbuf_cat (Some refused) rest) s else Some s);
           s \<leftarrow> upd_tcp_pcb a (\<lambda>p. p\<lparr>tp_refused_data := Some refused\<rparr>) s;
           Some (ERR_INPROGRESS, s)
         }
       }
   }"

section \<open>The slow timer\<close>

definition tcp_backoff :: "nat list" where "tcp_backoff = [1, 2, 3, 4, 5, 6, 7, 7, 7, 7, 7, 7, 7]"
definition tcp_persist_backoff :: "u8 list" where "tcp_persist_backoff = [3, 6, 12, 24, 48, 96, 120]"

text \<open>Constants in ticks of 500 ms, with the keepalive times in milliseconds of an \<open>unsigned long\<close>.\<close>

definition TCP_SLOW_INTERVAL :: nat where "TCP_SLOW_INTERVAL = 500"
definition TCP_FIN_WAIT_TICKS :: u32 where "TCP_FIN_WAIT_TICKS = 40"
definition TCP_SYN_RCVD_TICKS :: u32 where "TCP_SYN_RCVD_TICKS = 40"
definition TCP_2MSL_TICKS :: u32 where "TCP_2MSL_TICKS = 240"
definition TCP_KEEP_DUR :: nat where "TCP_KEEP_DUR = 675000"
definition TCP_KEEP_INTVL :: nat where "TCP_KEEP_INTVL = 75000"
definition TCP_OOSEQ_TIMEOUT :: u32 where "TCP_OOSEQ_TIMEOUT = 6"

text \<open>\<open>tcp_ticks - pcb->tmr\<close>\<close>

definition tcp_idle :: "tcp_pcb \<Rightarrow> stack \<Rightarrow> u32" where
  "tcp_idle pcb s = tg_ticks (st_tcp s) - tp_tmr pcb"

text \<open>The persist timer.  The first component of the result is \<open>pcb_remove\<close>.\<close>

definition tcp_slowtmr_persist :: "addr \<Rightarrow> stack \<Rightarrow> (bool \<times> stack) option" where
  "tcp_slowtmr_persist a s = do {
     pcb \<leftarrow> tcp_pcb_at a s;
     lwip_assert (tp_unacked pcb = []);
     lwip_assert (tp_unsent pcb \<noteq> []);
     if tp_persist_probe pcb \<ge> TCP_MAXRTX then Some (True, s)
     else do {
       lwip_assert (unat (tp_persist_backoff pcb) - 1 < length tcp_persist_backoff);
       let backoff_cnt = tcp_persist_backoff ! (unat (tp_persist_backoff pcb) - 1);
       let pcb = (if tp_persist_cnt pcb < backoff_cnt then pcb\<lparr>tp_persist_cnt := tp_persist_cnt pcb + 1\<rparr> else pcb);
       let s = put_tcp_pcb a pcb s;
       if tp_persist_cnt pcb \<ge> backoff_cnt then do {
         (next_slot, s) \<leftarrow> (if tp_snd_wnd pcb = 0 then do {
             (e, s) \<leftarrow> tcp_zero_window_probe a s;
             Some (e = ERR_OK, s)
           } else do {
             (e, s) \<leftarrow> tcp_split_unsent_seg a (ucast (tp_snd_wnd pcb)) s;
             if e = ERR_OK then do {
               (e, s) \<leftarrow> tcp_output a s;
               Some (e \<noteq> ERR_OK, s)
             } else Some (True, s)
           });
         s \<leftarrow> (if next_slot then upd_tcp_pcb a (\<lambda>p. let p = p\<lparr>tp_persist_cnt := 0\<rparr> in
                  if unat (tp_persist_backoff p) < length tcp_persist_backoff then p\<lparr>tp_persist_backoff := tp_persist_backoff p + 1\<rparr> else p) s
                else Some s);
         Some (False, s)
       } else Some (False, s)
     }
   }"

text \<open>The retransmission timer.\<close>

definition tcp_slowtmr_backoff :: "tcp_pcb \<Rightarrow> tcp_pcb" where
  "tcp_slowtmr_backoff pcb =
     (let pcb = (if tp_state pcb \<noteq> SYN_SENT
            then pcb\<lparr>tp_rto := s16 (min ((tp_sa pcb div 8 + tp_sv pcb) * 2 ^ (tcp_backoff ! min (unat (tp_nrtx pcb)) 12)) 0x7FFF)\<rparr> else pcb);
          ssthresh = min (tp_cwnd pcb) (tp_snd_wnd pcb) div 2;
          mss2 = 2 * ucast (tp_mss pcb)
      in pcb\<lparr>tp_rtime := 0, tp_ssthresh := (if ssthresh < mss2 then mss2 else ssthresh), tp_cwnd := ucast (tp_mss pcb), tp_bytes_acked := 0\<rparr>)"

definition tcp_slowtmr_rto :: "addr \<Rightarrow> stack \<Rightarrow> stack option" where
  "tcp_slowtmr_rto a s = do {
     pcb \<leftarrow> tcp_pcb_at a s;
     let pcb = (if tp_rtime pcb \<ge> 0 \<and> tp_rtime pcb < 0x7FFF then pcb\<lparr>tp_rtime := tp_rtime pcb + 1\<rparr> else pcb);
     let s = put_tcp_pcb a pcb s;
     if tp_rtime pcb \<ge> tp_rto pcb then do {
       (e, s) \<leftarrow> tcp_rexmit_rto_prepare a s;
       pcb \<leftarrow> tcp_pcb_at a s;
       if e = ERR_OK \<or> (tp_unacked pcb = [] \<and> tp_unsent pcb \<noteq> [])
       then tcp_rexmit_rto_commit a (put_tcp_pcb a (tcp_slowtmr_backoff pcb) s)
       else Some s
     } else Some s
   }"

text \<open>The keepalive timer.\<close>

definition SOF_KEEPALIVE :: u8 where "SOF_KEEPALIVE = 0x08"

definition tcp_slowtmr_keepalive :: "addr \<Rightarrow> stack \<Rightarrow> (bool \<times> stack) option" where
  "tcp_slowtmr_keepalive a s = do {
     pcb \<leftarrow> tcp_pcb_at a s;
     if tp_so_options pcb AND SOF_KEEPALIVE \<noteq> 0 \<and> tp_state pcb \<in> {ESTABLISHED, CLOSE_WAIT} then
       (if unat (tcp_idle pcb s) > (unat (tp_keep_idle pcb) + TCP_KEEP_DUR) div TCP_SLOW_INTERVAL then Some (True, s)
        else if unat (tcp_idle pcb s) > (unat (tp_keep_idle pcb) + unat (tp_keep_cnt_sent pcb) * TCP_KEEP_INTVL) div TCP_SLOW_INTERVAL
        then do {
          (err, s) \<leftarrow> tcp_keepalive a s;
          s \<leftarrow> (if err = ERR_OK then upd_tcp_pcb a (\<lambda>p. p\<lparr>tp_keep_cnt_sent := tp_keep_cnt_sent p + 1\<rparr>) s else Some s);
          Some (False, s)
        } else Some (False, s))
     else Some (False, s)
   }"

text \<open>The checks of one active control block: whether it is removed (\<open>pcb_remove\<close>), with a reset (\<open>pcb_reset\<close>).\<close>

definition tcp_slowtmr_check :: "addr \<Rightarrow> stack \<Rightarrow> (bool \<times> bool \<times> stack) option" where
  "tcp_slowtmr_check a s = do {
     pcb \<leftarrow> tcp_pcb_at a s;
     (r1, s) \<leftarrow> (if tp_state pcb = SYN_SENT \<and> tp_nrtx pcb \<ge> TCP_SYNMAXRTX then Some (True, s)
        else if tp_nrtx pcb \<ge> TCP_MAXRTX then Some (True, s)
        else if tp_persist_backoff pcb > 0 then tcp_slowtmr_persist a s
        else do { s \<leftarrow> tcp_slowtmr_rto a s; Some (False, s) });
     pcb \<leftarrow> tcp_pcb_at a s;
     let r2 = (tp_state pcb = FIN_WAIT_2 \<and> tp_flags pcb AND TF_RXCLOSED \<noteq> 0 \<and> tcp_idle pcb s > TCP_FIN_WAIT_TICKS);
     (r3, s) \<leftarrow> tcp_slowtmr_keepalive a s;
     pcb \<leftarrow> tcp_pcb_at a s;
     s \<leftarrow> (if tp_ooseq pcb \<noteq> [] \<and> tcp_idle pcb s \<ge> of_int (tp_rto pcb) * TCP_OOSEQ_TIMEOUT then tcp_free_ooseq a s else Some s);
     let r4 = (tp_state pcb = SYN_RCVD \<and> tcp_idle pcb s > TCP_SYN_RCVD_TICKS);
     let r5 = (tp_state pcb = LAST_ACK \<and> tcp_idle pcb s > TCP_2MSL_TICKS);
     Some (r1 \<or> r2 \<or> r3 \<or> r4 \<or> r5, r3, s)
   }"

text \<open>\<open>prev->next = pcb->next\<close>, or the head of the list when there is no predecessor.\<close>

definition tcp_unlink :: "tcp_list \<Rightarrow> addr option \<Rightarrow> addr \<Rightarrow> stack \<Rightarrow> stack option" where
  "tcp_unlink l prev a s = do {
     lwip_assert ((prev = None) = (list_head (tcp_pcb_list l s) = Some a));
     Some (set_tcp_list l (remove1 a (tcp_pcb_list l s)) s)
   }"

definition tcp_slowtmr_remove :: "tcp_callbacks \<Rightarrow> addr option \<Rightarrow> addr \<Rightarrow> bool \<Rightarrow> stack \<Rightarrow> stack option" where
  "tcp_slowtmr_remove cb prev a pcb_reset s = do {
     p \<leftarrow> tcp_pcb_at a s;
     let err_fn = tp_errf p;
     s \<leftarrow> tcp_pcb_purge a s;
     s \<leftarrow> tcp_unlink L_active prev a s;
     p \<leftarrow> tcp_pcb_at a s;
     s \<leftarrow> (if pcb_reset then tcp_rst (Some (tcp_ip_pcb p)) (tp_snd_nxt p) (tp_rcv_nxt p) (tp_local_ip p) (tp_remote_ip p)
              (tp_local_port p) (tp_remote_port p) s else Some s);
     s \<leftarrow> tcp_free a s;
     TCP_EVENT_ERR cb err_fn (tp_callback_arg p) ERR_ABRT (tcp_active_changed False s)
   }"

definition tcp_slowtmr_poll :: "tcp_callbacks \<Rightarrow> addr \<Rightarrow> stack \<Rightarrow> stack option" where
  "tcp_slowtmr_poll cb a s = do {
     (err, s) \<leftarrow> TCP_EVENT_POLL cb a (tcp_active_changed False s);
     if \<not> tg_active_changed (st_tcp s) \<and> err = ERR_OK then do { (_, s) \<leftarrow> tcp_output a s; Some s } else Some s
   }"

partial_function (option) tcp_slowtmr_loop :: "tcp_callbacks \<Rightarrow> addr option \<Rightarrow> addr option \<Rightarrow> stack \<Rightarrow> stack option" where
  "tcp_slowtmr_loop cb prev pcb s = (case pcb of
      None \<Rightarrow> Some s
    | Some a \<Rightarrow> do {
        p \<leftarrow> tcp_pcb_at a s;
        lwip_assert (tp_state p \<notin> {CLOSED, LISTEN, TIME_WAIT});
        if tp_last_timer p = tg_timer_ctr (st_tcp s) then do {
          next \<leftarrow> tcp_next L_active a s;
          tcp_slowtmr_loop cb (Some a) next s
        } else do {
          (pcb_remove, pcb_reset, s) \<leftarrow> tcp_slowtmr_check a (put_tcp_pcb a (p\<lparr>tp_last_timer := tg_timer_ctr (st_tcp s)\<rparr>) s);
          next \<leftarrow> tcp_next L_active a s;
          if pcb_remove then do {
            s \<leftarrow> tcp_slowtmr_remove cb prev a pcb_reset s;
            if tg_active_changed (st_tcp s) then tcp_slowtmr_loop cb None (list_head (tcp_pcb_list L_active s)) s
            else tcp_slowtmr_loop cb prev next s
          } else do {
            p \<leftarrow> tcp_pcb_at a s;
            let p = p\<lparr>tp_polltmr := tp_polltmr p + 1\<rparr>;
            if tp_polltmr p \<ge> tp_pollinterval p then do {
              s \<leftarrow> tcp_slowtmr_poll cb a (put_tcp_pcb a (p\<lparr>tp_polltmr := 0\<rparr>) s);
              if tg_active_changed (st_tcp s) then tcp_slowtmr_loop cb None (list_head (tcp_pcb_list L_active s)) s
              else tcp_slowtmr_loop cb (Some a) next s
            } else tcp_slowtmr_loop cb (Some a) next (put_tcp_pcb a p s)
          }
        }
      })"

fun tcp_slowtmr_tw :: "addr option \<Rightarrow> addr list \<Rightarrow> stack \<Rightarrow> stack option" where
  "tcp_slowtmr_tw prev [] s = Some s"
| "tcp_slowtmr_tw prev (a # as) s = do {
     p \<leftarrow> tcp_pcb_at a s;
     lwip_assert (tp_state p = TIME_WAIT);
     if tcp_idle p s > TCP_2MSL_TICKS then do {
       s \<leftarrow> tcp_pcb_purge a s;
       s \<leftarrow> tcp_unlink L_tw prev a s;
       s \<leftarrow> tcp_free a s;
       tcp_slowtmr_tw prev as s
     } else tcp_slowtmr_tw (Some a) as s
   }"

definition tcp_slowtmr :: "tcp_callbacks \<Rightarrow> stack \<Rightarrow> stack option" where
  "tcp_slowtmr cb s = do {
     let s = s\<lparr>st_tcp := (st_tcp s)\<lparr>tg_ticks := tg_ticks (st_tcp s) + 1, tg_timer_ctr := tg_timer_ctr (st_tcp s) + 1\<rparr>\<rparr>;
     s \<leftarrow> tcp_slowtmr_loop cb None (list_head (tcp_pcb_list L_active s)) s;
     tcp_slowtmr_tw None (tcp_pcb_list L_tw s) s
   }"

section \<open>The fast timer\<close>

definition tcp_fasttmr_pcb :: "addr \<Rightarrow> stack \<Rightarrow> stack option" where
  "tcp_fasttmr_pcb a s = do {
     p \<leftarrow> tcp_pcb_at a s;
     s \<leftarrow> (if tp_flags p AND TF_ACK_DELAY \<noteq> 0 then do {
            (_, s) \<leftarrow> tcp_output a (put_tcp_pcb a (tcp_ack_now p) s);
            upd_tcp_pcb a (tcp_clear_flags (TF_ACK_DELAY OR TF_ACK_NOW)) s
          } else Some s);
     p \<leftarrow> tcp_pcb_at a s;
     if tp_flags p AND TF_CLOSEPEND \<noteq> 0 then do {
       (_, s) \<leftarrow> tcp_close_shutdown_fin a (put_tcp_pcb a (tcp_clear_flags TF_CLOSEPEND p) s);
       Some s
     } else Some s
   }"

partial_function (option) tcp_fasttmr_loop :: "tcp_callbacks \<Rightarrow> addr option \<Rightarrow> stack \<Rightarrow> stack option" where
  "tcp_fasttmr_loop cb pcb s = (case pcb of
      None \<Rightarrow> Some s
    | Some a \<Rightarrow> do {
        p \<leftarrow> tcp_pcb_at a s;
        if tp_last_timer p \<noteq> tg_timer_ctr (st_tcp s) then do {
          s \<leftarrow> tcp_fasttmr_pcb a (put_tcp_pcb a (p\<lparr>tp_last_timer := tg_timer_ctr (st_tcp s)\<rparr>) s);
          next \<leftarrow> tcp_next L_active a s;
          p \<leftarrow> tcp_pcb_at a s;
          if tp_refused_data p \<noteq> None then do {
            (_, s) \<leftarrow> tcp_process_refused_data cb a (tcp_active_changed False s);
            if tg_active_changed (st_tcp s) then tcp_fasttmr_loop cb (list_head (tcp_pcb_list L_active s)) s
            else tcp_fasttmr_loop cb next s
          } else tcp_fasttmr_loop cb next s
        } else do {
          next \<leftarrow> tcp_next L_active a s;
          tcp_fasttmr_loop cb next s
        }
      })"

definition tcp_fasttmr :: "tcp_callbacks \<Rightarrow> stack \<Rightarrow> stack option" where
  "tcp_fasttmr cb s =
     (let s = s\<lparr>st_tcp := (st_tcp s)\<lparr>tg_timer_ctr := tg_timer_ctr (st_tcp s) + 1\<rparr>\<rparr>
      in tcp_fasttmr_loop cb (list_head (tcp_pcb_list L_active s)) s)"

definition tcp_tmr :: "tcp_callbacks \<Rightarrow> stack \<Rightarrow> stack option" where
  "tcp_tmr cb s = do {
     s \<leftarrow> tcp_fasttmr cb s;
     let t = tg_timer (st_tcp s) + 1;
     let s = s\<lparr>st_tcp := (st_tcp s)\<lparr>tg_timer := t\<rparr>\<rparr>;
     if t AND 1 \<noteq> 0 then tcp_slowtmr cb s else Some s
   }"

text \<open>\<open>tcp_output\<close> does not change the list.\<close>

fun tcp_txnow_all :: "addr list \<Rightarrow> stack \<Rightarrow> stack option" where
  "tcp_txnow_all [] s = Some s"
| "tcp_txnow_all (a # as) s = do {
     p \<leftarrow> tcp_pcb_at a s;
     s \<leftarrow> (if tp_flags p AND TF_NAGLEMEMERR \<noteq> 0 then do { (_, s) \<leftarrow> tcp_output a s; Some s } else Some s);
     tcp_txnow_all as s
   }"

definition tcp_txnow :: "stack \<Rightarrow> stack option" where
  "tcp_txnow s = tcp_txnow_all (tcp_pcb_list L_active s) s"

section \<open>Running the timeouts\<close>

definition tcpip_tcp_timer :: "tcp_callbacks \<Rightarrow> stack \<Rightarrow> stack option" where
  "tcpip_tcp_timer cb s = do {
     s \<leftarrow> tcp_tmr cb s;
     if tg_active (st_tcp s) \<noteq> [] \<or> tg_tw (st_tcp s) \<noteq> [] then sys_timeout TCP_TMR_INTERVAL (Some fn_tcpip_tcp_timer) arg_null s
     else Some (s\<lparr>st_tcp_timer_active := False\<rparr>)
   }"

text \<open>The array \<open>lwip_cyclic_timers\<close>: interval and handler; the only handler is \<open>tcp_tmr\<close>.\<close>

definition lwip_cyclic_timers :: "u32 list" where "lwip_cyclic_timers = [TCP_TMR_INTERVAL]"

definition lwip_cyclic_timer :: "tcp_callbacks \<Rightarrow> timeout_arg \<Rightarrow> stack \<Rightarrow> stack option" where
  "lwip_cyclic_timer cb arg s = (case arg of
      arg_null \<Rightarrow> None
    | arg_cyclic i \<Rightarrow> do {
        lwip_assert (i < length lwip_cyclic_timers);
        s \<leftarrow> tcp_tmr cb s;
        let now = sys_now s;
        let next = st_timeout_due s + lwip_cyclic_timers ! i;
        if TIME_LESS_THAN next now then sys_timeout_abs (now + lwip_cyclic_timers ! i) (Some fn_lwip_cyclic_timer) arg s
        else sys_timeout_abs next (Some fn_lwip_cyclic_timer) arg s
      })"

text \<open>The timers of \<open>lwip_cyclic_timers\<close> behind the first one, which is the one of TCP.\<close>

fun sys_timeouts_init_from :: "nat \<Rightarrow> u32 list \<Rightarrow> stack \<Rightarrow> stack option" where
  "sys_timeouts_init_from i [] s = Some s"
| "sys_timeouts_init_from i (t # ts) s = do {
     s \<leftarrow> sys_timeout t (Some fn_lwip_cyclic_timer) (arg_cyclic i) s;
     sys_timeouts_init_from (i + 1) ts s
   }"

definition sys_timeouts_init :: "stack \<Rightarrow> stack option" where
  "sys_timeouts_init s = sys_timeouts_init_from 1 (tl lwip_cyclic_timers) s"

definition run_timeout :: "tcp_callbacks \<Rightarrow> sys_timeo \<Rightarrow> stack \<Rightarrow> stack option" where
  "run_timeout cb t s = (case to_h t of
      None \<Rightarrow> Some s
    | Some fn_tcpip_tcp_timer \<Rightarrow> tcpip_tcp_timer cb s
    | Some fn_lwip_cyclic_timer \<Rightarrow> lwip_cyclic_timer cb (to_arg t) s)"

partial_function (option) sys_check_timeouts_loop :: "tcp_callbacks \<Rightarrow> u32 \<Rightarrow> stack \<Rightarrow> stack option" where
  "sys_check_timeouts_loop cb now s = (case st_next_timeout s of
      [] \<Rightarrow> Some s
    | t # ts \<Rightarrow>
        if TIME_LESS_THAN now (to_time t) then Some s
        else do {
          s \<leftarrow> run_timeout cb t (s\<lparr>st_next_timeout := ts, st_timeout_due := to_time t\<rparr>);
          sys_check_timeouts_loop cb now s
        })"

definition sys_check_timeouts :: "tcp_callbacks \<Rightarrow> stack \<Rightarrow> stack option" where
  "sys_check_timeouts cb s = sys_check_timeouts_loop cb (sys_now s) s"

section \<open>Memory pressure\<close>

fun tcp_free_first_ooseq :: "addr list \<Rightarrow> stack \<Rightarrow> stack option" where
  "tcp_free_first_ooseq [] s = Some s"
| "tcp_free_first_ooseq (a # as) s = do {
     p \<leftarrow> tcp_pcb_at a s;
     if tp_ooseq p \<noteq> [] then tcp_free_ooseq a s else tcp_free_first_ooseq as s
   }"

definition pbuf_free_ooseq :: "stack \<Rightarrow> stack option" where
  "pbuf_free_ooseq s = tcp_free_first_ooseq (tg_active (st_tcp s)) (s\<lparr>st_heap := (st_heap s)\<lparr>hp_ooseq_pending := False\<rparr>\<rparr>)"

section \<open>The list of timeouts as a queue over unbounded time\<close>

text \<open>The abstract queue: entries with unbounded times, in the order in which they are due.\<close>

type_synonym timer_queue = "(int \<times> sys_timeout_handler option \<times> timeout_arg) list"

definition tq_insert :: "int \<times> sys_timeout_handler option \<times> timeout_arg \<Rightarrow> timer_queue \<Rightarrow> timer_queue" where
  "tq_insert e q = takeWhile (\<lambda>x. fst x \<le> fst e) q @ e # dropWhile (\<lambda>x. fst x \<le> fst e) q"

fun tq_remove :: "sys_timeout_handler option \<times> timeout_arg \<Rightarrow> timer_queue \<Rightarrow> timer_queue" where
  "tq_remove h [] = []"
| "tq_remove h (e # q) = (if snd e = h then q else e # tq_remove h q)"

definition tq_entry :: "int \<times> sys_timeout_handler option \<times> timeout_arg \<Rightarrow> sys_timeo" where
  "tq_entry e = \<lparr>to_time = of_int (fst e), to_h = fst (snd e), to_arg = snd (snd e)\<rparr>"

text \<open>The list stands for the queue at the time \<open>now\<close>; everything is within about twelve days of it.\<close>

definition timeouts_rel :: "int \<Rightarrow> timer_queue \<Rightarrow> stack \<Rightarrow> bool" where
  "timeouts_rel now q s \<longleftrightarrow> sys_now s = of_int now \<and> st_next_timeout s = map tq_entry q \<and> sorted (map fst q)
     \<and> (\<forall>e \<in> set q. \<bar>fst e - now\<bar> < 2 ^ 30)"

lemma time_less_than_int:
  assumes "\<bar>x - y\<bar> < 2 ^ 31"
  shows "TIME_LESS_THAN (of_int x) (of_int y) \<longleftrightarrow> x < y"
proof -
  have w: "of_int x - of_int y = (of_int (x - y) :: u32)" by simp
  have u: "uint (of_int (x - y) :: u32) = (x - y) mod 2 ^ 32" by (simp only: uint_word_of_int) simp
  have "(x - y) mod 2 ^ 32 = (if x < y then x - y + 2 ^ 32 else x - y)"
  proof (cases "x < y")
    case True
    have "(x - y) mod 2 ^ 32 = (x - y + 2 ^ 32) mod 2 ^ 32" by simp
    also have "\<dots> = x - y + 2 ^ 32" using True assms by (intro mod_pos_pos_trivial) auto
    finally show ?thesis using True by simp
  qed (use assms in auto)
  then show ?thesis using assms
    by (auto simp: TIME_LESS_THAN_def LWIP_MAX_TIMEOUT_def w word_less_def u simp del: of_int_diff)
qed

lemma timeout_insert_tq:
  assumes "\<forall>x \<in> set q. \<bar>fst e - fst x\<bar> < 2 ^ 31"
  shows "timeout_insert (tq_entry e) (map tq_entry q) = map tq_entry (tq_insert e q)"
  using assms
proof (induction q)
  case (Cons x q)
  then have "TIME_LESS_THAN (to_time (tq_entry e)) (to_time (tq_entry x)) \<longleftrightarrow> fst e < fst x"
    by (simp add: tq_entry_def time_less_than_int)
  then show ?case using Cons by (simp add: tq_insert_def not_le)
qed (simp add: tq_insert_def)

lemma tq_insert_sorted: "sorted (map fst q) \<Longrightarrow> sorted (map fst (tq_insert e q))"
  by (induction q) (auto simp: tq_insert_def dest: set_takeWhileD set_dropWhileD intro: order_trans)

lemma set_tq_insert [simp]: "set (tq_insert e q) = insert e (set q)"
  by (auto simp: tq_insert_def dest: set_takeWhileD set_dropWhileD) (metis takeWhile_dropWhile_id Un_iff set_append)

lemma timeout_remove_tq: "timeout_remove h a (map tq_entry q) = map tq_entry (tq_remove (h, a) q)"
  by (induction q) (auto simp: tq_entry_def)

lemma set_tq_remove: "set (tq_remove h q) \<subseteq> set q"
  by (induction q) auto

lemma sorted_tq_remove: "sorted (map fst q) \<Longrightarrow> sorted (map fst (tq_remove h q))"
  by (induction q) (use set_tq_remove in fastforce)+

lemma sys_timeout_rel:
  assumes "timeouts_rel now q s" "msecs \<le> 0x3FFFFFFF" "\<not> hp_oom (st_heap s) (hp_brk (st_heap s))"
  shows "\<exists>s'. sys_timeout msecs h a s = Some s' \<and> timeouts_rel now (tq_insert (now + uint msecs, h, a) q) s'"
proof -
  let ?e = "(now + uint msecs, h, a)"
  have u: "0 \<le> uint msecs" "uint msecs < 2 ^ 30" using assms(2) by (simp_all add: word_le_def)
  have "\<bar>fst ?e - fst x\<bar> < 2 ^ 31" if "x \<in> set q" for x
  proof -
    have "\<bar>fst x - now\<bar> < 2 ^ 30" using assms(1) that by (simp add: timeouts_rel_def)
    moreover have "(2 :: int) ^ 31 = 2 * 2 ^ 30" by simp
    ultimately show ?thesis using u unfolding fst_conv by linarith
  qed
  then have "\<forall>x \<in> set q. \<bar>fst ?e - fst x\<bar> < 2 ^ 31" by blast
  note ins = timeout_insert_tq [OF this]
  have "sys_now s + msecs = of_int (fst ?e)" using assms(1) by (simp add: timeouts_rel_def)
  then have e: "\<lparr>to_time = sys_now s + msecs, to_h = h, to_arg = a\<rparr> = tq_entry ?e" by (simp add: tq_entry_def)
  have m: "msecs \<le> 0xFFFFFFFF div 4" using assms(2) by simp
  show ?thesis
    using assms(1,3) u m tq_insert_sorted [of q ?e] ins e
    by (auto simp: sys_timeout_def sys_timeout_abs_def mem_malloc_def timeouts_rel_def sys_now_def)
qed

lemma sys_untimeout_rel: "timeouts_rel now q s \<Longrightarrow> timeouts_rel now (tq_remove (h, a) q) (sys_untimeout h a s)"
  using set_tq_remove [of "(h, a)" q] by (auto simp: timeouts_rel_def sys_untimeout_def timeout_remove_tq sorted_tq_remove sys_now_def)

lemma sys_timeouts_sleeptime_rel:
  assumes "timeouts_rel now q s"
  shows "sys_timeouts_sleeptime s = Some (case q of [] \<Rightarrow> SYS_TIMEOUTS_SLEEPTIME_INFINITE | e # _ \<Rightarrow> of_int (max 0 (fst e - now)))"
proof (cases q)
  case (Cons e q')
  then have e: "\<bar>fst e - now\<bar> < 2 ^ 30" using assms by (simp add: timeouts_rel_def)
  have "of_int (fst e - now) \<le> LWIP_MAX_TIMEOUT" if "now \<le> fst e"
  proof -
    have "uint (of_int (fst e - now) :: u32) = fst e - now" using that e by (simp only: uint_word_of_int) simp
    then show ?thesis using e by (simp add: word_le_def LWIP_MAX_TIMEOUT_def del: of_int_diff)
  qed
  then show ?thesis
    using assms Cons e by (auto simp: sys_timeouts_sleeptime_def timeouts_rel_def time_less_than_int tq_entry_def Let_def max_def)
qed (use assms in \<open>simp add: sys_timeouts_sleeptime_def timeouts_rel_def\<close>)

lemma sys_check_timeouts_rel:
  assumes "timeouts_rel now q s"
  shows "sys_check_timeouts cb s = (case q of
      e # q' \<Rightarrow> if fst e \<le> now then do {
          s \<leftarrow> run_timeout cb (tq_entry e) (s\<lparr>st_next_timeout := map tq_entry q', st_timeout_due := of_int (fst e)\<rparr>);
          sys_check_timeouts_loop cb (of_int now) s
        } else Some s
    | [] \<Rightarrow> Some s)"
proof (cases q)
  case (Cons e q')
  then have "TIME_LESS_THAN (of_int now) (of_int (fst e)) \<longleftrightarrow> now < fst e"
    using assms by (intro time_less_than_int) (auto simp: timeouts_rel_def)
  then show ?thesis
    using assms Cons by (simp add: sys_check_timeouts_def sys_check_timeouts_loop.simps [of cb "of_int now" s] timeouts_rel_def tq_entry_def)
qed (use assms in \<open>simp add: sys_check_timeouts_def sys_check_timeouts_loop.simps [of cb "of_int now" s] timeouts_rel_def\<close>)

text \<open>C17: The list of timeouts implements a queue over unbounded time, although its times are absolute times in 32 bit
  milliseconds, which wrap around: for entries within twelve days of the clock, \<open>sys_timeout\<close> inserts an entry
  behind all that are not due later, \<open>sys_untimeout\<close> removes the first entry of a handler and argument,
  \<open>sys_timeouts_sleeptime\<close> is the time to the first entry (0 when it is overdue), and \<open>sys_check_timeouts\<close> runs
  the first entry if and only if it is due.\<close>

theorem timeouts_refine_queue:
  assumes "timeouts_rel now q s"
  shows "(msecs \<le> 0x3FFFFFFF \<and> \<not> hp_oom (st_heap s) (hp_brk (st_heap s)) \<longrightarrow>
      (\<exists>s'. sys_timeout msecs h a s = Some s' \<and> timeouts_rel now (tq_insert (now + uint msecs, h, a) q) s'))
    \<and> timeouts_rel now (tq_remove (h, a) q) (sys_untimeout h a s)
    \<and> sys_timeouts_sleeptime s = Some (case q of [] \<Rightarrow> SYS_TIMEOUTS_SLEEPTIME_INFINITE | e # _ \<Rightarrow> of_int (max 0 (fst e - now)))
    \<and> sys_check_timeouts cb s = (case q of
        e # q' \<Rightarrow> if fst e \<le> now then do {
            s \<leftarrow> run_timeout cb (tq_entry e) (s\<lparr>st_next_timeout := map tq_entry q', st_timeout_due := of_int (fst e)\<rparr>);
            sys_check_timeouts_loop cb (of_int now) s
          } else Some s
      | [] \<Rightarrow> Some s)"
  using sys_timeout_rel [OF assms] sys_untimeout_rel [OF assms] sys_timeouts_sleeptime_rel [OF assms] sys_check_timeouts_rel [OF assms]
  by simp

text \<open>Across the wrap-around of the clock.\<close>

theorem timeouts_refine_queue_witness:
  "\<exists>s'. sys_timeout 250 (Some fn_tcpip_tcp_timer) arg_null ((stack_zero ex_heap)\<lparr>st_now := 0xFFFFFFF0,
      st_next_timeout := [\<lparr>to_time = 0xFFFFFFF8, to_h = None, to_arg = arg_null\<rparr>, \<lparr>to_time = 0x200, to_h = None, to_arg = arg_null\<rparr>]\<rparr>) = Some s'
    \<and> map to_time (st_next_timeout s') = [0xFFFFFFF8, 234, 0x200]"
proof -
  let ?s = "(stack_zero ex_heap)\<lparr>st_now := 0xFFFFFFF0, st_next_timeout := [\<lparr>to_time = 0xFFFFFFF8, to_h = None, to_arg = arg_null\<rparr>,
      \<lparr>to_time = 0x200, to_h = None, to_arg = arg_null\<rparr>]\<rparr>"
  let ?q = "[(0xFFFFFFF8, None, arg_null), (0x100000200, None, arg_null)] :: timer_queue"
  have r: "timeouts_rel 0xFFFFFFF0 ?q ?s"
    by (simp add: timeouts_rel_def sys_now_def tq_entry_def)
  have o: "\<not> hp_oom (st_heap ?s) (hp_brk (st_heap ?s))" by (simp add: stack_zero_def ex_heap_def)
  have m: "(250 :: u32) \<le> 0x3FFFFFFF" by simp
  obtain s' where s': "sys_timeout 250 (Some fn_tcpip_tcp_timer) arg_null ?s = Some s'"
      "timeouts_rel 0xFFFFFFF0 (tq_insert (0xFFFFFFF0 + uint (250 :: u32), Some fn_tcpip_tcp_timer, arg_null) ?q) s'"
    using mp [OF conjunct1 [OF timeouts_refine_queue [OF r]] conjI [OF m o]] by blast
  moreover have "tq_insert (0xFFFFFFF0 + uint (250 :: u32), Some fn_tcpip_tcp_timer, arg_null) ?q
      = [(0xFFFFFFF8, None, arg_null), (0x1000000EA, Some fn_tcpip_tcp_timer, arg_null), (0x100000200, None, arg_null)]"
    by (simp add: tq_insert_def)
  moreover have "map (\<lambda>t. of_int t :: u32) [0xFFFFFFF8, 0x1000000EA, 0x100000200] = [0xFFFFFFF8, 234, 0x200]" by code_simp
  ultimately show ?thesis by (simp add: timeouts_rel_def tq_entry_def)
qed

end
