(* ===== verification/Tcp_Opt.thy ===== *)
theory Tcp_Opt
  imports Tcp
begin

text \<open>
  The options of a received TCP header (\<open>tcp_get_next_optbyte\<close>, \<open>tcp_parseopt\<close> of \<open>tcp_in.c\<close>) and the table of
  selective acknowledgements (\<open>tcp_add_sack\<close>, \<open>tcp_remove_sacks_lt\<close>).

  The options may be split over two pbufs: the first \<open>ti_opt1len\<close> bytes follow the header, the others are
  behind \<open>ti_opt2\<close>.
\<close>

unbundle bit_operations_syntax

definition upd_in :: "(tcp_in_vars \<Rightarrow> tcp_in_vars) \<Rightarrow> stack \<Rightarrow> stack" where
  "upd_in f s = s\<lparr>st_tcp_in := f (st_tcp_in s)\<rparr>"

section \<open>Options\<close>

definition LWIP_TCP_OPT_EOL :: u8 where "LWIP_TCP_OPT_EOL = 0"
definition LWIP_TCP_OPT_NOP :: u8 where "LWIP_TCP_OPT_NOP = 1"
definition LWIP_TCP_OPT_MSS :: u8 where "LWIP_TCP_OPT_MSS = 2"
definition LWIP_TCP_OPT_WS :: u8 where "LWIP_TCP_OPT_WS = 3"
definition LWIP_TCP_OPT_SACK_PERM :: u8 where "LWIP_TCP_OPT_SACK_PERM = 4"

definition tcp_get_next_optbyte :: "stack \<Rightarrow> (u8 \<times> stack) option" where
  "tcp_get_next_optbyte s = do {
     let v = st_tcp_in s;
     let optidx = ti_optidx v;
     b \<leftarrow> (if ti_opt2 v = None \<or> optidx < ti_opt1len v then read_u8 (st_heap s) (ti_tcphdr v) (TCP_HLEN + unat optidx)
           else read_u8 (st_heap s) (ti_opt2 v) (unat (ucast (optidx - ti_opt1len v) :: u8)));
     Some (b, s\<lparr>st_tcp_in := v\<lparr>ti_optidx := optidx + 1\<rparr>\<rparr>)
   }"

text \<open>
  \<open>tcp_get_next_optbyte() != len || (tcp_optidx - 2 + len) > tcphdr_optlen\<close>, in the arithmetic of \<open>int\<close>.
\<close>

definition tcp_opt_bad :: "u8 \<Rightarrow> stack \<Rightarrow> (bool \<times> stack) option" where
  "tcp_opt_bad len s = do {
     (b, s) \<leftarrow> tcp_get_next_optbyte s;
     Some (b \<noteq> len \<or> int (unat (ti_optidx (st_tcp_in s))) - 2 + int (unat len) > int (unat (ti_optlen (st_tcp_in s))), s)
   }"

definition tcp_opt_mss :: "addr \<Rightarrow> stack \<Rightarrow> stack option" where
  "tcp_opt_mss a s = do {
     (hi, s) \<leftarrow> tcp_get_next_optbyte s;
     (lo, s) \<leftarrow> tcp_get_next_optbyte s;
     let mss = push_bit 8 (ucast hi) OR ucast lo;
     upd_tcp_pcb a (\<lambda>p. p\<lparr>tp_mss := (if mss > TCP_MSS \<or> mss = 0 then TCP_MSS else mss)\<rparr>) s
   }"

definition tcp_opt_ws :: "addr \<Rightarrow> stack \<Rightarrow> stack option" where
  "tcp_opt_ws a s = do {
     (data, s) \<leftarrow> tcp_get_next_optbyte s;
     p \<leftarrow> tcp_pcb_at a s;
     if ti_flags (st_tcp_in s) AND TCP_SYN \<noteq> 0 \<and> tp_flags p AND TF_WND_SCALE = 0 then do {
       lwip_assert (tp_rcv_wnd p = ucast (TCPWND_MIN16 TCP_WND));
       lwip_assert (tp_rcv_ann_wnd p = ucast (TCPWND_MIN16 TCP_WND));
       Some (put_tcp_pcb a ((tcp_set_flags TF_WND_SCALE p)\<lparr>tp_snd_scale := (if data > 14 then 14 else data), tp_rcv_scale := TCP_RCV_SCALE,
         tp_rcv_wnd := TCP_WND, tp_rcv_ann_wnd := TCP_WND\<rparr>) s)
     } else Some s
   }"

definition tcp_opt_sack_perm :: "addr \<Rightarrow> stack \<Rightarrow> stack option" where
  "tcp_opt_sack_perm a s = (if ti_flags (st_tcp_in s) AND TCP_SYN \<noteq> 0 then upd_tcp_pcb a (tcp_set_flags TF_SACK) s else Some s)"

text \<open>One option; the first component of the result says whether the loop goes on.\<close>

definition tcp_parseopt_step :: "addr \<Rightarrow> stack \<Rightarrow> (bool \<times> stack) option" where
  "tcp_parseopt_step a s = do {
     (opt, s) \<leftarrow> tcp_get_next_optbyte s;
     if opt = LWIP_TCP_OPT_EOL then Some (False, s)
     else if opt = LWIP_TCP_OPT_NOP then Some (True, s)
     else if opt = LWIP_TCP_OPT_MSS then do {
       (bad, s) \<leftarrow> tcp_opt_bad 4 s;
       if bad then Some (False, s) else do { s \<leftarrow> tcp_opt_mss a s; Some (True, s) }
     } else if opt = LWIP_TCP_OPT_WS then do {
       (bad, s) \<leftarrow> tcp_opt_bad 3 s;
       if bad then Some (False, s) else do { s \<leftarrow> tcp_opt_ws a s; Some (True, s) }
     } else if opt = LWIP_TCP_OPT_SACK_PERM then do {
       (bad, s) \<leftarrow> tcp_opt_bad 2 s;
       if bad then Some (False, s) else do { s \<leftarrow> tcp_opt_sack_perm a s; Some (True, s) }
     } else do {
       (data, s) \<leftarrow> tcp_get_next_optbyte s;
       if data < 2 then Some (False, s)
       else Some (True, upd_in (\<lambda>v. v\<lparr>ti_optidx := ti_optidx v + (ucast data - 2)\<rparr>) s)
     }
   }"

partial_function (option) tcp_parseopt_loop :: "addr \<Rightarrow> stack \<Rightarrow> stack option" where
  "tcp_parseopt_loop a s =
     (if ti_optidx (st_tcp_in s) < ti_optlen (st_tcp_in s) then do {
        (go, s) \<leftarrow> tcp_parseopt_step a s;
        if go then tcp_parseopt_loop a s else Some s
      } else Some s)"

definition tcp_parseopt :: "addr \<Rightarrow> stack \<Rightarrow> stack option" where
  "tcp_parseopt a s =
     (if ti_optlen (st_tcp_in s) \<noteq> 0 then tcp_parseopt_loop a (upd_in (\<lambda>v. v\<lparr>ti_optidx := 0\<rparr>) s) else Some s)"

section \<open>Selective acknowledgements\<close>

text \<open>The table is an array of \<open>LWIP_TCP_MAX_SACK_NUM\<close> ranges; a range is valid when its ends differ.\<close>

definition LWIP_TCP_SACK_VALID :: "tcp_pcb \<Rightarrow> nat \<Rightarrow> bool" where
  "LWIP_TCP_SACK_VALID pcb i \<longleftrightarrow> fst (tp_rcv_sacks pcb ! i) \<noteq> snd (tp_rcv_sacks pcb ! i)"

text \<open>The first loop of \<open>tcp_add_sack\<close>: the ranges that do not touch the new one move to the front.\<close>

function sacks_keep :: "u32 \<Rightarrow> u32 \<Rightarrow> nat \<Rightarrow> nat \<Rightarrow> (u32 \<times> u32) list \<Rightarrow> nat \<times> (u32 \<times> u32) list" where
  "sacks_keep left right i unused_idx sacks =
     (if i < LWIP_TCP_MAX_SACK_NUM \<and> fst (sacks ! i) \<noteq> snd (sacks ! i) then
        (if TCP_SEQ_LEQ (snd (sacks ! i)) left \<or> TCP_SEQ_LEQ right (fst (sacks ! i))
         then sacks_keep left right (i + 1) (unused_idx + 1) (if unused_idx \<noteq> i then sacks[unused_idx := sacks ! i] else sacks)
         else sacks_keep left right (i + 1) unused_idx sacks)
      else (unused_idx, sacks))"
  by pat_completeness auto
termination by (relation "measure (\<lambda>(_, _, i, _, _). LWIP_TCP_MAX_SACK_NUM - i)") auto

declare sacks_keep.simps [simp del]

text \<open>The second loop, for \<open>i\<close> from the end down to 1: one place to the right.\<close>

fun sacks_shift :: "nat \<Rightarrow> nat \<Rightarrow> (u32 \<times> u32) list \<Rightarrow> (u32 \<times> u32) list" where
  "sacks_shift 0 unused_idx sacks = sacks"
| "sacks_shift (Suc i) unused_idx sacks = sacks_shift i unused_idx (sacks[Suc i := (if i \<ge> unused_idx then (0, 0) else sacks ! i)])"

definition tcp_add_sack :: "u32 \<Rightarrow> u32 \<Rightarrow> tcp_pcb \<Rightarrow> tcp_pcb" where
  "tcp_add_sack left right pcb =
     (if tp_flags pcb AND TF_SACK = 0 \<or> \<not> TCP_SEQ_LT left right then pcb
      else (let (unused_idx, sacks) = sacks_keep left right 0 0 (tp_rcv_sacks pcb);
                sacks = sacks_shift (LWIP_TCP_MAX_SACK_NUM - 1) unused_idx sacks
            in pcb\<lparr>tp_rcv_sacks := sacks[0 := (left, right)]\<rparr>))"

text \<open>The first loop of \<open>tcp_remove_sacks_lt\<close>: the ranges that end behind \<open>seq\<close> move to the front, cut at \<open>seq\<close>.\<close>

function sacks_cut :: "u32 \<Rightarrow> nat \<Rightarrow> nat \<Rightarrow> (u32 \<times> u32) list \<Rightarrow> nat \<times> (u32 \<times> u32) list" where
  "sacks_cut sq i unused_idx sacks =
     (if i < LWIP_TCP_MAX_SACK_NUM \<and> fst (sacks ! i) \<noteq> snd (sacks ! i) then
        (if TCP_SEQ_GT (snd (sacks ! i)) sq then
           (let sacks = (if unused_idx \<noteq> i then sacks[unused_idx := sacks ! i] else sacks);
                sacks = (if TCP_SEQ_LT (fst (sacks ! unused_idx)) sq then sacks[unused_idx := (sq, snd (sacks ! unused_idx))] else sacks)
            in sacks_cut sq (i + 1) (unused_idx + 1) sacks)
         else sacks_cut sq (i + 1) unused_idx sacks)
      else (unused_idx, sacks))"
  by pat_completeness auto
termination by (relation "measure (\<lambda>(_, i, _, _). LWIP_TCP_MAX_SACK_NUM - i)") auto

declare sacks_cut.simps [simp del]

text \<open>The second loop: the entries from \<open>i\<close> on are zeroed.\<close>

definition sacks_zero :: "nat \<Rightarrow> (u32 \<times> u32) list \<Rightarrow> (u32 \<times> u32) list" where
  "sacks_zero i sacks = take i sacks @ replicate (LWIP_TCP_MAX_SACK_NUM - i) (0, 0)"

definition tcp_remove_sacks_lt :: "u32 \<Rightarrow> tcp_pcb \<Rightarrow> tcp_pcb" where
  "tcp_remove_sacks_lt sq pcb = (let (unused_idx, sacks) = sacks_cut sq 0 0 (tp_rcv_sacks pcb) in pcb\<lparr>tp_rcv_sacks := sacks_zero unused_idx sacks\<rparr>)"

section \<open>What the table of ranges holds\<close>

definition sack_valid :: "u32 \<times> u32 \<Rightarrow> bool" where
  "sack_valid r \<longleftrightarrow> fst r \<noteq> snd r"

definition sack_apart :: "u32 \<Rightarrow> u32 \<Rightarrow> u32 \<times> u32 \<Rightarrow> bool" where
  "sack_apart left right r \<longleftrightarrow> TCP_SEQ_LEQ (snd r) left \<or> TCP_SEQ_LEQ right (fst r)"

definition sack_clip :: "u32 \<Rightarrow> u32 \<times> u32 \<Rightarrow> u32 \<times> u32" where
  "sack_clip sq r = (if TCP_SEQ_LT (fst r) sq then (sq, snd r) else r)"

text \<open>A table with the given ranges at its front.\<close>

definition sack_table :: "(u32 \<times> u32) list \<Rightarrow> (u32 \<times> u32) list" where
  "sack_table rs = take LWIP_TCP_MAX_SACK_NUM (rs @ replicate LWIP_TCP_MAX_SACK_NUM (0, 0))"

lemma take_Suc_move:
  assumes "u \<le> i" "i < length xs"
  shows "take (Suc u) (if u \<noteq> i then xs[u := xs ! i] else xs) = take u xs @ [xs ! i]"
    "drop (Suc i) (if u \<noteq> i then xs[u := xs ! i] else xs) = drop (Suc i) xs"
  using assms by (simp_all add: take_Suc_conv_app_nth)

lemma sacks_keep_spec:
  assumes "u \<le> i" "i \<le> length xs" "length xs = LWIP_TCP_MAX_SACK_NUM" "sacks_keep l r i u xs = (u', xs')"
  shows "take u' xs' = take u xs @ filter (sack_apart l r) (takeWhile sack_valid (drop i xs)) \<and> length xs' = length xs \<and> u' \<le> length xs"
  using assms
proof (induction l r i u xs rule: sacks_keep.induct)
  case (1 l r i u xs)
  let ?ys = "if u \<noteq> i then xs[u := xs ! i] else xs"
  show ?case
  proof (cases "i < LWIP_TCP_MAX_SACK_NUM \<and> fst (xs ! i) \<noteq> snd (xs ! i)")
    case False
    then have "takeWhile sack_valid (drop i xs) = []"
      using 1(5) by (cases "i < length xs") (auto simp: sack_valid_def Cons_nth_drop_Suc [symmetric])
    then show ?thesis using False 1(3-6) by (auto simp: sacks_keep.simps [of l r i])
  next
    case True
    then have i: "i < length xs" using 1(5) by simp
    then have d: "drop i xs = xs ! i # drop (Suc i) xs" "sack_valid (xs ! i)" using True by (simp_all add: Cons_nth_drop_Suc sack_valid_def)
    show ?thesis
    proof (cases "sack_apart l r (xs ! i)")
      case True': True
      then have "sacks_keep l r (i + 1) (u + 1) ?ys = (u', xs')"
        using 1(6) True by (simp add: sacks_keep.simps [of l r i] sack_apart_def)
      then have "take u' xs' = take (u + 1) ?ys @ filter (sack_apart l r) (takeWhile sack_valid (drop (i + 1) ?ys))
          \<and> length xs' = length ?ys \<and> u' \<le> length ?ys"
        using 1(1) [OF True] True' 1(3,5) i unfolding sack_apart_def by simp
      then show ?thesis using True' d take_Suc_move [OF 1(3) i] by (simp split: if_splits)
    next
      case False
      then have "sacks_keep l r (i + 1) u xs = (u', xs')"
        using 1(6) True by (simp add: sacks_keep.simps [of l r i] sack_apart_def)
      then have "take u' xs' = take u xs @ filter (sack_apart l r) (takeWhile sack_valid (drop (i + 1) xs)) \<and> length xs' = length xs \<and> u' \<le> length xs"
        using 1(2) [OF True] False 1(3,5) i unfolding sack_apart_def by simp
      then show ?thesis using False d by simp
    qed
  qed
qed

lemma sacks_shift_nth:
  "n < length xs \<Longrightarrow> length (sacks_shift n u xs) = length xs \<and> (\<forall>j < length xs. sacks_shift n u xs ! j =
     (if 0 < j \<and> j \<le> n then (if u \<le> j - 1 then (0, 0) else xs ! (j - 1)) else xs ! j))"
  by (induction n u xs rule: sacks_shift.induct) (auto simp: nth_list_update le_Suc_eq)

lemma sack_table_nth: "j < LWIP_TCP_MAX_SACK_NUM \<Longrightarrow> sack_table rs ! j = (if j < length rs then rs ! j else (0, 0))"
  by (simp add: sack_table_def nth_append)

lemma length_sack_table [simp]: "length (sack_table rs) = LWIP_TCP_MAX_SACK_NUM"
  by (simp add: sack_table_def)

lemma tcp_add_sack_table:
  assumes "length (tp_rcv_sacks p) = LWIP_TCP_MAX_SACK_NUM" "tp_flags p AND TF_SACK \<noteq> 0" "TCP_SEQ_LT l r"
  shows "tcp_add_sack l r p = p\<lparr>tp_rcv_sacks := sack_table ((l, r) # filter (sack_apart l r) (takeWhile sack_valid (tp_rcv_sacks p)))\<rparr>"
proof -
  obtain u xs where k: "sacks_keep l r 0 0 (tp_rcv_sacks p) = (u, xs)" by fastforce
  let ?F = "filter (sack_apart l r) (takeWhile sack_valid (tp_rcv_sacks p))"
  have x: "take u xs = ?F" "length xs = LWIP_TCP_MAX_SACK_NUM" "u \<le> LWIP_TCP_MAX_SACK_NUM"
    using sacks_keep_spec [OF _ _ assms(1) k] assms(1) by simp_all
  then have F: "length ?F = u" "\<And>j. j < u \<Longrightarrow> ?F ! j = xs ! j" by (metis length_take min.absorb2, metis nth_take)
  have n: "LWIP_TCP_MAX_SACK_NUM - 1 < length xs" using x(2) by (simp add: LWIP_TCP_MAX_SACK_NUM_def)
  note s = sacks_shift_nth [OF n, of u]
  have "(sacks_shift (LWIP_TCP_MAX_SACK_NUM - 1) u xs)[0 := (l, r)] = sack_table ((l, r) # ?F)"
  proof (rule nth_equalityI)
    fix j assume j: "j < length ((sacks_shift (LWIP_TCP_MAX_SACK_NUM - 1) u xs)[0 := (l, r)])"
    then have jm: "j < LWIP_TCP_MAX_SACK_NUM" using s x(2) by simp
    show "(sacks_shift (LWIP_TCP_MAX_SACK_NUM - 1) u xs)[0 := (l, r)] ! j = sack_table ((l, r) # ?F) ! j"
      using s jm x(2) F n by (cases j) (auto simp: sack_table_nth)
  qed (use s x(2) in simp)
  then show ?thesis using assms(2,3) k by (simp add: tcp_add_sack_def)
qed

lemma sacks_cut_spec:
  assumes "u \<le> i" "i \<le> length xs" "length xs = LWIP_TCP_MAX_SACK_NUM" "sacks_cut sq i u xs = (u', xs')"
  shows "take u' xs' = take u xs @ map (sack_clip sq) (filter (\<lambda>r. TCP_SEQ_GT (snd r) sq) (takeWhile sack_valid (drop i xs)))
    \<and> length xs' = length xs \<and> u' \<le> length xs"
  using assms
proof (induction sq i u xs rule: sacks_cut.induct)
  case (1 sq i u xs)
  let ?ys = "if u \<noteq> i then xs[u := xs ! i] else xs"
  let ?zs = "if TCP_SEQ_LT (fst (?ys ! u)) sq then ?ys[u := (sq, snd (?ys ! u))] else ?ys"
  show ?case
  proof (cases "i < LWIP_TCP_MAX_SACK_NUM \<and> fst (xs ! i) \<noteq> snd (xs ! i)")
    case False
    then have "takeWhile sack_valid (drop i xs) = []"
      using 1(5) by (cases "i < length xs") (auto simp: sack_valid_def Cons_nth_drop_Suc [symmetric])
    then show ?thesis using False 1(3-6) by (auto simp: sacks_cut.simps [of sq i])
  next
    case True
    then have i: "i < length xs" using 1(5) by simp
    then have d: "drop i xs = xs ! i # drop (Suc i) xs" "sack_valid (xs ! i)" using True by (simp_all add: Cons_nth_drop_Suc sack_valid_def)
    show ?thesis
    proof (cases "TCP_SEQ_GT (snd (xs ! i)) sq")
      case True': True
      have y: "?ys ! u = xs ! i" "length ?ys = length xs" using i 1(3) by auto
      have z: "take (Suc u) ?zs = take u xs @ [sack_clip sq (xs ! i)]" "drop (Suc i) ?zs = drop (Suc i) xs" "length ?zs = length xs"
        using i 1(3) by (auto simp: sack_clip_def take_Suc_conv_app_nth)
      have "sacks_cut sq (i + 1) (u + 1) ?zs = (u', xs')"
        using 1(6) True True' by (simp add: sacks_cut.simps [of sq i] Let_def)
      then have "take u' xs' = take (u + 1) ?zs @ map (sack_clip sq) (filter (\<lambda>r. TCP_SEQ_GT (snd r) sq) (takeWhile sack_valid (drop (i + 1) ?zs)))
          \<and> length xs' = length ?zs \<and> u' \<le> length ?zs"
        using 1(1) [OF True True' refl refl] 1(3,5) i z(3) by simp
      then show ?thesis using True' d z by simp
    next
      case False
      then have "sacks_cut sq (i + 1) u xs = (u', xs')"
        using 1(6) True by (simp add: sacks_cut.simps [of sq i])
      then have "take u' xs' = take u xs @ map (sack_clip sq) (filter (\<lambda>r. TCP_SEQ_GT (snd r) sq) (takeWhile sack_valid (drop (i + 1) xs)))
          \<and> length xs' = length xs \<and> u' \<le> length xs"
        using 1(2) [OF True False] 1(3,5) i by simp
      then show ?thesis using False d by simp
    qed
  qed
qed

lemma tcp_remove_sacks_lt_table:
  assumes "length (tp_rcv_sacks p) = LWIP_TCP_MAX_SACK_NUM"
  shows "tcp_remove_sacks_lt sq p = p\<lparr>tp_rcv_sacks := sack_table (map (sack_clip sq) (filter (\<lambda>r. TCP_SEQ_GT (snd r) sq)
    (takeWhile sack_valid (tp_rcv_sacks p))))\<rparr>"
proof -
  obtain u xs where k: "sacks_cut sq 0 0 (tp_rcv_sacks p) = (u, xs)" by fastforce
  have x: "take u xs = map (sack_clip sq) (filter (\<lambda>r. TCP_SEQ_GT (snd r) sq) (takeWhile sack_valid (tp_rcv_sacks p)))"
    "length xs = LWIP_TCP_MAX_SACK_NUM" "u \<le> LWIP_TCP_MAX_SACK_NUM"
    using sacks_cut_spec [OF _ _ assms k] assms by simp_all
  have "sacks_zero u xs = sack_table (take u xs)"
    using x(2,3) by (simp add: sacks_zero_def sack_table_def)
  then show ?thesis using k x(1) by (simp add: tcp_remove_sacks_lt_def)
qed

text \<open>C19: The selective acknowledgements: both operations on the array of four ranges do what they say on
  the list of its valid ranges.  \<open>tcp_add_sack\<close> puts a nonempty range to the front and drops the ranges that
  overlap it, and the last one if five are left; \<open>tcp_remove_sacks_lt\<close> drops the ranges below the number and cuts the
  others there; nothing else of the control block changes.\<close>

theorem tcp_sacks_reference:
  assumes "length (tp_rcv_sacks p) = LWIP_TCP_MAX_SACK_NUM"
  shows "tcp_add_sack l r p = (if tp_flags p AND TF_SACK = 0 \<or> \<not> TCP_SEQ_LT l r then p
      else p\<lparr>tp_rcv_sacks := sack_table ((l, r) # filter (sack_apart l r) (takeWhile sack_valid (tp_rcv_sacks p)))\<rparr>)
    \<and> tcp_remove_sacks_lt sq p = p\<lparr>tp_rcv_sacks := sack_table (map (sack_clip sq)
        (filter (\<lambda>r. TCP_SEQ_GT (snd r) sq) (takeWhile sack_valid (tp_rcv_sacks p))))\<rparr>"
  using tcp_add_sack_table [OF assms] tcp_remove_sacks_lt_table [OF assms] by (auto simp: tcp_add_sack_def)

theorem tcp_sacks_reference_witness:
  "tp_rcv_sacks (tcp_add_sack 100 200 (tcp_pcb_zero\<lparr>tp_flags := TF_SACK, tp_rcv_sacks := [(150, 300), (1, 2), (0, 0), (0, 0)]\<rparr>))
     = [(100, 200), (1, 2), (0, 0), (0, 0)]
   \<and> tp_rcv_sacks (tcp_remove_sacks_lt 180 (tcp_pcb_zero\<lparr>tp_rcv_sacks := [(150, 300), (1, 2), (0, 0), (0, 0)]\<rparr>)) = [(180, 300), (0, 0), (0, 0), (0, 0)]"
proof -
  let ?rs = "[(150, 300), (1, 2), (0, 0), (0, 0)] :: (u32 \<times> u32) list"
  let ?p = "tcp_pcb_zero\<lparr>tp_flags := TF_SACK, tp_rcv_sacks := ?rs\<rparr>" and ?q = "tcp_pcb_zero\<lparr>tp_rcv_sacks := ?rs\<rparr>"
  have l: "length (tp_rcv_sacks ?p) = LWIP_TCP_MAX_SACK_NUM" "length (tp_rcv_sacks ?q) = LWIP_TCP_MAX_SACK_NUM"
    by (simp_all add: LWIP_TCP_MAX_SACK_NUM_def)
  have f: "tp_flags ?p AND TF_SACK \<noteq> 0" "TCP_SEQ_LT 100 200" by (simp_all add: TF_SACK_def TCP_SEQ_LT_def)
  have "sack_table ((100, 200) # filter (sack_apart 100 200) (takeWhile sack_valid ?rs)) = [(100, 200), (1, 2), (0, 0), (0, 0)]"
    "sack_table (map (sack_clip 180) (filter (\<lambda>r. TCP_SEQ_GT (snd r) 180) (takeWhile sack_valid ?rs))) = [(180, 300), (0, 0), (0, 0), (0, 0)]"
    by code_simp+
  then show ?thesis
    using tcp_sacks_reference [OF l(1), of 100 200] tcp_sacks_reference [OF l(2), of _ _ 180] f
    by (simp del: takeWhile.simps filter.simps)
qed

section \<open>Parsing options\<close>

text \<open>The effects of the options on a control block.\<close>

definition set_mss :: "u8 \<Rightarrow> u8 \<Rightarrow> tcp_pcb \<Rightarrow> tcp_pcb" where
  "set_mss hi lo p = (let mss = push_bit 8 (ucast hi) OR ucast lo in p\<lparr>tp_mss := (if mss > TCP_MSS \<or> mss = 0 then TCP_MSS else mss)\<rparr>)"

definition set_ws :: "u8 \<Rightarrow> u8 \<Rightarrow> tcp_pcb \<Rightarrow> tcp_pcb option" where
  "set_ws flags data p =
     (if flags AND TCP_SYN \<noteq> 0 \<and> tp_flags p AND TF_WND_SCALE = 0 then do {
        lwip_assert (tp_rcv_wnd p = ucast (TCPWND_MIN16 TCP_WND));
        lwip_assert (tp_rcv_ann_wnd p = ucast (TCPWND_MIN16 TCP_WND));
        Some ((tcp_set_flags TF_WND_SCALE p)\<lparr>tp_snd_scale := (if data > 14 then 14 else data), tp_rcv_scale := TCP_RCV_SCALE,
          tp_rcv_wnd := TCP_WND, tp_rcv_ann_wnd := TCP_WND\<rparr>)
      } else Some p)"

definition set_sack :: "u8 \<Rightarrow> tcp_pcb \<Rightarrow> tcp_pcb" where
  "set_sack flags p = (if flags AND TCP_SYN \<noteq> 0 then tcp_set_flags TF_SACK p else p)"

text \<open>A parser of the list of the option bytes.\<close>

function parse_opts :: "u8 \<Rightarrow> u8 list \<Rightarrow> tcp_pcb \<Rightarrow> tcp_pcb option" where
  "parse_opts flags bs p = (case bs of
      [] \<Rightarrow> Some p
    | k # cs \<Rightarrow>
        if k = 0 then Some p
        else if k = 1 then parse_opts flags cs p
        else (case cs of
            [] \<Rightarrow> Some p
          | l # ds \<Rightarrow>
              if k = 2 then (case ds of
                  hi # lo # es \<Rightarrow> if l = 4 then parse_opts flags es (set_mss hi lo p) else Some p
                | _ \<Rightarrow> Some p)
              else if k = 3 then (case ds of
                  data # es \<Rightarrow> if l = 3 then Option.bind (set_ws flags data p) (parse_opts flags es) else Some p
                | _ \<Rightarrow> Some p)
              else if k = 4 then (if l = 2 then parse_opts flags ds (set_sack flags p) else Some p)
              else if l < 2 then Some p
              else parse_opts flags (drop (unat l - 2) ds) p))"
  by pat_completeness auto
termination by (relation "measure (\<lambda>(_, bs, _). length bs)") auto

declare parse_opts.simps [simp del]

lemma parse_opts_Nil [simp]: "parse_opts flags [] p = Some p"
  by (simp add: parse_opts.simps)

lemma parse_opts_Cons:
  "parse_opts flags (k # cs) p =
     (if k = 0 then Some p
      else if k = 1 then parse_opts flags cs p
      else (case cs of
          [] \<Rightarrow> Some p
        | l # ds \<Rightarrow>
            if k = 2 then (case ds of
                hi # lo # es \<Rightarrow> if l = 4 then parse_opts flags es (set_mss hi lo p) else Some p
              | _ \<Rightarrow> Some p)
            else if k = 3 then (case ds of
                data # es \<Rightarrow> if l = 3 then Option.bind (set_ws flags data p) (parse_opts flags es) else Some p
              | _ \<Rightarrow> Some p)
            else if k = 4 then (if l = 2 then parse_opts flags ds (set_sack flags p) else Some p)
            else if l < 2 then Some p
            else parse_opts flags (drop (unat l - 2) ds) p))"
  by (subst parse_opts.simps) simp

text \<open>The byte that \<open>tcp_get_next_optbyte\<close> reads at an index.\<close>

definition opt_byte :: "stack \<Rightarrow> u16 \<Rightarrow> u8 option" where
  "opt_byte s i = (let v = st_tcp_in s in
     if ti_opt2 v = None \<or> i < ti_opt1len v then read_u8 (st_heap s) (ti_tcphdr v) (TCP_HLEN + unat i)
     else read_u8 (st_heap s) (ti_opt2 v) (unat (ucast (i - ti_opt1len v) :: u8)))"

definition at_opt :: "addr \<Rightarrow> nat \<Rightarrow> tcp_pcb \<Rightarrow> stack \<Rightarrow> stack" where
  "at_opt a i p s = upd_in (\<lambda>v. v\<lparr>ti_optidx := of_nat i\<rparr>) (put_tcp_pcb a p s)"

lemma at_opt_simps [simp]:
  "tcp_pcb_at a (at_opt a i p s) = Some p" "ti_optlen (st_tcp_in (at_opt a i p s)) = ti_optlen (st_tcp_in s)"
  "ti_flags (st_tcp_in (at_opt a i p s)) = ti_flags (st_tcp_in s)" "ti_optidx (st_tcp_in (at_opt a i p s)) = of_nat i"
  "opt_byte (at_opt a i p s) j = opt_byte s j" "put_tcp_pcb a q (at_opt a i p s) = at_opt a i q s"
  "upd_tcp_pcb a f (at_opt a i p s) = Some (at_opt a i (f p) s)"
  by (simp_all add: at_opt_def upd_in_def put_tcp_pcb_def tcp_pcb_at_def opt_byte_def upd_tcp_pcb_def Let_def)

lemma tcp_get_next_optbyte_eq:
  "tcp_get_next_optbyte t = map_option (\<lambda>b. (b, upd_in (\<lambda>v. v\<lparr>ti_optidx := ti_optidx v + 1\<rparr>) t)) (opt_byte t (ti_optidx (st_tcp_in t)))"
  unfolding tcp_get_next_optbyte_def opt_byte_def Let_def upd_in_def by (auto split: bind_splits)

lemma get_next_at:
  assumes "opt_byte s (of_nat i) = Some b"
  shows "tcp_get_next_optbyte (at_opt a i p s) = Some (b, at_opt a (Suc i) p s)"
proof -
  have "tcp_get_next_optbyte (at_opt a i p s) = Some (b, upd_in (\<lambda>v. v\<lparr>ti_optidx := ti_optidx v + 1\<rparr>) (at_opt a i p s))"
    using assms by (simp add: tcp_get_next_optbyte_eq)
  then show ?thesis by (simp add: at_opt_def upd_in_def add.commute)
qed

text \<open>The options of a segment: at most 40 bytes, that are readable, with one more byte behind them.\<close>

definition opts_readable :: "stack \<Rightarrow> u8 list \<Rightarrow> bool" where
  "opts_readable s bs \<longleftrightarrow> length bs = unat (ti_optlen (st_tcp_in s)) \<and> length bs \<le> 40
     \<and> (\<forall>i < length bs. opt_byte s (of_nat i) = Some (bs ! i)) \<and> (bs \<noteq> [] \<longrightarrow> opt_byte s (of_nat (length bs)) \<noteq> None)"

lemma opt_bad_at:
  assumes "opts_readable s bs" "opt_byte s (of_nat (Suc i)) = Some b" "i < 40"
  shows "tcp_opt_bad len (at_opt a (Suc i) p s) = Some (b \<noteq> len \<or> length bs < i + unat len, at_opt a (Suc (Suc i)) p s)"
proof -
  have "unat (of_nat (Suc (Suc i)) :: u16) = Suc (Suc i)" using assms(3) by (simp add: unat_of_nat del: of_nat_Suc)
  then have "int (unat (of_nat (Suc (Suc i)) :: u16)) - 2 + int (unat len) > int (length bs) \<longleftrightarrow> length bs < i + unat len" by linarith
  moreover have "length bs = unat (ti_optlen (st_tcp_in s))" using assms(1) by (simp add: opts_readable_def)
  ultimately show ?thesis unfolding tcp_opt_bad_def by (simp add: get_next_at [OF assms(2)] del: of_nat_Suc of_nat_unat)
qed

text \<open>
  One option: the loop at index \<open>i\<close> and the parser of the list either both go on behind the option with the same control
  block, or both stop, or both fail.
\<close>

definition opt_agrees :: "addr \<Rightarrow> stack \<Rightarrow> u8 list \<Rightarrow> nat \<Rightarrow> tcp_pcb \<Rightarrow> bool" where
  "opt_agrees a s bs i p \<longleftrightarrow> (let f = ti_flags (st_tcp_in s); L = tcp_parseopt_loop a (at_opt a i p s); P = parse_opts f (drop i bs) p in
     (\<exists>m q. i < m \<and> m \<le> length bs + 255 \<and> L = tcp_parseopt_loop a (at_opt a m q s) \<and> P = parse_opts f (drop m bs) q)
     \<or> (\<exists>m. L = Some (at_opt a m p s)) \<and> P = Some p \<or> L = None \<and> P = None)"

lemma opt_agrees_go:
  "tcp_parseopt_loop a (at_opt a i p s) = tcp_parseopt_loop a (at_opt a m q s) \<Longrightarrow>
   parse_opts (ti_flags (st_tcp_in s)) (drop i bs) p = parse_opts (ti_flags (st_tcp_in s)) (drop m bs) q \<Longrightarrow>
   i < m \<Longrightarrow> m \<le> length bs + 255 \<Longrightarrow> opt_agrees a s bs i p"
  by (auto simp: opt_agrees_def Let_def)

lemma opt_agrees_stop:
  "tcp_parseopt_loop a (at_opt a i p s) = Some (at_opt a m p s) \<Longrightarrow> parse_opts (ti_flags (st_tcp_in s)) (drop i bs) p = Some p \<Longrightarrow>
   opt_agrees a s bs i p"
  by (auto simp: opt_agrees_def Let_def)

lemma opt_agrees_fail:
  "tcp_parseopt_loop a (at_opt a i p s) = None \<Longrightarrow> parse_opts (ti_flags (st_tcp_in s)) (drop i bs) p = None \<Longrightarrow> opt_agrees a s bs i p"
  by (auto simp: opt_agrees_def Let_def)

text \<open>The kind of the option at \<open>i\<close> and the byte \<open>l\<close> behind it, which is one beyond the options if \<open>i\<close> is the last index.\<close>

lemma opt_at:
  assumes r: "opts_readable s bs" and i: "i < length bs"
  obtains l where "opt_byte s (of_nat (Suc i)) = Some l"
    "\<And>l' es. drop (Suc i) bs = l' # es \<Longrightarrow> l' = l \<and> length bs = Suc (Suc i) + length es"
    "Suc i < length bs \<Longrightarrow> drop (Suc i) bs = l # drop (Suc (Suc i)) bs"
    "drop i bs = bs ! i # drop (Suc i) bs" "i < 40"
    "\<And>p. tcp_get_next_optbyte (at_opt a i p s) = Some (bs ! i, at_opt a (Suc i) p s)"
    "\<And>p. tcp_parseopt_loop a (at_opt a i p s) = do { (go, t) \<leftarrow> tcp_parseopt_step a (at_opt a i p s);
       if go then tcp_parseopt_loop a t else Some t }"
proof -
  have len: "length bs \<le> 40" "length bs = unat (ti_optlen (st_tcp_in s))" and rd: "\<And>i. i < length bs \<Longrightarrow> opt_byte s (of_nat i) = Some (bs ! i)"
    using r by (auto simp: opts_readable_def)
  obtain x where x: "opt_byte s (of_nat (length bs)) = Some x" using r i unfolding opts_readable_def by force
  obtain l where l: "opt_byte s (of_nat (Suc i)) = Some l" "Suc i < length bs \<Longrightarrow> l = bs ! Suc i"
    using rd [of "Suc i"] x i by (metis Suc_leI le_neq_implies_less)
  have c: "of_nat i < ti_optlen (st_tcp_in s)" using i len by (simp add: word_less_nat_alt unat_of_nat)
  show thesis
  proof (rule that [of l, OF l(1)])
    fix l' es
    assume d: "drop (Suc i) bs = l' # es"
    then have "length (drop (Suc i) bs) = Suc (length es)" by simp
    then have n: "Suc i < length bs" "length bs = Suc (Suc i) + length es" by simp_all
    then show "l' = l \<and> length bs = Suc (Suc i) + length es" using nth_via_drop [OF d] l(2) by simp
  next
    show "tcp_parseopt_loop a (at_opt a i p s) = do { (go, t) \<leftarrow> tcp_parseopt_step a (at_opt a i p s);
       if go then tcp_parseopt_loop a t else Some t }" for p
      using c by (simp add: tcp_parseopt_loop.simps [of a "at_opt a i p s"])
  qed (use i l(2) len(1) get_next_at [OF rd [OF i]] in \<open>simp_all add: Cons_nth_drop_Suc\<close>)
qed

lemmas opt_kinds = LWIP_TCP_OPT_EOL_def LWIP_TCP_OPT_NOP_def LWIP_TCP_OPT_MSS_def LWIP_TCP_OPT_WS_def LWIP_TCP_OPT_SACK_PERM_def

lemma opt_nth: "opts_readable s bs \<Longrightarrow> i + m < length bs \<Longrightarrow> opt_byte s (of_nat (i + m)) = Some (bs ! (i + m))"
  unfolding opts_readable_def by blast

lemma opt_agrees_simple:
  assumes r: "opts_readable s bs" and i: "i < length bs" and k: "bs ! i = 0 \<or> bs ! i = 1"
  shows "opt_agrees a s bs i p"
proof (rule opt_at [OF r i, where a = a])
  assume o: "drop i bs = bs ! i # drop (Suc i) bs" "\<And>p. tcp_get_next_optbyte (at_opt a i p s) = Some (bs ! i, at_opt a (Suc i) p s)"
    "\<And>p. tcp_parseopt_loop a (at_opt a i p s) = do { (go, t) \<leftarrow> tcp_parseopt_step a (at_opt a i p s); if go then tcp_parseopt_loop a t else Some t }"
  from k show ?thesis
  proof
    assume "bs ! i = 0"
    then show ?thesis by (intro opt_agrees_stop [where m = "Suc i"]) (simp_all add: o tcp_parseopt_step_def opt_kinds parse_opts_Cons)
  next
    assume "bs ! i = 1"
    then show ?thesis using i
      by (intro opt_agrees_go [where m = "Suc i"]) (simp_all add: o tcp_parseopt_step_def opt_kinds parse_opts_Cons)
  qed
qed

lemma opt_agrees_mss:
  assumes r: "opts_readable s bs" and i: "i < length bs" and k: "bs ! i = 2"
  shows "opt_agrees a s bs i p"
proof (rule opt_at [OF r i, where a = a])
  fix l
  let ?f = "ti_flags (st_tcp_in s)"
  assume l: "opt_byte s (of_nat (Suc i)) = Some l" and cs: "\<And>l' es. drop (Suc i) bs = l' # es \<Longrightarrow> l' = l \<and> length bs = Suc (Suc i) + length es"
    and dS: "Suc i < length bs \<Longrightarrow> drop (Suc i) bs = l # drop (Suc (Suc i)) bs" and d: "drop i bs = bs ! i # drop (Suc i) bs" and i40: "i < 40"
    and g: "\<And>p. tcp_get_next_optbyte (at_opt a i p s) = Some (bs ! i, at_opt a (Suc i) p s)"
    and L: "\<And>p. tcp_parseopt_loop a (at_opt a i p s) = do { (go, t) \<leftarrow> tcp_parseopt_step a (at_opt a i p s); if go then tcp_parseopt_loop a t else Some t }"
  have P: "parse_opts ?f (drop i bs) p = (case drop (Suc i) bs of
      l # hi # lo # es \<Rightarrow> if l = 4 then parse_opts ?f es (set_mss hi lo p) else Some p | _ \<Rightarrow> Some p)"
    using k by (simp add: d parse_opts_Cons split: list.split)
  have L': "tcp_parseopt_loop a (at_opt a i p s) = (if l \<noteq> 4 \<or> length bs < i + 4 then Some (at_opt a (i + 2) p s)
      else do { t \<leftarrow> tcp_opt_mss a (at_opt a (i + 2) p s); tcp_parseopt_loop a t })"
    using k i40 by (simp add: L tcp_parseopt_step_def g opt_bad_at [OF r l] opt_kinds split: bind_splits)
  show ?thesis
  proof (cases "l = 4 \<and> i + 4 \<le> length bs")
    case True
    then have dd: "drop (Suc i) bs = l # bs ! (i + 2) # bs ! (i + 3) # drop (i + 4) bs"
      using dS by (simp add: Cons_nth_drop_Suc [symmetric] numeral_eq_Suc)
    have "tcp_opt_mss a (at_opt a (i + 2) p s) = Some (at_opt a (i + 4) (set_mss (bs ! (i + 2)) (bs ! (i + 3)) p) s)"
      using get_next_at [OF opt_nth [OF r, of i 2]] get_next_at [OF opt_nth [OF r, of i 3]] True
      by (simp add: tcp_opt_mss_def set_mss_def Let_def numeral_eq_Suc)
    then show ?thesis using L' True P dd by (intro opt_agrees_go [where m = "i + 4"]) simp_all
  next
    case False
    then have "parse_opts ?f (drop i bs) p = Some p" using P by (auto split: list.split dest!: cs)
    then show ?thesis using False L' by (intro opt_agrees_stop [where m = "i + 2"]) auto
  qed
qed

lemma opt_agrees_ws:
  assumes r: "opts_readable s bs" and i: "i < length bs" and k: "bs ! i = 3"
  shows "opt_agrees a s bs i p"
proof (rule opt_at [OF r i, where a = a])
  fix l
  let ?f = "ti_flags (st_tcp_in s)"
  assume l: "opt_byte s (of_nat (Suc i)) = Some l" and cs: "\<And>l' es. drop (Suc i) bs = l' # es \<Longrightarrow> l' = l \<and> length bs = Suc (Suc i) + length es"
    and dS: "Suc i < length bs \<Longrightarrow> drop (Suc i) bs = l # drop (Suc (Suc i)) bs" and d: "drop i bs = bs ! i # drop (Suc i) bs" and i40: "i < 40"
    and g: "\<And>p. tcp_get_next_optbyte (at_opt a i p s) = Some (bs ! i, at_opt a (Suc i) p s)"
    and L: "\<And>p. tcp_parseopt_loop a (at_opt a i p s) = do { (go, t) \<leftarrow> tcp_parseopt_step a (at_opt a i p s); if go then tcp_parseopt_loop a t else Some t }"
  have P: "parse_opts ?f (drop i bs) p = (case drop (Suc i) bs of
      l # data # es \<Rightarrow> if l = 3 then Option.bind (set_ws ?f data p) (parse_opts ?f es) else Some p | _ \<Rightarrow> Some p)"
    using k by (simp add: d parse_opts_Cons split: list.split)
  have L': "tcp_parseopt_loop a (at_opt a i p s) = (if l \<noteq> 3 \<or> length bs < i + 3 then Some (at_opt a (i + 2) p s)
      else do { t \<leftarrow> tcp_opt_ws a (at_opt a (i + 2) p s); tcp_parseopt_loop a t })"
    using k i40 by (simp add: L tcp_parseopt_step_def g opt_bad_at [OF r l] opt_kinds split: bind_splits)
  show ?thesis
  proof (cases "l = 3 \<and> i + 3 \<le> length bs")
    case True
    then have dd: "drop (Suc i) bs = l # bs ! (i + 2) # drop (i + 3) bs"
      using dS by (simp add: Cons_nth_drop_Suc [symmetric] numeral_eq_Suc)
    have ws: "tcp_opt_ws a (at_opt a (i + 2) p s) = map_option (\<lambda>q. at_opt a (i + 3) q s) (set_ws ?f (bs ! (i + 2)) p)"
      using get_next_at [OF opt_nth [OF r, of i 2]] True
      by (simp add: tcp_opt_ws_def set_ws_def lwip_assert_def numeral_eq_Suc)
    show ?thesis
    proof (cases "set_ws ?f (bs ! (i + 2)) p")
      case None
      then show ?thesis using L' True P dd ws by (intro opt_agrees_fail) simp_all
    next
      case (Some q)
      then show ?thesis using L' True P dd ws by (intro opt_agrees_go [where m = "i + 3"]) simp_all
    qed
  next
    case False
    then have "parse_opts ?f (drop i bs) p = Some p" using P by (auto split: list.split dest!: cs)
    then show ?thesis using False L' by (intro opt_agrees_stop [where m = "i + 2"]) auto
  qed
qed

lemma opt_agrees_sack:
  assumes r: "opts_readable s bs" and i: "i < length bs" and k: "bs ! i = 4"
  shows "opt_agrees a s bs i p"
proof (rule opt_at [OF r i, where a = a])
  fix l
  let ?f = "ti_flags (st_tcp_in s)"
  assume l: "opt_byte s (of_nat (Suc i)) = Some l" and cs: "\<And>l' es. drop (Suc i) bs = l' # es \<Longrightarrow> l' = l \<and> length bs = Suc (Suc i) + length es"
    and dS: "Suc i < length bs \<Longrightarrow> drop (Suc i) bs = l # drop (Suc (Suc i)) bs" and d: "drop i bs = bs ! i # drop (Suc i) bs" and i40: "i < 40"
    and g: "\<And>p. tcp_get_next_optbyte (at_opt a i p s) = Some (bs ! i, at_opt a (Suc i) p s)"
    and L: "\<And>p. tcp_parseopt_loop a (at_opt a i p s) = do { (go, t) \<leftarrow> tcp_parseopt_step a (at_opt a i p s); if go then tcp_parseopt_loop a t else Some t }"
  have P: "parse_opts ?f (drop i bs) p = (case drop (Suc i) bs of
      l # ds \<Rightarrow> if l = 2 then parse_opts ?f ds (set_sack ?f p) else Some p | _ \<Rightarrow> Some p)"
    using k by (simp add: d parse_opts_Cons split: list.split)
  have "tcp_opt_sack_perm a (at_opt a (i + 2) p s) = Some (at_opt a (i + 2) (set_sack ?f p) s)"
    by (simp add: tcp_opt_sack_perm_def set_sack_def)
  then have L': "tcp_parseopt_loop a (at_opt a i p s) = (if l \<noteq> 2 \<or> length bs < i + 2 then Some (at_opt a (i + 2) p s)
      else tcp_parseopt_loop a (at_opt a (i + 2) (set_sack ?f p) s))"
    using k i40 by (simp add: L tcp_parseopt_step_def g opt_bad_at [OF r l] opt_kinds split: bind_splits)
  show ?thesis
  proof (cases "l = 2 \<and> i + 2 \<le> length bs")
    case True
    then show ?thesis using L' P dS by (intro opt_agrees_go [where m = "i + 2"]) simp_all
  next
    case False
    then have "parse_opts ?f (drop i bs) p = Some p" using P by (auto split: list.split dest!: cs)
    then show ?thesis using False L' by (intro opt_agrees_stop [where m = "i + 2"]) auto
  qed
qed

text \<open>Any other option is skipped by its length.\<close>

lemma opt_agrees_other:
  assumes r: "opts_readable s bs" and i: "i < length bs" and k: "bs ! i \<notin> {0, 1, 2, 3, 4}"
  shows "opt_agrees a s bs i p"
proof (rule opt_at [OF r i, where a = a])
  fix l
  let ?f = "ti_flags (st_tcp_in s)"
  assume l: "opt_byte s (of_nat (Suc i)) = Some l" and dS: "Suc i < length bs \<Longrightarrow> drop (Suc i) bs = l # drop (Suc (Suc i)) bs"
    and d: "drop i bs = bs ! i # drop (Suc i) bs"
    and g: "\<And>p. tcp_get_next_optbyte (at_opt a i p s) = Some (bs ! i, at_opt a (Suc i) p s)"
    and L: "\<And>p. tcp_parseopt_loop a (at_opt a i p s) = do { (go, t) \<leftarrow> tcp_parseopt_step a (at_opt a i p s); if go then tcp_parseopt_loop a t else Some t }"
  have P: "parse_opts ?f (drop i bs) p = (case drop (Suc i) bs of
      l # ds \<Rightarrow> if l < 2 then Some p else parse_opts ?f (drop (unat l - 2) ds) p | _ \<Rightarrow> Some p)"
    using k by (simp add: d parse_opts_Cons split: list.split)
  have "of_nat (i + 2) + (ucast l - 2) = (of_nat (i + unat l) :: u16)" by simp
  then have skip: "upd_in (\<lambda>v. v\<lparr>ti_optidx := ti_optidx v + (ucast l - 2)\<rparr>) (at_opt a (i + 2) p s) = at_opt a (i + unat l) p s"
    by (simp add: at_opt_def upd_in_def)
  have L': "tcp_parseopt_loop a (at_opt a i p s) = (if l < 2 then Some (at_opt a (i + 2) p s) else tcp_parseopt_loop a (at_opt a (i + unat l) p s))"
    using k skip by (simp add: L tcp_parseopt_step_def g get_next_at [OF l] opt_kinds)
  show ?thesis
  proof (cases "l < 2")
    case True
    then have "parse_opts ?f (drop i bs) p = Some p" using P dS by (cases "Suc i < length bs") simp_all
    then show ?thesis using True L' by (intro opt_agrees_stop [where m = "i + 2"]) auto
  next
    case False
    then have l2: "2 \<le> unat l" by (simp add: word_less_nat_alt)
    then have "Suc (Suc (i + unat l - 2)) = i + unat l" by simp
    then have "drop (unat l - 2) (drop (Suc (Suc i)) bs) = drop (i + unat l) bs" using l2 by (simp add: add.commute)
    then have "parse_opts ?f (drop i bs) p = parse_opts ?f (drop (i + unat l) bs) p"
      using P dS False l2 by (cases "Suc i < length bs") simp_all
    moreover have "unat l < 256" by (rule order_less_le_trans [OF unsigned_less]) simp
    then have "i + unat l \<le> length bs + 255" using i by linarith
    ultimately show ?thesis using L' False l2 by (intro opt_agrees_go [where m = "i + unat l"]) simp_all
  qed
qed

lemma tcp_parseopt_loop_at:
  assumes r: "opts_readable s bs" and "i \<le> length bs + 255"
  shows "\<exists>j. tcp_parseopt_loop a (at_opt a i p s) = map_option (\<lambda>q. at_opt a j q s) (parse_opts (ti_flags (st_tcp_in s)) (drop i bs) p)"
  using assms(2)
proof (induction "length bs + 255 - i" arbitrary: i p rule: less_induct)
  case less
  show ?case
  proof (cases "i < length bs")
    case False
    have "length bs = unat (ti_optlen (st_tcp_in s))" "length bs \<le> 40" using r by (auto simp: opts_readable_def)
    then have "\<not> of_nat i < ti_optlen (st_tcp_in s)" using False less.prems by (simp add: word_less_nat_alt unat_of_nat)
    then show ?thesis using False
      by (auto simp: tcp_parseopt_loop.simps [of a "at_opt a i p s"] parse_opts.simps [of "ti_flags (st_tcp_in s)" "[]"])
  next
    case True
    have "opt_agrees a s bs i p"
      using opt_agrees_simple [OF r True] opt_agrees_mss [OF r True] opt_agrees_ws [OF r True] opt_agrees_sack [OF r True]
        opt_agrees_other [OF r True] by blast
    then show ?thesis
      unfolding opt_agrees_def Let_def
    proof (elim disjE exE conjE)
      fix m q
      assume "i < m" "m \<le> length bs + 255" "tcp_parseopt_loop a (at_opt a i p s) = tcp_parseopt_loop a (at_opt a m q s)"
        "parse_opts (ti_flags (st_tcp_in s)) (drop i bs) p = parse_opts (ti_flags (st_tcp_in s)) (drop m bs) q"
      then show ?thesis using less.hyps [of m q] by simp
    qed auto
  qed
qed

text \<open>C16: Parsing the options of a segment: for at most 40 bytes of options that are readable, wherever
  they are split, \<open>tcp_parseopt\<close> ends and does to the control block what a parser of the list of these bytes
  says: MSS (0 and too large ones become \<open>TCP_MSS\<close>), window scale (on a SYN, once, at most 14) and SACK permitted
  (on a SYN); unknown options are skipped by their length, and a malformed one ends the parsing.  It reads at
  most one byte behind the options, whose value does not matter.\<close>

theorem tcp_parseopt_reference:
  assumes "opts_readable s bs" "tcp_pcb_at a s = Some p"
  shows "\<exists>j. tcp_parseopt a s = map_option (\<lambda>q. at_opt a j q s) (parse_opts (ti_flags (st_tcp_in s)) bs p)"
proof -
  have put: "put_tcp_pcb a p s = s"
    using assms(2) by (simp add: tcp_pcb_at_def put_tcp_pcb_def fun_upd_idem)
  show ?thesis
  proof (cases "ti_optlen (st_tcp_in s) = 0")
    case True
    then have "bs = []" using assms(1) by (simp add: opts_readable_def)
    moreover have "at_opt a (unat (ti_optidx (st_tcp_in s))) p s = s" by (simp add: at_opt_def put upd_in_def)
    ultimately show ?thesis using True by (auto simp: tcp_parseopt_def intro: exI [of _ "unat (ti_optidx (st_tcp_in s))"])
  next
    case False
    then have "tcp_parseopt a s = tcp_parseopt_loop a (at_opt a 0 p s)" by (simp add: tcp_parseopt_def at_opt_def put)
    then show ?thesis using tcp_parseopt_loop_at [OF assms(1), of 0 a p] by simp
  qed
qed

text \<open>A SYN whose options are split over two blocks.\<close>

definition ex_opts :: stack where
  "ex_opts = (stack_zero (ex_heap\<lparr>hp_blocks := [1 \<mapsto> replicate 20 0 @ [2, 4, 5], 2 \<mapsto> [180, 1, 3, 3, 20, 4, 2, 0, 9, 104]]\<rparr>))
     \<lparr>st_tcp := tcp_globals_zero\<lparr>tg_pcbs := [7 \<mapsto> tcp_pcb_zero\<lparr>tp_rcv_wnd := 65535, tp_rcv_ann_wnd := 65535\<rparr>]\<rparr>,
      st_tcp_in := tcp_in_zero\<lparr>ti_tcphdr := Some (1, 0), ti_optlen := 12, ti_opt1len := 3, ti_opt2 := Some (2, 0), ti_flags := TCP_SYN\<rparr>\<rparr>"

theorem tcp_parseopt_reference_witness:
  "\<exists>s. tcp_parseopt 7 ex_opts = Some s \<and> map_option (\<lambda>p. (tp_mss p, tp_snd_scale p, tp_flags p, tp_rcv_scale p)) (tcp_pcb_at 7 s)
     = Some (1460, 14, TF_WND_SCALE OR TF_SACK, 8)"
proof -
  let ?bs = "[2, 4, 5, 180, 1, 3, 3, 20, 4, 2, 0, 9] :: u8 list" and ?p = "tcp_pcb_zero\<lparr>tp_rcv_wnd := 65535, tp_rcv_ann_wnd := 65535\<rparr>"
  have r: "opts_readable ex_opts ?bs"
    by code_simp
  have p: "tcp_pcb_at 7 ex_opts = Some ?p" "ti_flags (st_tcp_in ex_opts) = TCP_SYN"
    by (simp_all add: tcp_pcb_at_def ex_opts_def)
  have "map_option (\<lambda>p. (tp_mss p, tp_snd_scale p, tp_flags p, tp_rcv_scale p)) (parse_opts TCP_SYN ?bs ?p) = Some (1460, 14, TF_WND_SCALE OR TF_SACK, 8)"
    by code_simp
  then show ?thesis
    using tcp_parseopt_reference [OF r p(1)] p(2) by auto
qed

text \<open>The byte behind the options is read when the last byte is the kind of an option.\<close>

theorem tcp_parseopt_overread:
  assumes "ti_optlen (st_tcp_in s) = 1" "opt_byte s 0 = Some k" "k \<notin> {0, 1}" "opt_byte s 1 = None" "tcp_pcb_at a s = Some p"
  shows "tcp_parseopt a s = None"
proof -
  have g: "tcp_get_next_optbyte t = map_option (\<lambda>b. (b, upd_in (\<lambda>v. v\<lparr>ti_optidx := ti_optidx v + 1\<rparr>) t)) (opt_byte t (ti_optidx (st_tcp_in t)))" for t
    by (rule tcp_get_next_optbyte_eq)
  have put: "put_tcp_pcb a p s = s"
    using assms(5) by (simp add: tcp_pcb_at_def put_tcp_pcb_def fun_upd_idem)
  have "tcp_parseopt a s = tcp_parseopt_loop a (at_opt a 0 p s)" using assms(1) by (simp add: tcp_parseopt_def at_opt_def put)
  moreover have "tcp_get_next_optbyte (at_opt a 0 p s) = Some (k, at_opt a 1 p s)" "tcp_get_next_optbyte (at_opt a 1 p s) = None"
    using get_next_at [of s 0 k a p] assms(2,4) by (simp_all add: g)
  ultimately show ?thesis using assms(1,3)
    by (subst (asm) tcp_parseopt_loop.simps) (simp add: tcp_parseopt_step_def tcp_opt_bad_def LWIP_TCP_OPT_EOL_def LWIP_TCP_OPT_NOP_def)
qed

end
