(* ===== verification/Tcp_In.thy ===== *)
theory Tcp_In
  imports Tcp_Tmr Tcp_Opt
begin

text \<open>
  TCP input (\<open>tcp_in.c\<close>): parsing of the header, demultiplexing over the lists of control blocks, the state
  machine \<open>tcp_process\<close>, the window and acknowledgement processing and the queue of out of order segments
  of \<open>tcp_receive\<close>, and the delivery of data and events to the application.

  The static variables of \<open>tcp_in.c\<close> are in \<open>st_tcp_in\<close>.  \<open>tcp_input\<close> turns the numbers of the header into host
  order in the packet itself: a segment that was received keeps \<open>seqno\<close> in host order, a segment to be sent has
  it in network order (\<open>tcph_seqno\<close>).
\<close>

unbundle bit_operations_syntax

definition rx_seqno :: "heap \<Rightarrow> tcp_seg \<Rightarrow> u32 option" where
  "rx_seqno h sg = read_u32 h (sg_tcphdr sg) 4"

definition LWIP_TCP_CALC_INITIAL_CWND :: "u16 \<Rightarrow> u32" where
  "LWIP_TCP_CALC_INITIAL_CWND mss = min (4 * ucast mss) (max (2 * ucast mss) 4380)"

definition SOF_INHERITED :: u8 where "SOF_INHERITED = 0x0C"

text \<open>\<open>tcp_rst\<close> in answer to the segment.\<close>

definition tcp_rst_input :: "ip_pcb option \<Rightarrow> stack \<Rightarrow> stack option" where
  "tcp_rst_input pcb s = do {
     let v = st_tcp_in s;
     src \<leftarrow> read_u16 (st_heap s) (ti_tcphdr v) 0;
     dest \<leftarrow> read_u16 (st_heap s) (ti_tcphdr v) 2;
     tcp_rst pcb (ti_ackno v) (ti_seqno v + ucast (ti_tcplen v)) (current_iphdr_dest (st_ip_data s)) (current_iphdr_src (st_ip_data s))
       dest src s
   }"

definition lp_ip_pcb :: "tcp_pcb_listen \<Rightarrow> ip_pcb" where
  "lp_ip_pcb l = \<lparr>ip_netif_idx = lp_netif_idx l, ip_tos = lp_tos l, ip_ttl = lp_ttl l\<rparr>"

text \<open>\<open>tcp_eff_send_mss\<close>\<close>

definition tcp_eff_send_mss :: "tcp_pcb \<Rightarrow> stack \<Rightarrow> u16" where
  "tcp_eff_send_mss p s = tcp_eff_send_mss_netif (tp_mss p) (ip4_route (tp_remote_ip p) s) s"

section \<open>Listening and TIME-WAIT control blocks\<close>

definition tcp_listen_input :: "tcp_callbacks \<Rightarrow> addr \<Rightarrow> stack \<Rightarrow> stack option" where
  "tcp_listen_input cb l s = do {
     let v = st_tcp_in s;
     if ti_flags v AND TCP_RST \<noteq> 0 then Some s
     else do {
       lpcb \<leftarrow> tcp_lpcb_at l s;
       if ti_flags v AND TCP_ACK \<noteq> 0 then tcp_rst_input (Some (lp_ip_pcb lpcb)) s
       else if ti_flags v AND TCP_SYN \<noteq> 0 then
         (if lp_accepts_pending lpcb \<ge> lp_backlog lpcb then Some s
          else do {
            (m, s) \<leftarrow> tcp_alloc cb (lp_prio lpcb) s;
            case m of
              None \<Rightarrow> do {
                lpcb \<leftarrow> tcp_lpcb_at l s;
                (_, s) \<leftarrow> TCP_EVENT_ACCEPT cb l None (lp_callback_arg lpcb) ERR_MEM s;
                Some s
              }
            | Some a \<Rightarrow> do {
                lpcb \<leftarrow> tcp_lpcb_at l s;
                let s = put_tcp_lpcb l (lpcb\<lparr>lp_accepts_pending := lp_accepts_pending lpcb + 1\<rparr>) s;
                src \<leftarrow> read_u16 (st_heap s) (ti_tcphdr v) 0;
                dest \<leftarrow> read_u16 (st_heap s) (ti_tcphdr v) 2;
                let (iss, s) = tcp_next_iss s;
                s \<leftarrow> upd_tcp_pcb a (\<lambda>p. (tcp_set_flags TF_BACKLOGPEND p)\<lparr>tp_local_ip := current_iphdr_dest (st_ip_data s),
                  tp_remote_ip := current_iphdr_src (st_ip_data s), tp_local_port := dest, tp_remote_port := src, tp_state := SYN_RCVD,
                  tp_rcv_nxt := ti_seqno v + 1, tp_rcv_ann_right_edge := ti_seqno v + 1, tp_snd_wl2 := iss, tp_snd_nxt := iss,
                  tp_lastack := iss, tp_snd_lbb := iss, tp_snd_wl1 := ti_seqno v - 1, tp_callback_arg := lp_callback_arg lpcb,
                  tp_listener := Some l, tp_so_options := lp_so_options lpcb AND SOF_INHERITED, tp_netif_idx := lp_netif_idx lpcb\<rparr>) s;
                s \<leftarrow> TCP_REG_ACTIVE a s;
                s \<leftarrow> tcp_parseopt a s;
                wnd \<leftarrow> read_u16 (st_heap s) (ti_tcphdr v) 14;
                s \<leftarrow> upd_tcp_pcb a (\<lambda>p. p\<lparr>tp_snd_wnd := ucast wnd, tp_snd_wnd_max := ucast wnd, tp_mss := tcp_eff_send_mss p s\<rparr>) s;
                (rc, s) \<leftarrow> tcp_enqueue_flags a (TCP_SYN OR TCP_ACK) s;
                if rc \<noteq> ERR_OK then tcp_abandon cb (Some a) False s
                else do { (_, s) \<leftarrow> tcp_output a s; Some s }
              }
          })
       else Some s
     }
   }"

definition tcp_timewait_input :: "addr \<Rightarrow> stack \<Rightarrow> stack option" where
  "tcp_timewait_input a s = do {
     let v = st_tcp_in s;
     p \<leftarrow> tcp_pcb_at a s;
     if ti_flags v AND TCP_RST \<noteq> 0 then Some s
     else if ti_flags v AND TCP_SYN \<noteq> 0 \<and> TCP_SEQ_BETWEEN (ti_seqno v) (tp_rcv_nxt p) (tp_rcv_nxt p + tp_rcv_wnd p)
     then tcp_rst_input (Some (tcp_ip_pcb p)) s
     else do {
       let p = (if ti_flags v AND TCP_SYN = 0 \<and> ti_flags v AND TCP_FIN \<noteq> 0 then p\<lparr>tp_tmr := tg_ticks (st_tcp s)\<rparr> else p);
       if ti_tcplen v > 0 then do {
         (_, s) \<leftarrow> tcp_output a (put_tcp_pcb a (tcp_ack_now p) s);
         Some s
       } else Some (put_tcp_pcb a p s)
     }
   }"

section \<open>Queues of segments\<close>

text \<open>The segments from \<open>next\<close> on that the new segment covers are released; the result is the queue from \<open>cseg\<close> on.\<close>

fun tcp_oos_insert_loop :: "tcp_seg \<Rightarrow> tcp_seg list \<Rightarrow> stack \<Rightarrow> (tcp_seg list \<times> stack) option" where
  "tcp_oos_insert_loop cseg [] s = Some ([cseg], s)"
| "tcp_oos_insert_loop cseg (n # rest) s = do {
     let seqno = ti_seqno (st_tcp_in s);
     nq \<leftarrow> rx_seqno (st_heap s) n;
     if TCP_SEQ_GEQ (seqno + ucast (sg_len cseg)) (nq + ucast (sg_len n)) then do {
       f \<leftarrow> TCPH_FLAGS (st_heap s) (sg_tcphdr n);
       s \<leftarrow> (if f AND TCP_FIN \<noteq> 0 then TCPH_SET_FLAG (sg_tcphdr cseg) TCP_FIN s else Some s);
       s \<leftarrow> tcp_seg_free n s;
       tcp_oos_insert_loop cseg rest s
     } else if TCP_SEQ_GT (seqno + ucast (sg_len cseg)) nq then do {
       let cseg = cseg\<lparr>sg_len := ucast (nq - seqno)\<rparr>;
       s \<leftarrow> on_heap' (pbuf_realloc (sg_p cseg) (sg_len cseg)) s;
       Some (cseg # n # rest, s)
     } else Some (cseg # n # rest, s)
   }"

definition tcp_oos_insert_segment :: "tcp_seg \<Rightarrow> tcp_seg list \<Rightarrow> stack \<Rightarrow> (tcp_seg list \<times> stack) option" where
  "tcp_oos_insert_segment cseg next s = do {
     f \<leftarrow> TCPH_FLAGS (st_heap s) (sg_tcphdr cseg);
     if f AND TCP_FIN \<noteq> 0 then do { s \<leftarrow> tcp_segs_free next s; Some ([cseg], s) }
     else tcp_oos_insert_loop cseg next s
   }"

text \<open>\<open>other\<close> is \<open>dbg_other_seg_list\<close>; the result is the rest of the list.\<close>

fun tcp_free_acked_segments :: "addr \<Rightarrow> tcp_seg list \<Rightarrow> tcp_seg list \<Rightarrow> stack \<Rightarrow> (tcp_seg list \<times> stack) option" where
  "tcp_free_acked_segments a [] other s = Some ([], s)"
| "tcp_free_acked_segments a (sg # rest) other s = do {
     sq \<leftarrow> tcph_seqno (st_heap s) (sg_tcphdr sg);
     n \<leftarrow> TCP_TCPLEN (st_heap s) sg;
     if TCP_SEQ_LEQ (sq + n) (ti_ackno (st_tcp_in s)) then do {
       clen \<leftarrow> pbuf_clen (sg_p sg) (st_heap s);
       p \<leftarrow> tcp_pcb_at a s;
       lwip_assert (tp_snd_queuelen p \<ge> clen);
       let p = p\<lparr>tp_snd_queuelen := tp_snd_queuelen p - clen\<rparr>;
       let s = upd_in (\<lambda>v. v\<lparr>ti_recv_acked := ti_recv_acked v + ucast (sg_len sg)\<rparr>) (put_tcp_pcb a p s);
       s \<leftarrow> tcp_seg_free sg s;
       lwip_assert (tp_snd_queuelen p \<noteq> 0 \<longrightarrow> rest \<noteq> [] \<or> other \<noteq> []);
       tcp_free_acked_segments a rest other s
     } else Some (sg # rest, s)
   }"

section \<open>Acknowledgements\<close>

text \<open>The window update.\<close>

definition tcp_receive_wnd :: "u32 \<Rightarrow> u32 \<Rightarrow> u16 \<Rightarrow> tcp_pcb \<Rightarrow> tcp_pcb" where
  "tcp_receive_wnd seqno ackno wnd p =
     (if TCP_SEQ_LT (tp_snd_wl1 p) seqno \<or> (tp_snd_wl1 p = seqno \<and> TCP_SEQ_LT (tp_snd_wl2 p) ackno)
        \<or> (tp_snd_wl2 p = ackno \<and> SND_WND_SCALE p wnd > tp_snd_wnd p)
      then (let w = SND_WND_SCALE p wnd in
        p\<lparr>tp_snd_wnd := w, tp_snd_wnd_max := max (tp_snd_wnd_max p) w, tp_snd_wl1 := seqno, tp_snd_wl2 := ackno\<rparr>)
      else p)"

text \<open>An acknowledgement of nothing new: the counting of duplicates.\<close>

definition tcp_receive_dupack :: "addr \<Rightarrow> u32 \<Rightarrow> stack \<Rightarrow> stack option" where
  "tcp_receive_dupack a right_wnd_edge s = do {
     let v = st_tcp_in s;
     p \<leftarrow> tcp_pcb_at a s;
     if ti_tcplen v = 0 \<and> tp_snd_wl2 p + tp_snd_wnd p = right_wnd_edge \<and> tp_rtime p \<ge> 0 \<and> tp_lastack p = ti_ackno v then do {
       let p = (if tp_dupacks p + 1 > tp_dupacks p then p\<lparr>tp_dupacks := tp_dupacks p + 1\<rparr> else p);
       let p = (if tp_dupacks p > 3 then p\<lparr>tp_cwnd := TCP_WND_INC (tp_cwnd p) (ucast (tp_mss p))\<rparr> else p);
       if tp_dupacks p \<ge> 3 then tcp_rexmit_fast a (put_tcp_pcb a p s) else Some (put_tcp_pcb a p s)
     } else Some (put_tcp_pcb a (p\<lparr>tp_dupacks := 0\<rparr>) s)
   }"

text \<open>Congestion control on an acknowledgement of new data.\<close>

definition tcp_receive_cwnd :: "u32 \<Rightarrow> tcp_pcb \<Rightarrow> tcp_pcb" where
  "tcp_receive_cwnd ackno p =
     (let p = (if tp_flags p AND TF_INFR \<noteq> 0 then (tcp_clear_flags TF_INFR p)\<lparr>tp_cwnd := tp_ssthresh p, tp_bytes_acked := 0\<rparr> else p);
          acked = ackno - tp_lastack p;
          p = p\<lparr>tp_nrtx := 0, tp_rto := s16 (tp_sa p div 8 + tp_sv p), tp_dupacks := 0, tp_lastack := ackno\<rparr>
      in if tcp_state_num (tp_state p) \<ge> tcp_state_num ESTABLISHED then
           (if tp_cwnd p < tp_ssthresh p then
              (let num_seg = (if tp_flags p AND TF_RTO \<noteq> 0 then 1 else 2)
               in p\<lparr>tp_cwnd := TCP_WND_INC (tp_cwnd p) (min acked (num_seg * ucast (tp_mss p)))\<rparr>)
            else (let p = p\<lparr>tp_bytes_acked := TCP_WND_INC (tp_bytes_acked p) acked\<rparr>
               in if tp_bytes_acked p \<ge> tp_cwnd p
                  then p\<lparr>tp_bytes_acked := tp_bytes_acked p - tp_cwnd p, tp_cwnd := TCP_WND_INC (tp_cwnd p) (ucast (tp_mss p))\<rparr> else p))
         else p)"

definition tcp_receive_acked :: "addr \<Rightarrow> stack \<Rightarrow> stack option" where
  "tcp_receive_acked a s = do {
     s \<leftarrow> upd_tcp_pcb a (tcp_receive_cwnd (ti_ackno (st_tcp_in s))) s;
     p \<leftarrow> tcp_pcb_at a s;
     (unacked, s) \<leftarrow> tcp_free_acked_segments a (tp_unacked p) (tp_unsent p) s;
     s \<leftarrow> upd_tcp_pcb a (\<lambda>p. p\<lparr>tp_unacked := unacked\<rparr>) s;
     (unsent, s) \<leftarrow> tcp_free_acked_segments a (tp_unsent p) unacked s;
     s \<leftarrow> upd_tcp_pcb a (\<lambda>p. let p = p\<lparr>tp_unsent := unsent, tp_rtime := (if unacked = [] then - 1 else 0), tp_polltmr := 0\<rparr>
            in (if unsent = [] then p\<lparr>tp_unsent_oversize := 0\<rparr> else p)\<lparr>tp_snd_buf := tp_snd_buf p + ti_recv_acked (st_tcp_in s)\<rparr>) s;
     p \<leftarrow> tcp_pcb_at a s;
     if tp_flags p AND TF_RTO = 0 then Some s
     else do {
       clear \<leftarrow> (case (unacked, unsent) of
           ([], []) \<Rightarrow> Some True
         | ([], sg # _) \<Rightarrow> map_option (TCP_SEQ_LEQ (tp_rto_end p)) (tcph_seqno (st_heap s) (sg_tcphdr sg))
         | (sg # _, _) \<Rightarrow> map_option (TCP_SEQ_LEQ (tp_rto_end p)) (tcph_seqno (st_heap s) (sg_tcphdr sg)));
       Some (if clear then put_tcp_pcb a (tcp_clear_flags TF_RTO p) s else s)
     }
   }"

text \<open>The estimation of the round trip time.\<close>

definition tcp_receive_rtt :: "u32 \<Rightarrow> u32 \<Rightarrow> tcp_pcb \<Rightarrow> tcp_pcb" where
  "tcp_receive_rtt ticks ackno p =
     (if tp_rttest p \<noteq> 0 \<and> TCP_SEQ_LT (tp_rtseq p) ackno then
        (let m = s16 (uint (ticks - tp_rttest p));
             m = s16 (m - tp_sa p div 8);
             sa = s16 (tp_sa p + m);
             m = (if m < 0 then s16 (- m) else m);
             m = s16 (m - tp_sv p div 4);
             sv = s16 (tp_sv p + m)
         in p\<lparr>tp_sa := sa, tp_sv := sv, tp_rto := s16 (sa div 8 + sv), tp_rttest := 0\<rparr>)
      else p)"

definition tcp_receive_ack :: "addr \<Rightarrow> stack \<Rightarrow> stack option" where
  "tcp_receive_ack a s = do {
     let v = st_tcp_in s;
     p \<leftarrow> tcp_pcb_at a s;
     let right_wnd_edge = tp_snd_wnd p + tp_snd_wl2 p;
     wnd \<leftarrow> read_u16 (st_heap s) (ti_tcphdr v) 14;
     let p = tcp_receive_wnd (ti_seqno v) (ti_ackno v) wnd p;
     let s = put_tcp_pcb a p s;
     s \<leftarrow> (if TCP_SEQ_LEQ (ti_ackno v) (tp_lastack p) then tcp_receive_dupack a right_wnd_edge s
           else if TCP_SEQ_BETWEEN (ti_ackno v) (tp_lastack p + 1) (tp_snd_nxt p) then tcp_receive_acked a s
           else do { (_, s) \<leftarrow> tcp_send_empty_ack a s; Some s });
     upd_tcp_pcb a (tcp_receive_rtt (tg_ticks (st_tcp s)) (ti_ackno v)) s
   }"

section \<open>Data in order\<close>

text \<open>The pbufs at the start that hold old data only are emptied; the result is the first other one and the rest of the offset.\<close>

partial_function (option) tcp_trim_loop :: "addr \<Rightarrow> u16 \<Rightarrow> u16 \<Rightarrow> heap \<Rightarrow> (addr \<times> u16 \<times> heap) option" where
  "tcp_trim_loop p off new_tot_len h = do {
     pb \<leftarrow> hp_pbufs h p;
     if pb_len pb < off then do {
       q \<leftarrow> pb_next pb;
       tcp_trim_loop q (off - pb_len pb) new_tot_len (put_pbuf h p (pb\<lparr>pb_tot_len := new_tot_len, pb_len := 0\<rparr>))
     } else Some (p, off, h)
   }"

text \<open>The part of the segment that was received before is cut off.\<close>

definition tcp_receive_trim :: "addr \<Rightarrow> stack \<Rightarrow> stack option" where
  "tcp_receive_trim a s = do {
     let v = st_tcp_in s;
     pcb \<leftarrow> tcp_pcb_at a s;
     let off32 = tp_rcv_nxt pcb - ti_seqno v;
     q \<leftarrow> sg_p (ti_inseg v);
     lwip_assert (off32 < 0xffff);
     pb \<leftarrow> hp_pbufs (st_heap s) q;
     let off = (ucast off32 :: u16);
     lwip_assert (pb_tot_len pb \<ge> off);
     (p, off', h) \<leftarrow> tcp_trim_loop q off (pb_tot_len pb - off) (st_heap s);
     (_, s) \<leftarrow> on_heap (pbuf_remove_header (Some p) (unat off')) (s\<lparr>st_heap := h\<rparr>);
     s \<leftarrow> st_write (sg_tcphdr (ti_inseg v)) 4 (bytes_u32 (tp_rcv_nxt pcb)) s;
     Some (upd_in (\<lambda>v. v\<lparr>ti_inseg := (ti_inseg v)\<lparr>sg_len := sg_len (ti_inseg v) - off\<rparr>, ti_seqno := tp_rcv_nxt pcb\<rparr>) s)
   }"

text \<open>\<open>tcplen = TCP_TCPLEN(&inseg)\<close>\<close>

definition tcp_set_tcplen :: "stack \<Rightarrow> stack option" where
  "tcp_set_tcplen s = do {
     n \<leftarrow> TCP_TCPLEN (st_heap s) (ti_inseg (st_tcp_in s));
     Some (upd_in (\<lambda>v. v\<lparr>ti_tcplen := ucast n\<rparr>) s)
   }"

text \<open>\<open>inseg.len = len\<close>, one less with a SYN, and \<open>pbuf_realloc\<close>.\<close>

definition tcp_trim_inseg :: "u16 \<Rightarrow> stack \<Rightarrow> stack option" where
  "tcp_trim_inseg len s = do {
     f \<leftarrow> TCPH_FLAGS (st_heap s) (sg_tcphdr (ti_inseg (st_tcp_in s)));
     let len = (if f AND TCP_SYN \<noteq> 0 then len - 1 else len);
     let s = upd_in (\<lambda>v. v\<lparr>ti_inseg := (ti_inseg v)\<lparr>sg_len := len\<rparr>\<rparr>) s;
     s \<leftarrow> on_heap' (pbuf_realloc (sg_p (ti_inseg (st_tcp_in s))) len) s;
     tcp_set_tcplen s
   }"

text \<open>A segment beyond the window is cut at its end.\<close>

definition tcp_receive_overrun :: "addr \<Rightarrow> stack \<Rightarrow> stack option" where
  "tcp_receive_overrun a s = do {
     pcb \<leftarrow> tcp_pcb_at a s;
     let hdr = sg_tcphdr (ti_inseg (st_tcp_in s));
     if ucast (ti_tcplen (st_tcp_in s)) > tp_rcv_wnd pcb then do {
       f \<leftarrow> TCPH_FLAGS (st_heap s) hdr;
       s \<leftarrow> (if f AND TCP_FIN \<noteq> 0 then TCPH_FLAGS_SET hdr (f AND NOT TCP_FIN) s else Some s);
       lwip_assert (tp_rcv_wnd pcb \<le> 0xFFFF);
       s \<leftarrow> tcp_trim_inseg (ucast (tp_rcv_wnd pcb)) s;
       lwip_assert (ti_seqno (st_tcp_in s) + ucast (ti_tcplen (st_tcp_in s)) = tp_rcv_nxt pcb + tp_rcv_wnd pcb);
       Some s
     } else Some s
   }"

text \<open>The queued segments that the new one covers are released.\<close>

fun tcp_ooseq_covered :: "tcp_seg list \<Rightarrow> stack \<Rightarrow> (tcp_seg list \<times> stack) option" where
  "tcp_ooseq_covered [] s = Some ([], s)"
| "tcp_ooseq_covered (n # rest) s = do {
     let v = st_tcp_in s;
     nq \<leftarrow> rx_seqno (st_heap s) n;
     if TCP_SEQ_GEQ (ti_seqno v + ucast (ti_tcplen v)) (nq + ucast (sg_len n)) then do {
       f \<leftarrow> TCPH_FLAGS (st_heap s) (sg_tcphdr n);
       g \<leftarrow> TCPH_FLAGS (st_heap s) (sg_tcphdr (ti_inseg v));
       s \<leftarrow> (if f AND TCP_FIN \<noteq> 0 \<and> g AND TCP_SYN = 0 then do {
              s \<leftarrow> TCPH_SET_FLAG (sg_tcphdr (ti_inseg v)) TCP_FIN s;
              tcp_set_tcplen s
            } else Some s);
       s \<leftarrow> tcp_seg_free n s;
       tcp_ooseq_covered rest s
     } else Some (n # rest, s)
   }"

definition tcp_receive_ooseq_trim :: "addr \<Rightarrow> stack \<Rightarrow> stack option" where
  "tcp_receive_ooseq_trim a s = do {
     pcb \<leftarrow> tcp_pcb_at a s;
     if tp_ooseq pcb = [] then Some s
     else do {
       f \<leftarrow> TCPH_FLAGS (st_heap s) (sg_tcphdr (ti_inseg (st_tcp_in s)));
       if f AND TCP_FIN \<noteq> 0 then do {
         s \<leftarrow> tcp_segs_free (tp_ooseq pcb) s;
         Some (put_tcp_pcb a (pcb\<lparr>tp_ooseq := []\<rparr>) s)
       } else do {
         (ooseq, s) \<leftarrow> tcp_ooseq_covered (tp_ooseq pcb) s;
         s \<leftarrow> (case ooseq of
             [] \<Rightarrow> Some s
           | n # _ \<Rightarrow> do {
               nq \<leftarrow> rx_seqno (st_heap s) n;
               let v = st_tcp_in s;
               if TCP_SEQ_GT (ti_seqno v + ucast (ti_tcplen v)) nq then do {
                 s \<leftarrow> tcp_trim_inseg (ucast (nq - ti_seqno v)) s;
                 lwip_assert (ti_seqno (st_tcp_in s) + ucast (ti_tcplen (st_tcp_in s)) = nq);
                 Some s
               } else Some s
             });
         Some (put_tcp_pcb a (pcb\<lparr>tp_ooseq := ooseq\<rparr>) s)
       }
     }
   }"

text \<open>The receiver takes \<open>n\<close> numbers of the sequence space.\<close>

definition tcp_rcv_advance :: "u32 \<Rightarrow> u32 \<Rightarrow> tcp_pcb \<Rightarrow> tcp_pcb option" where
  "tcp_rcv_advance nxt n p = do {
     lwip_assert (tp_rcv_wnd p \<ge> n);
     Some (snd (tcp_update_rcv_ann_wnd (p\<lparr>tp_rcv_nxt := nxt, tp_rcv_wnd := tp_rcv_wnd p - n\<rparr>)))
   }"

text \<open>The queued segments that are in order now are taken.\<close>

fun tcp_ooseq_take :: "addr \<Rightarrow> tcp_seg list \<Rightarrow> stack \<Rightarrow> stack option" where
  "tcp_ooseq_take a [] s = Some s"
| "tcp_ooseq_take a (cseg # rest) s = do {
     p \<leftarrow> tcp_pcb_at a s;
     sq \<leftarrow> rx_seqno (st_heap s) cseg;
     if sq = tp_rcv_nxt p then do {
       n \<leftarrow> TCP_TCPLEN (st_heap s) cseg;
       p \<leftarrow> tcp_rcv_advance (tp_rcv_nxt p + n) n p;
       let s = upd_in (\<lambda>v. v\<lparr>ti_seqno := sq\<rparr>) s;
       b \<leftarrow> sg_p cseg;
       pb \<leftarrow> hp_pbufs (st_heap s) b;
       (cseg, s) \<leftarrow> (if pb_tot_len pb > 0 then do {
           s \<leftarrow> (case ti_recv_data (st_tcp_in s) of
               Some d \<Rightarrow> on_heap' (pbuf_cat (Some d) (sg_p cseg)) s
             | None \<Rightarrow> Some (upd_in (\<lambda>v. v\<lparr>ti_recv_data := sg_p cseg\<rparr>) s));
           Some (cseg\<lparr>sg_p := None\<rparr>, s)
         } else Some (cseg, s));
       f \<leftarrow> TCPH_FLAGS (st_heap s) (sg_tcphdr cseg);
       let fin = (f AND TCP_FIN \<noteq> 0);
       let s = (if fin then upd_in (\<lambda>v. v\<lparr>ti_recv_flags := ti_recv_flags v OR TF_GOT_FIN\<rparr>) s else s);
       let p = (if fin \<and> tp_state p = ESTABLISHED then p\<lparr>tp_state := CLOSE_WAIT\<rparr> else p);
       s \<leftarrow> tcp_seg_free cseg (put_tcp_pcb a (p\<lparr>tp_ooseq := rest\<rparr>) s);
       tcp_ooseq_take a rest s
     } else Some s
   }"

definition tcp_receive_sacks :: "addr \<Rightarrow> stack \<Rightarrow> stack option" where
  "tcp_receive_sacks a s = do {
     p \<leftarrow> tcp_pcb_at a s;
     if tp_flags p AND TF_SACK = 0 then Some s
     else (case tp_ooseq p of
         n # _ \<Rightarrow> do { nq \<leftarrow> rx_seqno (st_heap s) n; Some (put_tcp_pcb a (tcp_remove_sacks_lt nq p) s) }
       | [] \<Rightarrow> Some (if LWIP_TCP_SACK_VALID p 0 then put_tcp_pcb a (p\<lparr>tp_rcv_sacks := no_sacks\<rparr>) s else s))
   }"

definition tcp_receive_inorder :: "addr \<Rightarrow> stack \<Rightarrow> stack option" where
  "tcp_receive_inorder a s = do {
     s \<leftarrow> tcp_set_tcplen s;
     s \<leftarrow> tcp_receive_overrun a s;
     s \<leftarrow> tcp_receive_ooseq_trim a s;
     let v = st_tcp_in s;
     p \<leftarrow> tcp_pcb_at a s;
     p \<leftarrow> tcp_rcv_advance (ti_seqno v + ucast (ti_tcplen v)) (ucast (ti_tcplen v)) p;
     b \<leftarrow> sg_p (ti_inseg v);
     pb \<leftarrow> hp_pbufs (st_heap s) b;
     f \<leftarrow> TCPH_FLAGS (st_heap s) (sg_tcphdr (ti_inseg v));
     let s = upd_in (\<lambda>v.
       let v = (if pb_tot_len pb > 0 then v\<lparr>ti_recv_data := Some b, ti_inseg := (ti_inseg v)\<lparr>sg_p := None\<rparr>\<rparr> else v)
       in if f AND TCP_FIN \<noteq> 0 then v\<lparr>ti_recv_flags := ti_recv_flags v OR TF_GOT_FIN\<rparr> else v) (put_tcp_pcb a p s);
     s \<leftarrow> tcp_ooseq_take a (tp_ooseq p) s;
     s \<leftarrow> tcp_receive_sacks a s;
     s \<leftarrow> upd_tcp_pcb a tcp_ack s;
     p \<leftarrow> tcp_pcb_at a s;
     if LWIP_TCP_SACK_VALID p 0 then do { (_, s) \<leftarrow> tcp_send_empty_ack a s; Some s } else Some s
   }"

section \<open>Data out of order\<close>

text \<open>
  The search for the place of the segment.  The queue is \<open>front @ back\<close>: \<open>prev\<close> is the last segment of \<open>front\<close>, if
  there is one, and \<open>prev->next\<close> the first one of \<open>back\<close>.
\<close>

definition tcp_oos_put :: "tcp_seg list \<Rightarrow> tcp_seg list \<Rightarrow> u32 \<Rightarrow> stack \<Rightarrow> (tcp_seg list \<times> tcp_seg list \<times> u32 \<times> stack) option" where
  "tcp_oos_put front back sackbeg s = do {
     (c, s) \<leftarrow> tcp_seg_copy (ti_inseg (st_tcp_in s)) s;
     case c of
       None \<Rightarrow> Some (front, back, sackbeg, s)
     | Some cseg \<Rightarrow> do { (back, s) \<leftarrow> tcp_oos_insert_segment cseg back s; Some (front, back, sackbeg, s) }
   }"

text \<open>\<open>sg->len = to - sg->seqno\<close> and \<open>pbuf_realloc\<close>.\<close>

definition tcp_oos_cut :: "tcp_seg \<Rightarrow> u32 \<Rightarrow> stack \<Rightarrow> (tcp_seg \<times> stack) option" where
  "tcp_oos_cut sg to s = do {
     sq \<leftarrow> rx_seqno (st_heap s) sg;
     let sg = sg\<lparr>sg_len := ucast (to - sq)\<rparr>;
     s \<leftarrow> on_heap' (pbuf_realloc (sg_p sg) (sg_len sg)) s;
     Some (sg, s)
   }"

text \<open>Between two segments.\<close>

definition tcp_oos_between :: "tcp_seg list \<Rightarrow> tcp_seg \<Rightarrow> tcp_seg list \<Rightarrow> u32 \<Rightarrow> stack \<Rightarrow> (tcp_seg list \<times> tcp_seg list \<times> u32 \<times> stack) option" where
  "tcp_oos_between before prev back sackbeg s = do {
     (c, s) \<leftarrow> tcp_seg_copy (ti_inseg (st_tcp_in s)) s;
     case c of
       None \<Rightarrow> Some (before @ [prev], back, sackbeg, s)
     | Some cseg \<Rightarrow> do {
         let seqno = ti_seqno (st_tcp_in s);
         pq \<leftarrow> rx_seqno (st_heap s) prev;
         (prev, s) \<leftarrow> (if TCP_SEQ_GT (pq + ucast (sg_len prev)) seqno then tcp_oos_cut prev seqno s else Some (prev, s));
         (back, s) \<leftarrow> tcp_oos_insert_segment cseg back s;
         Some (before @ [prev], back, sackbeg, s)
       }
   }"

text \<open>Behind the last segment \<open>n\<close>; the new segment is cut at the end of the window.\<close>

definition tcp_oos_append :: "addr \<Rightarrow> tcp_seg list \<Rightarrow> tcp_seg \<Rightarrow> u32 \<Rightarrow> stack \<Rightarrow> (tcp_seg list \<times> tcp_seg list \<times> u32 \<times> stack) option" where
  "tcp_oos_append a before n sackbeg s = do {
     f \<leftarrow> TCPH_FLAGS (st_heap s) (sg_tcphdr n);
     if f AND TCP_FIN \<noteq> 0 then Some (before @ [n], [], sackbeg, s)
     else do {
       (c, s) \<leftarrow> tcp_seg_copy (ti_inseg (st_tcp_in s)) s;
       case c of
         None \<Rightarrow> Some (before @ [n], [], sackbeg, s)
       | Some cseg \<Rightarrow> do {
           let v = st_tcp_in s;
           nq \<leftarrow> rx_seqno (st_heap s) n;
           (n, s) \<leftarrow> (if TCP_SEQ_GT (nq + ucast (sg_len n)) (ti_seqno v) then tcp_oos_cut n (ti_seqno v) s else Some (n, s));
           pcb \<leftarrow> tcp_pcb_at a s;
           if TCP_SEQ_GT (ucast (ti_tcplen v) + ti_seqno v) (tp_rcv_nxt pcb + tp_rcv_wnd pcb) then do {
             g \<leftarrow> TCPH_FLAGS (st_heap s) (sg_tcphdr cseg);
             s \<leftarrow> (if g AND TCP_FIN \<noteq> 0 then TCPH_FLAGS_SET (sg_tcphdr cseg) (g AND NOT TCP_FIN) s else Some s);
             let cseg = cseg\<lparr>sg_len := ucast (tp_rcv_nxt pcb + tp_rcv_wnd pcb - ti_seqno v)\<rparr>;
             s \<leftarrow> on_heap' (pbuf_realloc (sg_p cseg) (sg_len cseg)) s;
             m \<leftarrow> TCP_TCPLEN (st_heap s) cseg;
             let s = upd_in (\<lambda>v. v\<lparr>ti_tcplen := ucast m\<rparr>) s;
             lwip_assert (ti_seqno v + ucast (ti_tcplen (st_tcp_in s)) = tp_rcv_nxt pcb + tp_rcv_wnd pcb);
             Some (before @ [n], [cseg], sackbeg, s)
           } else Some (before @ [n], [cseg], sackbeg, s)
         }
     }
   }"

fun tcp_oos_search :: "addr \<Rightarrow> tcp_seg list \<Rightarrow> tcp_seg list \<Rightarrow> u32 \<Rightarrow> stack \<Rightarrow> (tcp_seg list \<times> tcp_seg list \<times> u32 \<times> stack) option" where
  "tcp_oos_search a front [] sackbeg s = Some (front, [], sackbeg, s)"
| "tcp_oos_search a front (n # rest) sackbeg s = do {
     let v = st_tcp_in s;
     nq \<leftarrow> rx_seqno (st_heap s) n;
     if ti_seqno v = nq then
       (if sg_len (ti_inseg v) > sg_len n then tcp_oos_put front (n # rest) sackbeg s else Some (front, n # rest, sackbeg, s))
     else do {
       prev \<leftarrow> (if front = [] then Some None else map_option (\<lambda>q. Some (q, sg_len (last front))) (rx_seqno (st_heap s) (last front)));
       if (case prev of None \<Rightarrow> TCP_SEQ_LT (ti_seqno v) nq | Some (pq, _) \<Rightarrow> TCP_SEQ_BETWEEN (ti_seqno v) (pq + 1) (nq - 1))
       then (if front = [] then tcp_oos_put [] (n # rest) sackbeg s
             else tcp_oos_between (butlast front) (last front) (n # rest) sackbeg s)
       else do {
         let sackbeg = (case prev of None \<Rightarrow> sackbeg | Some (pq, plen) \<Rightarrow> if pq + ucast plen \<noteq> nq then nq else sackbeg);
         if rest = [] \<and> TCP_SEQ_GT (ti_seqno v) nq then tcp_oos_append a front n sackbeg s
         else tcp_oos_search a (front @ [n]) rest sackbeg s
       }
     }
   }"

text \<open>The end of the run of contiguous segments.\<close>

fun tcp_sack_end :: "heap \<Rightarrow> tcp_seg list \<Rightarrow> u32 \<Rightarrow> u32 option" where
  "tcp_sack_end h [] sackend = Some sackend"
| "tcp_sack_end h (n # rest) sackend = do {
     nq \<leftarrow> rx_seqno h n;
     if sackend = nq then tcp_sack_end h rest (sackend + ucast (sg_len n)) else Some sackend
   }"

definition tcp_oos_sack :: "addr \<Rightarrow> tcp_seg list \<Rightarrow> tcp_seg list \<Rightarrow> u32 \<Rightarrow> stack \<Rightarrow> stack option" where
  "tcp_oos_sack a front back sackbeg s = do {
     p \<leftarrow> tcp_pcb_at a s;
     if tp_flags p AND TF_SACK = 0 then Some s
     else (case back of
         [] \<Rightarrow> Some s
       | n # _ \<Rightarrow> do {
           nq \<leftarrow> rx_seqno (st_heap s) n;
           sackbeg \<leftarrow> (if front = [] then Some sackbeg else do {
               pq \<leftarrow> rx_seqno (st_heap s) (last front);
               Some (if pq + ucast (sg_len (last front)) \<noteq> nq then nq else sackbeg)
             });
           sackend \<leftarrow> tcp_sack_end (st_heap s) back nq;
           Some (put_tcp_pcb a (tcp_add_sack sackbeg sackend p) s)
         })
   }"

definition tcp_receive_outoforder :: "addr \<Rightarrow> stack \<Rightarrow> stack option" where
  "tcp_receive_outoforder a s = do {
     let v = st_tcp_in s;
     pcb \<leftarrow> tcp_pcb_at a s;
     s \<leftarrow> (case tp_ooseq pcb of
         [] \<Rightarrow> do {
           (c, s) \<leftarrow> tcp_seg_copy (ti_inseg v) s;
           upd_tcp_pcb a (\<lambda>p. let p = p\<lparr>tp_ooseq := (case c of None \<Rightarrow> [] | Some cseg \<Rightarrow> [cseg])\<rparr> in
             if tp_flags p AND TF_SACK \<noteq> 0
             then p\<lparr>tp_rcv_sacks := (tp_rcv_sacks p)[0 := (ti_seqno v, ti_seqno v + ucast (sg_len (ti_inseg v)))]\<rparr> else p) s
         }
       | n # rest \<Rightarrow> do {
           nq \<leftarrow> rx_seqno (st_heap s) n;
           (front, back, sackbeg, s) \<leftarrow> tcp_oos_search a [] (n # rest) (if TCP_SEQ_LT (ti_seqno v) nq then ti_seqno v else nq) s;
           s \<leftarrow> upd_tcp_pcb a (\<lambda>p. p\<lparr>tp_ooseq := front @ back\<rparr>) s;
           tcp_oos_sack a front back sackbeg s
         });
     (_, s) \<leftarrow> tcp_send_empty_ack a s;
     Some s
   }"

definition tcp_receive :: "addr \<Rightarrow> stack \<Rightarrow> stack option" where
  "tcp_receive a s = do {
     p \<leftarrow> tcp_pcb_at a s;
     lwip_assert (tcp_state_num (tp_state p) \<ge> tcp_state_num ESTABLISHED);
     s \<leftarrow> (if ti_flags (st_tcp_in s) AND TCP_ACK \<noteq> 0 then tcp_receive_ack a s else Some s);
     p \<leftarrow> tcp_pcb_at a s;
     let v = st_tcp_in s;
     if ti_tcplen v > 0 \<and> tcp_state_num (tp_state p) < tcp_state_num CLOSE_WAIT then do {
       s \<leftarrow> (if TCP_SEQ_BETWEEN (tp_rcv_nxt p) (ti_seqno v + 1) (ti_seqno v + ucast (ti_tcplen v) - 1) then tcp_receive_trim a s
             else Some (if TCP_SEQ_LT (ti_seqno v) (tp_rcv_nxt p) then put_tcp_pcb a (tcp_ack_now p) s else s));
       let seqno = ti_seqno (st_tcp_in s);
       if TCP_SEQ_BETWEEN seqno (tp_rcv_nxt p) (tp_rcv_nxt p + tp_rcv_wnd p - 1) then
         (if tp_rcv_nxt p = seqno then tcp_receive_inorder a s else tcp_receive_outoforder a s)
       else do { (_, s) \<leftarrow> tcp_send_empty_ack a s; Some s }
     } else
       Some (if \<not> TCP_SEQ_BETWEEN (ti_seqno v) (tp_rcv_nxt p) (tp_rcv_nxt p + tp_rcv_wnd p - 1) then put_tcp_pcb a (tcp_ack_now p) s else s)
   }"

section \<open>The state machine\<close>

text \<open>A reset: acceptable only at the exact sequence number; within the window it is answered by a challenge ACK.\<close>

definition tcp_process_rst :: "addr \<Rightarrow> stack \<Rightarrow> (err_t \<times> stack) option" where
  "tcp_process_rst a s = do {
     let v = st_tcp_in s;
     p \<leftarrow> tcp_pcb_at a s;
     let acceptable = (if tp_state p = SYN_SENT then ti_ackno v = tp_snd_nxt p else ti_seqno v = tp_rcv_nxt p);
     if acceptable then do {
       lwip_assert (tp_state p \<noteq> CLOSED);
       Some (ERR_RST, upd_in (\<lambda>v. v\<lparr>ti_recv_flags := ti_recv_flags v OR TF_RESET\<rparr>) (put_tcp_pcb a (tcp_clear_flags TF_ACK_DELAY p) s))
     } else if tp_state p \<noteq> SYN_SENT \<and> TCP_SEQ_BETWEEN (ti_seqno v) (tp_rcv_nxt p) (tp_rcv_nxt p + tp_rcv_wnd p)
     then Some (ERR_OK, put_tcp_pcb a (tcp_ack_now p) s)
     else Some (ERR_OK, s)
   }"

definition tcp_process_syn_sent :: "tcp_callbacks \<Rightarrow> addr \<Rightarrow> stack \<Rightarrow> (err_t \<times> stack) option" where
  "tcp_process_syn_sent cb a s = do {
     let v = st_tcp_in s;
     p \<leftarrow> tcp_pcb_at a s;
     if ti_flags v AND TCP_ACK \<noteq> 0 \<and> ti_flags v AND TCP_SYN \<noteq> 0 \<and> ti_ackno v = tp_lastack p + 1 then do {
       wnd \<leftarrow> read_u16 (st_heap s) (ti_tcphdr v) 14;
       let p = p\<lparr>tp_rcv_nxt := ti_seqno v + 1, tp_rcv_ann_right_edge := ti_seqno v + 1, tp_lastack := ti_ackno v, tp_snd_wnd := ucast wnd,
         tp_snd_wnd_max := ucast wnd, tp_snd_wl1 := ti_seqno v - 1, tp_state := ESTABLISHED\<rparr>;
       let p = p\<lparr>tp_mss := tcp_eff_send_mss p s\<rparr>;
       let p = p\<lparr>tp_cwnd := LWIP_TCP_CALC_INITIAL_CWND (tp_mss p)\<rparr>;
       lwip_assert (tp_snd_queuelen p > 0);
       let p = p\<lparr>tp_snd_queuelen := tp_snd_queuelen p - 1\<rparr>;
       lwip_assert (tp_unacked p \<noteq> [] \<or> tp_unsent p \<noteq> []);
       let (rseg, p) = (if tp_unacked p = [] then (hd (tp_unsent p), p\<lparr>tp_unsent := tl (tp_unsent p)\<rparr>)
                        else (hd (tp_unacked p), p\<lparr>tp_unacked := tl (tp_unacked p)\<rparr>));
       s \<leftarrow> tcp_seg_free rseg s;
       let p = (if tp_unacked p = [] then p\<lparr>tp_rtime := - 1\<rparr> else p\<lparr>tp_rtime := 0, tp_nrtx := 0\<rparr>);
       (err, s) \<leftarrow> TCP_EVENT_CONNECTED cb a ERR_OK (put_tcp_pcb a p s);
       if err = ERR_ABRT then Some (ERR_ABRT, s)
       else do { s \<leftarrow> upd_tcp_pcb a tcp_ack_now s; Some (ERR_OK, s) }
     } else if ti_flags v AND TCP_ACK \<noteq> 0 then do {
       s \<leftarrow> tcp_rst_input (Some (tcp_ip_pcb p)) s;
       s \<leftarrow> (if tp_nrtx p < TCP_SYNMAXRTX then tcp_rexmit_rto a (put_tcp_pcb a (p\<lparr>tp_rtime := 0\<rparr>) s) else Some s);
       Some (ERR_OK, s)
     } else Some (ERR_OK, s)
   }"

definition tcp_got_fin :: "stack \<Rightarrow> bool" where
  "tcp_got_fin s \<longleftrightarrow> ti_recv_flags (st_tcp_in s) AND TF_GOT_FIN \<noteq> 0"

definition tcp_process_syn_rcvd :: "tcp_callbacks \<Rightarrow> addr \<Rightarrow> stack \<Rightarrow> (err_t \<times> stack) option" where
  "tcp_process_syn_rcvd cb a s = do {
     let v = st_tcp_in s;
     p \<leftarrow> tcp_pcb_at a s;
     if ti_flags v AND TCP_ACK \<noteq> 0 then
       (if TCP_SEQ_BETWEEN (ti_ackno v) (tp_lastack p + 1) (tp_snd_nxt p) then do {
          let s = put_tcp_pcb a (p\<lparr>tp_state := ESTABLISHED\<rparr>) s;
          (err, s) \<leftarrow> (case tp_listener p of
              None \<Rightarrow> Some (ERR_VAL, s)
            | Some l \<Rightarrow> do {
                lpcb \<leftarrow> tcp_lpcb_at l s;
                lwip_assert (lp_accept lpcb \<noteq> None);
                s \<leftarrow> tcp_backlog_accepted a s;
                p \<leftarrow> tcp_pcb_at a s;
                TCP_EVENT_ACCEPT cb l (Some a) (tp_callback_arg p) ERR_OK s
              });
          if err \<noteq> ERR_OK then do {
            s \<leftarrow> (if err \<noteq> ERR_ABRT then tcp_abort cb (Some a) s else Some s);
            Some (ERR_ABRT, s)
          } else do {
            s \<leftarrow> tcp_receive a s;
            let s = upd_in (\<lambda>v. if ti_recv_acked v \<noteq> 0 then v\<lparr>ti_recv_acked := ti_recv_acked v - 1\<rparr> else v) s;
            s \<leftarrow> upd_tcp_pcb a (\<lambda>p. let p = p\<lparr>tp_cwnd := LWIP_TCP_CALC_INITIAL_CWND (tp_mss p)\<rparr>
                    in if tcp_got_fin s then (tcp_ack_now p)\<lparr>tp_state := CLOSE_WAIT\<rparr> else p) s;
            Some (ERR_OK, s)
          }
        } else do { s \<leftarrow> tcp_rst_input (Some (tcp_ip_pcb p)) s; Some (ERR_OK, s) })
     else if ti_flags v AND TCP_SYN \<noteq> 0 \<and> ti_seqno v = tp_rcv_nxt p - 1 then do { (_, s) \<leftarrow> tcp_rexmit a s; Some (ERR_OK, s) }
     else Some (ERR_OK, s)
   }"

text \<open>\<open>(flags & TCP_ACK) && (ackno == pcb->snd_nxt) && pcb->unsent == NULL\<close>\<close>

definition tcp_all_acked :: "tcp_pcb \<Rightarrow> stack \<Rightarrow> bool" where
  "tcp_all_acked p s \<longleftrightarrow> ti_flags (st_tcp_in s) AND TCP_ACK \<noteq> 0 \<and> ti_ackno (st_tcp_in s) = tp_snd_nxt p \<and> tp_unsent p = []"

definition tcp_enter_time_wait :: "addr \<Rightarrow> stack \<Rightarrow> stack option" where
  "tcp_enter_time_wait a s = do {
     s \<leftarrow> tcp_pcb_purge a s;
     s \<leftarrow> upd_tcp_pcb a (\<lambda>p. p\<lparr>tp_state := TIME_WAIT\<rparr>) (TCP_RMV_ACTIVE a s);
     TCP_REG L_tw a s
   }"

text \<open>The states from \<open>ESTABLISHED\<close> on, after \<open>tcp_receive\<close>.\<close>

definition tcp_process_received :: "addr \<Rightarrow> tcp_state \<Rightarrow> stack \<Rightarrow> stack option" where
  "tcp_process_received a st s = do {
     p \<leftarrow> tcp_pcb_at a s;
     case st of
       FIN_WAIT_1 \<Rightarrow>
         if tcp_got_fin s then
           (if tcp_all_acked p s then tcp_enter_time_wait a (put_tcp_pcb a (tcp_ack_now p) s)
            else Some (put_tcp_pcb a ((tcp_ack_now p)\<lparr>tp_state := CLOSING\<rparr>) s))
         else Some (if tcp_all_acked p s then put_tcp_pcb a (p\<lparr>tp_state := FIN_WAIT_2\<rparr>) s else s)
     | FIN_WAIT_2 \<Rightarrow> if tcp_got_fin s then tcp_enter_time_wait a (put_tcp_pcb a (tcp_ack_now p) s) else Some s
     | CLOSING \<Rightarrow> if tcp_all_acked p s then tcp_enter_time_wait a s else Some s
     | LAST_ACK \<Rightarrow> Some (if tcp_all_acked p s then upd_in (\<lambda>v. v\<lparr>ti_recv_flags := ti_recv_flags v OR TF_CLOSED\<rparr>) s else s)
     | _ \<Rightarrow> Some (if tcp_got_fin s then put_tcp_pcb a ((tcp_ack_now p)\<lparr>tp_state := CLOSE_WAIT\<rparr>) s else s)
   }"

definition tcp_process :: "tcp_callbacks \<Rightarrow> addr \<Rightarrow> stack \<Rightarrow> (err_t \<times> stack) option" where
  "tcp_process cb a s = do {
     let v = st_tcp_in s;
     p \<leftarrow> tcp_pcb_at a s;
     if ti_flags v AND TCP_RST \<noteq> 0 then tcp_process_rst a s
     else if ti_flags v AND TCP_SYN \<noteq> 0 \<and> tp_state p \<noteq> SYN_SENT \<and> tp_state p \<noteq> SYN_RCVD
     then Some (ERR_OK, put_tcp_pcb a (tcp_ack_now p) s)
     else do {
       let p = (if tp_flags p AND TF_RXCLOSED = 0 then p\<lparr>tp_tmr := tg_ticks (st_tcp s)\<rparr> else p);
       s \<leftarrow> tcp_parseopt a (put_tcp_pcb a (p\<lparr>tp_keep_cnt_sent := 0, tp_persist_probe := 0\<rparr>) s);
       case tp_state p of
         SYN_SENT \<Rightarrow> tcp_process_syn_sent cb a s
       | SYN_RCVD \<Rightarrow> tcp_process_syn_rcvd cb a s
       | CLOSED \<Rightarrow> Some (ERR_OK, s)
       | LISTEN \<Rightarrow> Some (ERR_OK, s)
       | TIME_WAIT \<Rightarrow> Some (ERR_OK, s)
       | st \<Rightarrow> do {
           s \<leftarrow> tcp_receive a s;
           s \<leftarrow> tcp_process_received a st s;
           Some (ERR_OK, s)
         }
     }
   }"

section \<open>Parsing the header\<close>

text \<open>The options, when the header is split: its rest is at the start of the second pbuf.  The result is \<open>False\<close> when it is not there.\<close>

definition tcp_input_opts :: "addr \<Rightarrow> nat \<Rightarrow> stack \<Rightarrow> (bool \<times> stack) option" where
  "tcp_input_opts p hdrlen_bytes s = do {
     pb \<leftarrow> hp_pbufs (st_heap s) p;
     let optlen = of_nat (hdrlen_bytes - TCP_HLEN);
     let s = upd_in (\<lambda>v. v\<lparr>ti_optlen := optlen, ti_opt2 := None\<rparr>) s;
     if unat (pb_len pb) \<ge> hdrlen_bytes then do {
       (_, s) \<leftarrow> on_heap (pbuf_remove_header (Some p) hdrlen_bytes) (upd_in (\<lambda>v. v\<lparr>ti_opt1len := optlen\<rparr>) s);
       Some (True, s)
     } else do {
       q \<leftarrow> pb_next pb;
       (_, s) \<leftarrow> on_heap (pbuf_remove_header (Some p) TCP_HLEN) s;
       pb \<leftarrow> hp_pbufs (st_heap s) p;
       let opt1len = pb_len pb;
       let opt2len = optlen - opt1len;
       (_, s) \<leftarrow> on_heap (pbuf_remove_header (Some p) (unat opt1len)) (upd_in (\<lambda>v. v\<lparr>ti_opt1len := opt1len\<rparr>) s);
       qb \<leftarrow> hp_pbufs (st_heap s) q;
       if opt2len > pb_len qb then Some (False, s)
       else do {
         (_, s) \<leftarrow> on_heap (pbuf_remove_header (Some q) (unat opt2len)) (upd_in (\<lambda>v. v\<lparr>ti_opt2 := pb_payload qb\<rparr>) s);
         pb \<leftarrow> hp_pbufs (st_heap s) p;
         qb \<leftarrow> hp_pbufs (st_heap s) q;
         let pb = pb\<lparr>pb_tot_len := pb_tot_len pb - opt2len\<rparr>;
         lwip_assert (pb_len pb = 0);
         lwip_assert (pb_tot_len pb = pb_tot_len qb);
         Some (True, s\<lparr>st_heap := put_pbuf (st_heap s) p pb\<rparr>)
       }
     }
   }"

text \<open>The numbers of the header turn into host order, in place.  The result is \<open>False\<close> when \<open>tcplen\<close> overflows.\<close>

definition tcp_input_fields :: "addr \<Rightarrow> stack \<Rightarrow> (bool \<times> stack) option" where
  "tcp_input_fields p s = do {
     let hdr = ti_tcphdr (st_tcp_in s);
     let h = st_heap s;
     src \<leftarrow> read_u16 h hdr 0;
     dest \<leftarrow> read_u16 h hdr 2;
     seqno \<leftarrow> read_u32 h hdr 4;
     ackno \<leftarrow> read_u32 h hdr 8;
     wnd \<leftarrow> read_u16 h hdr 14;
     s \<leftarrow> st_write hdr 0 (bytes_u16 (lwip_htons src) @ bytes_u16 (lwip_htons dest) @ bytes_u32 (lwip_htonl seqno) @ bytes_u32 (lwip_htonl ackno)) s;
     s \<leftarrow> st_write hdr 14 (bytes_u16 (lwip_htons wnd)) s;
     flags \<leftarrow> TCPH_FLAGS (st_heap s) hdr;
     pb \<leftarrow> hp_pbufs (st_heap s) p;
     let tcplen = (if flags AND (TCP_FIN OR TCP_SYN) \<noteq> 0 then pb_tot_len pb + 1 else pb_tot_len pb);
     Some (tcplen \<ge> pb_tot_len pb,
       upd_in (\<lambda>v. v\<lparr>ti_seqno := lwip_htonl seqno, ti_ackno := lwip_htonl ackno, ti_flags := flags, ti_tcplen := tcplen\<rparr>) s)
   }"

text \<open>The part of \<open>tcp_input\<close> up to the search for a control block; \<open>False\<close> stands for \<open>goto dropped\<close>.\<close>

definition tcp_input_header :: "addr \<Rightarrow> stack \<Rightarrow> (bool \<times> stack) option" where
  "tcp_input_header p s = do {
     pb \<leftarrow> hp_pbufs (st_heap s) p;
     let s = upd_in (\<lambda>v. v\<lparr>ti_tcphdr := pb_payload pb\<rparr>) s;
     if unat (pb_len pb) < TCP_HLEN then Some (False, s)
     else do {
       let dst = current_iphdr_dest (st_ip_data s);
       broadcast \<leftarrow> ip4_addr_isbroadcast dst (current_netif (st_ip_data s)) s;
       if broadcast \<or> ip4_addr_ismulticast dst then Some (False, s)
       else do {
         w \<leftarrow> read_u16 (st_heap s) (pb_payload pb) 12;
         let hdrlen_bytes = unat (ucast (push_bit 2 (drop_bit 12 (lwip_htons w))) :: u8);
         if hdrlen_bytes < TCP_HLEN \<or> hdrlen_bytes > unat (pb_tot_len pb) then Some (False, s)
         else do {
           (ok, s) \<leftarrow> tcp_input_opts p hdrlen_bytes s;
           if ok then tcp_input_fields p s else Some (False, s)
         }
       }
     }
   }"

section \<open>Finding the control block\<close>

text \<open>The ports and addresses of the segment.\<close>

record tcp_flow =
  fl_src :: u16
  fl_dest :: u16
  fl_src_ip :: ip4_addr_t
  fl_dest_ip :: ip4_addr_t

definition tcp_current_flow :: "stack \<Rightarrow> tcp_flow option" where
  "tcp_current_flow s = do {
     src \<leftarrow> read_u16 (st_heap s) (ti_tcphdr (st_tcp_in s)) 0;
     dest \<leftarrow> read_u16 (st_heap s) (ti_tcphdr (st_tcp_in s)) 2;
     Some \<lparr>fl_src = src, fl_dest = dest, fl_src_ip = current_iphdr_src (st_ip_data s), fl_dest_ip = current_iphdr_dest (st_ip_data s)\<rparr>
   }"

text \<open>Is the control block bound to another interface than the one the packet came from?\<close>

definition tcp_other_netif :: "u8 \<Rightarrow> stack \<Rightarrow> bool option" where
  "tcp_other_netif idx s =
     (if idx = NETIF_NO_INDEX then Some False
      else do { n \<leftarrow> current_input_netif (st_ip_data s); Some (idx \<noteq> netif_get_index (netif_at s n)) })"

definition tcp_pcb_matches :: "tcp_flow \<Rightarrow> tcp_pcb \<Rightarrow> bool" where
  "tcp_pcb_matches fl p \<longleftrightarrow> tp_remote_port p = fl_src fl \<and> tp_local_port p = fl_dest fl \<and> tp_remote_ip p = fl_src_ip fl
     \<and> tp_local_ip p = fl_dest_ip fl"

fun tcp_find_active :: "tcp_flow \<Rightarrow> addr list \<Rightarrow> stack \<Rightarrow> addr option option" where
  "tcp_find_active fl [] s = Some None"
| "tcp_find_active fl (a # as) s = do {
     p \<leftarrow> tcp_pcb_at a s;
     lwip_assert (tp_state p \<notin> {CLOSED, TIME_WAIT, LISTEN});
     other \<leftarrow> tcp_other_netif (tp_netif_idx p) s;
     if \<not> other \<and> tcp_pcb_matches fl p then Some (Some a) else tcp_find_active fl as s
   }"

fun tcp_find_tw :: "tcp_flow \<Rightarrow> addr list \<Rightarrow> stack \<Rightarrow> addr option option" where
  "tcp_find_tw fl [] s = Some None"
| "tcp_find_tw fl (a # as) s = do {
     p \<leftarrow> tcp_pcb_at a s;
     lwip_assert (tp_state p = TIME_WAIT);
     other \<leftarrow> tcp_other_netif (tp_netif_idx p) s;
     if \<not> other \<and> tcp_pcb_matches fl p then Some (Some a) else tcp_find_tw fl as s
   }"

fun tcp_find_listen :: "tcp_flow \<Rightarrow> addr list \<Rightarrow> stack \<Rightarrow> addr option option" where
  "tcp_find_listen fl [] s = Some None"
| "tcp_find_listen fl (l # ls) s = do {
     p \<leftarrow> tcp_lpcb_at l s;
     other \<leftarrow> tcp_other_netif (lp_netif_idx p) s;
     if \<not> other \<and> (lp_local_port p = TCP_ACCEPT_ANY_PORT \<or> lp_local_port p = fl_dest fl)
        \<and> (lp_local_ip p = fl_dest_ip fl \<or> ip4_addr_isany_val (lp_local_ip p))
     then Some (Some l) else tcp_find_listen fl ls s
   }"

text \<open>The control block that was found moves to the front.\<close>

definition tcp_to_front :: "tcp_list \<Rightarrow> addr \<Rightarrow> stack \<Rightarrow> stack" where
  "tcp_to_front l a s = set_tcp_list l (a # remove1 a (tcp_pcb_list l s)) s"

section \<open>Delivery\<close>

definition tcp_input_delayed_close :: "tcp_callbacks \<Rightarrow> addr \<Rightarrow> stack \<Rightarrow> (bool \<times> stack) option" where
  "tcp_input_delayed_close cb a s =
     (if ti_recv_flags (st_tcp_in s) AND TF_CLOSED = 0 then Some (False, s)
      else do {
        p \<leftarrow> tcp_pcb_at a s;
        s \<leftarrow> (if tp_flags p AND TF_RXCLOSED = 0 then TCP_EVENT_ERR cb (tp_errf p) (tp_callback_arg p) ERR_CLSD s else Some s);
        s \<leftarrow> tcp_pcb_remove L_active a s;
        s \<leftarrow> tcp_free a s;
        Some (True, s)
      })"

text \<open>The events for the acknowledged data, 65535 bytes at a time; \<open>True\<close> when the control block is gone.\<close>

function tcp_input_sent :: "tcp_callbacks \<Rightarrow> addr \<Rightarrow> u32 \<Rightarrow> stack \<Rightarrow> (bool \<times> stack) option" where
  "tcp_input_sent cb a acked s =
     (if acked > 0 then do {
        let acked16 = (ucast (min acked 0xffff) :: u16);
        (err, s) \<leftarrow> TCP_EVENT_SENT cb a acked16 s;
        if err = ERR_ABRT then Some (True, s) else tcp_input_sent cb a (acked - ucast acked16) s
      } else Some (False, s))"
  by pat_completeness auto
termination
proof (relation "measure (\<lambda>(_, _, acked, _). unat acked)", goal_cases)
  case (2 cb a acked s acked16)
  let ?m = "min acked 0xffff"
  have "unat ?m < 2 ^ 16" by (simp add: min_def word_le_nat_alt)
  then have m: "ucast acked16 = ?m"
    unfolding 2(2) by (intro word_unat_eq_iff [THEN iffD2]) (simp add: unsigned_ucast_eq unsigned_take_bit_eq take_bit_nat_eq_self)
  have "0 < ?m" "?m \<le> acked" using 2(1) by (simp_all add: min_def not_le order_less_imp_le)
  then have "unat (acked - ?m) < unat acked"
    by (simp add: unat_sub word_less_nat_alt word_le_nat_alt)
  then show ?case by (simp add: m)
qed simp

declare tcp_input_sent.simps [simp del]

partial_function (option) tcp_input_recv :: "tcp_callbacks \<Rightarrow> addr \<Rightarrow> stack \<Rightarrow> (bool \<times> stack) option" where
  "tcp_input_recv cb a s = (case ti_recv_data (st_tcp_in s) of
      None \<Rightarrow> Some (False, s)
    | Some data \<Rightarrow> do {
        (rest, s) \<leftarrow> on_heap (pbuf_split_64k (Some data)) s;
        p \<leftarrow> tcp_pcb_at a s;
        lwip_assert (tp_refused_data p = None);
        if tp_flags p AND TF_RXCLOSED \<noteq> 0 then do {
          s \<leftarrow> st_pbuf_free (Some data) s;
          s \<leftarrow> (if rest \<noteq> None then st_pbuf_free rest s else Some s);
          s \<leftarrow> tcp_abort cb (Some a) s;
          Some (True, s)
        } else do {
          (err, s) \<leftarrow> TCP_EVENT_RECV cb a (Some data) ERR_OK s;
          if err = ERR_ABRT then do {
            s \<leftarrow> (if rest \<noteq> None then st_pbuf_free rest s else Some s);
            Some (True, s)
          } else if err \<noteq> ERR_OK then do {
            s \<leftarrow> (if rest \<noteq> None then on_heap' (pbuf_cat (Some data) rest) s else Some s);
            s \<leftarrow> upd_tcp_pcb a (\<lambda>p. p\<lparr>tp_refused_data := Some data\<rparr>) s;
            Some (False, s)
          } else tcp_input_recv cb a (upd_in (\<lambda>v. v\<lparr>ti_recv_data := rest\<rparr>) s)
        }
      })"

text \<open>The end of the data; \<open>True\<close> when the control block is gone.\<close>

definition tcp_input_fin :: "tcp_callbacks \<Rightarrow> addr \<Rightarrow> stack \<Rightarrow> (bool \<times> stack) option" where
  "tcp_input_fin cb a s =
     (if \<not> tcp_got_fin s then Some (False, s)
      else do {
        p \<leftarrow> tcp_pcb_at a s;
        case tp_refused_data p of
          Some d \<Rightarrow> do {
            pb \<leftarrow> hp_pbufs (st_heap s) d;
            Some (False, s\<lparr>st_heap := put_pbuf (st_heap s) d (pb\<lparr>pb_flags := pb_flags pb OR PBUF_FLAG_TCP_FIN\<rparr>)\<rparr>)
          }
        | None \<Rightarrow> do {
            let p = (if tp_rcv_wnd p \<noteq> TCP_WND_MAX p then p\<lparr>tp_rcv_wnd := tp_rcv_wnd p + 1\<rparr> else p);
            (err, s) \<leftarrow> TCP_EVENT_CLOSED cb a (put_tcp_pcb a p s);
            Some (err = ERR_ABRT, s)
          }
      })"

definition set_input_pcb :: "addr option \<Rightarrow> stack \<Rightarrow> stack" where
  "set_input_pcb pcb s = s\<lparr>st_tcp := (st_tcp s)\<lparr>tg_input_pcb := pcb\<rparr>\<rparr>"

text \<open>What follows \<open>tcp_process\<close>, up to the label \<open>aborted\<close>.\<close>

definition tcp_input_deliver :: "tcp_callbacks \<Rightarrow> addr \<Rightarrow> stack \<Rightarrow> stack option" where
  "tcp_input_deliver cb a s = do {
     (gone, s) \<leftarrow> tcp_input_sent cb a (ti_recv_acked (st_tcp_in s)) s;
     if gone then Some s else do {
       (gone, s) \<leftarrow> tcp_input_delayed_close cb a (upd_in (\<lambda>v. v\<lparr>ti_recv_acked := 0\<rparr>) s);
       if gone then Some s else do {
         (gone, s) \<leftarrow> tcp_input_recv cb a s;
         if gone then Some s else do {
           (gone, s) \<leftarrow> tcp_input_fin cb a s;
           if gone then Some s else do {
             (gone, s) \<leftarrow> tcp_input_delayed_close cb a (set_input_pcb None s);
             if gone then Some s else do { (_, s) \<leftarrow> tcp_output a s; Some s }
           }
         }
       }
     }
   }"

definition tcp_input_processed :: "tcp_callbacks \<Rightarrow> addr \<Rightarrow> err_t \<Rightarrow> stack \<Rightarrow> stack option" where
  "tcp_input_processed cb a err s =
     (if err = ERR_ABRT then Some s
      else if ti_recv_flags (st_tcp_in s) AND TF_RESET \<noteq> 0 then do {
        p \<leftarrow> tcp_pcb_at a s;
        s \<leftarrow> TCP_EVENT_ERR cb (tp_errf p) (tp_callback_arg p) ERR_RST s;
        s \<leftarrow> tcp_pcb_remove L_active a s;
        tcp_free a s
      } else tcp_input_deliver cb a s)"

text \<open>From the label \<open>aborted\<close> on.\<close>

definition tcp_input_done :: "stack \<Rightarrow> stack option" where
  "tcp_input_done s = do {
     let s = upd_in (\<lambda>v. v\<lparr>ti_recv_data := None\<rparr>) (set_input_pcb None s);
     case sg_p (ti_inseg (st_tcp_in s)) of
       None \<Rightarrow> Some s
     | Some p \<Rightarrow> do {
         s \<leftarrow> st_pbuf_free (Some p) s;
         Some (upd_in (\<lambda>v. v\<lparr>ti_inseg := (ti_inseg v)\<lparr>sg_p := None\<rparr>\<rparr>) s)
       }
   }"

text \<open>A segment for an active control block.  Data that were refused before are offered first.\<close>

definition tcp_input_active :: "tcp_callbacks \<Rightarrow> addr \<Rightarrow> addr \<Rightarrow> stack \<Rightarrow> stack option" where
  "tcp_input_active cb a p s = do {
     pb \<leftarrow> hp_pbufs (st_heap s) p;
     let s = upd_in (\<lambda>v. v\<lparr>ti_inseg := (ti_inseg v)\<lparr>sg_len := pb_tot_len pb, sg_p := Some p, sg_tcphdr := ti_tcphdr v\<rparr>,
       ti_recv_data := None, ti_recv_flags := 0, ti_recv_acked := 0\<rparr>) s;
     let s = (if ti_flags (st_tcp_in s) AND TCP_PSH \<noteq> 0
              then s\<lparr>st_heap := put_pbuf (st_heap s) p (pb\<lparr>pb_flags := pb_flags pb OR PBUF_FLAG_PUSH\<rparr>)\<rparr> else s);
     pcb \<leftarrow> tcp_pcb_at a s;
     (drop, s) \<leftarrow> (if tp_refused_data pcb = None then Some (False, s)
       else do {
         (e, s) \<leftarrow> tcp_process_refused_data cb a s;
         if e = ERR_ABRT then Some (True, s)
         else do { pcb \<leftarrow> tcp_pcb_at a s; Some (tp_refused_data pcb \<noteq> None \<and> ti_tcplen (st_tcp_in s) > 0, s) }
       });
     s \<leftarrow> (if drop then do {
         pcb \<leftarrow> tcp_pcb_at a s;
         if tp_rcv_ann_wnd pcb = 0 then do { (_, s) \<leftarrow> tcp_send_empty_ack a s; Some s } else Some s
       } else do {
         (err, s) \<leftarrow> tcp_process cb a (set_input_pcb (Some a) s);
         tcp_input_processed cb a err s
       });
     tcp_input_done s
   }"

text \<open>The end of \<open>tcp_input\<close> when no control block matches: a reset, but not in answer to one.\<close>

definition tcp_input_none :: "addr \<Rightarrow> stack \<Rightarrow> stack option" where
  "tcp_input_none p s = do {
     f \<leftarrow> TCPH_FLAGS (st_heap s) (ti_tcphdr (st_tcp_in s));
     s \<leftarrow> (if f AND TCP_RST = 0 then tcp_rst_input None s else Some s);
     st_pbuf_free (Some p) s
   }"

definition tcp_input :: "tcp_callbacks \<Rightarrow> addr \<Rightarrow> netif_ptr \<Rightarrow> stack \<Rightarrow> stack option" where
  "tcp_input cb p inp s = do {
     (ok, s) \<leftarrow> tcp_input_header p s;
     if \<not> ok then st_pbuf_free (Some p) s
     else do {
       fl \<leftarrow> tcp_current_flow s;
       act \<leftarrow> tcp_find_active fl (tcp_pcb_list L_active s) s;
       case act of
         Some a \<Rightarrow> tcp_input_active cb a p (tcp_to_front L_active a s)
       | None \<Rightarrow> do {
           tw \<leftarrow> tcp_find_tw fl (tcp_pcb_list L_tw s) s;
           case tw of
             Some a \<Rightarrow> do { s \<leftarrow> tcp_timewait_input a s; st_pbuf_free (Some p) s }
           | None \<Rightarrow> do {
               lst \<leftarrow> tcp_find_listen fl (tcp_pcb_list L_listen s) s;
               case lst of
                 Some l \<Rightarrow> do { s \<leftarrow> tcp_listen_input cb l (tcp_to_front L_listen l s); st_pbuf_free (Some p) s }
               | None \<Rightarrow> tcp_input_none p s
             }
         }
     }
   }"

end
