(* ===== verification/Tcp_Frame.thy ===== *)
theory Tcp_Frame
  imports Tcp_In
begin

text \<open>
  What the operations of the stack leave alone of the control blocks of TCP: their lists, their states, their
  local ports and the pointers to their listeners (\<open>tcp_core\<close>).  All of \<open>tcp_out.c\<close>, the options and the memory
  operations keep the whole core.
\<close>

lemma bind_SomeE:
  assumes "Option.bind m f = Some r"
  obtains x where "m = Some x" "f x = Some r"
  using assms by (auto simp: bind_eq_Some_conv)

section \<open>Memory grows\<close>

named_theorems brk_dests \<open>the operations of the heap never lower the break\<close>

lemma mem_malloc_brk [brk_dests]: "mem_malloc h = (m, h') \<Longrightarrow> hp_brk h \<le> hp_brk h'"
  by (auto simp: mem_malloc_def)

lemma mem_write_brk [brk_dests]: "mem_write h p off bs = Some h' \<Longrightarrow> hp_brk h \<le> hp_brk h'"
  by (auto simp: mem_write_def bind_eq_Some_conv split: if_splits)

lemma pbuf_free_loop_brk: "pbuf_free_loop p n h = Some r \<Longrightarrow> hp_brk h \<le> hp_brk (snd r)"
  by (erule pbuf_free_loop.raw_induct [where P = "\<lambda>p n h r. hp_brk h \<le> hp_brk (snd r)", rotated])
    (fastforce simp: bind_eq_Some_conv Let_def split: option.splits if_splits)

lemma pbuf_free_brk [brk_dests]: "pbuf_free p h = Some (n, h') \<Longrightarrow> hp_brk h \<le> hp_brk h'"
  by (auto simp: pbuf_free_def bind_eq_Some_conv dest: pbuf_free_loop_brk)

lemma tcpip_try_callback_brk [brk_dests]: "tcpip_try_callback f ctx h = Some (e, h') \<Longrightarrow> hp_brk h \<le> hp_brk h'"
  by (auto simp: tcpip_try_callback_def memp_malloc_msg_def memp_free_msg_def bind_eq_Some_conv Let_def
      split: option.splits prod.splits if_splits dest: mem_malloc_brk)

lemma pbuf_pool_is_empty_brk [brk_dests]: "pbuf_pool_is_empty h = Some h' \<Longrightarrow> hp_brk h \<le> hp_brk h'"
  by (auto simp: pbuf_pool_is_empty_def bind_eq_Some_conv Let_def split: if_splits dest!: brk_dests)

lemma pbuf_alloc_pool_brk: "pbuf_alloc_pool p prev n off h = Some r \<Longrightarrow> hp_brk h \<le> hp_brk (snd r)"
proof (erule pbuf_alloc_pool.raw_induct [where P = "\<lambda>p prev n off h r. hp_brk h \<le> hp_brk (snd r)", rotated], goal_cases)
  case (1 f p prev n off h r)
  show ?case
  proof (cases "mem_malloc h")
    case (Pair m h')
    note b = mem_malloc_brk [OF Pair]
    show ?thesis
    proof (cases m)
      case None
      then show ?thesis
        using 1(2) b Pair by (auto simp: bind_eq_Some_conv split: if_splits dest!: pbuf_pool_is_empty_brk pbuf_free_brk)
    next
      case (Some q)
      then show ?thesis
        using 1(2) b Pair by (auto simp: bind_eq_Some_conv Let_def split: if_splits option.splits dest!: 1(1))
    qed
  qed
qed

lemma pbuf_alloc_brk [brk_dests]: "pbuf_alloc layer n type h = Some (p, h') \<Longrightarrow> hp_brk h \<le> hp_brk h'"
  by (auto simp: pbuf_alloc_def pbuf_alloc_reference_def bind_eq_Some_conv Let_def
      split: pbuf_type.splits option.splits prod.splits if_splits dest: brk_dests dest!: pbuf_alloc_pool_brk)

lemma pbuf_realloc_walk_brk: "pbuf_realloc_walk q n k h = Some r \<Longrightarrow> hp_brk h \<le> hp_brk (snd (snd r))"
  by (erule pbuf_realloc_walk.raw_induct [where P = "\<lambda>q n k h r. hp_brk h \<le> hp_brk (snd (snd r))", rotated])
    (fastforce simp: bind_eq_Some_conv Let_def split: option.splits if_splits)

lemma pbuf_realloc_brk [brk_dests]: "pbuf_realloc p n h = Some h' \<Longrightarrow> hp_brk h \<le> hp_brk h'"
  by (auto simp: pbuf_realloc_def bind_eq_Some_conv Let_def split: if_splits dest!: brk_dests pbuf_realloc_walk_brk)

lemma pbuf_headers_brk [brk_dests]:
  "pbuf_add_header p n h = Some (e, h') \<Longrightarrow> hp_brk h \<le> hp_brk h'"
  "pbuf_remove_header p n h = Some (e, h') \<Longrightarrow> hp_brk h \<le> hp_brk h'"
  by (auto simp: pbuf_add_header_def pbuf_add_header_impl_def pbuf_remove_header_def bind_eq_Some_conv Let_def split: if_splits)

lemma pbuf_ref_brk [brk_dests]: "pbuf_ref p h = Some h' \<Longrightarrow> hp_brk h \<le> hp_brk h'"
  by (auto simp: pbuf_ref_def bind_eq_Some_conv split: option.splits)

lemma pbuf_cat_loop_brk: "pbuf_cat_loop a b h = Some h' \<Longrightarrow> hp_brk h \<le> hp_brk h'"
  by (erule pbuf_cat_loop.raw_induct [where P = "\<lambda>a b h h'. hp_brk h \<le> hp_brk h'", rotated])
    (fastforce simp: bind_eq_Some_conv Let_def split: option.splits if_splits)

lemma pbuf_cat_brk [brk_dests]: "pbuf_cat p q h = Some h' \<Longrightarrow> hp_brk h \<le> hp_brk h'"
  by (auto simp: pbuf_cat_def bind_eq_Some_conv dest: pbuf_cat_loop_brk)

lemma pbuf_split_fix_brk: "pbuf_split_fix i n h = Some h' \<Longrightarrow> hp_brk h \<le> hp_brk h'"
  by (erule pbuf_split_fix.raw_induct [where P = "\<lambda>i n h h'. hp_brk h \<le> hp_brk h'", rotated])
    (fastforce simp: bind_eq_Some_conv Let_def split: option.splits if_splits)

lemma pbuf_split_64k_brk [brk_dests]: "pbuf_split_64k p h = Some (r, h') \<Longrightarrow> hp_brk h \<le> hp_brk h'"
  unfolding pbuf_split_64k_def Let_def
  by (auto elim!: bind_SomeE split: option.split_asm if_split_asm dest!: pbuf_split_fix_brk)

lemma pbuf_queue_append_brk [brk_dests]: "pbuf_queue_append q ps h = Some (q', h') \<Longrightarrow> hp_brk h \<le> hp_brk h'"
proof (induction q ps h arbitrary: q' h' rule: pbuf_queue_append.induct)
  case (2 q p ps h)
  obtain old q1 where q: "pbuf_queue_put q p = (old, q1)" by fastforce
  obtain h1 where h1: "(if old \<noteq> None then map_option snd (pbuf_free old h) else Some h) = Some h1"
      "pbuf_queue_append q1 ps h1 = Some (q', h')"
    using 2(2) by (auto simp: q elim!: bind_SomeE)
  then show ?case
    using 2(1) [OF refl q [symmetric] h1] by (auto split: if_splits dest!: pbuf_free_brk)
qed simp

lemma tcp_write_fill_brk [brk_dests]: "tcp_write_fill p n bs h = Some h' \<Longrightarrow> hp_brk h \<le> hp_brk h'"
  by (erule tcp_write_fill.raw_induct [where P = "\<lambda>p n bs h h'. hp_brk h \<le> hp_brk h'", rotated])
    (fastforce simp: bind_eq_Some_conv Let_def split: option.splits if_splits dest: mem_write_brk)

lemma tcp_write_extend_brk [brk_dests]: "tcp_write_extend p n h = Some h' \<Longrightarrow> hp_brk h \<le> hp_brk h'"
  by (erule tcp_write_extend.raw_induct [where P = "\<lambda>p n h h'. hp_brk h \<le> hp_brk h'", rotated])
    (fastforce simp: bind_eq_Some_conv Let_def split: option.splits if_splits)

lemma tcp_trim_loop_brk: "tcp_trim_loop p off n h = Some r \<Longrightarrow> hp_brk h \<le> hp_brk (snd (snd r))"
  by (erule tcp_trim_loop.raw_induct [where P = "\<lambda>p off n h r. hp_brk h \<le> hp_brk (snd (snd r))", rotated])
    (fastforce simp: bind_eq_Some_conv Let_def split: option.splits if_splits)

section \<open>The core of the control blocks\<close>

record pcb_core =
  pc_state :: tcp_state
  pc_port :: u16
  pc_listener :: "addr option"

record tcp_core =
  tc_listen :: "addr list"
  tc_bound :: "addr list"
  tc_active :: "addr list"
  tc_tw :: "addr list"
  tc_lpcbs :: "addr set"
  tc_pcbs :: "addr \<rightharpoonup> pcb_core"
  tc_input :: "addr option"
  tc_closing :: bool
  tc_reset :: bool

definition pcb_core_of :: "tcp_pcb \<Rightarrow> pcb_core" where
  "pcb_core_of p = \<lparr>pc_state = tp_state p, pc_port = tp_local_port p, pc_listener = tp_listener p\<rparr>"

definition tcp_core_of :: "stack \<Rightarrow> tcp_core" where
  "tcp_core_of s = \<lparr>tc_listen = tg_listen (st_tcp s), tc_bound = tg_bound (st_tcp s), tc_active = tg_active (st_tcp s), tc_tw = tg_tw (st_tcp s),
     tc_lpcbs = dom (tg_lpcbs (st_tcp s)), tc_pcbs = map_option pcb_core_of \<circ> tg_pcbs (st_tcp s),
     tc_input = tg_input_pcb (st_tcp s), tc_closing = (ti_recv_flags (st_tcp_in s) AND TF_CLOSED \<noteq> 0),
     tc_reset = (ti_recv_flags (st_tcp_in s) AND TF_RESET \<noteq> 0)\<rparr>"

definition st_brk :: "stack \<Rightarrow> nat" where
  "st_brk s = hp_brk (st_heap s)"

abbreviation core_kept :: "stack \<Rightarrow> stack \<Rightarrow> bool" where
  "core_kept s s' \<equiv> tcp_core_of s' = tcp_core_of s \<and> st_brk s \<le> st_brk s'"

text \<open>\<open>pcb_is a s p\<close> remembers that a control block was read when the fact on its core is taken out.\<close>

definition pcb_is :: "addr \<Rightarrow> stack \<Rightarrow> tcp_pcb \<Rightarrow> bool" where
  "pcb_is a s p \<longleftrightarrow> tcp_pcb_at a s = Some p"

lemma tcp_pcb_at_core: "tcp_pcb_at a s = Some p \<longleftrightarrow> tc_pcbs (tcp_core_of s) a = Some (pcb_core_of p) \<and> pcb_is a s p"
  by (auto simp: tcp_pcb_at_def tcp_core_of_def pcb_is_def)

lemma pcb_core_of_upd [simp]:
  "pcb_core_of (p\<lparr>tp_local_ip := v_local_ip\<rparr>) = pcb_core_of p"
  "pcb_core_of (p\<lparr>tp_remote_ip := v_remote_ip\<rparr>) = pcb_core_of p"
  "pcb_core_of (p\<lparr>tp_netif_idx := v_netif_idx\<rparr>) = pcb_core_of p"
  "pcb_core_of (p\<lparr>tp_so_options := v_so_options\<rparr>) = pcb_core_of p" "pcb_core_of (p\<lparr>tp_tos := v_tos\<rparr>) = pcb_core_of p"
  "pcb_core_of (p\<lparr>tp_ttl := v_ttl\<rparr>) = pcb_core_of p" "pcb_core_of (p\<lparr>tp_callback_arg := v_callback_arg\<rparr>) = pcb_core_of p"
  "pcb_core_of (p\<lparr>tp_prio := v_prio\<rparr>) = pcb_core_of p" "pcb_core_of (p\<lparr>tp_remote_port := v_remote_port\<rparr>) = pcb_core_of p"
  "pcb_core_of (p\<lparr>tp_flags := v_flags\<rparr>) = pcb_core_of p" "pcb_core_of (p\<lparr>tp_polltmr := v_polltmr\<rparr>) = pcb_core_of p"
  "pcb_core_of (p\<lparr>tp_pollinterval := v_pollinterval\<rparr>) = pcb_core_of p"
  "pcb_core_of (p\<lparr>tp_last_timer := v_last_timer\<rparr>) = pcb_core_of p" "pcb_core_of (p\<lparr>tp_tmr := v_tmr\<rparr>) = pcb_core_of p"
  "pcb_core_of (p\<lparr>tp_rcv_nxt := v_rcv_nxt\<rparr>) = pcb_core_of p" "pcb_core_of (p\<lparr>tp_rcv_wnd := v_rcv_wnd\<rparr>) = pcb_core_of p"
  "pcb_core_of (p\<lparr>tp_rcv_ann_wnd := v_rcv_ann_wnd\<rparr>) = pcb_core_of p"
  "pcb_core_of (p\<lparr>tp_rcv_ann_right_edge := v_rcv_ann_right_edge\<rparr>) = pcb_core_of p"
  "pcb_core_of (p\<lparr>tp_rcv_sacks := v_rcv_sacks\<rparr>) = pcb_core_of p" "pcb_core_of (p\<lparr>tp_rtime := v_rtime\<rparr>) = pcb_core_of p"
  "pcb_core_of (p\<lparr>tp_mss := v_mss\<rparr>) = pcb_core_of p" "pcb_core_of (p\<lparr>tp_rttest := v_rttest\<rparr>) = pcb_core_of p"
  "pcb_core_of (p\<lparr>tp_rtseq := v_rtseq\<rparr>) = pcb_core_of p" "pcb_core_of (p\<lparr>tp_sa := v_sa\<rparr>) = pcb_core_of p"
  "pcb_core_of (p\<lparr>tp_sv := v_sv\<rparr>) = pcb_core_of p" "pcb_core_of (p\<lparr>tp_rto := v_rto\<rparr>) = pcb_core_of p"
  "pcb_core_of (p\<lparr>tp_nrtx := v_nrtx\<rparr>) = pcb_core_of p" "pcb_core_of (p\<lparr>tp_dupacks := v_dupacks\<rparr>) = pcb_core_of p"
  "pcb_core_of (p\<lparr>tp_lastack := v_lastack\<rparr>) = pcb_core_of p" "pcb_core_of (p\<lparr>tp_cwnd := v_cwnd\<rparr>) = pcb_core_of p"
  "pcb_core_of (p\<lparr>tp_ssthresh := v_ssthresh\<rparr>) = pcb_core_of p" "pcb_core_of (p\<lparr>tp_rto_end := v_rto_end\<rparr>) = pcb_core_of p"
  "pcb_core_of (p\<lparr>tp_snd_nxt := v_snd_nxt\<rparr>) = pcb_core_of p" "pcb_core_of (p\<lparr>tp_snd_wl1 := v_snd_wl1\<rparr>) = pcb_core_of p"
  "pcb_core_of (p\<lparr>tp_snd_wl2 := v_snd_wl2\<rparr>) = pcb_core_of p" "pcb_core_of (p\<lparr>tp_snd_lbb := v_snd_lbb\<rparr>) = pcb_core_of p"
  "pcb_core_of (p\<lparr>tp_snd_wnd := v_snd_wnd\<rparr>) = pcb_core_of p"
  "pcb_core_of (p\<lparr>tp_snd_wnd_max := v_snd_wnd_max\<rparr>) = pcb_core_of p"
  "pcb_core_of (p\<lparr>tp_snd_buf := v_snd_buf\<rparr>) = pcb_core_of p"
  "pcb_core_of (p\<lparr>tp_snd_queuelen := v_snd_queuelen\<rparr>) = pcb_core_of p"
  "pcb_core_of (p\<lparr>tp_unsent_oversize := v_unsent_oversize\<rparr>) = pcb_core_of p"
  "pcb_core_of (p\<lparr>tp_bytes_acked := v_bytes_acked\<rparr>) = pcb_core_of p"
  "pcb_core_of (p\<lparr>tp_unsent := v_unsent\<rparr>) = pcb_core_of p" "pcb_core_of (p\<lparr>tp_unacked := v_unacked\<rparr>) = pcb_core_of p"
  "pcb_core_of (p\<lparr>tp_ooseq := v_ooseq\<rparr>) = pcb_core_of p"
  "pcb_core_of (p\<lparr>tp_refused_data := v_refused_data\<rparr>) = pcb_core_of p"
  "pcb_core_of (p\<lparr>tp_sent := v_sent\<rparr>) = pcb_core_of p" "pcb_core_of (p\<lparr>tp_recv := v_recv\<rparr>) = pcb_core_of p"
  "pcb_core_of (p\<lparr>tp_connected := v_connected\<rparr>) = pcb_core_of p" "pcb_core_of (p\<lparr>tp_poll := v_poll\<rparr>) = pcb_core_of p"
  "pcb_core_of (p\<lparr>tp_errf := v_errf\<rparr>) = pcb_core_of p" "pcb_core_of (p\<lparr>tp_keep_idle := v_keep_idle\<rparr>) = pcb_core_of p"
  "pcb_core_of (p\<lparr>tp_persist_cnt := v_persist_cnt\<rparr>) = pcb_core_of p"
  "pcb_core_of (p\<lparr>tp_persist_backoff := v_persist_backoff\<rparr>) = pcb_core_of p"
  "pcb_core_of (p\<lparr>tp_persist_probe := v_persist_probe\<rparr>) = pcb_core_of p"
  "pcb_core_of (p\<lparr>tp_keep_cnt_sent := v_keep_cnt_sent\<rparr>) = pcb_core_of p"
  "pcb_core_of (p\<lparr>tp_snd_scale := v_snd_scale\<rparr>) = pcb_core_of p"
  "pcb_core_of (p\<lparr>tp_rcv_scale := v_rcv_scale\<rparr>) = pcb_core_of p"
  by (simp_all add: pcb_core_of_def)

lemma pcb_core_of_state [simp]:
  "pcb_core_of (p\<lparr>tp_state := st\<rparr>) = (pcb_core_of p)\<lparr>pc_state := st\<rparr>" "pcb_core_of (p\<lparr>tp_local_port := port\<rparr>) = (pcb_core_of p)\<lparr>pc_port := port\<rparr>"
  "pcb_core_of (p\<lparr>tp_listener := l\<rparr>) = (pcb_core_of p)\<lparr>pc_listener := l\<rparr>"
  "pc_state (pcb_core_of p) = tp_state p" "pc_port (pcb_core_of p) = tp_local_port p" "pc_listener (pcb_core_of p) = tp_listener p"
  by (simp_all add: pcb_core_of_def)

lemma pcb_core_of_flags [simp]:
  "pcb_core_of (tcp_set_flags f p) = pcb_core_of p" "pcb_core_of (tcp_clear_flags f p) = pcb_core_of p"
  "pcb_core_of (tcp_ack_now p) = pcb_core_of p" "pcb_core_of (tcp_ack p) = pcb_core_of p"
  by (simp_all add: tcp_set_flags_def tcp_clear_flags_def tcp_ack_now_def tcp_ack_def)

lemma pcb_core_of_if [simp]: "pcb_core_of (if b then p else q) = (if b then pcb_core_of p else pcb_core_of q)"
  by simp

lemma core_put_same [simp]: "tc_pcbs c a = Some x \<Longrightarrow> c\<lparr>tc_pcbs := (tc_pcbs c)(a \<mapsto> x)\<rparr> = c"
  by (cases c) (auto simp: map_upd_triv)

text \<open>The core of an updated state.\<close>

lemma core_of_upd [simp]:
  "tcp_core_of (s\<lparr>st_heap := h\<rparr>) = tcp_core_of s" "st_brk (s\<lparr>st_heap := h\<rparr>) = hp_brk h"
  "tcp_core_of (s\<lparr>st_links := lk\<rparr>) = tcp_core_of s" "st_brk (s\<lparr>st_links := lk\<rparr>) = st_brk s"
  "tcp_core_of (s\<lparr>st_ip_id := i\<rparr>) = tcp_core_of s" "st_brk (s\<lparr>st_ip_id := i\<rparr>) = st_brk s"
  "tcp_core_of (s\<lparr>st_ip_data := d\<rparr>) = tcp_core_of s" "st_brk (s\<lparr>st_ip_data := d\<rparr>) = st_brk s"
  "st_brk (s\<lparr>st_tcp_in := v\<rparr>) = st_brk s"
  "tcp_core_of (s\<lparr>st_next_timeout := t\<rparr>) = tcp_core_of s" "st_brk (s\<lparr>st_next_timeout := t\<rparr>) = st_brk s"
  "tcp_core_of (s\<lparr>st_tcp_timer_active := b\<rparr>) = tcp_core_of s" "st_brk (s\<lparr>st_tcp_timer_active := b\<rparr>) = st_brk s"
  "st_brk (upd_in f s) = st_brk s" "st_brk (s\<lparr>st_tcp := g\<rparr>) = st_brk s"
  "tcp_core_of (put_tcp_pcb a p s) = (tcp_core_of s)\<lparr>tc_pcbs := (tc_pcbs (tcp_core_of s))(a \<mapsto> pcb_core_of p)\<rparr>"
  "st_brk (put_tcp_pcb a p s) = st_brk s"
  by (auto simp: tcp_core_of_def st_brk_def upd_in_def put_tcp_pcb_def)

lemma core_of_upd_in [simp]:
  "ti_recv_flags (f (st_tcp_in s)) AND TF_CLOSED = ti_recv_flags (st_tcp_in s) AND TF_CLOSED \<Longrightarrow>
   ti_recv_flags (f (st_tcp_in s)) AND TF_RESET = ti_recv_flags (st_tcp_in s) AND TF_RESET \<Longrightarrow> tcp_core_of (upd_in f s) = tcp_core_of s"
  "ti_recv_flags v AND TF_CLOSED = ti_recv_flags (st_tcp_in s) AND TF_CLOSED \<Longrightarrow>
   ti_recv_flags v AND TF_RESET = ti_recv_flags (st_tcp_in s) AND TF_RESET \<Longrightarrow> tcp_core_of (s\<lparr>st_tcp_in := v\<rparr>) = tcp_core_of s"
  by (simp_all add: tcp_core_of_def upd_in_def)

lemma recv_flags_or [simp]:
  "(f OR TF_GOT_FIN) AND TF_CLOSED = f AND TF_CLOSED" "(f OR TF_GOT_FIN) AND TF_RESET = f AND TF_RESET"
  "(f OR TF_RESET) AND TF_CLOSED = f AND TF_CLOSED" "(f OR TF_CLOSED) AND TF_RESET = f AND TF_RESET"
  "TF_CLOSED \<noteq> 0" "TF_RESET \<noteq> 0"
  by (simp_all add: bit.conj_disj_distrib2 TF_GOT_FIN_def TF_CLOSED_def TF_RESET_def)

named_theorems kept_dests \<open>operations that keep the core\<close>
named_theorems core_elims \<open>the steps that operations are made of\<close>
named_theorems core_simps \<open>reading control blocks\<close>

declare tcp_pcb_at_core [core_simps] bind_SomeE [core_elims]

lemma on_heapE [core_elims]:
  assumes "on_heap f s = Some (r, s')"
  obtains h where "f (st_heap s) = Some (r, h)" "s' = s\<lparr>st_heap := h\<rparr>"
  using assms by (auto simp: on_heap_def split: option.splits)

lemma on_heap'E [core_elims]:
  assumes "on_heap' f s = Some s'"
  obtains h where "f (st_heap s) = Some h" "s' = s\<lparr>st_heap := h\<rparr>"
  using assms by (auto simp: on_heap'_def split: option.splits)

lemma upd_tcp_pcbE [core_elims]:
  assumes "upd_tcp_pcb a f s = Some s'"
  obtains p where "tcp_pcb_at a s = Some p" "s' = put_tcp_pcb a (f p) s"
  using assms by (auto simp: upd_tcp_pcb_def)

lemma map_option_SomeE [core_elims]:
  assumes "map_option f m = Some y"
  obtains x where "m = Some x" "y = f x"
  using assms by (cases m) auto

lemma st_brk_heap: "hp_brk (st_heap s) = st_brk s"
  by (simp add: st_brk_def)

lemma st_write_kept [kept_dests]: "st_write p off bs s = Some s' \<Longrightarrow> core_kept s s'"
  by (auto simp: st_write_def st_brk_def elim!: core_elims dest!: brk_dests)

lemma st_pbuf_free_kept [kept_dests]: "st_pbuf_free p s = Some s' \<Longrightarrow> core_kept s s'"
  by (auto simp: st_pbuf_free_def st_brk_def elim!: core_elims dest!: brk_dests)

lemma ip4_output_if_kept [kept_dests]: "ip4_output_if p src dst ttl tos proto n s = Some (e, s') \<Longrightarrow> core_kept s s'"
  by (auto simp: ip4_output_if_def ip4_output_if_src_def netif_output_def global_if_output_def netif_null_output_ip4_def if_output_def
      st_brk_heap Let_def simp del: pbuf_queue_append.simps elim!: core_elims dest!: brk_dests
      split: option.split_asm if_split_asm netif_output_fn.split_asm global_interface_output_func.split_asm)


text \<open>The operations of the headers and of the segments.\<close>

lemma TCPH_kept [kept_dests]:
  "TCPH_SET_FLAG hdr f s = Some s' \<Longrightarrow> core_kept s s'" "TCPH_FLAGS_SET hdr f s = Some s' \<Longrightarrow> core_kept s s'"
  "TCPH_HDRLEN_FLAGS_SET hdr n f s = Some s' \<Longrightarrow> core_kept s s'"
  by (auto simp: TCPH_SET_FLAG_def TCPH_FLAGS_SET_def TCPH_HDRLEN_FLAGS_SET_def elim!: core_elims dest!: kept_dests)

lemma tcp_seg_free_kept [kept_dests]: "tcp_seg_free sg s = Some s' \<Longrightarrow> core_kept s s'"
  by (auto simp: tcp_seg_free_def split: if_split_asm dest!: kept_dests)

lemma tcp_segs_free_kept [kept_dests]: "tcp_segs_free sgs s = Some s' \<Longrightarrow> core_kept s s'"
  by (induction sgs s rule: tcp_segs_free.induct) (fastforce elim!: core_elims dest: kept_dests)+

lemma tcp_create_segment_kept [kept_dests]: "tcp_create_segment pcb p f sq opt s = Some (sg, s') \<Longrightarrow> core_kept s s'"
  by (auto simp: tcp_create_segment_def st_brk_heap Let_def elim!: core_elims dest!: kept_dests brk_dests split: if_split_asm prod.split_asm)

lemma tcp_pbuf_prealloc_kept [kept_dests]: "tcp_pbuf_prealloc layer n m pcb f first s = Some (r, s') \<Longrightarrow> core_kept s s'"
  by (auto simp: tcp_pbuf_prealloc_def st_brk_heap Let_def elim!: core_elims dest!: brk_dests split: option.split_asm)

lemma tcp_write_checks_kept [kept_dests]: "tcp_write_checks a n s = Some (e, s') \<Longrightarrow> core_kept s s'"
  by (auto simp: tcp_write_checks_def core_simps elim!: core_elims split: if_split_asm)

lemma tcp_write_tail_ref_kept [kept_dests]: "tcp_write_tail_ref sg arg n v s = Some (ok, v', s') \<Longrightarrow> core_kept s s'"
  by (auto simp: tcp_write_tail_ref_def st_brk_heap Let_def elim!: core_elims dest!: brk_dests split: option.split_asm if_split_asm)

lemma tcp_write_tail_kept [kept_dests]: "tcp_write_tail pcb arg n f mss v s = Some (ok, v', s') \<Longrightarrow> core_kept s s'"
  unfolding tcp_write_tail_def Let_def
  by (auto elim!: core_elims dest!: kept_dests split: option.split_asm if_split_asm)

lemma tcp_write_pbuf_kept [kept_dests]: "tcp_write_pbuf pcb arg n f mss opt v s = Some (p, v', s') \<Longrightarrow> core_kept s s'"
  unfolding tcp_write_pbuf_def Let_def
  by (auto simp: st_brk_heap elim!: core_elims dest!: kept_dests brk_dests split: option.split_asm if_split_asm)

lemma tcp_write_loop_kept: "tcp_write_loop pcb arg n f mss opt fl v s = Some r \<Longrightarrow> core_kept s (snd (snd r))"
proof (erule tcp_write_loop.raw_induct [where P = "\<lambda>pcb arg n f mss opt fl v s r. core_kept s (snd (snd r))", rotated], goal_cases)
  case (1 g pcb arg n f mss opt fl v s r)
  from 1(2) show ?case
    unfolding Let_def by (auto elim!: core_elims dest!: kept_dests 1(1) split: option.split_asm if_split_asm)
qed

lemma tcp_write_commit_kept [kept_dests]: "tcp_write_commit a arg n f v s = Some (e, s') \<Longrightarrow> core_kept s s'"
  unfolding tcp_write_commit_def Let_def
  by (auto simp: core_simps st_brk_heap elim!: core_elims dest!: kept_dests brk_dests split: if_split_asm)

lemma tcp_write_memerr_kept [kept_dests]: "tcp_write_memerr a v s = Some (e, s') \<Longrightarrow> core_kept s s'"
  by (auto simp: tcp_write_memerr_def core_simps elim!: core_elims dest!: kept_dests split: if_split_asm)

lemma tcp_write_kept [kept_dests]: "tcp_write p arg n f s = Some (e, s') \<Longrightarrow> core_kept s s'"
  unfolding tcp_write_def Let_def
  by (auto elim!: core_elims dest!: kept_dests tcp_write_loop_kept split: if_split_asm)

lemma tcp_split_unsent_seg_kept [kept_dests]: "tcp_split_unsent_seg a n s = Some (e, s') \<Longrightarrow> core_kept s s'"
  unfolding tcp_split_unsent_seg_def Let_def
  by (auto simp: core_simps st_brk_heap elim!: core_elims dest!: kept_dests brk_dests split: list.split_asm option.split_asm if_split_asm)

lemma tcp_enqueue_flags_kept [kept_dests]: "tcp_enqueue_flags a f s = Some (e, s') \<Longrightarrow> core_kept s s'"
  unfolding tcp_enqueue_flags_def Let_def
  by (auto simp: core_simps st_brk_heap elim!: core_elims dest!: kept_dests brk_dests split: option.split_asm)

lemma tcp_send_fin_kept [kept_dests]: "tcp_send_fin a s = Some (e, s') \<Longrightarrow> core_kept s s'"
  unfolding tcp_send_fin_def Let_def
  by (auto simp: core_simps elim!: core_elims dest!: kept_dests split: if_split_asm)


text \<open>Control segments and output.\<close>

lemma tcp_output_alloc_header_common_kept [kept_dests]:
  "tcp_output_alloc_header_common ackno optlen datalen sq src dst f w s = Some (p, s') \<Longrightarrow> core_kept s s'"
  unfolding tcp_output_alloc_header_common_def Let_def
  by (auto simp: st_brk_heap elim!: core_elims dest!: kept_dests brk_dests split: option.split_asm)

lemma tcp_output_alloc_header_kept [kept_dests]: "tcp_output_alloc_header a optlen datalen sq s = Some (p, s') \<Longrightarrow> core_kept s s'"
  by (auto simp: tcp_output_alloc_header_def core_simps elim!: core_elims dest!: kept_dests)

lemma tcp_output_fill_options_kept [kept_dests]: "tcp_output_fill_options sacks p f n s = Some s' \<Longrightarrow> core_kept s s'"
  unfolding tcp_output_fill_options_def Let_def
  by (auto elim!: core_elims dest!: kept_dests split: if_split_asm)

lemma tcp_output_control_segment_kept [kept_dests]: "tcp_output_control_segment pcb p src dst s = Some (e, s') \<Longrightarrow> core_kept s s'"
  unfolding tcp_output_control_segment_def Let_def
  by (auto elim!: core_elims dest!: kept_dests split: option.split_asm)

lemma tcp_rst_kept [kept_dests]: "tcp_rst pcb sq ack lip rip lp rp s = Some s' \<Longrightarrow> core_kept s s'"
  unfolding tcp_rst_def Let_def
  by (auto elim!: core_elims dest!: kept_dests split: option.split_asm)

lemma tcp_send_empty_ack_kept [kept_dests]: "tcp_send_empty_ack a s = Some (e, s') \<Longrightarrow> core_kept s s'"
  unfolding tcp_send_empty_ack_def Let_def
  by (auto simp: core_simps elim!: core_elims dest!: kept_dests split: option.split_asm if_split_asm)

lemma tcp_keepalive_kept [kept_dests]: "tcp_keepalive a s = Some (e, s') \<Longrightarrow> core_kept s s'"
  unfolding tcp_keepalive_def Let_def
  by (auto elim!: core_elims dest!: kept_dests split: option.split_asm)

lemma tcp_zero_window_probe_kept [kept_dests]: "tcp_zero_window_probe a s = Some (e, s') \<Longrightarrow> core_kept s s'"
  unfolding tcp_zero_window_probe_def Let_def
  by (auto simp: core_simps elim!: core_elims dest!: kept_dests split: list.split_asm option.split_asm if_split_asm)

lemma tcp_write_options_kept [kept_dests]: "tcp_write_options sg n s = Some (k, s') \<Longrightarrow> core_kept s s'"
  unfolding tcp_write_options_def Let_def
  by (auto elim!: core_elims dest!: kept_dests split: if_split_asm)

lemma tcp_output_segment_kept [kept_dests]: "tcp_output_segment sg a n s = Some (e, s') \<Longrightarrow> core_kept s s'"
  unfolding tcp_output_segment_def Let_def
  by (auto simp: core_simps st_brk_heap elim!: core_elims dest!: kept_dests split: if_split_asm)

lemma tcp_output_sent_kept [kept_dests]: "tcp_output_sent a sg rest s = Some s' \<Longrightarrow> core_kept s s'"
  unfolding tcp_output_sent_def Let_def
  by (auto simp: core_simps elim!: core_elims dest!: kept_dests split: if_split_asm)

lemma tcp_output_loop_kept: "tcp_output_loop a wnd n s = Some r \<Longrightarrow> core_kept s (snd r)"
proof (erule tcp_output_loop.raw_induct [where P = "\<lambda>a wnd n s r. core_kept s (snd r)", rotated], goal_cases)
  case (1 g a wnd n s r)
  from 1(2) show ?case
    unfolding Let_def by (auto simp: core_simps elim!: core_elims dest!: kept_dests 1(1) split: list.split_asm if_split_asm)
qed

lemma tcp_output_done_kept [kept_dests]: "tcp_output_done a s = Some (e, s') \<Longrightarrow> core_kept s s'"
  by (auto simp: tcp_output_done_def core_simps elim!: core_elims)

lemma tcp_output_kept [kept_dests]: "tcp_output a s = Some (e, s') \<Longrightarrow> core_kept s s'"
  unfolding tcp_output_def Let_def
  by (auto simp: core_simps elim!: core_elims dest!: kept_dests tcp_output_loop_kept split: list.split_asm option.split_asm if_split_asm)

lemma tcp_rexmits_kept [kept_dests]:
  "tcp_rexmit_rto_prepare a s = Some (e, s') \<Longrightarrow> core_kept s s'" "tcp_rexmit_rto_commit a s = Some s' \<Longrightarrow> core_kept s s'"
  "tcp_rexmit a s = Some (e, s') \<Longrightarrow> core_kept s s'"
  unfolding tcp_rexmit_rto_prepare_def tcp_rexmit_rto_commit_def tcp_rexmit_def Let_def
  by (auto simp: core_simps elim!: core_elims dest!: kept_dests split: list.split_asm if_split_asm)

lemma tcp_rexmit_rto_kept [kept_dests]:
  "tcp_rexmit_rto a s = Some s' \<Longrightarrow> core_kept s s'" "tcp_rexmit_fast a s = Some s' \<Longrightarrow> core_kept s s'"
  unfolding tcp_rexmit_rto_def tcp_rexmit_fast_def Let_def
  by (auto simp: core_simps elim!: core_elims dest!: kept_dests split: if_split_asm)

text \<open>Timeouts, options and the other helpers of the input.\<close>

lemma tcp_timer_needed_kept [kept_dests]: "tcp_timer_needed s = Some s' \<Longrightarrow> core_kept s s'"
  by (auto simp: tcp_timer_needed_def sys_timeout_def sys_timeout_abs_def st_brk_heap elim!: core_elims dest!: brk_dests
      split: if_split_asm prod.split_asm)

lemma tcp_get_next_optbyte_kept [kept_dests]: "tcp_get_next_optbyte s = Some (b, s') \<Longrightarrow> core_kept s s'"
  unfolding tcp_get_next_optbyte_def Let_def
  by (auto elim!: core_elims split: if_split_asm)

lemma tcp_opts_kept [kept_dests]:
  "tcp_opt_bad d s = Some (b, s') \<Longrightarrow> core_kept s s'" "tcp_opt_mss a s = Some s' \<Longrightarrow> core_kept s s'" "tcp_opt_ws a s = Some s' \<Longrightarrow> core_kept s s'"
  "tcp_opt_sack_perm a s = Some s' \<Longrightarrow> core_kept s s'"
  unfolding tcp_opt_bad_def tcp_opt_mss_def tcp_opt_ws_def tcp_opt_sack_perm_def Let_def
  by (auto simp: core_simps elim!: core_elims dest!: kept_dests split: if_split_asm)


lemma tcp_parseopt_step_kept [kept_dests]: "tcp_parseopt_step a s = Some (b, s') \<Longrightarrow> core_kept s s'"
  unfolding tcp_parseopt_step_def by (auto elim!: core_elims dest!: kept_dests split: if_split_asm)

lemma tcp_parseopt_loop_kept: "tcp_parseopt_loop a s = Some s' \<Longrightarrow> core_kept s s'"
proof (erule tcp_parseopt_loop.raw_induct [where P = "\<lambda>a s s'. core_kept s s'", rotated], goal_cases)
  case (1 g a s r)
  from 1(2) show ?case by (auto elim!: core_elims dest!: kept_dests 1(1) split: if_split_asm)
qed

lemma tcp_parseopt_kept [kept_dests]: "tcp_parseopt a s = Some s' \<Longrightarrow> core_kept s s'"
  by (auto simp: tcp_parseopt_def split: if_split_asm dest!: tcp_parseopt_loop_kept)

lemma tcp_malloc_kept [kept_dests]: "tcp_malloc s = (m, s') \<Longrightarrow> core_kept s s'"
  by (auto simp: tcp_malloc_def st_brk_heap dest!: mem_malloc_brk split: prod.split_asm)

lemma tcp_seg_copy_kept [kept_dests]: "tcp_seg_copy sg s = Some (c, s') \<Longrightarrow> core_kept s s'"
  by (auto simp: tcp_seg_copy_def st_brk_heap Let_def elim!: core_elims dest!: kept_dests brk_dests split: prod.split_asm option.split_asm if_split_asm)


section \<open>The input of segments\<close>

lemma tcp_rst_input_kept [kept_dests]: "tcp_rst_input pcb s = Some s' \<Longrightarrow> core_kept s s'"
  unfolding tcp_rst_input_def Let_def by (auto elim!: core_elims dest!: kept_dests)

lemma tcp_timewait_input_kept [kept_dests]: "tcp_timewait_input a s = Some s' \<Longrightarrow> core_kept s s'"
  unfolding tcp_timewait_input_def Let_def by (auto simp: core_simps elim!: core_elims dest!: kept_dests split: if_split_asm)

lemma tcp_oos_insert_loop_kept: "tcp_oos_insert_loop c ns s = Some r \<Longrightarrow> core_kept s (snd r)"
proof (induction ns arbitrary: c s r)
  case (Cons n rest)
  from Cons.prems show ?case
    unfolding tcp_oos_insert_loop.simps Let_def
    by (auto simp: st_brk_heap elim!: core_elims split: if_split_asm dest!: Cons.IH kept_dests brk_dests)
qed simp

lemma tcp_oos_insert_segment_kept [kept_dests]: "tcp_oos_insert_segment c ns s = Some (q, s') \<Longrightarrow> core_kept s s'"
  by (auto simp: tcp_oos_insert_segment_def elim!: core_elims split: if_split_asm dest!: tcp_oos_insert_loop_kept kept_dests)

lemma tcp_free_acked_segments_kept: "tcp_free_acked_segments a q other s = Some r \<Longrightarrow> core_kept s (snd r)"
proof (induction q arbitrary: s r)
  case (Cons sg rest)
  from Cons.prems show ?case
    unfolding tcp_free_acked_segments.simps Let_def
    by (auto simp: core_simps elim!: core_elims split: if_split_asm dest!: Cons.IH kept_dests)
qed simp

lemma pcb_core_of_receive [simp]:
  "pcb_core_of (tcp_receive_wnd sq ack w p) = pcb_core_of p" "pcb_core_of (tcp_receive_cwnd ack p) = pcb_core_of p"
  "pcb_core_of (tcp_receive_rtt t ack p) = pcb_core_of p" "pcb_core_of (tcp_add_sack l r p) = pcb_core_of p"
  "pcb_core_of (tcp_remove_sacks_lt sq p) = pcb_core_of p" "pcb_core_of (snd (tcp_update_rcv_ann_wnd p)) = pcb_core_of p"
  by (simp_all add: tcp_receive_wnd_def tcp_receive_cwnd_def tcp_receive_rtt_def tcp_add_sack_def tcp_remove_sacks_lt_def
      tcp_update_rcv_ann_wnd_def Let_def split: prod.split)

lemma tcp_receive_acks_kept [kept_dests]:
  "tcp_receive_dupack a w s = Some s' \<Longrightarrow> core_kept s s'" "tcp_receive_acked a s = Some s' \<Longrightarrow> core_kept s s'"
  unfolding tcp_receive_dupack_def tcp_receive_acked_def Let_def
  by (auto simp: core_simps elim!: core_elims split: if_split_asm dest!: tcp_free_acked_segments_kept kept_dests)

lemma tcp_receive_ack_kept [kept_dests]: "tcp_receive_ack a s = Some s' \<Longrightarrow> core_kept s s'"
  unfolding tcp_receive_ack_def Let_def
  by (auto simp: core_simps elim!: core_elims split: if_split_asm dest!: kept_dests)

lemma tcp_receive_trim_kept [kept_dests]: "tcp_receive_trim a s = Some s' \<Longrightarrow> core_kept s s'"
  unfolding tcp_receive_trim_def Let_def
  by (auto simp: core_simps st_brk_heap elim!: core_elims dest!: tcp_trim_loop_brk kept_dests brk_dests)

lemma tcp_trims_kept [kept_dests]:
  "tcp_set_tcplen s = Some s' \<Longrightarrow> core_kept s s'" "tcp_trim_inseg n s = Some s' \<Longrightarrow> core_kept s s'"
  unfolding tcp_set_tcplen_def tcp_trim_inseg_def Let_def
  by (auto simp: st_brk_heap elim!: core_elims dest!: brk_dests)

lemma tcp_receive_overrun_kept [kept_dests]: "tcp_receive_overrun a s = Some s' \<Longrightarrow> core_kept s s'"
  unfolding tcp_receive_overrun_def Let_def
  by (auto simp: core_simps elim!: core_elims split: if_split_asm dest!: kept_dests)

lemma tcp_ooseq_covered_kept: "tcp_ooseq_covered q s = Some r \<Longrightarrow> core_kept s (snd r)"
proof (induction q arbitrary: s r)
  case (Cons sg rest)
  from Cons.prems show ?case
    unfolding tcp_ooseq_covered.simps Let_def
    by (auto elim!: core_elims split: if_split_asm dest!: Cons.IH kept_dests)
qed simp

lemma tcp_receive_ooseq_trim_kept [kept_dests]: "tcp_receive_ooseq_trim a s = Some s' \<Longrightarrow> core_kept s s'"
  unfolding tcp_receive_ooseq_trim_def Let_def
  by (auto simp: core_simps elim!: core_elims split: if_split_asm list.split_asm dest!: tcp_ooseq_covered_kept kept_dests)

lemma tcp_receive_sacks_kept [kept_dests]: "tcp_receive_sacks a s = Some s' \<Longrightarrow> core_kept s s'"
  unfolding tcp_receive_sacks_def Let_def
  by (auto simp: core_simps elim!: core_elims split: if_split_asm list.split_asm)

lemma tcp_oos_puts_kept [kept_dests]:
  "tcp_oos_put f b sb s = Some (f', b', sb', s') \<Longrightarrow> core_kept s s'" "tcp_oos_cut sg n s = Some (sg', s') \<Longrightarrow> core_kept s s'"
  unfolding tcp_oos_put_def tcp_oos_cut_def Let_def
  by (auto simp: st_brk_heap elim!: core_elims split: option.split_asm dest!: kept_dests brk_dests)

lemma tcp_oos_between_kept [kept_dests]:
  "tcp_oos_between f n b sb s = Some (f', b', sb', s') \<Longrightarrow> core_kept s s'" "tcp_oos_append a f n sb s = Some (f', b', sb', s') \<Longrightarrow> core_kept s s'"
  unfolding tcp_oos_between_def tcp_oos_append_def Let_def
  by (auto simp: st_brk_heap elim!: core_elims split: option.split_asm if_split_asm dest!: kept_dests brk_dests)

lemma tcp_oos_search_kept [kept_dests]: "tcp_oos_search a f b sb s = Some (f', b', sb', s') \<Longrightarrow> core_kept s s'"
proof (induction b arbitrary: f sb s)
  case (Cons n rest)
  from Cons.prems show ?case
    unfolding tcp_oos_search.simps Let_def
    by (auto elim!: core_elims split: if_split_asm option.split_asm dest!: Cons.IH kept_dests)
qed simp

lemma tcp_receive_outoforder_kept [kept_dests]: "tcp_receive_outoforder a s = Some s' \<Longrightarrow> core_kept s s'"
  unfolding tcp_receive_outoforder_def tcp_oos_sack_def Let_def
  by (auto simp: core_simps simp del: tcp_oos_search.simps elim!: core_elims split: if_split_asm list.split_asm option.split_asm
      dest!: kept_dests)


text \<open>In order, the FIN of a queued segment may close the receiving side.\<close>

definition core_state :: "addr \<Rightarrow> tcp_state \<Rightarrow> tcp_core \<Rightarrow> tcp_core" where
  "core_state a st c = c\<lparr>tc_pcbs := (tc_pcbs c)(a := map_option (\<lambda>p. p\<lparr>pc_state := st\<rparr>) (tc_pcbs c a))\<rparr>"

definition core_fin :: "addr \<Rightarrow> tcp_core \<Rightarrow> tcp_core \<Rightarrow> bool" where
  "core_fin a c c' \<longleftrightarrow> c' = c \<or> (\<exists>p. tc_pcbs c a = Some p \<and> pc_state p = ESTABLISHED) \<and> c' = core_state a CLOSE_WAIT c"

lemma core_fin_refl [simp]: "core_fin a c c"
  by (simp add: core_fin_def)

lemma core_fin_fin: "core_fin a (core_state a CLOSE_WAIT c) d \<Longrightarrow> tc_pcbs c a = Some (pcb_core_of p) \<Longrightarrow> tp_state p = ESTABLISHED \<Longrightarrow> core_fin a c d"
  by (auto simp: core_fin_def core_state_def)

lemma core_state_put: "tc_pcbs c a = Some p \<Longrightarrow> c\<lparr>tc_pcbs := (tc_pcbs c)(a \<mapsto> p\<lparr>pc_state := st\<rparr>)\<rparr> = core_state a st c"
  by (simp add: core_state_def)

lemma tcp_rcv_advance_core: "tcp_rcv_advance nxt n p = Some q \<Longrightarrow> pcb_core_of q = pcb_core_of p \<and> tp_state q = tp_state p"
  by (auto simp: tcp_rcv_advance_def tcp_update_rcv_ann_wnd_def Let_def elim!: core_elims)

lemma tcp_ooseq_take_core: "tcp_ooseq_take a q s = Some s' \<Longrightarrow> core_fin a (tcp_core_of s) (tcp_core_of s') \<and> st_brk s \<le> st_brk s'"
proof (induction q arbitrary: s)
  case (Cons sg rest)
  from Cons.prems show ?case
    unfolding tcp_ooseq_take.simps Let_def
    by (auto simp: core_simps core_state_put st_brk_heap elim!: core_elims split: if_split_asm option.split_asm
        dest!: Cons.IH kept_dests brk_dests tcp_rcv_advance_core)
      (erule core_fin_fin, assumption, assumption)+
qed simp

lemma tcp_receive_inorder_core:
  "tcp_receive_inorder a s = Some s' \<Longrightarrow> core_fin a (tcp_core_of s) (tcp_core_of s') \<and> st_brk s \<le> st_brk s'"
  unfolding tcp_receive_inorder_def Let_def
  by (auto simp: core_simps elim!: core_elims split: if_split_asm dest!: kept_dests tcp_ooseq_take_core tcp_rcv_advance_core)

lemma tcp_receive_core:
  "tcp_receive a s = Some s' \<Longrightarrow> core_fin a (tcp_core_of s) (tcp_core_of s') \<and> st_brk s \<le> st_brk s'"
  unfolding tcp_receive_def Let_def
  by (auto simp: core_simps elim!: core_elims split: if_split_asm dest!: kept_dests tcp_receive_inorder_core)

end
