(* ===== verification/Tcp_Wf.thy ===== *)
theory Tcp_Wf
  imports Tcp_Frame
begin

text \<open>
  The lists of the control blocks of TCP keep their order: \<open>tcp_wf\<close> is what the debug function \<open>tcp_pcbs_sane\<close> of
  \<open>tcp.c\<close> checks and what the code relies on beyond it.  No control block is in two lists or twice in one, the
  state of each fits its list, and no pointer of a list or to a listener dangles.

  Callbacks of the application may call back into TCP.  What they may do is \<open>tcp_evolves\<close>, which is proved of
  every function that they may call.
\<close>

section \<open>Well-formed lists\<close>

definition core_ok :: "tcp_core \<Rightarrow> bool" where
  "core_ok c \<longleftrightarrow> distinct (tc_listen c) \<and> distinct (tc_bound c) \<and> distinct (tc_active c) \<and> distinct (tc_tw c)
     \<and> set (tc_listen c) = tc_lpcbs c \<and> tc_lpcbs c \<inter> dom (tc_pcbs c) = {}
     \<and> (\<forall>a p. tc_pcbs c a = Some p \<longrightarrow> pc_state p \<noteq> LISTEN)
     \<and> (\<forall>a \<in> set (tc_bound c). \<exists>p. tc_pcbs c a = Some p \<and> pc_state p = CLOSED \<and> pc_port p \<noteq> 0)
     \<and> (\<forall>a \<in> set (tc_active c). \<exists>p. tc_pcbs c a = Some p \<and> pc_state p \<notin> {CLOSED, TIME_WAIT})
     \<and> (\<forall>a \<in> set (tc_tw c). \<exists>p. tc_pcbs c a = Some p \<and> pc_state p = TIME_WAIT)
     \<and> (\<forall>a \<in> set (tc_active c) \<union> set (tc_tw c). \<forall>p l. tc_pcbs c a = Some p \<longrightarrow> pc_listener p = Some l \<longrightarrow> l \<in> tc_lpcbs c)
     \<and> (\<forall>a p. tc_pcbs c a = Some p \<longrightarrow> pc_state p = CLOSED \<longrightarrow> pc_listener p = None)"

definition tcp_wf :: "stack \<Rightarrow> bool" where
  "tcp_wf s \<longleftrightarrow> core_ok (tcp_core_of s) \<and> (\<forall>a \<in> dom (tc_pcbs (tcp_core_of s)) \<union> tc_lpcbs (tcp_core_of s). a < st_brk s)"

text \<open>A control block in one of the states of the active list.\<close>

definition core_act :: "tcp_core \<Rightarrow> addr \<Rightarrow> bool" where
  "core_act c a \<longleftrightarrow> (\<exists>p. tc_pcbs c a = Some p \<and> pc_state p \<notin> {CLOSED, TIME_WAIT})"

text \<open>A control block that is in TIME-WAIT or gone.\<close>

definition core_done :: "tcp_core \<Rightarrow> addr \<Rightarrow> bool" where
  "core_done c a \<longleftrightarrow> (\<forall>p. tc_pcbs c a = Some p \<longrightarrow> pc_state p = TIME_WAIT)"

definition tcp_evolves :: "stack \<Rightarrow> stack \<Rightarrow> bool" where
  "tcp_evolves s s' \<longleftrightarrow> st_brk s \<le> st_brk s' \<and> tc_input (tcp_core_of s') = tc_input (tcp_core_of s) \<and> tc_reset (tcp_core_of s') = tc_reset (tcp_core_of s)
     \<and> (\<forall>a < st_brk s. tc_pcbs (tcp_core_of s) a = None \<longrightarrow> tc_pcbs (tcp_core_of s') a = None)
     \<and> (\<forall>a < st_brk s. core_act (tcp_core_of s) a \<longrightarrow> tc_pcbs (tcp_core_of s') a = None \<or> core_act (tcp_core_of s') a)
     \<and> (\<forall>a < st_brk s. core_done (tcp_core_of s) a \<longrightarrow> core_done (tcp_core_of s') a)
     \<and> (tc_closing (tcp_core_of s') \<and> (\<forall>a. tc_input (tcp_core_of s) = Some a \<longrightarrow> a < st_brk s \<and> core_done (tcp_core_of s) a) \<longrightarrow> tc_closing (tcp_core_of s))
     \<and> (\<forall>a < st_brk s. a \<in> set (tc_active (tcp_core_of s)) \<and> tc_input (tcp_core_of s) \<noteq> Some a
          \<longrightarrow> tc_pcbs (tcp_core_of s') a = None \<or> a \<in> set (tc_active (tcp_core_of s')))"

text \<open>A step of the program: the lists stay well-formed.\<close>

definition tcp_safe :: "stack \<Rightarrow> stack \<Rightarrow> bool" where
  "tcp_safe s s' \<longleftrightarrow> (tcp_wf s \<longrightarrow> tcp_wf s' \<and> tcp_evolves s s')"

lemma tcp_evolves_refl [simp]: "tcp_evolves s s"
  by (simp add: tcp_evolves_def)

lemma tcp_evolves_trans:
  assumes "tcp_evolves s s'" "tcp_evolves s' s''"
  shows "tcp_evolves s s''"
proof -
  have b: "st_brk s \<le> st_brk s'" using assms(1) by (simp add: tcp_evolves_def)
  have in1: "a < st_brk s'" if "a < st_brk s" for a using that b by simp
  have d: "core_done (tcp_core_of s') a" if "core_done (tcp_core_of s) a" "a < st_brk s" for a
    using assms(1) that by (simp add: tcp_evolves_def)
  have "tc_pcbs (tcp_core_of s'') a = None \<or> core_act (tcp_core_of s'') a" if "core_act (tcp_core_of s) a" "a < st_brk s" for a
    using assms that in1 [OF that(2)] unfolding tcp_evolves_def by metis
  moreover have cl: "tc_closing (tcp_core_of s'') \<and> (\<forall>a. tc_input (tcp_core_of s) = Some a \<longrightarrow> a < st_brk s \<and> core_done (tcp_core_of s) a)
      \<longrightarrow> tc_closing (tcp_core_of s)"
  proof (intro impI, elim conjE)
    assume c: "tc_closing (tcp_core_of s'')" "\<forall>a. tc_input (tcp_core_of s) = Some a \<longrightarrow> a < st_brk s \<and> core_done (tcp_core_of s) a"
    have "\<forall>a. tc_input (tcp_core_of s') = Some a \<longrightarrow> a < st_brk s' \<and> core_done (tcp_core_of s') a"
      using assms(1) c(2) in1 d unfolding tcp_evolves_def by metis
    then show "tc_closing (tcp_core_of s)" using assms c unfolding tcp_evolves_def by metis
  qed
  moreover have "tc_pcbs (tcp_core_of s'') a = None \<or> a \<in> set (tc_active (tcp_core_of s''))"
    if "a \<in> set (tc_active (tcp_core_of s))" "tc_input (tcp_core_of s) \<noteq> Some a" "a < st_brk s" for a
    using assms that in1 [OF that(3)] unfolding tcp_evolves_def by metis
  ultimately show ?thesis
    unfolding tcp_evolves_def by (intro conjI cl) (use assms b in1 d in \<open>simp_all add: tcp_evolves_def\<close>)
qed

lemma tcp_safe_refl [simp]: "tcp_safe s s"
  by (simp add: tcp_safe_def)

lemma tcp_safe_trans: "tcp_safe s s' \<Longrightarrow> tcp_safe s' s'' \<Longrightarrow> tcp_safe s s''"
  by (auto simp: tcp_safe_def intro: tcp_evolves_trans)

lemma tcp_safe_kept: "core_kept s s' \<Longrightarrow> tcp_safe s s'"
  by (auto simp: tcp_safe_def tcp_wf_def tcp_evolves_def core_done_def intro: order_less_le_trans)

text \<open>The lists as parts of the core.\<close>

lemma tcp_pcb_list_core [simp]:
  "tcp_pcb_list L_listen s = tc_listen (tcp_core_of s)" "tcp_pcb_list L_bound s = tc_bound (tcp_core_of s)"
  "tcp_pcb_list L_active s = tc_active (tcp_core_of s)" "tcp_pcb_list L_tw s = tc_tw (tcp_core_of s)"
  by (simp_all add: tcp_core_of_def)

declare tcp_pcb_list.simps [simp del]

section \<open>Changes of the core\<close>

definition core_free :: "addr \<Rightarrow> tcp_core \<Rightarrow> tcp_core" where
  "core_free a c = c\<lparr>tc_pcbs := (tc_pcbs c)(a := None)\<rparr>"

text \<open>A control block leaves all lists and is released.\<close>

definition core_drop :: "addr \<Rightarrow> tcp_core \<Rightarrow> tcp_core" where
  "core_drop a c = c\<lparr>tc_bound := remove1 a (tc_bound c), tc_active := remove1 a (tc_active c), tc_tw := remove1 a (tc_tw c),
     tc_pcbs := (tc_pcbs c)(a := None)\<rparr>"

definition core_rmv :: "tcp_list \<Rightarrow> addr \<Rightarrow> tcp_core \<Rightarrow> tcp_core" where
  "core_rmv l a c = (case l of
      L_listen \<Rightarrow> c\<lparr>tc_listen := remove1 a (tc_listen c)\<rparr> | L_bound \<Rightarrow> c\<lparr>tc_bound := remove1 a (tc_bound c)\<rparr>
    | L_active \<Rightarrow> c\<lparr>tc_active := remove1 a (tc_active c)\<rparr> | L_tw \<Rightarrow> c\<lparr>tc_tw := remove1 a (tc_tw c)\<rparr>)"

definition core_in :: "tcp_list \<Rightarrow> tcp_core \<Rightarrow> addr set" where
  "core_in l c = (case l of L_listen \<Rightarrow> set (tc_listen c) | L_bound \<Rightarrow> set (tc_bound c) | L_active \<Rightarrow> set (tc_active c) | L_tw \<Rightarrow> set (tc_tw c))"

lemma cut_behind_id [simp]: "a \<notin> set l \<Longrightarrow> cut_behind a l = l"
  by (simp add: cut_behind_def)

lemma TCP_RMV_core:
  assumes "\<And>l'. l' \<noteq> l \<Longrightarrow> a \<notin> core_in l' (tcp_core_of s)"
  shows "tcp_core_of (TCP_RMV l a s) = core_rmv l a (tcp_core_of s)" "st_brk (TCP_RMV l a s) = st_brk s"
proof -
  note n = assms [of L_listen] assms [of L_bound] assms [of L_active] assms [of L_tw]
  show "tcp_core_of (TCP_RMV l a s) = core_rmv l a (tcp_core_of s)"
    using n by (cases l) (auto simp: TCP_RMV_def core_in_def core_rmv_def tcp_core_of_def remove1_idem)
  show "st_brk (TCP_RMV l a s) = st_brk s" by (cases l) (auto simp: TCP_RMV_def st_brk_def)
qed


lemma TCP_RMV_pcbs [simp]: "tc_pcbs (tcp_core_of (TCP_RMV l a s)) = tc_pcbs (tcp_core_of s)" "st_brk (TCP_RMV l a s) = st_brk s"
  by (cases l; simp add: TCP_RMV_def tcp_core_of_def st_brk_def)+

text \<open>Where a control block can be, by its state.\<close>

lemma core_ok_in:
  assumes "core_ok c" "tc_pcbs c a = Some p"
  shows "a \<notin> core_in L_listen c" "pc_state p \<noteq> LISTEN"
    "a \<in> core_in L_bound c \<Longrightarrow> pc_state p = CLOSED \<and> pc_port p \<noteq> 0"
    "a \<in> core_in L_active c \<Longrightarrow> pc_state p \<notin> {CLOSED, TIME_WAIT}"
    "a \<in> core_in L_tw c \<Longrightarrow> pc_state p = TIME_WAIT"
  using assms by (fastforce simp: core_ok_def core_in_def)+

definition state_list :: "tcp_state \<Rightarrow> tcp_list" where
  "state_list st = (case st of CLOSED \<Rightarrow> L_bound | TIME_WAIT \<Rightarrow> L_tw | _ \<Rightarrow> L_active)"

lemma core_ok_alone:
  "core_ok c \<Longrightarrow> tc_pcbs c a = Some p \<Longrightarrow> l \<noteq> state_list (pc_state p) \<Longrightarrow> a \<notin> core_in l c"
  using core_ok_in [of c a p] by (cases l) (auto simp: state_list_def split: tcp_state.splits)

lemma core_in_rmv: "core_in l (core_rmv l' a c) \<subseteq> core_in l c"
  by (cases l; cases l'; simp add: core_in_def core_rmv_def set_remove1_subset)

lemma core_ok_state:
  assumes "core_ok c" "core_act c a" "st \<notin> {CLOSED, TIME_WAIT, LISTEN}"
  shows "core_ok (core_state a st c)"
  using assms unfolding core_ok_def core_act_def core_state_def by (auto; blast)

lemma core_ok_drop: "core_ok c \<Longrightarrow> core_ok (core_drop a c)"
  unfolding core_ok_def core_drop_def by (auto dest: notin_set_remove1; blast)

lemma tcp_wf_brk: "tcp_wf s \<Longrightarrow> tc_pcbs (tcp_core_of s) a = Some p \<Longrightarrow> a < st_brk s"
  by (auto simp: tcp_wf_def)

lemma tcp_safe_drop:
  assumes "tcp_core_of s' = core_drop a (tcp_core_of s)" "st_brk s \<le> st_brk s'"
  shows "tcp_safe s s'"
  unfolding tcp_safe_def
proof (intro impI conjI)
  assume w: "tcp_wf s"
  show "tcp_wf s'"
    using w assms core_ok_drop [of "tcp_core_of s" a] by (auto simp: tcp_wf_def core_drop_def intro: order_less_le_trans split: if_splits)
  show "tcp_evolves s s'" using assms by (auto simp: tcp_evolves_def core_drop_def core_act_def core_done_def)
qed

lemma tcp_safe_state:
  assumes "tcp_core_of s' = core_state a st (tcp_core_of s)" "st_brk s \<le> st_brk s'" "core_act (tcp_core_of s) a" "st \<notin> {CLOSED, TIME_WAIT, LISTEN}"
  shows "tcp_safe s s'"
  unfolding tcp_safe_def
proof (intro impI conjI)
  assume w: "tcp_wf s"
  show "tcp_wf s'"
    using w assms core_ok_state [of "tcp_core_of s" a st]
    by (auto simp: tcp_wf_def core_state_def core_act_def intro: order_less_le_trans split: if_splits)
  show "tcp_evolves s s'" using assms by (auto simp: tcp_evolves_def core_state_def core_act_def core_done_def)
qed

section \<open>Releasing\<close>

lemma tcp_free_core: "tcp_free a s = Some s' \<Longrightarrow> tcp_core_of s' = core_free a (tcp_core_of s) \<and> st_brk s' = st_brk s"
  by (auto simp: tcp_free_def core_free_def tcp_core_of_def st_brk_def elim!: core_elims)

lemma tcp_lpcb_at_core: "tcp_lpcb_at a s = Some l \<Longrightarrow> a \<in> tc_lpcbs (tcp_core_of s)"
  by (auto simp: tcp_lpcb_at_def tcp_core_of_def)

lemma tcp_lpcb_at_None: "tcp_lpcb_at a s = None \<longleftrightarrow> a \<notin> tc_lpcbs (tcp_core_of s)"
  by (auto simp: tcp_lpcb_at_def tcp_core_of_def)

lemma put_tcp_lpcb_core [simp]:
  "a \<in> tc_lpcbs (tcp_core_of s) \<Longrightarrow> tcp_core_of (put_tcp_lpcb a l s) = tcp_core_of s" "st_brk (put_tcp_lpcb a l s) = st_brk s"
  by (auto simp: tcp_core_of_def put_tcp_lpcb_def st_brk_def)

lemma core_of_tcp [simp]:
  "tcp_core_of (tcp_active_changed b s) = tcp_core_of s" "st_brk (tcp_active_changed b s) = st_brk s"
  "tcp_core_of (s\<lparr>st_tcp := (st_tcp s)\<lparr>tg_port := port\<rparr>\<rparr>) = tcp_core_of s"
  "tcp_core_of (s\<lparr>st_tcp := (st_tcp s)\<lparr>tg_iss := n\<rparr>\<rparr>) = tcp_core_of s"
  "tcp_core_of (s\<lparr>st_tcp := (st_tcp s)\<lparr>tg_timer := b8\<rparr>\<rparr>) = tcp_core_of s"
  "tcp_core_of (s\<lparr>st_tcp := (st_tcp s)\<lparr>tg_timer_ctr := b8\<rparr>\<rparr>) = tcp_core_of s"
  "tcp_core_of (s\<lparr>st_tcp := (st_tcp s)\<lparr>tg_ticks := t, tg_timer_ctr := b8\<rparr>\<rparr>) = tcp_core_of s"
  by (simp_all add: tcp_active_changed_def tcp_core_of_def st_brk_def)

lemma tcp_backlogs_kept [kept_dests]:
  "tcp_backlog_delayed a s = Some s' \<Longrightarrow> core_kept s s'" "tcp_backlog_accepted a s = Some s' \<Longrightarrow> core_kept s s'"
  unfolding tcp_backlog_delayed_def tcp_backlog_accepted_def
  by (auto simp: core_simps elim!: core_elims split: if_split_asm option.split_asm dest!: tcp_lpcb_at_core)

lemma tcp_free_ooseq_kept [kept_dests]: "tcp_free_ooseq a s = Some s' \<Longrightarrow> core_kept s s'"
  by (auto simp: tcp_free_ooseq_def core_simps elim!: core_elims split: if_split_asm dest!: kept_dests)

lemma tcp_pcb_purge_kept [kept_dests]: "tcp_pcb_purge a s = Some s' \<Longrightarrow> core_kept s s'"
  by (auto simp: tcp_pcb_purge_def core_simps elim!: core_elims split: if_split_asm dest!: kept_dests)

lemma tcp_pcb_remove_core:
  assumes "tcp_pcb_remove l a s = Some s'" "\<And>l'. l' \<noteq> l \<Longrightarrow> a \<notin> core_in l' (tcp_core_of s)"
  shows "st_brk s \<le> st_brk s' \<and> (\<exists>p. tc_pcbs (tcp_core_of s) a = Some p
    \<and> tcp_core_of s' = (core_rmv l a (tcp_core_of s))\<lparr>tc_pcbs := (tc_pcbs (tcp_core_of s))(a \<mapsto> p\<lparr>pc_state := CLOSED, pc_port := 0\<rparr>)\<rparr>)"
proof -
  note r = TCP_RMV_core [OF assms(2)]
  have t: "tc_pcbs (core_rmv l a c) = tc_pcbs c" for c by (cases l) (simp_all add: core_rmv_def)
  from assms(1) show ?thesis
    unfolding tcp_pcb_remove_def Let_def
    by (auto simp: core_simps r t elim!: core_elims split: if_split_asm dest!: kept_dests)
qed

lemma core_drop_rmv:
  assumes "\<And>l'. l' \<noteq> l \<Longrightarrow> a \<notin> core_in l' c" "l \<noteq> L_listen"
  shows "core_free a (core_rmv l a c) = core_drop a c" "core_free a ((core_rmv l a c)\<lparr>tc_pcbs := (tc_pcbs c)(a \<mapsto> q)\<rparr>) = core_drop a c"
  using assms(1) [of L_bound] assms(1) [of L_active] assms(1) [of L_tw] assms(2)
  by (cases l; simp add: core_free_def core_drop_def core_rmv_def core_in_def remove1_idem)+


section \<open>Closing\<close>

text \<open>A \<open>tcp_safe\<close> step in which a property of the state may be used.\<close>

lemma tcp_safeI: "(tcp_wf s \<Longrightarrow> tcp_safe s s') \<Longrightarrow> tcp_safe s s'"
  by (auto simp: tcp_safe_def)

lemma tcp_wf_ok: "tcp_wf s \<Longrightarrow> core_ok (tcp_core_of s)"
  by (simp add: tcp_wf_def)

lemma tcp_remove_free_safe:
  assumes "tcp_pcb_remove l a s = Some s1" "tcp_free a s2 = Some s'" "l \<noteq> L_listen"
    "\<And>p. tc_pcbs (tcp_core_of s) a = Some p \<Longrightarrow> state_list (pc_state p) = l"
    "core_kept s1 s2"
  shows "tcp_safe s s'" "tcp_wf s \<Longrightarrow> tcp_core_of s' = core_drop a (tcp_core_of s)"
proof -
  have d: "tcp_core_of s' = core_drop a (tcp_core_of s) \<and> st_brk s \<le> st_brk s'" if w: "tcp_wf s"
  proof -
    obtain p where p: "tc_pcbs (tcp_core_of s) a = Some p"
      using assms(1) by (auto simp: tcp_pcb_remove_def Let_def core_simps elim!: core_elims split: if_split_asm dest!: kept_dests)
    have n: "a \<notin> core_in l' (tcp_core_of s)" if "l' \<noteq> l" for l'
      using core_ok_alone [OF tcp_wf_ok [OF w] p] assms(4) [OF p] that by auto
    show ?thesis
      using tcp_pcb_remove_core [OF assms(1) n] tcp_free_core [OF assms(2)] assms(5) by (auto simp: core_drop_rmv(2) [OF n assms(3)])
  qed
  then show "tcp_safe s s'" by (auto intro: tcp_safeI tcp_safe_drop)
  show "tcp_wf s \<Longrightarrow> tcp_core_of s' = core_drop a (tcp_core_of s)" using d by blast
qed


lemma tcp_close_shutdown_fin_core:
  "tcp_close_shutdown_fin a s = Some (e, s') \<Longrightarrow> st_brk s \<le> st_brk s' \<and> (tcp_core_of s' = tcp_core_of s
     \<or> core_act (tcp_core_of s) a \<and> (\<exists>st \<in> {LAST_ACK, FIN_WAIT_1}. tcp_core_of s' = core_state a st (tcp_core_of s)))"
  unfolding tcp_close_shutdown_fin_def
  by (auto simp: core_simps core_state_put core_act_def elim!: core_elims split: if_split_asm dest!: kept_dests)

lemma tcp_close_shutdown_fin_safe: "tcp_close_shutdown_fin a s = Some (e, s') \<Longrightarrow> tcp_safe s s'"
  by (drule tcp_close_shutdown_fin_core) (auto intro: tcp_safe_kept tcp_safe_state)

text \<open>The end of a listening control block: the connections forget it.\<close>

definition core_unlisten :: "addr list \<Rightarrow> addr \<Rightarrow> tcp_core \<Rightarrow> tcp_core" where
  "core_unlisten as l c = c\<lparr>tc_pcbs := \<lambda>a. if a \<in> set as
     then map_option (\<lambda>p. if pc_listener p = Some l then p\<lparr>pc_listener := None\<rparr> else p) (tc_pcbs c a) else tc_pcbs c a\<rparr>"

lemma core_unlisten_sel [simp]:
  "tc_listen (core_unlisten as l c) = tc_listen c" "tc_bound (core_unlisten as l c) = tc_bound c" "tc_active (core_unlisten as l c) = tc_active c"
  "tc_tw (core_unlisten as l c) = tc_tw c" "tc_lpcbs (core_unlisten as l c) = tc_lpcbs c" "tc_input (core_unlisten as l c) = tc_input c"
  "tc_closing (core_unlisten as l c) = tc_closing c" "tc_reset (core_unlisten as l c) = tc_reset c"
  by (simp_all add: core_unlisten_def)

lemma tcp_remove_listener_core:
  "tcp_remove_listener as l s = Some s' \<Longrightarrow> st_brk s' = st_brk s \<and> tcp_core_of s' = core_unlisten as l (tcp_core_of s)"
proof (induction as arbitrary: s)
  case Nil
  then show ?case by (simp add: core_unlisten_def)
next
  case (Cons a as)
  let ?s = "\<lambda>p. if tp_listener p = Some l then put_tcp_pcb a (p\<lparr>tp_listener := None\<rparr>) s else s"
  obtain p where p: "tcp_pcb_at a s = Some p" "tcp_remove_listener as l (?s p) = Some s'"
    using Cons.prems by (auto elim!: core_elims)
  have "core_unlisten as l (tcp_core_of (?s p)) = core_unlisten (a # as) l (tcp_core_of s)"
    using p(1) by (intro tcp_core.equality) (auto simp: core_simps core_unlisten_def fun_eq_iff)
  then show ?case using Cons.IH [OF p(2)] by simp
qed

lemma core_unlisten_append: "core_unlisten bs l (core_unlisten as l c) = core_unlisten (as @ bs) l c"
  by (rule tcp_core.equality) (auto simp: core_unlisten_def fun_eq_iff option.map_comp comp_def intro!: map_option_cong)

lemma tcp_free_listen_core:
  "tcp_free_listen a s = Some s' \<Longrightarrow> a \<in> tc_lpcbs (tcp_core_of s) \<and> st_brk s' = st_brk s
     \<and> tcp_core_of s' = (tcp_core_of s)\<lparr>tc_lpcbs := tc_lpcbs (tcp_core_of s) - {a}\<rparr>"
  by (auto simp: tcp_free_listen_def tcp_core_of_def tcp_lpcb_at_def st_brk_def elim!: core_elims split: if_split_asm)

lemma core_ok_lpcb: "core_ok c \<Longrightarrow> a \<in> tc_lpcbs c \<Longrightarrow> l \<noteq> L_listen \<Longrightarrow> a \<notin> core_in l c"
  by (cases l) (fastforce simp: core_ok_def core_in_def)+

lemma tcp_close_listen_core:
  assumes "tcp_close_listen a s = Some s'" "core_ok (tcp_core_of s)"
  defines "c \<equiv> tcp_core_of s"
  shows "a \<in> tc_lpcbs c \<and> st_brk s' = st_brk s \<and> tcp_core_of s' =
    (core_unlisten (tc_bound c @ tc_active c @ tc_tw c) a c)\<lparr>tc_listen := remove1 a (tc_listen c), tc_lpcbs := tc_lpcbs c - {a}\<rparr>"
proof -
  obtain t where t: "tcp_free_listen a (TCP_RMV L_listen a t) = Some s'" "st_brk t = st_brk s"
      "tcp_core_of t = core_unlisten (tc_bound c @ tc_active c @ tc_tw c) a c"
    using assms(1) by (auto simp: tcp_close_listen_def tcp_listen_closed_def c_def Let_def core_unlisten_append elim!: core_elims
        dest!: tcp_remove_listener_core)
  have a: "a \<in> tc_lpcbs (tcp_core_of (TCP_RMV L_listen a t))" using tcp_free_listen_core [OF t(1)] by simp
  have "tc_lpcbs (tcp_core_of (TCP_RMV L_listen a t)) = tc_lpcbs (tcp_core_of t)" by (simp add: TCP_RMV_def tcp_core_of_def)
  with a t(3) have l: "a \<in> tc_lpcbs c" by simp
  have "a \<notin> core_in l' (tcp_core_of t)" if "l' \<noteq> L_listen" for l'
    using core_ok_lpcb [OF assms(2) _ that, of a] l unfolding t(3) c_def by (cases l') (simp_all add: core_in_def)
  from TCP_RMV_core [OF this] tcp_free_listen_core [OF t(1)] l t(2,3) show ?thesis by (simp add: core_rmv_def)
qed

lemma core_unlisten_pcbs:
  "dom (tc_pcbs (core_unlisten as l c)) = dom (tc_pcbs c)"
  "tc_pcbs c a = Some p \<Longrightarrow> \<exists>q. tc_pcbs (core_unlisten as l c) a = Some q \<and> pc_state q = pc_state p \<and> pc_port q = pc_port p
     \<and> (\<forall>x. pc_listener q = Some x \<longrightarrow> pc_listener p = Some x \<and> (a \<in> set as \<longrightarrow> x \<noteq> l))"
  by (auto simp: core_unlisten_def dom_def)

lemma core_unlisten_back:
  assumes "tc_pcbs (core_unlisten as l c) a = Some q"
  obtains p where "tc_pcbs c a = Some p" "pc_state q = pc_state p" "pc_port q = pc_port p"
    "\<And>x. pc_listener q = Some x \<Longrightarrow> pc_listener p = Some x \<and> (a \<in> set as \<longrightarrow> x \<noteq> l)"
proof -
  have "a \<in> dom (tc_pcbs c)" using assms core_unlisten_pcbs(1) by fast
  then obtain p where "tc_pcbs c a = Some p" by blast
  then show thesis using that core_unlisten_pcbs(2) [of c a p as l] assms by auto
qed

lemma core_unlisten_state:
  "map_option pc_state (tc_pcbs (core_unlisten as l c) b) = map_option pc_state (tc_pcbs c b)"
  by (cases "tc_pcbs c b") (simp_all add: core_unlisten_def)

lemma core_act_state: "core_act c a \<longleftrightarrow> (\<exists>st. map_option pc_state (tc_pcbs c a) = Some st \<and> st \<notin> {CLOSED, TIME_WAIT})"
  by (auto simp: core_act_def)

lemma core_done_state: "core_done c a \<longleftrightarrow> map_option pc_state (tc_pcbs c a) \<in> {None, Some TIME_WAIT}"
  by (cases "tc_pcbs c a") (auto simp: core_done_def)

lemma tcp_evolves_states:
  assumes "st_brk s \<le> st_brk s'" "tc_input (tcp_core_of s') = tc_input (tcp_core_of s)" "tc_closing (tcp_core_of s') = tc_closing (tcp_core_of s)"
    "tc_reset (tcp_core_of s') = tc_reset (tcp_core_of s)" "\<And>a. map_option pc_state (tc_pcbs (tcp_core_of s') a) = map_option pc_state (tc_pcbs (tcp_core_of s) a)"
    "set (tc_active (tcp_core_of s)) \<subseteq> set (tc_active (tcp_core_of s'))"
  shows "tcp_evolves s s'"
proof -
  have "tc_pcbs (tcp_core_of s') a = None \<longleftrightarrow> tc_pcbs (tcp_core_of s) a = None" for a
    using assms(5) [of a] by (metis map_option_is_None)
  then show ?thesis using assms(1-4,6) unfolding tcp_evolves_def core_act_state core_done_state assms(5) by auto
qed

lemma core_ok_unlisten:
  assumes "core_ok c"
  shows "core_ok ((core_unlisten (tc_bound c @ tc_active c @ tc_tw c) a c)\<lparr>tc_listen := remove1 a (tc_listen c), tc_lpcbs := tc_lpcbs c - {a}\<rparr>)"
proof -
  let ?u = "core_unlisten (tc_bound c @ tc_active c @ tc_tw c) a c"
  have st: "\<forall>b p. tc_pcbs ?u b = Some p \<longrightarrow> pc_state p \<noteq> LISTEN"
    using assms unfolding core_ok_def by (metis core_unlisten_back)
  have bound: "\<forall>b \<in> set (tc_bound c). \<exists>p. tc_pcbs ?u b = Some p \<and> pc_state p = CLOSED \<and> pc_port p \<noteq> 0"
    and active: "\<forall>b \<in> set (tc_active c). \<exists>p. tc_pcbs ?u b = Some p \<and> pc_state p \<notin> {CLOSED, TIME_WAIT}"
    and tw: "\<forall>b \<in> set (tc_tw c). \<exists>p. tc_pcbs ?u b = Some p \<and> pc_state p = TIME_WAIT"
    using assms core_unlisten_pcbs(2) [of c _ _ "tc_bound c @ tc_active c @ tc_tw c" a] unfolding core_ok_def by metis+
  have ls: "\<forall>b \<in> set (tc_active c) \<union> set (tc_tw c). \<forall>p l. tc_pcbs ?u b = Some p \<longrightarrow> pc_listener p = Some l \<longrightarrow> l \<in> tc_lpcbs c - {a}"
    using assms unfolding core_ok_def by (fastforce elim!: core_unlisten_back)
  have "\<forall>b p. tc_pcbs ?u b = Some p \<longrightarrow> pc_state p = CLOSED \<longrightarrow> pc_listener p = None"
  proof (intro allI impI)
    fix b p assume u: "tc_pcbs ?u b = Some p" "pc_state p = CLOSED"
    from u(1) obtain q where q: "tc_pcbs c b = Some q" "pc_state p = pc_state q" "\<And>x. pc_listener p = Some x \<Longrightarrow> pc_listener q = Some x"
      by (auto elim: core_unlisten_back)
    then have "pc_listener q = None" using assms u(2) unfolding core_ok_def by auto
    then show "pc_listener p = None" using q(3) by (cases "pc_listener p") auto
  qed
  with st bound active tw ls show ?thesis
    using assms unfolding core_ok_def by (simp add: core_unlisten_pcbs(1) Diff_Int_distrib2)
qed

lemma tcp_close_listen_safe: "tcp_close_listen a s = Some s' \<Longrightarrow> tcp_safe s s'"
proof (rule tcp_safeI)
  assume r: "tcp_close_listen a s = Some s'" and w: "tcp_wf s"
  note c = tcp_close_listen_core [OF r tcp_wf_ok [OF w]]
  have "tcp_wf s'" using w c core_ok_unlisten [OF tcp_wf_ok [OF w], of a] by (auto simp: tcp_wf_def core_unlisten_pcbs(1) dest: core_unlisten_back)
  moreover have "tcp_evolves s s'"
    using c by (intro tcp_evolves_states) (simp_all add: core_unlisten_state)
  ultimately show "tcp_safe s s'" by (simp add: tcp_safe_def)
qed


lemma core_input_put [simp]: "tcp_core_of (tcp_trigger_input_pcb_close s) = (tcp_core_of s)\<lparr>tc_closing := True\<rparr>" "st_brk (tcp_trigger_input_pcb_close s) = st_brk s"
  by (simp_all add: tcp_core_of_def tcp_trigger_input_pcb_close_def)


text \<open>A control block that leaves its list while its segment is being processed.\<close>

lemma core_ok_rmv: "core_ok c \<Longrightarrow> l \<noteq> L_listen \<Longrightarrow> core_ok (core_rmv l a c)"
  unfolding core_ok_def by (cases l) (auto simp: core_rmv_def dest: notin_set_remove1; blast)+

lemma tcp_safe_closing:
  assumes "tcp_core_of s' = (core_rmv L_active a (tcp_core_of s))\<lparr>tc_closing := True\<rparr>" "st_brk s \<le> st_brk s'"
    "tc_input (tcp_core_of s) = Some a" "core_act (tcp_core_of s) a"
  shows "tcp_safe s s'"
proof (rule tcp_safeI)
  assume w: "tcp_wf s"
  have "core_ok (core_rmv L_active a (tcp_core_of s))" using core_ok_rmv [OF tcp_wf_ok [OF w], of L_active a] by simp
  then have "core_ok (tcp_core_of s')" unfolding assms(1) core_ok_def by simp
  then have "tcp_wf s'" using w assms(1,2) by (auto simp: tcp_wf_def core_rmv_def intro: order_less_le_trans)
  moreover have "tcp_evolves s s'" using assms by (auto simp: tcp_evolves_def core_rmv_def core_act_def core_done_def)
  ultimately show "tcp_safe s s'" by (simp add: tcp_safe_def)
qed

text \<open>A control block that is in no list.\<close>

lemma tcp_free_unlisted:
  assumes "core_ok (tcp_core_of s)" "tcp_free a s = Some s'" "\<And>l. a \<notin> core_in l (tcp_core_of s)"
  shows "tcp_core_of s' = core_drop a (tcp_core_of s) \<and> st_brk s' = st_brk s"
  using tcp_free_core [OF assms(2)] assms(3) [of L_bound] assms(3) [of L_active] assms(3) [of L_tw]
  by (simp add: core_free_def core_drop_def core_in_def remove1_idem)

lemma tcp_free_closed_core:
  assumes "tcp_wf s" "tcp_free a t = Some s'" "tcp_core_of t = tcp_core_of (if tp_local_port p \<noteq> 0 then TCP_RMV L_bound a s else s)" "st_brk s \<le> st_brk t"
    "tc_pcbs (tcp_core_of s) a = Some (pcb_core_of p)" "tp_state p = CLOSED"
  shows "tcp_core_of s' = core_drop a (tcp_core_of s) \<and> st_brk s \<le> st_brk s'"
proof -
  note ok = tcp_wf_ok [OF assms(1)] and assms = assms(2-)
  show ?thesis
  proof (cases "tp_local_port p = 0")
    case True
    then have "a \<notin> core_in l (tcp_core_of t)" for l
      using core_ok_in [OF ok assms(4)] assms(2,5) by (cases l) auto
    moreover have "core_ok (tcp_core_of t)" using ok True assms(2) by simp
    ultimately show ?thesis using tcp_free_unlisted [OF _ assms(1)] assms(2,3) True by simp
  next
    case False
    have n: "a \<notin> core_in l (tcp_core_of s)" if "l \<noteq> L_bound" for l
      using core_ok_alone [OF ok assms(4)] that assms(5) by (simp add: state_list_def)
    show ?thesis
      using tcp_free_core [OF assms(1)] TCP_RMV_core [of L_bound, OF n] core_drop_rmv(1) [of L_bound, OF n] assms(2,3) False by simp
  qed
qed

lemma tcp_free_closed_safe:
  assumes "tcp_free a t = Some s'" "tcp_core_of t = tcp_core_of (if tp_local_port p \<noteq> 0 then TCP_RMV L_bound a s else s)" "st_brk s \<le> st_brk t"
    "tc_pcbs (tcp_core_of s) a = Some (pcb_core_of p)" "tp_state p = CLOSED"
  shows "tcp_safe s s'"
  using tcp_free_closed_core [OF _ assms] by (auto intro: tcp_safeI tcp_safe_drop)

lemma tcp_close_reset_safe:
  assumes "(if tg_input_pcb (st_tcp (TCP_RMV_ACTIVE a t)) = Some a then Some (tcp_trigger_input_pcb_close (TCP_RMV_ACTIVE a t))
      else tcp_free a (TCP_RMV_ACTIVE a t)) = Some s'"
    "tcp_core_of t = tcp_core_of s" "st_brk s \<le> st_brk t" "tc_pcbs (tcp_core_of s) a = Some (pcb_core_of p)" "tp_state p \<notin> {CLOSED, TIME_WAIT}"
  shows "tcp_safe s s'"
proof (rule tcp_safeI)
  assume w: "tcp_wf s"
  note ok = tcp_wf_ok [OF w, folded assms(2)]
  let ?t = "TCP_RMV_ACTIVE a t"
  have tp: "tc_pcbs (tcp_core_of t) a = Some (pcb_core_of p)" using assms(2,4) by simp
  have st: "L_active = state_list (pc_state (pcb_core_of p))"
    using assms(5) core_ok_in(2) [OF ok tp] by (auto simp: state_list_def split: tcp_state.split)
  have n: "a \<notin> core_in l (tcp_core_of t)" if "l \<noteq> L_active" for l
    using core_ok_alone [OF ok tp] that st by auto
  have r: "tcp_core_of ?t = core_rmv L_active a (tcp_core_of t)" "st_brk ?t = st_brk t"
    using TCP_RMV_core [of L_active a t, OF n] by (simp_all add: TCP_RMV_ACTIVE_def)
  show "tcp_safe s s'"
  proof (cases "tg_input_pcb (st_tcp ?t) = Some a")
    case True
    have "tc_input (tcp_core_of t) = tc_input (tcp_core_of ?t)" by (simp add: r core_rmv_def)
    then have "tc_input (tcp_core_of s) = Some a" using True assms(2) by (simp add: tcp_core_of_def)
    then show ?thesis using r True assms(1-5) by (intro tcp_safe_closing [of _ a]) (auto simp: core_act_def)
  next
    case False
    then have f: "tcp_free a ?t = Some s'" using assms(1) by simp
    have "tcp_core_of s' = core_drop a (tcp_core_of t) \<and> st_brk s' = st_brk t"
      using tcp_free_core [OF f] r core_drop_rmv(1) [of L_active a "tcp_core_of t", OF n] by simp
    then show ?thesis using assms(2,3) by (intro tcp_safe_drop) auto
  qed
qed

lemma tcp_close_shutdown_safe: "tcp_close_shutdown a rst s = Some (e, s') \<Longrightarrow> tcp_safe s s'"
proof (rule tcp_safeI)
  assume r: "tcp_close_shutdown a rst s = Some (e, s')" and w: "tcp_wf s"
  show "tcp_safe s s'"
  proof (cases "tcp_lpcb_at a s")
    case (Some l)
    then show ?thesis using r by (auto simp: tcp_close_shutdown_def elim!: core_elims intro: tcp_close_listen_safe)
  next
    case None
    obtain p where p: "tcp_pcb_at a s = Some p" using r None by (auto simp: tcp_close_shutdown_def elim!: core_elims)
    then have c: "tc_pcbs (tcp_core_of s) a = Some (pcb_core_of p)" by (simp add: core_simps)
    let ?rst = "rst \<and> tp_state p \<in> {ESTABLISHED, CLOSE_WAIT} \<and> (tp_refused_data p \<noteq> None \<or> tp_rcv_wnd p \<noteq> TCP_WND_MAX p)"
    consider (rst) ?rst | (closed) "\<not> ?rst" "tp_state p = CLOSED" | (syn) "\<not> ?rst" "tp_state p = SYN_SENT"
      | (fin) "tcp_close_shutdown_fin a s = Some (e, s')"
      using r None p by (auto simp: tcp_close_shutdown_def split: tcp_state.split_asm if_split_asm)
    then show ?thesis
    proof cases
      case rst
      then show ?thesis
        using r None p c by (auto simp: tcp_close_shutdown_def Let_def elim!: core_elims dest!: kept_dests elim: tcp_close_reset_safe)
    next
      case closed
      then show ?thesis using r None p c
        by (auto simp: tcp_close_shutdown_def elim!: core_elims split: if_split_asm elim: tcp_free_closed_safe [of _ _ _ p])
    next
      case syn
      then show ?thesis
        using r None p c by (auto simp: tcp_close_shutdown_def TCP_PCB_REMOVE_ACTIVE_def state_list_def elim!: core_elims elim: tcp_remove_free_safe(1))
    next
      case fin
      then show ?thesis by (rule tcp_close_shutdown_fin_safe)
    qed
  qed
qed


named_theorems safe_dests \<open>operations that keep the lists well-formed\<close>

declare tcp_close_shutdown_safe [safe_dests] tcp_close_shutdown_fin_safe [safe_dests]

lemma tcp_safe_after: "tcp_safe s s' \<Longrightarrow> core_kept s' s'' \<Longrightarrow> tcp_safe s s''"
  by (rule tcp_safe_trans) (auto intro: tcp_safe_kept)

lemma tcp_safe_before: "tcp_safe s' s'' \<Longrightarrow> core_kept s s' \<Longrightarrow> tcp_safe s s''"
  by (rule tcp_safe_trans) (auto intro: tcp_safe_kept)

lemma tcp_close_safe [safe_dests]: "tcp_close p s = Some (e, s') \<Longrightarrow> tcp_safe s s'"
  by (auto simp: tcp_close_def core_simps elim!: core_elims split: if_split_asm dest!: safe_dests elim!: tcp_safe_before)

lemma tcp_shutdown_safe [safe_dests]: "tcp_shutdown p rx tx s = Some (e, s') \<Longrightarrow> tcp_safe s s'"
  by (auto simp: tcp_shutdown_def core_simps elim!: core_elims split: if_split_asm dest!: safe_dests kept_dests elim!: tcp_safe_before)
    (rule tcp_safe_kept, simp)+

definition tcp_callbacks_ok :: "tcp_callbacks \<Rightarrow> bool" where
  "tcp_callbacks_ok cb \<longleftrightarrow>
     (\<forall>arg p e s r s'. cb_accept_function cb arg p e s = Some (r, s') \<longrightarrow> tcp_safe s s')
   \<and> (\<forall>arg a p e s r s'. cb_recv_tcp cb arg a p e s = Some (r, s') \<longrightarrow> tcp_safe s s')
   \<and> (\<forall>arg a n s r s'. cb_sent_tcp cb arg a n s = Some (r, s') \<longrightarrow> tcp_safe s s')
   \<and> (\<forall>arg a e s r s'. cb_do_connected cb arg a e s = Some (r, s') \<longrightarrow> tcp_safe s s')
   \<and> (\<forall>arg a s r s'. cb_poll_tcp cb arg a s = Some (r, s') \<longrightarrow> tcp_safe s s')
   \<and> (\<forall>arg e s s'. cb_err_tcp cb arg e s = Some s' \<longrightarrow> tcp_safe s s')"

lemma TCP_EVENT_ERR_safe [safe_dests]: "TCP_EVENT_ERR cb f arg e s = Some s' \<Longrightarrow> tcp_callbacks_ok cb \<Longrightarrow> tcp_safe s s'"
  by (auto simp: TCP_EVENT_ERR_def tcp_callbacks_ok_def split: option.split_asm tcp_err_fn.split_asm)

text \<open>For chains of steps: the last one is split off.\<close>

lemma tcp_safe_last: "tcp_safe s' s'' \<Longrightarrow> tcp_safe s s' \<Longrightarrow> tcp_safe s s''"
  by (rule tcp_safe_trans)

lemma tcp_abandon_safe [safe_dests]:
  assumes "tcp_abandon cb p rst s = Some s'" "tcp_callbacks_ok cb"
  shows "tcp_safe s s'"
proof -
  obtain a pcb where a: "p = Some a" "tcp_pcb_at a s = Some pcb" using assms(1) by (auto simp: tcp_abandon_def elim!: core_elims)
  then have c: "tc_pcbs (tcp_core_of s) a = Some (pcb_core_of pcb)" by (simp add: core_simps)
  note simps = tcp_abandon_def TCP_PCB_REMOVE_ACTIVE_def Let_def
  show ?thesis
  proof (rule tcp_safeI)
    assume w: "tcp_wf s"
    have nl: "tp_state pcb \<noteq> LISTEN" using core_ok_in(2) [OF tcp_wf_ok [OF w] c] by simp
    consider (tw) "tp_state pcb = TIME_WAIT" | (closed) "tp_state pcb = CLOSED" | (act) "state_list (tp_state pcb) = L_active" "tp_state pcb \<notin> {CLOSED, TIME_WAIT}"
      using nl by (cases "tp_state pcb") (auto simp: state_list_def)
    then show "tcp_safe s s'"
    proof cases
      case tw
      then show ?thesis
        using assms(1) a c by (auto simp: simps state_list_def elim!: core_elims elim: tcp_remove_free_safe(1))
    next
      case closed
      then show ?thesis
        using assms a c by (auto simp: simps elim!: core_elims split: if_split_asm dest!: kept_dests TCP_EVENT_ERR_safe elim!: tcp_safe_last
          elim: tcp_free_closed_safe [of _ _ _ pcb])
    next
      case act
      then show ?thesis
        using assms a c by (auto simp: simps elim!: core_elims split: if_split_asm dest!: kept_dests TCP_EVENT_ERR_safe elim!: tcp_safe_last)
          (rule tcp_remove_free_safe(1), assumption, assumption, simp_all)+
    qed
  qed
qed


section \<open>Binding, listening and connecting\<close>

lemma tcp_new_port_kept [kept_dests]: "tcp_new_port s = Some (port, s') \<Longrightarrow> core_kept s s'"
  by (auto simp: tcp_new_port_def elim!: core_elims)

definition core_reg :: "tcp_list \<Rightarrow> addr \<Rightarrow> tcp_core \<Rightarrow> tcp_core" where
  "core_reg l a c = (case l of
      L_listen \<Rightarrow> c\<lparr>tc_listen := a # tc_listen c\<rparr> | L_bound \<Rightarrow> c\<lparr>tc_bound := a # tc_bound c\<rparr>
    | L_active \<Rightarrow> c\<lparr>tc_active := a # tc_active c\<rparr> | L_tw \<Rightarrow> c\<lparr>tc_tw := a # tc_tw c\<rparr>)"

lemma set_tcp_list_core [simp]:
  "tcp_core_of (set_tcp_list L_listen l s) = (tcp_core_of s)\<lparr>tc_listen := l\<rparr>" "tcp_core_of (set_tcp_list L_bound l s) = (tcp_core_of s)\<lparr>tc_bound := l\<rparr>"
  "tcp_core_of (set_tcp_list L_active l s) = (tcp_core_of s)\<lparr>tc_active := l\<rparr>" "tcp_core_of (set_tcp_list L_tw l s) = (tcp_core_of s)\<lparr>tc_tw := l\<rparr>"
  "st_brk (set_tcp_list k l s) = st_brk s"
  by (simp_all add: tcp_core_of_def st_brk_def) (cases k; simp)

declare set_tcp_list.simps [simp del]

lemma TCP_REG_core: "TCP_REG l a s = Some s' \<Longrightarrow> tcp_core_of s' = core_reg l a (tcp_core_of s) \<and> st_brk s \<le> st_brk s'"
  by (cases l; auto simp: TCP_REG_def core_reg_def dest!: kept_dests)

lemma core_ok_port:
  "core_ok c \<Longrightarrow> tc_pcbs c a = Some p \<Longrightarrow> pc_state p = CLOSED \<Longrightarrow> pc_port p = 0 \<or> port = pc_port p
    \<Longrightarrow> core_ok (c\<lparr>tc_pcbs := (tc_pcbs c)(a \<mapsto> p\<lparr>pc_port := port\<rparr>)\<rparr>)"
  unfolding core_ok_def by (auto; blast)

lemma core_ok_bind:
  assumes "core_ok c" "tc_pcbs c a = Some p" "pc_state p = CLOSED" "pc_port p = 0" "port \<noteq> 0"
  shows "core_ok (core_reg L_bound a (c\<lparr>tc_pcbs := (tc_pcbs c)(a \<mapsto> p\<lparr>pc_port := port\<rparr>)\<rparr>))"
proof -
  have "a \<notin> set (tc_bound c)" using core_ok_in(3) [OF assms(1,2)] assms(4) by (auto simp: core_in_def)
  then show ?thesis using core_ok_port [OF assms(1-3), of port] assms unfolding core_ok_def core_reg_def by (auto; blast)
qed

lemma core_ok_connect:
  assumes "core_ok c" "tc_pcbs c a = Some p" "pc_state p = CLOSED"
  shows "core_ok (core_reg L_active a (core_rmv L_bound a (c\<lparr>tc_pcbs := (tc_pcbs c)(a \<mapsto> p\<lparr>pc_state := SYN_SENT, pc_port := port\<rparr>)\<rparr>)))"
proof -
  have "a \<notin> set (tc_active c)" "a \<notin> set (tc_tw c)" "pc_listener p = None"
    using core_ok_in(4,5) [OF assms(1,2)] assms unfolding core_ok_def by (auto simp: core_in_def)
  then show ?thesis
    using assms unfolding core_ok_def core_reg_def core_rmv_def by (auto dest: notin_set_remove1; blast)
qed

lemma core_ok_listen:
  assumes "core_ok c" "l \<notin> tc_lpcbs c" "tc_pcbs c l = None"
  shows "core_ok ((core_drop a c)\<lparr>tc_lpcbs := insert l (tc_lpcbs c), tc_listen := l # tc_listen c\<rparr>)"
proof -
  have "core_ok (core_drop a c)" using core_ok_drop [OF assms(1)] .
  moreover have "l \<notin> set (tc_listen c)" using assms unfolding core_ok_def by auto
  ultimately show ?thesis using assms(2,3) unfolding core_ok_def core_drop_def by (auto; blast)
qed

lemma core_ok_new:
  assumes "core_ok c" "a \<notin> tc_lpcbs c" "tc_pcbs c a = None"
  shows "core_ok (c\<lparr>tc_pcbs := (tc_pcbs c)(a \<mapsto> \<lparr>pc_state = CLOSED, pc_port = 0, pc_listener = None\<rparr>)\<rparr>)"
  using assms unfolding core_ok_def by (auto; blast)


text \<open>Binding a control block that is not bound.\<close>

lemma core_upd_port: "p\<lparr>pc_port := pc_port p\<rparr> = p" "(p\<lparr>pc_state := st\<rparr>)\<lparr>pc_port := port\<rparr> = p\<lparr>pc_state := st, pc_port := port\<rparr>"
  by simp_all

lemma tcp_state_at_closed:
  assumes "tcp_state_at a s = Some CLOSED"
  obtains p where "tcp_pcb_at a s = Some p" "tp_state p = CLOSED" "tc_pcbs (tcp_core_of s) a = Some (pcb_core_of p)"
  using assms that by (auto simp: tcp_state_at_def core_simps split: option.split_asm)

lemma tcp_safe_bound:
  assumes "tcp_core_of s' = core_reg L_bound a ((tcp_core_of s)\<lparr>tc_pcbs := (tc_pcbs (tcp_core_of s))(a \<mapsto> p\<lparr>pc_port := port\<rparr>)\<rparr>)"
    "st_brk s \<le> st_brk s'" "tc_pcbs (tcp_core_of s) a = Some p" "pc_state p = CLOSED" "pc_port p = 0" "port \<noteq> 0"
  shows "tcp_safe s s'"
proof (rule tcp_safeI)
  assume w: "tcp_wf s"
  have "core_ok (tcp_core_of s')" using core_ok_bind [OF tcp_wf_ok [OF w] assms(3-6)] assms(1) by simp
  then have "tcp_wf s'" using w assms(1-3) by (auto simp: tcp_wf_def core_reg_def intro: order_less_le_trans split: if_splits)
  moreover have "tcp_evolves s s'"
    using assms by (intro tcp_evolves_states) (auto simp: core_reg_def)
  ultimately show "tcp_safe s s'" by (simp add: tcp_safe_def)
qed

lemma tcp_bind_safe:
  assumes "tcp_bind p ip port s = Some (e, s')" "\<And>a q. p = Some a \<Longrightarrow> tcp_pcb_at a s = Some q \<Longrightarrow> tp_local_port q = 0"
  shows "tcp_safe s s'"
proof -
  obtain a where a: "p = Some a" "tcp_state_at a s = Some CLOSED" using assms(1) by (auto simp: tcp_bind_def Let_def elim!: core_elims)
  obtain q where q: "tcp_pcb_at a s = Some q" "tp_state q = CLOSED" "tc_pcbs (tcp_core_of s) a = Some (pcb_core_of q)"
    using tcp_state_at_closed [OF a(2)] by blast
  have z: "tp_local_port q = 0" using assms(2) a(1) q(1) by simp
  have bound: "tcp_safe s s'" if "core_kept s t" "tcp_pcb_at a t = Some r" "TCP_REG L_bound a (put_tcp_pcb a (f r) t) = Some s'" "port' \<noteq> 0"
      "pcb_core_of (f r) = (pcb_core_of r)\<lparr>pc_port := port'\<rparr>" for t r f port'
  proof -
    have c: "tcp_core_of t = tcp_core_of s" "st_brk s \<le> st_brk t" using that(1) by simp_all
    have r: "pcb_core_of r = pcb_core_of q" using that(2) q(3) c(1) by (simp add: core_simps)
    have s': "tcp_core_of s' = core_reg L_bound a ((tcp_core_of s)\<lparr>tc_pcbs := (tc_pcbs (tcp_core_of s))(a \<mapsto> (pcb_core_of q)\<lparr>pc_port := port'\<rparr>)\<rparr>)" "st_brk s \<le> st_brk s'"
      using TCP_REG_core [OF that(3)] that(5) c r by (simp_all add: pcb_is_def)
    show ?thesis
      by (rule tcp_safe_bound [OF s' q(3) _ _ that(4)]) (simp_all add: q(2) z)
  qed
  obtain e' port' t where t: "(if port = 0 then do { (port, s) \<leftarrow> tcp_new_port s; Some (if port = 0 then ERR_BUF else ERR_OK, port, s) }
      else do { clash \<leftarrow> tcp_bind_clash (case ip of None \<Rightarrow> IPADDR_ANY | Some i \<Rightarrow> i) port (tcp_lists s) s;
        Some (if clash then ERR_USE else ERR_OK, port, s) }) = Some (e', port', t)"
    using assms(1) a by (auto simp: tcp_bind_def Let_def elim!: core_elims)
  have k: "core_kept s t" using t by (auto elim!: core_elims dest!: kept_dests split: if_split_asm)
  have p': "port' \<noteq> 0" if "e' = ERR_OK" using t that by (auto elim!: core_elims split: if_split_asm)
  show ?thesis
  proof (cases "e' = ERR_OK")
    case True
    let ?f = "\<lambda>p. (if ip4_addr_isany_val (case ip of None \<Rightarrow> IPADDR_ANY | Some i \<Rightarrow> i) then p
        else p\<lparr>tp_local_ip := case ip of None \<Rightarrow> IPADDR_ANY | Some i \<Rightarrow> i\<rparr>)\<lparr>tp_local_port := port'\<rparr>"
    have "do { s \<leftarrow> upd_tcp_pcb a ?f t; s \<leftarrow> TCP_REG L_bound a s; Some (ERR_OK, s) } = Some (e, s')"
      using assms(1) a t True unfolding tcp_bind_def Let_def by (simp add: lwip_assert_def del: if_split)
    then obtain r where "tcp_pcb_at a t = Some r" "TCP_REG L_bound a (put_tcp_pcb a (?f r) t) = Some s'"
      by (auto elim!: core_elims)
    then show ?thesis using bound [OF k, of r ?f] p' [OF True] by simp
  next
    case False
    then have "s' = t" using assms(1) a t unfolding tcp_bind_def Let_def by (simp add: lwip_assert_def del: if_split)
    then show ?thesis using k by (simp add: tcp_safe_kept)
  qed
qed

end
