(* ===== verification/Tcp_Inv.thy ===== *)
theory Tcp_Inv
  imports Tcp_Wf
begin

text \<open>
  Every operation of TCP keeps the lists well-formed: the rest of the interface, the timers and the input of
  segments.  At the end stands the transition system of all of them.
\<close>

section \<open>Listening and connecting\<close>

lemma tcp_wf_fresh:
  assumes "tcp_wf s" "st_brk s \<le> a"
  shows "a \<notin> tc_lpcbs (tcp_core_of s)" "tc_pcbs (tcp_core_of s) a = None"
proof -
  have "a \<notin> dom (tc_pcbs (tcp_core_of s)) \<union> tc_lpcbs (tcp_core_of s)" using assms unfolding tcp_wf_def by (meson leD)
  then show "a \<notin> tc_lpcbs (tcp_core_of s)" "tc_pcbs (tcp_core_of s) a = None" by auto
qed

lemma put_tcp_lpcb_new [simp]: "tcp_core_of (put_tcp_lpcb l x s) = (tcp_core_of s)\<lparr>tc_lpcbs := insert l (tc_lpcbs (tcp_core_of s))\<rparr>"
  by (simp add: tcp_core_of_def put_tcp_lpcb_def)

lemma mem_malloc_fresh: "mem_malloc h = (Some l, h') \<Longrightarrow> l = hp_brk h \<and> hp_brk h' = Suc l"
  by (auto simp: mem_malloc_def split: if_splits)

lemma tcp_malloc_fresh: "tcp_malloc s = (Some a, s') \<Longrightarrow> a = st_brk s \<and> st_brk s' = Suc a \<and> tcp_core_of s' = tcp_core_of s"
  by (auto simp: tcp_malloc_def st_brk_heap dest!: mem_malloc_fresh split: prod.split_asm)

lemma tcp_safe_listen:
  assumes "tcp_wf s" "tcp_core_of t = core_drop a (tcp_core_of s)" "l = st_brk s" "l < st_brk s'"
    "tcp_core_of s' = core_reg L_listen l ((tcp_core_of t)\<lparr>tc_lpcbs := insert l (tc_lpcbs (tcp_core_of t))\<rparr>)"
  shows "tcp_safe s s'"
proof -
  note fresh = tcp_wf_fresh [OF assms(1), of l]
  have "core_ok (tcp_core_of s')"
    using core_ok_listen [OF tcp_wf_ok [OF assms(1)], of l a] fresh assms(2,3,5) by (simp add: core_reg_def core_drop_def)
  then have "tcp_wf s'"
    using assms by (auto simp: tcp_wf_def core_reg_def core_drop_def intro: order_less_trans split: if_splits)
  moreover have "tcp_evolves s s'"
    using assms by (auto simp: tcp_evolves_def core_reg_def core_drop_def core_act_def core_done_def)
  ultimately show ?thesis by (simp add: tcp_safe_def)
qed

lemma tcp_listen_with_backlog_and_err_safe:
  assumes "tcp_listen_with_backlog_and_err pcb backlog s = Some (r, e, s')"
  shows "tcp_safe s s'"
proof (rule tcp_safeI)
  assume w: "tcp_wf s"
  obtain a m h where a: "pcb = Some a" "tcp_state_at a s = Some CLOSED" "mem_malloc (st_heap s) = (m, h)"
    using assms by (cases "mem_malloc (st_heap s)") (auto simp: tcp_listen_with_backlog_and_err_def Let_def elim!: core_elims)
  obtain p where p: "tcp_pcb_at a s = Some p" "tp_state p = CLOSED" "tc_pcbs (tcp_core_of s) a = Some (pcb_core_of p)"
    using tcp_state_at_closed [OF a(2)] by blast
  let ?s = "s\<lparr>st_heap := h\<rparr>"
  have k: "core_kept s ?s" using mem_malloc_brk [OF a(3)] by (simp add: st_brk_heap)
  show "tcp_safe s s'"
  proof (cases m)
    case None
    then show ?thesis using assms a p k by (auto simp: tcp_listen_with_backlog_and_err_def lwip_assert_def intro: tcp_safe_kept)
  next
    case (Some l)
    have l: "l = st_brk s" "st_brk ?s = Suc l" using mem_malloc_fresh [of "st_heap s" l h] a(3) Some by (simp_all add: st_brk_def)
    obtain t x where t: "tcp_free a (if tp_local_port p \<noteq> 0 then TCP_RMV L_bound a ?s else ?s) = Some t"
        "TCP_REG L_listen l (put_tcp_lpcb l x t) = Some s'"
      using assms a p Some by (auto simp: tcp_listen_with_backlog_and_err_def lwip_assert_def Let_def elim!: core_elims split: if_split_asm)
    have wh: "tcp_wf ?s" using w k tcp_safe_kept [OF k] by (simp add: tcp_safe_def)
    have "tcp_core_of t = core_drop a (tcp_core_of ?s) \<and> st_brk ?s \<le> st_brk t"
      using p by (intro tcp_free_closed_core [OF wh t(1), of p]) auto
    then show ?thesis
      using TCP_REG_core [OF t(2)] l by (intro tcp_safe_listen [OF w, of t a l]) auto
  qed
qed

lemma tcp_listen_with_backlog_safe: "tcp_listen_with_backlog pcb backlog s = Some (r, s') \<Longrightarrow> tcp_safe s s'"
  by (auto simp: tcp_listen_with_backlog_def intro: tcp_listen_with_backlog_and_err_safe)

text \<open>A connection that fails may leave a local port behind; it is in no list then.\<close>

lemma tcp_safe_port:
  assumes "tcp_core_of s' = (tcp_core_of s)\<lparr>tc_pcbs := (tc_pcbs (tcp_core_of s))(a \<mapsto> p\<lparr>pc_port := port\<rparr>)\<rparr>" "st_brk s \<le> st_brk s'"
    "tc_pcbs (tcp_core_of s) a = Some p" "pc_state p = CLOSED" "pc_port p = 0 \<or> port = pc_port p"
  shows "tcp_safe s s'"
proof (rule tcp_safeI)
  assume w: "tcp_wf s"
  have "core_ok (tcp_core_of s')" using core_ok_port [OF tcp_wf_ok [OF w] assms(3-5)] assms(1) by simp
  then have "tcp_wf s'" using w assms(1-3) by (auto simp: tcp_wf_def intro: order_less_le_trans split: if_splits)
  moreover have "tcp_evolves s s'" using assms by (intro tcp_evolves_states) auto
  ultimately show "tcp_safe s s'" by (simp add: tcp_safe_def)
qed

lemma TCP_REG_ACTIVE_core: "TCP_REG_ACTIVE a s = Some s' \<Longrightarrow> tcp_core_of s' = core_reg L_active a (tcp_core_of s) \<and> st_brk s \<le> st_brk s'"
  by (auto simp: TCP_REG_ACTIVE_def elim!: core_elims dest!: TCP_REG_core)

lemma tcp_safe_connect:
  assumes "tcp_core_of t = (tcp_core_of s)\<lparr>tc_pcbs := (tc_pcbs (tcp_core_of s))(a \<mapsto> p\<lparr>pc_state := SYN_SENT, pc_port := port\<rparr>)\<rparr>" "st_brk s \<le> st_brk t"
    "TCP_REG_ACTIVE a (if pc_port p \<noteq> 0 then TCP_RMV L_bound a t else t) = Some s'" "tc_pcbs (tcp_core_of s) a = Some p" "pc_state p = CLOSED"
  shows "tcp_safe s s'"
proof (rule tcp_safeI)
  assume w: "tcp_wf s"
  note ok = tcp_wf_ok [OF w]
  have n: "a \<notin> core_in l (tcp_core_of t)" if "l \<noteq> L_bound" for l
  proof -
    have "core_in l (tcp_core_of t) = core_in l (tcp_core_of s)" using assms(1) by (cases l) (simp_all add: core_in_def)
    then show ?thesis using core_ok_alone [OF ok assms(4)] that assms(5) by (simp add: state_list_def)
  qed
  have b: "a \<notin> set (tc_bound (tcp_core_of s))" if "pc_port p = 0" using core_ok_in(3) [OF ok assms(4)] that by (auto simp: core_in_def)
  have r: "tcp_core_of s' = core_reg L_active a (core_rmv L_bound a (tcp_core_of t)) \<and> st_brk s \<le> st_brk s'"
    using TCP_REG_ACTIVE_core [OF assms(3)] TCP_RMV_core [of L_bound, OF n] assms(1,2) b
    by (auto simp: core_rmv_def remove1_idem split: if_splits)
  then have "core_ok (tcp_core_of s')" using core_ok_connect [OF ok assms(4,5), of port] assms(1) by simp
  then have "tcp_wf s'"
    using w r assms(1,4) by (auto simp: tcp_wf_def core_reg_def core_rmv_def intro: order_less_le_trans split: if_splits)
  moreover have "tcp_evolves s s'"
    using r assms by (auto simp: tcp_evolves_def core_reg_def core_rmv_def core_act_def core_done_def)
  ultimately show "tcp_safe s s'" by (simp add: tcp_safe_def)
qed

lemma pcb_core_state_port: "p\<lparr>pc_port := port, pc_state := st\<rparr> = p\<lparr>pc_state := st, pc_port := port\<rparr>"
  by simp

lemma tcp_connect_tail:
  assumes "do {
      (ret, s) \<leftarrow> tcp_enqueue_flags a TCP_SYN (put_tcp_pcb a p t);
      if ret = ERR_OK then do {
        s \<leftarrow> upd_tcp_pcb a (\<lambda>p. p\<lparr>tp_state := SYN_SENT\<rparr>) s;
        s \<leftarrow> (if pc_port q \<noteq> 0 then Some (TCP_RMV L_bound a s) else Some s);
        s \<leftarrow> TCP_REG_ACTIVE a s;
        (_, s) \<leftarrow> tcp_output a s;
        Some (ret, s)
      } else Some (ret, s)
    } = Some (e, s')" "core_kept s t" "tc_pcbs (tcp_core_of s) a = Some q" "pc_state q = CLOSED"
    "pcb_core_of p = q\<lparr>pc_port := port\<rparr>" "pc_port q = 0 \<or> port = pc_port q"
  shows "tcp_safe s s'"
proof -
  obtain ret u where u: "tcp_enqueue_flags a TCP_SYN (put_tcp_pcb a p t) = Some (ret, u)"
    using assms(1) by (auto elim!: core_elims)
  then have c: "tcp_core_of u = (tcp_core_of s)\<lparr>tc_pcbs := (tc_pcbs (tcp_core_of s))(a \<mapsto> q\<lparr>pc_port := port\<rparr>)\<rparr>" "st_brk s \<le> st_brk u"
    using assms(2,5) by (auto dest!: kept_dests)
  show ?thesis
  proof (cases "ret = ERR_OK")
    case True
    obtain r v where v: "tcp_pcb_at a u = Some r"
        "TCP_REG_ACTIVE a (if pc_port q \<noteq> 0 then TCP_RMV L_bound a (put_tcp_pcb a (r\<lparr>tp_state := SYN_SENT\<rparr>) u) else put_tcp_pcb a (r\<lparr>tp_state := SYN_SENT\<rparr>) u) = Some v"
        "core_kept v s'"
      using assms(1) True u by (auto elim!: core_elims dest!: kept_dests split: if_split_asm)
    have "pcb_core_of r = q\<lparr>pc_port := port\<rparr>" using v(1) c(1) by (simp add: core_simps)
    then have "tcp_core_of (put_tcp_pcb a (r\<lparr>tp_state := SYN_SENT\<rparr>) u)
        = (tcp_core_of s)\<lparr>tc_pcbs := (tc_pcbs (tcp_core_of s))(a \<mapsto> q\<lparr>pc_state := SYN_SENT, pc_port := port\<rparr>)\<rparr>"
      using c(1) by (simp add: pcb_core_state_port)
    then have "tcp_safe s v" using c(2) by (intro tcp_safe_connect [OF _ _ v(2) assms(3,4)]) simp_all
    then show ?thesis using v(3) by (rule tcp_safe_after)
  next
    case False
    then show ?thesis using assms(1) u tcp_safe_port [OF c assms(3,4,6)] by simp
  qed
qed

lemma tcp_pcb_at_put [simp]: "tcp_pcb_at a (put_tcp_pcb a p s) = Some p"
  by (simp add: tcp_pcb_at_def put_tcp_pcb_def)

lemma tcp_connect_safe:
  assumes "tcp_connect pcb ip port connected s = Some (e, s')"
  shows "tcp_safe s s'"
proof -
  obtain a ipaddr where a: "pcb = Some a" "ip = Some ipaddr" "tcp_state_at a s = Some CLOSED"
    using assms by (auto simp: tcp_connect_def Let_def elim!: core_elims)
  obtain q where q: "tcp_pcb_at a s = Some q" "tp_state q = CLOSED" "tc_pcbs (tcp_core_of s) a = Some (pcb_core_of q)"
    using tcp_state_at_closed [OF a(3)] by blast
  let ?q = "q\<lparr>tp_remote_ip := ipaddr, tp_remote_port := port\<rparr>"
  let ?t = "put_tcp_pcb a ?q s"
  let ?nif = "if tp_netif_idx ?q \<noteq> NETIF_NO_INDEX then netif_get_by_index (tp_netif_idx ?q) ?t else ip4_route (tp_remote_ip ?q) ?t"
  have t: "core_kept s ?t" using q(3) by simp
  show ?thesis
  proof (cases ?nif)
    case None
    then show ?thesis using assms a q t by (auto simp: tcp_connect_def lwip_assert_def upd_tcp_pcb_def intro: tcp_safe_kept)
  next
    case (Some n)
    obtain p where p: "(if ip4_addr_isany_val (tp_local_ip q) then ?q\<lparr>tp_local_ip := nif_ip_addr (netif_at ?t n)\<rparr> else ?q) = p" by simp
    have pq: "pcb_core_of p = pcb_core_of q" using p by auto
    obtain old where old: "tp_local_port p = old" by simp
    have oq: "tp_local_port q = old" using p old by auto
    have run: "do {
        (lport, s) \<leftarrow> (if old = 0 then tcp_new_port (put_tcp_pcb a p ?t) else Some (old, ?t));
        let r = p\<lparr>tp_local_port := lport\<rparr>;
        if lport = 0 then Some (ERR_BUF, put_tcp_pcb a r s)
        else do {
          let (iss, s) = tcp_next_iss s;
          let r = r\<lparr>tp_rcv_nxt := 0, tp_snd_nxt := iss, tp_lastack := iss - 1, tp_snd_wl2 := iss - 1, tp_snd_lbb := iss - 1,
            tp_rcv_wnd := ucast (TCPWND_MIN16 TCP_WND), tp_rcv_ann_wnd := ucast (TCPWND_MIN16 TCP_WND), tp_rcv_ann_right_edge := 0,
            tp_snd_wnd := TCP_WND, tp_mss := tcp_eff_send_mss_netif INITIAL_MSS (Some n) s, tp_cwnd := 1, tp_connected := connected\<rparr>;
          (ret, s) \<leftarrow> tcp_enqueue_flags a TCP_SYN (put_tcp_pcb a r s);
          if ret = ERR_OK then do {
            s \<leftarrow> upd_tcp_pcb a (\<lambda>p. p\<lparr>tp_state := SYN_SENT\<rparr>) s;
            s \<leftarrow> (if old \<noteq> 0 then Some (TCP_RMV L_bound a s) else Some s);
            s \<leftarrow> TCP_REG_ACTIVE a s;
            (_, s) \<leftarrow> tcp_output a s;
            Some (ret, s)
          } else Some (ret, s)
        }
      } = Some (e, s')"
      using assms a q Some by (simp add: tcp_connect_def lwip_assert_def upd_tcp_pcb_def Let_def p old del: if_split cong: if_cong)
    obtain lport u where u: "(if old = 0 then tcp_new_port (put_tcp_pcb a p ?t) else Some (old, ?t)) = Some (lport, u)"
      using run by (auto elim!: core_elims)
    obtain iss v where v: "tcp_next_iss u = (iss, v)" by fastforce
    have uk: "core_kept s u" using u q(3) pq by (auto split: if_split_asm dest!: kept_dests)
    then have vk: "core_kept s v" using v by (auto simp: tcp_next_iss_def Let_def)
    have lp: "old = 0 \<or> lport = old" using u by (cases "old = 0") auto
    show ?thesis
    proof (cases "lport = 0")
      case True
      then have "s' = put_tcp_pcb a (p\<lparr>tp_local_port := lport\<rparr>) u" using run u by (simp add: Let_def)
      then show ?thesis using uk q(2,3) pq lp oq by (intro tcp_safe_port [of s' s a lport "pcb_core_of q"]) auto
    next
      case False
      let ?r = "p\<lparr>tp_local_port := lport, tp_rcv_nxt := 0, tp_snd_nxt := iss, tp_lastack := iss - 1, tp_snd_wl2 := iss - 1, tp_snd_lbb := iss - 1,
        tp_rcv_wnd := ucast (TCPWND_MIN16 TCP_WND), tp_rcv_ann_wnd := ucast (TCPWND_MIN16 TCP_WND), tp_rcv_ann_right_edge := 0,
        tp_snd_wnd := TCP_WND, tp_mss := tcp_eff_send_mss_netif INITIAL_MSS (Some n) v, tp_cwnd := 1, tp_connected := connected\<rparr>"
      have "pc_port (pcb_core_of q) = old" "pc_state (pcb_core_of q) = CLOSED" "pcb_core_of ?r = (pcb_core_of q)\<lparr>pc_port := lport\<rparr>"
        using oq q(2) pq by simp_all
      then show ?thesis
        using run u v False lp by (intro tcp_connect_tail [OF _ vk q(3), of ?r e s' lport]) (simp_all add: Let_def del: if_split cong: if_cong)
    qed
  qed
qed

declare tcp_listen_with_backlog_and_err_safe [safe_dests] tcp_listen_with_backlog_safe [safe_dests] tcp_connect_safe [safe_dests]

section \<open>The rest of the interface\<close>

lemma tcp_recved_kept [kept_dests]: "tcp_recved p len s = Some s' \<Longrightarrow> core_kept s s'"
  unfolding tcp_recved_def Let_def
  by (auto simp: core_simps elim!: core_elims split: if_split_asm prod.split_asm dest!: kept_dests)
    (simp_all add: tcp_update_rcv_ann_wnd_def Let_def split: if_split_asm)

lemma tcp_recv_null_safe [safe_dests]: "tcp_recv_null p q e s = Some (r, s') \<Longrightarrow> tcp_safe s s'"
  by (auto simp: tcp_recv_null_def elim!: core_elims split: option.split_asm if_split_asm dest!: kept_dests safe_dests intro: tcp_safe_kept)

lemma tcp_abort_safe [safe_dests]: "tcp_abort cb p s = Some s' \<Longrightarrow> tcp_callbacks_ok cb \<Longrightarrow> tcp_safe s s'"
  by (auto simp: tcp_abort_def intro: tcp_abandon_safe)

lemma tcp_accept_null_safe [safe_dests]: "tcp_accept_null cb p s = Some (r, s') \<Longrightarrow> tcp_callbacks_ok cb \<Longrightarrow> tcp_safe s s'"
  by (auto simp: tcp_accept_null_def elim!: core_elims intro: tcp_abort_safe)

lemma put_tcp_lpcb_same: "tcp_lpcb_at a s = Some l \<Longrightarrow> tcp_core_of (put_tcp_lpcb a x s) = tcp_core_of s"
  by (auto dest!: tcp_lpcb_at_core simp: insert_absorb)

lemma tcp_settings_kept [kept_dests]:
  "tcp_setprio p prio s = Some s' \<Longrightarrow> core_kept s s'" "tcp_arg p arg s = Some s' \<Longrightarrow> core_kept s s'"
  "tcp_recv p rf s = Some s' \<Longrightarrow> core_kept s s'" "tcp_sent p sf s = Some s' \<Longrightarrow> core_kept s s'" "tcp_err p ef s = Some s' \<Longrightarrow> core_kept s s'"
  "tcp_accept p af s = Some s' \<Longrightarrow> core_kept s s'" "tcp_poll p pf i s = Some s' \<Longrightarrow> core_kept s s'" "tcp_bind_netif a n s = Some s' \<Longrightarrow> core_kept s s'"
  unfolding tcp_setprio_def tcp_arg_def tcp_recv_def tcp_sent_def tcp_err_def tcp_accept_def tcp_poll_def tcp_bind_netif_def Let_def
  by (auto simp: core_simps put_tcp_lpcb_same simp del: put_tcp_lpcb_new elim!: core_elims split: option.split_asm)

lemma tcp_kills_safe [safe_dests]:
  "tcp_kill_prio cb prio s = Some s' \<Longrightarrow> tcp_callbacks_ok cb \<Longrightarrow> tcp_safe s s'"
  "tcp_kill_state cb st s = Some s' \<Longrightarrow> tcp_callbacks_ok cb \<Longrightarrow> tcp_safe s s'"
  "tcp_kill_timewait cb s = Some s' \<Longrightarrow> tcp_callbacks_ok cb \<Longrightarrow> tcp_safe s s'"
  unfolding tcp_kill_prio_def tcp_kill_state_def tcp_kill_timewait_def Let_def
  by (auto elim!: core_elims split: if_split_asm dest: tcp_abort_safe tcp_abandon_safe)

lemma tcp_closepend_all_safe: "tcp_closepend_all as s = Some s' \<Longrightarrow> tcp_safe s s'"
proof (induction as arbitrary: s)
  case (Cons a as)
  from Cons.prems show ?case
    by (auto simp: core_simps elim!: core_elims split: if_split_asm dest!: Cons.IH safe_dests elim!: tcp_safe_last elim: tcp_safe_before)
      (rule tcp_safe_kept, simp)
qed simp

lemma tcp_handle_closepend_safe [safe_dests]: "tcp_handle_closepend s = Some s' \<Longrightarrow> tcp_safe s s'"
  by (simp add: tcp_handle_closepend_def tcp_closepend_all_safe)

section \<open>Allocation\<close>

lemma tcp_malloc_safe: "tcp_malloc s = (m, s') \<Longrightarrow> tcp_safe s s'"
  by (auto intro: tcp_safe_kept dest: kept_dests)

lemma tcp_safe_new:
  assumes "tcp_malloc s = (Some a, t)" "pcb_core_of p = \<lparr>pc_state = CLOSED, pc_port = 0, pc_listener = None\<rparr>"
  shows "tcp_safe s (put_tcp_pcb a p t)"
proof (rule tcp_safeI)
  assume w: "tcp_wf s"
  let ?s = "put_tcp_pcb a p t"
  have t: "a = st_brk s" "st_brk t = Suc a" "tcp_core_of t = tcp_core_of s" using tcp_malloc_fresh [OF assms(1)] by simp_all
  have "core_ok (tcp_core_of ?s)" using core_ok_new [OF tcp_wf_ok [OF w]] tcp_wf_fresh [OF w] t assms(2) by simp
  then have "tcp_wf ?s" using w t by (auto simp: tcp_wf_def less_Suc_eq split: if_splits)
  moreover have "tcp_evolves s ?s" using t by (auto simp: tcp_evolves_def core_act_def core_done_def)
  ultimately show "tcp_safe s ?s" by (simp add: tcp_safe_def)
qed

text \<open>The attempt that succeeds, or the last one.\<close>

definition malloced :: "stack \<Rightarrow> addr option \<Rightarrow> stack \<Rightarrow> bool" where
  "malloced s m s' \<longleftrightarrow> (\<exists>t. tcp_safe s t \<and> tcp_malloc t = (m, s'))"

lemma malloced_before: "malloced t m u \<Longrightarrow> tcp_safe s t \<Longrightarrow> malloced s m u"
  by (auto simp: malloced_def intro: tcp_safe_trans)

lemma bind_pairE:
  assumes "Option.bind m f = Some r"
  obtains a b where "m = Some (a, b)" "f (a, b) = Some r"
  using assms by (auto simp: bind_eq_Some_conv)

lemma tcp_alloc_malloc:
  assumes "tcp_alloc cb prio s = Some (m, s')" "tcp_callbacks_ok cb"
  shows "\<exists>u p. malloced s m u \<and> s' = (case m of None \<Rightarrow> u | Some a \<Rightarrow> put_tcp_pcb a p u)
    \<and> pcb_core_of p = \<lparr>pc_state = CLOSED, pc_port = 0, pc_listener = None\<rparr>"
proof -
  have z: "pcb_core_of tcp_pcb_zero = \<lparr>pc_state = CLOSED, pc_port = 0, pc_listener = None\<rparr>"
    by (simp add: pcb_core_of_def tcp_pcb_zero_def)
  have init: "n = m \<and> (\<exists>p. s' = (case n of None \<Rightarrow> u | Some a \<Rightarrow> put_tcp_pcb a p u)
      \<and> pcb_core_of p = \<lparr>pc_state = CLOSED, pc_port = 0, pc_listener = None\<rparr>)"
    if "(case n of None \<Rightarrow> Some (None, u) | Some a \<Rightarrow> Some (Some a, put_tcp_pcb a (tcp_pcb_zero\<lparr>tp_prio := prio, tp_snd_buf := TCP_SND_BUF,
           tp_rcv_wnd := ucast (TCPWND_MIN16 TCP_WND), tp_rcv_ann_wnd := ucast (TCPWND_MIN16 TCP_WND), tp_ttl := TCP_TTL,
           tp_mss := INITIAL_MSS, tp_rto := 6, tp_sv := 6, tp_rtime := - 1, tp_cwnd := 1, tp_tmr := tg_ticks (st_tcp u),
           tp_last_timer := tg_timer_ctr (st_tcp u), tp_ssthresh := TCP_SND_BUF, tp_recv := Some fn_tcp_recv_null,
           tp_keep_idle := 7200000\<rparr>) u)) = Some (m, s')" for n u
  proof (cases n)
    case None
    then show ?thesis using that z by auto
  next
    case (Some a)
    then show ?thesis using that by (auto simp: z intro!: exI)
  qed
  have tag: "tcp_safe t u \<and> malloced t m u" if "tcp_malloc t = (m, u)" for t m u
    using that tcp_malloc_safe by (auto simp: malloced_def intro: tcp_safe_refl)
  note chain = tag tcp_handle_closepend_safe tcp_kills_safe [OF _ assms(2)]
  have "malloced s n u" if "(if m0 \<noteq> None then Some (m0, s0) else do {
         s \<leftarrow> tcp_handle_closepend s0;
         s \<leftarrow> tcp_kill_timewait cb s;
         let (m, s) = tcp_malloc s;
         if m \<noteq> None then Some (m, s) else do {
           s \<leftarrow> tcp_kill_state cb LAST_ACK s;
           let (m, s) = tcp_malloc s;
           if m \<noteq> None then Some (m, s) else do {
             s \<leftarrow> tcp_kill_state cb CLOSING s;
             let (m, s) = tcp_malloc s;
             if m \<noteq> None then Some (m, s) else do {
               s \<leftarrow> tcp_kill_prio cb prio s;
               Some (tcp_malloc s)
             }
           }
         }
       }) = Some (n, u)" "tcp_malloc s = (m0, s0)" for n u m0 s0
    using that unfolding Let_def
    by (auto elim!: core_elims split: if_split_asm prod.split_asm dest!: chain; blast intro: malloced_before tcp_safe_trans)
  then show ?thesis
    using assms(1) unfolding tcp_alloc_def Let_def
    by - (cases "tcp_malloc s", simp only: prod.case, erule bind_pairE, simp only: prod.case, drule init, blast)
qed

lemma tcp_alloc_safe [safe_dests]: "tcp_alloc cb prio s = Some (m, s') \<Longrightarrow> tcp_callbacks_ok cb \<Longrightarrow> tcp_safe s s'"
  by (drule tcp_alloc_malloc) (auto simp: malloced_def split: option.split_asm intro: tcp_safe_trans tcp_malloc_safe tcp_safe_new)

text \<open>What a fresh control block is.\<close>

lemma tcp_alloc_fresh:
  assumes "tcp_alloc cb prio s = Some (Some a, s')" "tcp_callbacks_ok cb"
  shows "tc_pcbs (tcp_core_of s') a = Some \<lparr>pc_state = CLOSED, pc_port = 0, pc_listener = None\<rparr>" "st_brk s \<le> a \<or> \<not> tcp_wf s"
proof -
  obtain t u p where t: "tcp_safe s t" "tcp_malloc t = (Some a, u)" "s' = put_tcp_pcb a p u"
      "pcb_core_of p = \<lparr>pc_state = CLOSED, pc_port = 0, pc_listener = None\<rparr>"
    using tcp_alloc_malloc [OF assms] by (auto simp: malloced_def)
  then show "tc_pcbs (tcp_core_of s') a = Some \<lparr>pc_state = CLOSED, pc_port = 0, pc_listener = None\<rparr>" by simp
  show "st_brk s \<le> a \<or> \<not> tcp_wf s"
    using t(1) tcp_malloc_fresh [OF t(2)] by (auto simp: tcp_safe_def tcp_evolves_def)
qed

lemma tcp_new_safe [safe_dests]:
  "tcp_new cb s = Some (m, s') \<Longrightarrow> tcp_callbacks_ok cb \<Longrightarrow> tcp_safe s s'"
  "tcp_new_ip_type cb ty s = Some (m, s') \<Longrightarrow> tcp_callbacks_ok cb \<Longrightarrow> tcp_safe s s'"
  by (auto simp: tcp_new_def tcp_new_ip_type_def intro: tcp_alloc_safe)

section \<open>Events and timers\<close>

lemma tcp_events_safe [safe_dests]:
  "TCP_EVENT_RECV cb a p e s = Some (r, s') \<Longrightarrow> tcp_callbacks_ok cb \<Longrightarrow> tcp_safe s s'"
  "TCP_EVENT_CLOSED cb a s = Some (r, s') \<Longrightarrow> tcp_callbacks_ok cb \<Longrightarrow> tcp_safe s s'"
  "TCP_EVENT_SENT cb a n s = Some (r, s') \<Longrightarrow> tcp_callbacks_ok cb \<Longrightarrow> tcp_safe s s'"
  "TCP_EVENT_CONNECTED cb a e s = Some (r, s') \<Longrightarrow> tcp_callbacks_ok cb \<Longrightarrow> tcp_safe s s'"
  "TCP_EVENT_POLL cb a s = Some (r, s') \<Longrightarrow> tcp_callbacks_ok cb \<Longrightarrow> tcp_safe s s'"
  "TCP_EVENT_ACCEPT cb l q arg e s = Some (r, s') \<Longrightarrow> tcp_callbacks_ok cb \<Longrightarrow> tcp_safe s s'"
  unfolding TCP_EVENT_RECV_def TCP_EVENT_CLOSED_def TCP_EVENT_SENT_def TCP_EVENT_CONNECTED_def TCP_EVENT_POLL_def TCP_EVENT_ACCEPT_def
  by (auto simp: tcp_callbacks_ok_def elim!: core_elims
      split: option.split_asm tcp_recv_fn.split_asm tcp_sent_fn.split_asm tcp_connected_fn.split_asm tcp_poll_fn.split_asm tcp_accept_fn.split_asm
      dest: tcp_recv_null_safe tcp_accept_null_safe [unfolded tcp_callbacks_ok_def])

text \<open>Steps that keep the core can be left out at the end of a run.\<close>

named_theorems safe_intros \<open>steps that keep the core\<close>

lemma tcp_safe_peel [safe_intros]:
  "tc_pcbs (tcp_core_of t) a = Some (pcb_core_of p) \<Longrightarrow> tcp_safe s t \<Longrightarrow> tcp_safe s (put_tcp_pcb a p t)"
  "st_brk t \<le> hp_brk h \<Longrightarrow> tcp_safe s t \<Longrightarrow> tcp_safe s (t\<lparr>st_heap := h\<rparr>)"
  "tcp_safe s t \<Longrightarrow> tcp_safe s (tcp_active_changed b t)"
  "tcp_safe s t \<Longrightarrow> tcp_safe s (t\<lparr>st_tcp := (st_tcp t)\<lparr>tg_timer := b8\<rparr>\<rparr>)"
  "tcp_safe s t \<Longrightarrow> tcp_safe s (t\<lparr>st_tcp := (st_tcp t)\<lparr>tg_timer_ctr := b8\<rparr>\<rparr>)"
  "tcp_safe s t \<Longrightarrow> tcp_safe s (t\<lparr>st_tcp := (st_tcp t)\<lparr>tg_ticks := ti, tg_timer_ctr := b8\<rparr>\<rparr>)"
  "tcp_safe s t \<Longrightarrow> tcp_safe s (t\<lparr>st_next_timeout := q\<rparr>)" "tcp_safe s t \<Longrightarrow> tcp_safe s (t\<lparr>st_tcp_timer_active := b\<rparr>)"
  by (erule tcp_safe_after, simp)+

lemma tcp_process_refused_data_loop: "tcp_process_refused_data cb a s = Some r \<Longrightarrow> tcp_callbacks_ok cb \<longrightarrow> tcp_safe s (snd r)"
proof (erule tcp_process_refused_data.raw_induct [where P = "\<lambda>cb a s r. tcp_callbacks_ok cb \<longrightarrow> tcp_safe s (snd r)", rotated], rule impI, goal_cases)
  case (1 f cb a s r)
  note cb = 1(3)
  from 1(2) show ?case
    unfolding Let_def
    by (auto simp: core_simps st_brk_heap elim!: core_elims split: if_split_asm option.split_asm
        dest!: tcp_events_safe [OF _ cb] mp [OF 1(1) cb] brk_dests intro!: tcp_safe_peel elim!: tcp_safe_last)
qed

lemma tcp_process_refused_data_safe [safe_dests]:
  "tcp_process_refused_data cb a s = Some (e, s') \<Longrightarrow> tcp_callbacks_ok cb \<Longrightarrow> tcp_safe s s'"
  by (drule tcp_process_refused_data_loop) simp

lemma tcp_slowtmr_parts_kept [kept_dests]:
  "tcp_slowtmr_persist a s = Some (b, s') \<Longrightarrow> core_kept s s'" "tcp_slowtmr_rto a s = Some s' \<Longrightarrow> core_kept s s'"
  "tcp_slowtmr_keepalive a s = Some (b, s') \<Longrightarrow> core_kept s s'"
  unfolding tcp_slowtmr_persist_def tcp_slowtmr_rto_def tcp_slowtmr_keepalive_def tcp_slowtmr_backoff_def Let_def
  by (auto simp: core_simps elim!: core_elims split: if_split_asm dest!: kept_dests)

lemma tcp_slowtmr_check_kept [kept_dests]: "tcp_slowtmr_check a s = Some (b, c, s') \<Longrightarrow> core_kept s s'"
  unfolding tcp_slowtmr_check_def Let_def
  by (auto simp: core_simps elim!: core_elims split: if_split_asm dest!: kept_dests)

lemma tcp_unlink_core:
  "tcp_unlink L_active prev a s = Some s' \<Longrightarrow> tcp_core_of s' = core_rmv L_active a (tcp_core_of s) \<and> st_brk s' = st_brk s"
  "tcp_unlink L_tw prev a s = Some s' \<Longrightarrow> tcp_core_of s' = core_rmv L_tw a (tcp_core_of s) \<and> st_brk s' = st_brk s"
  by (auto simp: tcp_unlink_def core_rmv_def elim!: core_elims)

text \<open>A control block that is cut out of its list and released.\<close>

lemma tcp_unlink_free_safe:
  assumes "tcp_unlink l prev a t = Some u" "core_kept s t" "core_kept u v" "tcp_free a v = Some s'" "l \<in> {L_active, L_tw}"
    "tc_pcbs (tcp_core_of s) a = Some p" "state_list (pc_state p) = l"
  shows "tcp_safe s s'"
proof (rule tcp_safeI)
  assume w: "tcp_wf s"
  have n: "a \<notin> core_in l' (tcp_core_of s)" if "l' \<noteq> l" for l'
    using core_ok_alone [OF tcp_wf_ok [OF w] assms(6)] assms(7) that by simp
  have "tcp_core_of u = core_rmv l a (tcp_core_of s) \<and> st_brk s \<le> st_brk u" using assms(1,2,5) by (auto dest: tcp_unlink_core)
  then have "tcp_core_of s' = core_drop a (tcp_core_of s) \<and> st_brk s \<le> st_brk s'"
    using tcp_free_core [OF assms(4)] assms(3,5) core_drop_rmv(1) [of l a "tcp_core_of s", OF n] by auto
  then show "tcp_safe s s'" by (auto intro: tcp_safe_drop)
qed

lemma tcp_slowtmr_remove_safe:
  assumes "tcp_slowtmr_remove cb prev a rst s = Some s'" "tcp_callbacks_ok cb" "tc_pcbs (tcp_core_of s) a = Some p" "state_list (pc_state p) = L_active"
  shows "tcp_safe s s'"
proof -
  obtain t u v w f arg where t: "tcp_unlink L_active prev a t = Some u" "core_kept s t" "core_kept u v" "tcp_free a v = Some w"
      "TCP_EVENT_ERR cb f arg ERR_ABRT (tcp_active_changed False w) = Some s'"
    using assms(1) unfolding tcp_slowtmr_remove_def Let_def
    by (cases rst) (fastforce elim!: core_elims dest!: kept_dests)+
  have "tcp_safe s (tcp_active_changed False w)"
    by (rule tcp_safe_peel(3), rule tcp_unlink_free_safe [OF t(1-4)]) (use assms in auto)
  then show ?thesis using TCP_EVENT_ERR_safe [OF t(5) assms(2)] by (rule tcp_safe_trans)
qed

lemma tcp_slowtmr_poll_safe [safe_dests]: "tcp_slowtmr_poll cb a s = Some s' \<Longrightarrow> tcp_callbacks_ok cb \<Longrightarrow> tcp_safe s s'"
  by (auto simp: tcp_slowtmr_poll_def elim!: core_elims split: if_split_asm dest!: kept_dests tcp_events_safe)
    (rule tcp_safe_before, erule tcp_safe_after, simp_all)+

lemma tcp_slowtmr_remove_after:
  assumes "tcp_slowtmr_remove cb prev a rst t = Some s'" "tcp_callbacks_ok cb" "core_kept s t" "tc_pcbs (tcp_core_of s) a = Some (pcb_core_of p)"
    "tp_state p \<noteq> CLOSED" "tp_state p \<noteq> LISTEN" "tp_state p \<noteq> TIME_WAIT"
  shows "tcp_safe s s'"
  by (rule tcp_safe_before [OF tcp_slowtmr_remove_safe [OF assms(1,2)] assms(3)]) (use assms in \<open>cases "tp_state p"; simp add: state_list_def\<close>)+

lemma tcp_slowtmr_loop_safe:
  "tcp_slowtmr_loop cb prev pcb s = Some s' \<Longrightarrow> tcp_callbacks_ok cb \<longrightarrow> tcp_safe s s'"
proof (erule tcp_slowtmr_loop.raw_induct [where P = "\<lambda>cb prev pcb s s'. tcp_callbacks_ok cb \<longrightarrow> tcp_safe s s'", rotated], rule impI, goal_cases)
  case (1 f cb prev pcb s s')
  note cb = 1(3) and IH = mp [OF 1(1) cb]
  from 1(2) show ?case
    unfolding Let_def
    by (auto simp: core_simps elim!: core_elims split: if_split_asm option.split_asm
        dest!: kept_dests IH tcp_slowtmr_poll_safe [OF _ cb] intro!: tcp_safe_peel elim!: tcp_safe_last)
      (rule tcp_safe_kept, simp | erule tcp_slowtmr_remove_after [OF _ cb], simp_all)+
qed

lemma tcp_slowtmr_tw_safe: "tcp_slowtmr_tw prev as s = Some s' \<Longrightarrow> tcp_safe s s'"
proof (induction as arbitrary: prev s)
  case (Cons a as)
  obtain p where p: "tcp_pcb_at a s = Some p" "tp_state p = TIME_WAIT" using Cons.prems by (auto elim!: core_elims)
  then have c: "tc_pcbs (tcp_core_of s) a = Some (pcb_core_of p)" by (simp add: core_simps)
  show ?case
  proof (cases "tcp_idle p s > TCP_2MSL_TICKS")
    case True
    obtain t u w where t: "tcp_pcb_purge a s = Some t" "tcp_unlink L_tw prev a t = Some u" "tcp_free a u = Some w" "tcp_slowtmr_tw prev as w = Some s'"
      using Cons.prems True p by (auto elim!: core_elims)
    have "tcp_safe s w" by (rule tcp_unlink_free_safe [OF t(2) tcp_pcb_purge_kept [OF t(1)] _ t(3) _ c]) (simp_all add: p(2) state_list_def)
    then show ?thesis using Cons.IH [OF t(4)] by (rule tcp_safe_trans)
  next
    case False
    then show ?thesis using Cons.prems p by (auto dest: Cons.IH)
  qed
qed simp

lemma tcp_slowtmr_safe [safe_dests]: "tcp_slowtmr cb s = Some s' \<Longrightarrow> tcp_callbacks_ok cb \<Longrightarrow> tcp_safe s s'"
  by (auto simp: tcp_slowtmr_def Let_def elim!: core_elims dest!: tcp_slowtmr_tw_safe tcp_slowtmr_loop_safe intro!: tcp_safe_peel elim!: tcp_safe_last)

lemma tcp_fasttmr_pcb_safe [safe_dests]: "tcp_fasttmr_pcb a s = Some s' \<Longrightarrow> tcp_safe s s'"
  unfolding tcp_fasttmr_pcb_def
  by (auto simp: core_simps elim!: core_elims split: if_split_asm dest!: kept_dests safe_dests intro!: tcp_safe_peel elim!: tcp_safe_last)
    (rule tcp_safe_kept, simp)+

lemma tcp_fasttmr_loop_safe: "tcp_fasttmr_loop cb pcb s = Some s' \<Longrightarrow> tcp_callbacks_ok cb \<longrightarrow> tcp_safe s s'"
proof (erule tcp_fasttmr_loop.raw_induct [where P = "\<lambda>cb pcb s s'. tcp_callbacks_ok cb \<longrightarrow> tcp_safe s s'", rotated], rule impI, goal_cases)
  case (1 f cb pcb s s')
  note cb = 1(3) and IH = mp [OF 1(1) cb]
  from 1(2) show ?case
    unfolding Let_def
    by (auto simp: core_simps elim!: core_elims split: if_split_asm option.split_asm
        dest!: IH tcp_fasttmr_pcb_safe tcp_process_refused_data_safe [OF _ cb] intro!: tcp_safe_peel elim!: tcp_safe_last)
qed

lemma tcp_fasttmr_safe [safe_dests]: "tcp_fasttmr cb s = Some s' \<Longrightarrow> tcp_callbacks_ok cb \<Longrightarrow> tcp_safe s s'"
  by (auto simp: tcp_fasttmr_def Let_def dest!: tcp_fasttmr_loop_safe intro!: tcp_safe_peel elim!: tcp_safe_last)

lemma tcp_tmr_safe [safe_dests]: "tcp_tmr cb s = Some s' \<Longrightarrow> tcp_callbacks_ok cb \<Longrightarrow> tcp_safe s s'"
  by (auto simp: tcp_tmr_def Let_def elim!: core_elims split: if_split_asm dest!: tcp_fasttmr_safe tcp_slowtmr_safe intro!: tcp_safe_peel elim!: tcp_safe_last)

lemma tcp_txnow_all_kept: "tcp_txnow_all as s = Some s' \<Longrightarrow> core_kept s s'"
proof (induction as arbitrary: s)
  case (Cons a as)
  from Cons.prems show ?case by (auto elim!: core_elims split: if_split_asm dest!: Cons.IH kept_dests)
qed simp

lemma tcp_txnow_kept [kept_dests]: "tcp_txnow s = Some s' \<Longrightarrow> core_kept s s'"
  by (simp add: tcp_txnow_def tcp_txnow_all_kept)

lemma tcp_free_first_ooseq_kept: "tcp_free_first_ooseq as s = Some s' \<Longrightarrow> core_kept s s'"
  by (induction as) (auto elim!: core_elims split: if_split_asm dest!: kept_dests)

lemma pbuf_free_ooseq_kept [kept_dests]: "pbuf_free_ooseq s = Some s' \<Longrightarrow> core_kept s s'"
  by (auto simp: pbuf_free_ooseq_def st_brk_heap dest!: tcp_free_first_ooseq_kept)

section \<open>Timeouts\<close>

lemma sys_timeouts_kept [kept_dests]:
  "sys_timeout msecs h arg s = Some s' \<Longrightarrow> core_kept s s'" "sys_timeout_abs t h arg s = Some s' \<Longrightarrow> core_kept s s'"
  by (auto simp: sys_timeout_def sys_timeout_abs_def st_brk_heap elim!: core_elims dest!: brk_dests split: if_split_asm prod.split_asm)

lemma run_timeout_safe: "run_timeout cb t s = Some s' \<Longrightarrow> tcp_callbacks_ok cb \<Longrightarrow> tcp_safe s s'"
  unfolding run_timeout_def tcpip_tcp_timer_def lwip_cyclic_timer_def Let_def
  by (auto elim!: core_elims split: option.split_asm sys_timeout_handler.split_asm timeout_arg.split_asm if_split_asm
      dest!: tcp_tmr_safe kept_dests intro!: tcp_safe_peel elim: tcp_safe_after)

lemma sys_check_timeouts_loop_safe: "sys_check_timeouts_loop cb now s = Some s' \<Longrightarrow> tcp_callbacks_ok cb \<longrightarrow> tcp_safe s s'"
proof (erule sys_check_timeouts_loop.raw_induct [where P = "\<lambda>cb now s s'. tcp_callbacks_ok cb \<longrightarrow> tcp_safe s s'", rotated], rule impI, goal_cases)
  case (1 f cb now s s')
  note cb = 1(3) and IH = mp [OF 1(1) cb]
  from 1(2) show ?case
    by (auto elim!: core_elims split: if_split_asm list.split_asm dest!: IH run_timeout_safe [OF _ cb] elim!: tcp_safe_last)
      (rule tcp_safe_kept, simp add: tcp_core_of_def st_brk_def)
qed

lemma sys_check_timeouts_safe [safe_dests]: "sys_check_timeouts cb s = Some s' \<Longrightarrow> tcp_callbacks_ok cb \<Longrightarrow> tcp_safe s s'"
  by (auto simp: sys_check_timeouts_def dest: sys_check_timeouts_loop_safe)

section \<open>A changed address\<close>

lemma tcp_netif_ip_addr_changed_pcblist_safe:
  "tcp_netif_ip_addr_changed_pcblist cb old l pcb s = Some s' \<Longrightarrow> tcp_callbacks_ok cb \<longrightarrow> tcp_safe s s'"
proof (erule tcp_netif_ip_addr_changed_pcblist.raw_induct [where P = "\<lambda>cb old l pcb s s'. tcp_callbacks_ok cb \<longrightarrow> tcp_safe s s'", rotated],
    rule impI, goal_cases)
  case (1 f cb old l pcb s s')
  note cb = 1(3) and IH = mp [OF 1(1) cb]
  from 1(2) show ?case
    by (auto elim!: core_elims split: if_split_asm option.split_asm dest!: IH tcp_abort_safe [OF _ cb] elim!: tcp_safe_last)
qed

lemma tcp_listen_rebind_kept: "tcp_listen_rebind old new as s = Some s' \<Longrightarrow> core_kept s s'"
proof (induction as arbitrary: s)
  case (Cons a as)
  from Cons.prems show ?case by (auto simp: put_tcp_lpcb_same simp del: put_tcp_lpcb_new elim!: core_elims split: if_split_asm dest!: Cons.IH)
qed simp

lemma tcp_netif_ip_addr_changed_safe [safe_dests]:
  "tcp_netif_ip_addr_changed cb old new s = Some s' \<Longrightarrow> tcp_callbacks_ok cb \<Longrightarrow> tcp_safe s s'"
  unfolding tcp_netif_ip_addr_changed_def
  by (auto elim!: core_elims split: if_split_asm dest!: tcp_netif_ip_addr_changed_pcblist_safe tcp_listen_rebind_kept elim!: tcp_safe_last)
    (rule tcp_safe_after, erule tcp_safe_last, simp_all)

section \<open>A connection request\<close>

lemma core_ok_accept:
  assumes "core_ok c" "tc_pcbs c a = Some \<lparr>pc_state = CLOSED, pc_port = 0, pc_listener = None\<rparr>" "l \<in> tc_lpcbs c"
  shows "core_ok (core_reg L_active a (c\<lparr>tc_pcbs := (tc_pcbs c)(a \<mapsto> \<lparr>pc_state = SYN_RCVD, pc_port = port, pc_listener = Some l\<rparr>)\<rparr>))"
proof -
  have "a \<notin> set (tc_bound c)" "a \<notin> set (tc_active c)" "a \<notin> set (tc_tw c)"
    using core_ok_in(3-5) [OF assms(1,2)] by (auto simp: core_in_def)
  then show ?thesis using assms unfolding core_ok_def core_reg_def by (auto; blast)
qed

lemma tcp_safe_accept:
  assumes "tcp_core_of s' = core_reg L_active a ((tcp_core_of s)\<lparr>tc_pcbs := (tc_pcbs (tcp_core_of s))(a \<mapsto> \<lparr>pc_state = SYN_RCVD, pc_port = port, pc_listener = Some l\<rparr>)\<rparr>)"
    "st_brk s \<le> st_brk s'" "tc_pcbs (tcp_core_of s) a = Some \<lparr>pc_state = CLOSED, pc_port = 0, pc_listener = None\<rparr>" "l \<in> tc_lpcbs (tcp_core_of s)"
  shows "tcp_safe s s'"
proof (rule tcp_safeI)
  assume w: "tcp_wf s"
  have "core_ok (tcp_core_of s')" using core_ok_accept [OF tcp_wf_ok [OF w] assms(3,4)] assms(1) by simp
  then have "tcp_wf s'" using w assms by (auto simp: tcp_wf_def core_reg_def intro: order_less_le_trans split: if_splits)
  moreover have "tcp_evolves s s'" using assms by (auto simp: tcp_evolves_def core_reg_def core_act_def core_done_def)
  ultimately show "tcp_safe s s'" by (simp add: tcp_safe_def)
qed

lemma tcp_next_iss_kept [kept_dests]: "tcp_next_iss s = (iss, s') \<Longrightarrow> core_kept s s'"
  by (auto simp: tcp_next_iss_def Let_def)

lemma tcp_listen_input_safe [safe_dests]:
  assumes "tcp_listen_input cb l s = Some s'" "tcp_callbacks_ok cb"
  shows "tcp_safe s s'"
proof -
  have acc: "tcp_safe s u" if "tcp_alloc cb prio s = Some (Some a, t)" "tcp_lpcb_at l t = Some lp"
      "TCP_REG_ACTIVE a (put_tcp_pcb a q v) = Some u" "core_kept t v" "tp_state q = SYN_RCVD" "tp_listener q = Some l" for prio a t lp v q u
  proof -
    have c: "tc_pcbs (tcp_core_of t) a = Some \<lparr>pc_state = CLOSED, pc_port = 0, pc_listener = None\<rparr>" using tcp_alloc_fresh [OF that(1) assms(2)] by simp
    have "tcp_safe t u"
      using TCP_REG_ACTIVE_core [OF that(3)] that(4-6) c tcp_lpcb_at_core [OF that(2)]
      by (intro tcp_safe_accept [of u a t "tp_local_port q" l]) (auto simp: pcb_core_of_def)
    then show ?thesis using tcp_alloc_safe [OF that(1) assms(2)] tcp_safe_trans by blast
  qed
  show ?thesis
    using assms(1) unfolding tcp_listen_input_def Let_def
    by (auto simp: core_simps put_tcp_lpcb_same simp del: put_tcp_lpcb_new elim!: core_elims
       split: if_split_asm option.split_asm prod.split_asm dest!: kept_dests tcp_abandon_safe [OF _ assms(2)])
      ((rule tcp_safe_kept, simp; fail) | rule tcp_safe_trans, erule tcp_alloc_safe [OF _ assms(2)], erule tcp_events_safe(6) [OF _ assms(2)]
        | (rule tcp_safe_last, assumption)?, rule tcp_safe_after, rule acc, assumption, assumption, assumption, simp_all)+
qed

end
