(* ===== verification/Tcp_Step.thy ===== *)
theory Tcp_Step
  imports Tcp_Inv
begin

text \<open>
  The input of segments keeps the lists well-formed, and the transition system of TCP: its operations in any
  order, with the callbacks of the application in between.
\<close>

section \<open>The control block of the current segment\<close>

text \<open>
  While a segment is processed its control block is active or in TIME-WAIT, or it is gone.  When it is to be
  removed (\<open>TF_CLOSED\<close>, \<open>TF_RESET\<close>) it is still active.
\<close>

definition tcp_processing :: "addr \<Rightarrow> stack \<Rightarrow> bool" where
  "tcp_processing a s \<longleftrightarrow> tcp_wf s \<and> a < st_brk s \<and> tc_input (tcp_core_of s) = Some a
     \<and> (core_act (tcp_core_of s) a \<or> core_done (tcp_core_of s) a
        \<and> (tc_closing (tcp_core_of s) \<or> tc_reset (tcp_core_of s) \<longrightarrow> tc_pcbs (tcp_core_of s) a = None))"

lemma tcp_processing_safe:
  assumes "tcp_processing a s" "tcp_safe s s'"
  shows "tcp_processing a s'"
proof -
  have e: "tcp_wf s'" "tcp_evolves s s'" using assms by (auto simp: tcp_processing_def tcp_safe_def)
  have p: "a < st_brk s" "tc_input (tcp_core_of s) = Some a" using assms(1) by (simp_all add: tcp_processing_def)
  then have b: "a < st_brk s'" "tc_input (tcp_core_of s') = Some a" "tc_reset (tcp_core_of s') = tc_reset (tcp_core_of s)"
    using e(2) by (auto simp: tcp_evolves_def)
  have n: "core_done c a" if "tc_pcbs c a = None" for c using that by (simp add: core_done_def)
  show ?thesis
  proof (cases "core_act (tcp_core_of s) a")
    case True
    then have "tc_pcbs (tcp_core_of s') a = None \<or> core_act (tcp_core_of s') a" using e(2) p by (simp add: tcp_evolves_def)
    then show ?thesis using e(1) b n [of "tcp_core_of s'"] by (auto simp: tcp_processing_def)
  next
    case False
    then have d: "core_done (tcp_core_of s) a"
        "tc_closing (tcp_core_of s) \<or> tc_reset (tcp_core_of s) \<Longrightarrow> tc_pcbs (tcp_core_of s) a = None"
      using assms(1) by (simp_all add: tcp_processing_def)
    have "core_done (tcp_core_of s') a" "tc_closing (tcp_core_of s') \<Longrightarrow> tc_closing (tcp_core_of s)"
      using e(2) p d(1) by (simp_all add: tcp_evolves_def)
    moreover have "tc_pcbs (tcp_core_of s') a = None" if "tc_pcbs (tcp_core_of s) a = None" using e(2) p(1) that by (simp add: tcp_evolves_def)
    ultimately show ?thesis using e(1) b d(2) by (auto simp: tcp_processing_def)
  qed
qed

lemma tcp_processing_act:
  "tcp_wf s \<Longrightarrow> tc_input (tcp_core_of s) = Some a \<Longrightarrow> core_act (tcp_core_of s) a \<Longrightarrow> tcp_processing a s"
  by (auto simp: tcp_processing_def core_act_def dest: tcp_wf_brk)

section \<open>The state machine\<close>

lemma core_fin_safe:
  assumes "core_fin a (tcp_core_of s) (tcp_core_of s')" "st_brk s \<le> st_brk s'"
  shows "tcp_safe s s'"
  using assms unfolding core_fin_def
  by (auto simp: core_act_def intro: tcp_safe_kept tcp_safe_state [of s' a CLOSE_WAIT s])

lemma tcp_receive_safe [safe_dests]: "tcp_receive a s = Some s' \<Longrightarrow> tcp_safe s s'"
  by (drule tcp_receive_core) (auto intro: core_fin_safe)

lemma tcp_upd_state_safe:
  assumes "tc_pcbs (tcp_core_of s) a = Some (pcb_core_of p)" "tp_state p \<notin> {CLOSED, TIME_WAIT}" "pcb_core_of q = (pcb_core_of p)\<lparr>pc_state := st\<rparr>"
    "st \<notin> {CLOSED, TIME_WAIT, LISTEN}"
  shows "tcp_safe s (put_tcp_pcb a q s)"
  by (rule tcp_safe_state [of _ a st]) (use assms in \<open>auto simp: core_state_def core_act_def\<close>)

text \<open>The input control block and the flags do not matter for the lists.\<close>

lemma core_ok_flags [simp]: "core_ok (c\<lparr>tc_input := i\<rparr>) = core_ok c" "core_ok (c\<lparr>tc_closing := b\<rparr>) = core_ok c" "core_ok (c\<lparr>tc_reset := b\<rparr>) = core_ok c"
  by (simp_all add: core_ok_def)

lemma core_act_flags [simp]: "core_act (c\<lparr>tc_input := i\<rparr>) a = core_act c a" "core_act (c\<lparr>tc_closing := b\<rparr>) a = core_act c a"
  "core_act (c\<lparr>tc_reset := b\<rparr>) a = core_act c a"
  by (simp_all add: core_act_def)

lemma tcp_wf_eq:
  assumes "tcp_wf s" "core_ok (tcp_core_of s')" "tc_pcbs (tcp_core_of s') = tc_pcbs (tcp_core_of s)" "tc_lpcbs (tcp_core_of s') = tc_lpcbs (tcp_core_of s)"
    "st_brk s \<le> st_brk s'"
  shows "tcp_wf s'"
  using assms unfolding tcp_wf_def by (metis order_less_le_trans)

lemma core_of_flags [simp]:
  "tcp_core_of (upd_in (\<lambda>v. v\<lparr>ti_recv_flags := ti_recv_flags v OR TF_RESET\<rparr>) s) = (tcp_core_of s)\<lparr>tc_reset := True\<rparr>"
  "tcp_core_of (upd_in (\<lambda>v. v\<lparr>ti_recv_flags := ti_recv_flags v OR TF_CLOSED\<rparr>) s) = (tcp_core_of s)\<lparr>tc_closing := True\<rparr>"
  "tcp_core_of (set_input_pcb i s) = (tcp_core_of s)\<lparr>tc_input := i\<rparr>" "st_brk (set_input_pcb i s) = st_brk s"
  by (simp_all add: tcp_core_of_def upd_in_def set_input_pcb_def)

lemma tcp_process_rst_core:
  "tcp_process_rst a s = Some (e, s') \<Longrightarrow> st_brk s' = st_brk s
     \<and> (tcp_core_of s' = tcp_core_of s \<or> tcp_core_of s' = (tcp_core_of s)\<lparr>tc_reset := True\<rparr>)"
  unfolding tcp_process_rst_def Let_def by (auto simp: core_simps elim!: core_elims split: if_split_asm)

lemma tcp_process_rst_processing:
  assumes "tcp_process_rst a s = Some (e, s')" "tcp_wf s" "tc_input (tcp_core_of s) = Some a" "core_act (tcp_core_of s) a"
  shows "tcp_processing a s'"
  using tcp_process_rst_core [OF assms(1)] assms(2-) tcp_wf_ok [OF assms(2)]
  by (intro tcp_processing_act) (auto intro: tcp_wf_eq [of s])

section \<open>Opening\<close>

lemma tcp_upd_state_after:
  assumes "core_kept s t" "tc_pcbs (tcp_core_of s) a = Some (pcb_core_of p)" "tp_state p \<noteq> CLOSED" "tp_state p \<noteq> TIME_WAIT"
    "pcb_core_of q = (pcb_core_of p)\<lparr>pc_state := st\<rparr>" "st \<notin> {CLOSED, TIME_WAIT, LISTEN}"
  shows "tcp_safe s (put_tcp_pcb a q t)"
  by (rule tcp_safe_before [OF tcp_upd_state_safe assms(1)]) (use assms in auto)

lemma tcp_process_syn_sent_safe:
  assumes "tcp_process_syn_sent cb a s = Some (e, s')" "tcp_callbacks_ok cb" "tc_pcbs (tcp_core_of s) a = Some p" "pc_state p = SYN_SENT"
  shows "tcp_safe s s'"
  using assms unfolding tcp_process_syn_sent_def Let_def
  by (auto simp: core_simps elim!: core_elims split: if_split_asm prod.split_asm dest!: kept_dests tcp_events_safe(4) [OF _ assms(2)])
    ((rule tcp_safe_peel(1), (simp; fail))?, erule tcp_safe_last, rule tcp_upd_state_after [where st = ESTABLISHED], simp, assumption, simp_all
     | (rule tcp_safe_kept, simp))+

text \<open>An active control block that is still there after a safe step is active.\<close>

lemma tcp_safe_act:
  assumes "tcp_safe s s'" "tcp_wf s" "core_act (tcp_core_of s) a" "tc_pcbs (tcp_core_of s') a = Some (pcb_core_of p)"
  shows "tp_state p \<notin> {CLOSED, TIME_WAIT}"
proof -
  have "a < st_brk s" using assms(2,3) by (auto simp: core_act_def dest: tcp_wf_brk)
  then have "core_act (tcp_core_of s') a" using assms by (auto simp: tcp_safe_def tcp_evolves_def)
  then show ?thesis using assms(4) by (simp add: core_act_def)
qed

lemma tcp_safe_close_wait:
  assumes "tcp_wf s" "core_act (tcp_core_of s) a" "tcp_safe s u" "tc_pcbs (tcp_core_of u) a = Some c"
    "pcb_core_of q = (the (tc_pcbs (tcp_core_of u) a))\<lparr>pc_state := CLOSE_WAIT\<rparr>"
  shows "tcp_safe s (put_tcp_pcb a q u)"
proof (rule tcp_safe_trans [OF assms(3)], rule tcp_safe_state [of _ a CLOSE_WAIT])
  have "a < st_brk s" using assms(1,2) by (auto simp: core_act_def dest: tcp_wf_brk)
  then show "core_act (tcp_core_of u) a" using assms(1-4) by (auto simp: tcp_safe_def tcp_evolves_def)
qed (use assms(4,5) in \<open>simp_all add: core_state_def\<close>)

lemma tcp_safe_upd_in:
  assumes "tcp_safe s t" "\<And>v. ti_recv_flags (f v) = ti_recv_flags v"
  shows "tcp_safe s (upd_in f t)"
  using assms by (auto intro: tcp_safe_after)

lemma tcp_process_syn_rcvd_open:
  assumes "do {
       (err, s) \<leftarrow> (case l of
           None \<Rightarrow> Some (ERR_VAL, t)
         | Some l \<Rightarrow> do {
             lpcb \<leftarrow> tcp_lpcb_at l t;
             lwip_assert (lp_accept lpcb \<noteq> None);
             s \<leftarrow> tcp_backlog_accepted a t;
             p \<leftarrow> tcp_pcb_at a s;
             TCP_EVENT_ACCEPT cb l (Some a) (tp_callback_arg p) ERR_OK s
           });
       if err \<noteq> ERR_OK then do {
         s \<leftarrow> (if err \<noteq> ERR_ABRT then tcp_abort cb (Some a) s else Some s);
         Some (ERR_ABRT, s)
       } else do {
         s \<leftarrow> tcp_receive a s;
         let s = upd_in (\<lambda>v. if ti_recv_acked v \<noteq> 0 then v\<lparr>ti_recv_acked := ti_recv_acked v - 1\<rparr> else v) s;
         s \<leftarrow> upd_tcp_pcb a (\<lambda>p. let p = p\<lparr>tp_cwnd := LWIP_TCP_CALC_INITIAL_CWND (tp_mss p)\<rparr>
                 in if tcp_got_fin s then (tcp_ack_now p)\<lparr>tp_state := CLOSE_WAIT\<rparr> else p) s;
         Some (ERR_OK, s)
       }
     } = Some (e, s')" "tcp_callbacks_ok cb" "core_act (tcp_core_of t) a"
  shows "tcp_safe t s'"
proof (rule tcp_safeI)
  assume w: "tcp_wf t"
  note cb = assms(2)
  show "tcp_safe t s'"
    using assms(1) unfolding Let_def
    by (auto simp: core_simps elim!: core_elims split: if_split_asm option.split_asm
      dest!: kept_dests tcp_events_safe(6) [OF _ cb] tcp_abort_safe [OF _ cb] tcp_receive_safe)
      (((erule tcp_safe_last)+, rule tcp_safe_kept, simp; fail)
        | (rule tcp_safe_close_wait [OF w assms(3)], rule tcp_safe_upd_in, (erule tcp_safe_last)+, rule tcp_safe_kept, simp_all; fail)
        | (rule tcp_safe_peel(1), simp, rule tcp_safe_upd_in, (erule tcp_safe_last)+, rule tcp_safe_kept, simp_all; fail))+
qed

lemma tcp_process_syn_rcvd_safe:
  assumes "tcp_process_syn_rcvd cb a s = Some (e, s')" "tcp_callbacks_ok cb" "tcp_pcb_at a s = Some p" "tp_state p = SYN_RCVD"
  shows "tcp_safe s s'"
proof (cases "ti_flags (st_tcp_in s) AND TCP_ACK \<noteq> 0 \<and> TCP_SEQ_BETWEEN (ti_ackno (st_tcp_in s)) (tp_lastack p + 1) (tp_snd_nxt p)")
  case True
  let ?t = "put_tcp_pcb a (p\<lparr>tp_state := ESTABLISHED\<rparr>) s"
  have c: "tc_pcbs (tcp_core_of s) a = Some (pcb_core_of p)" using assms(3) by (simp add: core_simps)
  have "tcp_safe s ?t" by (rule tcp_upd_state_safe [OF c, of _ ESTABLISHED]) (simp_all add: assms(4))
  moreover have "tcp_safe ?t s'"
  proof (rule tcp_process_syn_rcvd_open [OF _ assms(2)])
    show "core_act (tcp_core_of ?t) a" by (simp add: core_act_def)
  qed (use assms(1,3) True in \<open>simp add: tcp_process_syn_rcvd_def Let_def\<close>)
  ultimately show ?thesis by (rule tcp_safe_trans)
next
  case False
  then show ?thesis
    using assms unfolding tcp_process_syn_rcvd_def Let_def
    by (auto simp: core_simps elim!: core_elims split: if_split_asm dest!: kept_dests intro: tcp_safe_kept)
qed

section \<open>Closing\<close>

text \<open>\<open>tcp_enter_time_wait\<close>: the control block changes its list.\<close>

lemma tcp_enter_time_wait_core:
  assumes "tcp_enter_time_wait a s = Some s'" "core_ok (tcp_core_of s)" "core_act (tcp_core_of s) a"
  shows "st_brk s \<le> st_brk s' \<and> tcp_core_of s' = core_reg L_tw a (core_rmv L_active a (core_state a TIME_WAIT (tcp_core_of s)))"
proof -
  obtain p where p: "tc_pcbs (tcp_core_of s) a = Some p" "pc_state p \<notin> {CLOSED, TIME_WAIT}" using assms(3) by (auto simp: core_act_def)
  have st: "state_list (pc_state p) = L_active" using p core_ok_in(2) [OF assms(2) p(1)] by (cases "pc_state p") (simp_all add: state_list_def)
  obtain t q where t: "tcp_pcb_purge a s = Some t" "tcp_pcb_at a (TCP_RMV_ACTIVE a t) = Some q"
      "TCP_REG L_tw a (put_tcp_pcb a (q\<lparr>tp_state := TIME_WAIT\<rparr>) (TCP_RMV_ACTIVE a t)) = Some s'"
    using assms(1) by (auto simp: tcp_enter_time_wait_def elim!: core_elims)
  have k: "core_kept s t" using tcp_pcb_purge_kept [OF t(1)] .
  have n: "a \<notin> core_in l (tcp_core_of t)" if "l \<noteq> L_active" for l
    using core_ok_alone [OF assms(2) p(1)] that st k by simp
  have r: "tcp_core_of (TCP_RMV_ACTIVE a t) = core_rmv L_active a (tcp_core_of s)" "st_brk (TCP_RMV_ACTIVE a t) = st_brk t"
    using TCP_RMV_core [of L_active, OF n] k by (simp_all add: TCP_RMV_ACTIVE_def)
  have "pcb_core_of q = p" using t(2) r(1) p(1) by (simp add: core_simps core_rmv_def)
  then show ?thesis
    using TCP_REG_core [OF t(3)] r k p(1) by (auto simp: core_state_def core_reg_def core_rmv_def)
qed

lemma core_ok_time_wait:
  assumes "core_ok c" "a \<in> set (tc_active c)"
  shows "core_ok (core_reg L_tw a (core_rmv L_active a (core_state a TIME_WAIT c)))"
proof -
  obtain p where p: "tc_pcbs c a = Some p" "pc_state p \<notin> {CLOSED, TIME_WAIT}" using assms unfolding core_ok_def by blast
  then have "a \<notin> set (tc_bound c)" "a \<notin> set (tc_tw c)" using core_ok_in [OF assms(1) p(1)] by (auto simp: core_in_def)
  then show ?thesis
    using assms p unfolding core_ok_def core_reg_def core_rmv_def core_state_def by (auto dest: notin_set_remove1; blast)
qed

lemma tcp_enter_time_wait_processing:
  assumes "tcp_enter_time_wait a s = Some s'" "tcp_wf s" "tc_input (tcp_core_of s) = Some a" "a \<in> set (tc_active (tcp_core_of s))"
    "\<not> tc_closing (tcp_core_of s)" "\<not> tc_reset (tcp_core_of s)"
  shows "tcp_processing a s'"
proof -
  note ok = tcp_wf_ok [OF assms(2)]
  obtain p where p: "tc_pcbs (tcp_core_of s) a = Some p" "pc_state p \<notin> {CLOSED, TIME_WAIT}"
    using ok assms(4) unfolding core_ok_def by blast
  then have act: "core_act (tcp_core_of s) a" by (simp add: core_act_def)
  note c = tcp_enter_time_wait_core [OF assms(1) ok act]
  have "tcp_wf s'"
    using assms(2) c p(1) core_ok_time_wait [OF ok assms(4)]
    by (auto simp: tcp_wf_def core_reg_def core_rmv_def core_state_def intro: order_less_le_trans split: if_splits)
  moreover have "a < st_brk s'" using tcp_wf_brk [OF assms(2) p(1)] c by simp
  moreover have "core_done (tcp_core_of s') a" using c p by (simp add: core_done_def core_reg_def core_rmv_def core_state_def)
  ultimately show ?thesis using c assms(3,5,6) by (simp add: tcp_processing_def core_reg_def core_rmv_def core_state_def)
qed

text \<open>The start: the control block is in the list of the active ones, and nothing is flagged yet.\<close>

definition tcp_starting :: "addr \<Rightarrow> stack \<Rightarrow> bool" where
  "tcp_starting a s \<longleftrightarrow> tcp_wf s \<and> tc_input (tcp_core_of s) = Some a \<and> a \<in> set (tc_active (tcp_core_of s))
     \<and> \<not> tc_closing (tcp_core_of s) \<and> \<not> tc_reset (tcp_core_of s)"

lemma tcp_starting_act: "tcp_starting a s \<Longrightarrow> core_act (tcp_core_of s) a"
  unfolding tcp_starting_def tcp_wf_def core_ok_def core_act_def by blast

lemma tcp_starting_processing: "tcp_starting a s \<Longrightarrow> tcp_processing a s"
  using tcp_starting_act by (auto simp: tcp_starting_def intro: tcp_processing_act)

lemma tcp_starting_kept:
  assumes "tcp_starting a s" "core_kept s s'"
  shows "tcp_starting a s'"
proof -
  have "tcp_wf s'" using tcp_safe_kept [OF assms(2)] assms(1) by (simp add: tcp_safe_def tcp_starting_def)
  then show ?thesis using assms by (simp add: tcp_starting_def)
qed

lemma tcp_starting_safe: "tcp_starting a s \<Longrightarrow> tcp_safe s s' \<Longrightarrow> tcp_processing a s'"
  using tcp_starting_processing tcp_processing_safe by blast

lemma core_fin_starting:
  assumes "tcp_starting a s" "core_fin a (tcp_core_of s) (tcp_core_of s')" "st_brk s \<le> st_brk s'"
  shows "tcp_starting a s'"
  using core_fin_safe [OF assms(2,3)] assms(1,2) by (auto simp: tcp_starting_def tcp_safe_def core_fin_def core_state_def)

lemma tcp_starting_pcb:
  assumes "tcp_starting a s" "tcp_pcb_at a s = Some p"
  shows "tc_pcbs (tcp_core_of s) a = Some (pcb_core_of p)" "tp_state p \<notin> {CLOSED, TIME_WAIT, LISTEN}"
proof -
  show c: "tc_pcbs (tcp_core_of s) a = Some (pcb_core_of p)" using assms(2) by (simp add: core_simps)
  show "tp_state p \<notin> {CLOSED, TIME_WAIT, LISTEN}"
    using tcp_starting_act [OF assms(1)] core_ok_in(2) [OF tcp_wf_ok c] assms(1) c by (auto simp: core_act_def tcp_starting_def)
qed

lemma tcp_starting_state:
  assumes "tcp_starting a s" "tcp_pcb_at a s = Some p" "pcb_core_of q = (pcb_core_of p)\<lparr>pc_state := st\<rparr>" "st \<notin> {CLOSED, TIME_WAIT, LISTEN}"
  shows "tcp_processing a (put_tcp_pcb a q s)"
  by (rule tcp_starting_safe [OF assms(1)], rule tcp_upd_state_safe [where p = p and st = st]) (use tcp_starting_pcb [OF assms(1,2)] assms(3,4) in auto)

lemma tcp_starting_closed:
  assumes "tcp_starting a s"
  shows "tcp_processing a (upd_in (\<lambda>v. v\<lparr>ti_recv_flags := ti_recv_flags v OR TF_CLOSED\<rparr>) s)"
proof -
  let ?s = "upd_in (\<lambda>v. v\<lparr>ti_recv_flags := ti_recv_flags v OR TF_CLOSED\<rparr>) s"
  have w: "tcp_wf s" "tc_input (tcp_core_of s) = Some a" using assms by (simp_all add: tcp_starting_def)
  have "tcp_wf ?s" by (rule tcp_wf_eq [OF w(1)]) (simp_all add: tcp_wf_ok [OF w(1)])
  then show ?thesis using tcp_starting_act [OF assms] w(2) by (intro tcp_processing_act) simp_all
qed

lemma tcp_starting_time_wait: "tcp_starting a s \<Longrightarrow> tcp_enter_time_wait a s = Some s' \<Longrightarrow> tcp_processing a s'"
  using tcp_enter_time_wait_processing [of a s s'] by (auto simp: tcp_starting_def)

lemma tcp_starting_ack: "tcp_starting a s \<Longrightarrow> tcp_pcb_at a s = Some p \<Longrightarrow> tcp_starting a (put_tcp_pcb a (tcp_ack_now p) s)"
  by (erule tcp_starting_kept) (simp add: core_simps)

lemma tcp_process_received_processing:
  assumes "tcp_process_received a st s = Some s'" "tcp_starting a s"
  shows "tcp_processing a s'"
proof -
  obtain p where p: "tcp_pcb_at a s = Some p" using assms(1) by (auto simp: tcp_process_received_def elim!: core_elims)
  note run = tcp_starting_processing [OF assms(2)] tcp_starting_closed [OF assms(2)] tcp_starting_time_wait [OF assms(2)]
    tcp_starting_time_wait [OF tcp_starting_ack [OF assms(2) p]]
    tcp_starting_state [OF assms(2) p, of _ CLOSING] tcp_starting_state [OF assms(2) p, of _ FIN_WAIT_2] tcp_starting_state [OF assms(2) p, of _ CLOSE_WAIT]
  show ?thesis
    using assms(1) p run(1) unfolding tcp_process_received_def
    by (cases st) (auto split: if_split_asm intro: run)
qed

lemma tcp_process_processing:
  assumes "tcp_process cb a s = Some (e, s')" "tcp_callbacks_ok cb" "tcp_starting a s"
  shows "tcp_processing a s'"
proof -
  obtain p where p: "tcp_pcb_at a s = Some p" using assms(1) by (auto simp: tcp_process_def Let_def elim!: core_elims)
  note c = tcp_starting_pcb [OF assms(3) p]
  let ?v = "st_tcp_in s"
  let ?p = "(if tp_flags p AND TF_RXCLOSED = 0 then p\<lparr>tp_tmr := tg_ticks (st_tcp s)\<rparr> else p)\<lparr>tp_keep_cnt_sent := 0, tp_persist_probe := 0\<rparr>"
  consider (rst) "tcp_process_rst a s = Some (e, s')" | (ack) "s' = put_tcp_pcb a (tcp_ack_now p) s"
    | (run) t where "tcp_parseopt a (put_tcp_pcb a ?p s) = Some t"
       "(case tp_state p of
         SYN_SENT \<Rightarrow> tcp_process_syn_sent cb a t
       | SYN_RCVD \<Rightarrow> tcp_process_syn_rcvd cb a t
       | CLOSED \<Rightarrow> Some (ERR_OK, t)
       | LISTEN \<Rightarrow> Some (ERR_OK, t)
       | TIME_WAIT \<Rightarrow> Some (ERR_OK, t)
       | st \<Rightarrow> do {
           s \<leftarrow> tcp_receive a t;
           s \<leftarrow> tcp_process_received a st s;
           Some (ERR_OK, s)
         }) = Some (e, s')"
    using assms(1) p unfolding tcp_process_def Let_def
    by (auto elim!: core_elims split: if_split_asm)
  then show ?thesis
  proof cases
    case rst
    then show ?thesis
      using assms(3) tcp_starting_act [OF assms(3)] by (intro tcp_process_rst_processing) (simp_all add: tcp_starting_def)
  next
    case ack
    then show ?thesis using tcp_starting_processing [OF tcp_starting_ack [OF assms(3) p]] by simp
  next
    case (run t)
    have k: "core_kept s t" using tcp_parseopt_kept [OF run(1)] c(1) by auto
    note t = tcp_starting_kept [OF assms(3) k]
    have pt: "tc_pcbs (tcp_core_of t) a = Some (pcb_core_of p)" using k c(1) by simp
    have recv: "tcp_processing a s'" if "do { s \<leftarrow> tcp_receive a t; s \<leftarrow> tcp_process_received a st s; Some (ERR_OK, s) } = Some (e, s')" for st
      using that t by (auto elim!: core_elims dest!: tcp_receive_core intro: tcp_process_received_processing core_fin_starting)
    have sent: "tcp_safe t s'" if "tp_state p = SYN_SENT" "tcp_process_syn_sent cb a t = Some (e, s')"
      using tcp_process_syn_sent_safe [OF that(2) assms(2) pt] that(1) by simp
    have rcvd: "tcp_safe t s'" if r: "tp_state p = SYN_RCVD" "tcp_process_syn_rcvd cb a t = Some (e, s')"
    proof -
      obtain q where q: "tcp_pcb_at a t = Some q" using r(2) by (auto simp: tcp_process_syn_rcvd_def Let_def elim!: core_elims)
      then have "pcb_core_of q = pcb_core_of p" using pt by (simp add: core_simps)
      then have "tp_state q = SYN_RCVD" using r(1) by (metis pcb_core_of_state(4))
      then show ?thesis by (rule tcp_process_syn_rcvd_safe [OF r(2) assms(2) q])
    qed
    show ?thesis
      using run(2) c(2) by (auto split: tcp_state.split_asm intro: recv tcp_starting_safe [OF t sent] tcp_starting_safe [OF t rcvd])
  qed
qed

section \<open>Delivery\<close>

lemma tcp_input_sent_safe: "tcp_input_sent cb a acked s = Some (b, s') \<Longrightarrow> tcp_callbacks_ok cb \<Longrightarrow> tcp_safe s s'"
proof (induction cb a acked s arbitrary: b s' rule: tcp_input_sent.induct)
  case (1 cb a acked s)
  note step = tcp_input_sent.simps [of cb a acked s]
  show ?case
  proof (cases "acked > 0")
    case True
    obtain err t where t: "TCP_EVENT_SENT cb a (ucast (min acked 0xffff)) s = Some (err, t)"
      using 1(2) True unfolding step Let_def by (auto elim!: core_elims)
    note st = tcp_events_safe(3) [OF t 1(3)]
    show ?thesis
    proof (cases "err = ERR_ABRT")
      case True
      then show ?thesis using 1(2) \<open>acked > 0\<close> t st unfolding step Let_def by simp
    next
      case False
      then have "tcp_input_sent cb a (acked - ucast (ucast (min acked 0xffff) :: u16)) t = Some (b, s')"
        using 1(2) True t unfolding step Let_def by simp
      from tcp_safe_trans [OF st 1(1) [OF True refl t refl False this 1(3)]] show ?thesis .
    qed
  qed (use 1(2) in \<open>simp add: step\<close>)
qed

lemma tcp_input_recv_loop: "tcp_input_recv cb a s = Some r \<Longrightarrow> tcp_callbacks_ok cb \<longrightarrow> tcp_safe s (snd r)"
proof (erule tcp_input_recv.raw_induct [where P = "\<lambda>cb a s r. tcp_callbacks_ok cb \<longrightarrow> tcp_safe s (snd r)", rotated], rule impI, goal_cases)
  case (1 f cb a s r)
  note cb = 1(3) and IH = mp [OF 1(1) cb]
  from 1(2) show ?case
    by (auto simp: core_simps st_brk_heap elim!: core_elims split: if_split_asm option.split_asm
        dest!: IH kept_dests brk_dests tcp_events_safe(1) [OF _ cb] tcp_abort_safe [OF _ cb] intro!: tcp_safe_peel elim!: tcp_safe_last)
      ((rule tcp_safe_kept, simp; fail) | (rule tcp_safe_after | rule tcp_safe_upd_in), erule tcp_safe_last, rule tcp_safe_kept, simp_all)+
qed

lemma tcp_input_fin_safe: "tcp_input_fin cb a s = Some (b, s') \<Longrightarrow> tcp_callbacks_ok cb \<Longrightarrow> tcp_safe s s'"
  unfolding tcp_input_fin_def Let_def
  by (auto simp: core_simps st_brk_heap elim!: core_elims split: if_split_asm option.split_asm dest!: tcp_events_safe(2)
      intro!: tcp_safe_peel elim!: tcp_safe_last)

lemma tcp_input_close_safe:
  assumes "TCP_EVENT_ERR cb f arg e s = Some t \<or> t = s" "tcp_pcb_remove L_active a t = Some u" "tcp_free a u = Some s'" "tcp_callbacks_ok cb"
    "tcp_wf s" "core_act (tcp_core_of s) a"
  shows "tcp_safe s s'"
proof -
  have st: "tcp_safe s t" using assms(1,4) by (auto dest: TCP_EVENT_ERR_safe)
  have wt: "tcp_wf t" using st assms(5) by (simp add: tcp_safe_def)
  have "a < st_brk s" using assms(5,6) by (auto simp: core_act_def dest: tcp_wf_brk)
  then have act: "tc_pcbs (tcp_core_of t) a = None \<or> core_act (tcp_core_of t) a"
    using st assms(5,6) by (auto simp: tcp_safe_def tcp_evolves_def)
  have "tcp_safe t s'"
  proof (rule tcp_remove_free_safe(1) [OF assms(2,3)])
    fix p assume p: "tc_pcbs (tcp_core_of t) a = Some p"
    then show "state_list (pc_state p) = L_active"
      using act core_ok_in(2) [OF tcp_wf_ok [OF wt] p] by (cases "pc_state p") (auto simp: core_act_def state_list_def)
  qed simp_all
  with st show ?thesis by (rule tcp_safe_trans)
qed

lemma tcp_input_delayed_close_safe:
  assumes "tcp_input_delayed_close cb a s = Some (b, s')" "tcp_callbacks_ok cb" "tcp_wf s"
    "tc_closing (tcp_core_of s) \<Longrightarrow> tc_pcbs (tcp_core_of s) a \<noteq> None \<Longrightarrow> core_act (tcp_core_of s) a"
  shows "tcp_safe s s'"
proof (cases "tc_closing (tcp_core_of s)")
  case True
  then have f: "ti_recv_flags (st_tcp_in s) AND TF_CLOSED \<noteq> 0" by (simp add: tcp_core_of_def)
  obtain p t u where p: "tcp_pcb_at a s = Some p" "TCP_EVENT_ERR cb (tp_errf p) (tp_callback_arg p) ERR_CLSD s = Some t \<or> t = s"
      "tcp_pcb_remove L_active a t = Some u" "tcp_free a u = Some s'"
    using assms(1) f by (auto simp: tcp_input_delayed_close_def elim!: core_elims split: if_split_asm; blast)
  have "core_act (tcp_core_of s) a" using assms(4) True p(1) by (simp add: core_simps)
  then show ?thesis by (rule tcp_input_close_safe [OF p(2-4) assms(2,3)])
next
  case False
  then have "ti_recv_flags (st_tcp_in s) AND TF_CLOSED = 0" by (simp add: tcp_core_of_def)
  then show ?thesis using assms(1) by (simp add: tcp_input_delayed_close_def)
qed

lemma tcp_processing_wf: "tcp_processing a s \<Longrightarrow> tcp_wf s"
  by (simp add: tcp_processing_def)

lemma tcp_processing_close:
  "tcp_processing a s \<Longrightarrow> tc_closing (tcp_core_of s) \<or> tc_reset (tcp_core_of s) \<Longrightarrow> tc_pcbs (tcp_core_of s) a \<noteq> None \<Longrightarrow> core_act (tcp_core_of s) a"
  by (auto simp: tcp_processing_def)

lemma tcp_wf_set_input [simp]: "tcp_wf (set_input_pcb i s) = tcp_wf s"
  by (simp add: tcp_wf_def)

lemma tcp_wf_kept: "tcp_wf s \<Longrightarrow> core_kept s s' \<Longrightarrow> tcp_wf s'"
  by (rule tcp_wf_eq [of s]) (auto dest: tcp_wf_ok)

lemma tcp_input_deliver_wf:
  assumes "tcp_input_deliver cb a s = Some s'" "tcp_callbacks_ok cb" "tcp_processing a s"
  shows "tcp_wf s'"
proof -
  note cb = assms(2)
  have close: "tcp_safe t u" if "tcp_input_delayed_close cb a t = Some (g, u)" "tcp_processing a t" for t u g
    by (rule tcp_input_delayed_close_safe [OF that(1) cb tcp_processing_wf [OF that(2)]]) (use tcp_processing_close [OF that(2)] in auto)
  obtain g1 s1 where s1: "tcp_input_sent cb a (ti_recv_acked (st_tcp_in s)) s = Some (g1, s1)"
    using assms(1) by (auto simp: tcp_input_deliver_def elim!: core_elims)
  note p1 = tcp_processing_safe [OF assms(3) tcp_input_sent_safe [OF s1 cb]]
  show ?thesis
  proof (cases g1)
    case True
    then show ?thesis using assms(1) s1 tcp_processing_wf [OF p1] by (simp add: tcp_input_deliver_def)
  next
    case False
    let ?t = "upd_in (\<lambda>v. v\<lparr>ti_recv_acked := 0\<rparr>) s1"
    have pt: "tcp_processing a ?t" by (rule tcp_processing_safe [OF p1]) (rule tcp_safe_kept, simp)
    obtain g2 s2 where s2: "tcp_input_delayed_close cb a ?t = Some (g2, s2)"
      using assms(1) s1 False by (auto simp: tcp_input_deliver_def elim!: core_elims)
    note p2 = tcp_processing_safe [OF pt close [OF s2 pt]]
    show ?thesis
    proof (cases g2)
      case True
      then show ?thesis using assms(1) s1 False s2 tcp_processing_wf [OF p2] by (simp add: tcp_input_deliver_def)
    next
      case g2: False
      obtain g3 s3 where s3: "tcp_input_recv cb a s2 = Some (g3, s3)"
        using assms(1) s1 False s2 g2 by (auto simp: tcp_input_deliver_def elim!: core_elims)
      have p3: "tcp_processing a s3" using tcp_processing_safe [OF p2] tcp_input_recv_loop [OF s3] cb by simp
      show ?thesis
      proof (cases g3)
        case True
        then show ?thesis using assms(1) s1 False s2 g2 s3 tcp_processing_wf [OF p3] by (simp add: tcp_input_deliver_def)
      next
        case g3: False
        obtain g4 s4 where s4: "tcp_input_fin cb a s3 = Some (g4, s4)"
          using assms(1) s1 False s2 g2 s3 g3 by (auto simp: tcp_input_deliver_def elim!: core_elims)
        note p4 = tcp_processing_safe [OF p3 tcp_input_fin_safe [OF s4 cb]]
        show ?thesis
        proof (cases g4)
          case True
          then show ?thesis using assms(1) s1 False s2 g2 s3 g3 s4 tcp_processing_wf [OF p4] by (simp add: tcp_input_deliver_def)
        next
          case g4: False
          obtain g5 s5 where s5: "tcp_input_delayed_close cb a (set_input_pcb None s4) = Some (g5, s5)" "core_kept s5 s'"
            using assms(1) s1 False s2 g2 s3 g3 s4 g4
            by (auto simp: tcp_input_deliver_def elim!: core_elims split: if_split_asm dest!: kept_dests)
          have "tcp_safe (set_input_pcb None s4) s5"
            by (rule tcp_input_delayed_close_safe [OF s5(1) cb])
              (use tcp_processing_wf [OF p4] tcp_processing_close [OF p4] in auto)
          then have "tcp_wf s5" using tcp_processing_wf [OF p4] by (simp add: tcp_safe_def)
          then show ?thesis using s5(2) by (rule tcp_wf_kept)
        qed
      qed
    qed
  qed
qed

lemma tcp_input_processed_wf:
  assumes "tcp_input_processed cb a err s = Some s'" "tcp_callbacks_ok cb" "tcp_processing a s"
  shows "tcp_wf s'"
proof (cases "err \<noteq> ERR_ABRT \<and> tc_reset (tcp_core_of s)")
  case True
  then have f: "ti_recv_flags (st_tcp_in s) AND TF_RESET \<noteq> 0" by (simp add: tcp_core_of_def)
  obtain p t u where p: "tcp_pcb_at a s = Some p" "TCP_EVENT_ERR cb (tp_errf p) (tp_callback_arg p) ERR_RST s = Some t"
      "tcp_pcb_remove L_active a t = Some u" "tcp_free a u = Some s'"
    using assms(1) True f by (auto simp: tcp_input_processed_def elim!: core_elims)
  have "core_act (tcp_core_of s) a" using tcp_processing_close [OF assms(3)] True p(1) by (simp add: core_simps)
  then have "tcp_safe s s'" by (intro tcp_input_close_safe [OF disjI1 [OF p(2)] p(3,4) assms(2) tcp_processing_wf [OF assms(3)]])
  then show ?thesis using tcp_processing_wf [OF assms(3)] by (simp add: tcp_safe_def)
next
  case False
  then have "err = ERR_ABRT \<or> ti_recv_flags (st_tcp_in s) AND TF_RESET = 0" by (auto simp: tcp_core_of_def)
  then show ?thesis
    using assms tcp_processing_wf [OF assms(3)] tcp_input_deliver_wf [OF _ assms(2,3)] by (auto simp: tcp_input_processed_def split: if_split_asm)
qed

lemma tcp_input_done_core:
  assumes "tcp_input_done s = Some s'"
  shows "tcp_core_of s' = (tcp_core_of s)\<lparr>tc_input := None\<rparr> \<and> st_brk s \<le> st_brk s'"
  using assms unfolding tcp_input_done_def Let_def
  by (auto simp: core_simps elim!: core_elims split: option.split_asm dest!: kept_dests)

section \<open>Input\<close>

text \<open>Between two calls no segment is being processed.\<close>

definition tcp_inv :: "stack \<Rightarrow> bool" where
  "tcp_inv s \<longleftrightarrow> tcp_wf s \<and> tc_input (tcp_core_of s) = None"

lemma tcp_inv_safe: "tcp_inv s \<Longrightarrow> tcp_safe s s' \<Longrightarrow> tcp_inv s'"
  by (auto simp: tcp_inv_def tcp_safe_def tcp_evolves_def)

lemma tcp_inv_kept: "tcp_inv s \<Longrightarrow> core_kept s s' \<Longrightarrow> tcp_inv s'"
  by (erule tcp_inv_safe) (rule tcp_safe_kept)

lemma tcp_input_done_inv: "tcp_input_done s = Some s' \<Longrightarrow> tcp_wf s \<Longrightarrow> tcp_inv s'"
  using tcp_input_done_core [of s s'] tcp_wf_ok [of s] by (auto simp: tcp_inv_def intro: tcp_wf_eq [of s s'])

text \<open>The flags are cleared when a segment arrives.\<close>

lemma core_of_clear [simp]:
  "ti_recv_flags (f (st_tcp_in s)) = 0 \<Longrightarrow> tcp_core_of (upd_in f s) = (tcp_core_of s)\<lparr>tc_closing := False, tc_reset := False\<rparr>"
  by (simp add: tcp_core_of_def upd_in_def)

lemma tcp_input_active_rest:
  assumes "do {
      pcb \<leftarrow> tcp_pcb_at a t;
      (drop, s) \<leftarrow> (if tp_refused_data pcb = None then Some (False, t)
        else do {
          (e, s) \<leftarrow> tcp_process_refused_data cb a t;
          if e = ERR_ABRT then Some (True, s)
          else do { pcb \<leftarrow> tcp_pcb_at a s; Some (tp_refused_data pcb \<noteq> None \<and> ti_tcplen (st_tcp_in s) > 0, s) }
        });
      s \<leftarrow> (if drop then do {
          pcb \<leftarrow> tcp_pcb_at a s;
          if tp_rcv_ann_wnd pcb = 0 then do { (_, s) \<leftarrow> tcp_send_empty_ack a s; Some s } else Some s
        } else do {
          (err, s) \<leftarrow> tcp_process cb a (set_input_pcb (Some a) s);
          tcp_input_processed cb a err s
        });
      tcp_input_done s
    } = Some s'" "tcp_callbacks_ok cb" "tcp_wf t" "tc_input (tcp_core_of t) = None" "\<not> tc_closing (tcp_core_of t)" "\<not> tc_reset (tcp_core_of t)"
    "a \<in> set (tc_active (tcp_core_of t))"
  shows "tcp_inv s'"
proof -
  note cb = assms(2)
  obtain q where q: "tcp_pcb_at a t = Some q" using assms(1) by (auto elim!: bind_SomeE)
  obtain drop v where v: "(if tp_refused_data q = None then Some (False, t)
       else do {
         (e, s) \<leftarrow> tcp_process_refused_data cb a t;
         if e = ERR_ABRT then Some (True, s)
         else do { pcb \<leftarrow> tcp_pcb_at a s; Some (tp_refused_data pcb \<noteq> None \<and> ti_tcplen (st_tcp_in s) > 0, s) }
       }) = Some (drop, v)"
    using assms(1) q by (auto elim!: bind_pairE simp del: if_split)
  obtain w where w: "(if drop then do {
         pcb \<leftarrow> tcp_pcb_at a v;
         if tp_rcv_ann_wnd pcb = 0 then do { (_, s) \<leftarrow> tcp_send_empty_ack a v; Some s } else Some v
       } else do {
         (err, s) \<leftarrow> tcp_process cb a (set_input_pcb (Some a) v);
         tcp_input_processed cb a err s
       }) = Some w" "tcp_input_done w = Some s'"
    using assms(1) q v by (auto elim!: bind_SomeE simp del: if_split)
  have tv: "tcp_safe t v"
    using v by (auto elim!: core_elims split: if_split_asm dest!: tcp_process_refused_data_safe [OF _ cb])
  then have wv: "tcp_wf v" and ev: "tcp_evolves t v" using assms(3) by (simp_all add: tcp_safe_def)
  have "tcp_wf w"
  proof (cases drop)
    case True
    then show ?thesis using w(1) wv by (auto elim!: core_elims split: if_split_asm dest!: kept_dests intro: tcp_wf_kept)
  next
    case False
    let ?v = "set_input_pcb (Some a) v"
    obtain err x where x: "tcp_process cb a ?v = Some (err, x)" "tcp_input_processed cb a err x = Some w"
      using w(1) False by (auto elim!: bind_pairE)
    then obtain r where "tcp_pcb_at a ?v = Some r" by (auto simp: tcp_process_def Let_def elim!: core_elims)
    then have "tc_pcbs (tcp_core_of v) a \<noteq> None" by (simp add: core_simps)
    moreover have "a < st_brk t" using assms(3,7) unfolding tcp_wf_def core_ok_def by fastforce
    ultimately have "a \<in> set (tc_active (tcp_core_of v))" "\<not> tc_reset (tcp_core_of v)" "\<not> tc_closing (tcp_core_of v)"
      using ev assms(4-7) unfolding tcp_evolves_def by auto
    then have "tcp_starting a ?v" using wv by (simp add: tcp_starting_def)
    from tcp_process_processing [OF x(1) cb this] show ?thesis by (rule tcp_input_processed_wf [OF x(2) cb])
  qed
  then show ?thesis by (rule tcp_input_done_inv [OF w(2)])
qed

lemma tcp_input_active_inv:
  assumes "tcp_input_active cb a p s = Some s'" "tcp_callbacks_ok cb" "tcp_inv s" "a \<in> set (tc_active (tcp_core_of s))"
  shows "tcp_inv s'"
proof -
  obtain pb where pb: "hp_pbufs (st_heap s) p = Some pb" using assms(1) by (auto simp: tcp_input_active_def elim!: core_elims)
  let ?u = "upd_in (\<lambda>v. v\<lparr>ti_inseg := (ti_inseg v)\<lparr>sg_len := pb_tot_len pb, sg_p := Some p, sg_tcphdr := ti_tcphdr v\<rparr>,
       ti_recv_data := None, ti_recv_flags := 0, ti_recv_acked := 0\<rparr>) s"
  let ?t = "if ti_flags (st_tcp_in ?u) AND TCP_PSH \<noteq> 0
      then ?u\<lparr>st_heap := put_pbuf (st_heap ?u) p (pb\<lparr>pb_flags := pb_flags pb OR PBUF_FLAG_PUSH\<rparr>)\<rparr> else ?u"
  have t: "tcp_core_of ?t = (tcp_core_of s)\<lparr>tc_closing := False, tc_reset := False\<rparr>" "st_brk ?t = st_brk s"
    by (auto simp: st_brk_heap)
  have wt: "tcp_wf ?t" using assms(3) t tcp_wf_ok [of s] by (intro tcp_wf_eq [of s ?t]) (simp_all add: tcp_inv_def)
  show ?thesis
    by (rule tcp_input_active_rest [of a ?t cb s', OF _ assms(2) wt])
      (use assms(1,3,4) pb t(1) in \<open>simp_all add: tcp_input_active_def tcp_inv_def Let_def del: if_split\<close>)
qed

lemma tcp_find_in:
  "tcp_find_active fl as s = Some (Some a) \<Longrightarrow> a \<in> set as" "tcp_find_tw fl as s = Some (Some a) \<Longrightarrow> a \<in> set as"
  "tcp_find_listen fl as s = Some (Some a) \<Longrightarrow> a \<in> set as"
  by (induction as) (auto elim!: core_elims split: if_split_asm)

lemma core_ok_perm:
  "core_ok c \<Longrightarrow> distinct as \<Longrightarrow> set as = set (tc_active c) \<Longrightarrow> core_ok (c\<lparr>tc_active := as\<rparr>)"
  "core_ok c \<Longrightarrow> distinct as \<Longrightarrow> set as = set (tc_listen c) \<Longrightarrow> core_ok (c\<lparr>tc_listen := as\<rparr>)"
  by (simp_all add: core_ok_def)

lemma front_perm: "distinct as \<Longrightarrow> a \<in> set as \<Longrightarrow> distinct (a # remove1 a as) \<and> set (a # remove1 a as) = set as"
  by (auto simp: insert_absorb)

lemma tcp_to_front_inv:
  assumes "tcp_inv s" "a \<in> set (tcp_pcb_list l s)" "l \<in> {L_active, L_listen}"
  shows "tcp_inv (tcp_to_front l a s)" "set (tc_active (tcp_core_of (tcp_to_front l a s))) = set (tc_active (tcp_core_of s))"
proof -
  let ?s = "tcp_to_front l a s"
  have w: "tcp_wf s" "core_ok (tcp_core_of s)" using assms(1) tcp_wf_ok by (auto simp: tcp_inv_def)
  then have d: "distinct (tc_active (tcp_core_of s))" "distinct (tc_listen (tcp_core_of s))" by (simp_all add: core_ok_def)
  have a: "l = L_active \<Longrightarrow> a \<in> set (tc_active (tcp_core_of s))" "l = L_listen \<Longrightarrow> a \<in> set (tc_listen (tcp_core_of s))" using assms(2) by auto
  have c: "tcp_core_of ?s = (if l = L_active then (tcp_core_of s)\<lparr>tc_active := a # remove1 a (tc_active (tcp_core_of s))\<rparr>
      else (tcp_core_of s)\<lparr>tc_listen := a # remove1 a (tc_listen (tcp_core_of s))\<rparr>)" "st_brk ?s = st_brk s"
    using assms(3) by (auto simp: tcp_to_front_def)
  have "core_ok (tcp_core_of ?s)"
    using core_ok_perm(1) [OF w(2)] core_ok_perm(2) [OF w(2)] front_perm [OF d(1)] front_perm [OF d(2)] a c(1) assms(3) by auto
  then have "tcp_wf ?s" by (rule tcp_wf_eq [OF w(1)]) (simp_all add: c)
  then show "tcp_inv ?s" using assms(1) c(1) by (simp add: tcp_inv_def)
  show "set (tc_active (tcp_core_of ?s)) = set (tc_active (tcp_core_of s))"
    using front_perm [OF d(1)] a(1) c(1) by simp
qed

lemma tcp_input_opts_kept [kept_dests]: "tcp_input_opts p n s = Some (ok, s') \<Longrightarrow> core_kept s s'"
proof -
  assume r: "tcp_input_opts p n s = Some (ok, s')"
  have remove: "core_kept t u" if "on_heap (pbuf_remove_header q k) t = Some (e, u)" for q k t u e
    using that by (auto simp: st_brk_heap elim!: core_elims dest!: brk_dests)
  from r show ?thesis
    unfolding tcp_input_opts_def Let_def
    by (elim bind_SomeE bind_pairE; (split if_split_asm)?; (elim bind_SomeE bind_pairE)?)
      (auto dest!: remove elim!: bind_SomeE split: if_split_asm simp: st_brk_heap)
qed

lemma tcp_input_fields_kept [kept_dests]: "tcp_input_fields p s = Some (ok, s') \<Longrightarrow> core_kept s s'"
  unfolding tcp_input_fields_def Let_def
  by (elim bind_SomeE) (auto dest!: st_write_kept)

lemma tcp_input_header_kept [kept_dests]: "tcp_input_header p s = Some (ok, s') \<Longrightarrow> core_kept s s'"
  unfolding tcp_input_header_def Let_def
  by (auto elim!: core_elims split: if_split_asm dest!: kept_dests)

lemma tcp_input_none_kept [kept_dests]: "tcp_input_none p s = Some s' \<Longrightarrow> core_kept s s'"
  unfolding tcp_input_none_def by (auto elim!: core_elims split: if_split_asm dest!: kept_dests)

lemma tcp_input_inv:
  assumes "tcp_input cb p inp s = Some s'" "tcp_callbacks_ok cb" "tcp_inv s"
  shows "tcp_inv s'"
proof -
  note cb = assms(2)
  obtain ok t where t: "tcp_input_header p s = Some (ok, t)" using assms(1) by (auto simp: tcp_input_def elim!: bind_pairE)
  have wt: "tcp_inv t" using assms(3) tcp_input_header_kept [OF t] by (rule tcp_inv_kept)
  have act: "tcp_inv s'" if "tcp_input_active cb a p (tcp_to_front L_active a t) = Some s'" "tcp_find_active fl (tc_active (tcp_core_of t)) t = Some (Some a)" for a fl
    using tcp_input_active_inv [OF that(1) cb] tcp_to_front_inv [OF wt, of a L_active] tcp_find_in(1) [OF that(2)] by simp
  have lst: "tcp_inv s'" if "tcp_listen_input cb l (tcp_to_front L_listen l t) = Some u" "st_pbuf_free (Some p) u = Some s'"
      "tcp_find_listen fl (tc_listen (tcp_core_of t)) t = Some (Some l)" for l fl u
  proof -
    have "tcp_inv (tcp_to_front L_listen l t)" using tcp_to_front_inv(1) [OF wt, of l L_listen] tcp_find_in(3) [OF that(3)] by simp
    from tcp_inv_safe [OF this tcp_listen_input_safe [OF that(1) cb]] show ?thesis by (rule tcp_inv_kept) (use st_pbuf_free_kept [OF that(2)] in simp)
  qed
  show ?thesis
    using assms(1) t wt
    by (auto simp: tcp_input_def elim!: core_elims split: if_split_asm option.split_asm dest!: tcp_timewait_input_kept tcp_input_none_kept)
      ((rule tcp_inv_kept, assumption, drule st_pbuf_free_kept, simp; fail) | (rule tcp_inv_kept, assumption, simp; fail)
        | (rule act, assumption, assumption) | (rule lst, assumption, assumption, assumption))+
qed

end
