(* ===== verification/Tcp_Reach.thy ===== *)
theory Tcp_Reach
  imports Tcp_Step
begin

text \<open>
  The transition system of TCP: the functions that the application calls, the input of segments and the timers,
  in any order, and what holds in all states that can be reached.
\<close>

section \<open>Steps\<close>

text \<open>
  The calls of the application, which callbacks may make too.  \<open>tcp_bind\<close> is called for control blocks that are not
  bound yet: the code does not check it, and would enter the control block into the list a second time.
\<close>

inductive tcp_api :: "tcp_callbacks \<Rightarrow> stack \<Rightarrow> stack \<Rightarrow> bool" for cb where
  api_other: "st_tcp s' = st_tcp s \<Longrightarrow> st_tcp_in s' = st_tcp_in s \<Longrightarrow> hp_brk (st_heap s) \<le> hp_brk (st_heap s') \<Longrightarrow> tcp_api cb s s'"
| api_new: "tcp_new cb s = Some (pcb, s') \<Longrightarrow> tcp_api cb s s'"
| api_new_ip_type: "tcp_new_ip_type cb ty s = Some (pcb, s') \<Longrightarrow> tcp_api cb s s'"
| api_bind: "tcp_bind (Some a) ip port s = Some (e, s') \<Longrightarrow> tcp_local_at a s = Some (lip, 0) \<Longrightarrow> tcp_api cb s s'"
| api_bind_netif: "tcp_bind_netif a n s = Some s' \<Longrightarrow> tcp_api cb s s'"
| api_listen: "tcp_listen_with_backlog_and_err pcb backlog s = Some (l, e, s') \<Longrightarrow> tcp_api cb s s'"
| api_connect: "tcp_connect pcb ip port connected s = Some (e, s') \<Longrightarrow> tcp_api cb s s'"
| api_close: "tcp_close pcb s = Some (e, s') \<Longrightarrow> tcp_api cb s s'"
| api_shutdown: "tcp_shutdown pcb rx tx s = Some (e, s') \<Longrightarrow> tcp_api cb s s'"
| api_abort: "tcp_abort cb pcb s = Some s' \<Longrightarrow> tcp_api cb s s'"
| api_write: "tcp_write a data len flags s = Some (e, s') \<Longrightarrow> tcp_api cb s s'"
| api_output: "tcp_output a s = Some (e, s') \<Longrightarrow> tcp_api cb s s'"
| api_recved: "tcp_recved pcb len s = Some s' \<Longrightarrow> tcp_api cb s s'"
| api_delayed: "tcp_backlog_delayed a s = Some s' \<Longrightarrow> tcp_api cb s s'"
| api_accepted: "tcp_backlog_accepted a s = Some s' \<Longrightarrow> tcp_api cb s s'"
| api_setprio: "tcp_setprio pcb prio s = Some s' \<Longrightarrow> tcp_api cb s s'"
| api_arg: "tcp_arg pcb arg s = Some s' \<Longrightarrow> tcp_api cb s s'"
| api_recv: "tcp_recv pcb recv s = Some s' \<Longrightarrow> tcp_api cb s s'"
| api_sent: "tcp_sent pcb sent s = Some s' \<Longrightarrow> tcp_api cb s s'"
| api_err: "tcp_err pcb err s = Some s' \<Longrightarrow> tcp_api cb s s'"
| api_accept: "tcp_accept pcb accept s = Some s' \<Longrightarrow> tcp_api cb s s'"
| api_poll: "tcp_poll pcb poll interval s = Some s' \<Longrightarrow> tcp_api cb s s'"

text \<open>
  The callbacks of the application: each is a sequence of such calls; the one for errors, for which the control
  block is gone already, leaves TCP alone.
\<close>

definition tcp_callbacks_api :: "tcp_callbacks \<Rightarrow> bool" where
  "tcp_callbacks_api cb \<longleftrightarrow>
     (\<forall>arg p e s r s'. cb_accept_function cb arg p e s = Some (r, s') \<longrightarrow> (tcp_api cb)\<^sup>*\<^sup>* s s')
   \<and> (\<forall>arg a p e s r s'. cb_recv_tcp cb arg a p e s = Some (r, s') \<longrightarrow> (tcp_api cb)\<^sup>*\<^sup>* s s')
   \<and> (\<forall>arg a n s r s'. cb_sent_tcp cb arg a n s = Some (r, s') \<longrightarrow> (tcp_api cb)\<^sup>*\<^sup>* s s')
   \<and> (\<forall>arg a e s r s'. cb_do_connected cb arg a e s = Some (r, s') \<longrightarrow> (tcp_api cb)\<^sup>*\<^sup>* s s')
   \<and> (\<forall>arg a s r s'. cb_poll_tcp cb arg a s = Some (r, s') \<longrightarrow> (tcp_api cb)\<^sup>*\<^sup>* s s')
   \<and> (\<forall>arg e s s'. cb_err_tcp cb arg e s = Some s' \<longrightarrow>
        st_tcp s' = st_tcp s \<and> st_tcp_in s' = st_tcp_in s \<and> hp_brk (st_heap s) \<le> hp_brk (st_heap s'))"

text \<open>All steps.\<close>

inductive tcp_step :: "tcp_callbacks \<Rightarrow> stack \<Rightarrow> stack \<Rightarrow> bool" for cb where
  step_api: "tcp_api cb s s' \<Longrightarrow> tcp_step cb s s'"
| step_input: "tcp_input cb p inp s = Some s' \<Longrightarrow> tcp_step cb s s'"
| step_tmr: "tcp_tmr cb s = Some s' \<Longrightarrow> tcp_step cb s s'"
| step_timeouts: "sys_check_timeouts cb s = Some s' \<Longrightarrow> tcp_step cb s s'"
| step_refused: "tcp_process_refused_data cb a s = Some (e, s') \<Longrightarrow> tcp_step cb s s'"
| step_txnow: "tcp_txnow s = Some s' \<Longrightarrow> tcp_step cb s s'"
| step_ooseq: "pbuf_free_ooseq s = Some s' \<Longrightarrow> tcp_step cb s s'"
| step_address: "tcp_netif_ip_addr_changed cb old new s = Some s' \<Longrightarrow> tcp_step cb s s'"

definition tcp_reachable :: "tcp_callbacks \<Rightarrow> heap \<Rightarrow> stack \<Rightarrow> bool" where
  "tcp_reachable cb h s \<longleftrightarrow> (tcp_step cb)\<^sup>*\<^sup>* (stack_zero h) s"

section \<open>The invariant\<close>

lemma st_rest_kept: "st_tcp s' = st_tcp s \<Longrightarrow> st_tcp_in s' = st_tcp_in s \<Longrightarrow> hp_brk (st_heap s) \<le> hp_brk (st_heap s') \<Longrightarrow> core_kept s s'"
  by (simp add: tcp_core_of_def st_brk_def)

text \<open>Of the callbacks, only the one for errors matters to the calls.\<close>

definition err_only :: "tcp_callbacks \<Rightarrow> tcp_callbacks" where
  "err_only cb = \<lparr>cb_accept_function = \<lambda>_ _ _ _. None, cb_recv_tcp = \<lambda>_ _ _ _ _. None, cb_sent_tcp = \<lambda>_ _ _ _. None,
     cb_do_connected = \<lambda>_ _ _ _. None, cb_poll_tcp = \<lambda>_ _ _. None, cb_err_tcp = cb_err_tcp cb\<rparr>"

lemma TCP_EVENT_ERR_err_only: "TCP_EVENT_ERR (err_only cb) = TCP_EVENT_ERR cb"
  by (simp add: fun_eq_iff TCP_EVENT_ERR_def err_only_def split: option.split tcp_err_fn.split)

lemma tcp_abandon_err_only: "tcp_abandon (err_only cb) = tcp_abandon cb"
  unfolding fun_eq_iff tcp_abandon_def TCP_EVENT_ERR_err_only by blast

lemma tcp_abort_err_only: "tcp_abort (err_only cb) = tcp_abort cb"
  unfolding fun_eq_iff tcp_abort_def tcp_abandon_err_only by blast

lemma tcp_alloc_err_only: "tcp_alloc (err_only cb) = tcp_alloc cb"
  unfolding fun_eq_iff tcp_alloc_def tcp_kill_prio_def tcp_kill_state_def tcp_kill_timewait_def tcp_abort_err_only tcp_abandon_err_only
  by blast

lemma tcp_callbacks_err:
  assumes "tcp_callbacks_api cb" "cb_err_tcp cb arg e s = Some s'"
  shows "tcp_safe s s'"
  by (rule tcp_safe_kept [OF st_rest_kept]) (use assms in \<open>auto simp: tcp_callbacks_api_def\<close>)

lemma tcp_api_safe:
  assumes "tcp_api cb s s'" "tcp_callbacks_api cb"
  shows "tcp_safe s s'"
proof -
  have ok: "tcp_callbacks_ok (err_only cb)"
    using tcp_callbacks_err [OF assms(2)] by (simp add: tcp_callbacks_ok_def err_only_def)
  from assms(1) show ?thesis
  proof cases
    case (api_bind a ip port e lip)
    then have "tcp_state_at a s = Some CLOSED" by (auto simp: tcp_bind_def Let_def elim!: core_elims)
    then have "tcp_lpcb_at a s = None" by (simp add: tcp_state_at_def split: option.splits)
    then have "tp_local_port q = 0" if "tcp_pcb_at a s = Some q" for q using api_bind(2) that by (simp add: tcp_local_at_def)
    then show ?thesis by (intro tcp_bind_safe [OF api_bind(1)]) simp
  qed ((auto simp: tcp_new_def tcp_new_ip_type_def intro: tcp_alloc_safe [OF _ ok, unfolded tcp_alloc_err_only] tcp_abort_safe [OF _ ok, unfolded tcp_abort_err_only]
      tcp_listen_with_backlog_and_err_safe tcp_connect_safe tcp_close_safe tcp_shutdown_safe dest!: kept_dests st_rest_kept)[1] | (rule tcp_safe_kept, simp; fail))+
qed

lemma tcp_api_star_safe: "(tcp_api cb)\<^sup>*\<^sup>* s s' \<Longrightarrow> tcp_callbacks_api cb \<Longrightarrow> tcp_safe s s'"
  by (induction rule: rtranclp_induct) (auto intro: tcp_safe_trans tcp_api_safe)

lemma tcp_callbacks_api_ok: "tcp_callbacks_api cb \<Longrightarrow> tcp_callbacks_ok cb"
  using tcp_api_star_safe [of cb] unfolding tcp_callbacks_ok_def
  by (auto simp: tcp_callbacks_err) (simp_all add: tcp_callbacks_api_def)

lemma tcp_step_inv:
  assumes "tcp_step cb s s'" "tcp_callbacks_api cb" "tcp_inv s"
  shows "tcp_inv s'"
proof -
  note ok = tcp_callbacks_api_ok [OF assms(2)]
  from assms(1) show ?thesis
  proof cases
    case step_api
    then show ?thesis using tcp_inv_safe [OF assms(3)] tcp_api_safe assms(2) by blast
  next
    case (step_input p inp)
    then show ?thesis using tcp_input_inv [OF _ ok assms(3)] by blast
  qed (auto intro!: tcp_inv_safe [OF assms(3)] dest: tcp_txnow_kept pbuf_free_ooseq_kept
      intro: tcp_tmr_safe [OF _ ok] sys_check_timeouts_safe [OF _ ok] tcp_process_refused_data_safe [OF _ ok]
        tcp_netif_ip_addr_changed_safe [OF _ ok] tcp_safe_kept)
qed

lemma tcp_inv_zero: "tcp_inv (stack_zero h)"
  by (simp add: tcp_inv_def tcp_wf_def core_ok_def tcp_core_of_def stack_zero_def tcp_globals_zero_def)

interpretation tcp_pcbs: invariant "tcp_step cb" "\<lambda>s. tcp_callbacks_api cb \<longrightarrow> tcp_inv s" "\<lambda>s. \<exists>h. s = stack_zero h" for cb
  by unfold_locales (auto intro: tcp_inv_zero tcp_step_inv)

lemma tcp_reachable_inv: "tcp_reachable cb h s \<Longrightarrow> tcp_callbacks_api cb \<Longrightarrow> tcp_inv s"
  unfolding tcp_reachable_def using tcp_pcbs.reachable_inv by blast

section \<open>The consistency check of the code\<close>

text \<open>\<open>tcp_pcbs_sane\<close>; an assertion that fails and a pointer that dangles have no value.\<close>

fun tcp_pcbs_sane_active :: "addr list \<Rightarrow> stack \<Rightarrow> unit option" where
  "tcp_pcbs_sane_active [] s = Some ()"
| "tcp_pcbs_sane_active (a # as) s = do {
     pcb \<leftarrow> tcp_pcb_at a s;
     lwip_assert (tp_state pcb \<noteq> CLOSED);
     lwip_assert (tp_state pcb \<noteq> LISTEN);
     lwip_assert (tp_state pcb \<noteq> TIME_WAIT);
     tcp_pcbs_sane_active as s
   }"

fun tcp_pcbs_sane_tw :: "addr list \<Rightarrow> stack \<Rightarrow> unit option" where
  "tcp_pcbs_sane_tw [] s = Some ()"
| "tcp_pcbs_sane_tw (a # as) s = do {
     pcb \<leftarrow> tcp_pcb_at a s;
     lwip_assert (tp_state pcb = TIME_WAIT);
     tcp_pcbs_sane_tw as s
   }"

definition tcp_pcbs_sane :: "stack \<Rightarrow> int option" where
  "tcp_pcbs_sane s = do {
     tcp_pcbs_sane_active (tcp_pcb_list L_active s) s;
     tcp_pcbs_sane_tw (tcp_pcb_list L_tw s) s;
     Some 1
   }"

lemma tcp_pcb_at_of_core: "tc_pcbs (tcp_core_of s) a = Some c \<Longrightarrow> \<exists>p. tcp_pcb_at a s = Some p \<and> pcb_core_of p = c"
  by (auto simp: tcp_core_of_def tcp_pcb_at_def)

lemma core_ok_lists:
  assumes "core_ok c"
  shows "a \<in> set (tc_active c) \<Longrightarrow> \<exists>p. tc_pcbs c a = Some p \<and> pc_state p \<notin> {CLOSED, TIME_WAIT}"
    "a \<in> set (tc_bound c) \<Longrightarrow> \<exists>p. tc_pcbs c a = Some p \<and> pc_state p = CLOSED \<and> pc_port p \<noteq> 0"
    "a \<in> set (tc_tw c) \<Longrightarrow> \<exists>p. tc_pcbs c a = Some p \<and> pc_state p = TIME_WAIT" "set (tc_listen c) = tc_lpcbs c"
  using assms unfolding core_ok_def by blast+

text \<open>The invariant, in terms of the control blocks.\<close>

lemma tcp_inv_lists:
  assumes "tcp_inv s"
  shows "\<And>a. a \<in> set (tcp_pcb_list L_active s) \<Longrightarrow> \<exists>p. tcp_pcb_at a s = Some p \<and> tp_state p \<notin> {CLOSED, LISTEN, TIME_WAIT}"
    "\<And>a. a \<in> set (tcp_pcb_list L_tw s) \<Longrightarrow> \<exists>p. tcp_pcb_at a s = Some p \<and> tp_state p = TIME_WAIT"
    "\<And>a. a \<in> set (tcp_pcb_list L_bound s) \<Longrightarrow> \<exists>p. tcp_pcb_at a s = Some p \<and> tp_state p = CLOSED \<and> tp_local_port p \<noteq> 0"
    "\<And>l. l \<in> set (tcp_pcb_list L_listen s) \<longleftrightarrow> tcp_lpcb_at l s \<noteq> None"
proof -
  have ok: "core_ok (tcp_core_of s)" using assms by (simp add: tcp_inv_def tcp_wf_ok)
  show "\<exists>p. tcp_pcb_at a s = Some p \<and> tp_state p \<notin> {CLOSED, LISTEN, TIME_WAIT}" if "a \<in> set (tcp_pcb_list L_active s)" for a
  proof -
    note a = that
    obtain c where c: "tc_pcbs (tcp_core_of s) a = Some c" "pc_state c \<notin> {CLOSED, TIME_WAIT}"
      using core_ok_lists(1) [OF ok, of a] a by auto
    then show ?thesis using tcp_pcb_at_of_core [OF c(1)] core_ok_in(2) [OF ok c(1)] by auto
  qed
  show "\<exists>p. tcp_pcb_at a s = Some p \<and> tp_state p = TIME_WAIT" if "a \<in> set (tcp_pcb_list L_tw s)" for a
    using core_ok_lists(3) [OF ok, of a] that tcp_pcb_at_of_core [of s a] by fastforce
  show "\<exists>p. tcp_pcb_at a s = Some p \<and> tp_state p = CLOSED \<and> tp_local_port p \<noteq> 0" if "a \<in> set (tcp_pcb_list L_bound s)" for a
    using core_ok_lists(2) [OF ok, of a] that tcp_pcb_at_of_core [of s a] by fastforce
  show "l \<in> set (tcp_pcb_list L_listen s) \<longleftrightarrow> tcp_lpcb_at l s \<noteq> None" for l
    using core_ok_lists(4) [OF ok] by (simp add: tcp_lpcb_at_None)
qed

lemma tcp_inv_sane:
  assumes "tcp_inv s"
  shows "tcp_pcbs_sane s = Some 1"
proof -
  have "tcp_pcbs_sane_active as s = Some ()" if "\<forall>a \<in> set as. \<exists>p. tcp_pcb_at a s = Some p \<and> tp_state p \<notin> {CLOSED, LISTEN, TIME_WAIT}" for as
    using that by (induction as) (auto simp: lwip_assert_def)
  moreover have "tcp_pcbs_sane_tw as s = Some ()" if "\<forall>a \<in> set as. \<exists>p. tcp_pcb_at a s = Some p \<and> tp_state p = TIME_WAIT" for as
    using that by (induction as) (auto simp: lwip_assert_def)
  ultimately show ?thesis using tcp_inv_lists [OF assms] by (auto simp: tcp_pcbs_sane_def simp del: tcp_pcb_list_core)
qed

lemma tcp_inv_distinct:
  assumes "tcp_inv s"
  shows "distinct (tcp_lists s)"
proof -
  have ok: "core_ok (tcp_core_of s)" using assms by (simp add: tcp_inv_def tcp_wf_ok)
  have n: "a \<notin> core_in l (tcp_core_of s)" if "a \<in> core_in k (tcp_core_of s)" "l \<noteq> k" for a l k
  proof (cases "a \<in> tc_lpcbs (tcp_core_of s)")
    case True
    then show ?thesis using core_ok_lpcb [OF ok True] that core_ok_in(1) [OF ok] ok by (cases l; cases k; auto simp: core_ok_def core_in_def)
  next
    case False
    note m = that
    have kl: "k \<noteq> L_listen" using False that(1) ok by (auto simp: core_ok_def core_in_def)
    obtain c where c: "tc_pcbs (tcp_core_of s) a = Some c"
      using m(1) kl core_ok_lists(1-3) [OF ok, of a] by (cases k) (auto simp: core_in_def)
    show ?thesis using core_ok_alone [OF ok c] that by metis
  qed
  then have "set (tc_listen (tcp_core_of s)) \<inter> set (tc_bound (tcp_core_of s)) = {}" "set (tc_listen (tcp_core_of s)) \<inter> set (tc_active (tcp_core_of s)) = {}"
    "set (tc_listen (tcp_core_of s)) \<inter> set (tc_tw (tcp_core_of s)) = {}" "set (tc_bound (tcp_core_of s)) \<inter> set (tc_active (tcp_core_of s)) = {}"
    "set (tc_bound (tcp_core_of s)) \<inter> set (tc_tw (tcp_core_of s)) = {}" "set (tc_active (tcp_core_of s)) \<inter> set (tc_tw (tcp_core_of s)) = {}"
    using n [of _ L_listen] n [of _ L_bound] n [of _ L_active] by (fastforce simp: core_in_def)+
  then show ?thesis using ok by (auto simp: tcp_lists_def core_ok_def)
qed

lemma tcp_inv_listener:
  assumes "tcp_inv s" "a \<in> set (tcp_pcb_list L_active s) \<union> set (tcp_pcb_list L_tw s)" "tcp_pcb_at a s = Some p" "tp_listener p = Some l"
  shows "tcp_lpcb_at l s \<noteq> None"
proof -
  have ok: "core_ok (tcp_core_of s)" using assms(1) by (simp add: tcp_inv_def tcp_wf_ok)
  have "tc_pcbs (tcp_core_of s) a = Some (pcb_core_of p)" using assms(3) by (simp add: core_simps)
  moreover have "pc_listener (pcb_core_of p) = Some l" using assms(4) by simp
  ultimately have "l \<in> tc_lpcbs (tcp_core_of s)" using ok assms(2) by (fastforce simp: core_ok_def)
  then show ?thesis by (simp add: tcp_lpcb_at_None)
qed

text \<open>The searches return, and what they return is the first control block of the list that serves the segment.\<close>

definition tcp_pcb_serves :: "tcp_flow \<Rightarrow> stack \<Rightarrow> addr \<Rightarrow> bool" where
  "tcp_pcb_serves fl s a \<longleftrightarrow> (case tcp_pcb_at a s of None \<Rightarrow> False
     | Some p \<Rightarrow> tcp_other_netif (tp_netif_idx p) s = Some False \<and> tcp_pcb_matches fl p)"

definition tcp_lpcb_serves :: "tcp_flow \<Rightarrow> stack \<Rightarrow> addr \<Rightarrow> bool" where
  "tcp_lpcb_serves fl s l \<longleftrightarrow> (case tcp_lpcb_at l s of None \<Rightarrow> False
     | Some p \<Rightarrow> tcp_other_netif (lp_netif_idx p) s = Some False \<and> lp_local_port p \<in> {TCP_ACCEPT_ANY_PORT, fl_dest fl}
         \<and> (lp_local_ip p = fl_dest_ip fl \<or> ip4_addr_isany_val (lp_local_ip p)))"

lemma tcp_other_netif_total:
  assumes "current_input_netif (st_ip_data s) = Some n"
  obtains b where "tcp_other_netif i s = Some b"
  using assms by (cases "tcp_other_netif i s") (auto simp: tcp_other_netif_def split: if_split_asm)

lemma tcp_find_active_first:
  assumes "current_input_netif (st_ip_data s) = Some n"
    and "\<forall>a \<in> set as. \<exists>p. tcp_pcb_at a s = Some p \<and> tp_state p \<notin> {CLOSED, LISTEN, TIME_WAIT}"
  shows "tcp_find_active fl as s = Some (find (tcp_pcb_serves fl s) as)"
  using assms(2)
proof (induction as)
  case (Cons a as)
  then obtain p where p: "tcp_pcb_at a s = Some p" "tp_state p \<notin> {CLOSED, LISTEN, TIME_WAIT}" by auto
  obtain b where "tcp_other_netif (tp_netif_idx p) s = Some b" using tcp_other_netif_total [OF assms(1)] .
  then show ?case using Cons p by (auto simp: lwip_assert_def tcp_pcb_serves_def)
qed simp

lemma tcp_find_tw_first:
  assumes "current_input_netif (st_ip_data s) = Some n" "\<forall>a \<in> set as. \<exists>p. tcp_pcb_at a s = Some p \<and> tp_state p = TIME_WAIT"
  shows "tcp_find_tw fl as s = Some (find (tcp_pcb_serves fl s) as)"
  using assms(2)
proof (induction as)
  case (Cons a as)
  then obtain p where p: "tcp_pcb_at a s = Some p" "tp_state p = TIME_WAIT" by auto
  obtain b where "tcp_other_netif (tp_netif_idx p) s = Some b" using tcp_other_netif_total [OF assms(1)] .
  then show ?case using Cons p by (auto simp: lwip_assert_def tcp_pcb_serves_def)
qed simp

lemma tcp_find_listen_first:
  assumes "current_input_netif (st_ip_data s) = Some n" "\<forall>l \<in> set ls. tcp_lpcb_at l s \<noteq> None"
  shows "tcp_find_listen fl ls s = Some (find (tcp_lpcb_serves fl s) ls)"
  using assms(2)
proof (induction ls)
  case (Cons l ls)
  then obtain p where p: "tcp_lpcb_at l s = Some p" by auto
  obtain b where "tcp_other_netif (lp_netif_idx p) s = Some b" using tcp_other_netif_total [OF assms(1)] .
  then show ?case using Cons p by (auto simp: tcp_lpcb_serves_def)
qed simp

lemma tcp_port_taken_total: "\<forall>a \<in> set as. tcp_local_at a s \<noteq> None \<Longrightarrow> tcp_port_taken port as s \<noteq> None"
  by (induction as) auto

lemma tcp_bind_clash_total: "\<forall>a \<in> set as. tcp_local_at a s \<noteq> None \<Longrightarrow> tcp_bind_clash ip port as s \<noteq> None"
  by (induction as) auto

lemma tcp_new_port_loop_total: "\<forall>a \<in> set (tcp_lists s). tcp_local_at a s \<noteq> None \<Longrightarrow> tcp_new_port_loop n port s \<noteq> None"
proof (induction n port s rule: tcp_new_port_loop.induct)
  case (1 n port s)
  obtain b where "tcp_port_taken (let port = port + 1 in if port = 0xFFFF then 0xC000 else port) (tcp_lists s) s = Some b"
    using tcp_port_taken_total [OF 1(2)] by fast
  then show ?case using 1 by (subst tcp_new_port_loop.simps) (auto simp: Let_def)
qed

lemma tcp_new_port_total: "\<forall>a \<in> set (tcp_lists s). tcp_local_at a s \<noteq> None \<Longrightarrow> tcp_new_port s \<noteq> None"
  using tcp_new_port_loop_total [of s 0 "tg_port (st_tcp s)"] by (auto simp: tcp_new_port_def)

lemma tcp_kill_find_total: "\<forall>a \<in> set as. tcp_pcb_at a s \<noteq> None \<Longrightarrow> tcp_kill_find st as i r s \<noteq> None"
  by (induction as arbitrary: i r) (auto simp: Let_def)

lemma tcp_kill_prio_find_total: "\<forall>a \<in> set as. tcp_pcb_at a s \<noteq> None \<Longrightarrow> tcp_kill_prio_find as m i r s \<noteq> None"
  by (induction as arbitrary: m i r) (auto simp: Let_def)

lemma tcp_inv_local:
  assumes "tcp_inv s"
  shows "\<forall>a \<in> set (tcp_lists s). tcp_local_at a s \<noteq> None"
  using tcp_inv_lists [OF assms] by (fastforce simp: tcp_lists_def tcp_local_at_def split: option.split simp del: tcp_pcb_list_core)

text \<open>Some callbacks, and a server that listens on port 80 while another control block is bound.\<close>

definition ex_callbacks :: tcp_callbacks where
  "ex_callbacks = \<lparr>cb_accept_function = \<lambda>_ _ _ s. Some (ERR_OK, s), cb_recv_tcp = \<lambda>arg a p e s. tcp_recv_null (Some a) p e s,
     cb_sent_tcp = \<lambda>_ _ _ s. Some (ERR_OK, s), cb_do_connected = \<lambda>_ _ _ s. Some (ERR_OK, s), cb_poll_tcp = \<lambda>_ _ s. Some (ERR_OK, s),
     cb_err_tcp = \<lambda>_ _ s. Some s\<rparr>"

lemma st_pbuf_free_other: "st_pbuf_free p s = Some s' \<Longrightarrow> tcp_api cb s s'"
  by (rule api_other) (auto simp: st_pbuf_free_def elim!: core_elims dest!: brk_dests)

lemma tcp_recv_null_api:
  assumes "tcp_recv_null (Some a) p e s = Some (r, s')"
  shows "(tcp_api cb)\<^sup>*\<^sup>* s s'"
proof (cases p)
  case (Some b)
  then obtain n t where t: "tcp_recved (Some a) n s = Some t" "st_pbuf_free p t = Some s'"
    using assms by (auto simp: tcp_recv_null_def elim!: core_elims)
  have "tcp_api cb s t" "tcp_api cb t s'" using api_recved [OF t(1)] st_pbuf_free_other [OF t(2)] .
  then show ?thesis by simp
next
  case None
  then have "tcp_close (Some a) s = Some (r, s') \<or> s' = s" using assms by (auto simp: tcp_recv_null_def split: if_split_asm)
  then show ?thesis by (auto intro: r_into_rtranclp api_close)
qed

lemma ex_callbacks_api: "tcp_callbacks_api ex_callbacks"
  by (auto simp: tcp_callbacks_api_def ex_callbacks_def intro: tcp_recv_null_api)

definition ex_bind :: "addr option \<Rightarrow> u16 \<Rightarrow> stack \<Rightarrow> stack option" where
  "ex_bind p port s = do {
     a \<leftarrow> p;
     (_, old) \<leftarrow> tcp_local_at a s;
     lwip_assert (old = 0);
     (_, s) \<leftarrow> tcp_bind p None port s;
     Some s
   }"

definition ex_server :: "stack option" where
  "ex_server = do {
     (p, s) \<leftarrow> tcp_new ex_callbacks (stack_zero ex_heap);
     s \<leftarrow> ex_bind p 80 s;
     (_, _, s) \<leftarrow> tcp_listen_with_backlog_and_err p 4 s;
     (p, s) \<leftarrow> tcp_new ex_callbacks s;
     ex_bind p 0 s
   }"

lemma ex_bind_api: "ex_bind p port s = Some s' \<Longrightarrow> tcp_api ex_callbacks s s'"
  by (auto simp: ex_bind_def lwip_assert_def elim!: core_elims split: if_split_asm intro: api_bind)

lemma ex_server_reachable: "ex_server = Some s \<Longrightarrow> tcp_reachable ex_callbacks ex_heap s"
  unfolding ex_server_def tcp_reachable_def
  by (auto elim!: core_elims) ((rule converse_rtranclp_into_rtranclp, rule step_api,
    (erule api_new | erule ex_bind_api | erule api_listen))+, simp)

lemma ex_server_lists: "map_option (\<lambda>s. (tcp_pcb_list L_listen s, tcp_pcb_list L_bound s, map (\<lambda>a. tcp_local_at a s) (tcp_lists s))) ex_server
    = Some ([4], [5], [Some (0, 80), Some (0, 49153)])"
  by code_simp

text \<open>C4: In every state that TCP can reach by calls of the application, input of segments and timers, with callbacks
  that make such calls, the consistency check of the code succeeds; no control block is in two lists or twice in a
  list; the bound ones are in state \<open>CLOSED\<close> and have a port; the listening ones are exactly those in the list; the
  listener of a connection in the lists exists; and no control block is left over as the one of the current segment.\<close>

theorem tcp_reachable_sane:
  assumes "tcp_reachable cb h s" "tcp_callbacks_api cb"
  shows "tcp_pcbs_sane s = Some 1 \<and> distinct (tcp_lists s)
    \<and> (\<forall>a \<in> set (tcp_pcb_list L_bound s). \<exists>p. tcp_pcb_at a s = Some p \<and> tp_state p = CLOSED \<and> tp_local_port p \<noteq> 0)
    \<and> (\<forall>l. l \<in> set (tcp_pcb_list L_listen s) \<longleftrightarrow> tcp_lpcb_at l s \<noteq> None)
    \<and> (\<forall>a \<in> set (tcp_pcb_list L_active s) \<union> set (tcp_pcb_list L_tw s). \<forall>p l. tcp_pcb_at a s = Some p \<longrightarrow> tp_listener p = Some l
         \<longrightarrow> tcp_lpcb_at l s \<noteq> None)
    \<and> tg_input_pcb (st_tcp s) = None"
proof -
  note i = tcp_reachable_inv [OF assms]
  show ?thesis
    using tcp_inv_sane [OF i] tcp_inv_distinct [OF i] tcp_inv_lists(3,4) [OF i] tcp_inv_listener [OF i] i
    by (auto simp: tcp_inv_def tcp_core_of_def simp del: tcp_pcb_list_core)
qed

theorem tcp_reachable_sane_witness:
  "(case ex_server of None \<Rightarrow> False
    | Some s \<Rightarrow> tcp_pcbs_sane s = Some 1 \<and> length (tcp_lists s) = 2 \<and> distinct (tcp_lists s) \<and> tg_input_pcb (st_tcp s) = None)"
proof -
  obtain s where s: "ex_server = Some s" "length (tcp_lists s) = 2"
    using ex_server_lists by (auto dest: arg_cong [of _ _ length])
  note f = tcp_reachable_sane [OF ex_server_reachable [OF s(1)] ex_callbacks_api]
  show ?thesis unfolding s(1) option.case using f s(2) by blast
qed

text \<open>C13: In the reachable states no search through the lists aborts or follows a dangling pointer, whatever the ports and
  addresses are.  The searches of the input (while a packet is processed, so that its interface is known) return the
  first connection, connection in TIME-WAIT or listener of the list that serves the segment, if there is one; those
  of \<open>tcp_bind\<close> for a clash or a free port and those for a control block to recycle (by age, state or priority) have a result.\<close>

theorem tcp_reachable_searches:
  assumes "tcp_reachable cb h s" "tcp_callbacks_api cb" "current_input_netif (st_ip_data s) = Some n"
  shows "tcp_find_active fl (tcp_pcb_list L_active s) s = Some (find (tcp_pcb_serves fl s) (tcp_pcb_list L_active s))
    \<and> tcp_find_tw fl (tcp_pcb_list L_tw s) s = Some (find (tcp_pcb_serves fl s) (tcp_pcb_list L_tw s))
    \<and> tcp_find_listen fl (tcp_pcb_list L_listen s) s = Some (find (tcp_lpcb_serves fl s) (tcp_pcb_list L_listen s))
    \<and> tcp_bind_clash ip port (tcp_lists s) s \<noteq> None \<and> tcp_port_taken port (tcp_lists s) s \<noteq> None \<and> tcp_new_port s \<noteq> None
    \<and> tcp_kill_find (Some st) (tcp_pcb_list L_active s) 0 None s \<noteq> None \<and> tcp_kill_find None (tcp_pcb_list L_tw s) 0 None s \<noteq> None
    \<and> tcp_kill_prio_find (tcp_pcb_list L_active s) prio 0 None s \<noteq> None"
proof -
  note i = tcp_reachable_inv [OF assms(1,2)]
  note lists = tcp_inv_lists [OF i] and loc = tcp_inv_local [OF i]
  show ?thesis
  proof (intro conjI)
    show "tcp_find_active fl (tcp_pcb_list L_active s) s = Some (find (tcp_pcb_serves fl s) (tcp_pcb_list L_active s))"
      by (rule tcp_find_active_first [OF assms(3)]) (use lists(1) in blast)
    show "tcp_find_tw fl (tcp_pcb_list L_tw s) s = Some (find (tcp_pcb_serves fl s) (tcp_pcb_list L_tw s))"
      by (rule tcp_find_tw_first [OF assms(3)]) (use lists(2) in blast)
    show "tcp_find_listen fl (tcp_pcb_list L_listen s) s = Some (find (tcp_lpcb_serves fl s) (tcp_pcb_list L_listen s))"
      by (rule tcp_find_listen_first [OF assms(3)]) (use lists(4) in blast)
    show "tcp_kill_find (Some st) (tcp_pcb_list L_active s) 0 None s \<noteq> None" by (rule tcp_kill_find_total) (use lists(1) in fastforce)
    show "tcp_kill_prio_find (tcp_pcb_list L_active s) prio 0 None s \<noteq> None" by (rule tcp_kill_prio_find_total) (use lists(1) in fastforce)
    show "tcp_kill_find None (tcp_pcb_list L_tw s) 0 None s \<noteq> None" by (rule tcp_kill_find_total) (use lists(2) in fastforce)
  qed (rule tcp_bind_clash_total [OF loc] tcp_port_taken_total [OF loc] tcp_new_port_total [OF loc])+
qed

text \<open>A segment to port 80 while a packet is processed: the listener is found.\<close>

definition ex_server_input :: "stack option" where
  "ex_server_input = map_option (\<lambda>s. s\<lparr>st_ip_data := (st_ip_data s)\<lparr>current_input_netif := Some global_if\<rparr>\<rparr>) ex_server"

theorem tcp_reachable_searches_witness:
  "(let fl = \<lparr>fl_src = 5000, fl_dest = 80, fl_src_ip = 1, fl_dest_ip = 2\<rparr> in
     case ex_server_input of None \<Rightarrow> False
     | Some s \<Rightarrow> tcp_find_active fl (tcp_pcb_list L_active s) s = Some None \<and> tcp_find_listen fl (tcp_pcb_list L_listen s) s = Some (Some 4))"
proof -
  let ?fl = "\<lparr>fl_src = 5000, fl_dest = 80, fl_src_ip = 1, fl_dest_ip = 2\<rparr>"
  have e: "map_option (\<lambda>s. (current_input_netif (st_ip_data s), tcp_pcb_list L_active s, tcp_pcb_list L_listen s, tcp_lpcb_serves ?fl s 4)) ex_server_input
      = Some (Some global_if, [], [4], True)"
    by code_simp
  then obtain s where s: "ex_server_input = Some s" by auto
  then obtain t where t: "ex_server = Some t" "s = t\<lparr>st_ip_data := (st_ip_data t)\<lparr>current_input_netif := Some global_if\<rparr>\<rparr>"
    by (auto simp: ex_server_input_def)
  have "tcp_api ex_callbacks t s" by (rule api_other) (simp_all add: t(2))
  then have r: "tcp_reachable ex_callbacks ex_heap s"
    using ex_server_reachable [OF t(1)] unfolding tcp_reachable_def by (blast intro: rtranclp.rtrancl_into_rtrancl step_api)
  have "current_input_netif (st_ip_data s) = Some global_if" using e unfolding s by simp
  note f = tcp_reachable_searches [OF r ex_callbacks_api this, of ?fl]
  show ?thesis using f e unfolding s Let_def by simp
qed

section \<open>The state machine\<close>

text \<open>The states that RFC 793 allows to follow while a segment is processed, from \<open>ESTABLISHED\<close> on.\<close>

fun rfc793_next :: "tcp_state \<Rightarrow> tcp_state set" where
  "rfc793_next ESTABLISHED = {ESTABLISHED, CLOSE_WAIT}"
| "rfc793_next FIN_WAIT_1 = {FIN_WAIT_1, FIN_WAIT_2, CLOSING, TIME_WAIT}"
| "rfc793_next FIN_WAIT_2 = {FIN_WAIT_2, TIME_WAIT}"
| "rfc793_next CLOSE_WAIT = {CLOSE_WAIT}"
| "rfc793_next CLOSING = {CLOSING, TIME_WAIT}"
| "rfc793_next LAST_ACK = {LAST_ACK}"
| "rfc793_next _ = {}"

text \<open>The control block goes to a state, and to the list of that state.\<close>

definition core_moved :: "addr \<Rightarrow> tcp_state \<Rightarrow> tcp_core \<Rightarrow> tcp_core \<Rightarrow> bool" where
  "core_moved a st c c' \<longleftrightarrow> (\<exists>b r. c' = (if st = TIME_WAIT then core_reg L_tw a (core_rmv L_active a (core_state a st c))
     else core_state a st c)\<lparr>tc_closing := b, tc_reset := r\<rparr>)"

lemma core_moved_state: "st \<noteq> TIME_WAIT \<Longrightarrow> core_moved a st c (core_state a st c)"
  unfolding core_moved_def by (rule exI [of _ "tc_closing c"], rule exI [of _ "tc_reset c"]) (simp add: core_state_def)

lemma core_state_same: "tc_pcbs c a = Some p \<Longrightarrow> pc_state p = st \<Longrightarrow> core_state a st c = c"
  by (auto simp: core_state_def fun_upd_idem)

lemma core_moved_same:
  assumes "tc_pcbs c a = Some p" "pc_state p \<noteq> TIME_WAIT"
  shows "core_moved a (pc_state p) c (c\<lparr>tc_reset := r\<rparr>)" "core_moved a (pc_state p) c (c\<lparr>tc_closing := r\<rparr>)" "core_moved a (pc_state p) c c"
proof -
  have e: "core_state a (pc_state p) c = c" by (rule core_state_same [OF assms(1)]) simp
  show "core_moved a (pc_state p) c (c\<lparr>tc_reset := r\<rparr>)"
    unfolding core_moved_def e by (rule exI [of _ "tc_closing c"], rule exI [of _ r]) (simp add: assms(2))
  show "core_moved a (pc_state p) c (c\<lparr>tc_closing := r\<rparr>)"
    unfolding core_moved_def e by (rule exI [of _ r], rule exI [of _ "tc_reset c"]) (simp add: assms(2))
  show "core_moved a (pc_state p) c c"
    unfolding core_moved_def e by (rule exI [of _ "tc_closing c"], rule exI [of _ "tc_reset c"]) (simp add: assms(2))
qed

lemma core_moved_after:
  assumes "core_moved a st (core_state a st0 c) c'"
  shows "core_moved a st c c'"
proof -
  have e: "core_state a st (core_state a st0 c) = core_state a st c" by (cases "tc_pcbs c a") (simp_all add: core_state_def)
  show ?thesis using assms unfolding core_moved_def e .
qed

lemma core_moved_time_wait:
  assumes "tcp_enter_time_wait a s = Some s'" "core_ok (tcp_core_of s)" "core_act (tcp_core_of s) a"
  shows "core_moved a TIME_WAIT (tcp_core_of s) (tcp_core_of s')"
  unfolding core_moved_def using tcp_enter_time_wait_core [OF assms]
  by (intro exI [of _ "tc_closing (tcp_core_of s')"] exI [of _ "tc_reset (tcp_core_of s')"]) (simp add: core_reg_def core_rmv_def core_state_def)

text \<open>The part after \<open>tcp_receive\<close>; a FIN that arrived out of order may have been taken there already.\<close>

lemma tcp_process_received_moved:
  assumes "tcp_process_received a st s = Some s'" "core_ok (tcp_core_of s)" "tcp_pcb_at a s = Some p" "tp_state p \<in> rfc793_next st"
    "st = ESTABLISHED \<or> tp_state p = st" "rfc793_next st \<noteq> {}"
  shows "\<exists>st' \<in> rfc793_next st. core_moved a st' (tcp_core_of s) (tcp_core_of s')"
proof -
  have c: "tc_pcbs (tcp_core_of s) a = Some (pcb_core_of p)" using assms(3) by (simp add: core_simps)
  have nt: "tp_state p \<noteq> TIME_WAIT" "core_act (tcp_core_of s) a" using assms(4-6) c by (cases st; auto simp: core_act_def)+
  have put: "core_moved a st' (tcp_core_of s) ((tcp_core_of s)\<lparr>tc_pcbs := (tc_pcbs (tcp_core_of s))(a \<mapsto> (pcb_core_of p)\<lparr>pc_state := st'\<rparr>)\<rparr>)"
    if "st' \<noteq> TIME_WAIT" for st'
    using core_moved_state [OF that, of a "tcp_core_of s"] c by (simp add: core_state_def)
  have tw: "core_moved a TIME_WAIT (tcp_core_of s) (tcp_core_of s')" if "tcp_enter_time_wait a u = Some s'" "tcp_core_of u = tcp_core_of s" for u
    using core_moved_time_wait [OF that(1)] that(2) assms(2) nt(2) by simp
  have ack: "tcp_core_of (put_tcp_pcb a (tcp_ack_now p) s) = tcp_core_of s" using c by simp
  note same = core_moved_same [OF c, simplified, OF nt(1)]
  show ?thesis
    using assms(1,3-6) same tw [OF _ ack] tw [OF _ refl] put [of CLOSING] put [of FIN_WAIT_2] put [of CLOSE_WAIT]
    unfolding tcp_process_received_def
    by (cases st) (auto split: if_split_asm)
qed

lemma tcp_process_moved:
  assumes "tcp_process cb a s = Some (e, s')" "tcp_wf s" "tcp_pcb_at a s = Some p" "rfc793_next (tp_state p) \<noteq> {}"
  shows "\<exists>st \<in> rfc793_next (tp_state p). core_moved a st (tcp_core_of s) (tcp_core_of s')"
proof -
  note ok = tcp_wf_ok [OF assms(2)]
  have c: "tc_pcbs (tcp_core_of s) a = Some (pcb_core_of p)" using assms(3) by (simp add: core_simps)
  have st: "tp_state p \<in> rfc793_next (tp_state p)" "tp_state p \<noteq> TIME_WAIT" using assms(4) by (cases "tp_state p"; simp)+
  note same = core_moved_same [OF c, simplified, OF st(2)]
  let ?p = "(if tp_flags p AND TF_RXCLOSED = 0 then p\<lparr>tp_tmr := tg_ticks (st_tcp s)\<rparr> else p)\<lparr>tp_keep_cnt_sent := 0, tp_persist_probe := 0\<rparr>"
  consider (rst) "tcp_process_rst a s = Some (e, s')" | (ack) "s' = put_tcp_pcb a (tcp_ack_now p) s"
    | (run) t where "tcp_parseopt a (put_tcp_pcb a ?p s) = Some t"
       "(case tp_state p of
         SYN_SENT \<Rightarrow> tcp_process_syn_sent cb a t
       | SYN_RCVD \<Rightarrow> tcp_process_syn_rcvd cb a t
       | CLOSED \<Rightarrow> Some (ERR_OK, t)
       | LISTEN \<Rightarrow> Some (ERR_OK, t)
       | TIME_WAIT \<Rightarrow> Some (ERR_OK, t)
       | st \<Rightarrow> do {
           s \<leftarrow> tcp_receive a t;
           s \<leftarrow> tcp_process_received a st s;
           Some (ERR_OK, s)
         }) = Some (e, s')"
    using assms(1,3) unfolding tcp_process_def Let_def
    by (auto elim!: core_elims split: if_split_asm)
  then show ?thesis
  proof cases
    case rst
    then show ?thesis using tcp_process_rst_core [OF rst] same by (intro bexI [OF _ st(1)]) auto
  next
    case ack
    then have "tcp_core_of s' = tcp_core_of s" using c by simp
    then show ?thesis using same st(1) by auto
  next
    case go: run
    obtain u where run: "tcp_parseopt a (put_tcp_pcb a ?p s) = Some t" "tcp_receive a t = Some u" "tcp_process_received a (tp_state p) u = Some s'"
      using go assms(4) by (cases "tp_state p") (auto elim!: core_elims)
    have t: "tcp_core_of t = tcp_core_of s" using tcp_parseopt_kept [OF run(1)] c by (simp split: if_split_asm)
    have u: "core_fin a (tcp_core_of s) (tcp_core_of u)" using tcp_receive_core [OF run(2)] t by simp
    then have oku: "core_ok (tcp_core_of u)"
      using ok core_ok_state [OF ok] by (auto simp: core_fin_def core_act_def)
    obtain q where q: "tcp_pcb_at a u = Some q" using run(3) by (auto simp: tcp_process_received_def elim!: core_elims)
    then have "tc_pcbs (tcp_core_of u) a = Some (pcb_core_of q)" by (simp add: core_simps)
    then have qs: "tp_state q \<in> rfc793_next (tp_state p)" "tp_state p = ESTABLISHED \<or> tp_state q = tp_state p"
      using u c st(1) by (auto simp: core_fin_def core_state_def pcb_core_of_def)
    obtain st' where m: "st' \<in> rfc793_next (tp_state p)" "core_moved a st' (tcp_core_of u) (tcp_core_of s')"
      using tcp_process_received_moved [OF run(3) oku q qs assms(4)] by blast
    then have "core_moved a st' (tcp_core_of s) (tcp_core_of s')"
      using u core_moved_after by (auto simp: core_fin_def)
    then show ?thesis using m(1) by blast
  qed
qed

text \<open>C10: From \<open>ESTABLISHED\<close> on, a segment moves a connection only along the transitions of RFC 793: to \<open>CLOSE_WAIT\<close> from
  \<open>ESTABLISHED\<close>, to \<open>FIN_WAIT_2\<close>, \<open>CLOSING\<close> and \<open>TIME_WAIT\<close> from \<open>FIN_WAIT_1\<close>, to \<open>TIME_WAIT\<close> from \<open>FIN_WAIT_2\<close> and \<open>CLOSING\<close>.
  It moves from the active list to the front of the TIME-WAIT list exactly when it enters \<open>TIME_WAIT\<close>; its port stays,
  and the states and lists of all other control blocks are unchanged.\<close>

theorem tcp_process_transitions:
  assumes "tcp_process cb a s = Some (e, s')" "tcp_wf s" "tcp_pcb_at a s = Some p"
    "tp_state p \<in> {ESTABLISHED, FIN_WAIT_1, FIN_WAIT_2, CLOSE_WAIT, CLOSING, LAST_ACK}"
  shows "\<exists>q. tcp_pcb_at a s' = Some q \<and> tp_state q \<in> rfc793_next (tp_state p) \<and> tp_local_port q = tp_local_port p
    \<and> tcp_pcb_list L_active s' = (if tp_state q = TIME_WAIT then remove1 a (tcp_pcb_list L_active s) else tcp_pcb_list L_active s)
    \<and> tcp_pcb_list L_tw s' = (if tp_state q = TIME_WAIT then a # tcp_pcb_list L_tw s else tcp_pcb_list L_tw s)
    \<and> tcp_pcb_list L_listen s' = tcp_pcb_list L_listen s \<and> tcp_pcb_list L_bound s' = tcp_pcb_list L_bound s
    \<and> (\<forall>b. b \<noteq> a \<longrightarrow> map_option tp_state (tcp_pcb_at b s') = map_option tp_state (tcp_pcb_at b s))"
proof -
  have "rfc793_next (tp_state p) \<noteq> {}" using assms(4) by auto
  from tcp_process_moved [OF assms(1-3) this] obtain st where st: "st \<in> rfc793_next (tp_state p)" "core_moved a st (tcp_core_of s) (tcp_core_of s')"
    by blast
  have c: "tc_pcbs (tcp_core_of s) a = Some (pcb_core_of p)" using assms(3) by (simp add: core_simps)
  have p: "tc_pcbs (tcp_core_of s') = (tc_pcbs (tcp_core_of s))(a \<mapsto> (pcb_core_of p)\<lparr>pc_state := st\<rparr>)"
    using st(2) c by (auto simp: core_moved_def core_state_def core_reg_def core_rmv_def split: if_split_asm)
  then obtain q where q: "tcp_pcb_at a s' = Some q" "pcb_core_of q = (pcb_core_of p)\<lparr>pc_state := st\<rparr>" using tcp_pcb_at_of_core [of s' a] by auto
  then have "tp_state q = st" "tp_local_port q = tp_local_port p" by (auto simp: pcb_core_of_def)
  moreover have "map_option tp_state (tcp_pcb_at b s') = map_option tp_state (tcp_pcb_at b s)" if "b \<noteq> a" for b
    using arg_cong [OF fun_cong [OF p, of b], of "map_option pc_state"] that
    by (simp add: tcp_core_of_def tcp_pcb_at_def option.map_comp comp_def)
  ultimately show ?thesis using q(1) st
    by (auto simp: core_moved_def core_state_def core_reg_def core_rmv_def split: if_split_asm)
qed

text \<open>Both sides have sent a FIN, and ours is acknowledged: the connection goes to \<open>TIME_WAIT\<close>.\<close>

definition ex_closing :: stack where
  "ex_closing = (stack_zero (ex_heap\<lparr>hp_blocks := [1 \<mapsto> replicate 20 0], hp_brk := 10\<rparr>))
     \<lparr>st_tcp := tcp_globals_zero\<lparr>tg_pcbs := [7 \<mapsto> tcp_pcb_zero\<lparr>tp_state := CLOSING, tp_local_port := 80, tp_lastack := 100, tp_snd_nxt := 101,
          tp_rcv_nxt := 50, tp_rcv_wnd := 65535, tp_mss := 1460\<rparr>, 8 \<mapsto> tcp_pcb_zero\<lparr>tp_state := ESTABLISHED\<rparr>],
        tg_active := [8, 7]\<rparr>,
      st_tcp_in := tcp_in_zero\<lparr>ti_tcphdr := Some (1, 0), ti_seqno := 50, ti_ackno := 101, ti_flags := TCP_ACK\<rparr>\<rparr>"

theorem tcp_process_transitions_witness:
  "\<exists>s. tcp_process ex_callbacks 7 ex_closing = Some (ERR_OK, s) \<and> map_option tp_state (tcp_pcb_at 7 s) = Some TIME_WAIT
     \<and> tcp_pcb_list L_active s = [8] \<and> tcp_pcb_list L_tw s = [7] \<and> map_option tp_state (tcp_pcb_at 8 s) = Some ESTABLISHED"
proof -
  have "map_option (\<lambda>(e, s). (e, map_option tp_state (tcp_pcb_at 7 s))) (tcp_process ex_callbacks 7 ex_closing) = Some (ERR_OK, Some TIME_WAIT)"
    by code_simp
  then obtain s where s: "tcp_process ex_callbacks 7 ex_closing = Some (ERR_OK, s)" "map_option tp_state (tcp_pcb_at 7 s) = Some TIME_WAIT"
    by auto
  obtain p where p: "tcp_pcb_at 7 ex_closing = Some p" "tp_state p = CLOSING"
    by (simp add: tcp_pcb_at_def ex_closing_def)
  have wf: "tcp_wf ex_closing"
    by (auto simp: tcp_wf_def core_ok_def tcp_core_of_def st_brk_def ex_closing_def pcb_core_of_def tcp_globals_zero_def stack_zero_def tcp_pcb_zero_def split: if_splits)
  have l: "tcp_pcb_list L_active ex_closing = [8, 7]" "tcp_pcb_list L_tw ex_closing = []" "map_option tp_state (tcp_pcb_at 8 ex_closing) = Some ESTABLISHED"
    by (simp_all add: tcp_core_of_def ex_closing_def tcp_globals_zero_def tcp_pcb_at_def)
  have "tp_state p \<in> {ESTABLISHED, FIN_WAIT_1, FIN_WAIT_2, CLOSE_WAIT, CLOSING, LAST_ACK}" using p(2) by simp
  from tcp_process_transitions [OF s(1) wf p(1) this] s(2) l(1,2)
  have "tcp_pcb_list L_active s = [8]" "tcp_pcb_list L_tw s = [7]" "map_option tp_state (tcp_pcb_at 8 s) = map_option tp_state (tcp_pcb_at 8 ex_closing)"
    by auto
  then show ?thesis using s l(3) by metis
qed

end
