(* ===== verification/Spec2Isabelle.thy ===== *)
theory Spec2Isabelle
  imports Mbox_Sched Native Tcp_Reach
begin

text \<open>
  A verification development for tun2socket-lwip: the lwIP stack in the configuration of
  \<^verbatim>\<open>src/lwip/include/lwipopts.h\<close>, and the functions under \<^verbatim>\<open>src/native\<close> that connect it to a TUN device and
  to the sockets of an application.  All of it is a shallow embedding: the functions of the C code are functions of
  HOL on an explicit state.

  \<^bold>\<open>The program.\<close>  Raw IP packets are written to the link (\<^verbatim>\<open>native/link.c\<close>), queued (\<^verbatim>\<open>native/queues.c\<close>) and handed over to
  the tcpip thread by a callback (\<^verbatim>\<open>api/tcpip.c\<close>, \<^verbatim>\<open>ports/unix/sys_arch.c\<close>), which feeds them to \<^verbatim>\<open>ip4_input\<close> through the
  single interface (\<^verbatim>\<open>native/interface.c\<close>, \<^verbatim>\<open>core/netif.c\<close>).  UDP (\<^verbatim>\<open>core/udp.c\<close>) delivers to \<^verbatim>\<open>native/udp.c\<close>, TCP
  (\<^verbatim>\<open>core/tcp.c\<close>, \<^verbatim>\<open>tcp_in.c\<close>, \<^verbatim>\<open>tcp_out.c\<close>) to the callbacks of its application; what they send goes through \<^verbatim>\<open>ip4.c\<close> back to
  the queue of the link.

  \<^bold>\<open>The state.\<close>  \<open>Pbuf_Heap\<close> holds the heap: pbufs and blocks of bytes by address, an address that has never been
  used (\<open>hp_brk\<close>), and an oracle \<open>hp_oom\<close> that lets every allocation fail.  \<open>Stack\<close> holds the record \<open>stack\<close> of all static variables
  and objects: the heap, the interface, the links and UDP connections, the control blocks of UDP and TCP, the variables of
  the current packet and segment, the timeouts and the clock.  A result \<open>None\<close> means that the code aborts (a failed
  \<^verbatim>\<open>LWIP_ASSERT\<close> or \<^verbatim>\<open>LWIP_ERROR\<close>, both of which call \<^verbatim>\<open>abort\<close> in this port), follows a dangling or null pointer, accesses
  memory out of bounds or releases something twice; error codes of lwIP are values of \<open>err_t\<close>.  Machine integers are words of their width; the
  C ints of the mailbox (\<open>mb_first\<close>, \<open>mb_last\<close>) are mathematical integers whose overflow, undefined in C, is the result \<open>None\<close>: the two
  counters only grow, so a mailbox serves about 2147483520 messages (\<open>mbox_ready\<close>).

  \<^bold>\<open>The theories.\<close>
  \<^item> \<open>Prelude\<close>: words, lists, the option monad and assertions.  \<open>Transitions\<close> and \<open>Fifo_Spec\<close>: the interfaces, as locales, of
    transition systems with an invariant and of bounded queues that refuse or evict.
  \<^item> \<open>Sys_Mbox\<close> (\<^verbatim>\<open>sys_arch.c\<close>): mailbox and semaphores; \<open>Mbox_Sched\<close>: threads that post and fetch in any interleaving, no lost
    wake-up, and no deadlock as long as the counters do not overflow.
  \<^item> \<open>Pbuf_Heap\<close>, \<open>Pbuf\<close>, \<open>Pbuf_Read\<close>, \<open>Pbuf_Free\<close>, \<open>Pbuf_Mut\<close>, \<open>Pbuf_Alloc\<close>, \<open>Pbuf_Header\<close> (\<^verbatim>\<open>pbuf.c\<close>): the chains of pbufs, first the operations,
    then what each does to the list of bytes of a well-formed packet, to the reference counts and to the rest of the heap.
  \<^item> \<open>Pbuf_Queue\<close> (\<^verbatim>\<open>queues.c\<close>): the ring of 256 packets, which refines a queue that keeps the newest elements.
  \<^item> \<open>Def\<close> (\<^verbatim>\<open>def.c\<close>), \<open>Inet_Chksum\<close> (\<^verbatim>\<open>inet_chksum.c\<close>, against the sum of the 16 bit words of the bytes), \<open>Ip4_Addr\<close> (\<^verbatim>\<open>ip4_addr.c\<close>, reading and
    printing addresses).
  \<^item> \<open>Tcp_Data\<close> and \<open>Stack\<close>: the records of TCP (\<^verbatim>\<open>tcp.h\<close>, \<^verbatim>\<open>tcp_priv.h\<close>) and of the whole state.
  \<^item> \<open>Netif\<close> (\<^verbatim>\<open>netif.c\<close>, \<^verbatim>\<open>interface.c\<close>), \<open>Ip4_Out\<close> and \<open>Ip4_In\<close> (\<^verbatim>\<open>ip4.c\<close>), \<open>Icmp\<close> (\<^verbatim>\<open>icmp.c\<close>).
  \<^item> \<open>Udp_Pcb\<close>, \<open>Udp\<close>, \<open>Udp_Send\<close> (\<^verbatim>\<open>udp.c\<close>): control blocks, demultiplexing and delivery, sending.
  \<^item> \<open>Native\<close> (\<^verbatim>\<open>link.c\<close>, \<^verbatim>\<open>udp.c\<close>): the two ends; the properties that go through the whole stack from one end to the other are here.
  \<^item> \<open>Tcp_Out\<close> (\<^verbatim>\<open>tcp_out.c\<close>), \<open>Timeouts\<close> (\<^verbatim>\<open>timeouts.c\<close>), \<open>Tcp\<close> (\<^verbatim>\<open>tcp.c\<close>), \<open>Tcp_Tmr\<close> (the timers of \<^verbatim>\<open>tcp.c\<close> and what runs them in \<^verbatim>\<open>timeouts.c\<close>),
    \<open>Tcp_Opt\<close> and \<open>Tcp_In\<close> (\<^verbatim>\<open>tcp_in.c\<close>).
  \<^item> \<open>Tcp_Frame\<close>, \<open>Tcp_Wf\<close>, \<open>Tcp_Inv\<close>, \<open>Tcp_Step\<close>, \<open>Tcp_Reach\<close>: what the operations of TCP do to the core of its state (the four lists, states,
    ports and listeners), the invariant, that each operation keeps it, and the transition system of all of them.

  \<^bold>\<open>What the lemmas show.\<close>  Functional behaviour of the packet buffers, the queue, checksums, addresses, UDP, ICMP and IPv4 on
  every branch, the errors included; safety (nothing leaks, nothing is released twice, searches never follow a dangling
  pointer); liveness of the mailbox; the parser of TCP options, the table of selective acknowledgements and the list of timeouts
  against reference definitions; the receive window across the wrap-around of sequence numbers; the transitions of the
  TCP state machine; and an invariant of the lists of control blocks in all reachable states of UDP and of TCP.  That of UDP says
  that two bound control blocks do not clash, but for those that a change of the interface's address has moved to the same address
  (\<open>udp_netif_ip_addr_changed\<close> does not look for clashes).

  \<^bold>\<open>Loops.\<close>  Loops over chains and lists that may be cyclic or dangling in a bad heap are \<open>partial_function (option)\<close>; the lemmas on
  well-formed packets show that they return.  The others are structural or have a measure.  Loops that
  run callbacks, which may change what is iterated over (\<open>tcp_slowtmr_loop\<close>, \<open>tcp_fasttmr_loop\<close>, \<open>sys_check_timeouts_loop\<close>, \<open>tcp_input_recv\<close>), are
  partial functions of the same kind; the invariant is proved for every run that returns.

  \<^bold>\<open>Arguments of the model.\<close>  The callbacks of the TCP application (\<open>tcp_callbacks\<close>; in the program those of \<^verbatim>\<open>api_msg.c\<close>) and the
  input function of TCP in \<open>ip4_input\<close> (\<open>Tcp_In.tcp_input\<close> has its type).  The properties of TCP assume of the callbacks only that each is a sequence of
  calls of the interface of TCP (\<open>tcp_callbacks_api\<close>).  \<open>tcp_bind\<close> is called for control blocks that are not bound
  yet: for others the code would enter the control block into its list a second time.

  \<^bold>\<open>Not modelled.\<close>  The sequential API (\<^verbatim>\<open>api_lib.c\<close>, \<^verbatim>\<open>api_msg.c\<close>, \<^verbatim>\<open>netbuf.c\<close>) and the wrappers around it in \<^verbatim>\<open>native/tcp.c\<close>: they move threads between
  semaphores and mailboxes around the calls of TCP that are modelled.  The start of threads (\<^verbatim>\<open>native/init.c\<close>), the message
  loop of \<^verbatim>\<open>tcpip.c\<close> but for the callback that the program posts, mutexes (they are the granularity of the steps).  \<^verbatim>\<open>mem.c\<close> and \<^verbatim>\<open>memp.c\<close>
  forward to \<^verbatim>\<open>malloc\<close> here.  Not compiled in this configuration: sockets, IPv6, ARP, DHCP, AutoIP, DNS, IGMP, reassembly and
  fragmentation, forwarding, raw and layered control blocks, statistics, timestamps of TCP, the check of its checksum on input.  The bindings to Go marshal arguments.
\<close>

end
